(* ===== verification/Prelude.thy ===== *)
theory Prelude
  imports Main "HOL-Library.AList"
begin

text \<open>
  Shared vocabulary of the development: results with errors as values, loops that stop at the
  first error, insertion-ordered dictionaries, and the text operations of Python that the
  services use.

  Text is a list of characters.  Case mapping and stripping are Python's, restricted to
  characters that carry ASCII case; vendor identifiers are compared character by character, so
  no theorem depends on the case of other letters.
\<close>

named_theorems result_simps \<open>unfolding of results, guards and early exits\<close>
named_theorems dict_simps \<open>lookups in insertion-ordered dictionaries\<close>

section \<open>Results\<close>

definition bindE :: "'e + 'a \<Rightarrow> ('a \<Rightarrow> 'e + 'b) \<Rightarrow> 'e + 'b" where
  "bindE m f = (case m of Inl e \<Rightarrow> Inl e | Inr x \<Rightarrow> f x)"

definition requireE :: "bool \<Rightarrow> 'e \<Rightarrow> 'e + unit" where
  "requireE ok e = (if ok then Inr () else Inl e)"

fun foldE :: "('a \<Rightarrow> 's \<Rightarrow> 'e + 's) \<Rightarrow> 'a list \<Rightarrow> 's \<Rightarrow> 'e + 's" where
  "foldE f [] s = Inr s"
| "foldE f (x # xs) s = bindE (f x s) (foldE f xs)"

fun mapE :: "('a \<Rightarrow> 'e + 'b) \<Rightarrow> 'a list \<Rightarrow> 'e + 'b list" where
  "mapE f [] = Inr []"
| "mapE f (x # xs) = bindE (f x) (\<lambda>y. bindE (mapE f xs) (\<lambda>ys. Inr (y # ys)))"

lemma bindE_simps [simp]:
  "bindE (Inl e) f = Inl e"
  "bindE (Inr x) f = f x"
  by (simp_all add: bindE_def)

lemma bindE_Inr_iff [result_simps]:
  "bindE m f = Inr y \<longleftrightarrow> (\<exists>x. m = Inr x \<and> f x = Inr y)"
  by (cases m) simp_all

lemma bindE_Inl_iff [result_simps]:
  "bindE m f = Inl e \<longleftrightarrow> m = Inl e \<or> (\<exists>x. m = Inr x \<and> f x = Inl e)"
  by (cases m) simp_all

lemma requireE_Inr_iff [result_simps]: "requireE ok e = Inr u \<longleftrightarrow> ok"
  by (simp add: requireE_def)

lemma requireE_Inl_iff [result_simps]: "requireE ok e = Inl e' \<longleftrightarrow> \<not> ok \<and> e' = e"
  by (auto simp: requireE_def)

lemma requireE_True [simp]: "requireE True e = Inr ()"
  by (simp add: requireE_def)

lemma requireE_False [simp]: "requireE False e = Inl e"
  by (simp add: requireE_def)

lemma mapE_set: "mapE f xs = Inr ys \<Longrightarrow> y \<in> set ys \<Longrightarrow> \<exists>x \<in> set xs. f x = Inr y"
  by (induction xs arbitrary: ys) (auto simp: result_simps)

lemma foldE_append:
  "foldE f (xs @ ys) s = bindE (foldE f xs s) (foldE f ys)"
  by (induction xs arbitrary: s) (auto simp: bindE_def split: sum.splits)

text \<open>The two facts every loop with early exit is reasoned with: an invariant of the body is an
  invariant of the loop, and a step relation of the body lifts to the processed prefix.\<close>

lemma foldE_invariant:
  assumes "foldE f xs s = Inr t" "I s"
    and "\<And>x s s'. x \<in> set xs \<Longrightarrow> I s \<Longrightarrow> f x s = Inr s' \<Longrightarrow> I s'"
  shows "I t"
  using assms
proof (induction xs arbitrary: s)
  case Nil
  then show ?case by simp
next
  case (Cons x xs)
  from Cons.prems(1) obtain s' where s': "f x s = Inr s'" "foldE f xs s' = Inr t"
    by (auto simp: result_simps)
  have "I s'" using Cons.prems(2,3) s'(1) by (metis list.set_intros(1))
  with s'(2) show ?case
    using Cons.IH Cons.prems(3) by (metis list.set_intros(2))
qed

lemma foldE_indexed_invariant:
  assumes "foldE f xs s = Inr t" "I [] s"
    and "\<And>ys x zs s s'. xs = ys @ x # zs \<Longrightarrow> I ys s \<Longrightarrow> f x s = Inr s' \<Longrightarrow> I (ys @ [x]) s'"
  shows "I xs t"
  using assms
proof (induction xs arbitrary: t rule: rev_induct)
  case Nil
  then show ?case by simp
next
  case (snoc x xs)
  from snoc.prems(1) obtain u where u: "foldE f xs s = Inr u" "f x u = Inr t"
    by (auto simp: foldE_append result_simps)
  have "I xs u"
  proof (rule snoc.IH[OF u(1) snoc.prems(2)])
    fix ys y zs s s'
    assume "xs = ys @ y # zs" and step: "I ys s" "f y s = Inr s'"
    then have "xs @ [x] = ys @ y # (zs @ [x])" by simp
    from snoc.prems(3)[OF this step] show "I (ys @ [y]) s'" .
  qed
  with snoc.prems(3)[of xs x "[]"] u(2) show ?case by simp
qed

section \<open>Dictionaries that remember insertion order\<close>

text \<open>\<open>AList.update\<close> is Python's item assignment: it replaces the value of a present key in
  place and appends a new key at the end.  \<open>dict_push\<close> is \<open>d.setdefault(k, []).append(x)\<close>.\<close>

definition dict_push :: "'k \<Rightarrow> 'v \<Rightarrow> ('k \<times> 'v list) list \<Rightarrow> ('k \<times> 'v list) list" where
  "dict_push k x d = AList.update k ((case map_of d k of None \<Rightarrow> [] | Some xs \<Rightarrow> xs) @ [x]) d"

definition map_push :: "'k \<Rightarrow> 'v \<Rightarrow> ('k \<rightharpoonup> 'v list) \<Rightarrow> ('k \<rightharpoonup> 'v list)" where
  "map_push k x m = m(k \<mapsto> (case m k of None \<Rightarrow> [] | Some xs \<Rightarrow> xs) @ [x])"

definition group_by :: "('a \<Rightarrow> 'k) \<Rightarrow> 'a list \<Rightarrow> ('k \<times> 'a list) list" where
  "group_by f xs = fold (\<lambda>x. dict_push (f x) x) xs []"

lemma map_of_dict_push [dict_simps]:
  "map_of (dict_push k x d) = (map_of d)(k \<mapsto> (case map_of d k of None \<Rightarrow> [] | Some xs \<Rightarrow> xs) @ [x])"
  by (simp add: dict_push_def update_conv')

lemma distinct_dict_push [intro]:
  "distinct (map fst d) \<Longrightarrow> distinct (map fst (dict_push k x d))"
  by (simp add: dict_push_def distinct_update)

lemma group_by_snoc: "group_by f (xs @ [x]) = dict_push (f x) x (group_by f xs)"
  by (simp add: group_by_def)

lemma distinct_group_by [simp]: "distinct (map fst (group_by f xs))"
  by (induction xs rule: rev_induct) (auto simp: group_by_snoc group_by_def[of f "[]"])

lemma map_of_group_by:
  "map_of (group_by f xs) k =
     (case filter (\<lambda>x. f x = k) xs of [] \<Rightarrow> None | ys \<Rightarrow> Some ys)"
proof (induction xs rule: rev_induct)
  case Nil
  then show ?case by (simp add: group_by_def)
next
  case (snoc x xs)
  then show ?case
    by (auto simp: group_by_snoc dict_simps split: list.splits)
qed

lemma group_by_entry:
  assumes "(k, ys) \<in> set (group_by f xs)"
  shows "ys = filter (\<lambda>x. f x = k) xs \<and> ys \<noteq> []"
proof -
  from assms have "map_of (group_by f xs) k = Some ys" by simp
  then show ?thesis by (auto simp: map_of_group_by split: list.splits)
qed

lemma group_by_member:
  assumes "x \<in> set xs"
  shows "(f x, filter (\<lambda>y. f y = f x) xs) \<in> set (group_by f xs)"
proof -
  from assms have "map_of (group_by f xs) (f x) = Some (filter (\<lambda>y. f y = f x) xs)"
    by (auto simp: map_of_group_by filter_empty_conv split: list.splits)
  then show ?thesis by (rule map_of_SomeD)
qed

section \<open>Keeping the first occurrence\<close>

text \<open>\<open>list(dict.fromkeys(xs))\<close>: the distinct elements in order of first occurrence.\<close>

fun unique_from :: "'a list \<Rightarrow> 'a list \<Rightarrow> 'a list" where
  "unique_from seen [] = []"
| "unique_from seen (x # xs) =
     (if x \<in> set seen then unique_from seen xs else x # unique_from (x # seen) xs)"

definition fromkeys :: "'a list \<Rightarrow> 'a list" where
  "fromkeys xs = unique_from [] xs"

lemma set_unique_from: "set (unique_from seen xs) = set xs - set seen"
  by (induction seen xs rule: unique_from.induct) auto

lemma distinct_unique_from: "distinct (unique_from seen xs)"
  by (induction seen xs rule: unique_from.induct) (auto simp: set_unique_from)

lemma set_fromkeys [simp]: "set (fromkeys xs) = set xs"
  by (simp add: fromkeys_def set_unique_from)

lemma distinct_fromkeys [simp]: "distinct (fromkeys xs)"
  by (simp add: fromkeys_def distinct_unique_from)

lemma length_fromkeys_le: "length (fromkeys xs) \<le> length xs"
  by (metis card_length distinct_card distinct_fromkeys set_fromkeys)

lemma unique_from_id: "distinct xs \<Longrightarrow> set xs \<inter> set seen = {} \<Longrightarrow> unique_from seen xs = xs"
  by (induction seen xs rule: unique_from.induct) auto

lemma fromkeys_distinct_id [simp]: "distinct xs \<Longrightarrow> fromkeys xs = xs"
  by (simp add: fromkeys_def unique_from_id)

section \<open>Text\<close>

text \<open>\<open>str.strip\<close> without arguments removes the whitespace characters on both ends.\<close>

definition is_space :: "char \<Rightarrow> bool" where
  "is_space c = (let n = of_char c :: nat in (9 \<le> n \<and> n \<le> 13) \<or> (28 \<le> n \<and> n \<le> 32) \<or> n = 133 \<or> n = 160)"

definition strip :: "string \<Rightarrow> string" where
  "strip s = rev (dropWhile is_space (rev (dropWhile is_space s)))"

definition lower_char :: "char \<Rightarrow> char" where
  "lower_char c = (let n = of_char c :: nat in if 65 \<le> n \<and> n \<le> 90 then char_of (n + 32) else c)"

definition upper_char :: "char \<Rightarrow> char" where
  "upper_char c = (let n = of_char c :: nat in if 97 \<le> n \<and> n \<le> 122 then char_of (n - 32) else c)"

definition lower :: "string \<Rightarrow> string" where
  "lower s = map lower_char s"

definition upper :: "string \<Rightarrow> string" where
  "upper s = map upper_char s"

lemma strip_Nil [simp]: "strip [] = []"
  by (simp add: strip_def)

lemma strip_id:
  assumes "s \<noteq> [] \<Longrightarrow> \<not> is_space (hd s) \<and> \<not> is_space (last s)"
  shows "strip s = s"
proof (cases s)
  case Nil
  then show ?thesis by simp
next
  case (Cons c t)
  with assms have "dropWhile is_space s = s" by simp
  moreover from Cons assms have "dropWhile is_space (rev s) = rev s"
    by (metis dropWhile_eq_self_iff hd_rev list.distinct(1))
  ultimately show ?thesis by (simp add: strip_def)
qed

lemma strip_ends:
  "strip s \<noteq> [] \<Longrightarrow> \<not> is_space (hd (strip s)) \<and> \<not> is_space (last (strip s))"
proof -
  assume ne: "strip s \<noteq> []"
  let ?t = "dropWhile is_space s"
  let ?u = "dropWhile is_space (rev ?t)"
  have u: "strip s = rev ?u" by (simp add: strip_def)
  from ne u have une: "?u \<noteq> []" by simp
  then have last: "\<not> is_space (last (strip s))"
    using hd_dropWhile u by (metis last_rev)
  from une have tne: "?t \<noteq> []" by (metis dropWhile.simps(1) rev.simps(1))
  obtain pre where pre: "rev ?t = pre @ ?u"
    by (metis takeWhile_dropWhile_id)
  then have "last (rev ?t) = last ?u" using une by (metis last_appendR)
  then have "hd (strip s) = hd ?t"
    using u une tne by (simp add: hd_rev last_rev)
  with hd_dropWhile[OF tne] last show ?thesis by simp
qed

lemma strip_strip [simp]: "strip (strip s) = strip s"
  by (rule strip_id) (rule strip_ends)

text \<open>The names of the lifecycle and role constants never change under \<open>lower\<close>.\<close>

lemma lower_char_idem [simp]: "lower_char (lower_char c) = lower_char c"
  by (auto simp: lower_char_def Let_def)

lemma lower_lower [simp]: "lower (lower s) = lower s"
  by (simp add: lower_def)

text \<open>Substring test, \<open>needle in text\<close>.\<close>

fun is_prefix_of :: "string \<Rightarrow> string \<Rightarrow> bool" where
  "is_prefix_of [] t = True"
| "is_prefix_of (c # s) [] = False"
| "is_prefix_of (c # s) (d # t) = (c = d \<and> is_prefix_of s t)"

fun contains :: "string \<Rightarrow> string \<Rightarrow> bool" where
  "contains s [] = (s = [])"
| "contains s (c # t) = (is_prefix_of s (c # t) \<or> contains s t)"

end
