(* ===== verification/Mac_Address.thy ===== *)
theory Mac_Address
  imports Prelude
begin

text \<open>
  MAC-address identity (\<open>micboard/utils/mac_address.py\<close>): the accepted spellings, the
  canonical lowercase colon-delimited form, and the exact-match variants used by queries
  against rows stored in older spellings.  The two regular expressions are matched by
  recursive recognisers.
\<close>

section \<open>Recognisers and the canonical form\<close>

definition is_hex :: "char \<Rightarrow> bool" where
  "is_hex c = (let n = of_char c :: nat in
     (48 \<le> n \<and> n \<le> 57) \<or> (65 \<le> n \<and> n \<le> 70) \<or> (97 \<le> n \<and> n \<le> 102))"

fun mac_groups :: "nat \<Rightarrow> string \<Rightarrow> bool" where
  "mac_groups 0 s = (s = [])"
| "mac_groups (Suc k) (d # a # b # s) =
     ((d = CHR '':'' \<or> d = CHR ''-'') \<and> is_hex a \<and> is_hex b \<and> mac_groups k s)"
| "mac_groups (Suc k) s = False"

text \<open>The same by arithmetic, for evaluation with machine naturals.\<close>

lemma mac_groups_code [code]:
  "mac_groups n s =
     (if n = 0 then s = []
      else case s of d # a # b # s' \<Rightarrow>
          (d = CHR '':'' \<or> d = CHR ''-'') \<and> is_hex a \<and> is_hex b \<and> mac_groups (n - 1) s'
        | _ \<Rightarrow> False)"
  by (cases "(n, s)" rule: mac_groups.cases) auto

fun delimited_mac :: "string \<Rightarrow> bool" where
  "delimited_mac (a # b # s) = (is_hex a \<and> is_hex b \<and> mac_groups 5 s)"
| "delimited_mac s = False"

definition compact_mac :: "string \<Rightarrow> bool" where
  "compact_mac s = (length s = 12 \<and> list_all is_hex s)"

fun colon_pairs :: "string \<Rightarrow> string" where
  "colon_pairs (a # b # c # s) = a # b # CHR '':'' # colon_pairs (c # s)"
| "colon_pairs s = s"

definition remove_char :: "char \<Rightarrow> string \<Rightarrow> string" where
  "remove_char c s = filter (\<lambda>d. d \<noteq> c) s"

definition canonicalize_mac_address :: "string option \<Rightarrow> string option" where
  "canonicalize_mac_address v =
     (case v of None \<Rightarrow> None
      | Some s \<Rightarrow>
          (let candidate = strip s in
           if delimited_mac candidate
           then Some (colon_pairs (lower (remove_char CHR '':'' (remove_char CHR ''-'' candidate))))
           else if compact_mac candidate then Some (colon_pairs (lower candidate))
           else None))"

definition mac_address_query_variants :: "string \<Rightarrow> string set" where
  "mac_address_query_variants s =
     (case canonicalize_mac_address (Some s) of None \<Rightarrow> {}
      | Some canonical \<Rightarrow>
          (let hyphenated = map (\<lambda>c. if c = CHR '':'' then CHR ''-'' else c) canonical;
               compact = remove_char CHR '':'' canonical
           in {canonical, upper canonical, hyphenated, upper hyphenated, compact, upper compact}))"

section \<open>Facts\<close>

text \<open>A canonical address as a list of six octets of lowercase digits.\<close>

definition is_lower_hex :: "char \<Rightarrow> bool" where
  "is_lower_hex c = (is_hex c \<and> lower_char c = c)"

definition canonical_mac :: "string \<Rightarrow> bool" where
  "canonical_mac s = (\<exists>a1 a2 b1 b2 c1 c2 d1 d2 e1 e2 f1 f2.
     s = [a1, a2, CHR '':'', b1, b2, CHR '':'', c1, c2, CHR '':'', d1, d2, CHR '':'',
          e1, e2, CHR '':'', f1, f2] \<and>
     list_all is_lower_hex [a1, a2, b1, b2, c1, c2, d1, d2, e1, e2, f1, f2])"

lemma is_hex_facts:
  assumes "is_hex c"
  shows "\<not> is_space c" "c \<noteq> CHR '':''" "c \<noteq> CHR ''-''"
  using assms by (auto simp: is_hex_def is_space_def Let_def)

lemma is_hex_lower [simp]: "is_hex c \<Longrightarrow> is_hex (lower_char c)"
  by (auto simp: is_hex_def lower_char_def Let_def)

lemma is_lower_hexD:
  "is_lower_hex c \<Longrightarrow> is_hex c" "is_lower_hex c \<Longrightarrow> lower_char c = c"
  by (simp_all add: is_lower_hex_def)

lemma is_lower_hex_lower [simp]: "is_hex c \<Longrightarrow> is_lower_hex (lower_char c)"
  by (simp add: is_lower_hex_def)

lemma upper_lower_hex:
  assumes "is_lower_hex c"
  shows "is_hex (upper_char c)" "lower_char (upper_char c) = c"
  using assms
  by (auto simp: is_lower_hex_def is_hex_def upper_char_def lower_char_def Let_def)

lemma upper_char_delims [simp]:
  "upper_char CHR '':'' = CHR '':''" "upper_char CHR ''-'' = CHR ''-''"
  by (simp_all add: upper_char_def)

lemma lower_char_delims [simp]:
  "lower_char CHR '':'' = CHR '':''" "lower_char CHR ''-'' = CHR ''-''"
  by (simp_all add: lower_char_def)

lemma delimited_mac_shape:
  assumes "delimited_mac s"
  obtains a1 a2 x1 b1 b2 x2 c1 c2 x3 d1 d2 x4 e1 e2 x5 f1 f2 where
    "s = [a1, a2, x1, b1, b2, x2, c1, c2, x3, d1, d2, x4, e1, e2, x5, f1, f2]"
    "list_all is_hex [a1, a2, b1, b2, c1, c2, d1, d2, e1, e2, f1, f2]"
    "list_all (\<lambda>x. x = CHR '':'' \<or> x = CHR ''-'') [x1, x2, x3, x4, x5]"
proof -
  have step: "\<exists>d a b t. s = d # a # b # t \<and> (d = CHR '':'' \<or> d = CHR ''-'') \<and> is_hex a \<and> is_hex b \<and> mac_groups k t"
    if "mac_groups (Suc k) s" for k s
    using that by (cases "(Suc k, s)" rule: mac_groups.cases) auto
  from assms obtain a1 a2 s1 where s: "s = a1 # a2 # s1" "is_hex a1" "is_hex a2"
      "mac_groups (Suc (Suc (Suc (Suc (Suc 0))))) s1"
    by (cases s rule: delimited_mac.cases) (auto simp: eval_nat_numeral)
  from step[OF s(4)] obtain x1 b1 b2 s2 where 1: "s1 = x1 # b1 # b2 # s2"
      "x1 = CHR '':'' \<or> x1 = CHR ''-''" "is_hex b1" "is_hex b2" "mac_groups (Suc (Suc (Suc (Suc 0)))) s2"
    by blast
  from step[OF 1(5)] obtain x2 c1 c2 s3 where 2: "s2 = x2 # c1 # c2 # s3"
      "x2 = CHR '':'' \<or> x2 = CHR ''-''" "is_hex c1" "is_hex c2" "mac_groups (Suc (Suc (Suc 0))) s3"
    by blast
  from step[OF 2(5)] obtain x3 d1 d2 s4 where 3: "s3 = x3 # d1 # d2 # s4"
      "x3 = CHR '':'' \<or> x3 = CHR ''-''" "is_hex d1" "is_hex d2" "mac_groups (Suc (Suc 0)) s4"
    by blast
  from step[OF 3(5)] obtain x4 e1 e2 s5 where 4: "s4 = x4 # e1 # e2 # s5"
      "x4 = CHR '':'' \<or> x4 = CHR ''-''" "is_hex e1" "is_hex e2" "mac_groups (Suc 0) s5"
    by blast
  from step[OF 4(5)] obtain x5 f1 f2 where 5: "s5 = [x5, f1, f2]"
      "x5 = CHR '':'' \<or> x5 = CHR ''-''" "is_hex f1" "is_hex f2"
    by auto
  show thesis
    by (rule that[of a1 a2 x1 b1 b2 x2 c1 c2 x3 d1 d2 x4 e1 e2 x5 f1 f2])
       (use s 1 2 3 4 5 in simp_all)
qed

lemma compact_mac_shape:
  assumes "compact_mac s"
  obtains a1 a2 b1 b2 c1 c2 d1 d2 e1 e2 f1 f2 where
    "s = [a1, a2, b1, b2, c1, c2, d1, d2, e1, e2, f1, f2]" "list_all is_hex s"
  using assms unfolding compact_mac_def
  by (auto simp: eval_nat_numeral length_Suc_conv)

lemma canonical_macI:
  assumes "list_all is_lower_hex [a1, a2, b1, b2, c1, c2, d1, d2, e1, e2, f1, f2]"
  shows "canonical_mac [a1, a2, CHR '':'', b1, b2, CHR '':'', c1, c2, CHR '':'', d1, d2, CHR '':'',
          e1, e2, CHR '':'', f1, f2]"
  unfolding canonical_mac_def using assms by blast

lemma canonical_of_digits:
  assumes "list_all is_hex [a1, a2, b1, b2, c1, c2, d1, d2, e1, e2, f1, f2]"
  shows "canonical_mac (colon_pairs (lower [a1, a2, b1, b2, c1, c2, d1, d2, e1, e2, f1, f2]))"
proof -
  have "colon_pairs (lower [a1, a2, b1, b2, c1, c2, d1, d2, e1, e2, f1, f2]) =
     [lower_char a1, lower_char a2, CHR '':'', lower_char b1, lower_char b2, CHR '':'',
      lower_char c1, lower_char c2, CHR '':'', lower_char d1, lower_char d2, CHR '':'',
      lower_char e1, lower_char e2, CHR '':'', lower_char f1, lower_char f2]"
    by (simp add: lower_def)
  moreover have "list_all is_lower_hex [lower_char a1, lower_char a2, lower_char b1,
      lower_char b2, lower_char c1, lower_char c2, lower_char d1, lower_char d2, lower_char e1,
      lower_char e2, lower_char f1, lower_char f2]"
    using assms by simp
  ultimately show ?thesis by (simp only: canonical_macI)
qed

text \<open>Removing the delimiters keeps exactly the digits.\<close>

lemma remove_delims:
  "remove_char CHR '':'' (remove_char CHR ''-'' []) = []"
  "is_hex a \<Longrightarrow> remove_char CHR '':'' (remove_char CHR ''-'' (a # s))
     = a # remove_char CHR '':'' (remove_char CHR ''-'' s)"
  "d = CHR '':'' \<or> d = CHR ''-'' \<Longrightarrow> remove_char CHR '':'' (remove_char CHR ''-'' (d # s))
     = remove_char CHR '':'' (remove_char CHR ''-'' s)"
  by (auto simp: remove_char_def dest: is_hex_facts)

text \<open>The three layouts of one address, in either case, all canonicalise to it.\<close>

lemma canonicalize_delimited:
  assumes hx: "list_all is_hex [a1, a2, b1, b2, c1, c2, d1, d2, e1, e2, f1, f2]"
    and dl: "list_all (\<lambda>x. x = CHR '':'' \<or> x = CHR ''-'') [x1, x2, x3, x4, x5]"
  shows "canonicalize_mac_address
      (Some [a1, a2, x1, b1, b2, x2, c1, c2, x3, d1, d2, x4, e1, e2, x5, f1, f2])
    = Some (colon_pairs (lower [a1, a2, b1, b2, c1, c2, d1, d2, e1, e2, f1, f2]))"
proof -
  let ?s = "[a1, a2, x1, b1, b2, x2, c1, c2, x3, d1, d2, x4, e1, e2, x5, f1, f2]"
  have st: "strip ?s = ?s" using hx by (intro strip_id) (simp add: is_hex_facts(1))
  have dm: "delimited_mac ?s" using hx dl by (simp add: eval_nat_numeral)
  have "remove_char CHR '':'' (remove_char CHR ''-'' ?s) = [a1, a2, b1, b2, c1, c2, d1, d2, e1, e2, f1, f2]"
    using hx dl by (simp only: remove_delims list.pred_inject simp_thms)
  with st dm show ?thesis by (simp add: canonicalize_mac_address_def)
qed

lemma canonicalize_compact:
  assumes hx: "list_all is_hex [a1, a2, b1, b2, c1, c2, d1, d2, e1, e2, f1, f2]"
  shows "canonicalize_mac_address (Some [a1, a2, b1, b2, c1, c2, d1, d2, e1, e2, f1, f2])
    = Some (colon_pairs (lower [a1, a2, b1, b2, c1, c2, d1, d2, e1, e2, f1, f2]))"
proof -
  let ?s = "[a1, a2, b1, b2, c1, c2, d1, d2, e1, e2, f1, f2]"
  have st: "strip ?s = ?s" using hx by (intro strip_id) (simp add: is_hex_facts(1))
  have "\<not> delimited_mac ?s" using hx by (simp add: eval_nat_numeral is_hex_facts(2,3))
  with st hx show ?thesis by (simp add: canonicalize_mac_address_def compact_mac_def)
qed

lemma canonicalize_cases:
  assumes "canonicalize_mac_address v = Some c"
  obtains a1 a2 b1 b2 c1 c2 d1 d2 e1 e2 f1 f2 where
    "list_all is_hex [a1, a2, b1, b2, c1, c2, d1, d2, e1, e2, f1, f2]"
    "c = colon_pairs (lower [a1, a2, b1, b2, c1, c2, d1, d2, e1, e2, f1, f2])"
proof -
  from assms obtain s where v: "v = Some s" by (auto simp: canonicalize_mac_address_def split: option.splits)
  have eq: "canonicalize_mac_address (Some (strip s)) = Some c"
    using assms v by (simp add: canonicalize_mac_address_def)
  show thesis
  proof (cases "delimited_mac (strip s)")
    case True
    then show thesis
      by (rule delimited_mac_shape) (rule that, assumption, use eq in \<open>simp only: canonicalize_delimited option.inject\<close>)
  next
    case False
    with assms v have "compact_mac (strip s)"
      by (auto simp: canonicalize_mac_address_def Let_def split: if_splits)
    then show thesis
      by (rule compact_mac_shape) (rule that, simp, use eq in \<open>simp only: canonicalize_compact option.inject\<close>)
  qed
qed

lemma canonicalize_canonical:
  assumes "canonicalize_mac_address v = Some c"
  shows "canonical_mac c"
  using assms by (rule canonicalize_cases) (simp only: canonical_of_digits)

lemma canonical_macE:
  assumes "canonical_mac s"
  obtains a1 a2 b1 b2 c1 c2 d1 d2 e1 e2 f1 f2 where
    "s = [a1, a2, CHR '':'', b1, b2, CHR '':'', c1, c2, CHR '':'', d1, d2, CHR '':'',
          e1, e2, CHR '':'', f1, f2]"
    "list_all is_lower_hex [a1, a2, b1, b2, c1, c2, d1, d2, e1, e2, f1, f2]"
  using assms unfolding canonical_mac_def by blast

lemma canonicalize_of_canonical:
  assumes "canonical_mac c"
  shows "canonicalize_mac_address (Some c) = Some c"
  using assms
  by (elim canonical_macE)
     (auto simp: canonicalize_delimited lower_def is_lower_hexD)

lemma canonicalize_variant:
  assumes "canonical_mac c" "x \<in> mac_address_query_variants c"
  shows "canonicalize_mac_address (Some x) = Some c"
proof -
  from assms(1) show ?thesis
  proof (rule canonical_macE)
    fix a1 a2 b1 b2 c1 c2 d1 d2 e1 e2 f1 f2
    assume c: "c = [a1, a2, CHR '':'', b1, b2, CHR '':'', c1, c2, CHR '':'', d1, d2, CHR '':'',
          e1, e2, CHR '':'', f1, f2]"
      and h: "list_all is_lower_hex [a1, a2, b1, b2, c1, c2, d1, d2, e1, e2, f1, f2]"
    have nd: "z \<noteq> CHR '':''" if "is_lower_hex z" for z
      using that by (auto dest: is_lower_hexD is_hex_facts)
    have hy: "map (\<lambda>c. if c = CHR '':'' then CHR ''-'' else c) c =
        [a1, a2, CHR ''-'', b1, b2, CHR ''-'', c1, c2, CHR ''-'', d1, d2, CHR ''-'', e1, e2, CHR ''-'', f1, f2]"
      using h by (auto simp: c dest: nd)
    have co: "remove_char CHR '':'' c = [a1, a2, b1, b2, c1, c2, d1, d2, e1, e2, f1, f2]"
      using h by (auto simp: c remove_char_def dest: nd)
    from assms(2) canonicalize_of_canonical[OF assms(1)]
    have x: "x \<in> {c, upper c, map (\<lambda>c. if c = CHR '':'' then CHR ''-'' else c) c,
        upper (map (\<lambda>c. if c = CHR '':'' then CHR ''-'' else c) c),
        remove_char CHR '':'' c, upper (remove_char CHR '':'' c)}"
      by (simp add: mac_address_query_variants_def Let_def)
    have hx: "list_all is_hex [a1, a2, b1, b2, c1, c2, d1, d2, e1, e2, f1, f2]"
      and lo: "map lower_char [a1, a2, b1, b2, c1, c2, d1, d2, e1, e2, f1, f2]
          = [a1, a2, b1, b2, c1, c2, d1, d2, e1, e2, f1, f2]"
      and uh: "list_all is_hex (map upper_char [a1, a2, b1, b2, c1, c2, d1, d2, e1, e2, f1, f2])"
      and lu: "map lower_char (map upper_char [a1, a2, b1, b2, c1, c2, d1, d2, e1, e2, f1, f2])
          = [a1, a2, b1, b2, c1, c2, d1, d2, e1, e2, f1, f2]"
      using h by (simp_all add: is_lower_hexD upper_lower_hex)
    show ?thesis
      using x hx lo uh lu unfolding hy co unfolding c
      by (auto simp: canonicalize_delimited canonicalize_compact upper_def lower_def)
  qed
qed

lemma canonical_in_variants: "canonical_mac c \<Longrightarrow> c \<in> mac_address_query_variants c"
  by (simp add: mac_address_query_variants_def canonicalize_of_canonical Let_def)

lemma canonical_nonempty: "canonical_mac c \<Longrightarrow> c \<noteq> []"
  by (auto simp: canonical_mac_def)

lemma canonicalize_nonempty: "canonicalize_mac_address v = Some c \<Longrightarrow> c \<noteq> []"
  by (rule canonical_nonempty[OF canonicalize_canonical])

lemma canonicalize_idem:
  "canonicalize_mac_address v = Some c \<Longrightarrow> canonicalize_mac_address (Some c) = Some c"
  by (rule canonicalize_of_canonical[OF canonicalize_canonical])

text \<open>The spellings in one letter case and with one delimiter, or none: the ones rows were stored in.\<close>

definition uniform_spelling :: "string \<Rightarrow> bool" where
  "uniform_spelling x \<longleftrightarrow> (x = lower x \<or> x = upper x)
     \<and> (list_all (\<lambda>d. is_hex d \<or> d = CHR '':'') x \<or> list_all (\<lambda>d. is_hex d \<or> d = CHR ''-'') x)"

lemma upper_of_lower: "is_hex a \<Longrightarrow> upper_char (lower_char a) = upper_char a"
  by (auto simp: is_hex_def upper_char_def lower_char_def Let_def)

lemma lower_hex_upper: "is_lower_hex a \<Longrightarrow> is_hex (upper_char a) \<and> upper_char (upper_char a) = upper_char a"
  using upper_of_lower[of "upper_char a"] upper_lower_hex[of a] by (metis is_lower_hexD(2))

definition spelled :: "(char \<Rightarrow> char) \<Rightarrow> char list \<Rightarrow> string set" where
  "spelled g ds = (case map g ds of
     [a1, a2, b1, b2, c1, c2, d1, d2, e1, e2, f1, f2] \<Rightarrow>
       {[a1, a2, CHR '':'', b1, b2, CHR '':'', c1, c2, CHR '':'', d1, d2, CHR '':'', e1, e2, CHR '':'', f1, f2],
        [a1, a2, CHR ''-'', b1, b2, CHR ''-'', c1, c2, CHR ''-'', d1, d2, CHR ''-'', e1, e2, CHR ''-'', f1, f2],
        [a1, a2, b1, b2, c1, c2, d1, d2, e1, e2, f1, f2]}
   | _ \<Rightarrow> {})"

lemma variants_of_canonical:
  assumes c: "c = [a1, a2, CHR '':'', b1, b2, CHR '':'', c1, c2, CHR '':'', d1, d2, CHR '':'',
          e1, e2, CHR '':'', f1, f2]"
    and h: "list_all is_lower_hex [a1, a2, b1, b2, c1, c2, d1, d2, e1, e2, f1, f2]"
  shows "mac_address_query_variants c = spelled (\<lambda>d. d) [a1, a2, b1, b2, c1, c2, d1, d2, e1, e2, f1, f2]
     \<union> spelled upper_char [a1, a2, b1, b2, c1, c2, d1, d2, e1, e2, f1, f2]"
proof -
  have cm: "canonical_mac c" unfolding canonical_mac_def using c h by blast
  have nd: "z \<noteq> CHR '':''" if "is_lower_hex z" for z
    using that by (auto dest: is_lower_hexD is_hex_facts)
  have hy: "map (\<lambda>c. if c = CHR '':'' then CHR ''-'' else c) c =
      [a1, a2, CHR ''-'', b1, b2, CHR ''-'', c1, c2, CHR ''-'', d1, d2, CHR ''-'', e1, e2, CHR ''-'', f1, f2]"
    using h by (auto simp: c dest: nd)
  have co: "remove_char CHR '':'' c = [a1, a2, b1, b2, c1, c2, d1, d2, e1, e2, f1, f2]"
    using h by (auto simp: c remove_char_def dest: nd)
  have "mac_address_query_variants c = {c, upper c, map (\<lambda>c. if c = CHR '':'' then CHR ''-'' else c) c,
      upper (map (\<lambda>c. if c = CHR '':'' then CHR ''-'' else c) c),
      remove_char CHR '':'' c, upper (remove_char CHR '':'' c)}"
    by (simp add: mac_address_query_variants_def canonicalize_of_canonical[OF cm] Let_def)
  then show ?thesis unfolding hy co unfolding c spelled_def by (auto simp: upper_def)
qed

lemma spelled_uniform:
  assumes "list_all is_hex (map g ds)" "map g ds = lower (map g ds) \<or> map g ds = upper (map g ds)" "x \<in> spelled g ds"
  shows "uniform_spelling x"
proof -
  from assms(3) obtain a1 a2 b1 b2 c1 c2 d1 d2 e1 e2 f1 f2
    where m: "map g ds = [a1, a2, b1, b2, c1, c2, d1, d2, e1, e2, f1, f2]"
      and x: "x = [a1, a2, CHR '':'', b1, b2, CHR '':'', c1, c2, CHR '':'', d1, d2, CHR '':'', e1, e2, CHR '':'', f1, f2]
      \<or> x = [a1, a2, CHR ''-'', b1, b2, CHR ''-'', c1, c2, CHR ''-'', d1, d2, CHR ''-'', e1, e2, CHR ''-'', f1, f2]
      \<or> x = [a1, a2, b1, b2, c1, c2, d1, d2, e1, e2, f1, f2]"
    unfolding spelled_def by (simp split: list.splits)
  from x assms(1,2) show ?thesis
    unfolding m uniform_spelling_def by (elim disjE) (simp_all add: lower_def upper_def)
qed

lemma variant_uniform:
  assumes "canonical_mac c" "x \<in> mac_address_query_variants c"
  shows "uniform_spelling x"
  using assms(1)
proof (rule canonical_macE)
  fix a1 a2 b1 b2 c1 c2 d1 d2 e1 e2 f1 f2
  assume c: "c = [a1, a2, CHR '':'', b1, b2, CHR '':'', c1, c2, CHR '':'', d1, d2, CHR '':'',
          e1, e2, CHR '':'', f1, f2]"
    and h: "list_all is_lower_hex [a1, a2, b1, b2, c1, c2, d1, d2, e1, e2, f1, f2]"
  let ?ds = "[a1, a2, b1, b2, c1, c2, d1, d2, e1, e2, f1, f2]"
  have "list_all is_hex (map (\<lambda>d. d) ?ds)" "map (\<lambda>d. d) ?ds = lower (map (\<lambda>d. d) ?ds)"
    "list_all is_hex (map upper_char ?ds)" "map upper_char ?ds = upper (map upper_char ?ds)"
    using h by (simp_all add: is_lower_hexD lower_hex_upper lower_def upper_def)
  with assms(2) spelled_uniform show ?thesis
    unfolding variants_of_canonical[OF c h] by blast
qed

lemma space_not_spelled: "is_space d \<Longrightarrow> \<not> is_hex d \<and> d \<noteq> CHR '':'' \<and> d \<noteq> CHR ''-''"
  by (auto simp: is_hex_def is_space_def Let_def)

lemma hex_delims: "\<not> is_hex CHR '':''" "\<not> is_hex CHR ''-''"
  by (simp_all add: is_hex_def)

lemma one_delimiter:
  assumes u: "uniform_spelling [a1, a2, x1, b1, b2, x2, c1, c2, x3, d1, d2, x4, e1, e2, x5, f1, f2]"
    and dl: "list_all (\<lambda>x. x = CHR '':'' \<or> x = CHR ''-'') [x1, x2, x3, x4, x5]"
  shows "x1 = x2 \<and> x2 = x3 \<and> x3 = x4 \<and> x4 = x5"
proof -
  have "list_all (\<lambda>d. d = q) [x1, x2, x3, x4, x5]" if "q = CHR '':'' \<or> q = CHR ''-''"
    and "list_all (\<lambda>d. is_hex d \<or> d = q) [x1, x2, x3, x4, x5]" for q
  proof -
    have "d = q" if "d \<in> set [x1, x2, x3, x4, x5]" for d
    proof -
      have "is_hex d \<or> d = q" "d = CHR '':'' \<or> d = CHR ''-''"
        using that dl \<open>list_all (\<lambda>d. is_hex d \<or> d = q) [x1, x2, x3, x4, x5]\<close>
        unfolding list_all_iff by blast+
      then show "d = q" using hex_delims by blast
    qed
    then show ?thesis unfolding list_all_iff by blast
  qed
  moreover have "list_all (\<lambda>d. is_hex d \<or> d = CHR '':'') [x1, x2, x3, x4, x5]
      \<or> list_all (\<lambda>d. is_hex d \<or> d = CHR ''-'') [x1, x2, x3, x4, x5]"
    using u[unfolded uniform_spelling_def, THEN conjunct2]
    by (elim disjE) (simp_all only: list.pred_inject simp_thms)
  ultimately obtain q where "list_all (\<lambda>d. d = q) [x1, x2, x3, x4, x5]" by blast
  then show ?thesis by simp
qed

lemma uniform_variant:
  assumes can: "canonicalize_mac_address (Some x) = Some c" and u: "uniform_spelling x"
  shows "x \<in> mac_address_query_variants c"
proof -
  have no_space: "strip x = x"
    using u by (intro strip_id) (auto simp: uniform_spelling_def list_all_iff dest!: space_not_spelled)
  have "canonical_mac c" using can by (rule canonicalize_canonical)
  then show ?thesis
  proof (cases "delimited_mac x")
    case True
    then show ?thesis
    proof (rule delimited_mac_shape)
      fix a1 a2 x1 b1 b2 x2 c1 c2 x3 d1 d2 x4 e1 e2 x5 f1 f2
      assume x: "x = [a1, a2, x1, b1, b2, x2, c1, c2, x3, d1, d2, x4, e1, e2, x5, f1, f2]"
        and hx: "list_all is_hex [a1, a2, b1, b2, c1, c2, d1, d2, e1, e2, f1, f2]"
        and dl: "list_all (\<lambda>x. x = CHR '':'' \<or> x = CHR ''-'') [x1, x2, x3, x4, x5]"
      have c: "c = [lower_char a1, lower_char a2, CHR '':'', lower_char b1, lower_char b2, CHR '':'',
        lower_char c1, lower_char c2, CHR '':'', lower_char d1, lower_char d2, CHR '':'',
        lower_char e1, lower_char e2, CHR '':'', lower_char f1, lower_char f2]"
        using can unfolding x canonicalize_delimited[OF hx dl] by (simp add: lower_def)
      have h: "list_all is_lower_hex [lower_char a1, lower_char a2, lower_char b1, lower_char b2, lower_char c1,
        lower_char c2, lower_char d1, lower_char d2, lower_char e1, lower_char e2, lower_char f1, lower_char f2]"
        using hx by simp
      have dd: "x1 = x2 \<and> x2 = x3 \<and> x3 = x4 \<and> x4 = x5"
        by (rule one_delimiter[OF u[unfolded x] dl])
      have ul: "list_all (\<lambda>d. upper_char (lower_char d) = upper_char d) [a1, a2, b1, b2, c1, c2, d1, d2, e1, e2, f1, f2]"
        using hx by (simp add: upper_of_lower)
      consider "x = lower x" | "x = upper x" using u by (auto simp: uniform_spelling_def)
      then show ?thesis
      proof cases
        case 1
        then show ?thesis unfolding variants_of_canonical[OF c h] unfolding x spelled_def
          using dd dl by (simp add: lower_def)
      next
        case 2
        then show ?thesis unfolding variants_of_canonical[OF c h] unfolding x spelled_def
          using dd dl ul by (simp add: upper_def) blast
      qed
    qed
  next
    case False
    with can no_space have "compact_mac x"
      by (auto simp: canonicalize_mac_address_def Let_def split: if_splits)
    then show ?thesis
    proof (rule compact_mac_shape)
      fix a1 a2 b1 b2 c1 c2 d1 d2 e1 e2 f1 f2
      assume x: "x = [a1, a2, b1, b2, c1, c2, d1, d2, e1, e2, f1, f2]" and "list_all is_hex x"
      then have hx: "list_all is_hex [a1, a2, b1, b2, c1, c2, d1, d2, e1, e2, f1, f2]" by simp
      have c: "c = [lower_char a1, lower_char a2, CHR '':'', lower_char b1, lower_char b2, CHR '':'',
        lower_char c1, lower_char c2, CHR '':'', lower_char d1, lower_char d2, CHR '':'',
        lower_char e1, lower_char e2, CHR '':'', lower_char f1, lower_char f2]"
        using can unfolding x canonicalize_compact[OF hx] by (simp add: lower_def)
      have h: "list_all is_lower_hex [lower_char a1, lower_char a2, lower_char b1, lower_char b2, lower_char c1,
        lower_char c2, lower_char d1, lower_char d2, lower_char e1, lower_char e2, lower_char f1, lower_char f2]"
        using hx by simp
      have ul: "list_all (\<lambda>d. upper_char (lower_char d) = upper_char d) [a1, a2, b1, b2, c1, c2, d1, d2, e1, e2, f1, f2]"
        using hx by (simp add: upper_of_lower)
      consider "x = lower x" | "x = upper x" using u by (auto simp: uniform_spelling_def)
      then show ?thesis
      proof cases
        case 1
        then show ?thesis unfolding variants_of_canonical[OF c h] unfolding x spelled_def
          by (simp add: lower_def)
      next
        case 2
        then show ?thesis unfolding variants_of_canonical[OF c h] unfolding x spelled_def
          using ul by (simp add: upper_def)
      qed
    qed
  qed
qed

lemma variants_of_accepted:
  "canonicalize_mac_address (Some s) = Some c \<Longrightarrow> mac_address_query_variants s = mac_address_query_variants c"
  by (simp add: mac_address_query_variants_def canonicalize_idem)

section \<open>Properties\<close>

text \<open>C2: every accepted spelling has one canonical form: it has 17 characters and canonicalising
  again changes nothing.  The query variants of any accepted spelling are exactly the spellings of
  the same address in one letter case with one delimiter (colon, hyphen or none), and at most six:
  a lookup by variants never confuses two addresses and misses no row stored in such a spelling.\<close>

theorem mac_identity_canonical:
  assumes "canonicalize_mac_address (Some s) = Some c"
  shows "length c = 17 \<and> canonicalize_mac_address (Some c) = Some c
    \<and> mac_address_query_variants s = {x. canonicalize_mac_address (Some x) = Some c \<and> uniform_spelling x}
    \<and> card (mac_address_query_variants s) \<le> 6"
proof -
  have c: "canonical_mac c" using assms by (rule canonicalize_canonical)
  then have len: "length c = 17" by (auto simp: canonical_mac_def)
  have "card {w1, w2, w3, w4, w5, w6} \<le> 6" for w1 w2 w3 w4 w5 w6 :: string
    using card_length[of "[w1, w2, w3, w4, w5, w6]"] by simp
  then have card: "card (mac_address_query_variants c) \<le> 6"
    by (simp add: mac_address_query_variants_def canonicalize_of_canonical[OF c] Let_def)
  have "mac_address_query_variants c = {x. canonicalize_mac_address (Some x) = Some c \<and> uniform_spelling x}"
    using canonicalize_variant[OF c] variant_uniform[OF c] uniform_variant by blast
  with len c card variants_of_accepted[OF assms] show ?thesis
    by (simp add: canonicalize_of_canonical)
qed

theorem mac_identity_canonical_witness:
  "{''00:0e:dd:ab:cd:01'', ''00:0E:DD:AB:CD:01'', ''00-0e-dd-ab-cd-01'', ''00-0E-DD-AB-CD-01'',
      ''000eddabcd01'', ''000EDDABCD01''} \<subseteq> mac_address_query_variants '' 00-0E:DD-aB:cd-01 ''
   \<and> ''00-0E:DD-aB:cd-01'' \<notin> mac_address_query_variants '' 00-0E:DD-aB:cd-01 ''
   \<and> ''00:0e:dd:ab:cd:02'' \<notin> mac_address_query_variants '' 00-0E:DD-aB:cd-01 ''"
proof -
  have "canonicalize_mac_address (Some '' 00-0E:DD-aB:cd-01 '') = Some ''00:0e:dd:ab:cd:01''"
    by code_simp
  from mac_identity_canonical[OF this] have eq: "mac_address_query_variants '' 00-0E:DD-aB:cd-01 ''
      = {x. canonicalize_mac_address (Some x) = Some ''00:0e:dd:ab:cd:01'' \<and> uniform_spelling x}"
    by simp
  have "list_all (\<lambda>x. canonicalize_mac_address (Some x) = Some ''00:0e:dd:ab:cd:01'' \<and> uniform_spelling x)
      [''00:0e:dd:ab:cd:01'', ''00:0E:DD:AB:CD:01'', ''00-0e-dd-ab-cd-01'', ''00-0E-DD-AB-CD-01'',
        ''000eddabcd01'', ''000EDDABCD01'']"
    "\<not> uniform_spelling ''00-0E:DD-aB:cd-01''"
    "canonicalize_mac_address (Some ''00:0e:dd:ab:cd:02'') \<noteq> Some ''00:0e:dd:ab:cd:01''"
    by code_simp+
  then show ?thesis unfolding eq by simp
qed

end
