(* ===== verification/Models.thy ===== *)
theory Models
  imports Complex_Main Mac_Address
begin

text \<open>
  The rows the services read and write: one record per Django model, with the model's fields,
  and the database as one record of tables.  A row's primary key is a natural number, a foreign
  key is the referenced key, a nullable column is an option, a \<open>JSONField\<close> is a \<open>json\<close>
  value, and times are microseconds.  Frequencies are rationals: the code compares, stores and
  prints them and does no other arithmetic on them.

  A queryset is a filter of a table; \<open>qs_get\<close> is \<open>QuerySet.get\<close> with its two failures.
\<close>

type_synonym time = int

datatype json =
    JNull
  | JBool bool
  | JInt int
  | JNum rat
  | JStr string
  | JList "json list"
  | JObj "(string \<times> json) list"

record manufacturer =
  mf_pk :: nat
  mf_name :: string
  mf_code :: string
  mf_active :: bool
  mf_config :: json

record chassis =
  ch_pk :: nat
  ch_role :: string
  ch_manufacturer :: nat
  ch_api_id :: string
  ch_serial :: string
  ch_mac :: "string option"
  ch_model :: string
  ch_name :: string
  ch_fqdn :: string
  ch_description :: string
  ch_protocol_family :: string
  ch_wmas :: bool
  ch_licensed_resources :: nat
  ch_ip :: string
  ch_subnet :: "string option"
  ch_gateway :: "string option"
  ch_network_mode :: string
  ch_interface_id :: string
  ch_mac_secondary :: string
  ch_ip_secondary :: "string option"
  ch_firmware :: string
  ch_hosted_firmware :: string
  ch_location :: "nat option"
  ch_order :: nat
  ch_status :: string
  ch_last_seen :: "time option"
  ch_is_online :: bool
  ch_last_online :: "time option"
  ch_last_offline :: "time option"
  ch_uptime :: int
  ch_max_channels :: int
  ch_dante :: bool
  ch_band_min :: "rat option"
  ch_band_max :: "rat option"
  ch_band_name :: string

record charger =
  cg_pk :: nat
  cg_location :: nat
  cg_manufacturer :: "nat option"
  cg_model :: string
  cg_serial :: string
  cg_name :: string
  cg_fqdn :: string
  cg_order :: nat
  cg_ip :: "string option"
  cg_slot_count :: nat
  cg_active :: bool
  cg_status :: string
  cg_device_type :: string
  cg_firmware :: string
  cg_last_seen :: "time option"
  cg_updated :: time

record queue_entry =
  dq_pk :: nat
  dq_manufacturer :: nat
  dq_serial :: string
  dq_api_id :: string
  dq_ip :: string
  dq_device_type :: string
  dq_model :: string
  dq_name :: string
  dq_fqdn :: string
  dq_firmware :: string
  dq_metadata :: json
  dq_status :: string
  dq_discovered_at :: time
  dq_reviewed_at :: "time option"
  dq_reviewed_by :: "nat option"
  dq_notes :: string
  dq_existing_device :: "nat option"
  dq_existing_charger :: "nat option"
  dq_is_duplicate :: bool
  dq_is_ip_conflict :: bool
  dq_is_duplicate_api_id :: bool
  dq_api_id_conflict_count :: int

record rf_channel =
  rf_pk :: nat
  rf_chassis :: nat
  rf_number :: int
  rf_direction :: string
  rf_protocol_family :: string
  rf_wmas_profile :: string
  rf_licensed :: bool
  rf_enabled :: bool
  rf_state :: string
  rf_frequency :: "rat option"
  rf_signal_strength :: "int option"
  rf_audio_level :: "int option"
  rf_signal_quality :: "int option"
  rf_muted :: bool
  rf_active_unit :: "nat option"
  rf_iem_mix_level :: "int option"
  rf_iem_link_quality :: "int option"
  rf_active_iem :: "nat option"

record wireless_unit =
  un_pk :: nat
  un_device_type :: string
  un_base_chassis :: nat
  un_protocol_family :: string
  un_wmas_profile :: string
  un_assigned_resource :: "nat option"
  un_manufacturer :: nat
  un_model :: string
  un_serial :: string
  un_name :: string
  un_slot :: int
  un_battery :: int
  un_battery_charge :: "int option"
  un_battery_runtime :: string
  un_battery_type :: string
  un_battery_health :: string
  un_battery_cycles :: "int option"
  un_battery_temperature :: "rat option"
  un_audio_level :: int
  un_rf_level :: int
  un_frequency :: string
  un_antenna :: string
  un_tx_offset :: int
  un_quality :: int
  un_iem_link_quality :: "int option"
  un_iem_audio_level :: "int option"
  un_firmware :: string
  un_status :: string
  un_api_status :: string
  un_charging :: bool
  un_muted :: bool
  un_last_seen :: "time option"
  un_updated :: time

record regulatory_domain =
  rd_code :: string
  rd_country :: string
  rd_min :: rat
  rd_max :: rat

record frequency_band =
  fb_domain :: string
  fb_start :: rat
  fb_end :: rat
  fb_type :: string

text \<open>The part of a location the services read: its building's regulatory domain and country.\<close>

record building =
  bd_domain :: "regulatory_domain option"
  bd_country :: string
  bd_organization :: "nat option"

record location =
  lo_pk :: nat
  lo_building :: "building option"

section \<open>Columns of a chassis\<close>

text \<open>The columns, as the \<open>update_fields\<close> of a save and the fields of a write name them;
  \<open>copy_field f src dst\<close> sets the one column of \<open>dst\<close> to its value in \<open>src\<close>.\<close>

datatype chassis_field =
    FRole | FManufacturer | FApiId | FSerial | FMac | FModel | FName | FFqdn | FDescription |
  FProtocolFamily | FWmas | FLicensed | FIp | FSubnet | FGateway | FNetworkMode |
  FInterfaceId | FMacSecondary | FIpSecondary | FFirmware | FHostedFirmware | FLocation |
  FOrder | FStatus | FLastSeen | FIsOnline | FLastOnline | FLastOffline | FUptime |
  FMaxChannels | FDante | FBandMin | FBandMax | FBandName

fun copy_field :: "chassis_field \<Rightarrow> chassis \<Rightarrow> chassis \<Rightarrow> chassis" where
  "copy_field FRole src dst = dst\<lparr>ch_role := ch_role src\<rparr>"
| "copy_field FManufacturer src dst = dst\<lparr>ch_manufacturer := ch_manufacturer src\<rparr>"
| "copy_field FApiId src dst = dst\<lparr>ch_api_id := ch_api_id src\<rparr>"
| "copy_field FSerial src dst = dst\<lparr>ch_serial := ch_serial src\<rparr>"
| "copy_field FMac src dst = dst\<lparr>ch_mac := ch_mac src\<rparr>"
| "copy_field FModel src dst = dst\<lparr>ch_model := ch_model src\<rparr>"
| "copy_field FName src dst = dst\<lparr>ch_name := ch_name src\<rparr>"
| "copy_field FFqdn src dst = dst\<lparr>ch_fqdn := ch_fqdn src\<rparr>"
| "copy_field FDescription src dst = dst\<lparr>ch_description := ch_description src\<rparr>"
| "copy_field FProtocolFamily src dst = dst\<lparr>ch_protocol_family := ch_protocol_family src\<rparr>"
| "copy_field FWmas src dst = dst\<lparr>ch_wmas := ch_wmas src\<rparr>"
| "copy_field FLicensed src dst = dst\<lparr>ch_licensed_resources := ch_licensed_resources src\<rparr>"
| "copy_field FIp src dst = dst\<lparr>ch_ip := ch_ip src\<rparr>"
| "copy_field FSubnet src dst = dst\<lparr>ch_subnet := ch_subnet src\<rparr>"
| "copy_field FGateway src dst = dst\<lparr>ch_gateway := ch_gateway src\<rparr>"
| "copy_field FNetworkMode src dst = dst\<lparr>ch_network_mode := ch_network_mode src\<rparr>"
| "copy_field FInterfaceId src dst = dst\<lparr>ch_interface_id := ch_interface_id src\<rparr>"
| "copy_field FMacSecondary src dst = dst\<lparr>ch_mac_secondary := ch_mac_secondary src\<rparr>"
| "copy_field FIpSecondary src dst = dst\<lparr>ch_ip_secondary := ch_ip_secondary src\<rparr>"
| "copy_field FFirmware src dst = dst\<lparr>ch_firmware := ch_firmware src\<rparr>"
| "copy_field FHostedFirmware src dst = dst\<lparr>ch_hosted_firmware := ch_hosted_firmware src\<rparr>"
| "copy_field FLocation src dst = dst\<lparr>ch_location := ch_location src\<rparr>"
| "copy_field FOrder src dst = dst\<lparr>ch_order := ch_order src\<rparr>"
| "copy_field FStatus src dst = dst\<lparr>ch_status := ch_status src\<rparr>"
| "copy_field FLastSeen src dst = dst\<lparr>ch_last_seen := ch_last_seen src\<rparr>"
| "copy_field FIsOnline src dst = dst\<lparr>ch_is_online := ch_is_online src\<rparr>"
| "copy_field FLastOnline src dst = dst\<lparr>ch_last_online := ch_last_online src\<rparr>"
| "copy_field FLastOffline src dst = dst\<lparr>ch_last_offline := ch_last_offline src\<rparr>"
| "copy_field FUptime src dst = dst\<lparr>ch_uptime := ch_uptime src\<rparr>"
| "copy_field FMaxChannels src dst = dst\<lparr>ch_max_channels := ch_max_channels src\<rparr>"
| "copy_field FDante src dst = dst\<lparr>ch_dante := ch_dante src\<rparr>"
| "copy_field FBandMin src dst = dst\<lparr>ch_band_min := ch_band_min src\<rparr>"
| "copy_field FBandMax src dst = dst\<lparr>ch_band_max := ch_band_max src\<rparr>"
| "copy_field FBandName src dst = dst\<lparr>ch_band_name := ch_band_name src\<rparr>"

definition copy_fields :: "chassis_field list \<Rightarrow> chassis \<Rightarrow> chassis \<Rightarrow> chassis" where
  "copy_fields fs src dst = fold (\<lambda>f. copy_field f src) fs dst"

section \<open>Querysets\<close>

text \<open>
  An address on its way to the database, \<open>GenericIPAddressField.get_prep_value\<close>: a text with a colon is
  cleaned by Django's \<open>clean_ipv6_address\<close>, a parameter, and kept as it is where that refuses it.
\<close>

definition prepared_ip :: "(string \<Rightarrow> string option) \<Rightarrow> string \<Rightarrow> string" where
  "prepared_ip clean v =
     (if CHR '':'' \<in> set v then (case clean v of None \<Rightarrow> v | Some s \<Rightarrow> s) else v)"

datatype orm_error = DoesNotExist | MultipleObjectsReturned

definition qs_get :: "('r \<Rightarrow> bool) \<Rightarrow> 'r list \<Rightarrow> orm_error + 'r" where
  "qs_get P rows =
     (case filter P rows of
        [] \<Rightarrow> Inl DoesNotExist
      | [r] \<Rightarrow> Inr r
      | _ \<Rightarrow> Inl MultipleObjectsReturned)"

definition qs_first :: "('r \<Rightarrow> bool) \<Rightarrow> 'r list \<Rightarrow> 'r option" where
  "qs_first P rows = (case filter P rows of [] \<Rightarrow> None | r # _ \<Rightarrow> Some r)"

text \<open>At most one row, as both \<open>get\<close> with its \<open>DoesNotExist\<close> caught and the indexed lookups
  classify their candidates.\<close>

fun at_most_one :: "'r list \<Rightarrow> orm_error + 'r option" where
  "at_most_one [] = Inr None"
| "at_most_one [r] = Inr (Some r)"
| "at_most_one (r # r' # rs) = Inl MultipleObjectsReturned"

definition qs_get_or_none :: "('r \<Rightarrow> bool) \<Rightarrow> 'r list \<Rightarrow> orm_error + 'r option" where
  "qs_get_or_none P rows =
     (case qs_get P rows of
        Inl DoesNotExist \<Rightarrow> Inr None
      | Inl MultipleObjectsReturned \<Rightarrow> Inl MultipleObjectsReturned
      | Inr r \<Rightarrow> Inr (Some r))"

lemma qs_get_or_none_filter: "qs_get_or_none P rows = at_most_one (filter P rows)"
  by (cases "filter P rows" rule: at_most_one.cases) (simp_all add: qs_get_or_none_def qs_get_def)

lemma qs_first_Some:
  "qs_first P rows = Some r \<Longrightarrow> r \<in> set rows \<and> P r"
proof -
  assume "qs_first P rows = Some r"
  then obtain rs where "filter P rows = r # rs" by (auto simp: qs_first_def split: list.splits)
  then have "r \<in> set (filter P rows)" by (metis list.set_intros(1))
  then show ?thesis by simp
qed

lemma qs_first_None: "qs_first P rows = None \<longleftrightarrow> (\<forall>r \<in> set rows. \<not> P r)"
proof -
  have "qs_first P rows = None \<longleftrightarrow> filter P rows = []" by (auto simp: qs_first_def split: list.splits)
  then show ?thesis by (simp add: filter_empty_conv)
qed

lemma qs_first_cases:
  obtains (none) "qs_first P rows = None" "\<forall>r \<in> set rows. \<not> P r"
  | (some) r where "qs_first P rows = Some r" "r \<in> set rows" "P r"
  using qs_first_None[of P rows] qs_first_Some[of P rows] by (cases "qs_first P rows") auto

lemma at_most_one_cong:
  assumes "distinct xs" "distinct ys" "set xs = set ys"
  shows "at_most_one xs = at_most_one ys"
proof -
  from assms have len: "length xs = length ys" by (metis distinct_card)
  then show ?thesis
    using assms
    by (cases xs rule: at_most_one.cases; cases ys rule: at_most_one.cases) auto
qed

lemma at_most_one_Some: "at_most_one xs = Inr (Some r) \<longleftrightarrow> xs = [r]"
  by (cases xs rule: at_most_one.cases) auto

lemma at_most_one_None: "at_most_one xs = Inr None \<longleftrightarrow> xs = []"
  by (cases xs rule: at_most_one.cases) auto

lemma at_most_one_Inl: "at_most_one xs = Inl e \<longleftrightarrow> e = MultipleObjectsReturned \<and> 2 \<le> length xs"
  by (cases xs rule: at_most_one.cases) auto

lemma filter_singleton:
  assumes "filter P xs = [c]" "r \<in> set xs" "P r"
  shows "r = c"
proof -
  from assms(2,3) have "r \<in> set (filter P xs)" by simp
  then show ?thesis unfolding assms(1) by simp
qed

lemma at_most_one_mem: "at_most_one xs = Inr (Some r) \<Longrightarrow> r \<in> set xs"
  by (simp add: at_most_one_Some)

text \<open>Replacing one row of a table by primary key (an \<open>UPDATE\<close> of all its columns).\<close>

definition put_row :: "('r \<Rightarrow> nat) \<Rightarrow> 'r \<Rightarrow> 'r list \<Rightarrow> 'r list" where
  "put_row pk r rows = map (\<lambda>x. if pk x = pk r then r else x) rows"

lemma map_pk_put_row [simp]: "map pk (put_row pk r rows) = map pk rows"
  by (induction rows) (simp_all add: put_row_def)

lemma length_put_row [simp]: "length (put_row pk r rows) = length rows"
  by (simp add: put_row_def)

lemma put_row_mem:
  "x \<in> set (put_row pk r rows) \<longleftrightarrow>
     (x = r \<and> pk r \<in> pk ` set rows) \<or> (x \<in> set rows \<and> pk x \<noteq> pk r)"
  by (auto simp: put_row_def image_iff) metis+

text \<open>A new row gets a key above every key of its table, as a sequence hands out.\<close>

definition next_pk :: "('r \<Rightarrow> nat) \<Rightarrow> 'r list \<Rightarrow> nat" where
  "next_pk pk rows = Suc (foldr max (map pk rows) 0)"

lemma foldr_max_ge: "(x::nat) \<in> set xs \<Longrightarrow> x \<le> foldr max xs 0"
  by (induction xs) auto

lemma next_pk_fresh: "r \<in> set rows \<Longrightarrow> pk r < next_pk pk rows"
  by (auto simp: next_pk_def less_Suc_eq_le intro: foldr_max_ge)

lemma next_pk_notin: "next_pk pk rows \<notin> pk ` set rows"
  using next_pk_fresh[of _ rows pk] by fastforce

section \<open>Sample rows\<close>

text \<open>Rows for the concrete instances of the theorems: the identity fields are given, every other
  field has the default of its model field.\<close>

definition sample_chassis ::
  "nat \<Rightarrow> nat \<Rightarrow> string \<Rightarrow> string option \<Rightarrow> string \<Rightarrow> string \<Rightarrow> string \<Rightarrow> chassis"
where
  "sample_chassis pk mfr serial mac ip api_id status =
     \<lparr>ch_pk = pk, ch_role = ''receiver'', ch_manufacturer = mfr, ch_api_id = api_id,
      ch_serial = serial, ch_mac = mac, ch_model = [], ch_name = [], ch_fqdn = [],
      ch_description = [], ch_protocol_family = ''legacy_uhf'', ch_wmas = False, ch_licensed_resources = 0,
      ch_ip = ip, ch_subnet = None, ch_gateway = None, ch_network_mode = ''auto'',
      ch_interface_id = [], ch_mac_secondary = [], ch_ip_secondary = None, ch_firmware = [],
      ch_hosted_firmware = [], ch_location = None, ch_order = 0, ch_status = status,
      ch_last_seen = None, ch_is_online = False, ch_last_online = None, ch_last_offline = None,
      ch_uptime = 0, ch_max_channels = 4, ch_dante = False, ch_band_min = None,
      ch_band_max = None, ch_band_name = []\<rparr>"

end
