(* ===== verification/Audit_Trail.thy ===== *)
theory Audit_Trail
  imports Models "HOL-Library.Product_Lexorder"
begin

text \<open>
  The audit trail (\<open>services/maintenance/audit.py\<close>) and its verbosity switch
  (\<open>services/maintenance/logging_mode.py\<close>).  The cache holds the mode and its expiry; times are
  microseconds.  An entry keeps the metadata the callers pass; the
  human-readable summary, the redaction of secrets and the CSV writer are outside the model.
\<close>

section \<open>Verbosity\<close>

record mode_cache =
  mc_mode :: "string option"
  mc_expiry :: "time option"

definition set_mode :: "time \<Rightarrow> string \<Rightarrow> int option \<Rightarrow> mode_cache \<Rightarrow> mode_cache" where
  "set_mode now mode ttl_seconds c =
     (let c1 = c\<lparr>mc_mode := Some mode\<rparr> in
      case ttl_seconds of
        Some ttl \<Rightarrow> if ttl \<noteq> 0 then c1\<lparr>mc_expiry := Some (now + ttl * 1000000)\<rparr>
                    else c1\<lparr>mc_expiry := None\<rparr>
      | None \<Rightarrow> c1\<lparr>mc_expiry := None\<rparr>)"

definition get_current_mode :: "time \<Rightarrow> mode_cache \<Rightarrow> mode_cache \<times> string" where
  "get_current_mode now c =
     (let mode = (case mc_mode c of None \<Rightarrow> ''normal'' | Some m \<Rightarrow> m) in
      if (case mc_expiry c of None \<Rightarrow> False | Some e \<Rightarrow> e \<noteq> 0 \<and> now > e)
      then (set_mode now ''normal'' None c, ''normal'')
      else (c, if mode \<in> set [''passive'', ''normal'', ''high''] then mode else ''normal''))"

definition mode_priority :: "string \<Rightarrow> nat" where
  "mode_priority m = (case map_of [(''passive'', 0), (''normal'', 1), (''high'', 2)] m of
     None \<Rightarrow> 1 | Some p \<Rightarrow> p)"

definition should_log :: "time \<Rightarrow> string \<Rightarrow> mode_cache \<Rightarrow> mode_cache \<times> bool" where
  "should_log now level c =
     (let (c', current) = get_current_mode now c
      in (c', mode_priority level \<le> mode_priority current))"

section \<open>Activity log\<close>

record activity =
  ac_pk :: nat
  ac_user :: "nat option"
  ac_type :: string
  ac_operation :: string
  ac_object :: "(string \<times> nat) option"
  ac_old :: "(string \<times> json) list"
  ac_new :: "(string \<times> json) list"
  ac_status :: string
  ac_created :: time

record audit_state =
  as_mode :: mode_cache
  as_logs :: "activity list"

definition log_activity ::
  "time \<Rightarrow> string \<Rightarrow> activity \<Rightarrow> audit_state \<Rightarrow> audit_state"
where
  "log_activity now log_mode a s =
     (let (mode, ok) = should_log now log_mode (as_mode s) in
      if \<not> ok then s\<lparr>as_mode := mode\<rparr>
      else s\<lparr>as_mode := mode,
             as_logs := as_logs s @ [a\<lparr>ac_pk := next_pk ac_pk (as_logs s), ac_created := now\<rparr>]\<rparr>)"

definition status_change :: "string \<Rightarrow> string \<Rightarrow> string \<Rightarrow> nat \<Rightarrow> string \<Rightarrow> string \<Rightarrow> string \<Rightarrow> activity" where
  "status_change kind operation model pk fld old new =
     \<lparr>ac_pk = 0, ac_user = None, ac_type = kind, ac_operation = operation,
      ac_object = Some (model, pk),
      ac_old = [(fld, JStr old)], ac_new = [(fld, JStr new)], ac_status = ''success'', ac_created = 0\<rparr>"

section \<open>Retention\<close>

datatype retention_error = NegativeRetention

definition day :: time where "day = 86400 * 1000000"

definition resolve_retention_days :: "int option \<Rightarrow> int \<Rightarrow> retention_error + int" where
  "resolve_retention_days retention_days default_days =
     (let days = (case retention_days of None \<Rightarrow> default_days | Some d \<Rightarrow> d)
      in if days < 0 then Inl NegativeRetention else Inr days)"

text \<open>The pruning operations delete the rows whose timestamp is before the cutoff; the archive
  deletes exactly the rows it wrote, which are the expired activities in order of creation.\<close>

definition prune_rows ::
  "('r \<Rightarrow> time) \<Rightarrow> time \<Rightarrow> int option \<Rightarrow> int \<Rightarrow> 'r list \<Rightarrow> retention_error + 'r list \<times> nat"
where
  "prune_rows ts now retention_days default_days rows =
     bindE (resolve_retention_days retention_days default_days) (\<lambda>days.
       let cutoff = now - days * day
       in Inr (filter (\<lambda>r. \<not> ts r < cutoff) rows, length (filter (\<lambda>r. ts r < cutoff) rows)))"

definition archive_activity_logs ::
  "time \<Rightarrow> int option \<Rightarrow> int \<Rightarrow> activity list \<Rightarrow> retention_error + activity list \<times> activity list"
where
  "archive_activity_logs now retention_days default_days logs =
     bindE (resolve_retention_days retention_days default_days) (\<lambda>days.
       let cutoff = now - days * day;
           expired = sort_key (\<lambda>a. (ac_created a, int (ac_pk a))) (filter (\<lambda>a. ac_created a < cutoff) logs);
           ids = map ac_pk expired
       in Inr (expired, if ids \<noteq> [] then filter (\<lambda>a. ac_pk a \<notin> set ids) logs else logs))"


text \<open>archiving loses no audit record: every activity is either still in the table or was
  written to the archive, never both; exactly the activities older than the retention period
  are archived, in order of creation; a negative retention period is refused.\<close>

theorem archive_partition:
  assumes "distinct (map ac_pk logs)"
    and "archive_activity_logs now retention_days default_days logs = Inr (archived, remaining)"
  shows "set logs = set archived \<union> set remaining \<and> set archived \<inter> set remaining = {}
    \<and> length archived + length remaining = length logs
    \<and> set archived = {a \<in> set logs. ac_created a <
         now - (case retention_days of None \<Rightarrow> default_days | Some d \<Rightarrow> d) * day}
    \<and> sorted (map ac_created archived)
    \<and> 0 \<le> (case retention_days of None \<Rightarrow> default_days | Some d \<Rightarrow> d)"
proof -
  let ?days = "case retention_days of None \<Rightarrow> default_days | Some d \<Rightarrow> d"
  let ?P = "\<lambda>a. ac_created a < now - ?days * day"
  from assms(2) have nn: "0 \<le> ?days"
    and ar: "archived = sort_key (\<lambda>a. (ac_created a, int (ac_pk a))) (filter ?P logs)"
    and re: "remaining = (if map ac_pk archived \<noteq> [] then filter (\<lambda>a. ac_pk a \<notin> set (map ac_pk archived)) logs else logs)"
    by (auto simp: archive_activity_logs_def resolve_retention_days_def Let_def split: if_splits)
  have sa: "set archived = {a \<in> set logs. ?P a}" by (simp add: ar)
  have inj: "ac_pk a \<in> ac_pk ` set archived \<longleftrightarrow> ?P a" if "a \<in> set logs" for a
    using that assms(1) unfolding sa by (auto simp: distinct_map dest: inj_onD)
  have rem: "remaining = filter (\<lambda>a. \<not> ?P a) logs"
  proof (cases "archived = []")
    case True
    with sa have "\<forall>a \<in> set logs. \<not> ?P a" by auto
    with True re show ?thesis by (auto simp: filter_id_conv)
  next
    case False
    have "filter (\<lambda>a. ac_pk a \<notin> ac_pk ` set archived) logs = filter (\<lambda>a. \<not> ?P a) logs"
      by (rule filter_cong) (use inj in simp_all)
    with False re show ?thesis by simp
  qed
  have "length archived = length (filter ?P logs)" by (simp add: ar)
  moreover have "length (filter ?P logs) + length (filter (\<lambda>a. \<not> ?P a) logs) = length logs"
    by (rule sum_length_filter_compl)
  moreover have "sorted (map ac_created archived)"
  proof -
    have "sorted (map (\<lambda>a. (ac_created a, int (ac_pk a))) archived)"
      unfolding ar by (rule sorted_sort_key)
    then show ?thesis
      by (simp add: sorted_map) (auto elim!: sorted_wrt_mono_rel[rotated] simp: less_eq_prod_def)
  qed
  ultimately show ?thesis using sa rem nn by auto
qed

theorem archive_partition_witness:
  "let a = status_change ''hardware'' ''status_change'' ''WirelessChassis'' 1 ''status'' ''online'' ''offline'';
       logs = [a\<lparr>ac_pk := 1, ac_created := 0\<rparr>, a\<lparr>ac_pk := 2, ac_created := 10 * day\<rparr>]
   in \<exists>ar re. archive_activity_logs (10 * day) (Some 7) 90 logs = Inr (ar, re)
     \<and> length ar + length re = length logs"
proof -
  let ?a = "status_change ''hardware'' ''status_change'' ''WirelessChassis'' 1 ''status'' ''online'' ''offline''"
  let ?logs = "[?a\<lparr>ac_pk := 1, ac_created := 0\<rparr>, ?a\<lparr>ac_pk := 2, ac_created := 10 * day\<rparr>]"
  have "\<not> isl (archive_activity_logs (10 * day) (Some 7) 90 ?logs)" by code_simp
  then obtain ar re where r: "archive_activity_logs (10 * day) (Some 7) 90 ?logs = Inr (ar, re)"
    by (metis sum.collapse(2) surj_pair)
  have d: "distinct (map ac_pk ?logs)" by simp
  from archive_partition[OF d r] r show ?thesis unfolding Let_def by blast
qed

text \<open>An expired verbosity mode falls back to the normal one, and a recognised mode within its
  lifetime is the one in force.\<close>

lemma mode_expires:
  "get_current_mode now (set_mode t m (Some ttl) c) =
     (if ttl \<noteq> 0 \<and> t + ttl * 1000000 \<noteq> 0 \<and> t + ttl * 1000000 < now
      then (set_mode now ''normal'' None (set_mode t m (Some ttl) c), ''normal'')
      else (set_mode t m (Some ttl) c, if m \<in> set [''passive'', ''normal'', ''high''] then m else ''normal''))"
  by (auto simp: get_current_mode_def set_mode_def Let_def)

lemma passive_always_logged: "snd (should_log now ''passive'' c)"
  by (simp add: should_log_def mode_priority_def split_beta)

end
