(* ===== verification/Lifecycle.thy ===== *)
theory Lifecycle
  imports Audit_Trail
begin

text \<open>
  The lifecycle state machines of a wireless chassis, a wireless unit and an RF channel: the
  transition tables, the checks the save hooks make and the fields they derive
  (\<open>services/core/hardware_lifecycle.py\<close>, \<open>services/hardware/chassis_lifecycle_service.py\<close>,
  \<open>wireless_unit_service.py\<close>, \<open>rf_channel_service.py\<close>).

  A status is its text.  The hooks get the previously stored row (\<open>None\<close> while the instance is
  being added) and return the prepared instance with the context that the post-save hook reads.
\<close>

type_synonym transition_table = "(string \<times> string list) list"

definition allowed_from :: "transition_table \<Rightarrow> string \<Rightarrow> string list" where
  "allowed_from tbl s = (case map_of tbl s of None \<Rightarrow> [] | Some ts \<Rightarrow> ts)"

section \<open>Transition tables\<close>

definition manager_transitions :: transition_table where
  "manager_transitions =
     [(''discovered'', [''provisioning'', ''offline'', ''retired'']),
      (''provisioning'', [''online'', ''offline'', ''discovered'']),
      (''online'', [''degraded'', ''offline'', ''maintenance'']),
      (''degraded'', [''online'', ''offline'', ''maintenance'']),
      (''offline'', [''online'', ''degraded'', ''maintenance'', ''retired'']),
      (''maintenance'', [''online'', ''offline'', ''retired'']),
      (''retired'', [])]"

definition chassis_transitions :: transition_table where
  "chassis_transitions =
     [(''discovered'', [''provisioning'', ''offline'', ''retired'']),
      (''provisioning'', [''online'', ''offline'', ''discovered'']),
      (''online'', [''degraded'', ''offline'', ''maintenance'']),
      (''degraded'', [''online'', ''offline'', ''maintenance'']),
      (''offline'', [''online'', ''degraded'', ''maintenance'', ''retired'']),
      (''maintenance'', [''online'', ''offline'', ''retired'']),
      (''retired'', [])]"

definition unit_transitions :: transition_table where
  "unit_transitions =
     [(''discovered'', [''provisioning'', ''offline'', ''retired'']),
      (''provisioning'', [''online'', ''offline'', ''discovered'']),
      (''online'', [''degraded'', ''idle'', ''offline'', ''maintenance'']),
      (''degraded'', [''online'', ''idle'', ''offline'', ''maintenance'']),
      (''idle'', [''online'', ''offline'', ''maintenance'', ''retired'']),
      (''offline'', [''online'', ''degraded'', ''idle'', ''maintenance'', ''retired'']),
      (''maintenance'', [''online'', ''offline'', ''retired'']),
      (''retired'', [])]"

definition channel_transitions :: transition_table where
  "channel_transitions =
     [(''free'', [''reserved'', ''active'', ''disabled'']),
      (''reserved'', [''free'', ''active'', ''disabled'']),
      (''active'', [''free'', ''degraded'', ''disabled'']),
      (''degraded'', [''free'', ''active'', ''disabled'']),
      (''disabled'', [''free''])]"

definition is_valid_transition :: "string \<Rightarrow> string \<Rightarrow> bool" where
  "is_valid_transition from_status to_status =
     (from_status = to_status \<or> to_status \<in> set (allowed_from manager_transitions from_status))"

definition map_api_state_to_status :: "string \<Rightarrow> string \<Rightarrow> string" where
  "map_api_state_to_status api_state current_status =
     (case map_of [(''ONLINE'', ''online''), (''DISCOVERING'', ''provisioning''),
                   (''OFFLINE'', ''offline''), (''UNKNOWN'', ''discovered'')] api_state of
        None \<Rightarrow> current_status | Some s \<Rightarrow> s)"

datatype save_error =
    InvalidTransition string string
  | StoredRowMissing
  | ValidationError string

section \<open>Chassis\<close>

definition operational_states :: "string list" where
  "operational_states = [''online'', ''degraded'']"

definition operational :: "string \<Rightarrow> bool" where
  "operational s = (s \<in> set operational_states)"

text \<open>\<open>int((now - previous.last_online_at).total_seconds() // 60)\<close>, at least zero.\<close>

definition elapsed_minutes :: "time \<Rightarrow> time \<Rightarrow> int" where
  "elapsed_minutes now since = max 0 ((now - since) div 60000000)"

definition prepare_lifecycle_fields ::
  "time \<Rightarrow> bool \<Rightarrow> chassis list \<Rightarrow> chassis \<Rightarrow> save_error + string option \<times> chassis_field list \<times> chassis"
where
  "prepare_lifecycle_fields now created rows c =
     (if created
      then (if operational (ch_status c)
            then Inr (None, [FIsOnline, FLastOnline],
                      c\<lparr>ch_is_online := True, ch_last_online := Some now\<rparr>)
            else Inr (None, [], c))
      else (case qs_get (\<lambda>r. ch_pk r = ch_pk c) rows of
          Inl _ \<Rightarrow> Inl StoredRowMissing
        | Inr previous \<Rightarrow>
            (let old_status = ch_status previous in
             if old_status = ch_status c then Inr (Some old_status, [], c)
             else if ch_status c \<notin> set (allowed_from chassis_transitions old_status)
             then Inl (InvalidTransition old_status (ch_status c))
             else
               (let was_operational = (ch_is_online previous \<or> operational old_status);
                    is_operational = operational (ch_status c);
                    c1 = c\<lparr>ch_is_online := is_operational\<rparr>
                in if is_operational \<and> \<not> was_operational
                   then Inr (Some old_status, [FIsOnline, FLastOnline],
                             c1\<lparr>ch_last_online := Some now\<rparr>)
                   else if \<not> is_operational \<and> was_operational
                   then (case ch_last_online previous of
                       None \<Rightarrow> Inr (Some old_status, [FIsOnline, FLastOffline],
                                    c1\<lparr>ch_last_offline := Some now\<rparr>)
                     | Some t \<Rightarrow> Inr (Some old_status,
                           [FIsOnline, FLastOffline, FUptime],
                           c1\<lparr>ch_last_offline := Some now,
                              ch_uptime := ch_uptime previous + elapsed_minutes now t\<rparr>))
                   else Inr (Some old_status, [FIsOnline], c1)))))"

section \<open>Wireless units\<close>

definition unknown_byte :: int where "unknown_byte = 255"

definition battery_percent :: "int \<Rightarrow> int" where
  "battery_percent b = min 100 (max 0 (b * 100 div unknown_byte))"

definition get_battery_percentage :: "wireless_unit \<Rightarrow> int option" where
  "get_battery_percentage u =
     (if un_battery u = unknown_byte then None else Some (battery_percent (un_battery u)))"

definition get_battery_health :: "wireless_unit \<Rightarrow> string" where
  "get_battery_health u =
     (if un_battery_health u \<noteq> [] \<and> un_battery_health u \<noteq> ''unknown'' then un_battery_health u
      else (case get_battery_percentage u of
          None \<Rightarrow> ''unknown''
        | Some pct \<Rightarrow> if pct > 50 then ''good'' else if pct > 25 then ''fair''
                      else if pct > 10 then ''poor'' else ''critical''))"

definition is_active_at_time :: "wireless_unit \<Rightarrow> time \<Rightarrow> bool" where
  "is_active_at_time u at_time =
     (if un_status u \<notin> set [''online'', ''degraded'', ''provisioning''] then False
      else (let ref_time = (case un_last_seen u of Some t \<Rightarrow> t | None \<Rightarrow> un_updated u)
            in at_time - ref_time < 5 * 60 * 1000000))"

definition get_signal_quality :: "wireless_unit \<Rightarrow> string" where
  "get_signal_quality u =
     (if un_quality u = unknown_byte then ''unknown''
      else if un_quality u > 200 then ''excellent''
      else if un_quality u > 150 then ''good''
      else if un_quality u > 100 then ''fair''
      else ''poor'')"

definition is_transmitter :: "wireless_unit \<Rightarrow> bool" where
  "is_transmitter u = (un_device_type u \<in> set [''mic_transmitter'', ''transceiver''])"

definition is_iem_receiver :: "wireless_unit \<Rightarrow> bool" where
  "is_iem_receiver u = (un_device_type u \<in> set [''iem_receiver'', ''transceiver''])"

definition get_transmitter_metrics :: "wireless_unit \<Rightarrow> (string \<times> json) list" where
  "get_transmitter_metrics u =
     (if \<not> is_transmitter u then []
      else [(''audio_level'', JInt (un_audio_level u)), (''rf_level'', JInt (un_rf_level u)),
            (''quality'', JStr (get_signal_quality u)), (''frequency'', JStr (un_frequency u))])"

definition json_int :: "int option \<Rightarrow> json" where
  "json_int v = (case v of None \<Rightarrow> JNull | Some i \<Rightarrow> JInt i)"

definition get_iem_metrics :: "wireless_unit \<Rightarrow> (string \<times> json) list" where
  "get_iem_metrics u =
     (if \<not> is_iem_receiver u then []
      else [(''iem_link_quality'', json_int (un_iem_link_quality u)),
            (''iem_audio_level'', json_int (un_iem_audio_level u))])"

record unit_context =
  uc_old_status :: "string option"
  uc_old_battery :: "int option"
  uc_status_changed :: bool
  uc_battery_changed :: bool
  uc_update_fields :: "string list"

definition prepare_unit_for_save ::
  "time \<Rightarrow> bool \<Rightarrow> wireless_unit list \<Rightarrow> wireless_unit \<Rightarrow> save_error + unit_context \<times> wireless_unit"
where
  "prepare_unit_for_save now adding rows u =
     (if adding
      then Inr (\<lparr>uc_old_status = None, uc_old_battery = None, uc_status_changed = False,
                 uc_battery_changed = False, uc_update_fields = []\<rparr>, u)
      else (case qs_get (\<lambda>r. un_pk r = un_pk u) rows of
          Inl _ \<Rightarrow> Inl StoredRowMissing
        | Inr previous \<Rightarrow>
            (let status_changed = (un_status previous \<noteq> un_status u);
                 seen = (status_changed \<and> un_status u \<in> set [''online'', ''degraded'', ''offline'']);
                 ctx = \<lparr>uc_old_status = Some (un_status previous),
                        uc_old_battery = Some (un_battery previous),
                        uc_status_changed = status_changed,
                        uc_battery_changed = (un_battery previous \<noteq> un_battery u),
                        uc_update_fields = (if seen then [''last_seen''] else [])\<rparr>
             in if status_changed \<and>
                   un_status u \<notin> set (allowed_from unit_transitions (un_status previous))
                then Inl (InvalidTransition (un_status previous) (un_status u))
                else Inr (ctx, if seen then u\<lparr>un_last_seen := Some now\<rparr> else u))))"

text \<open>The first of the thresholds 15 and 25 that the level fell through.\<close>

definition crossed_threshold :: "int \<Rightarrow> int \<Rightarrow> int option" where
  "crossed_threshold old_pct new_pct = find (\<lambda>t. old_pct > t \<and> t \<ge> new_pct) [15, 25]"

definition battery_warning :: "int \<Rightarrow> wireless_unit \<Rightarrow> (int \<times> int) option" where
  "battery_warning old_battery u =
     (if old_battery = unknown_byte then None
      else (let old_pct = battery_percent old_battery in
        case get_battery_percentage u of
          None \<Rightarrow> None
        | Some new_pct \<Rightarrow>
            if new_pct \<ge> old_pct then None
            else (case crossed_threshold old_pct new_pct of
                None \<Rightarrow> None | Some _ \<Rightarrow> Some (old_pct, new_pct))))"

definition finalize_unit_save ::
  "time \<Rightarrow> wireless_unit \<Rightarrow> unit_context \<Rightarrow> audit_state \<Rightarrow> audit_state"
where
  "finalize_unit_save now u ctx s =
     (let s1 = (case (uc_status_changed ctx, uc_old_status ctx) of
                  (True, Some old) \<Rightarrow>
                    log_activity now ''normal''
                      (status_change ''wireless_unit'' ''status_change'' ''WirelessUnit'' (un_pk u)
                         ''status'' old (un_status u)) s
                | _ \<Rightarrow> s)
      in if \<not> uc_battery_changed ctx \<or> un_battery u = unknown_byte then s1
         else (case uc_old_battery ctx of
             None \<Rightarrow> s1
           | Some old_battery \<Rightarrow>
               (case battery_warning old_battery u of
                  None \<Rightarrow> s1
                | Some (old_pct, new_pct) \<Rightarrow>
                    log_activity now (if new_pct \<le> 15 then ''passive'' else ''normal'')
                      \<lparr>ac_pk = 0, ac_user = None, ac_type = ''wireless_unit'',
                       ac_operation = ''battery_warning'', ac_object = Some (''WirelessUnit'', un_pk u),
                       ac_old = [(''battery_percentage'', JInt old_pct)],
                       ac_new = [(''battery_percentage'', JInt new_pct)],
                       ac_status = ''warning'', ac_created = 0\<rparr> s1)))"

section \<open>RF channels\<close>

definition get_regulatory_domain_for_location ::
  "regulatory_domain list \<Rightarrow> location option \<Rightarrow> regulatory_domain option"
where
  "get_regulatory_domain_for_location domains location =
     (case location of None \<Rightarrow> None
      | Some l \<Rightarrow> (case lo_building l of None \<Rightarrow> None
          | Some b \<Rightarrow> (case bd_domain b of
                Some d \<Rightarrow> Some d
              | None \<Rightarrow> if bd_country b \<noteq> []
                  then qs_first (\<lambda>d. rd_country d = upper (bd_country b)) domains else None)))"

definition has_frequency :: "rf_channel \<Rightarrow> bool" where
  "has_frequency c = (case rf_frequency c of None \<Rightarrow> False | Some f \<Rightarrow> f \<noteq> 0)"

definition has_regulatory_coverage :: "regulatory_domain option \<Rightarrow> rf_channel \<Rightarrow> bool" where
  "has_regulatory_coverage domain c =
     (case (domain, rf_frequency c) of
        (Some d, Some f) \<Rightarrow> f \<noteq> 0 \<and> rd_min d \<le> f \<and> f \<le> rd_max d
      | _ \<Rightarrow> False)"

definition get_needs_regulatory_update :: "regulatory_domain option \<Rightarrow> rf_channel \<Rightarrow> bool" where
  "get_needs_regulatory_update domain c =
     (if rf_state c \<notin> set [''active'', ''reserved''] then False
      else if \<not> has_frequency c then False
      else \<not> has_regulatory_coverage domain c)"

datatype regulatory_message = NoDomain | NoFrequency | NotCovered | Covered

record regulatory_status =
  rs_has_coverage :: bool
  rs_domain :: "string option"
  rs_frequency :: "rat option"
  rs_needs_update :: bool
  rs_message :: regulatory_message

definition get_regulatory_status_for_domain ::
  "rf_channel \<Rightarrow> regulatory_domain option \<Rightarrow> regulatory_status"
where
  "get_regulatory_status_for_domain c domain =
     (let coverage = (case (domain, rf_frequency c) of
            (Some d, Some f) \<Rightarrow> f \<noteq> 0 \<and> rd_min d \<le> f \<and> f \<le> rd_max d
          | _ \<Rightarrow> False);
          needs_update = (rf_state c \<in> set [''active'', ''reserved''] \<and> has_frequency c \<and> \<not> coverage)
      in \<lparr>rs_has_coverage = coverage, rs_domain = map_option rd_code domain,
          rs_frequency = rf_frequency c, rs_needs_update = needs_update,
          rs_message = (if domain = None then NoDomain else if \<not> has_frequency c then NoFrequency
                        else if \<not> coverage then NotCovered else Covered)\<rparr>)"

definition is_receive_channel :: "rf_channel \<Rightarrow> bool" where
  "is_receive_channel c = (rf_direction c \<in> set [''receive'', ''bidirectional''])"

definition is_send_channel :: "rf_channel \<Rightarrow> bool" where
  "is_send_channel c = (rf_direction c \<in> set [''send'', ''bidirectional''])"

record channel_context =
  cc_old_state :: "string option"
  cc_state_changed :: bool
  cc_update_fields :: "string list"

text \<open>\<open>chassis\<close> is the chassis the channel belongs to.\<close>

definition prepare_channel_for_save ::
  "bool \<Rightarrow> rf_channel list \<Rightarrow> chassis \<Rightarrow> rf_channel \<Rightarrow> save_error + channel_context \<times> rf_channel"
where
  "prepare_channel_for_save adding rows chassis c0 =
     bindE
       (if adding
        then Inr (\<lparr>cc_old_state = None, cc_state_changed = False, cc_update_fields = []\<rparr>, c0)
        else (case qs_get (\<lambda>r. rf_pk r = rf_pk c0) rows of
            Inl _ \<Rightarrow> Inl StoredRowMissing
          | Inr previous \<Rightarrow>
              (let switched_off = (rf_enabled previous \<and> \<not> rf_enabled c0);
                   c = (if switched_off then c0\<lparr>rf_state := ''disabled''\<rparr> else c0);
                   changed = (rf_state previous \<noteq> rf_state c);
                   ctx = \<lparr>cc_old_state = Some (rf_state previous), cc_state_changed = changed,
                          cc_update_fields = (if switched_off then [''resource_state''] else [])\<rparr>
               in if changed \<and> rf_state c \<notin> set (allowed_from channel_transitions (rf_state previous))
                  then Inl (InvalidTransition (rf_state previous) (rf_state c))
                  else Inr (ctx, c))))
       (\<lambda>(ctx, c).
          if \<not> ch_wmas chassis \<and> rf_number c > ch_max_channels chassis
          then Inl (ValidationError ''capacity'')
          else if rf_number c < 1 then Inl (ValidationError ''number'')
          else Inr (ctx, c))"

definition finalize_channel_save ::
  "time \<Rightarrow> rf_channel \<Rightarrow> channel_context \<Rightarrow> audit_state \<Rightarrow> audit_state"
where
  "finalize_channel_save now c ctx s =
     (case (cc_state_changed ctx, cc_old_state ctx) of
        (True, Some old) \<Rightarrow>
          log_activity now ''normal''
            (status_change ''rf_channel'' ''resource_state_change'' ''RFChannel'' (rf_pk c)
               ''resource_state'' old (rf_state c)) s
      | _ \<Rightarrow> s)"

section \<open>A lifecycle table\<close>

text \<open>The states a row can go through when every change is one the table allows.\<close>

inductive status_path :: "transition_table \<Rightarrow> string \<Rightarrow> string \<Rightarrow> bool" for tbl where
  here: "status_path tbl s s"
| onward: "status_path tbl s t \<Longrightarrow> u \<in> set (allowed_from tbl t) \<Longrightarrow> status_path tbl s u"

inductive_cases status_pathE: "status_path tbl s t"

lemma status_path_trans:
  assumes "status_path tbl s t" "status_path tbl t u"
  shows "status_path tbl s u"
  using assms(2,1) by induction (auto intro: status_path.onward)

text \<open>What the hooks rely on: the table speaks about its own states, never lists a state as its
  own successor, and has one state, \<open>sink\<close>, that every state can get to.\<close>

locale lifecycle_table =
  fixes tbl :: transition_table and sink :: string
  assumes closed: "s \<in> set (map fst tbl) \<Longrightarrow> set (allowed_from tbl s) \<subseteq> set (map fst tbl)"
    and no_self: "s \<notin> set (allowed_from tbl s)"
    and to_sink: "s \<in> set (map fst tbl) \<Longrightarrow> status_path tbl s sink"
begin

lemma unknown_stuck: "s \<notin> set (map fst tbl) \<Longrightarrow> allowed_from tbl s = []"
  by (auto simp: allowed_from_def dest: map_of_SomeD split: option.splits)
     (metis fst_conv image_eqI map_of_SomeD)

lemma path_closed: "status_path tbl s t \<Longrightarrow> s \<in> set (map fst tbl) \<Longrightarrow> t \<in> set (map fst tbl)"
  by (induction rule: status_path.induct) (use closed in auto)

lemma terminal_stays: "status_path tbl s t \<Longrightarrow> allowed_from tbl s = [] \<Longrightarrow> t = s"
  by (induction rule: status_path.induct) auto

lemma change_is_listed:
  "t \<in> set (allowed_from tbl s) \<Longrightarrow> s \<in> set (map fst tbl) \<and> t \<in> set (map fst tbl) \<and> t \<noteq> s"
  using closed no_self unknown_stuck by (metis empty_iff list.set(1) subsetD)

end

lemma path_step: "t \<in> set (allowed_from tbl s) \<Longrightarrow> status_path tbl t u \<Longrightarrow> status_path tbl s u"
  by (rule status_path_trans[OF status_path.onward[OF status_path.here]])

text \<open>Each table reaches its sink from every state: \<open>retired\<close> directly or through \<open>offline\<close>, a
  channel resource \<open>free\<close> directly.\<close>

definition table_ok :: "transition_table \<Rightarrow> string \<Rightarrow> bool" where
  "table_ok tbl sink = list_all (\<lambda>(s, ts).
     s \<notin> set ts \<and> list_all (\<lambda>t. t \<in> set (map fst tbl)) ts \<and>
     (s = sink \<or> sink \<in> set ts \<or> list_ex (\<lambda>t. sink \<in> set (allowed_from tbl t)) ts)) tbl"

lemma allowed_from_entry:
  "s \<in> set (map fst tbl) \<Longrightarrow> (s, allowed_from tbl s) \<in> set tbl"
  "s \<notin> set (map fst tbl) \<Longrightarrow> allowed_from tbl s = []"
proof -
  assume "s \<in> set (map fst tbl)"
  then obtain ts where "map_of tbl s = Some ts" by (metis list.set_map map_of_eq_None_iff not_None_eq)
  then show "(s, allowed_from tbl s) \<in> set tbl" by (simp add: allowed_from_def map_of_SomeD)
next
  assume "s \<notin> set (map fst tbl)"
  then have "map_of tbl s = None" by (simp add: map_of_eq_None_iff)
  then show "allowed_from tbl s = []" by (simp add: allowed_from_def)
qed

lemma table_okI:
  assumes "table_ok tbl sink"
  shows "lifecycle_table tbl sink"
proof
  have entry: "s \<notin> set ts \<and> set ts \<subseteq> set (map fst tbl) \<and>
      (s = sink \<or> sink \<in> set ts \<or> (\<exists>t \<in> set ts. sink \<in> set (allowed_from tbl t)))"
    if "(s, ts) \<in> set tbl" for s ts
    using assms that unfolding table_ok_def list_all_iff list_ex_iff by fastforce
  fix s
  show "set (allowed_from tbl s) \<subseteq> set (map fst tbl)" if "s \<in> set (map fst tbl)"
    using entry[OF allowed_from_entry(1)[OF that]] by simp
  show "s \<notin> set (allowed_from tbl s)"
    using entry[OF allowed_from_entry(1)[of s]] allowed_from_entry(2)[of s tbl]
    by (cases "s \<in> set (map fst tbl)") auto
  show "status_path tbl s sink" if "s \<in> set (map fst tbl)"
    using entry[OF allowed_from_entry(1)[OF that]]
      path_step[OF _ path_step[OF _ status_path.here]] path_step[OF _ status_path.here]
    by (metis status_path.here)
qed

interpretation manager: lifecycle_table manager_transitions "''retired''"
  by (rule table_okI) code_simp

interpretation chassis_life: lifecycle_table chassis_transitions "''retired''"
  by (rule table_okI) code_simp

interpretation unit_life: lifecycle_table unit_transitions "''retired''"
  by (rule table_okI) code_simp

interpretation channel_life: lifecycle_table channel_transitions "''free''"
  by (rule table_okI) code_simp

section \<open>Properties\<close>

lemma same_chassis_table: "chassis_transitions = manager_transitions"
  by (simp add: chassis_transitions_def manager_transitions_def)

lemma qs_get_row:
  assumes "qs_get P rows = Inr r"
  shows "r \<in> set rows \<and> P r"
proof -
  from assms have "filter P rows = [r]" by (auto simp: qs_get_def split: list.splits)
  then have "r \<in> set (filter P rows)" by simp
  then show ?thesis by simp
qed

lemma filter_by_key:
  "distinct (map pk rows) \<Longrightarrow> r \<in> set rows \<Longrightarrow> filter (\<lambda>x. pk x = pk r) rows = [r]"
proof (induction rows)
  case Nil
  then show ?case by simp
next
  case (Cons a rows)
  show ?case
  proof (cases "a = r")
    case True
    with Cons.prems have "filter (\<lambda>x. pk x = pk r) rows = []"
      by (auto simp: filter_empty_conv image_iff)
    with True show ?thesis by simp
  next
    case False
    with Cons.prems have "r \<in> set rows" "pk a \<noteq> pk r" by (auto simp: image_iff)
    with Cons show ?thesis by simp
  qed
qed

lemma qs_get_by_key:
  "distinct (map pk rows) \<Longrightarrow> r \<in> set rows \<Longrightarrow> qs_get (\<lambda>x. pk x = pk r) rows = Inr r"
  by (simp add: qs_get_def filter_by_key)

definition online_consistent :: "chassis \<Rightarrow> bool" where
  "online_consistent c \<longleftrightarrow> ch_is_online c = operational (ch_status c)"

text \<open>C25: saving a chassis over its stored row follows the lifecycle table and keeps the online
  flag equal to being in an operational state; the accumulated uptime never decreases, and it
  changes only when the chassis leaves the operational states; a retired chassis stays retired.\<close>

theorem chassis_save_lifecycle:
  assumes prep: "prepare_lifecycle_fields now False rows c = Inr (old, flds, c')"
    and row: "qs_get (\<lambda>r. ch_pk r = ch_pk c) rows = Inr r"
    and cons: "online_consistent r"
    and loaded: "ch_is_online c = ch_is_online r" "ch_uptime c = ch_uptime r"
  shows "old = Some (ch_status r) \<and> ch_status c' = ch_status c
    \<and> (ch_status c = ch_status r \<or> ch_status c \<in> set (allowed_from chassis_transitions (ch_status r)))
    \<and> online_consistent c' \<and> ch_uptime r \<le> ch_uptime c'
    \<and> (ch_uptime c' \<noteq> ch_uptime r \<longrightarrow> operational (ch_status r) \<and> \<not> operational (ch_status c'))
    \<and> (ch_status r = ''retired'' \<longrightarrow> ch_status c' = ''retired'')"
proof -
  have ret: "allowed_from chassis_transitions ''retired'' = []" by code_simp
  show ?thesis
    using prep row cons loaded ret
    by (auto simp: prepare_lifecycle_fields_def online_consistent_def Let_def elapsed_minutes_def
        split: if_splits option.splits)
qed

theorem chassis_save_lifecycle_witness:
  "let r = (sample_chassis 1 7 ''S1'' None ''10.0.0.1'' ''a1'' ''online'')
             \<lparr>ch_is_online := True, ch_last_online := Some 0\<rparr>;
       c = r\<lparr>ch_status := ''offline''\<rparr>
   in prepare_lifecycle_fields 150000000 False [r] c = Inr (Some ''online'',
        [FIsOnline, FLastOffline, FUptime],
        c\<lparr>ch_is_online := False, ch_last_offline := Some 150000000, ch_uptime := 2\<rparr>)
     \<and> online_consistent (c\<lparr>ch_is_online := False, ch_last_offline := Some 150000000, ch_uptime := 2\<rparr>)"
proof -
  let ?r = "(sample_chassis 1 7 ''S1'' None ''10.0.0.1'' ''a1'' ''online'')
             \<lparr>ch_is_online := True, ch_last_online := Some 0\<rparr>"
  let ?c = "?r\<lparr>ch_status := ''offline''\<rparr>"
  have 1: "prepare_lifecycle_fields 150000000 False [?r] ?c = Inr (Some ''online'',
        [FIsOnline, FLastOffline, FUptime],
        ?c\<lparr>ch_is_online := False, ch_last_offline := Some 150000000, ch_uptime := 2\<rparr>)"
    by code_simp
  have 2: "qs_get (\<lambda>r. ch_pk r = ch_pk ?c) [?r] = Inr ?r" by code_simp
  have 3: "online_consistent ?r" by code_simp
  from chassis_save_lifecycle[OF 1 2 3] 1 show ?thesis unfolding Let_def by simp
qed

text \<open>The lifecycle manager and the save hook agree on a chassis: a transition the manager
  admits is never refused by the hook it then triggers, and one it refuses would be refused.\<close>

theorem manager_agrees_with_save_hook:
  assumes "distinct (map ch_pk rows)" "r \<in> set rows"
  shows "is_valid_transition (ch_status r) to_status \<longleftrightarrow>
    prepare_lifecycle_fields now False rows (r\<lparr>ch_status := to_status\<rparr>)
      \<noteq> Inl (InvalidTransition (ch_status r) to_status)"
proof -
  have "qs_get (\<lambda>x. ch_pk x = ch_pk r) rows = Inr r" by (rule qs_get_by_key[OF assms])
  then show ?thesis
    by (auto simp: prepare_lifecycle_fields_def is_valid_transition_def same_chassis_table Let_def
        split: option.splits)
qed

theorem manager_agrees_with_save_hook_witness:
  "let r = sample_chassis 1 7 ''S1'' None ''10.0.0.1'' ''a1'' ''retired''
   in prepare_lifecycle_fields 0 False [r] (r\<lparr>ch_status := ''online''\<rparr>)
        = Inl (InvalidTransition ''retired'' ''online'')"
proof -
  let ?r = "sample_chassis 1 7 ''S1'' None ''10.0.0.1'' ''a1'' ''retired''"
  have "\<not> is_valid_transition (ch_status ?r) ''online''" by code_simp
  with manager_agrees_with_save_hook[of "[?r]" ?r "''online''" 0]
  show ?thesis by (simp add: sample_chassis_def)
qed

text \<open>a row that only ever changes along its lifecycle table stays within the known states, can
  always still be decommissioned (a channel resource: freed), and never leaves \<open>retired\<close>.\<close>

theorem lifecycle_paths:
  "(status_path chassis_transitions s t \<and> s \<in> set (map fst chassis_transitions) \<longrightarrow>
      t \<in> set (map fst chassis_transitions) \<and> status_path chassis_transitions t ''retired''
      \<and> (s = ''retired'' \<longrightarrow> t = ''retired''))
   \<and> (status_path unit_transitions s t \<and> s \<in> set (map fst unit_transitions) \<longrightarrow>
      t \<in> set (map fst unit_transitions) \<and> status_path unit_transitions t ''retired''
      \<and> (s = ''retired'' \<longrightarrow> t = ''retired''))
   \<and> (status_path channel_transitions s t \<and> s \<in> set (map fst channel_transitions) \<longrightarrow>
      t \<in> set (map fst channel_transitions) \<and> status_path channel_transitions t ''free'')"
proof -
  have "allowed_from chassis_transitions ''retired'' = []" "allowed_from unit_transitions ''retired'' = []"
    by code_simp+
  then show ?thesis
    using chassis_life.path_closed[of s t] chassis_life.to_sink[of t] chassis_life.terminal_stays[of s t]
      unit_life.path_closed[of s t] unit_life.to_sink[of t] unit_life.terminal_stays[of s t]
      channel_life.path_closed[of s t] channel_life.to_sink[of t]
    by blast
qed

theorem lifecycle_paths_witness:
  "status_path chassis_transitions ''online'' ''offline'' \<and> status_path chassis_transitions ''offline'' ''retired''"
proof -
  have "''offline'' \<in> set (allowed_from chassis_transitions ''online'')" by code_simp
  then have p: "status_path chassis_transitions ''online'' ''offline''"
    by (rule status_path.onward[OF status_path.here])
  moreover have "''online'' \<in> set (map fst chassis_transitions)" by code_simp
  ultimately show ?thesis using lifecycle_paths[of "''online''" "''offline''"] by blast
qed

lemma battery_percent_bounds: "0 \<le> battery_percent b" "battery_percent b \<le> 100"
  by (simp_all add: battery_percent_def)

lemma battery_percent_mono: "b \<le> b' \<Longrightarrow> battery_percent b \<le> battery_percent b'"
  by (auto simp: battery_percent_def unknown_byte_def min_def max_def intro: zdiv_mono1)

text \<open>A battery warning is raised exactly when both the stored and the new level are known
  and the percentage falls from above a threshold, 15 or 25, to it or below it; the reported
  percentages are in range and really decrease.\<close>

theorem battery_warning_iff:
  "battery_warning old_battery u = Some (o_pct, n_pct) \<longleftrightarrow>
     old_battery \<noteq> 255 \<and> un_battery u \<noteq> 255
     \<and> o_pct = battery_percent old_battery \<and> n_pct = battery_percent (un_battery u)
     \<and> ((o_pct > 15 \<and> 15 \<ge> n_pct) \<or> (o_pct > 25 \<and> 25 \<ge> n_pct))
     \<and> 0 \<le> n_pct \<and> n_pct < o_pct \<and> o_pct \<le> 100"
  using battery_percent_bounds[of "un_battery u"] battery_percent_bounds[of old_battery]
  by (auto simp: battery_warning_def crossed_threshold_def get_battery_percentage_def
      unknown_byte_def Let_def split: option.splits)

text \<open>An accepted RF channel is within the chassis's capacity (unless the chassis is
  WMAS-capable) and numbered from one, its resource state is unchanged or follows the table, and
  switching a channel off always leaves its resource disabled.\<close>

theorem channel_save_checks:
  assumes prep: "prepare_channel_for_save False rows chassis c = Inr (ctx, c')"
    and row: "qs_get (\<lambda>r. rf_pk r = rf_pk c) rows = Inr r"
  shows "1 \<le> rf_number c' \<and> (ch_wmas chassis \<or> rf_number c' \<le> ch_max_channels chassis)
    \<and> (rf_state c' = rf_state r \<or> rf_state c' \<in> set (allowed_from channel_transitions (rf_state r)))
    \<and> (rf_enabled r \<and> \<not> rf_enabled c' \<longrightarrow> rf_state c' = ''disabled'')
    \<and> (cc_state_changed ctx \<longleftrightarrow> rf_state c' \<noteq> rf_state r)
    \<and> c' = c\<lparr>rf_state := rf_state c'\<rparr>"
proof -
  define c1 where "c1 = (if rf_enabled r \<and> \<not> rf_enabled c then c\<lparr>rf_state := ''disabled''\<rparr> else c)"
  have num: "rf_number c1 = rf_number c" and en: "rf_enabled c1 = rf_enabled c"
    and upd: "c1 = c\<lparr>rf_state := rf_state c1\<rparr>" by (simp_all add: c1_def)
  have step: "prepare_channel_for_save False rows chassis c =
      (if rf_state r \<noteq> rf_state c1 \<and> rf_state c1 \<notin> set (allowed_from channel_transitions (rf_state r))
       then Inl (InvalidTransition (rf_state r) (rf_state c1))
       else if \<not> ch_wmas chassis \<and> rf_number c1 > ch_max_channels chassis
       then Inl (ValidationError ''capacity'')
       else if rf_number c1 < 1 then Inl (ValidationError ''number'')
       else Inr (\<lparr>cc_old_state = Some (rf_state r), cc_state_changed = (rf_state r \<noteq> rf_state c1),
                  cc_update_fields = (if rf_enabled r \<and> \<not> rf_enabled c then [''resource_state''] else [])\<rparr>, c1))"
    by (cases "rf_enabled r \<and> \<not> rf_enabled c")
       (simp_all add: prepare_channel_for_save_def row c1_def Let_def)
  from prep have c': "c' = c1" and ok: "\<not> (rf_state r \<noteq> rf_state c1 \<and>
      rf_state c1 \<notin> set (allowed_from channel_transitions (rf_state r)))"
    "\<not> (\<not> ch_wmas chassis \<and> rf_number c1 > ch_max_channels chassis)" "\<not> rf_number c1 < 1"
    and ctx: "cc_state_changed ctx \<longleftrightarrow> rf_state r \<noteq> rf_state c1"
    unfolding step by (simp_all split: if_splits) auto
  have "rf_enabled r \<and> \<not> rf_enabled c1 \<longrightarrow> rf_state c1 = ''disabled''" by (simp add: en) (simp add: c1_def)
  with ok ctx upd show ?thesis unfolding c' by auto
qed

definition sample_channel :: "nat \<Rightarrow> nat \<Rightarrow> int \<Rightarrow> bool \<Rightarrow> string \<Rightarrow> rf_channel" where
  "sample_channel pk chassis number enabled state =
     \<lparr>rf_pk = pk, rf_chassis = chassis, rf_number = number, rf_direction = ''receive'',
      rf_protocol_family = ''legacy_uhf'', rf_wmas_profile = [], rf_licensed = False,
      rf_enabled = enabled, rf_state = state, rf_frequency = None, rf_signal_strength = None,
      rf_audio_level = None, rf_signal_quality = None, rf_muted = False, rf_active_unit = None,
      rf_iem_mix_level = None, rf_iem_link_quality = None, rf_active_iem = None\<rparr>"

theorem channel_save_checks_witness:
  "let ch = sample_chassis 1 7 ''S1'' None ''10.0.0.1'' ''a1'' ''online''
   in \<exists>ctx c'. prepare_channel_for_save False [sample_channel 3 1 2 True ''active''] ch
          (sample_channel 3 1 2 False ''active'') = Inr (ctx, c') \<and> rf_state c' = ''disabled''"
proof -
  let ?ch = "sample_chassis 1 7 ''S1'' None ''10.0.0.1'' ''a1'' ''online''"
  let ?r = "sample_channel 3 1 2 True ''active''" and ?c = "sample_channel 3 1 2 False ''active''"
  have "\<not> isl (prepare_channel_for_save False [?r] ?ch ?c)" by code_simp
  then obtain ctx c' where 1: "prepare_channel_for_save False [?r] ?ch ?c = Inr (ctx, c')"
    by (metis sum.collapse(2) surj_pair)
  have 2: "qs_get (\<lambda>r. rf_pk r = rf_pk ?c) [?r] = Inr ?r" by code_simp
  have c': "c' = ?c\<lparr>rf_state := rf_state c'\<rparr>" using channel_save_checks[OF 1 2] by blast
  have "rf_enabled ?r" "\<not> rf_enabled c'"
    by (simp add: sample_channel_def) (subst c', simp add: sample_channel_def)
  with channel_save_checks[OF 1 2] 1 show ?thesis unfolding Let_def by blast
qed

text \<open>The regulatory status of a channel agrees with the two predicates it repeats.\<close>

lemma regulatory_status_consistent:
  "rs_has_coverage (get_regulatory_status_for_domain c d) = has_regulatory_coverage d c"
  "rs_needs_update (get_regulatory_status_for_domain c d) = get_needs_regulatory_update d c"
  by (auto simp: get_regulatory_status_for_domain_def has_regulatory_coverage_def
      get_needs_regulatory_update_def Let_def split: option.splits)

end
