(* ===== verification/Regulatory.thy ===== *)
theory Regulatory
  imports Lifecycle
begin

text \<open>
  Device specifications and band plans (\<open>models/device_specs.py\<close>, \<open>models/band_plans.py\<close>,
  \<open>services/core/device_specs.py\<close>) and the regulatory preparation and coverage of a chassis
  (\<open>services/hardware/chassis_regulatory_service.py\<close>).

  The registries are the loaded YAML fixtures, given as lists in file order; \<open>band_plan_registry\<close>
  is the shipped band-plan fixture.  The regular expressions are matched by recognisers: none of
  them can match differently by giving back characters, because a digit never starts what
  follows a number.  A parsed frequency is the exact decimal.
\<close>

record band_plan =
  bp_name :: string
  bp_min :: rat
  bp_max :: rat
  bp_region :: string

record device_spec =
  sp_channels :: int
  sp_role :: string
  sp_dante :: bool
  sp_models :: "string list"

type_synonym band_registry = "(string \<times> (string \<times> band_plan) list) list"
type_synonym spec_registry = "(string \<times> (string \<times> device_spec) list) list"

definition band_plan_registry :: band_registry where
  "band_plan_registry =
    [(''shure'',
       [(''g50'', \<lparr>bp_name = ''G50 (470-534 MHz)'', bp_min = 470, bp_max = 534, bp_region = ''US/EU''\<rparr>),
        (''h50'', \<lparr>bp_name = ''H50 (534-598 MHz)'', bp_min = 534, bp_max = 598, bp_region = ''US/EU''\<rparr>),
        (''j50'', \<lparr>bp_name = ''J50 (572-636 MHz)'', bp_min = 572, bp_max = 636, bp_region = ''International''\<rparr>),
        (''l50'', \<lparr>bp_name = ''L50 (632-696 MHz)'', bp_min = 632, bp_max = 696, bp_region = ''Asia/Pacific''\<rparr>),
        (''x52'', \<lparr>bp_name = ''X52 (902-928 MHz)'', bp_min = 902, bp_max = 928, bp_region = ''US ISM/STL''\<rparr>),
        (''z16'', \<lparr>bp_name = ''Z16 (1.24-1.26 GHz)'', bp_min = 1240, bp_max = 1260, bp_region = ''Japan''\<rparr>)]),
     (''sennheiser'',
       [(''aw_plus'', \<lparr>bp_name = ''Aw+ (470-558 MHz)'', bp_min = 470, bp_max = 558, bp_region = ''US''\<rparr>),
        (''bw'', \<lparr>bp_name = ''Bw (626-698 MHz)'', bp_min = 626, bp_max = 698, bp_region = ''US''\<rparr>),
        (''gw'', \<lparr>bp_name = ''Gw (558-626 MHz)'', bp_min = 558, bp_max = 626, bp_region = ''US''\<rparr>),
        (''a'', \<lparr>bp_name = ''A (516-558 MHz)'', bp_min = 516, bp_max = 558, bp_region = ''Global''\<rparr>),
        (''g'', \<lparr>bp_name = ''G (566-608 MHz)'', bp_min = 566, bp_max = 608, bp_region = ''Global''\<rparr>),
        (''b'', \<lparr>bp_name = ''B (626-668 MHz)'', bp_min = 626, bp_max = 668, bp_region = ''Global''\<rparr>)]),
     (''wisycom'',
       [(''b1'', \<lparr>bp_name = ''B1 (470-663 MHz)'', bp_min = 470, bp_max = 663, bp_region = ''Wideband''\<rparr>),
        (''b2'', \<lparr>bp_name = ''B2 (470-800 MHz)'', bp_min = 470, bp_max = 800, bp_region = ''Wideband''\<rparr>)])]"

section \<open>Device specifications\<close>

definition norm_model :: "string \<Rightarrow> string" where
  "norm_model m = filter (\<lambda>c. c \<noteq> CHR '' '') (filter (\<lambda>c. c \<noteq> CHR ''-'') (upper m))"

definition get_device_spec :: "spec_registry \<Rightarrow> string \<Rightarrow> string \<Rightarrow> device_spec option" where
  "get_device_spec specs manufacturer model =
     (if manufacturer = [] \<or> model = [] then None
      else (case map_of specs (lower manufacturer) of None \<Rightarrow> None
        | Some mfg_specs \<Rightarrow>
            find (\<lambda>sp. norm_model model \<in> set (map norm_model (sp_models sp))) (map snd mfg_specs)))"

definition get_channel_count :: "spec_registry \<Rightarrow> string \<Rightarrow> string \<Rightarrow> int" where
  "get_channel_count specs manufacturer model =
     (case get_device_spec specs manufacturer model of Some sp \<Rightarrow> sp_channels sp | None \<Rightarrow> 4)"

definition get_device_role :: "spec_registry \<Rightarrow> string \<Rightarrow> string \<Rightarrow> string" where
  "get_device_role specs manufacturer model =
     (case get_device_spec specs manufacturer model of Some sp \<Rightarrow> sp_role sp | None \<Rightarrow> ''receiver'')"

definition get_dante_support :: "spec_registry \<Rightarrow> string \<Rightarrow> string \<Rightarrow> bool" where
  "get_dante_support specs manufacturer model =
     (case get_device_spec specs manufacturer model of Some sp \<Rightarrow> sp_dante sp | None \<Rightarrow> False)"

text \<open>\<open>DeviceSpecService.get_specs\<close> and \<open>apply_specs_to_chassis\<close>; \<open>code\<close> is the manufacturer's code.\<close>

definition get_specs :: "spec_registry \<Rightarrow> string \<Rightarrow> string \<Rightarrow> (int \<times> bool) option" where
  "get_specs specs code model =
     (if model = [] then None
      else if get_device_spec specs (lower code) model = None then None
      else Some (get_channel_count specs (lower code) model, get_dante_support specs (lower code) model))"

definition apply_specs_to_chassis :: "spec_registry \<Rightarrow> string \<Rightarrow> chassis \<Rightarrow> chassis" where
  "apply_specs_to_chassis specs code c =
     (case get_specs specs code (ch_model c) of None \<Rightarrow> c
      | Some (channels, dante) \<Rightarrow> c\<lparr>ch_max_channels := channels, ch_dante := dante\<rparr>)"

section \<open>Band plans\<close>

definition replace_char :: "char \<Rightarrow> char \<Rightarrow> string \<Rightarrow> string" where
  "replace_char a b s = map (\<lambda>c. if c = a then b else c) s"

definition band_plan_key :: "string \<Rightarrow> string" where
  "band_plan_key name = replace_char CHR ''-'' CHR ''_'' (replace_char CHR '' '' CHR ''_'' (lower name))"

definition get_band_plan :: "band_registry \<Rightarrow> string \<Rightarrow> string \<Rightarrow> band_plan option" where
  "get_band_plan plans manufacturer key =
     (if manufacturer = [] \<or> key = [] then None
      else (case map_of plans (lower manufacturer) of None \<Rightarrow> None
        | Some ps \<Rightarrow> map_of ps (band_plan_key key)))"

definition get_available_band_plans :: "band_registry \<Rightarrow> string \<Rightarrow> (string \<times> string) list" where
  "get_available_band_plans plans manufacturer =
     (if manufacturer = [] then []
      else (case map_of plans (lower manufacturer) of None \<Rightarrow> []
        | Some ps \<Rightarrow> map (\<lambda>(k, p). (k, bp_name p)) ps))"

definition is_digit :: "char \<Rightarrow> bool" where
  "is_digit c = (let n = of_char c :: nat in 48 \<le> n \<and> n \<le> 57)"

definition digit_value :: "char \<Rightarrow> rat" where
  "digit_value c = of_nat (of_char c - 48)"

text \<open>\<open>\d+(?:\.\d+)?\<close> at the start of the text: its value and the rest.\<close>

definition decimal :: "string \<Rightarrow> rat" where
  "decimal ds = foldl (\<lambda>n c. 10 * n + digit_value c) 0 ds"

definition scan_number :: "string \<Rightarrow> (rat \<times> string) option" where
  "scan_number s =
     (let whole = takeWhile is_digit s; rest = dropWhile is_digit s in
      if whole = [] then None
      else (case rest of
          c # t \<Rightarrow>
            (let frac = takeWhile is_digit t in
             if c = CHR ''.'' \<and> frac \<noteq> []
             then Some (decimal whole + decimal frac / 10 ^ length frac, dropWhile is_digit t)
             else Some (decimal whole, rest))
        | [] \<Rightarrow> Some (decimal whole, [])))"

definition scan_range :: "string \<Rightarrow> ((rat \<times> rat) \<times> string) option" where
  "scan_range s =
     (case scan_number s of None \<Rightarrow> None
      | Some (a, r) \<Rightarrow>
          (case dropWhile is_space r of [] \<Rightarrow> None
           | c # t \<Rightarrow> if c \<noteq> CHR ''-'' then None
               else (case scan_number (dropWhile is_space t) of None \<Rightarrow> None
                 | Some (b, r2) \<Rightarrow> Some ((a, b), r2))))"

text \<open>\<open>re.search\<close>: the first position at which the pattern matches.\<close>

fun search :: "(string \<Rightarrow> 'a option) \<Rightarrow> string \<Rightarrow> 'a option" where
  "search m [] = m []"
| "search m (c # s) = (case m (c # s) of Some x \<Rightarrow> Some x | None \<Rightarrow> search m s)"

definition parse_band_plan_from_name :: "string \<Rightarrow> (rat \<times> rat) option" where
  "parse_band_plan_from_name name =
     search (\<lambda>s. case scan_range s of None \<Rightarrow> None
       | Some (ab, r) \<Rightarrow> if lower (take 3 (dropWhile is_space r)) = ''mhz'' then Some ab else None) name"

definition normalize_band_key :: "string \<Rightarrow> string" where
  "normalize_band_key v =
     remove_char CHR '')'' (remove_char CHR ''('' (band_plan_key v))"

definition is_alnum :: "char \<Rightarrow> bool" where
  "is_alnum c = (let n = of_char c :: nat in
     (48 \<le> n \<and> n \<le> 57) \<or> (65 \<le> n \<and> n \<le> 90) \<or> (97 \<le> n \<and> n \<le> 122))"

definition extract_band_code :: "string \<Rightarrow> string option" where
  "extract_band_code v =
     (let code = takeWhile is_alnum v in if code = [] then None else Some (lower code))"

definition extract_freq_range :: "string \<Rightarrow> (rat \<times> rat) option" where
  "extract_freq_range v = search (\<lambda>s. map_option fst (scan_range s)) v"

definition find_plan_by_code :: "(string \<times> band_plan) list \<Rightarrow> string \<Rightarrow> string option" where
  "find_plan_by_code ps v =
     (case extract_band_code v of None \<Rightarrow> None
      | Some code \<Rightarrow> map_option (bp_name \<circ> snd) (find (\<lambda>(k, _). is_prefix_of code k) ps))"

definition find_plan_by_frequency_range :: "(string \<times> band_plan) list \<Rightarrow> string \<Rightarrow> string option" where
  "find_plan_by_frequency_range ps v =
     (case extract_freq_range v of None \<Rightarrow> None
      | Some (lo, hi) \<Rightarrow>
          map_option (bp_name \<circ> snd) (find (\<lambda>(_, p). bp_min p = lo \<and> bp_max p = hi) ps))"

definition find_plan_by_partial_key :: "(string \<times> band_plan) list \<Rightarrow> string \<Rightarrow> string option" where
  "find_plan_by_partial_key ps v =
     (let n = normalize_band_key v in
      map_option (bp_name \<circ> snd) (find (\<lambda>(k, _). contains n k \<or> contains k n) ps))"

text \<open>\<open>a or b\<close> on an optional text.\<close>

definition py_or :: "string option \<Rightarrow> string option \<Rightarrow> string option" where
  "py_or a b = (if a = None \<or> a = Some [] then b else a)"

definition detect_band_plan_from_api_string ::
  "band_registry \<Rightarrow> string \<Rightarrow> string \<Rightarrow> string option"
where
  "detect_band_plan_from_api_string plans api_band_value manufacturer =
     (let v = strip api_band_value in
      if v = [] then None
      else
        (let mfg = lower (if manufacturer = [] then ''shure'' else manufacturer);
             ps = (case map_of plans mfg of None \<Rightarrow> [] | Some ps \<Rightarrow> ps)
         in case map_of ps (normalize_band_key v) of
              Some p \<Rightarrow> Some (bp_name p)
            | None \<Rightarrow> py_or (find_plan_by_code ps v)
                        (py_or (find_plan_by_frequency_range ps v) (find_plan_by_partial_key ps v))))"

text \<open>The band-code patterns: letters of the class, digits, an optional plus sign; in the first
  pattern after an optional separator, in the second only at the start.\<close>

definition band_letter :: "char \<Rightarrow> bool" where
  "band_letter c = (lower_char c \<in> set ''ghjklbcaw'')"

definition scan_band_code :: "string \<Rightarrow> string option" where
  "scan_band_code s =
     (let letters = takeWhile band_letter s; r = dropWhile band_letter s;
          digits = takeWhile is_digit r; r2 = dropWhile is_digit r
      in if letters = [] \<or> digits = [] then None
         else Some (letters @ digits @ (case r2 of c # _ \<Rightarrow> if c = CHR ''+'' then [c] else [] | [] \<Rightarrow> [])))"

definition scan_band_code_sep :: "string \<Rightarrow> string option" where
  "scan_band_code_sep s =
     (case s of c # t \<Rightarrow> if c = CHR ''_'' \<or> c = CHR ''-'' then scan_band_code t else scan_band_code s
      | [] \<Rightarrow> None)"

definition get_band_plan_from_model_code :: "band_registry \<Rightarrow> string \<Rightarrow> string \<Rightarrow> string option" where
  "get_band_plan_from_model_code plans manufacturer model =
     (if manufacturer = [] \<or> model = [] then None
      else
        (let try_code = (\<lambda>m. case m of None \<Rightarrow> None
               | Some code \<Rightarrow> detect_band_plan_from_api_string plans (lower code) manufacturer)
         in case py_or (try_code (search scan_band_code_sep model)) None of
              Some p \<Rightarrow> Some p
            | None \<Rightarrow> py_or (try_code (scan_band_code model)) None))"

section \<open>Preparation and coverage of a chassis\<close>

definition get_band_plan_status :: "chassis \<Rightarrow> bool" where
  "get_band_plan_status c =
     (case (ch_band_min c, ch_band_max c) of (Some lo, Some hi) \<Rightarrow> hi > lo | _ \<Rightarrow> False)"

definition apply_band_plan_fields :: "rat \<Rightarrow> rat \<Rightarrow> chassis \<Rightarrow> chassis" where
  "apply_band_plan_fields lo hi c = c\<lparr>ch_band_min := Some lo, ch_band_max := Some hi\<rparr>"

text \<open>\<open>prepare_chassis_regulatory_fields\<close>: the specification and the role first, then the band plan.\<close>

definition prepare_band_plan :: "band_registry \<Rightarrow> string \<Rightarrow> chassis \<Rightarrow> chassis" where
  "prepare_band_plan plans mfr c =
     (if ch_band_name c \<noteq> []
      then (if ch_band_min c = None \<or> ch_band_max c = None
            then (case parse_band_plan_from_name (ch_band_name c) of
                    Some (lo, hi) \<Rightarrow> apply_band_plan_fields lo hi c | None \<Rightarrow> c)
            else c)
      else (case get_band_plan_from_model_code plans mfr (ch_model c) of
          None \<Rightarrow> c
        | Some name \<Rightarrow>
            (if name = [] then c
             else (case get_band_plan plans mfr (band_plan_key name) of
                Some p \<Rightarrow> apply_band_plan_fields (bp_min p) (bp_max p) (c\<lparr>ch_band_name := name\<rparr>)
              | None \<Rightarrow> c\<lparr>ch_band_name := name\<rparr>))))"

definition apply_specs_and_role :: "spec_registry \<Rightarrow> string \<Rightarrow> chassis \<Rightarrow> chassis" where
  "apply_specs_and_role specs code c0 =
     (let c1 = apply_specs_to_chassis specs code c0
      in if ch_role c1 = [] then c1\<lparr>ch_role := get_device_role specs (lower code) (ch_model c1)\<rparr> else c1)"

definition prepare_chassis_regulatory_fields ::
  "spec_registry \<Rightarrow> band_registry \<Rightarrow> string \<Rightarrow> chassis \<Rightarrow> chassis"
where
  "prepare_chassis_regulatory_fields specs plans code c =
     (if ch_model c = [] then c
      else prepare_band_plan plans (lower code) (apply_specs_and_role specs code c))"

record band_plan_info =
  bi_name :: "string option"
  bi_min :: "rat option"
  bi_max :: "rat option"
  bi_source :: "string option"

definition no_band_plan :: band_plan_info where
  "no_band_plan = \<lparr>bi_name = None, bi_min = None, bi_max = None, bi_source = None\<rparr>"

definition detected_band_plan_info ::
  "band_registry \<Rightarrow> string \<Rightarrow> string \<Rightarrow> string \<Rightarrow> band_plan_info option"
where
  "detected_band_plan_info plans mfr name source =
     (case get_band_plan plans mfr (band_plan_key name) of None \<Rightarrow> None
      | Some p \<Rightarrow> Some \<lparr>bi_name = Some name, bi_min = Some (bp_min p), bi_max = Some (bp_max p),
                       bi_source = Some source\<rparr>)"

definition detect_band_plan_from_api_data ::
  "band_registry \<Rightarrow> string \<Rightarrow> chassis \<Rightarrow> string \<Rightarrow> band_plan_info"
where
  "detect_band_plan_from_api_data plans code c api_band_value =
     (let mfr = lower code;
          info = (\<lambda>name source. case name of None \<Rightarrow> None
             | Some n \<Rightarrow> if n = [] then None else detected_band_plan_info plans mfr n source)
      in case (if api_band_value = [] then None
               else info (detect_band_plan_from_api_string plans api_band_value mfr) ''api'') of
           Some d \<Rightarrow> d
         | None \<Rightarrow>
             (case (if ch_model c = [] then None
                    else info (get_band_plan_from_model_code plans mfr (ch_model c)) ''model'') of
                Some d \<Rightarrow> d | None \<Rightarrow> no_band_plan))"

definition apply_detected_band_plan ::
  "band_registry \<Rightarrow> string \<Rightarrow> string \<Rightarrow> chassis \<Rightarrow> bool \<times> chassis"
where
  "apply_detected_band_plan plans code api_band_value c =
     (let d = detect_band_plan_from_api_data plans code c api_band_value in
      case bi_name d of None \<Rightarrow> (False, c)
      | Some n \<Rightarrow> (True, c\<lparr>ch_band_name := n, ch_band_min := bi_min d, ch_band_max := bi_max d\<rparr>))"

definition has_band_plan_regulatory_coverage ::
  "regulatory_domain option \<Rightarrow> frequency_band list \<Rightarrow> chassis \<Rightarrow> bool"
where
  "has_band_plan_regulatory_coverage domain bands c =
     (if \<not> get_band_plan_status c then False
      else (case (domain, ch_band_min c, ch_band_max c) of
          (Some d, Some lo, Some hi) \<Rightarrow>
            if rd_min d \<le> lo \<and> rd_max d \<ge> hi then True
            else
              (let overlapping = filter (\<lambda>b. fb_domain b = rd_code d \<and> fb_start b < hi \<and> fb_end b > lo
                     \<and> fb_type b \<noteq> ''forbidden'') bands
               in if overlapping = [] then False
                  else Min (set (map fb_start overlapping)) \<le> lo \<and> Max (set (map fb_end overlapping)) \<ge> hi)
        | _ \<Rightarrow> False))"

definition get_needs_band_plan_regulatory_update ::
  "regulatory_domain option \<Rightarrow> frequency_band list \<Rightarrow> chassis \<Rightarrow> bool"
where
  "get_needs_band_plan_regulatory_update domain bands c =
     (if ch_status c \<notin> set [''online'', ''degraded'', ''provisioning''] then False
      else if \<not> get_band_plan_status c then False
      else \<not> has_band_plan_regulatory_coverage domain bands c)"

section \<open>Facts\<close>

text \<open>The preparation touches none of the identity and lifecycle fields.\<close>

definition keeps_core :: "chassis \<Rightarrow> chassis \<Rightarrow> bool" where
  "keeps_core c c' \<longleftrightarrow> ch_pk c' = ch_pk c \<and> ch_manufacturer c' = ch_manufacturer c
     \<and> ch_api_id c' = ch_api_id c \<and> ch_serial c' = ch_serial c \<and> ch_mac c' = ch_mac c
     \<and> ch_ip c' = ch_ip c \<and> ch_status c' = ch_status c \<and> ch_is_online c' = ch_is_online c
     \<and> ch_last_online c' = ch_last_online c \<and> ch_last_offline c' = ch_last_offline c
     \<and> ch_uptime c' = ch_uptime c \<and> ch_model c' = ch_model c \<and> ch_location c' = ch_location c
     \<and> ch_last_seen c' = ch_last_seen c \<and> ch_wmas c' = ch_wmas c"

lemma keeps_core_refl [simp]: "keeps_core c c"
  by (simp add: keeps_core_def)

lemma keeps_core_trans: "keeps_core a b \<Longrightarrow> keeps_core b c \<Longrightarrow> keeps_core a c"
  by (simp add: keeps_core_def)

lemma keeps_core_steps [simp]:
  "keeps_core c (apply_specs_to_chassis specs code c)"
  "keeps_core c (apply_band_plan_fields lo hi c)"
  "keeps_core c (c\<lparr>ch_role := r\<rparr>)"
  "keeps_core c (c\<lparr>ch_band_name := n\<rparr>)"
  by (simp_all add: apply_specs_to_chassis_def apply_band_plan_fields_def keeps_core_def
      split: option.splits)

lemma keeps_core_parts:
  "keeps_core c (prepare_band_plan plans mfr c)"
  "keeps_core c (apply_specs_and_role specs code c)"
proof -
  have "keeps_core c (apply_band_plan_fields lo hi (c\<lparr>ch_band_name := n\<rparr>))" for lo hi n
    by (rule keeps_core_trans[of _ "c\<lparr>ch_band_name := n\<rparr>"]) simp_all
  then show "keeps_core c (prepare_band_plan plans mfr c)"
    unfolding prepare_band_plan_def by (simp split: option.split prod.split)
  have "keeps_core c (apply_specs_to_chassis specs code c\<lparr>ch_role := r\<rparr>)" for r
    by (rule keeps_core_trans[of _ "apply_specs_to_chassis specs code c"]) simp_all
  then show "keeps_core c (apply_specs_and_role specs code c)"
    by (simp add: apply_specs_and_role_def Let_def)
qed

lemma prepare_regulatory_keeps_core:
  "keeps_core c (prepare_chassis_regulatory_fields specs plans code c)"
  unfolding prepare_chassis_regulatory_fields_def
  by (simp add: keeps_core_trans[OF keeps_core_parts(2) keeps_core_parts(1)])

lemma find_map_name:
  "map_option (bp_name \<circ> snd) (find P ps) = Some n \<Longrightarrow> n \<in> bp_name ` snd ` set ps"
  by (auto simp: find_Some_iff image_iff) (metis nth_mem snd_conv)

text \<open>A detected name is the name of a plan of the manufacturer.\<close>

lemma py_or_Some: "py_or a b = Some n \<Longrightarrow> a = Some n \<or> b = Some n"
  by (auto simp: py_or_def split: if_splits)

lemma find_plan_name:
  "find_plan_by_code ps v = Some n \<Longrightarrow> n \<in> bp_name ` snd ` set ps"
  "find_plan_by_frequency_range ps v = Some n \<Longrightarrow> n \<in> bp_name ` snd ` set ps"
  "find_plan_by_partial_key ps v = Some n \<Longrightarrow> n \<in> bp_name ` snd ` set ps"
proof -
  show "n \<in> bp_name ` snd ` set ps" if "find_plan_by_code ps v = Some n"
  proof (cases "extract_band_code v")
    case (Some code)
    with that show ?thesis unfolding find_plan_by_code_def by (simp only: option.case) (rule find_map_name)
  qed (use that in \<open>simp add: find_plan_by_code_def\<close>)
  show "n \<in> bp_name ` snd ` set ps" if "find_plan_by_frequency_range ps v = Some n"
  proof (cases "extract_freq_range v")
    case (Some r)
    with that show ?thesis unfolding find_plan_by_frequency_range_def
      by (cases r) (simp only: option.case prod.case, rule find_map_name)
  qed (use that in \<open>simp add: find_plan_by_frequency_range_def\<close>)
  show "n \<in> bp_name ` snd ` set ps" if "find_plan_by_partial_key ps v = Some n"
    using that unfolding find_plan_by_partial_key_def Let_def by (rule find_map_name)
qed

lemma detect_name:
  assumes "detect_band_plan_from_api_string plans v mfr = Some n" "mfr \<noteq> []"
  shows "\<exists>ps. map_of plans (lower mfr) = Some ps \<and> n \<in> bp_name ` snd ` set ps"
proof -
  let ?ps = "case map_of plans (lower mfr) of None \<Rightarrow> [] | Some ps \<Rightarrow> ps"
  from assms consider p where "map_of ?ps (normalize_band_key (strip v)) = Some p" "n = bp_name p"
    | "py_or (find_plan_by_code ?ps (strip v))
         (py_or (find_plan_by_frequency_range ?ps (strip v)) (find_plan_by_partial_key ?ps (strip v))) = Some n"
    unfolding detect_band_plan_from_api_string_def Let_def
    by (cases "map_of ?ps (normalize_band_key (strip v))") (auto split: if_splits)
  then have "n \<in> bp_name ` snd ` set ?ps"
  proof cases
    case (1 p)
    then have "p \<in> snd ` set ?ps" by (metis map_of_SomeD imageI snd_conv)
    with 1 show ?thesis by blast
  next
    case 2
    from py_or_Some[OF this] show ?thesis
    proof
      assume "py_or (find_plan_by_frequency_range ?ps (strip v)) (find_plan_by_partial_key ?ps (strip v)) = Some n"
      from py_or_Some[OF this] show ?thesis by (elim disjE) (erule find_plan_name(2) find_plan_name(3))+
    qed (rule find_plan_name(1))
  qed
  then show ?thesis by (cases "map_of plans (lower mfr)") auto
qed

lemma model_code_name:
  assumes "get_band_plan_from_model_code plans mfr model = Some n"
  shows "mfr \<noteq> [] \<and> (\<exists>v. detect_band_plan_from_api_string plans v mfr = Some n)"
  using assms unfolding get_band_plan_from_model_code_def Let_def
  by (auto split: if_splits option.splits dest!: py_or_Some)

section \<open>Properties\<close>

lemma chassis_update_same [simp]:
  "ch_max_channels c = n \<Longrightarrow> ch_dante c = d \<Longrightarrow> c\<lparr>ch_max_channels := n, ch_dante := d\<rparr> = c"
  "ch_role c = r \<Longrightarrow> c\<lparr>ch_role := r\<rparr> = c"
  by (cases c, simp)+

lemma specs_and_role_fix:
  assumes "\<forall>n d. get_specs specs code (ch_model c) = Some (n, d) \<longrightarrow> ch_max_channels c = n \<and> ch_dante c = d"
    and "ch_role c = [] \<longrightarrow> get_device_role specs (lower code) (ch_model c) = []"
  shows "apply_specs_and_role specs code c = c"
proof -
  have "apply_specs_to_chassis specs code c = c"
    using assms(1) by (auto simp: apply_specs_to_chassis_def split: option.split)
  then show ?thesis using assms(2) by (simp add: apply_specs_and_role_def)
qed

lemma prepare_band_plan_frame:
  "ch_max_channels (prepare_band_plan plans mfr c) = ch_max_channels c"
  "ch_dante (prepare_band_plan plans mfr c) = ch_dante c"
  "ch_role (prepare_band_plan plans mfr c) = ch_role c"
  "ch_model (prepare_band_plan plans mfr c) = ch_model c"
  by (simp_all add: prepare_band_plan_def apply_band_plan_fields_def split: option.split prod.split)

lemma specs_and_role_again:
  "apply_specs_and_role specs code (prepare_band_plan plans mfr (apply_specs_and_role specs code c)) =
     prepare_band_plan plans mfr (apply_specs_and_role specs code c)"
  by (rule specs_and_role_fix)
     (auto simp: prepare_band_plan_frame apply_specs_and_role_def apply_specs_to_chassis_def Let_def
       split: option.splits)

lemma band_plan_named: "ch_band_name c \<noteq> [] \<Longrightarrow>
  prepare_band_plan plans mfr (prepare_band_plan plans mfr c) = prepare_band_plan plans mfr c"
  by (auto simp: prepare_band_plan_def apply_band_plan_fields_def split: option.split)

lemma band_plan_settles:
  "prepare_band_plan plans mfr (prepare_band_plan plans mfr (prepare_band_plan plans mfr c)) =
     prepare_band_plan plans mfr (prepare_band_plan plans mfr c)"
proof (cases "prepare_band_plan plans mfr c = c")
  case True
  then show ?thesis by simp
next
  case ne: False
  have "ch_band_name (prepare_band_plan plans mfr c) \<noteq> []"
  proof (cases "ch_band_name c = []")
    case True
    with ne obtain n where "get_band_plan_from_model_code plans mfr (ch_model c) = Some n" "n \<noteq> []"
      by (cases "get_band_plan_from_model_code plans mfr (ch_model c)")
         (auto simp: prepare_band_plan_def split: if_splits)
    with True show ?thesis
      by (cases "get_band_plan plans mfr (band_plan_key n)")
         (simp_all add: prepare_band_plan_def apply_band_plan_fields_def)
  next
    case False
    then show ?thesis
      by (cases "parse_band_plan_from_name (ch_band_name c)")
         (simp_all add: prepare_band_plan_def apply_band_plan_fields_def split: prod.split)
  qed
  then show ?thesis by (rule band_plan_named)
qed

text \<open>Filling in the specification and band plan of a chassis settles: a third save changes
  nothing that the first two did not, whatever the registries are, and no save touches the
  identity and lifecycle fields.\<close>

theorem regulatory_preparation_settles:
  "(let prep = prepare_chassis_regulatory_fields specs plans code in
    prep (prep (prep c)) = prep (prep c) \<and> keeps_core c (prep c))"
proof (cases "ch_model c = []")
  case True
  then show ?thesis by (simp add: prepare_chassis_regulatory_fields_def)
next
  case False
  let ?P = "prepare_chassis_regulatory_fields specs plans code"
  let ?B = "prepare_band_plan plans (lower code)" and ?S = "apply_specs_and_role specs code"
  have m: "ch_model (?S x) = ch_model x" for x using keeps_core_parts(2)[of x] by (simp add: keeps_core_def)
  have P: "?P x = ?B (?S x)" if "ch_model x \<noteq> []" for x
    using that by (simp add: prepare_chassis_regulatory_fields_def)
  have "?P c = ?B (?S c)" using P False by simp
  moreover have "?P (?B (?S c)) = ?B (?B (?S c))"
    using False by (simp add: P prepare_band_plan_frame m specs_and_role_again)
  moreover have "?S (?B (?B (?S c))) = ?B (?B (?S c))"
    by (rule specs_and_role_fix)
       (auto simp: prepare_band_plan_frame apply_specs_and_role_def apply_specs_to_chassis_def Let_def
         split: option.splits)
  then have "?P (?B (?B (?S c))) = ?B (?B (?B (?S c)))"
    using False by (simp add: P prepare_band_plan_frame m)
  moreover note prepare_regulatory_keeps_core[of c specs plans code]
  ultimately show ?thesis by (simp add: band_plan_settles)
qed

text \<open>with the shipped band-plan registry, detecting a band plan from API data never finds one:
  the plans are filed under short keys, and the lookup of the detected plan uses the key made
  from its display name, which no plan has.\<close>

theorem shipped_band_plans_never_detected:
  "detect_band_plan_from_api_data band_plan_registry code c v = no_band_plan
   \<and> apply_detected_band_plan band_plan_registry code v c = (False, c)"
proof -
  have keys: "list_all (\<lambda>(m, ps). list_all (\<lambda>n. map_of ps (band_plan_key (band_plan_key n)) = None)
      (map (bp_name \<circ> snd) ps)) band_plan_registry"
    by code_simp
  have none: "get_band_plan band_plan_registry mfr (band_plan_key n) = None"
    if "mfr \<noteq> []" "detect_band_plan_from_api_string band_plan_registry v mfr = Some n" for mfr n v
  proof -
    from detect_name[OF that(2,1)] obtain ps where
      ps: "map_of band_plan_registry (lower mfr) = Some ps" "n \<in> bp_name ` snd ` set ps" by blast
    with keys have "map_of ps (band_plan_key (band_plan_key n)) = None"
      by (fastforce simp: list_all_iff dest: map_of_SomeD)
    with ps show ?thesis by (simp add: get_band_plan_def)
  qed
  have "get_band_plan band_plan_registry [] k = None" for k by (simp add: get_band_plan_def)
  with none have "detected_band_plan_info band_plan_registry mfr n s = None"
    if "detect_band_plan_from_api_string band_plan_registry v mfr = Some n" for mfr n s v
    using that by (cases "mfr = []") (simp_all add: detected_band_plan_info_def)
  then have "detect_band_plan_from_api_data band_plan_registry code c v = no_band_plan"
    using model_code_name[of band_plan_registry "lower code" "ch_model c"]
    by (auto simp: detect_band_plan_from_api_data_def Let_def split: option.splits)
  then show ?thesis by (simp add: apply_detected_band_plan_def Let_def no_band_plan_def)
qed

lemma ex_Min_map: "xs \<noteq> [] \<Longrightarrow> \<exists>x \<in> set xs. f x = (Min (set (map f xs)) :: 'b::linorder)"
  using Min_in[of "f ` set xs"] by (auto simp: image_iff)

lemma ex_Max_map: "xs \<noteq> [] \<Longrightarrow> \<exists>x \<in> set xs. f x = (Max (set (map f xs)) :: 'b::linorder)"
  using Max_in[of "f ` set xs"] by (auto simp: image_iff)

text \<open>A chassis reported as covered has an ordered band plan lying inside the regulatory
  domain, or inside the hull of the domain's bands that overlap it and are not forbidden.\<close>

theorem coverage_within_hull:
  assumes "has_band_plan_regulatory_coverage (Some d) bands c"
  shows "\<exists>lo hi. ch_band_min c = Some lo \<and> ch_band_max c = Some hi \<and> lo < hi \<and>
    ((rd_min d \<le> lo \<and> hi \<le> rd_max d) \<or>
     (\<exists>b1 \<in> set bands. \<exists>b2 \<in> set bands. fb_type b1 \<noteq> ''forbidden'' \<and> fb_type b2 \<noteq> ''forbidden''
        \<and> fb_domain b1 = rd_code d \<and> fb_domain b2 = rd_code d
        \<and> fb_start b1 \<le> lo \<and> lo < fb_end b1 \<and> fb_start b2 < hi \<and> hi \<le> fb_end b2))"
proof -
  from assms obtain lo hi where b: "ch_band_min c = Some lo" "ch_band_max c = Some hi" "lo < hi"
    by (auto simp: has_band_plan_regulatory_coverage_def get_band_plan_status_def split: option.splits if_splits)
  let ?ov = "filter (\<lambda>b. fb_domain b = rd_code d \<and> fb_start b < hi \<and> fb_end b > lo
                     \<and> fb_type b \<noteq> ''forbidden'') bands"
  show ?thesis
  proof (cases "rd_min d \<le> lo \<and> hi \<le> rd_max d")
    case True
    with b show ?thesis by blast
  next
    case False
    with assms b have ne: "?ov \<noteq> []" and mn: "Min (set (map fb_start ?ov)) \<le> lo"
      and mx: "Max (set (map fb_end ?ov)) \<ge> hi"
      by (auto simp: has_band_plan_regulatory_coverage_def Let_def split: if_splits)
    obtain b1 where b1: "b1 \<in> set ?ov" "fb_start b1 = Min (set (map fb_start ?ov))"
      using ex_Min_map[OF ne] by blast
    obtain b2 where b2: "b2 \<in> set ?ov" "fb_end b2 = Max (set (map fb_end ?ov))"
      using ex_Max_map[OF ne] by blast
    from b1(2) mn have 1: "fb_start b1 \<le> lo" by simp
    from b2(2) mx have 2: "hi \<le> fb_end b2" by simp
    from b1(1) b2(1) 1 2 b show ?thesis by auto
  qed
qed

theorem coverage_within_hull_witness:
  "let d = \<lparr>rd_code = ''FCC'', rd_country = ''US'', rd_min = 470, rd_max = 608\<rparr>;
       c = (sample_chassis 1 7 ''S1'' None ''10.0.0.1'' ''a1'' ''online'')
             \<lparr>ch_band_min := Some 470, ch_band_max := Some 534\<rparr>
   in has_band_plan_regulatory_coverage (Some d) [] c \<and> (\<exists>lo hi. ch_band_min c = Some lo \<and> ch_band_max c = Some hi \<and> lo < hi)"
proof -
  let ?d = "\<lparr>rd_code = ''FCC'', rd_country = ''US'', rd_min = 470, rd_max = 608\<rparr>"
  let ?c = "(sample_chassis 1 7 ''S1'' None ''10.0.0.1'' ''a1'' ''online'')
             \<lparr>ch_band_min := Some 470, ch_band_max := Some 534\<rparr>"
  have 1: "has_band_plan_regulatory_coverage (Some ?d) [] ?c"
    by (simp add: has_band_plan_regulatory_coverage_def get_band_plan_status_def)
  from coverage_within_hull[OF 1] 1 show ?thesis unfolding Let_def by blast
qed

text \<open>The hull may have gaps: a band plan is reported as covered although the frequencies in
  the middle of it lie in no allowed band of the domain.\<close>

theorem coverage_ignores_gaps:
  "let d = \<lparr>rd_code = ''X'', rd_country = ''XX'', rd_min = 100, rd_max = 200\<rparr>;
       bands = [\<lparr>fb_domain = ''X'', fb_start = 470, fb_end = 480, fb_type = ''allowed''\<rparr>,
                \<lparr>fb_domain = ''X'', fb_start = 520, fb_end = 534, fb_type = ''allowed''\<rparr>];
       c = (sample_chassis 1 7 ''S1'' None ''10.0.0.1'' ''a1'' ''online'')
             \<lparr>ch_band_min := Some 470, ch_band_max := Some 534\<rparr>
   in has_band_plan_regulatory_coverage (Some d) bands c
      \<and> \<not> get_needs_band_plan_regulatory_update (Some d) bands c
      \<and> list_all (\<lambda>b. \<not> (fb_start b \<le> 500 \<and> 500 \<le> fb_end b)) bands"
  by (simp add: has_band_plan_regulatory_coverage_def get_band_plan_status_def
      get_needs_band_plan_regulatory_update_def sample_chassis_def Let_def)

end
