(* ===== verification/Ip_Address.thy ===== *)
theory Ip_Address
  imports Prelude "HOL-Library.Code_Target_Nat"
begin

text \<open>
  IP addresses as the services use Python's \<open>ipaddress\<close> module: \<open>ip_address(text)\<close> (IPv4 dotted
  quads without leading zeros, IPv6 with at most one \<open>::\<close>, an embedded IPv4 tail and a scope id)
  and \<open>str(address)\<close> with the longest run of at least two zero groups compressed.
\<close>

datatype ip_address = IPv4 nat | IPv6 nat "string option"

section \<open>Numbers and fields\<close>

definition digit_char :: "nat \<Rightarrow> char" where
  "digit_char d = (if d < 10 then char_of (48 + d) else char_of (87 + d))"

fun print_base :: "nat \<Rightarrow> nat \<Rightarrow> string" where
  "print_base b n = (if b < 2 \<or> n < b then [digit_char n]
                     else print_base b (n div b) @ [digit_char (n mod b)])"

declare print_base.simps [simp del]

definition nat_text :: "nat \<Rightarrow> string" where
  "nat_text n = print_base 10 n"

definition int_text :: "int \<Rightarrow> string" where
  "int_text n = (if n < 0 then ''-'' @ nat_text (nat (- n)) else nat_text (nat n))"

definition dec_digit :: "char \<Rightarrow> bool" where
  "dec_digit c = (48 \<le> (of_char c :: nat) \<and> (of_char c :: nat) \<le> 57)"

definition hex_digit :: "char \<Rightarrow> bool" where
  "hex_digit c = (let n = of_char c :: nat in
     (48 \<le> n \<and> n \<le> 57) \<or> (65 \<le> n \<and> n \<le> 70) \<or> (97 \<le> n \<and> n \<le> 102))"

definition digit_val :: "char \<Rightarrow> nat" where
  "digit_val c = (let n = of_char c :: nat in
     if n \<le> 57 then n - 48 else if n \<le> 70 then n - 55 else n - 87)"

definition text_val :: "nat \<Rightarrow> string \<Rightarrow> nat" where
  "text_val b s = foldl (\<lambda>n c. b * n + digit_val c) 0 s"

text \<open>\<open>text.split(sep)\<close>\<close>

fun split_on :: "char \<Rightarrow> string \<Rightarrow> string list" where
  "split_on sep [] = [[]]"
| "split_on sep (c # s) =
     (if c = sep then [] # split_on sep s
      else (case split_on sep s of [] \<Rightarrow> [[c]] | w # ws \<Rightarrow> (c # w) # ws))"

fun join_with :: "char \<Rightarrow> string list \<Rightarrow> string" where
  "join_with sep [] = []"
| "join_with sep [w] = w"
| "join_with sep (w # v # ws) = w @ sep # join_with sep (v # ws)"

section \<open>IPv4\<close>

definition parse_octet :: "string \<Rightarrow> nat option" where
  "parse_octet s =
     (if s = [] \<or> \<not> list_all dec_digit s \<or> length s > 3 \<or> (s \<noteq> ''0'' \<and> hd s = CHR ''0'') then None
      else (let n = text_val 10 s in if n > 255 then None else Some n))"

definition parse_ipv4 :: "string \<Rightarrow> nat option" where
  "parse_ipv4 s =
     (case split_on CHR ''.'' s of
        [a, b, c, d] \<Rightarrow>
          (case (parse_octet a, parse_octet b, parse_octet c, parse_octet d) of
             (Some w, Some x, Some y, Some z) \<Rightarrow> Some (((w * 256 + x) * 256 + y) * 256 + z)
           | _ \<Rightarrow> None)
      | _ \<Rightarrow> None)"

definition print_ipv4 :: "nat \<Rightarrow> string" where
  "print_ipv4 n = join_with CHR ''.''
     (map (print_base 10) [n div 16777216 mod 256, n div 65536 mod 256, n div 256 mod 256, n mod 256])"

section \<open>IPv6\<close>

definition parse_hextet :: "string \<Rightarrow> nat option" where
  "parse_hextet s =
     (if s = [] \<or> \<not> list_all hex_digit s \<or> length s > 4 then None else Some (text_val 16 s))"

fun parse_hextets :: "string list \<Rightarrow> nat list option" where
  "parse_hextets [] = Some []"
| "parse_hextets (p # ps) =
     (case (parse_hextet p, parse_hextets ps) of (Some h, Some hs) \<Rightarrow> Some (h # hs) | _ \<Rightarrow> None)"

definition groups_value :: "nat list \<Rightarrow> nat" where
  "groups_value hs = foldl (\<lambda>n h. n * 65536 + h) 0 hs"

text \<open>The empty parts strictly inside the list: \<open>i\<close> in \<open>range(1, len(parts) - 1)\<close>.\<close>

definition inner_gaps :: "string list \<Rightarrow> nat list" where
  "inner_gaps parts = filter (\<lambda>i. parts ! i = []) [1..<length parts - 1]"

definition parse_ipv6_groups :: "string \<Rightarrow> nat option" where
  "parse_ipv6_groups s =
     (let parts0 = split_on CHR '':'' s in
      if length parts0 < 3 then None
      else
        (case (if CHR ''.'' \<in> set (last parts0)
               then (case parse_ipv4 (last parts0) of None \<Rightarrow> None
                 | Some n \<Rightarrow> Some (butlast parts0 @ [print_base 16 (n div 65536), print_base 16 (n mod 65536)]))
               else Some parts0) of
           None \<Rightarrow> None
         | Some parts \<Rightarrow>
             if length parts > 9 then None
             else (case inner_gaps parts of
                 [] \<Rightarrow> if length parts \<noteq> 8 then None else map_option groups_value (parse_hextets parts)
               | [i] \<Rightarrow>
                   (let hi0 = i; lo0 = length parts - i - 1;
                        hi = (if hd parts = [] then hi0 - 1 else hi0);
                        lo = (if last parts = [] then lo0 - 1 else lo0)
                    in if (hd parts = [] \<and> hi \<noteq> 0) \<or> (last parts = [] \<and> lo \<noteq> 0) \<or> 8 \<le> hi + lo then None
                       else (case (parse_hextets (take hi parts), parse_hextets (drop (length parts - lo) parts)) of
                           (Some hs, Some ls) \<Rightarrow> Some (groups_value (hs @ replicate (8 - (hi + lo)) 0 @ ls))
                         | _ \<Rightarrow> None))
               | _ \<Rightarrow> None)))"

definition parse_ipv6 :: "string \<Rightarrow> ip_address option" where
  "parse_ipv6 s =
     (if CHR ''%'' \<notin> set s then map_option (\<lambda>n. IPv6 n None) (parse_ipv6_groups s)
      else (let addr = takeWhile (\<lambda>c. c \<noteq> CHR ''%'') s; scope = tl (dropWhile (\<lambda>c. c \<noteq> CHR ''%'') s) in
        if scope = [] \<or> CHR ''%'' \<in> set scope then None
        else map_option (\<lambda>n. IPv6 n (Some scope)) (parse_ipv6_groups addr)))"

definition hextets :: "nat \<Rightarrow> nat list" where
  "hextets n = map (\<lambda>i. n div 65536 ^ (7 - i) mod 65536) [0..<8]"

text \<open>The first longest run of zero groups: start and length.\<close>

definition zero_run :: "nat list \<Rightarrow> nat \<Rightarrow> nat" where
  "zero_run hs i = length (takeWhile (\<lambda>h. h = 0) (drop i hs))"

definition best_run :: "nat list \<Rightarrow> nat \<times> nat" where
  "best_run hs = fold (\<lambda>i (s, l). if zero_run hs i > l then (i, zero_run hs i) else (s, l)) [0..<length hs] (0, 0)"

definition print_ipv6 :: "nat \<Rightarrow> string" where
  "print_ipv6 n =
     (let hs = hextets n; texts = map (print_base 16); (s, l) = best_run hs in
      if l > 1
      then join_with CHR '':'' (texts (take s hs)) @ '':'' @ '':'' @ join_with CHR '':'' (texts (drop (s + l) hs))
      else join_with CHR '':'' (texts hs))"

section \<open>\<open>ip_address\<close> and \<open>str\<close>\<close>

definition ip_of_text :: "string \<Rightarrow> ip_address option" where
  "ip_of_text s = (case parse_ipv4 s of Some n \<Rightarrow> Some (IPv4 n) | None \<Rightarrow> parse_ipv6 s)"

fun text_of_ip :: "ip_address \<Rightarrow> string" where
  "text_of_ip (IPv4 n) = print_ipv4 n"
| "text_of_ip (IPv6 n None) = print_ipv6 n"
| "text_of_ip (IPv6 n (Some scope)) = print_ipv6 n @ CHR ''%'' # scope"

section \<open>Facts\<close>

lemma examples:
  "map_option text_of_ip (ip_of_text ''FE80:0:0:0:0:0:0:1'') = Some ''fe80::1''"
  "map_option text_of_ip (ip_of_text ''::'') = Some ''::''"
  "map_option text_of_ip (ip_of_text ''010.0.0.1'') = None"
  "map_option text_of_ip (ip_of_text ''::ffff:10.1.2.3'') = Some ''::ffff:a01:203''"
  by code_simp+

lemma join_split: "join_with sep (split_on sep s) = s"
proof (induction s)
  case Nil
  then show ?case by simp
next
  case (Cons c s)
  have ne: "split_on sep s \<noteq> []" by (cases s) (auto split: list.splits)
  then obtain w ws where w: "split_on sep s = w # ws" by (cases "split_on sep s") auto
  show ?case
  proof (cases "c = sep")
    case True
    with Cons w show ?thesis by simp
  next
    case False
    with Cons w show ?thesis by (cases ws) auto
  qed
qed

lemma split_join:
  assumes "ws \<noteq> []" "\<forall>w \<in> set ws. sep \<notin> set w"
  shows "split_on sep (join_with sep ws) = ws"
proof -
  have word: "split_on x w = [w]" if "x \<notin> set w" for x w
    using that by (induction w) auto
  have step: "split_on x (w @ x # s) = w # split_on x s" if "x \<notin> set w" for x w s
    using that by (induction w) auto
  show ?thesis
    using assms by (induction sep ws rule: join_with.induct) (auto simp: word step)
qed

lemma dec_digit_char: "d < 10 \<Longrightarrow> dec_digit (digit_char d) \<and> digit_val (digit_char d) = d"
  by (auto simp: dec_digit_def digit_char_def digit_val_def Let_def)

lemma digit_char_val: "dec_digit c \<Longrightarrow> digit_char (digit_val c) = c \<and> digit_val c < 10"
  by (auto simp: dec_digit_def digit_char_def digit_val_def Let_def)

lemma text_val_snoc: "text_val b (s @ [c]) = b * text_val b s + digit_val c"
  by (simp add: text_val_def)

lemma print_base_digits: "list_all dec_digit (print_base 10 n)"
proof (induction n rule: less_induct)
  case (less n)
  then show ?case by (subst print_base.simps) (simp add: dec_digit_char)
qed

lemma text_val_print: "text_val 10 (print_base 10 n) = n"
proof (induction n rule: less_induct)
  case (less n)
  show ?case
  proof (cases "n < 10")
    case True
    then show ?thesis by (subst print_base.simps) (simp add: text_val_def dec_digit_char)
  next
    case False
    with less[of "n div 10"] show ?thesis
      by (subst print_base.simps) (simp add: text_val_snoc dec_digit_char)
  qed
qed

lemma print_base_head: "hd (print_base 10 n) = CHR ''0'' \<Longrightarrow> n = 0"
proof (induction n rule: less_induct)
  case (less n)
  show ?case
  proof (cases "n < 10")
    case True
    then have "hd (print_base 10 n) = digit_char n" by (simp add: print_base.simps[of 10 n])
    with less.prems True dec_digit_char[of n] show ?thesis by (simp add: digit_val_def)
  next
    case False
    have ne: "print_base 10 k \<noteq> []" for k by (subst print_base.simps) simp
    from False have "print_base 10 n = print_base 10 (n div 10) @ [digit_char (n mod 10)]"
      by (simp add: print_base.simps[of 10 n])
    with less.prems ne have "hd (print_base 10 (n div 10)) = CHR ''0''" by simp
    with less.IH[of "n div 10"] False show ?thesis by simp
  qed
qed

lemma print_text_val:
  assumes "s \<noteq> []" "list_all dec_digit s" "s = ''0'' \<or> hd s \<noteq> CHR ''0''"
  shows "print_base 10 (text_val 10 s) = s"
  using assms
proof (induction s rule: rev_induct)
  case Nil
  then show ?case by simp
next
  case (snoc c s)
  have c: "digit_char (digit_val c) = c" "digit_val c < 10" using snoc.prems digit_char_val by auto
  show ?case
  proof (cases "s = []")
    case True
    with c show ?thesis by (subst print_base.simps) (simp add: text_val_def)
  next
    case False
    with snoc.prems have s: "list_all dec_digit s" "hd s \<noteq> CHR ''0''" by (auto simp: hd_append)
    with snoc.IH False have IH: "print_base 10 (text_val 10 s) = s" by simp
    have "text_val 10 s \<noteq> 0"
    proof
      assume "text_val 10 s = 0"
      with IH have "s = print_base 10 0" by simp
      moreover have "print_base 10 0 = ''0''" by code_simp
      ultimately show False using s(2) by simp
    qed
    with IH c show ?thesis by (subst print_base.simps) (simp add: text_val_snoc)
  qed
qed

lemma parse_octet_print:
  assumes "parse_octet s = Some n"
  shows "print_base 10 n = s \<and> n < 256"
  using assms print_text_val[of s] by (auto simp: parse_octet_def Let_def split: if_splits)

lemma print_base_length: "n < 10 ^ Suc k \<Longrightarrow> length (print_base 10 n) \<le> Suc k"
proof (induction k arbitrary: n)
  case 0
  then show ?case by (simp add: print_base.simps[of 10 n])
next
  case (Suc k)
  show ?case
  proof (cases "n < 10")
    case True
    then show ?thesis by (simp add: print_base.simps[of 10 n])
  next
    case False
    have "n div 10 < 10 ^ Suc k" using Suc.prems by (simp add: less_mult_imp_div_less)
    with Suc.IH[of "n div 10"] False show ?thesis by (simp add: print_base.simps[of 10 n])
  qed
qed

lemma parse_octet_of_print:
  assumes "n < 256"
  shows "parse_octet (print_base 10 n) = Some n"
proof -
  have "print_base 10 n \<noteq> []" by (simp add: print_base.simps[of 10 n])
  moreover have "length (print_base 10 n) \<le> 3" using print_base_length[of n 2] assms by (simp add: eval_nat_numeral)
  moreover have "print_base 10 n = ''0''" if "hd (print_base 10 n) = CHR ''0''"
    using print_base_head[OF that] by (simp, code_simp)
  ultimately show ?thesis using assms by (auto simp: parse_octet_def print_base_digits text_val_print Let_def)
qed

lemma octet_no_dot: "CHR ''.'' \<notin> set (print_base 10 n)"
  using print_base_digits[of n] by (auto simp: list_all_iff dec_digit_def)

lemma octet_step: "(b::nat) < 256 \<Longrightarrow> (a * 256 + b) mod 256 = b \<and> (a * 256 + b) div 256 = a"
  by simp

lemma octet_divs:
  "(n::nat) div 65536 = n div 256 div 256" "n div 16777216 = n div 256 div 256 div 256"
  using div_mult2_eq[of n 256 256] div_mult2_eq[of n 65536 256] by simp_all

text \<open>An IPv4 text is its own canonical form, and every 32-bit value has exactly one text.\<close>

lemma parse_ipv4_print:
  assumes "parse_ipv4 s = Some n"
  shows "print_ipv4 n = s \<and> n < 2 ^ 32"
proof -
  from assms obtain a b c d w x y z where
    sp: "split_on CHR ''.'' s = [a, b, c, d]"
    and o: "parse_octet a = Some w" "parse_octet b = Some x" "parse_octet c = Some y" "parse_octet d = Some z"
    and n: "n = ((w * 256 + x) * 256 + y) * 256 + z"
    by (auto simp: parse_ipv4_def split: list.splits option.splits)
  note P = o[THEN parse_octet_print]
  have "n mod 256 = z" "n div 256 mod 256 = y" "n div 65536 mod 256 = x" "n div 16777216 mod 256 = w"
    unfolding octet_divs n using P by (simp_all only: octet_step) simp
  then have "print_ipv4 n = join_with CHR ''.'' [a, b, c, d]" using P by (simp add: print_ipv4_def)
  also have "\<dots> = s" using join_split[of "CHR ''.''" s] sp by simp
  finally show ?thesis using P by (simp add: n)
qed

lemma parse_print_ipv4:
  assumes "n < 2 ^ 32"
  shows "parse_ipv4 (print_ipv4 n) = Some n"
proof -
  have eq: "((n div 16777216 mod 256 * 256 + n div 65536 mod 256) * 256 + n div 256 mod 256) * 256 + n mod 256 = n"
  proof -
    have "n div 256 div 256 div 256 < 256" using assms unfolding octet_divs(2)[symmetric] by simp
    then have "n div 256 div 256 div 256 mod 256 = n div 256 div 256 div 256" by simp
    then show ?thesis unfolding octet_divs by (simp only: div_mult_mod_eq)
  qed
  have "parse_ipv4 (print_ipv4 n) = Some (((n div 16777216 mod 256 * 256 + n div 65536 mod 256) * 256
      + n div 256 mod 256) * 256 + n mod 256)"
    unfolding parse_ipv4_def print_ipv4_def
    by (subst split_join) (auto simp: octet_no_dot parse_octet_of_print)
  then show ?thesis unfolding eq .
qed

end
