(* ===== verification/Chassis_Save.thy ===== *)
theory Chassis_Save
  imports Regulatory Ip_Address "HOL-Library.Char_ord" "HOL-Library.List_Lexorder"
begin

text \<open>
  Saving a chassis: the pre- and post-save adapters of \<open>micboard/model_lifecycle.py\<close> around one
  row write, with the IP-ownership check (\<open>services/hardware/ip_ownership_service.py\<close>), the
  channel reconciliation (\<open>services/core/hardware_sync.py\<close>, \<open>hardware_post_save_hooks.py\<close>), the
  discovery schedule (\<open>services/sync/chassis_discovery_schedule_service.py\<close>), the audit entry and
  the status broadcast, and on top of it the status transitions of
  \<open>services/core/hardware_lifecycle.py\<close>.

  \<open>inventory\<close> is the database part these operations share, with the requests they register to
  run on commit.  A save is atomic: an error leaves the caller with the inventory it had.  The
  advisory locks order concurrent savers and do not change what one of them computes.
\<close>

record inventory =
  iv_chassis :: "chassis list"
  iv_chargers :: "charger list"
  iv_channels :: "rf_channel list"
  iv_audit :: audit_state
  iv_broadcasts :: "nat list"
  iv_discovery :: "nat list"

text \<open>What the save reads beside the inventory: the registries, the codes of the manufacturers and
  Django's IPv6 cleaning, which stores an address in its canonical spelling.\<close>

record save_env =
  se_specs :: spec_registry
  se_plans :: band_registry
  se_code :: "nat \<Rightarrow> string"
  se_clean_ipv6 :: "string \<Rightarrow> string option"

definition ip_key' :: "save_env \<Rightarrow> string \<Rightarrow> string" where
  "ip_key' env v = prepared_ip (se_clean_ipv6 env) v"

datatype chassis_error =
    Save save_error
  | InvalidIp
  | AddressTaken
  | IntegrityError
  | ChassisMissing

section \<open>IP ownership\<close>

text \<open>\<open>_canonical_ip\<close>: no address, a canonical address, or an error for other text.\<close>

definition canonical_ip :: "string option \<Rightarrow> chassis_error + string option" where
  "canonical_ip v =
     (if v = None \<or> v = Some [] then Inr None
      else (case ip_of_text (the v) of None \<Rightarrow> Inl InvalidIp | Some a \<Rightarrow> Inr (Some (text_of_ip a))))"

text \<open>The addresses \<open>lock_addresses\<close> locks, in its order.\<close>

fun canonical_ips :: "string option list \<Rightarrow> chassis_error + string list" where
  "canonical_ips [] = Inr []"
| "canonical_ips (v # vs) =
     bindE (canonical_ip v) (\<lambda>a. bindE (canonical_ips vs) (\<lambda>as.
       Inr (case a of None \<Rightarrow> as | Some x \<Rightarrow> x # as)))"

definition lock_addresses :: "string option list \<Rightarrow> chassis_error + string list" where
  "lock_addresses vs = bindE (canonical_ips vs) (\<lambda>as. Inr (sort (fromkeys as)))"

definition validate_chassis_ip :: "chassis \<Rightarrow> inventory \<Rightarrow> chassis_error + unit" where
  "validate_chassis_ip c db =
     bindE (canonical_ip (Some (ch_ip c))) (\<lambda>ip. case ip of
         None \<Rightarrow> Inr ()
       | Some a \<Rightarrow> requireE (\<not> list_ex (\<lambda>g. cg_ip g = Some a) (iv_chargers db)) AddressTaken)"

definition validate_charger_ip :: "charger \<Rightarrow> inventory \<Rightarrow> chassis_error + unit" where
  "validate_charger_ip g db =
     bindE (canonical_ip (cg_ip g)) (\<lambda>ip. case ip of
         None \<Rightarrow> Inr ()
       | Some a \<Rightarrow> requireE (\<not> list_ex (\<lambda>c. ch_ip c = a) (iv_chassis db)) AddressTaken)"

section \<open>Channels\<close>

definition new_channel :: "chassis \<Rightarrow> int \<Rightarrow> rf_channel list \<Rightarrow> rf_channel" where
  "new_channel c number rows =
     \<lparr>rf_pk = next_pk rf_pk rows, rf_chassis = ch_pk c, rf_number = number,
      rf_direction = (if ch_role c = ''receiver'' then ''receive''
                      else if ch_role c = ''transmitter'' then ''send'' else ''bidirectional''),
      rf_protocol_family = ''legacy_uhf'', rf_wmas_profile = [], rf_licensed = False,
      rf_enabled = True, rf_state = ''free'', rf_frequency = None, rf_signal_strength = None,
      rf_audio_level = None, rf_signal_quality = None, rf_muted = False, rf_active_unit = None,
      rf_iem_mix_level = None, rf_iem_link_quality = None, rf_active_iem = None\<rparr>"

text \<open>\<open>stored\<close> is the chassis row the channel's own save hook reads; creation stops at the first
  refusal and keeps the rows made before it.\<close>

fun create_channels :: "chassis \<Rightarrow> chassis \<Rightarrow> int list \<Rightarrow> rf_channel list \<Rightarrow> rf_channel list \<times> bool" where
  "create_channels c stored [] rows = (rows, True)"
| "create_channels c stored (n # ns) rows =
     (case prepare_channel_for_save True rows stored (new_channel c n rows) of
        Inl _ \<Rightarrow> (rows, False)
      | Inr (_, ch) \<Rightarrow> create_channels c stored ns (rows @ [ch]))"

definition channel_numbers :: "nat \<Rightarrow> rf_channel list \<Rightarrow> int list" where
  "channel_numbers pk rows = map rf_number (filter (\<lambda>r. rf_chassis r = pk) rows)"

definition missing_numbers :: "chassis \<Rightarrow> rf_channel list \<Rightarrow> int list" where
  "missing_numbers c rows =
     filter (\<lambda>n. n \<notin> set (channel_numbers (ch_pk c) rows)) [1..ch_max_channels c]"

definition ensure_channel_count :: "chassis \<Rightarrow> chassis \<Rightarrow> rf_channel list \<Rightarrow> rf_channel list" where
  "ensure_channel_count c stored rows =
     (let (rows1, ok) = create_channels c stored (missing_numbers c rows) rows
      in if \<not> ok then rows1
         else filter (\<lambda>r. \<not> (rf_chassis r = ch_pk c \<and> rf_number r \<in> set (channel_numbers (ch_pk c) rows)
                \<and> rf_number r \<notin> set [1..ch_max_channels c])) rows1)"

section \<open>Discovery schedule\<close>

definition identity_fields :: "chassis_field list" where
  "identity_fields = [FManufacturer, FApiId, FSerial, FMac, FIp]"

definition field_differs :: "chassis \<Rightarrow> chassis \<Rightarrow> chassis_field \<Rightarrow> bool" where
  "field_differs prev c f = (copy_field f c prev \<noteq> prev)"

definition affected_manufacturer_ids ::
  "chassis \<Rightarrow> bool \<Rightarrow> chassis_field list option \<Rightarrow> chassis list \<Rightarrow> chassis_error + nat list"
where
  "affected_manufacturer_ids c created update_fields rows =
     (if created then Inr [ch_manufacturer c]
      else
        (let compared = (case update_fields of None \<Rightarrow> identity_fields
               | Some fs \<Rightarrow> filter (\<lambda>f. f \<in> set fs) identity_fields)
         in if compared = [] then Inr []
            else (case qs_get (\<lambda>r. ch_pk r = ch_pk c) rows of
                Inl _ \<Rightarrow> Inl ChassisMissing
              | Inr prev \<Rightarrow>
                  if list_ex (field_differs prev c) compared
                  then Inr (sort (fromkeys [ch_manufacturer prev, ch_manufacturer c]))
                  else Inr [])))"

section \<open>The save\<close>

text \<open>What the table's constraints refuse: a blank address, which Django stores as the null value, an
  address or a manufacturer-scoped identifier of another row.\<close>

definition integrity_violation :: "chassis \<Rightarrow> chassis list \<Rightarrow> bool" where
  "integrity_violation row rows = (ch_ip row = [] \<or>
     list_ex (\<lambda>r. ch_pk r \<noteq> ch_pk row \<and>
       (ch_ip r = ch_ip row \<or> (ch_manufacturer r = ch_manufacturer row \<and> ch_api_id r = ch_api_id row))) rows)"

definition stored_form :: "save_env \<Rightarrow> chassis \<Rightarrow> chassis" where
  "stored_form env c = c\<lparr>ch_ip := ip_key' env (ch_ip c)\<rparr>"

definition schedule_broadcast :: "nat \<Rightarrow> nat list \<Rightarrow> nat list" where
  "schedule_broadcast pk bs = (if pk \<in> set bs then bs else bs @ [pk])"

definition log_status_change :: "time \<Rightarrow> string option \<Rightarrow> chassis \<Rightarrow> inventory \<Rightarrow> inventory" where
  "log_status_change now old c db =
     (case old of None \<Rightarrow> db
      | Some o' \<Rightarrow> if o' = ch_status c then db
          else db\<lparr>iv_audit := log_activity now ''normal''
                     (status_change ''hardware'' ''status_change'' ''WirelessChassis'' (ch_pk c)
                        ''status'' o' (ch_status c)) (iv_audit db),
                   iv_broadcasts := schedule_broadcast (ch_pk c) (iv_broadcasts db)\<rparr>)"

definition pre_save ::
  "save_env \<Rightarrow> time \<Rightarrow> bool \<Rightarrow> chassis_field list option \<Rightarrow> chassis \<Rightarrow> inventory
     \<Rightarrow> chassis_error + string option \<times> chassis_field list \<times> nat list \<times> chassis"
where
  "pre_save env now created update_fields c db =
     bindE (validate_chassis_ip c db) (\<lambda>_.
     bindE (case prepare_lifecycle_fields now created (iv_chassis db) c of
              Inl e \<Rightarrow> Inl (Save e) | Inr r \<Rightarrow> Inr r) (\<lambda>(old, derived, c1).
     let c2 = prepare_chassis_regulatory_fields (se_specs env) (se_plans env)
                (se_code env (ch_manufacturer c1)) c1
     in bindE (affected_manufacturer_ids c2 created update_fields (iv_chassis db)) (\<lambda>affected.
        Inr (old, derived, affected, c2))))"

text \<open>The row written: all columns, or the named ones and the derived lifecycle columns.\<close>

definition written_row ::
  "save_env \<Rightarrow> chassis_field list option \<Rightarrow> chassis_field list \<Rightarrow> chassis \<Rightarrow> chassis \<Rightarrow> chassis"
where
  "written_row env update_fields derived c row =
     (case update_fields of
        None \<Rightarrow> stored_form env c
      | Some fs \<Rightarrow> copy_fields (fs @ filter (\<lambda>f. f \<notin> set fs) derived) (stored_form env c) row)"

definition post_save ::
  "time \<Rightarrow> string option \<Rightarrow> nat list \<Rightarrow> chassis \<Rightarrow> chassis \<Rightarrow> inventory \<Rightarrow> inventory"
where
  "post_save now old affected c row db =
     (let db1 = log_status_change now old c db
      in db1\<lparr>iv_channels := ensure_channel_count c row (iv_channels db1),
              iv_discovery := iv_discovery db1 @ affected\<rparr>)"

text \<open>\<open>chassis.save(update_fields=...)\<close> of a stored instance.\<close>

definition save_chassis ::
  "save_env \<Rightarrow> time \<Rightarrow> chassis_field list option \<Rightarrow> chassis \<Rightarrow> inventory
     \<Rightarrow> chassis_error + chassis \<times> inventory"
where
  "save_chassis env now update_fields c0 db =
     bindE (pre_save env now False update_fields c0 db) (\<lambda>(old, derived, affected, c).
     case qs_get (\<lambda>r. ch_pk r = ch_pk c) (iv_chassis db) of
       Inl _ \<Rightarrow> Inl ChassisMissing
     | Inr prev \<Rightarrow>
         (let row = written_row env update_fields derived c prev in
          if integrity_violation row (iv_chassis db) then Inl IntegrityError
          else Inr (c, post_save now old affected c row
                 (db\<lparr>iv_chassis := put_row ch_pk row (iv_chassis db)\<rparr>))))"

text \<open>\<open>manager.create(...)\<close>: the instance gets the next key.\<close>

definition create_chassis ::
  "save_env \<Rightarrow> time \<Rightarrow> chassis \<Rightarrow> inventory \<Rightarrow> chassis_error + chassis \<times> inventory"
where
  "create_chassis env now c0 db =
     bindE (pre_save env now True None c0 db) (\<lambda>(old, derived, affected, c1).
     let c = c1\<lparr>ch_pk := next_pk ch_pk (iv_chassis db)\<rparr>;
         row = stored_form env c
     in if integrity_violation row (iv_chassis db) then Inl IntegrityError
        else Inr (c, post_save now old affected c row
               (db\<lparr>iv_chassis := iv_chassis db @ [row]\<rparr>)))"

section \<open>Status changes\<close>

definition transition_device ::
  "save_env \<Rightarrow> time \<Rightarrow> nat \<Rightarrow> string \<Rightarrow> inventory \<Rightarrow> chassis_error + bool \<times> inventory"
where
  "transition_device env now pk to_status db =
     (case qs_get (\<lambda>r. ch_pk r = pk) (iv_chassis db) of
        Inl _ \<Rightarrow> Inl ChassisMissing
      | Inr device \<Rightarrow>
          if \<not> is_valid_transition (ch_status device) to_status then Inr (False, db)
          else bindE (save_chassis env now (Some [FStatus, FLastSeen])
                        (device\<lparr>ch_status := to_status, ch_last_seen := Some now\<rparr>) db)
                     (\<lambda>(_, db'). Inr (True, db')))"

definition mark_online :: "save_env \<Rightarrow> time \<Rightarrow> nat \<Rightarrow> inventory \<Rightarrow> chassis_error + bool \<times> inventory" where
  "mark_online env now pk db = transition_device env now pk ''online'' db"

definition mark_offline :: "save_env \<Rightarrow> time \<Rightarrow> nat \<Rightarrow> inventory \<Rightarrow> chassis_error + bool \<times> inventory" where
  "mark_offline env now pk db = transition_device env now pk ''offline'' db"

definition sync_hardware_status ::
  "save_env \<Rightarrow> time \<Rightarrow> bool \<Rightarrow> chassis \<Rightarrow> inventory \<Rightarrow> chassis_error + chassis \<times> inventory"
where
  "sync_hardware_status env now online obj db =
     save_chassis env now (Some [FStatus])
       (obj\<lparr>ch_status := (if online then ''online'' else ''offline'')\<rparr>) db"

section \<open>Channel reconciliation\<close>

lemma prepare_new_channel:
  assumes "1 \<le> n" "ch_wmas stored \<or> n \<le> ch_max_channels stored"
  shows "\<exists>ctx. prepare_channel_for_save True rows stored (new_channel c n rs) = Inr (ctx, new_channel c n rs)"
  using assms by (auto simp: prepare_channel_for_save_def new_channel_def)

lemma create_channels_all:
  assumes "\<forall>n \<in> set ns. 1 \<le> n \<and> (ch_wmas stored \<or> n \<le> ch_max_channels stored)"
  shows "\<exists>chs. create_channels c stored ns rows = (rows @ chs, True) \<and> map rf_number chs = ns
    \<and> (\<forall>r \<in> set chs. rf_chassis r = ch_pk c \<and> rf_state r = ''free'')"
  using assms
proof (induction ns arbitrary: rows)
  case Nil
  then show ?case by simp
next
  case (Cons n ns)
  let ?ch = "new_channel c n rows"
  from Cons.prems prepare_new_channel[of n stored rows c rows] obtain ctx where
    "prepare_channel_for_save True rows stored ?ch = Inr (ctx, ?ch)" by auto
  moreover from Cons obtain chs where
    "create_channels c stored ns (rows @ [?ch]) = ((rows @ [?ch]) @ chs, True)" "map rf_number chs = ns"
    "\<forall>r \<in> set chs. rf_chassis r = ch_pk c \<and> rf_state r = ''free''" by (metis list.set_intros(2))
  ultimately show ?case by (intro exI[of _ "?ch # chs"]) (auto simp: new_channel_def)
qed

lemma missing_numbers_set:
  "set (missing_numbers c rows) = {1..ch_max_channels c} - set (channel_numbers (ch_pk c) rows)"
  by (auto simp: missing_numbers_def)

text \<open>when the stored capacity is the one the saved instance carries, reconciling the channels
  of a chassis leaves it with exactly the channels 1 to its capacity; it keeps every channel in
  that range, makes the missing ones as free resources, and touches no other chassis's channels.\<close>

theorem ensure_channel_count_exact:
  assumes cap: "ch_max_channels stored = ch_max_channels c"
  shows "set (channel_numbers (ch_pk c) (ensure_channel_count c stored rows)) = {1..ch_max_channels c}
    \<and> filter (\<lambda>r. rf_chassis r \<noteq> ch_pk c) (ensure_channel_count c stored rows)
        = filter (\<lambda>r. rf_chassis r \<noteq> ch_pk c) rows
    \<and> {r \<in> set rows. rf_chassis r = ch_pk c \<and> 1 \<le> rf_number r \<and> rf_number r \<le> ch_max_channels c}
        \<subseteq> set (ensure_channel_count c stored rows)
    \<and> (\<forall>r \<in> set (ensure_channel_count c stored rows) - set rows. rf_state r = ''free'')"
proof -
  let ?max = "ch_max_channels c" and ?cur = "channel_numbers (ch_pk c) rows"
  have "\<forall>n \<in> set (missing_numbers c rows). 1 \<le> n \<and> (ch_wmas stored \<or> n \<le> ch_max_channels stored)"
    by (auto simp: missing_numbers_set cap)
  from create_channels_all[OF this, of c rows] obtain chs where
    cr: "create_channels c stored (missing_numbers c rows) rows = (rows @ chs, True)"
    and nums: "map rf_number chs = missing_numbers c rows"
    and own: "\<forall>r \<in> set chs. rf_chassis r = ch_pk c \<and> rf_state r = ''free''" by blast
  let ?drop = "\<lambda>r. rf_chassis r = ch_pk c \<and> rf_number r \<in> set ?cur \<and> rf_number r \<notin> set [1..?max]"
  have eq: "ensure_channel_count c stored rows = filter (\<lambda>r. \<not> ?drop r) (rows @ chs)"
    by (simp add: ensure_channel_count_def cr)
  have chnum: "rf_number ` set chs = {1..?max} - set ?cur"
    using nums missing_numbers_set[of c rows] by (metis set_map)
  have keep: "\<not> ?drop r" if "r \<in> set chs" for r using that chnum by (auto simp: image_iff)
  have "set (channel_numbers (ch_pk c) (ensure_channel_count c stored rows))
      = (set ?cur \<inter> {1..?max}) \<union> rf_number ` set chs"
    unfolding eq using own keep by (auto simp: channel_numbers_def image_iff)
  then have 1: "set (channel_numbers (ch_pk c) (ensure_channel_count c stored rows)) = {1..?max}"
    unfolding chnum by blast
  have "filter (\<lambda>r. rf_chassis r \<noteq> ch_pk c) chs = []" using own by (simp add: filter_empty_conv)
  then have 2: "filter (\<lambda>r. rf_chassis r \<noteq> ch_pk c) (ensure_channel_count c stored rows)
      = filter (\<lambda>r. rf_chassis r \<noteq> ch_pk c) rows"
  proof -
    have F: "filter (\<lambda>x. \<not> ?drop x \<and> rf_chassis x \<noteq> ch_pk c) xs = filter (\<lambda>x. rf_chassis x \<noteq> ch_pk c) xs" for xs
      by (rule filter_cong) auto
    show ?thesis
      unfolding eq filter_filter F filter_append \<open>filter (\<lambda>r. rf_chassis r \<noteq> ch_pk c) chs = []\<close> by simp
  qed
  show ?thesis using 1 2 own unfolding eq by auto
qed

theorem ensure_channel_count_exact_witness:
  "let c = sample_chassis 1 7 ''S1'' None ''10.0.0.1'' ''a1'' ''online''
   in set (channel_numbers 1 (ensure_channel_count c c [sample_channel 5 1 9 True ''free'', sample_channel 6 2 1 True ''free'']))
      = {1..4}"
proof -
  let ?c = "sample_chassis 1 7 ''S1'' None ''10.0.0.1'' ''a1'' ''online''"
  have "ch_pk ?c = 1" "ch_max_channels ?c = 4" by (simp_all add: sample_chassis_def)
  with ensure_channel_count_exact[OF HOL.refl, of ?c "[sample_channel 5 1 9 True ''free'', sample_channel 6 2 1 True ''free'']"]
  show ?thesis by (simp add: Let_def)
qed

text \<open>With a stored capacity that lags behind the instance's, the first missing channel above it is
  refused, and nothing is deleted either.\<close>

lemma ensure_channel_count_stale:
  assumes "missing_numbers c rows = n # ns" "\<not> ch_wmas stored" "ch_max_channels stored < n"
  shows "ensure_channel_count c stored rows = rows"
  using assms by (simp add: ensure_channel_count_def prepare_channel_for_save_def new_channel_def)

section \<open>What a save changes\<close>

lemma copy_field_simps [simp]:
  "ch_pk (copy_field f src dst) = ch_pk dst"
  "ch_ip (copy_field f src dst) = (if f = FIp then ch_ip src else ch_ip dst)"
  "ch_manufacturer (copy_field f src dst) = (if f = FManufacturer then ch_manufacturer src else ch_manufacturer dst)"
  "ch_api_id (copy_field f src dst) = (if f = FApiId then ch_api_id src else ch_api_id dst)"
  "ch_status (copy_field f src dst) = (if f = FStatus then ch_status src else ch_status dst)"
  "ch_is_online (copy_field f src dst) = (if f = FIsOnline then ch_is_online src else ch_is_online dst)"
  "ch_uptime (copy_field f src dst) = (if f = FUptime then ch_uptime src else ch_uptime dst)"
  "ch_last_seen (copy_field f src dst) = (if f = FLastSeen then ch_last_seen src else ch_last_seen dst)"
  "ch_location (copy_field f src dst) = (if f = FLocation then ch_location src else ch_location dst)"
  "ch_serial (copy_field f src dst) = (if f = FSerial then ch_serial src else ch_serial dst)"
  "ch_mac (copy_field f src dst) = (if f = FMac then ch_mac src else ch_mac dst)"
  "ch_wmas (copy_field f src dst) = (if f = FWmas then ch_wmas src else ch_wmas dst)"
  "ch_max_channels (copy_field f src dst) = (if f = FMaxChannels then ch_max_channels src else ch_max_channels dst)"
  by (cases f; simp)+

lemma copy_fields_Cons: "copy_fields (f # fs) src dst = copy_fields fs src (copy_field f src dst)"
  by (simp add: copy_fields_def)

lemma copy_fields_simps [simp]:
  "ch_pk (copy_fields fs src dst) = ch_pk dst"
  "ch_ip (copy_fields fs src dst) = (if FIp \<in> set fs then ch_ip src else ch_ip dst)"
  "ch_manufacturer (copy_fields fs src dst) = (if FManufacturer \<in> set fs then ch_manufacturer src else ch_manufacturer dst)"
  "ch_api_id (copy_fields fs src dst) = (if FApiId \<in> set fs then ch_api_id src else ch_api_id dst)"
  "ch_status (copy_fields fs src dst) = (if FStatus \<in> set fs then ch_status src else ch_status dst)"
  "ch_is_online (copy_fields fs src dst) = (if FIsOnline \<in> set fs then ch_is_online src else ch_is_online dst)"
  "ch_uptime (copy_fields fs src dst) = (if FUptime \<in> set fs then ch_uptime src else ch_uptime dst)"
  "ch_last_seen (copy_fields fs src dst) = (if FLastSeen \<in> set fs then ch_last_seen src else ch_last_seen dst)"
  "ch_location (copy_fields fs src dst) = (if FLocation \<in> set fs then ch_location src else ch_location dst)"
  "ch_serial (copy_fields fs src dst) = (if FSerial \<in> set fs then ch_serial src else ch_serial dst)"
  "ch_mac (copy_fields fs src dst) = (if FMac \<in> set fs then ch_mac src else ch_mac dst)"
  "ch_wmas (copy_fields fs src dst) = (if FWmas \<in> set fs then ch_wmas src else ch_wmas dst)"
  "ch_max_channels (copy_fields fs src dst) = (if FMaxChannels \<in> set fs then ch_max_channels src else ch_max_channels dst)"
  by (induction fs arbitrary: dst) (auto simp: copy_fields_Cons copy_fields_def[of "[]"])

lemma stored_form_simps [simp]:
  "ch_pk (stored_form env c) = ch_pk c" "ch_ip (stored_form env c) = ip_key' env (ch_ip c)"
  "ch_manufacturer (stored_form env c) = ch_manufacturer c" "ch_api_id (stored_form env c) = ch_api_id c"
  "ch_status (stored_form env c) = ch_status c" "ch_is_online (stored_form env c) = ch_is_online c"
  "ch_uptime (stored_form env c) = ch_uptime c" "ch_last_seen (stored_form env c) = ch_last_seen c"
  "ch_location (stored_form env c) = ch_location c" "ch_serial (stored_form env c) = ch_serial c"
  "ch_mac (stored_form env c) = ch_mac c" "ch_max_channels (stored_form env c) = ch_max_channels c"
  by (simp_all add: stored_form_def)

lemma prepare_lifecycle_frame:
  assumes "prepare_lifecycle_fields now created rows c = Inr (old, derived, c')"
  shows "ch_pk c' = ch_pk c \<and> ch_ip c' = ch_ip c \<and> ch_manufacturer c' = ch_manufacturer c
    \<and> ch_api_id c' = ch_api_id c \<and> ch_status c' = ch_status c \<and> ch_location c' = ch_location c
    \<and> ch_last_seen c' = ch_last_seen c \<and> ch_serial c' = ch_serial c \<and> ch_mac c' = ch_mac c
    \<and> set derived \<subseteq> {FIsOnline, FLastOnline, FLastOffline, FUptime}
    \<and> (created \<longrightarrow> old = None)
    \<and> (FIsOnline \<notin> set derived \<longrightarrow> ch_is_online c' = ch_is_online c)
    \<and> (FUptime \<notin> set derived \<longrightarrow> ch_uptime c' = ch_uptime c)"
  using assms by (auto simp: prepare_lifecycle_fields_def Let_def split: if_splits sum.splits option.splits)

lemma pre_saveE:
  assumes "pre_save env now created fs c0 db = Inr (old, derived, affected, c)"
  obtains c1 where "validate_chassis_ip c0 db = Inr ()"
    "prepare_lifecycle_fields now created (iv_chassis db) c0 = Inr (old, derived, c1)"
    "keeps_core c1 c" "affected_manufacturer_ids c created fs (iv_chassis db) = Inr affected"
proof -
  from assms obtain c1 where "validate_chassis_ip c0 db = Inr ()"
    "prepare_lifecycle_fields now created (iv_chassis db) c0 = Inr (old, derived, c1)"
    "c = prepare_chassis_regulatory_fields (se_specs env) (se_plans env) (se_code env (ch_manufacturer c1)) c1"
    "affected_manufacturer_ids c created fs (iv_chassis db) = Inr affected"
    by (auto simp: pre_save_def result_simps Let_def split: sum.splits)
  with prepare_regulatory_keeps_core that show thesis by blast
qed

lemma post_save_simps [simp]:
  "iv_chassis (post_save now old aff c row db) = iv_chassis db"
  "iv_chargers (post_save now old aff c row db) = iv_chargers db"
  "iv_discovery (post_save now old aff c row db) = iv_discovery db @ aff"
  "iv_channels (post_save now old aff c row db) = ensure_channel_count c row (iv_channels db)"
  by (simp_all add: post_save_def log_status_change_def Let_def split: option.splits)

lemma save_chassisE:
  assumes "save_chassis env now fs c0 db = Inr (c, db')"
  obtains old derived affected prev where
    "pre_save env now False fs c0 db = Inr (old, derived, affected, c)"
    "qs_get (\<lambda>r. ch_pk r = ch_pk c) (iv_chassis db) = Inr prev"
    "\<not> integrity_violation (written_row env fs derived c prev) (iv_chassis db)"
    "db' = post_save now old affected c (written_row env fs derived c prev)
       (db\<lparr>iv_chassis := put_row ch_pk (written_row env fs derived c prev) (iv_chassis db)\<rparr>)"
proof -
  from assms obtain old derived affected c1 where
    pre: "pre_save env now False fs c0 db = Inr (old, derived, affected, c1)"
    by (auto simp: save_chassis_def result_simps)
  show thesis
  proof (cases "qs_get (\<lambda>r. ch_pk r = ch_pk c1) (iv_chassis db)")
    case (Inl e)
    with assms pre show ?thesis by (simp add: save_chassis_def)
  next
    case (Inr prev)
    with assms pre that[of old derived affected prev] show ?thesis
      by (auto simp: save_chassis_def Let_def split: if_splits)
  qed
qed

lemma create_chassisE:
  assumes "create_chassis env now c0 db = Inr (c, db')"
  obtains old derived affected c1 where
    "pre_save env now True None c0 db = Inr (old, derived, affected, c1)"
    "c = c1\<lparr>ch_pk := next_pk ch_pk (iv_chassis db)\<rparr>"
    "\<not> integrity_violation (stored_form env c) (iv_chassis db)"
    "db' = post_save now old affected c (stored_form env c)
       (db\<lparr>iv_chassis := iv_chassis db @ [stored_form env c]\<rparr>)"
  using assms
  by (auto simp: create_chassis_def result_simps Let_def split: if_splits)

section \<open>One owner per address\<close>

definition addresses_ok :: "inventory \<Rightarrow> bool" where
  "addresses_ok db \<longleftrightarrow> distinct (map ch_pk (iv_chassis db)) \<and> distinct (map ch_ip (iv_chassis db))
     \<and> distinct (map (\<lambda>c. (ch_manufacturer c, ch_api_id c)) (iv_chassis db))
     \<and> (\<forall>c \<in> set (iv_chassis db). \<forall>g \<in> set (iv_chargers db). cg_ip g \<noteq> Some (ch_ip c))"

text \<open>Django stores the spelling that \<open>ipaddress\<close> prints.  Any IPv4 text satisfies this.\<close>

definition stored_spelling_agrees :: "save_env \<Rightarrow> string \<Rightarrow> bool" where
  "stored_spelling_agrees env s \<longleftrightarrow> (\<forall>a. ip_of_text s = Some a \<longrightarrow> ip_key' env s = text_of_ip a)"

lemma no_colon_ipv4:
  assumes "ip_of_text s = Some a" "CHR '':'' \<notin> set s"
  shows "text_of_ip a = s"
proof -
  have "CHR '':'' \<notin> set t \<Longrightarrow> split_on CHR '':'' t = [t]" for t
    by (induction t) auto
  then have none: "CHR '':'' \<notin> set t \<Longrightarrow> parse_ipv6_groups t = None" for t
    by (simp add: parse_ipv6_groups_def)
  have "parse_ipv6 s = None"
    using assms(2) none[of s] none[of "takeWhile (\<lambda>c. c \<noteq> CHR ''%'') s"]
    by (auto simp: parse_ipv6_def Let_def dest: set_takeWhileD)
  with assms(1) obtain n where "parse_ipv4 s = Some n" "a = IPv4 n"
    by (auto simp: ip_of_text_def split: option.splits)
  then show ?thesis using parse_ipv4_print by simp
qed

lemma ipv4_spelling_agrees: "CHR '':'' \<notin> set s \<Longrightarrow> stored_spelling_agrees env s"
  by (simp add: stored_spelling_agrees_def ip_key'_def prepared_ip_def no_colon_ipv4)

lemma validated_address_free:
  assumes "validate_chassis_ip c db = Inr ()" "stored_spelling_agrees env (ch_ip c)" "ch_ip c \<noteq> []"
  shows "\<forall>g \<in> set (iv_chargers db). cg_ip g \<noteq> Some (ip_key' env (ch_ip c))"
  using assms
  by (auto simp: validate_chassis_ip_def canonical_ip_def result_simps stored_spelling_agrees_def
      list_ex_iff split: option.splits)

lemma distinct_put_row:
  assumes "distinct (map ch_pk rows)" "distinct (map f rows)"
    "\<forall>r \<in> set rows. ch_pk r \<noteq> ch_pk row \<longrightarrow> f r \<noteq> f row"
  shows "distinct (map f (put_row ch_pk row rows))"
  using assms
proof (induction rows)
  case Nil
  then show ?case by (simp add: put_row_def)
next
  case (Cons a rows)
  then have IH: "distinct (map f (put_row ch_pk row rows))" by simp
  have hd: "put_row ch_pk row (a # rows) = (if ch_pk a = ch_pk row then row else a) # put_row ch_pk row rows"
    by (simp add: put_row_def)
  have "f (if ch_pk a = ch_pk row then row else a) \<noteq> f x" if "x \<in> set (put_row ch_pk row rows)" for x
    using that[unfolded put_row_mem]
  proof
    assume x: "x = row \<and> ch_pk row \<in> ch_pk ` set rows"
    with Cons.prems(1) have "ch_pk a \<noteq> ch_pk row" by auto
    with x Cons.prems(3) show ?thesis by simp
  next
    assume "x \<in> set rows \<and> ch_pk x \<noteq> ch_pk row"
    with Cons.prems(2,3) show ?thesis by (auto simp: image_iff)
  qed
  then have "f (if ch_pk a = ch_pk row then row else a) \<notin> f ` set (put_row ch_pk row rows)" by blast
  with IH show ?case unfolding hd by simp
qed

lemma no_violation_distinct:
  assumes "addresses_ok db" "\<not> integrity_violation row (iv_chassis db)"
  shows "distinct (map ch_ip (put_row ch_pk row (iv_chassis db)))
    \<and> distinct (map (\<lambda>c. (ch_manufacturer c, ch_api_id c)) (put_row ch_pk row (iv_chassis db)))"
  using assms by (auto simp: addresses_ok_def integrity_violation_def list_ex_iff intro!: distinct_put_row)

definition sample_env :: save_env where
  "sample_env = \<lparr>se_specs = [], se_plans = [], se_code = (\<lambda>_. ''shure''), se_clean_ipv6 = Some\<rparr>"

definition sample_inventory :: "chassis list \<Rightarrow> charger list \<Rightarrow> inventory" where
  "sample_inventory chs cgs =
     \<lparr>iv_chassis = chs, iv_chargers = cgs, iv_channels = [],
      iv_audit = \<lparr>as_mode = \<lparr>mc_mode = None, mc_expiry = None\<rparr>, as_logs = []\<rparr>,
      iv_broadcasts = [], iv_discovery = []\<rparr>"

text \<open>C3: every save keeps each address with one owner: chassis addresses and manufacturer-scoped
  identifiers stay unique, and no chassis ends up with the address of a charger.  The written
  address must be one whose stored spelling is the canonical one, as every IPv4 text is.\<close>

theorem save_keeps_addresses:
  assumes ok: "addresses_ok db" and save: "save_chassis env now fs c0 db = Inr (c, db')"
    and spell: "stored_spelling_agrees env (ch_ip c0)" "ch_ip c0 \<noteq> []"
  shows "addresses_ok db' \<and> iv_chargers db' = iv_chargers db
    \<and> map ch_pk (iv_chassis db') = map ch_pk (iv_chassis db)"
proof -
  from save obtain old derived affected prev where
    pre: "pre_save env now False fs c0 db = Inr (old, derived, affected, c)"
    and prev: "qs_get (\<lambda>r. ch_pk r = ch_pk c) (iv_chassis db) = Inr prev"
    and uniq: "\<not> integrity_violation (written_row env fs derived c prev) (iv_chassis db)"
    and db': "db' = post_save now old affected c (written_row env fs derived c prev)
       (db\<lparr>iv_chassis := put_row ch_pk (written_row env fs derived c prev) (iv_chassis db)\<rparr>)"
    by (rule save_chassisE)
  let ?row = "written_row env fs derived c prev"
  from pre obtain c1 where v: "validate_chassis_ip c0 db = Inr ()"
    and l: "prepare_lifecycle_fields now False (iv_chassis db) c0 = Inr (old, derived, c1)"
    and core: "keeps_core c1 c" by (rule pre_saveE)
  from prev have pm: "prev \<in> set (iv_chassis db)" "ch_pk prev = ch_pk c" using qs_get_row[OF prev] by simp_all
  have "ch_ip c = ch_ip c0" using prepare_lifecycle_frame[OF l] core by (simp add: keeps_core_def)
  then have rip: "ch_ip ?row = ip_key' env (ch_ip c0) \<or> ch_ip ?row = ch_ip prev"
    using prepare_lifecycle_frame[OF l] by (auto simp: written_row_def split: option.split)
  have rpk: "ch_pk ?row = ch_pk c" using pm by (simp add: written_row_def split: option.split)
  have free: "\<forall>g \<in> set (iv_chargers db). cg_ip g \<noteq> Some (ch_ip ?row)"
    using rip validated_address_free[OF v spell] ok pm(1) by (auto simp: addresses_ok_def)
  from no_violation_distinct[OF ok uniq] ok free show ?thesis
    by (auto simp: db' addresses_ok_def put_row_mem)
qed

theorem save_keeps_addresses_witness:
  "let r = sample_chassis 1 7 ''S1'' None ''10.0.0.1'' ''a1'' ''online''
   in \<exists>c db'. save_chassis sample_env 5 (Some [FIp]) (r\<lparr>ch_ip := ''10.0.0.2''\<rparr>) (sample_inventory [r] [])
          = Inr (c, db') \<and> addresses_ok db'"
proof -
  let ?r = "sample_chassis 1 7 ''S1'' None ''10.0.0.1'' ''a1'' ''online''"
  let ?c0 = "?r\<lparr>ch_ip := ''10.0.0.2''\<rparr>" and ?db = "sample_inventory [?r] []"
  have 1: "addresses_ok ?db" by (simp add: addresses_ok_def sample_inventory_def)
  have "\<not> isl (save_chassis sample_env 5 (Some [FIp]) ?c0 ?db)" by code_simp
  then obtain c db' where 2: "save_chassis sample_env 5 (Some [FIp]) ?c0 ?db = Inr (c, db')"
    by (metis sum.collapse(2) surj_pair)
  have 3: "stored_spelling_agrees sample_env (ch_ip ?c0)" by (rule ipv4_spelling_agrees) simp
  have 4: "ch_ip ?c0 \<noteq> []" by simp
  from save_keeps_addresses[OF 1 2 3 4] 2 show ?thesis unfolding Let_def by blast
qed

text \<open>a status transition either leaves the inventory as it was (when the table does not admit
  it) or stores exactly the requested status, keeps the online flag in step with it, stamps the
  contact time, and leaves every other chassis and every charger alone; a retired chassis never
  leaves that state.\<close>

theorem transition_device_effect:
  assumes "transition_device env now pk to_status db = Inr (ok, db')"
    and pks: "distinct (map ch_pk (iv_chassis db))"
    and r: "r \<in> set (iv_chassis db)" "ch_pk r = pk" "online_consistent r"
  shows "(ok \<longleftrightarrow> is_valid_transition (ch_status r) to_status) \<and> (\<not> ok \<longrightarrow> db' = db)
    \<and> (ok \<longrightarrow> (\<exists>r'. r' \<in> set (iv_chassis db') \<and> ch_pk r' = pk \<and> ch_status r' = to_status
          \<and> online_consistent r' \<and> ch_last_seen r' = Some now \<and> ch_uptime r \<le> ch_uptime r'
          \<and> iv_chassis db' = put_row ch_pk r' (iv_chassis db)) \<and> iv_chargers db' = iv_chargers db)
    \<and> (ch_status r = ''retired'' \<and> ok \<longrightarrow> to_status = ''retired'')"
proof -
  have get: "qs_get (\<lambda>x. ch_pk x = pk) (iv_chassis db) = Inr r"
    using qs_get_by_key[OF pks r(1)] r(2) by simp
  let ?c0 = "r\<lparr>ch_status := to_status, ch_last_seen := Some now\<rparr>"
  show ?thesis
  proof (cases "is_valid_transition (ch_status r) to_status")
    case False
    with assms(1) get show ?thesis by (auto simp: transition_device_def)
  next
    case True
    with assms(1) get obtain c where ok: ok
      and save: "save_chassis env now (Some [FStatus, FLastSeen]) ?c0 db = Inr (c, db')"
      by (auto simp: transition_device_def result_simps)
    from save obtain old derived affected prev where
      pre: "pre_save env now False (Some [FStatus, FLastSeen]) ?c0 db = Inr (old, derived, affected, c)"
      and prev: "qs_get (\<lambda>x. ch_pk x = ch_pk c) (iv_chassis db) = Inr prev"
      and db': "db' = post_save now old affected c (written_row env (Some [FStatus, FLastSeen]) derived c prev)
         (db\<lparr>iv_chassis := put_row ch_pk (written_row env (Some [FStatus, FLastSeen]) derived c prev) (iv_chassis db)\<rparr>)"
      by (rule save_chassisE)
    from pre obtain c1 where
      l: "prepare_lifecycle_fields now False (iv_chassis db) ?c0 = Inr (old, derived, c1)"
      and core: "keeps_core c1 c" by (rule pre_saveE)
    let ?row = "written_row env (Some [FStatus, FLastSeen]) derived c prev"
    note F = prepare_lifecycle_frame[OF l]
    have "qs_get (\<lambda>x. ch_pk x = ch_pk ?c0) (iv_chassis db) = Inr r" using get r(2) by simp
    from chassis_save_lifecycle[OF l this r(3)] have L: "online_consistent c1" "ch_uptime r \<le> ch_uptime c1"
      "ch_status c1 = to_status" "ch_status r = ''retired'' \<longrightarrow> ch_status c1 = ''retired''" by auto
    have pr: "prev = r" using prev get F core r(2) by (simp add: keeps_core_def)
    have row: "ch_pk ?row = pk \<and> ch_status ?row = to_status \<and> ch_last_seen ?row = Some now
        \<and> ch_is_online ?row = ch_is_online c1 \<and> ch_uptime ?row = ch_uptime c1"
      using F core L(3) r(2) pr by (auto simp: written_row_def keeps_core_def)
    then have "online_consistent ?row" using L by (simp add: online_consistent_def)
    with row L have "?row \<in> set (iv_chassis db') \<and> ch_pk ?row = pk \<and> ch_status ?row = to_status
        \<and> online_consistent ?row \<and> ch_last_seen ?row = Some now \<and> ch_uptime r \<le> ch_uptime ?row
        \<and> iv_chassis db' = put_row ch_pk ?row (iv_chassis db) \<and> iv_chargers db' = iv_chargers db"
      using r by (auto simp: db' put_row_mem)
    with ok True L show ?thesis by blast
  qed
qed

theorem transition_device_effect_witness:
  "let db = sample_inventory [sample_chassis 1 7 ''S1'' None ''10.0.0.1'' ''a1'' ''retired''] []
   in transition_device sample_env 5 1 ''online'' db = Inr (False, db)"
proof -
  let ?r = "sample_chassis 1 7 ''S1'' None ''10.0.0.1'' ''a1'' ''retired''"
  let ?db = "sample_inventory [?r] []"
  have "\<not> isl (transition_device sample_env 5 1 ''online'' ?db)" by code_simp
  then obtain ok db' where 1: "transition_device sample_env 5 1 ''online'' ?db = Inr (ok, db')"
    by (metis sum.collapse(2) surj_pair)
  have 2: "\<not> is_valid_transition (ch_status ?r) ''online''" by code_simp
  have 3: "distinct (map ch_pk (iv_chassis ?db))" "?r \<in> set (iv_chassis ?db)"
    by (simp_all add: sample_inventory_def)
  have 4: "ch_pk ?r = 1" "online_consistent ?r"
    by (simp_all add: sample_chassis_def online_consistent_def operational_def operational_states_def)
  from transition_device_effect[OF 1 3 4] 1 2 show ?thesis unfolding Let_def by simp
qed

lemma create_channels_checked:
  "create_channels c stored ns rows = (rows', ok) \<Longrightarrow>
     \<forall>r \<in> set rows' - set rows. ch_wmas stored \<or> rf_number r \<le> ch_max_channels stored"
proof (induction ns arbitrary: rows)
  case Nil
  then show ?case by simp
next
  case (Cons n ns)
  show ?case
  proof (cases "prepare_channel_for_save True rows stored (new_channel c n rows)")
    case (Inl e)
    with Cons.prems show ?thesis by simp
  next
    case (Inr r)
    then obtain ctx ch where ch: "prepare_channel_for_save True rows stored (new_channel c n rows) = Inr (ctx, ch)"
      by (cases r) auto
    then have "ch_wmas stored \<or> rf_number ch \<le> ch_max_channels stored"
      by (auto simp: prepare_channel_for_save_def split: if_splits)
    moreover from Cons.IH[of "rows @ [ch]"] Cons.prems ch
    have "\<forall>r \<in> set rows' - set (rows @ [ch]). ch_wmas stored \<or> rf_number r \<le> ch_max_channels stored" by simp
    ultimately show ?thesis by auto
  qed
qed

text \<open>a save that names its columns, as every synchronisation does, never refreshes the stored
  capacity: when the model changes to one with more channels, the row keeps the old capacity and
  no channel above it is created.\<close>

theorem partial_save_keeps_stale_capacity:
  assumes save: "save_chassis env now (Some fs) c0 db = Inr (c, db')"
    and part: "FMaxChannels \<notin> set fs" "FWmas \<notin> set fs"
    and prev: "qs_get (\<lambda>r. ch_pk r = ch_pk c) (iv_chassis db) = Inr prev" "\<not> ch_wmas prev"
  shows "(\<exists>row \<in> set (iv_chassis db'). ch_pk row = ch_pk c \<and> ch_max_channels row = ch_max_channels prev)
    \<and> (\<forall>ch \<in> set (iv_channels db') - set (iv_channels db). rf_number ch \<le> ch_max_channels prev)"
proof -
  from save obtain old derived affected prev' where
    pre: "pre_save env now False (Some fs) c0 db = Inr (old, derived, affected, c)"
    and prev': "qs_get (\<lambda>r. ch_pk r = ch_pk c) (iv_chassis db) = Inr prev'"
    and db': "db' = post_save now old affected c (written_row env (Some fs) derived c prev')
       (db\<lparr>iv_chassis := put_row ch_pk (written_row env (Some fs) derived c prev') (iv_chassis db)\<rparr>)"
    by (rule save_chassisE)
  have pp: "prev' = prev" using prev(1) prev' by simp
  let ?row = "written_row env (Some fs) derived c prev"
  from pre obtain c1 where
    l: "prepare_lifecycle_fields now False (iv_chassis db) c0 = Inr (old, derived, c1)" by (rule pre_saveE)
  have row: "ch_max_channels ?row = ch_max_channels prev" "ch_wmas ?row = ch_wmas prev" "ch_pk ?row = ch_pk prev"
    using prepare_lifecycle_frame[OF l] part by (auto simp: written_row_def)
  have pm: "prev \<in> set (iv_chassis db)" "ch_pk prev = ch_pk c" using qs_get_row[OF prev(1)] by simp_all
  have "ch_pk prev \<in> ch_pk ` set (iv_chassis db)" using pm(1) by (rule imageI)
  then have "?row \<in> set (iv_chassis db')" by (simp add: db' pp put_row_mem row(3))
  moreover have "\<forall>ch \<in> set (iv_channels db') - set (iv_channels db). rf_number ch \<le> ch_max_channels prev"
  proof -
    obtain rows1 ok where cr: "create_channels c ?row (missing_numbers c (iv_channels db)) (iv_channels db) = (rows1, ok)"
      by (metis surj_pair)
    have "set (ensure_channel_count c ?row (iv_channels db)) \<subseteq> set rows1"
      by (auto simp: ensure_channel_count_def cr split: if_splits)
    with create_channels_checked[OF cr] row prev(2) show ?thesis by (auto simp: db' pp)
  qed
  ultimately show ?thesis using row pm by auto
qed

definition sample_specs :: spec_registry where
  "sample_specs = [(''shure'',
     [(''two'', \<lparr>sp_channels = 2, sp_role = ''receiver'', sp_dante = False, sp_models = [''AD4D'']\<rparr>),
      (''four'', \<lparr>sp_channels = 4, sp_role = ''receiver'', sp_dante = False, sp_models = [''AD4Q'']\<rparr>)])]"

theorem partial_save_keeps_stale_capacity_witness:
  "let env = sample_env\<lparr>se_specs := sample_specs\<rparr>;
       r = (sample_chassis 1 7 ''S1'' None ''10.0.0.1'' ''a1'' ''online'')\<lparr>ch_model := ''AD4D'', ch_max_channels := 2\<rparr>;
       db = (sample_inventory [r] [])\<lparr>iv_channels := [sample_channel 1 1 1 True ''free'', sample_channel 2 1 2 True ''free'']\<rparr>
   in \<exists>c db'. save_chassis env 5 (Some [FModel]) (r\<lparr>ch_model := ''AD4Q''\<rparr>) db = Inr (c, db')
        \<and> ch_max_channels c = 4 \<and> (\<exists>row \<in> set (iv_chassis db'). ch_max_channels row = 2)"
proof -
  let ?env = "sample_env\<lparr>se_specs := sample_specs\<rparr>"
  let ?r = "(sample_chassis 1 7 ''S1'' None ''10.0.0.1'' ''a1'' ''online'')\<lparr>ch_model := ''AD4D'', ch_max_channels := 2\<rparr>"
  let ?db = "(sample_inventory [?r] [])\<lparr>iv_channels := [sample_channel 1 1 1 True ''free'', sample_channel 2 1 2 True ''free'']\<rparr>"
  let ?s = "save_chassis ?env 5 (Some [FModel]) (?r\<lparr>ch_model := ''AD4Q''\<rparr>) ?db"
  have c: "(case ?s of Inl _ \<Rightarrow> False | Inr (c, _) \<Rightarrow> ch_max_channels c = 4 \<and> ch_pk c = 1)" by code_simp
  then obtain c db' where s: "?s = Inr (c, db')" "ch_max_channels c = 4" "ch_pk c = 1"
    by (auto split: sum.splits prod.splits)
  have "qs_get (\<lambda>r. ch_pk r = ch_pk c) (iv_chassis ?db) = Inr ?r"
    by (simp add: s(3) sample_inventory_def sample_chassis_def qs_get_def)
  moreover have "\<not> ch_wmas ?r" "ch_max_channels ?r = 2" by (simp_all add: sample_chassis_def)
  ultimately show ?thesis
    using partial_save_keeps_stale_capacity[OF s(1)] s unfolding Let_def by fastforce
qed

text \<open>The reconciliation deletes what the channel's own save accepts: a WMAS-capable chassis may
  be given a channel above its capacity, and the next save of the chassis removes it again.\<close>

theorem wmas_channel_removed_by_save:
  "let ch = (sample_chassis 1 7 ''S1'' None ''10.0.0.1'' ''a1'' ''online'')\<lparr>ch_wmas := True\<rparr>;
       extra = sample_channel 9 1 8 True ''active''
   in \<not> isl (prepare_channel_for_save True [] ch extra)
      \<and> extra \<notin> set (ensure_channel_count ch ch [extra])"
  by code_simp

end
