(* ===== verification/Identity_Index.thy ===== *)
theory Identity_Index
  imports Models
begin

text \<open>
  The bulk identity index of one manufacturer synchronisation
  (\<open>micboard/services/deduplication/identity_index.py\<close>) and the normalised payload it is
  built from (\<open>services/core/hardware.py\<close>).

  The index's dictionaries hold references to chassis objects, and one object is shared by all
  the entries that mention it; a reference is the object's primary key and \<open>ix_objects\<close> is the
  heap of objects (\<open>chassis_by_pk\<close> makes one object per key).  A Python set is given by the
  list of its elements; nothing below depends on the order.

  \<open>clean_ipv6\<close> is Django's \<open>clean_ipv6_address\<close>, a parameter.
\<close>

record normalized =
  nh_api_id :: string
  nh_ip :: string
  nh_serial :: string
  nh_mac :: string
  nh_name :: string
  nh_model :: string
  nh_device_type :: string
  nh_firmware :: string
  nh_hosted_firmware :: string
  nh_description :: string
  nh_subnet :: "string option"
  nh_gateway :: "string option"
  nh_network_mode :: string
  nh_interface_id :: string

definition sample_payload :: "string \<Rightarrow> string \<Rightarrow> string \<Rightarrow> string \<Rightarrow> normalized" where
  "sample_payload serial mac ip api_id =
     \<lparr>nh_api_id = api_id, nh_ip = ip, nh_serial = serial, nh_mac = mac, nh_name = [],
      nh_model = ''QLXD4'', nh_device_type = ''receiver'', nh_firmware = [],
      nh_hosted_firmware = [], nh_description = [], nh_subnet = None, nh_gateway = None,
      nh_network_mode = ''auto'', nh_interface_id = []\<rparr>"

record identity_index =
  ix_serial :: "string \<rightharpoonup> nat list"
  ix_mac :: "string \<rightharpoonup> nat list"
  ix_ip :: "string \<rightharpoonup> nat list"
  ix_api_id :: "nat \<times> string \<rightharpoonup> nat list"
  ix_objects :: "nat \<rightharpoonup> chassis"

definition max_identity_query_values :: nat where
  "max_identity_query_values = 500"

section \<open>Bounded bulk queries\<close>

function chunks :: "nat \<Rightarrow> 'a list \<Rightarrow> 'a list list" where
  "chunks n xs = (if n = 0 \<or> xs = [] then [] else take n xs # chunks n (drop n xs))"
  by pat_completeness auto
termination
  by (relation "measure (\<lambda>(n, xs). length xs)") auto

declare chunks.simps [simp del]

text \<open>The chunk size of \<open>_chunked_querysets\<close>; \<open>max_params\<close> is the backend's
  \<open>max_query_params\<close>, and a manufacturer filter takes one parameter.\<close>

definition chunk_size :: "nat option \<Rightarrow> bool \<Rightarrow> nat" where
  "chunk_size max_params scoped =
     (let reserved = (if scoped then 1 else 0);
          backend_limit = (case max_params of
              Some m \<Rightarrow> max (m - reserved) 1
            | None \<Rightarrow> max_identity_query_values)
      in min max_identity_query_values backend_limit)"

definition chunked_querysets ::
  "nat option \<Rightarrow> (chassis \<Rightarrow> 'a option) \<Rightarrow> 'a list \<Rightarrow> nat option \<Rightarrow> chassis list \<Rightarrow> chassis list list"
where
  "chunked_querysets max_params fld vals mfr rows =
     map (\<lambda>chunk. filter (\<lambda>r. (\<exists>v \<in> set chunk. fld r = Some v) \<and>
                             (case mfr of None \<Rightarrow> True | Some m \<Rightarrow> ch_manufacturer r = m)) rows)
       (chunks (chunk_size max_params (mfr \<noteq> None)) vals)"

definition identity_querysets ::
  "nat option \<Rightarrow> string list \<Rightarrow> string list \<Rightarrow> string list \<Rightarrow> string list \<Rightarrow> nat
     \<Rightarrow> (string \<Rightarrow> string list) \<Rightarrow> chassis list \<Rightarrow> chassis list list"
where
  "identity_querysets max_params serials macs ips api_ids mfr variants rows =
     chunked_querysets max_params (\<lambda>r. Some (ch_serial r)) serials None rows
     @ chunked_querysets max_params ch_mac (fromkeys (concat (map variants macs))) None rows
     @ chunked_querysets max_params (\<lambda>r. Some (ch_ip r)) ips None rows
     @ chunked_querysets max_params (\<lambda>r. Some (ch_api_id r)) api_ids (Some mfr) rows"

section \<open>Building and reading the index\<close>

text \<open>What a deduplication can raise; \<open>InvalidIPv6\<close> is the \<open>ValidationError\<close> of Django's \<open>clean_ipv6_address\<close>.\<close>

datatype dedup_error = Orm orm_error | InvalidIPv6 | ResultError | ManufacturerRequired

definition orm :: "orm_error + 'a \<Rightarrow> dedup_error + 'a" where
  "orm m = (case m of Inl e \<Rightarrow> Inl (Orm e) | Inr x \<Rightarrow> Inr x)"

lemma orm_simps [simp]: "orm (Inl e) = Inl (Orm e)" "orm (Inr x) = Inr x"
  by (simp_all add: orm_def)

lemma orm_Inr_iff [result_simps]: "orm m = Inr x \<longleftrightarrow> m = Inr x"
  by (cases m) simp_all

text \<open>\<open>_ip_key\<close>: unlike a query, the index does not keep a text the cleaning refuses.\<close>

definition ip_key :: "(string \<Rightarrow> string option) \<Rightarrow> string \<Rightarrow> dedup_error + string" where
  "ip_key clean_ipv6 v =
     (if CHR '':'' \<in> set v then (case clean_ipv6 v of None \<Rightarrow> Inl InvalidIPv6 | Some s \<Rightarrow> Inr s) else Inr v)"

definition refused_ip :: "(string \<Rightarrow> string option) \<Rightarrow> string \<Rightarrow> bool" where
  "refused_ip clean_ipv6 v = (CHR '':'' \<in> set v \<and> clean_ipv6 v = None)"

lemma ip_key_prepared: "ip_key cl v = (if refused_ip cl v then Inl InvalidIPv6 else Inr (prepared_ip cl v))"
  by (simp add: ip_key_def refused_ip_def prepared_ip_def split: option.splits)

definition ix_append :: "('k \<rightharpoonup> nat list) \<Rightarrow> 'k \<Rightarrow> nat \<Rightarrow> ('k \<rightharpoonup> nat list)" where
  "ix_append m k pk =
     (let matches = (case m k of None \<Rightarrow> [] | Some xs \<Rightarrow> xs)
      in m(k \<mapsto> (if pk \<notin> set matches then matches @ [pk] else matches)))"

definition ix_unique ::
  "identity_index \<Rightarrow> ('k \<rightharpoonup> nat list) \<Rightarrow> 'k \<Rightarrow> orm_error + chassis option"
where
  "ix_unique ix m k =
     at_most_one (List.map_filter (ix_objects ix) (case m k of None \<Rightarrow> [] | Some xs \<Rightarrow> xs))"

definition ix_lookup_serial :: "identity_index \<Rightarrow> string \<Rightarrow> orm_error + chassis option" where
  "ix_lookup_serial ix v = ix_unique ix (ix_serial ix) v"

definition ix_lookup_mac :: "identity_index \<Rightarrow> string \<Rightarrow> orm_error + chassis option" where
  "ix_lookup_mac ix v =
     (case canonicalize_mac_address (Some v) of
        None \<Rightarrow> Inr None
      | Some c \<Rightarrow> ix_unique ix (ix_mac ix) c)"

definition ix_lookup_ip ::
  "(string \<Rightarrow> string option) \<Rightarrow> identity_index \<Rightarrow> string \<Rightarrow> dedup_error + chassis option"
where
  "ix_lookup_ip clean_ipv6 ix v = bindE (ip_key clean_ipv6 v) (\<lambda>k. orm (ix_unique ix (ix_ip ix) k))"

definition ix_lookup_api_id ::
  "identity_index \<Rightarrow> nat \<Rightarrow> string \<Rightarrow> orm_error + chassis option"
where
  "ix_lookup_api_id ix mfr v = ix_unique ix (ix_api_id ix) (mfr, v)"


definition dict_setdefault :: "'k \<Rightarrow> 'v \<Rightarrow> ('k \<times> 'v) list \<Rightarrow> ('k \<times> 'v) list" where
  "dict_setdefault k v d = (case map_of d k of None \<Rightarrow> d @ [(k, v)] | Some _ \<Rightarrow> d)"

definition fetch_by_pk :: "chassis list list \<Rightarrow> (nat \<times> chassis) list" where
  "fetch_by_pk querysets = fold (\<lambda>r. dict_setdefault (ch_pk r) r) (concat querysets) []"

text \<open>One turn of the build loop; \<open>index_row\<close> is the turn once the stored address has its key.\<close>

definition index_row ::
  "string list \<Rightarrow> string list \<Rightarrow> string list \<Rightarrow> string list \<Rightarrow> nat \<Rightarrow> chassis \<Rightarrow> string
     \<Rightarrow> identity_index \<Rightarrow> identity_index"
where
  "index_row serials macs ips api_ids mfr c ip ix =
     (let ix1 = (if ch_serial c \<in> set serials
                 then ix\<lparr>ix_serial := ix_append (ix_serial ix) (ch_serial c) (ch_pk c)\<rparr> else ix);
          ix2 = (case canonicalize_mac_address (ch_mac c) of
                   None \<Rightarrow> ix1
                 | Some m \<Rightarrow> (if m \<noteq> [] \<and> m \<in> set macs
                     then ix1\<lparr>ix_mac := ix_append (ix_mac ix1) m (ch_pk c)\<rparr> else ix1));
          ix3 = (if ip \<in> set ips
                 then ix2\<lparr>ix_ip := ix_append (ix_ip ix2) ip (ch_pk c)\<rparr> else ix2)
      in (if ch_manufacturer c = mfr \<and> ch_api_id c \<in> set api_ids
          then ix3\<lparr>ix_api_id := ix_append (ix_api_id ix3) (ch_manufacturer c, ch_api_id c) (ch_pk c)\<rparr>
          else ix3))"

definition index_chassis ::
  "(string \<Rightarrow> string option) \<Rightarrow> string list \<Rightarrow> string list \<Rightarrow> string list \<Rightarrow> string list \<Rightarrow> nat
     \<Rightarrow> chassis \<Rightarrow> identity_index \<Rightarrow> dedup_error + identity_index"
where
  "index_chassis clean_ipv6 serials macs ips api_ids mfr c ix =
     bindE (ip_key clean_ipv6 (ch_ip c)) (\<lambda>ip. Inr (index_row serials macs ips api_ids mfr c ip ix))"

definition batch_serials :: "normalized list \<Rightarrow> string list" where
  "batch_serials ps = fromkeys (filter (\<lambda>s. s \<noteq> []) (map nh_serial ps))"

definition batch_macs :: "normalized list \<Rightarrow> string list" where
  "batch_macs ps = fromkeys (List.map_filter (\<lambda>p. canonicalize_mac_address (Some (nh_mac p))) ps)"

definition batch_ips :: "(string \<Rightarrow> string option) \<Rightarrow> normalized list \<Rightarrow> dedup_error + string list" where
  "batch_ips clean_ipv6 ps = bindE (mapE (\<lambda>p. ip_key clean_ipv6 (nh_ip p)) ps) (\<lambda>ks. Inr (fromkeys ks))"

definition batch_api_ids :: "normalized list \<Rightarrow> string list" where
  "batch_api_ids ps = fromkeys (map nh_api_id ps)"

text \<open>The stored variants of a MAC as a list, for the \<open>mac_address\<close> query.\<close>

definition mac_variant_list :: "string \<Rightarrow> string list" where
  "mac_variant_list s =
     (case canonicalize_mac_address (Some s) of None \<Rightarrow> []
      | Some canonical \<Rightarrow>
          (let hyphenated = map (\<lambda>c. if c = CHR '':'' then CHR ''-'' else c) canonical;
               compact = remove_char CHR '':'' canonical
           in [canonical, upper canonical, hyphenated, upper hyphenated, compact, upper compact]))"

definition empty_index :: identity_index where
  "empty_index = \<lparr>ix_serial = Map.empty, ix_mac = Map.empty, ix_ip = Map.empty,
     ix_api_id = Map.empty, ix_objects = Map.empty\<rparr>"

definition ix_build ::
  "nat option \<Rightarrow> (string \<Rightarrow> string option) \<Rightarrow> normalized list \<Rightarrow> nat \<Rightarrow> chassis list \<Rightarrow> dedup_error + identity_index"
where
  "ix_build max_params clean_ipv6 ps mfr rows =
     bindE (batch_ips clean_ipv6 ps) (\<lambda>ips.
     let serials = batch_serials ps; macs = batch_macs ps; api_ids = batch_api_ids ps;
         fetched = fetch_by_pk (identity_querysets max_params serials macs
                     (map (prepared_ip clean_ipv6) ips) api_ids mfr mac_variant_list rows)
     in foldE (\<lambda>(_, c). index_chassis clean_ipv6 serials macs ips api_ids mfr c) fetched
          (empty_index\<lparr>ix_objects := map_of fetched\<rparr>))"

definition ix_add :: "(string \<Rightarrow> string option) \<Rightarrow> chassis \<Rightarrow> identity_index \<Rightarrow> dedup_error + identity_index" where
  "ix_add clean_ipv6 c ix0 =
     (let ix = ix0\<lparr>ix_objects := (ix_objects ix0)(ch_pk c \<mapsto> c)\<rparr>;
          ix1 = (if ch_serial c \<noteq> []
                 then ix\<lparr>ix_serial := ix_append (ix_serial ix) (ch_serial c) (ch_pk c)\<rparr> else ix);
          ix2 = (case canonicalize_mac_address (ch_mac c) of
                   None \<Rightarrow> ix1
                 | Some m \<Rightarrow> (if m \<noteq> []
                     then ix1\<lparr>ix_mac := ix_append (ix_mac ix1) m (ch_pk c)\<rparr> else ix1))
      in bindE (ip_key clean_ipv6 (ch_ip c)) (\<lambda>ip.
         let ix3 = ix2\<lparr>ix_ip := ix_append (ix_ip ix2) ip (ch_pk c)\<rparr>
         in Inr (ix3\<lparr>ix_api_id := ix_append (ix_api_id ix3) (ch_manufacturer c, ch_api_id c) (ch_pk c)\<rparr>)))"

definition ix_move_ip ::
  "(string \<Rightarrow> string option) \<Rightarrow> chassis \<Rightarrow> string \<Rightarrow> identity_index \<Rightarrow> dedup_error + identity_index"
where
  "ix_move_ip clean_ipv6 c old_ip ix =
     bindE (ip_key clean_ipv6 old_ip) (\<lambda>old_key.
     let old_matches = (case ix_ip ix old_key of None \<Rightarrow> [] | Some xs \<Rightarrow> xs);
         kept = filter (\<lambda>pk. pk \<noteq> ch_pk c) old_matches;
         m1 = (if kept = [] then (ix_ip ix)(old_key := None) else (ix_ip ix)(old_key \<mapsto> kept))
     in bindE (ip_key clean_ipv6 (ch_ip c)) (\<lambda>new_key.
        Inr (ix\<lparr>ix_ip := ix_append m1 new_key (ch_pk c)\<rparr>)))"

text \<open>Saving a chassis mutates the shared object, so every entry that refers to it sees the new
  vals.\<close>

definition ix_refresh :: "chassis \<Rightarrow> identity_index \<Rightarrow> identity_index" where
  "ix_refresh c ix = ix\<lparr>ix_objects := (ix_objects ix)(ch_pk c \<mapsto> c)\<rparr>"

section \<open>Chunks\<close>

lemma concat_chunks: "0 < n \<Longrightarrow> concat (chunks n xs) = xs"
  by (induction n xs rule: chunks.induct) (subst chunks.simps, auto)

lemma chunks_bounded: "ys \<in> set (chunks n xs) \<Longrightarrow> length ys \<le> n \<and> ys \<noteq> []"
proof (induction n xs rule: chunks.induct)
  case (1 n xs)
  then show ?case
    by (subst (asm) (2) chunks.simps) (auto split: if_splits)
qed

lemma chunk_size_pos [simp]: "0 < chunk_size max_params scoped"
  by (auto simp: chunk_size_def max_identity_query_values_def Let_def split: option.splits)

lemma set_chunked_querysets:
  "set (concat (chunked_querysets mp fld vals mfr rows)) =
     {r \<in> set rows. (\<exists>v \<in> set vals. fld r = Some v) \<and>
        (case mfr of None \<Rightarrow> True | Some m \<Rightarrow> ch_manufacturer r = m)}"
proof -
  let ?ok = "\<lambda>r. case mfr of None \<Rightarrow> True | Some m \<Rightarrow> ch_manufacturer r = m"
  let ?C = "chunks (chunk_size mp (mfr \<noteq> None)) vals"
  have sets: "set vals = (\<Union>c \<in> set ?C. set c)"
    using concat_chunks[OF chunk_size_pos[of mp "mfr \<noteq> None"], of vals] by (metis set_concat)
  have "set (concat (chunked_querysets mp fld vals mfr rows)) =
      {r \<in> set rows. (\<exists>c \<in> set ?C. \<exists>v \<in> set c. fld r = Some v) \<and> ?ok r}"
    by (auto simp: chunked_querysets_def)
  also have "\<dots> = {r \<in> set rows. (\<exists>v \<in> set vals. fld r = Some v) \<and> ?ok r}"
    unfolding sets by blast
  finally show ?thesis .
qed

lemma map_of_snoc: "map_of (d @ [(k, v)]) = (\<lambda>k'. case map_of d k' of None \<Rightarrow> (if k' = k then Some v else None) | Some w \<Rightarrow> Some w)"
  by (induction d) (auto simp: fun_eq_iff)

lemma fetch_by_pk_inv:
  assumes "set rs \<subseteq> set rows" "distinct (map ch_pk rows)"
  shows "snd ` set (fold (\<lambda>r. dict_setdefault (ch_pk r) r) rs []) = set rs
    \<and> distinct (map fst (fold (\<lambda>r. dict_setdefault (ch_pk r) r) rs []))
    \<and> (\<forall>(k, r) \<in> set (fold (\<lambda>r. dict_setdefault (ch_pk r) r) rs []). k = ch_pk r)"
  using assms(1)
proof (induction rs rule: rev_induct)
  case Nil
  then show ?case by simp
next
  case (snoc r rs)
  let ?d = "fold (\<lambda>r. dict_setdefault (ch_pk r) r) rs []"
  from snoc have IH: "snd ` set ?d = set rs" "distinct (map fst ?d)"
    "\<forall>(k, r) \<in> set ?d. k = ch_pk r" and sub: "set rs \<subseteq> set rows" "r \<in> set rows" by auto
  show ?case
  proof (cases "map_of ?d (ch_pk r)")
    case None
    then have "ch_pk r \<notin> fst ` set ?d" by (simp add: map_of_eq_None_iff)
    from None have eq: "dict_setdefault (ch_pk r) r ?d = ?d @ [(ch_pk r, r)]"
      by (simp add: dict_setdefault_def)
    from IH \<open>ch_pk r \<notin> fst ` set ?d\<close> show ?thesis by (simp add: eq)
  next
    case (Some r')
    then have "(ch_pk r, r') \<in> set ?d" by (rule map_of_SomeD)
    with IH have "r' \<in> set rs" "ch_pk r' = ch_pk r" by force+
    with sub assms(2) have "r' = r" by (metis (no_types, lifting) distinct_map inj_onD subsetD)
    from Some have eq: "dict_setdefault (ch_pk r) r ?d = ?d"
      by (simp add: dict_setdefault_def)
    from IH \<open>r' \<in> set rs\<close> \<open>r' = r\<close> show ?thesis by (auto simp: eq)
  qed
qed


section \<open>The index as a view of the table\<close>

definition ix_entries :: "('k \<rightharpoonup> nat list) \<Rightarrow> 'k \<Rightarrow> nat list" where
  "ix_entries m k = (case m k of None \<Rightarrow> [] | Some xs \<Rightarrow> xs)"

definition field_view ::
  "identity_index \<Rightarrow> nat list \<Rightarrow> (chassis \<Rightarrow> bool) \<Rightarrow> chassis list \<Rightarrow> bool"
where
  "field_view ix refs P rows \<longleftrightarrow>
     distinct refs \<and> set refs = ch_pk ` {r \<in> set rows. P r} \<and>
     (\<forall>r \<in> set rows. P r \<longrightarrow> ix_objects ix (ch_pk r) = Some r)"

text \<open>The index agrees with the table on the keys of the batch.\<close>

definition index_view ::
  "(string \<Rightarrow> string option) \<Rightarrow> string list \<Rightarrow> string list \<Rightarrow> string list \<Rightarrow> string list \<Rightarrow> nat
     \<Rightarrow> identity_index \<Rightarrow> chassis list \<Rightarrow> bool"
where
  "index_view clean_ipv6 serials macs ips api_ids mfr ix rows \<longleftrightarrow>
     (\<forall>s \<in> set serials. field_view ix (ix_entries (ix_serial ix) s) (\<lambda>r. ch_serial r = s) rows) \<and>
     (\<forall>m \<in> set macs. field_view ix (ix_entries (ix_mac ix) m)
        (\<lambda>r. canonicalize_mac_address (ch_mac r) = Some m) rows) \<and>
     (\<forall>i \<in> set ips. field_view ix (ix_entries (ix_ip ix) i)
        (\<lambda>r. prepared_ip clean_ipv6 (ch_ip r) = i) rows) \<and>
     (\<forall>a \<in> set api_ids. field_view ix (ix_entries (ix_api_id ix) (mfr, a))
        (\<lambda>r. ch_manufacturer r = mfr \<and> ch_api_id r = a) rows)"

text \<open>Stored addresses are in the form the database writes: IP addresses cleaned, and a
  recognisable MAC in one of the six stored spellings.\<close>

definition stored_canonical :: "(string \<Rightarrow> string option) \<Rightarrow> chassis \<Rightarrow> bool" where
  "stored_canonical clean_ipv6 r \<longleftrightarrow>
     prepared_ip clean_ipv6 (ch_ip r) = ch_ip r \<and>
     (case ch_mac r of None \<Rightarrow> True
      | Some m \<Rightarrow> (case canonicalize_mac_address (Some m) of None \<Rightarrow> True
          | Some c \<Rightarrow> m \<in> mac_address_query_variants c))"

lemma ix_entries_append:
  "ix_entries (ix_append m k pk) k' =
     (if k' = k \<and> pk \<notin> set (ix_entries m k) then ix_entries m k @ [pk] else ix_entries m k')"
  by (auto simp: ix_entries_def ix_append_def Let_def split: option.splits)

lemma field_view_unique:
  assumes view: "field_view ix (ix_entries m k) P rows" and pks: "distinct (map ch_pk rows)"
  shows "ix_unique ix m k = qs_get_or_none P rows"
proof -
  let ?refs = "ix_entries m k"
  let ?objs = "List.map_filter (ix_objects ix) ?refs"
  from view have refs: "distinct ?refs" "set ?refs = ch_pk ` {r \<in> set rows. P r}"
    and obj: "\<And>r. r \<in> set rows \<Longrightarrow> P r \<Longrightarrow> ix_objects ix (ch_pk r) = Some r"
    by (auto simp: field_view_def)
  have objs: "?objs = map (\<lambda>pk. the (ix_objects ix pk)) ?refs"
    and ex: "\<forall>pk \<in> set ?refs. \<exists>r. r \<in> set rows \<and> P r \<and> ch_pk r = pk"
  proof -
    show "\<forall>pk \<in> set ?refs. \<exists>r. r \<in> set rows \<and> P r \<and> ch_pk r = pk" using refs(2) by auto
    then have "\<forall>pk \<in> set ?refs. ix_objects ix pk \<noteq> None" using obj by auto
    then show "?objs = map (\<lambda>pk. the (ix_objects ix pk)) ?refs"
      by (simp add: List.map_filter_def filter_id_conv)
  qed
  have "set ?objs = set (filter P rows)"
    unfolding objs set_map refs(2) using obj by (force simp: image_iff)
  moreover have "distinct ?objs"
    unfolding objs distinct_map using refs(1) ex obj
    by (auto intro!: inj_onI) (metis option.sel)
  moreover have "distinct (filter P rows)" using pks by (simp add: distinct_map)
  ultimately have "at_most_one ?objs = at_most_one (filter P rows)" by (intro at_most_one_cong)
  then show ?thesis by (simp add: ix_unique_def qs_get_or_none_filter ix_entries_def)
qed

text \<open>One step of the build loop, per dictionary.\<close>

lemma index_row_objects [simp]:
  "ix_objects (index_row ss ms is as mfr c ip ix) = ix_objects ix"
  by (simp add: index_row_def Let_def split: option.splits)

lemma index_row_entries:
  "s \<in> set ss \<Longrightarrow> ix_entries (ix_serial (index_row ss ms is as mfr c ip ix)) s =
     (if ch_serial c = s \<and> ch_pk c \<notin> set (ix_entries (ix_serial ix) s)
      then ix_entries (ix_serial ix) s @ [ch_pk c] else ix_entries (ix_serial ix) s)"
  "m \<in> set ms \<Longrightarrow> m \<noteq> [] \<Longrightarrow> ix_entries (ix_mac (index_row ss ms is as mfr c ip ix)) m =
     (if canonicalize_mac_address (ch_mac c) = Some m \<and> ch_pk c \<notin> set (ix_entries (ix_mac ix) m)
      then ix_entries (ix_mac ix) m @ [ch_pk c] else ix_entries (ix_mac ix) m)"
  "i \<in> set is \<Longrightarrow> ix_entries (ix_ip (index_row ss ms is as mfr c ip ix)) i =
     (if ip = i \<and> ch_pk c \<notin> set (ix_entries (ix_ip ix) i)
      then ix_entries (ix_ip ix) i @ [ch_pk c] else ix_entries (ix_ip ix) i)"
  "a \<in> set as \<Longrightarrow> ix_entries (ix_api_id (index_row ss ms is as mfr c ip ix)) (mfr, a) =
     (if (ch_manufacturer c = mfr \<and> ch_api_id c = a) \<and> ch_pk c \<notin> set (ix_entries (ix_api_id ix) (mfr, a))
      then ix_entries (ix_api_id ix) (mfr, a) @ [ch_pk c] else ix_entries (ix_api_id ix) (mfr, a))"
  by (auto simp: index_row_def ix_entries_append Let_def split: option.splits)

text \<open>Folding such a step collects, for one key, the references of the matching rows.\<close>

lemma fold_entries:
  assumes "\<And>c ix. E (f c ix) = (if P c \<and> ch_pk c \<notin> set (E ix) then E ix @ [ch_pk c] else E ix)"
    and "distinct (E ix)"
  shows "distinct (E (fold f cs ix)) \<and>
    set (E (fold f cs ix)) = set (E ix) \<union> ch_pk ` {c \<in> set cs. P c}"
  using assms(2)
proof (induction cs arbitrary: ix)
  case Nil
  then show ?case by simp
next
  case (Cons c cs)
  have "distinct (E (f c ix))" using Cons.prems by (simp add: assms(1))
  from Cons.IH[OF this] show ?case by (auto simp: assms(1))
qed


lemma fold_snd: "fold (\<lambda>(_, c). f c) xs = fold f (map snd xs)"
  by (induction xs) (auto simp: fun_eq_iff)

lemma fold_index_objects [simp]:
  "ix_objects (fold (\<lambda>c. index_row ss ms is as mfr c (f c)) cs ix) = ix_objects ix"
  by (induction cs arbitrary: ix) auto

lemma set_mac_variant_list: "set (mac_variant_list m) = mac_address_query_variants m"
  by (auto simp: mac_variant_list_def mac_address_query_variants_def Let_def split: option.splits)

lemma batch_macs_canonical: "m \<in> set (batch_macs ps) \<Longrightarrow> canonical_mac m"
  by (auto simp: batch_macs_def List.map_filter_def intro: canonicalize_canonical)

text \<open>The rows the bulk queries fetch include every row that shares a key with the batch.\<close>

lemma set_identity_querysets:
  "set (concat (identity_querysets mp ss ms is as mfr mac_variant_list rows)) =
     {r \<in> set rows. ch_serial r \<in> set ss
        \<or> (\<exists>m \<in> set ms. \<exists>v \<in> mac_address_query_variants m. ch_mac r = Some v)
        \<or> ch_ip r \<in> set is \<or> (ch_manufacturer r = mfr \<and> ch_api_id r \<in> set as)}"
  unfolding identity_querysets_def concat_append set_append set_chunked_querysets
  by (auto simp: set_mac_variant_list)

text \<open>The keys of the batch, and what a build that succeeds has done.\<close>

definition batch_keys :: "(string \<Rightarrow> string option) \<Rightarrow> normalized list \<Rightarrow> string list" where
  "batch_keys clean_ipv6 ps = fromkeys (map (\<lambda>p. prepared_ip clean_ipv6 (nh_ip p)) ps)"

lemma mapE_ip_key:
  "mapE (\<lambda>p. ip_key cl (f p)) ps =
     (if \<exists>p \<in> set ps. refused_ip cl (f p) then Inl InvalidIPv6 else Inr (map (\<lambda>p. prepared_ip cl (f p)) ps))"
  by (induction ps) (auto simp: ip_key_prepared)

lemma batch_ips_keys:
  "batch_ips cl ps = (if \<exists>p \<in> set ps. refused_ip cl (nh_ip p) then Inl InvalidIPv6 else Inr (batch_keys cl ps))"
  by (simp add: batch_ips_def mapE_ip_key batch_keys_def)

lemma foldE_index_chassis:
  "foldE (\<lambda>(_, c). index_chassis cl ss ms is as mfr c) xs ix =
     (if \<exists>c \<in> set (map snd xs). refused_ip cl (ch_ip c) then Inl InvalidIPv6
      else Inr (fold (\<lambda>c. index_row ss ms is as mfr c (prepared_ip cl (ch_ip c))) (map snd xs) ix))"
proof (induction xs arbitrary: ix)
  case (Cons x xs)
  then show ?case by (cases x) (simp add: index_chassis_def ip_key_prepared)
qed simp

lemma ix_build_cases:
  "ix_build mp cl ps mfr rows =
     (let F = fetch_by_pk (identity_querysets mp (batch_serials ps) (batch_macs ps)
              (map (prepared_ip cl) (batch_keys cl ps)) (batch_api_ids ps) mfr mac_variant_list rows)
      in if (\<exists>p \<in> set ps. refused_ip cl (nh_ip p)) \<or> (\<exists>c \<in> set (map snd F). refused_ip cl (ch_ip c))
         then Inl InvalidIPv6
         else Inr (fold (\<lambda>c. index_row (batch_serials ps) (batch_macs ps) (batch_keys cl ps) (batch_api_ids ps) mfr c
                      (prepared_ip cl (ch_ip c))) (map snd F) (empty_index\<lparr>ix_objects := map_of F\<rparr>)))"
  unfolding ix_build_def batch_ips_keys Let_def by (simp add: foldE_index_chassis)

lemma fetched_rows:
  assumes "distinct (map ch_pk rows)"
  shows "snd ` set (fetch_by_pk (identity_querysets mp ss ms is as mfr mac_variant_list rows)) \<subseteq> set rows"
proof -
  let ?qs = "identity_querysets mp ss ms is as mfr mac_variant_list rows"
  have "set (concat ?qs) \<subseteq> set rows" unfolding set_identity_querysets by blast
  with fetch_by_pk_inv[OF this assms] show ?thesis by (simp add: fetch_by_pk_def)
qed

lemma ix_build_refuses:
  assumes "ix_build mp cl ps mfr rows = Inl e" "distinct (map ch_pk rows)"
  shows "e = InvalidIPv6 \<and> ((\<exists>q \<in> set ps. refused_ip cl (nh_ip q)) \<or> (\<exists>r \<in> set rows. refused_ip cl (ch_ip r)))"
  using assms(1) fetched_rows[OF assms(2), of mp "batch_serials ps" "batch_macs ps"
      "map (prepared_ip cl) (batch_keys cl ps)" "batch_api_ids ps" mfr]
  unfolding ix_build_cases Let_def by (auto split: if_splits)

lemma ix_build_fold:
  assumes "ix_build mp cl ps mfr rows = Inr ix"
  shows "ix = (let F = fetch_by_pk (identity_querysets mp (batch_serials ps) (batch_macs ps)
              (map (prepared_ip cl) (batch_keys cl ps)) (batch_api_ids ps) mfr mac_variant_list rows)
      in fold (\<lambda>c. index_row (batch_serials ps) (batch_macs ps) (batch_keys cl ps) (batch_api_ids ps) mfr c
           (prepared_ip cl (ch_ip c))) (map snd F) (empty_index\<lparr>ix_objects := map_of F\<rparr>))"
  using assms unfolding ix_build_cases Let_def by (auto split: if_splits)

theorem ix_build_view:
  assumes pks: "distinct (map ch_pk rows)"
    and stored: "\<forall>r \<in> set rows. stored_canonical clean_ipv6 r"
    and ix: "ix_build mp clean_ipv6 ps mfr rows = Inr ix"
  shows "index_view clean_ipv6 (batch_serials ps) (batch_macs ps) (batch_keys clean_ipv6 ps)
     (batch_api_ids ps) mfr ix rows"
proof -
  let ?ss = "batch_serials ps" and ?ms = "batch_macs ps"
  let ?is = "batch_keys clean_ipv6 ps" and ?as = "batch_api_ids ps"
  let ?qs = "identity_querysets mp ?ss ?ms (map (prepared_ip clean_ipv6) ?is) ?as mfr mac_variant_list rows"
  let ?F = "fetch_by_pk ?qs"
  let ?cs = "map snd ?F"
  let ?ix0 = "empty_index\<lparr>ix_objects := map_of ?F\<rparr>"
  let ?step = "\<lambda>c. index_row ?ss ?ms ?is ?as mfr c (prepared_ip clean_ipv6 (ch_ip c))"
  have built: "ix = fold ?step ?cs ?ix0"
    using ix_build_fold[OF ix] by (simp only: Let_def)
  have sub: "set (concat ?qs) \<subseteq> set rows" unfolding set_identity_querysets by blast
  have F: "snd ` set ?F = set (concat ?qs)" "distinct (map fst ?F)" "\<forall>(k, r) \<in> set ?F. k = ch_pk r"
    using fetch_by_pk_inv[OF sub pks] by (simp_all add: fetch_by_pk_def)
  have objs: "map_of ?F (ch_pk r) = Some r" if "r \<in> set (concat ?qs)" for r
  proof -
    from that F(1) obtain k where "(k, r) \<in> set ?F" by (metis imageE prod.collapse)
    with F(2,3) show ?thesis by auto
  qed
  have cs: "set ?cs = set (concat ?qs)" using F(1) by simp
  have view: "field_view (fold ?step ?cs ?ix0) (E (fold ?step ?cs ?ix0)) P rows"
    if step: "\<And>c ix. E (?step c ix) = (if P c \<and> ch_pk c \<notin> set (E ix) then E ix @ [ch_pk c] else E ix)"
      and init: "E ?ix0 = []"
      and cover: "\<And>r. r \<in> set rows \<Longrightarrow> P r \<Longrightarrow> r \<in> set (concat ?qs)" for E P
  proof -
    have d: "distinct (E (fold ?step ?cs ?ix0))"
      and s: "set (E (fold ?step ?cs ?ix0)) = ch_pk ` {c \<in> set ?cs. P c}"
      using fold_entries[of E ?step P ?ix0 ?cs, OF step] init by auto
    have "{c \<in> set ?cs. P c} = {r \<in> set rows. P r}"
      unfolding cs using sub cover by blast
    with d s show ?thesis
      using cover objs by (simp add: field_view_def)
  qed
  have none: "ix_entries (ix_serial ?ix0) k1 = []" "ix_entries (ix_mac ?ix0) k2 = []"
    "ix_entries (ix_ip ?ix0) k3 = []" "ix_entries (ix_api_id ?ix0) k4 = []" for k1 k2 k3 k4
    by (simp_all add: ix_entries_def empty_index_def)
  have macne: "m \<noteq> []" if "m \<in> set ?ms" for m
    using canonical_nonempty[OF batch_macs_canonical[OF that]] .
  have cover_mac: "r \<in> set (concat ?qs)"
    if "r \<in> set rows" "canonicalize_mac_address (ch_mac r) = Some m" "m \<in> set ?ms" for r m
  proof -
    from that(2) obtain v where v: "ch_mac r = Some v"
      by (auto simp: canonicalize_mac_address_def split: option.splits)
    with that stored have "v \<in> mac_address_query_variants m"
      by (auto simp: stored_canonical_def)
    with v that show ?thesis unfolding set_identity_querysets by blast
  qed
  have cover_ip: "r \<in> set (concat ?qs)"
    if "r \<in> set rows" "prepared_ip clean_ipv6 (ch_ip r) \<in> set ?is" for r
  proof -
    from that stored have "prepared_ip clean_ipv6 (ch_ip r) = ch_ip r" by (simp add: stored_canonical_def)
    with that(2) have "ch_ip r \<in> prepared_ip clean_ipv6 ` set ?is" by (metis imageI)
    with that(1) show ?thesis unfolding set_identity_querysets by simp
  qed
  have cover_serial: "r \<in> set (concat ?qs)"
    if "r \<in> set rows" "ch_serial r \<in> set ?ss" for r
    using that unfolding set_identity_querysets by blast
  have cover_api: "r \<in> set (concat ?qs)"
    if "r \<in> set rows" "ch_manufacturer r = mfr \<and> ch_api_id r = a" "a \<in> set ?as" for r a
    using that unfolding set_identity_querysets by blast
  show ?thesis
    unfolding index_view_def built
  proof (intro conjI ballI)
    fix s assume "s \<in> set ?ss"
    then show "field_view (fold ?step ?cs ?ix0) (ix_entries (ix_serial (fold ?step ?cs ?ix0)) s)
        (\<lambda>r. ch_serial r = s) rows"
      by (intro view[of "\<lambda>ix. ix_entries (ix_serial ix) s"])
         (simp_all only: index_row_entries none cover_serial)
  next
    fix m assume "m \<in> set ?ms"
    then show "field_view (fold ?step ?cs ?ix0) (ix_entries (ix_mac (fold ?step ?cs ?ix0)) m)
        (\<lambda>r. canonicalize_mac_address (ch_mac r) = Some m) rows"
      by (intro view[of "\<lambda>ix. ix_entries (ix_mac ix) m"])
         (simp_all only: index_row_entries macne none cover_mac not_False_eq_True)
  next
    fix i assume "i \<in> set ?is"
    then show "field_view (fold ?step ?cs ?ix0) (ix_entries (ix_ip (fold ?step ?cs ?ix0)) i)
        (\<lambda>r. prepared_ip clean_ipv6 (ch_ip r) = i) rows"
      by (intro view[of "\<lambda>ix. ix_entries (ix_ip ix) i"])
         (simp_all only: index_row_entries none cover_ip)
  next
    fix a assume "a \<in> set ?as"
    then show "field_view (fold ?step ?cs ?ix0) (ix_entries (ix_api_id (fold ?step ?cs ?ix0)) (mfr, a))
        (\<lambda>r. ch_manufacturer r = mfr \<and> ch_api_id r = a) rows"
      by (intro view[of "\<lambda>ix. ix_entries (ix_api_id ix) (mfr, a)"])
         (simp_all only: index_row_entries none cover_api)
  qed
qed

section \<open>Lookups\<close>

text \<open>The queries the lookups stand for when no index is supplied.\<close>

definition query_serial :: "chassis list \<Rightarrow> string \<Rightarrow> orm_error + chassis option" where
  "query_serial rows s = qs_get_or_none (\<lambda>r. ch_serial r = s) rows"

definition query_mac :: "chassis list \<Rightarrow> string \<Rightarrow> orm_error + chassis option" where
  "query_mac rows m =
     qs_get_or_none (\<lambda>r. \<exists>v \<in> set (mac_variant_list m). ch_mac r = Some v) rows"

definition query_ip ::
  "(string \<Rightarrow> string option) \<Rightarrow> chassis list \<Rightarrow> string \<Rightarrow> orm_error + chassis option"
where
  "query_ip clean_ipv6 rows i = qs_get_or_none (\<lambda>r. ch_ip r = prepared_ip clean_ipv6 i) rows"

definition query_api_id ::
  "chassis list \<Rightarrow> nat \<Rightarrow> string \<Rightarrow> orm_error + chassis option"
where
  "query_api_id rows mfr a =
     qs_get_or_none (\<lambda>r. ch_manufacturer r = mfr \<and> ch_api_id r = a) rows"

text \<open>What a supplier of identity lookups promises: on the keys it knows, each lookup classifies
  the rows of the table that carry the key.\<close>

locale identity_source =
  fixes by_serial by_mac by_ip by_api_id :: "string \<Rightarrow> orm_error + chassis option"
    and known_serial known_mac known_ip known_api_id :: "string \<Rightarrow> bool"
    and clean_ipv6 :: "string \<Rightarrow> string option" and mfr :: nat and rows :: "chassis list"
  assumes serial_law: "known_serial s \<Longrightarrow> by_serial s = qs_get_or_none (\<lambda>r. ch_serial r = s) rows"
    and mac_law: "known_mac m \<Longrightarrow>
      by_mac m = qs_get_or_none (\<lambda>r. canonicalize_mac_address (ch_mac r) = Some m) rows"
    and ip_law: "known_ip i \<Longrightarrow>
      by_ip i = qs_get_or_none (\<lambda>r. prepared_ip clean_ipv6 (ch_ip r) = prepared_ip clean_ipv6 i) rows"
    and api_id_law: "known_api_id a \<Longrightarrow>
      by_api_id a = qs_get_or_none (\<lambda>r. ch_manufacturer r = mfr \<and> ch_api_id r = a) rows"
begin

lemma serial_owner: "known_serial s \<Longrightarrow> by_serial s = Inr (Some c) \<Longrightarrow> c \<in> set rows \<and> ch_serial c = s"
  by (auto simp: serial_law qs_get_or_none_filter dest: at_most_one_mem)

lemma mac_owner: "known_mac m \<Longrightarrow> by_mac m = Inr (Some c) \<Longrightarrow>
    c \<in> set rows \<and> canonicalize_mac_address (ch_mac c) = Some m"
  by (auto simp: mac_law qs_get_or_none_filter dest: at_most_one_mem)

lemma ip_owner: "known_ip i \<Longrightarrow> by_ip i = Inr (Some c) \<Longrightarrow>
    c \<in> set rows \<and> prepared_ip clean_ipv6 (ch_ip c) = prepared_ip clean_ipv6 i"
  by (auto simp: ip_law qs_get_or_none_filter dest: at_most_one_mem)

lemma api_id_owner: "known_api_id a \<Longrightarrow> by_api_id a = Inr (Some c) \<Longrightarrow>
    c \<in> set rows \<and> ch_manufacturer c = mfr \<and> ch_api_id c = a"
  by (auto simp: api_id_law qs_get_or_none_filter dest: at_most_one_mem)

text \<open>A reported match is the only row that carries the key.\<close>

lemma sole_owner:
  "known_serial s \<Longrightarrow> by_serial s = Inr (Some c) \<Longrightarrow> r \<in> set rows \<Longrightarrow> ch_serial r = s \<Longrightarrow> r = c"
  "known_mac m \<Longrightarrow> by_mac m = Inr (Some c) \<Longrightarrow> r \<in> set rows \<Longrightarrow>
     canonicalize_mac_address (ch_mac r) = Some m \<Longrightarrow> r = c"
  by (auto simp: serial_law mac_law qs_get_or_none_filter at_most_one_Some
      dest: filter_eq_ConsD intro: filter_singleton)

text \<open>No match is reported exactly when no row carries the key.\<close>

lemma no_owner:
  "known_serial s \<Longrightarrow> by_serial s = Inr None \<longleftrightarrow> (\<forall>r \<in> set rows. ch_serial r \<noteq> s)"
  "known_mac m \<Longrightarrow> by_mac m = Inr None \<longleftrightarrow>
     (\<forall>r \<in> set rows. canonicalize_mac_address (ch_mac r) \<noteq> Some m)"
  "known_ip i \<Longrightarrow> by_ip i = Inr None \<longleftrightarrow>
     (\<forall>r \<in> set rows. prepared_ip clean_ipv6 (ch_ip r) \<noteq> prepared_ip clean_ipv6 i)"
  "known_api_id a \<Longrightarrow> by_api_id a = Inr None \<longleftrightarrow>
     (\<forall>r \<in> set rows. ch_manufacturer r = mfr \<longrightarrow> ch_api_id r \<noteq> a)"
  by (auto simp: serial_law mac_law ip_law api_id_law qs_get_or_none_filter at_most_one_None
      filter_empty_conv)

end

lemma stored_mac_variant:
  assumes "stored_canonical cl r" "canonical_mac m"
  shows "(\<exists>v \<in> set (mac_variant_list m). ch_mac r = Some v)
    \<longleftrightarrow> canonicalize_mac_address (ch_mac r) = Some m"
  using assms
  by (auto simp: stored_canonical_def set_mac_variant_list canonicalize_variant
      canonicalize_mac_address_def[of None] split: option.splits)

lemma stored_ip: "stored_canonical cl r \<Longrightarrow> prepared_ip cl (ch_ip r) = ch_ip r"
  by (simp add: stored_canonical_def)

lemma qs_get_or_none_cong:
  "(\<And>r. r \<in> set rows \<Longrightarrow> P r \<longleftrightarrow> Q r) \<Longrightarrow> qs_get_or_none P rows = qs_get_or_none Q rows"
  unfolding qs_get_or_none_filter by (metis filter_cong)

lemma query_mac_view:
  assumes "\<forall>r \<in> set rows. stored_canonical cl r" "canonical_mac m"
  shows "query_mac rows m = qs_get_or_none (\<lambda>r. canonicalize_mac_address (ch_mac r) = Some m) rows"
  unfolding query_mac_def
  by (rule qs_get_or_none_cong) (rule stored_mac_variant[OF bspec[OF assms(1)] assms(2)])

lemma query_ip_view:
  assumes "\<forall>r \<in> set rows. stored_canonical cl r"
  shows "query_ip cl rows i = qs_get_or_none (\<lambda>r. prepared_ip cl (ch_ip r) = prepared_ip cl i) rows"
  unfolding query_ip_def
  by (rule qs_get_or_none_cong) (use assms in \<open>simp only: stored_ip\<close>)

interpretation db: identity_source "query_serial rows" "query_mac rows" "query_ip cl rows"
    "query_api_id rows mfr" "\<lambda>_. True" "\<lambda>m. canonical_mac m \<and> (\<forall>r \<in> set rows. stored_canonical cl r)"
    "\<lambda>_. \<forall>r \<in> set rows. stored_canonical cl r" "\<lambda>_. True" cl mfr rows
  for cl mfr rows
  by unfold_locales
     (simp_all add: query_serial_def query_api_id_def query_mac_view[of rows cl] query_ip_view)

lemma ix_lookup_ip_accepted:
  "\<not> refused_ip cl i \<Longrightarrow> ix_lookup_ip cl ix i = orm (ix_unique ix (ix_ip ix) (prepared_ip cl i))"
  by (simp add: ix_lookup_ip_def ip_key_prepared)

interpretation ix: identity_source "ix_lookup_serial ix" "ix_lookup_mac ix"
    "\<lambda>i. ix_unique ix (ix_ip ix) (prepared_ip cl i)"
    "ix_lookup_api_id ix mfr"
    "\<lambda>s. index_view cl ss ms is as mfr ix rows \<and> distinct (map ch_pk rows) \<and> s \<in> set ss"
    "\<lambda>m. index_view cl ss ms is as mfr ix rows \<and> distinct (map ch_pk rows) \<and> m \<in> set ms \<and> canonical_mac m"
    "\<lambda>i. index_view cl ss ms is as mfr ix rows \<and> distinct (map ch_pk rows) \<and> prepared_ip cl i \<in> set is"
    "\<lambda>a. index_view cl ss ms is as mfr ix rows \<and> distinct (map ch_pk rows) \<and> a \<in> set as" cl mfr rows
  for ix cl ss ms "is" as mfr rows
  by unfold_locales
     (auto simp: ix_lookup_serial_def ix_lookup_mac_def ix_lookup_api_id_def
       canonicalize_of_canonical index_view_def intro!: field_view_unique)

section \<open>Keeping the index current within a batch\<close>

lemma field_view_add:
  assumes view: "field_view ix refs P rows" and fresh: "ch_pk c \<notin> ch_pk ` set rows"
    and objs: "ix_objects ix' = (ix_objects ix)(ch_pk c \<mapsto> c)"
    and refs': "refs' = (if P c \<and> ch_pk c \<notin> set refs then refs @ [ch_pk c] else refs)"
  shows "field_view ix' refs' P (rows @ [c])"
proof -
  from view have 1: "distinct refs" "set refs = ch_pk ` {r \<in> set rows. P r}"
    "\<And>r. r \<in> set rows \<Longrightarrow> P r \<Longrightarrow> ix_objects ix (ch_pk r) = Some r"
    by (auto simp: field_view_def)
  have "ch_pk c \<notin> set refs" using 1(2) fresh by auto
  moreover have "{r \<in> set (rows @ [c]). P r} = {r \<in> set rows. P r} \<union> (if P c then {c} else {})" by auto
  moreover have "ix_objects ix' (ch_pk r) = Some r" if "r \<in> set (rows @ [c])" "P r" for r
    using that fresh 1(3)[of r] by (cases "r = c") (auto simp: objs image_iff)
  ultimately show ?thesis
    unfolding field_view_def refs' using 1(1,2) by auto
qed

lemma ix_add_objects: "ix_add cl c ix = Inr ix' \<Longrightarrow> ix_objects ix' = (ix_objects ix)(ch_pk c \<mapsto> c)"
  by (auto simp: ix_add_def Let_def result_simps split: option.splits)

lemma ix_add_entries:
  assumes "ix_add cl c ix = Inr ix'"
  shows "s \<noteq> [] \<Longrightarrow> ix_entries (ix_serial ix') s =
     (if ch_serial c = s \<and> ch_pk c \<notin> set (ix_entries (ix_serial ix) s)
      then ix_entries (ix_serial ix) s @ [ch_pk c] else ix_entries (ix_serial ix) s)"
  "ix_entries (ix_mac ix') m =
     (if canonicalize_mac_address (ch_mac c) = Some m \<and> ch_pk c \<notin> set (ix_entries (ix_mac ix) m)
      then ix_entries (ix_mac ix) m @ [ch_pk c] else ix_entries (ix_mac ix) m)"
  "ix_entries (ix_ip ix') i =
     (if prepared_ip cl (ch_ip c) = i \<and> ch_pk c \<notin> set (ix_entries (ix_ip ix) i)
      then ix_entries (ix_ip ix) i @ [ch_pk c] else ix_entries (ix_ip ix) i)"
  "ix_entries (ix_api_id ix') (mfr, a) =
     (if (ch_manufacturer c = mfr \<and> ch_api_id c = a) \<and> ch_pk c \<notin> set (ix_entries (ix_api_id ix) (mfr, a))
      then ix_entries (ix_api_id ix) (mfr, a) @ [ch_pk c] else ix_entries (ix_api_id ix) (mfr, a))"
  using assms canonicalize_nonempty[of "ch_mac c"]
  by (auto simp: ix_add_def ip_key_prepared ix_entries_append Let_def split: option.splits if_splits)

lemma ix_add_view:
  assumes add: "ix_add cl c ix = Inr ix'"
    and view: "index_view cl ss ms is as mfr ix rows" and fresh: "ch_pk c \<notin> ch_pk ` set rows" and ne: "[] \<notin> set ss"
  shows "index_view cl ss ms is as mfr ix' (rows @ [c])"
  unfolding index_view_def
proof (intro conjI ballI)
  note V = view[unfolded index_view_def]
  fix s assume s: "s \<in> set ss"
  with ne have "s \<noteq> []" by auto
  with V s show "field_view ix' (ix_entries (ix_serial ix') s)
      (\<lambda>r. ch_serial r = s) (rows @ [c])"
    by (intro field_view_add[OF _ fresh ix_add_objects[OF add]]) (auto simp: ix_add_entries[OF add])
next
  note V = view[unfolded index_view_def]
  fix m assume "m \<in> set ms"
  with V show "field_view ix' (ix_entries (ix_mac ix') m)
      (\<lambda>r. canonicalize_mac_address (ch_mac r) = Some m) (rows @ [c])"
    by (intro field_view_add[OF _ fresh ix_add_objects[OF add]]) (auto simp: ix_add_entries[OF add])
next
  note V = view[unfolded index_view_def]
  fix i assume "i \<in> set is"
  with V show "field_view ix' (ix_entries (ix_ip ix') i)
      (\<lambda>r. prepared_ip cl (ch_ip r) = i) (rows @ [c])"
    by (intro field_view_add[OF _ fresh ix_add_objects[OF add]]) (auto simp: ix_add_entries[OF add])
next
  note V = view[unfolded index_view_def]
  fix a assume "a \<in> set as"
  with V show "field_view ix' (ix_entries (ix_api_id ix') (mfr, a))
      (\<lambda>r. ch_manufacturer r = mfr \<and> ch_api_id r = a) (rows @ [c])"
    by (intro field_view_add[OF _ fresh ix_add_objects[OF add]]) (auto simp: ix_add_entries[OF add])
qed

text \<open>A saved row that keeps its identity keys.\<close>

definition same_identity :: "chassis \<Rightarrow> chassis \<Rightarrow> bool" where
  "same_identity c c' \<longleftrightarrow> ch_pk c' = ch_pk c \<and> ch_serial c' = ch_serial c
     \<and> canonicalize_mac_address (ch_mac c') = canonicalize_mac_address (ch_mac c)
     \<and> ch_manufacturer c' = ch_manufacturer c \<and> ch_api_id c' = ch_api_id c"

lemma pk_filter_put_row:
  assumes "distinct (map ch_pk rows)" "c \<in> set rows" "ch_pk c' = ch_pk c"
  shows "ch_pk ` {r \<in> set (put_row ch_pk c' rows). P r} =
    (ch_pk ` {r \<in> set rows. P r} - {ch_pk c}) \<union> (if P c' then {ch_pk c} else {})"
proof -
  have "c = r" if "r \<in> set rows" "ch_pk r = ch_pk c" for r
    using that assms(1,2) by (metis distinct_map inj_onD)
  moreover have "{r \<in> set (put_row ch_pk c' rows). P r} =
      (if P c' then {c'} else {}) \<union> {r \<in> set rows. P r \<and> ch_pk r \<noteq> ch_pk c}"
    using assms(2,3) by (auto simp: put_row_mem image_iff)
  ultimately show ?thesis using assms(3) by auto
qed

lemma field_view_put:
  assumes view: "field_view ix refs P rows" and pks: "distinct (map ch_pk rows)"
    and c: "c \<in> set rows" "ch_pk c' = ch_pk c"
    and objs: "ix_objects ix' = (ix_objects ix)(ch_pk c' \<mapsto> c')"
    and refs': "distinct refs'"
      "set refs' = (set refs - {ch_pk c}) \<union> (if P c' then {ch_pk c} else {})"
  shows "field_view ix' refs' P (put_row ch_pk c' rows)"
proof -
  from view have 1: "set refs = ch_pk ` {r \<in> set rows. P r}"
    "\<And>r. r \<in> set rows \<Longrightarrow> P r \<Longrightarrow> ix_objects ix (ch_pk r) = Some r"
    by (auto simp: field_view_def)
  have "ix_objects ix' (ch_pk r) = Some r" if "r \<in> set (put_row ch_pk c' rows)" "P r" for r
    using that 1(2) by (auto simp: objs put_row_mem)
  with refs' 1(1) show ?thesis
    unfolding field_view_def pk_filter_put_row[OF pks c] by simp
qed

lemma field_view_same:
  assumes view: "field_view ix refs P rows" and pks: "distinct (map ch_pk rows)"
    and c: "c \<in> set rows" "ch_pk c' = ch_pk c" "P c' \<longleftrightarrow> P c"
    and objs: "ix_objects ix' = (ix_objects ix)(ch_pk c' \<mapsto> c')"
  shows "field_view ix' refs P (put_row ch_pk c' rows)"
proof (rule field_view_put[OF view pks c(1,2) objs])
  from view show "distinct refs" by (simp add: field_view_def)
  from view have "set refs = ch_pk ` {r \<in> set rows. P r}" by (simp add: field_view_def)
  moreover have "ch_pk c \<in> ch_pk ` {r \<in> set rows. P r} \<longleftrightarrow> P c"
    using pks c(1) by (auto simp: image_iff distinct_map dest: inj_onD)
  ultimately show "set refs = (set refs - {ch_pk c}) \<union> (if P c' then {ch_pk c} else {})"
    using c(3) by auto
qed

text \<open>Refreshing the object of a row whose address did not change.\<close>

lemma ix_refresh_view:
  assumes "index_view cl ss ms is as mfr ix rows" "distinct (map ch_pk rows)" "c \<in> set rows"
    and same: "same_identity c c'" "prepared_ip cl (ch_ip c') = prepared_ip cl (ch_ip c)"
  shows "index_view cl ss ms is as mfr (ix_refresh c' ix) (put_row ch_pk c' rows)"
proof -
  have objs: "ix_objects (ix_refresh c' ix) = (ix_objects ix)(ch_pk c' \<mapsto> c')"
    by (simp add: ix_refresh_def)
  have maps: "ix_serial (ix_refresh c' ix) = ix_serial ix" "ix_mac (ix_refresh c' ix) = ix_mac ix"
    "ix_ip (ix_refresh c' ix) = ix_ip ix" "ix_api_id (ix_refresh c' ix) = ix_api_id ix"
    by (simp_all add: ix_refresh_def)
  show ?thesis
    using assms(1) same unfolding index_view_def maps same_identity_def
    by (auto intro!: field_view_same[OF _ assms(2,3) _ _ objs])
qed

lemma ix_move_ip_entries:
  assumes mv: "ix_move_ip cl c' old ix = Inr ix'" and d: "distinct (ix_entries (ix_ip ix) i)"
  shows "distinct (ix_entries (ix_ip ix') i) \<and>
    set (ix_entries (ix_ip ix') i) =
      (set (ix_entries (ix_ip ix) i) - (if i = prepared_ip cl old then {ch_pk c'} else {}))
      \<union> (if prepared_ip cl (ch_ip c') = i then {ch_pk c'} else {})"
proof -
  let ?old = "prepared_ip cl old"
  let ?kept = "filter (\<lambda>pk. pk \<noteq> ch_pk c') (ix_entries (ix_ip ix) ?old)"
  let ?m = "if ?kept = [] then (ix_ip ix)(?old := None) else (ix_ip ix)(?old \<mapsto> ?kept)"
  have m: "ix_entries ?m i = (if i = ?old then ?kept else ix_entries (ix_ip ix) i)"
    by (auto simp: ix_entries_def)
  have eq: "ix_ip ix' = ix_append ?m (prepared_ip cl (ch_ip c')) (ch_pk c')"
    using mv by (auto simp: ix_move_ip_def ip_key_prepared ix_entries_def Let_def split: if_splits)
  show ?thesis
    unfolding eq ix_entries_append m
    by (cases "i = ?old"; cases "prepared_ip cl (ch_ip c') = i") (use d m in \<open>auto simp del: fun_upd_apply\<close>)
qed

text \<open>A moved chassis: its object is saved with the new address and its address entry is moved.\<close>

lemma ix_move_view:
  assumes mv: "ix_move_ip cl c' (ch_ip c) (ix_refresh c' ix) = Inr ix'"
    and view: "index_view cl ss ms is as mfr ix rows" and pks: "distinct (map ch_pk rows)"
    and c: "c \<in> set rows" "same_identity c c'"
  shows "index_view cl ss ms is as mfr ix'
    (put_row ch_pk c' rows)"
proof -
  have objs: "ix_objects ix' = (ix_objects ix)(ch_pk c' \<mapsto> c')"
    using mv by (auto simp: ix_refresh_def ix_move_ip_def Let_def result_simps)
  have maps: "ix_serial ix' = ix_serial ix" "ix_mac ix' = ix_mac ix" "ix_api_id ix' = ix_api_id ix"
    using mv by (auto simp: ix_refresh_def ix_move_ip_def Let_def result_simps)
  have ip: "field_view ix' (ix_entries (ix_ip ix') i) (\<lambda>r. prepared_ip cl (ch_ip r) = i) (put_row ch_pk c' rows)"
    if "i \<in> set is" for i
  proof -
    from view that have v: "field_view ix (ix_entries (ix_ip ix) i) (\<lambda>r. prepared_ip cl (ch_ip r) = i) rows"
      by (simp add: index_view_def)
    then have v1: "distinct (ix_entries (ix_ip ix) i)"
      and v2: "set (ix_entries (ix_ip ix) i) = ch_pk ` {r \<in> set rows. prepared_ip cl (ch_ip r) = i}"
      by (simp_all add: field_view_def)
    have pk: "ch_pk c' = ch_pk c" using c(2) by (simp add: same_identity_def)
    have out: "ch_pk c \<notin> set (ix_entries (ix_ip ix) i)" if "i \<noteq> prepared_ip cl (ch_ip c)"
      using that v2 pks c(1) by (auto simp: image_iff distinct_map dest: inj_onD)
    have ent: "ix_entries (ix_ip (ix_refresh c' ix)) i = ix_entries (ix_ip ix) i"
      by (simp add: ix_refresh_def)
    note M = ix_move_ip_entries[OF mv, of i, unfolded ent, OF v1]
    show ?thesis
    proof (rule field_view_put[OF v pks c(1) pk objs])
      show "distinct (ix_entries (ix_ip ix') i)" using M by simp
      show "set (ix_entries (ix_ip ix') i) = set (ix_entries (ix_ip ix) i) - {ch_pk c} \<union>
          (if prepared_ip cl (ch_ip c') = i then {ch_pk c} else {})"
        using M out pk by (auto split: if_splits)
    qed
  qed
  show ?thesis
    using view c(2) ip unfolding index_view_def maps same_identity_def
    by (auto intro!: field_view_same[OF _ pks c(1) _ _ objs])
qed

end
