(* ===== verification/Deduplication.thy ===== *)
theory Deduplication
  imports Identity_Index
begin

text \<open>
  Deduplication of one reported device (\<open>services/deduplication/check.py\<close>,
  \<open>identity_resolution.py\<close>, \<open>result.py\<close>), the movement log entry it leads to
  (\<open>tracking.py\<close>, \<open>DeviceMovementLog\<close>) and the conflict classification of a staged queue
  entry (\<open>queue_conflict_service.py\<close>).

  A result passes through its validator whenever it is constructed, as a pydantic model does, so
  a contradictory result is the error \<open>ResultError\<close>.  \<open>codes\<close> gives the code of a manufacturer
  by its key.  \<open>indexed\<close> of the code is whether an index was supplied.
\<close>

datatype dedup_outcome = New | Duplicate | Moved | Conflict

record dedup_result =
  dr_outcome :: dedup_outcome
  dr_existing :: "chassis option"
  dr_conflict_type :: "string option"
  dr_details :: "(string \<times> json) list"

section \<open>Validated results\<close>

definition validate_outcome_context :: "dedup_result \<Rightarrow> dedup_error + dedup_result" where
  "validate_outcome_context d =
     (if (dr_outcome d = Duplicate \<or> dr_outcome d = Moved) \<and> dr_existing d = None
      then Inl ResultError
      else if dr_outcome d = New
      then (if dr_existing d \<noteq> None \<or> dr_conflict_type d \<noteq> None then Inl ResultError else Inr d)
      else if dr_conflict_type d = None then Inl ResultError
      else Inr d)"

definition dr_new :: "dedup_error + dedup_result" where
  "dr_new = validate_outcome_context
     \<lparr>dr_outcome = New, dr_existing = None, dr_conflict_type = None, dr_details = []\<rparr>"

definition dr_duplicate :: "chassis \<Rightarrow> (string \<times> json) list \<Rightarrow> dedup_error + dedup_result" where
  "dr_duplicate c details = validate_outcome_context
     \<lparr>dr_outcome = Duplicate, dr_existing = Some c, dr_conflict_type = Some ''duplicate'',
      dr_details = details\<rparr>"

definition dr_moved ::
  "chassis \<Rightarrow> string \<Rightarrow> (string \<times> json) list \<Rightarrow> dedup_error + dedup_result"
where
  "dr_moved c ct details = validate_outcome_context
     \<lparr>dr_outcome = Moved, dr_existing = Some c, dr_conflict_type = Some ct, dr_details = details\<rparr>"

definition dr_conflict ::
  "string \<Rightarrow> chassis option \<Rightarrow> (string \<times> json) list \<Rightarrow> dedup_error + dedup_result"
where
  "dr_conflict ct existing details = validate_outcome_context
     \<lparr>dr_outcome = Conflict, dr_existing = existing, dr_conflict_type = Some ct,
      dr_details = details\<rparr>"

lemma dr_simps [simp]:
  "dr_new = Inr \<lparr>dr_outcome = New, dr_existing = None, dr_conflict_type = None, dr_details = []\<rparr>"
  "dr_duplicate c ds = Inr \<lparr>dr_outcome = Duplicate, dr_existing = Some c,
     dr_conflict_type = Some ''duplicate'', dr_details = ds\<rparr>"
  "dr_moved c ct ds = Inr \<lparr>dr_outcome = Moved, dr_existing = Some c, dr_conflict_type = Some ct,
     dr_details = ds\<rparr>"
  "dr_conflict ct ex ds = Inr \<lparr>dr_outcome = Conflict, dr_existing = ex,
     dr_conflict_type = Some ct, dr_details = ds\<rparr>"
  by (simp_all add: dr_new_def dr_duplicate_def dr_moved_def dr_conflict_def
      validate_outcome_context_def)

section \<open>Checks\<close>

definition resolve_serial_identity ::
  "chassis list \<Rightarrow> string \<Rightarrow> identity_index option \<Rightarrow> orm_error + chassis option"
where
  "resolve_serial_identity rows serial idx =
     (if serial = [] then Inr None
      else case idx of
          Some ix \<Rightarrow> ix_lookup_serial ix serial
        | None \<Rightarrow> query_serial rows serial)"

definition resolve_mac_identity ::
  "chassis list \<Rightarrow> string option \<Rightarrow> identity_index option \<Rightarrow> orm_error + chassis option"
where
  "resolve_mac_identity rows mac idx =
     (case mac of None \<Rightarrow> Inr None
      | Some m \<Rightarrow> if m = [] then Inr None
          else (case idx of
              Some ix \<Rightarrow> ix_lookup_mac ix m
            | None \<Rightarrow> query_mac rows m))"

definition check_manufacturer_conflict ::
  "(nat \<Rightarrow> string) \<Rightarrow> chassis \<Rightarrow> nat \<Rightarrow> string \<Rightarrow> dedup_error + dedup_result option"
where
  "check_manufacturer_conflict codes c mfr match_type =
     (if ch_manufacturer c = mfr then Inr None
      else bindE (dr_conflict ''manufacturer_mismatch'' (Some c)
             [(''existing_manufacturer'', JStr (codes (ch_manufacturer c))),
              (''new_manufacturer'', JStr (codes mfr)), (''match_type'', JStr match_type)])
             (\<lambda>d. Inr (Some d)))"

text \<open>A check that may end the classification: the first result wins.\<close>

definition orElse ::
  "dedup_error + dedup_result option \<Rightarrow> dedup_error + dedup_result option
     \<Rightarrow> dedup_error + dedup_result option"
where
  "orElse m n = bindE m (\<lambda>r. case r of Some d \<Rightarrow> Inr (Some d) | None \<Rightarrow> n)"

definition check_durable_identity_conflict ::
  "(nat \<Rightarrow> string) \<Rightarrow> chassis option \<Rightarrow> chassis option \<Rightarrow> nat \<Rightarrow> dedup_error + dedup_result option"
where
  "check_durable_identity_conflict codes serial_existing mac_existing mfr =
     orElse (case serial_existing of None \<Rightarrow> Inr None
             | Some c \<Rightarrow> check_manufacturer_conflict codes c mfr ''serial_number'')
      (orElse (case mac_existing of None \<Rightarrow> Inr None
               | Some c \<Rightarrow> check_manufacturer_conflict codes c mfr ''mac_address'')
        (case (serial_existing, mac_existing) of
           (Some s, Some m) \<Rightarrow>
             if ch_pk s = ch_pk m then Inr None
             else bindE (dr_conflict ''durable_identity_mismatch'' None
                     [(''serial_device_id'', JInt (int (ch_pk s))),
                      (''mac_device_id'', JInt (int (ch_pk m)))])
                   (\<lambda>d. Inr (Some d))
         | _ \<Rightarrow> Inr None))"

text \<open>\<open>_check_by_serial\<close> and \<open>_check_by_mac\<close> on the resolved row: foreign ownership, then an
  address move, then a plain duplicate.\<close>

definition moved_or_duplicate :: "chassis \<Rightarrow> string \<Rightarrow> string \<Rightarrow> dedup_error + dedup_result option" where
  "moved_or_duplicate c ip match_type =
     (if ch_ip c \<noteq> ip
      then bindE (dr_moved c ''ip_changed''
             [(''old_ip'', JStr (ch_ip c)), (''new_ip'', JStr ip), (''match_type'', JStr match_type)])
             (\<lambda>d. Inr (Some d))
      else bindE (dr_duplicate c [(''match_type'', JStr match_type)]) (\<lambda>d. Inr (Some d)))"

definition check_by_serial ::
  "(nat \<Rightarrow> string) \<Rightarrow> string \<Rightarrow> nat \<Rightarrow> chassis option \<Rightarrow> dedup_error + dedup_result option"
where
  "check_by_serial codes ip mfr existing =
     (case existing of None \<Rightarrow> Inr None
      | Some c \<Rightarrow> orElse (check_manufacturer_conflict codes c mfr ''serial_number'')
                    (moved_or_duplicate c ip ''serial_number''))"

definition check_by_mac ::
  "(nat \<Rightarrow> string) \<Rightarrow> string \<Rightarrow> string \<Rightarrow> nat \<Rightarrow> chassis option \<Rightarrow> dedup_error + dedup_result option"
where
  "check_by_mac codes mac ip mfr existing =
     (if canonicalize_mac_address (Some mac) = None then Inr None
      else case existing of None \<Rightarrow> Inr None
      | Some c \<Rightarrow> orElse (check_manufacturer_conflict codes c mfr ''mac_address'')
                    (moved_or_duplicate c ip ''mac_address''))"

definition json_of_opt :: "string option \<Rightarrow> json" where
  "json_of_opt v = (case v of None \<Rightarrow> JNull | Some s \<Rightarrow> JStr s)"

definition check_by_ip ::
  "chassis option \<Rightarrow> string \<Rightarrow> string option \<Rightarrow> dedup_error + dedup_result option"
where
  "check_by_ip existing serial mac =
     (case existing of None \<Rightarrow> Inr None
      | Some c \<Rightarrow>
          if serial \<noteq> [] \<and> ch_serial c \<noteq> serial
          then bindE (dr_conflict ''ip_conflict'' (Some c)
                 [(''existing_serial'', JStr (ch_serial c)), (''new_serial'', JStr serial),
                  (''existing_mac'', json_of_opt (ch_mac c)), (''new_mac'', json_of_opt mac),
                  (''match_type'', JStr ''ip'')]) (\<lambda>d. Inr (Some d))
          else if mac \<noteq> None \<and> mac \<noteq> Some [] \<and> canonicalize_mac_address (ch_mac c) \<noteq> mac
          then bindE (dr_conflict ''ip_conflict'' (Some c)
                 [(''existing_mac'', json_of_opt (ch_mac c)), (''new_mac'', json_of_opt mac),
                  (''match_type'', JStr ''ip'')]) (\<lambda>d. Inr (Some d))
          else bindE (dr_duplicate c [(''match_type'', JStr ''ip'')]) (\<lambda>d. Inr (Some d)))"

definition check_by_api_id ::
  "chassis option \<Rightarrow> string \<Rightarrow> dedup_error + dedup_result option"
where
  "check_by_api_id existing ip =
     (case existing of None \<Rightarrow> Inr None | Some c \<Rightarrow> moved_or_duplicate c ip ''api_device_id'')"

text \<open>\<open>check_device\<close>.  An absent serial number is the empty text: the code treats both alike.\<close>

definition check_device ::
  "(string \<Rightarrow> string option) \<Rightarrow> (nat \<Rightarrow> string) \<Rightarrow> chassis list \<Rightarrow> string \<Rightarrow> string option \<Rightarrow> string \<Rightarrow> string
     \<Rightarrow> nat option \<Rightarrow> identity_index option \<Rightarrow> dedup_error + dedup_result"
where
  "check_device clean_ipv6 codes rows serial mac_address ip api_id manufacturer idx =
     (case manufacturer of None \<Rightarrow> Inl ManufacturerRequired
      | Some mfr \<Rightarrow>
          (let mac = canonicalize_mac_address mac_address in
           bindE (orm (resolve_serial_identity rows serial idx)) (\<lambda>serial_existing.
           bindE (orm (resolve_mac_identity rows mac idx)) (\<lambda>mac_existing.
           bindE
             (orElse (check_durable_identity_conflict codes serial_existing mac_existing mfr)
             (orElse (if serial \<noteq> [] then check_by_serial codes ip mfr serial_existing else Inr None)
             (orElse (case mac of None \<Rightarrow> Inr None
                      | Some m \<Rightarrow> if m = [] then Inr None else check_by_mac codes m ip mfr mac_existing)
             (orElse (bindE (case idx of Some ix \<Rightarrow> ix_lookup_ip clean_ipv6 ix ip
                             | None \<Rightarrow> orm (query_ip clean_ipv6 rows ip))
                        (\<lambda>existing. check_by_ip existing serial mac))
                     (bindE (orm (case idx of Some ix \<Rightarrow> ix_lookup_api_id ix mfr api_id
                                  | None \<Rightarrow> query_api_id rows mfr api_id))
                        (\<lambda>existing. check_by_api_id existing ip))))))
             (\<lambda>r. case r of Some d \<Rightarrow> Inr d | None \<Rightarrow> dr_new)))))"

section \<open>Facts\<close>

lemma orElse_simps [simp]:
  "orElse (Inl e) n = Inl e" "orElse (Inr None) n = n" "orElse (Inr (Some d)) n = Inr (Some d)"
  by (simp_all add: orElse_def)

lemma orElse_None_iff [result_simps]: "orElse m n = Inr None \<longleftrightarrow> m = Inr None \<and> n = Inr None"
  by (auto simp: orElse_def bindE_def split: sum.splits option.splits)

lemma orElse_Some_iff [result_simps]:
  "orElse m n = Inr (Some d) \<longleftrightarrow> m = Inr (Some d) \<or> (m = Inr None \<and> n = Inr (Some d))"
  by (auto simp: orElse_def bindE_def split: sum.splits option.splits)

lemmas check_defs = check_by_serial_def check_by_mac_def check_by_ip_def check_by_api_id_def
  check_durable_identity_conflict_def check_manufacturer_conflict_def moved_or_duplicate_def

text \<open>Every check answers nothing exactly when it was given no row.\<close>

lemma check_None_iff [simp]:
  "check_by_serial codes ip mfr ex = Inr None \<longleftrightarrow> ex = None"
  "canonicalize_mac_address (Some m) \<noteq> None \<Longrightarrow> check_by_mac codes m ip mfr ex = Inr None \<longleftrightarrow> ex = None"
  "check_by_ip ex serial mac = Inr None \<longleftrightarrow> ex = None"
  "check_by_api_id ex ip = Inr None \<longleftrightarrow> ex = None"
  by (auto simp: check_defs result_simps split: option.splits if_splits)

text \<open>No check constructs a contradictory result.\<close>

lemma check_no_ResultError [simp]:
  "check_by_serial codes ip mfr ex \<noteq> Inl e" "check_by_mac codes m ip mfr ex \<noteq> Inl e"
  "check_by_ip ex serial mac \<noteq> Inl e" "check_by_api_id ex ip \<noteq> Inl e"
  "check_durable_identity_conflict codes s m' mfr \<noteq> Inl e"
  by (auto simp: check_defs orElse_def bindE_def split: option.splits sum.splits if_splits)

text \<open>The keys of a report that the batch index was built for.\<close>

definition report_in_batch ::
  "(string \<Rightarrow> string option) \<Rightarrow> string list \<Rightarrow> string list \<Rightarrow> string list \<Rightarrow> string list
     \<Rightarrow> string \<Rightarrow> string option \<Rightarrow> string \<Rightarrow> string \<Rightarrow> bool"
where
  "report_in_batch cl ss ms is as serial mac ip api_id \<longleftrightarrow>
     (serial \<noteq> [] \<longrightarrow> serial \<in> set ss) \<and>
     (\<forall>m. canonicalize_mac_address mac = Some m \<longrightarrow> m \<in> set ms) \<and>
     prepared_ip cl ip \<in> set is \<and> \<not> refused_ip cl ip \<and> api_id \<in> set as"

lemma check_device_index_eq:
  assumes view: "index_view cl ss ms is as mfr ix rows"
    and pks: "distinct (map ch_pk rows)"
    and stored: "\<forall>r \<in> set rows. stored_canonical cl r"
    and batch: "report_in_batch cl ss ms is as serial mac ip api_id"
  shows "check_device cl codes rows serial mac ip api_id (Some mfr) (Some ix) =
    check_device cl codes rows serial mac ip api_id (Some mfr) None"
proof -
  have S: "resolve_serial_identity rows serial (Some ix) = resolve_serial_identity rows serial None"
  proof (cases "serial = []")
    case False
    with batch have "serial \<in> set ss" by (simp add: report_in_batch_def)
    then have "ix_lookup_serial ix serial = query_serial rows serial"
      using ix.serial_law[of cl ss ms "is" as mfr ix rows serial] view pks
      by (simp add: query_serial_def)
    with False show ?thesis by (simp add: resolve_serial_identity_def)
  qed (simp add: resolve_serial_identity_def)
  have M: "resolve_mac_identity rows (canonicalize_mac_address mac) (Some ix) =
      resolve_mac_identity rows (canonicalize_mac_address mac) None"
  proof (cases "canonicalize_mac_address mac")
    case (Some m)
    then have "canonical_mac m" by (rule canonicalize_canonical)
    moreover from Some batch have "m \<in> set ms" by (simp add: report_in_batch_def)
    ultimately have "ix_lookup_mac ix m = query_mac rows m"
      using ix.mac_law[of cl ss ms "is" as mfr ix rows m] view pks stored
      by (simp add: query_mac_view)
    with Some show ?thesis by (simp add: resolve_mac_identity_def)
  qed (simp add: resolve_mac_identity_def)
  have I: "ix_lookup_ip cl ix ip = orm (query_ip cl rows ip)"
    using ix.ip_law[of cl ss ms "is" as mfr ix rows ip] view pks stored batch
    by (simp add: ix_lookup_ip_accepted query_ip_view report_in_batch_def)
  have A: "ix_lookup_api_id ix mfr api_id = query_api_id rows mfr api_id"
    using ix.api_id_law[of cl ss ms "is" as mfr ix rows api_id] view pks batch
    by (simp add: query_api_id_def report_in_batch_def)
  show ?thesis by (simp add: check_device_def S M I A)
qed

lemma payload_in_batch:
  assumes "p \<in> set ps" "\<not> refused_ip cl (nh_ip p)"
  shows "report_in_batch cl (batch_serials ps) (batch_macs ps) (batch_keys cl ps) (batch_api_ids ps)
    (nh_serial p) (Some (nh_mac p)) (nh_ip p) (nh_api_id p)"
  using assms
  by (auto simp: report_in_batch_def batch_serials_def batch_macs_def batch_keys_def
      batch_api_ids_def List.map_filter_def image_iff)

section \<open>Properties\<close>

text \<open>C1: the identity index of a synchronisation batch (with its chunked bulk queries) is built unless an
  address of the batch, or a stored one, is a text with a colon that is no IPv6 address: then building it
  raises, for the whole batch, where the single queries would go on.  With the index, classifying a device
  of the batch gives exactly the answer, ambiguity errors included, that the four single queries against
  the inventory give.  Rows are in the form the database writes, with distinct keys.\<close>

theorem indexed_check_equals_queries:
  assumes "distinct (map ch_pk rows)" "\<forall>r \<in> set rows. stored_canonical clean_ipv6 r" "p \<in> set ps"
  shows "(case ix_build max_params clean_ipv6 ps mfr rows of
      Inl e \<Rightarrow> e = InvalidIPv6 \<and>
        ((\<exists>q \<in> set ps. refused_ip clean_ipv6 (nh_ip q)) \<or> (\<exists>r \<in> set rows. refused_ip clean_ipv6 (ch_ip r)))
    | Inr ix \<Rightarrow> (\<forall>q \<in> set ps. \<not> refused_ip clean_ipv6 (nh_ip q)) \<and>
        check_device clean_ipv6 codes rows (nh_serial p) (Some (nh_mac p)) (nh_ip p) (nh_api_id p)
          (Some mfr) (Some ix)
        = check_device clean_ipv6 codes rows (nh_serial p) (Some (nh_mac p)) (nh_ip p) (nh_api_id p)
          (Some mfr) None)"
proof (cases "ix_build max_params clean_ipv6 ps mfr rows")
  case (Inl e)
  then show ?thesis using ix_build_refuses[OF Inl assms(1)] by simp
next
  case (Inr ix)
  then have "\<forall>q \<in> set ps. \<not> refused_ip clean_ipv6 (nh_ip q)"
    by (auto simp: ix_build_cases Let_def split: if_splits)
  moreover from this assms(3) have "\<not> refused_ip clean_ipv6 (nh_ip p)" by blast
  note check_device_index_eq[OF ix_build_view[OF assms(1,2) Inr] assms(1,2) payload_in_batch[OF assms(3) this]]
  ultimately show ?thesis by (simp add: Inr)
qed

text \<open>An address followed by a port, which is no address, beside a sound one: the index of the two cannot be
  built, and the queries classify either device.\<close>

definition port_report :: normalized where
  "port_report = sample_payload ''S3'' [] ''10.0.0.3:2202'' ''a3''"

definition no_ipv6 :: "string \<Rightarrow> string option" where
  "no_ipv6 _ = None"

theorem indexed_check_equals_queries_witness:
  "let rows = [sample_chassis 1 7 ''S1'' (Some ''00:0e:dd:ab:cd:01'') ''10.0.0.1'' ''a1'' ''online'',
               sample_chassis 2 7 ''S2'' None ''10.0.0.2'' ''a2'' ''online''];
       p = sample_payload ''S1'' ''000eddabcd01'' ''10.0.0.9'' ''a1''
   in (\<exists>ix. ix_build None no_ipv6 [p] 7 rows = Inr ix
        \<and> check_device no_ipv6 (\<lambda>_. ''shure'') rows (nh_serial p) (Some (nh_mac p)) (nh_ip p) (nh_api_id p)
            (Some 7) (Some ix)
          = check_device no_ipv6 (\<lambda>_. ''shure'') rows (nh_serial p) (Some (nh_mac p)) (nh_ip p) (nh_api_id p)
            (Some 7) None)
      \<and> ix_build None no_ipv6 [p, port_report] 7 rows = Inl InvalidIPv6"
proof -
  let ?rows = "[sample_chassis 1 7 ''S1'' (Some ''00:0e:dd:ab:cd:01'') ''10.0.0.1'' ''a1'' ''online'',
               sample_chassis 2 7 ''S2'' None ''10.0.0.2'' ''a2'' ''online'']"
  let ?p = "sample_payload ''S1'' ''000eddabcd01'' ''10.0.0.9'' ''a1''"
  have rows: "distinct (map ch_pk ?rows)" "\<forall>r \<in> set ?rows. stored_canonical no_ipv6 r" "?p \<in> set [?p]"
    by code_simp+
  have "\<not> isl (ix_build None no_ipv6 [?p] 7 ?rows)" by code_simp
  then obtain ix where ix: "ix_build None no_ipv6 [?p] 7 ?rows = Inr ix"
    by (metis sum.collapse(2))
  have "ix_build None no_ipv6 [?p, port_report] 7 ?rows = Inl InvalidIPv6"
    by (simp add: ix_build_cases refused_ip_def port_report_def no_ipv6_def sample_payload_def Let_def)
  then show ?thesis
    using indexed_check_equals_queries[OF rows, where max_params = None and codes = "\<lambda>_. ''shure''" and mfr = 7] ix unfolding Let_def by auto
qed

text \<open>The ways a check against the inventory can end.\<close>

inductive check_path ::
  "(string \<Rightarrow> string option) \<Rightarrow> (nat \<Rightarrow> string) \<Rightarrow> chassis list \<Rightarrow> string \<Rightarrow> string option \<Rightarrow> string \<Rightarrow> string
     \<Rightarrow> nat \<Rightarrow> dedup_result \<Rightarrow> bool"
  for cl codes rows serial mac ip api_id mfr
where
  durable: "resolve_serial_identity rows serial None = Inr s \<Longrightarrow>
    resolve_mac_identity rows mac None = Inr m \<Longrightarrow>
    check_durable_identity_conflict codes s m mfr = Inr (Some d) \<Longrightarrow>
    check_path cl codes rows serial mac ip api_id mfr d"
| serial: "resolve_serial_identity rows serial None = Inr (Some s) \<Longrightarrow>
    resolve_mac_identity rows mac None = Inr m \<Longrightarrow>
    check_durable_identity_conflict codes (Some s) m mfr = Inr None \<Longrightarrow>
    moved_or_duplicate s ip ''serial_number'' = Inr (Some d) \<Longrightarrow>
    check_path cl codes rows serial mac ip api_id mfr d"
| mac: "resolve_serial_identity rows serial None = Inr None \<Longrightarrow>
    resolve_mac_identity rows mac None = Inr (Some m) \<Longrightarrow> ch_manufacturer m = mfr \<Longrightarrow>
    moved_or_duplicate m ip ''mac_address'' = Inr (Some d) \<Longrightarrow>
    check_path cl codes rows serial mac ip api_id mfr d"
| ip: "resolve_serial_identity rows serial None = Inr None \<Longrightarrow>
    resolve_mac_identity rows mac None = Inr None \<Longrightarrow> query_ip cl rows ip = Inr (Some i) \<Longrightarrow>
    check_by_ip (Some i) serial mac = Inr (Some d) \<Longrightarrow>
    check_path cl codes rows serial mac ip api_id mfr d"
| api_id: "resolve_serial_identity rows serial None = Inr None \<Longrightarrow>
    resolve_mac_identity rows mac None = Inr None \<Longrightarrow> query_ip cl rows ip = Inr None \<Longrightarrow>
    query_api_id rows mfr api_id = Inr (Some a) \<Longrightarrow>
    check_by_api_id (Some a) ip = Inr (Some d) \<Longrightarrow>
    check_path cl codes rows serial mac ip api_id mfr d"
| new: "resolve_serial_identity rows serial None = Inr None \<Longrightarrow>
    resolve_mac_identity rows mac None = Inr None \<Longrightarrow> query_ip cl rows ip = Inr None \<Longrightarrow>
    query_api_id rows mfr api_id = Inr None \<Longrightarrow> dr_new = Inr d \<Longrightarrow>
    check_path cl codes rows serial mac ip api_id mfr d"

lemma durable_None:
  "check_durable_identity_conflict codes (Some s) m mfr = Inr None \<Longrightarrow> ch_manufacturer s = mfr"
  "check_durable_identity_conflict codes s' (Some m') mfr = Inr None \<Longrightarrow> ch_manufacturer m' = mfr"
  by (auto simp: check_durable_identity_conflict_def check_manufacturer_conflict_def result_simps
      split: if_splits)

lemma check_device_tail:
  assumes chk: "check_device cl codes rows serial mac0 ip api_id (Some mfr) None = Inr d"
    and mac: "mac = canonicalize_mac_address mac0"
    and s: "resolve_serial_identity rows serial None = Inr None"
    and m: "resolve_mac_identity rows mac None = Inr None"
  shows "check_path cl codes rows serial mac ip api_id mfr d"
proof -
  have skip: "(case mac of None \<Rightarrow> Inr None | Some m' \<Rightarrow> if m' = [] then Inr None
      else check_by_mac codes m' ip mfr None) = Inr None"
    by (auto simp: check_by_mac_def split: option.splits)
  have skip': "(if serial \<noteq> [] then check_by_serial codes ip mfr None else Inr None) = Inr None"
    by (simp add: check_by_serial_def)
  have dur: "check_durable_identity_conflict codes None None mfr = Inr None"
    by (simp add: check_durable_identity_conflict_def)
  note unf = check_device_def mac[symmetric] skip skip' dur s m check_by_ip_def check_by_api_id_def
  obtain i where i: "query_ip cl rows ip = Inr i"
    using chk by (cases "query_ip cl rows ip") (simp_all add: unf)
  show ?thesis
  proof (cases i)
    case (Some c)
    obtain d' where d': "check_by_ip (Some c) serial mac = Inr (Some d')"
      by (cases "check_by_ip (Some c) serial mac") (auto, metis check_None_iff(3) not_None_eq)
    with chk s m dur i Some have "d' = d"
      by (simp add: check_device_def mac[symmetric] skip skip')
    with d' s m i Some show ?thesis by (blast intro: check_path.ip)
  next
    case iN: None
    obtain a where a: "query_api_id rows mfr api_id = Inr a"
      using chk by (cases "query_api_id rows mfr api_id") (simp_all add: unf i iN)
    show ?thesis
    proof (cases a)
      case (Some c)
      obtain d' where d': "check_by_api_id (Some c) ip = Inr (Some d')"
        by (cases "check_by_api_id (Some c) ip") (auto, metis check_None_iff(4) not_None_eq)
      with chk s m dur i iN a Some have "d' = d"
        by (simp add: check_device_def mac[symmetric] skip skip' check_by_ip_def)
      with d' s m i iN a Some show ?thesis by (blast intro: check_path.api_id)
    next
      case None
      with chk i iN a have "dr_new = Inr d" by (simp add: unf)
      with s m i iN a None show ?thesis by (blast intro: check_path.new)
    qed
  qed
qed

lemma check_device_path:
  assumes "check_device cl codes rows serial mac0 ip api_id (Some mfr) None = Inr d"
    and mc: "mac = canonicalize_mac_address mac0"
  shows "check_path cl codes rows serial mac ip api_id mfr d"
proof -
  from assms obtain s m where
    s: "resolve_serial_identity rows serial None = Inr s"
    and m: "resolve_mac_identity rows mac None = Inr m"
    by (auto simp: check_device_def result_simps Let_def)
  have s0: "serial = [] \<Longrightarrow> s = None" using s by (simp add: resolve_serial_identity_def)
  have m0: "mac = None \<Longrightarrow> m = None" using m by (simp add: resolve_mac_identity_def)
  have mne: "mac \<noteq> Some []" using canonicalize_nonempty[of mac0 "[]"] mc by auto
  obtain r where r: "check_durable_identity_conflict codes s m mfr = Inr r"
    by (cases "check_durable_identity_conflict codes s m mfr") simp_all
  consider (dur) d' where "r = Some d'" | (ser) c where "r = None" "s = Some c"
    | (mac) c where "r = None" "s = None" "m = Some c" | (none) "s = None" "m = None"
    by (cases r; cases s; cases m) auto
  then show ?thesis
  proof cases
    case dur
    with assms s m r have "d' = d" by (simp add: check_device_def)
    with s m r dur show ?thesis by (blast intro: check_path.durable)
  next
    case ser
    with s0 have "serial \<noteq> []" by auto
    with assms s m r ser have "moved_or_duplicate c ip ''serial_number'' = Inr (Some d)"
      using durable_None(1)[of codes c m mfr]
      by (auto simp: check_device_def check_by_serial_def check_manufacturer_conflict_def
          moved_or_duplicate_def)
    with s m r ser show ?thesis by (blast intro: check_path.serial)
  next
    case mac
    with m0 obtain m' where m': "mac = Some m'" by auto
    have mf: "ch_manufacturer c = mfr" using r mac durable_None(2) by blast
    have "canonicalize_mac_address (Some m') \<noteq> None"
      using canonicalize_idem[of mac0 m'] m' mc by simp
    with assms(1) s m r mac m' mf mne have "moved_or_duplicate c ip ''mac_address'' = Inr (Some d)"
      by (auto simp: check_device_def mc[symmetric] check_by_serial_def check_by_mac_def
          check_manufacturer_conflict_def moved_or_duplicate_def split: if_splits)
    with s m mf mac show ?thesis by (blast intro: check_path.mac)
  next
    case none
    with assms s m show ?thesis by (intro check_device_tail) auto
  qed
qed

lemma resolve_serial_Inr:
  "resolve_serial_identity rows serial None = Inr (Some c) \<Longrightarrow>
     serial \<noteq> [] \<and> c \<in> set rows \<and> ch_serial c = serial"
  "resolve_serial_identity rows serial None = Inr None \<longleftrightarrow>
     serial = [] \<or> (\<forall>r \<in> set rows. ch_serial r \<noteq> serial)"
  using db.serial_owner[where s = serial and rows = rows] db.no_owner(1)[where s = serial and rows = rows]
  by (auto simp: resolve_serial_identity_def split: if_splits)

lemma resolve_mac_Inr:
  assumes "\<forall>r \<in> set rows. stored_canonical cl r" "mac = canonicalize_mac_address mac0"
  shows "resolve_mac_identity rows mac None = Inr (Some c) \<Longrightarrow>
     mac \<noteq> None \<and> c \<in> set rows \<and> canonicalize_mac_address (ch_mac c) = mac"
  "resolve_mac_identity rows mac None = Inr None \<longleftrightarrow>
     mac = None \<or> (\<forall>r \<in> set rows. canonicalize_mac_address (ch_mac r) \<noteq> mac)"
proof -
  have c: "canonical_mac m" "m \<noteq> []" if "mac = Some m" for m
    using that assms(2) canonicalize_canonical canonical_nonempty by metis+
  show "mac \<noteq> None \<and> c \<in> set rows \<and> canonicalize_mac_address (ch_mac c) = mac"
    if "resolve_mac_identity rows mac None = Inr (Some c)"
    using that c db.mac_owner[where cl = cl and rows = rows] assms(1)
    by (auto simp: resolve_mac_identity_def split: option.splits if_splits)
  show "resolve_mac_identity rows mac None = Inr None \<longleftrightarrow>
     mac = None \<or> (\<forall>r \<in> set rows. canonicalize_mac_address (ch_mac r) \<noteq> mac)"
    using c db.no_owner(2)[where cl = cl and rows = rows] assms(1)
    by (auto simp: resolve_mac_identity_def split: option.splits if_splits)
qed

lemma moved_or_duplicate_outcome:
  "moved_or_duplicate c ip mt = Inr (Some d) \<Longrightarrow>
     dr_existing d = Some c \<and> dr_outcome d = (if ch_ip c = ip then Duplicate else Moved)"
  by (auto simp: moved_or_duplicate_def split: if_splits)

lemma check_by_ip_outcome:
  "check_by_ip (Some c) serial mac = Inr (Some d) \<Longrightarrow> dr_existing d = Some c \<and>
     dr_outcome d = (if (serial = [] \<or> ch_serial c = serial) \<and>
       (mac = None \<or> mac = Some [] \<or> canonicalize_mac_address (ch_mac c) = mac)
       then Duplicate else Conflict)"
  by (auto simp: check_by_ip_def split: if_splits)

lemma durable_Some_outcome:
  "check_durable_identity_conflict codes s m mfr = Inr (Some d) \<Longrightarrow> dr_outcome d = Conflict"
  by (auto simp: check_durable_identity_conflict_def check_manufacturer_conflict_def result_simps
      split: option.splits if_splits)

text \<open>C5: a device is classified as new exactly when no stored chassis carries any of its four
  identity keys: its serial number, its MAC address, its IP address, or its API identifier
  within the same manufacturer.\<close>

theorem check_device_new_iff:
  assumes chk: "check_device cl codes rows serial mac ip api_id (Some mfr) None = Inr d"
    and stored: "\<forall>r \<in> set rows. stored_canonical cl r"
  shows "dr_outcome d = New \<longleftrightarrow>
    (\<forall>r \<in> set rows.
       \<not> (serial \<noteq> [] \<and> ch_serial r = serial) \<and>
       \<not> (canonicalize_mac_address mac \<noteq> None \<and>
          canonicalize_mac_address (ch_mac r) = canonicalize_mac_address mac) \<and>
       ch_ip r \<noteq> prepared_ip cl ip \<and>
       \<not> (ch_manufacturer r = mfr \<and> ch_api_id r = api_id))"
proof -
  note I = db.no_owner(3)[where cl = cl and rows = rows and i = ip] and A = db.no_owner(4)[where mfr = mfr and rows = rows and a = api_id]
  have sip: "prepared_ip cl (ch_ip r) = ch_ip r" if "r \<in> set rows" for r
    using stored that by (simp add: stored_ip)
  have owner: "c \<in> set rows \<and> ch_ip c = prepared_ip cl ip" if "query_ip cl rows ip = Inr (Some c)" for c
    using db.ip_owner[OF stored that] sip by auto
  from check_device_path[OF chk refl] show ?thesis
  proof cases
    case (durable s m)
    then have ne: "dr_outcome d \<noteq> New" using durable_Some_outcome by fastforce
    from durable(3) have "s \<noteq> None \<or> m \<noteq> None"
      by (cases s; cases m) (simp_all add: check_durable_identity_conflict_def)
    with durable(1,2) ne resolve_serial_Inr(1) resolve_mac_Inr(1)[OF stored refl] show ?thesis by blast
  next
    case (serial s m)
    then show ?thesis
      using moved_or_duplicate_outcome resolve_serial_Inr(1)
      by (metis dedup_outcome.distinct(1) dedup_outcome.distinct(3))
  next
    case (mac m)
    then show ?thesis
      using moved_or_duplicate_outcome resolve_mac_Inr(1)[OF stored refl]
      by (metis dedup_outcome.distinct(1) dedup_outcome.distinct(3))
  next
    case (ip i)
    then show ?thesis
      using check_by_ip_outcome owner by (metis dedup_outcome.distinct(1) dedup_outcome.distinct(5))
  next
    case (api_id a)
    then show ?thesis
      using moved_or_duplicate_outcome[of a ip "''api_device_id''" d] db.api_id_owner[where a = api_id and rows = rows and mfr = mfr and c = a]
      by (auto simp: check_by_api_id_def split: if_splits)
  next
    case new
    then show ?thesis
      using I A stored sip by (auto simp: resolve_serial_Inr(2) resolve_mac_Inr(2)[OF stored refl])
  qed
qed

theorem check_device_new_iff_witness:
  "let rows = [sample_chassis 1 7 ''S1'' (Some ''00:0e:dd:ab:cd:01'') ''10.0.0.1'' ''a1'' ''online'']
   in \<exists>d. check_device no_ipv6 (\<lambda>_. ''shure'') rows ''S9'' None ''10.0.0.9'' ''a9'' (Some 7) None = Inr d
     \<and> dr_outcome d = New"
proof -
  let ?rows = "[sample_chassis 1 7 ''S1'' (Some ''00:0e:dd:ab:cd:01'') ''10.0.0.1'' ''a1'' ''online'']"
  let ?d = "\<lparr>dr_outcome = New, dr_existing = None, dr_conflict_type = None, dr_details = []\<rparr>"
  have 1: "check_device no_ipv6 (\<lambda>_. ''shure'') ?rows ''S9'' None ''10.0.0.9'' ''a9'' (Some 7) None = Inr ?d"
    by code_simp
  have 2: "\<forall>r \<in> set ?rows. stored_canonical no_ipv6 r" by code_simp
  have "dr_outcome ?d = New" using check_device_new_iff[OF 1 2] by (simp add: sample_chassis_def prepared_ip_def)
  with 1 show ?thesis unfolding Let_def by blast
qed

text \<open>A device reported as moved belongs to the reporting manufacturer and really carries
  another stored address; a durable identity (serial number or MAC address) owned by another
  manufacturer is always a conflict.  A match by IP address alone is outside this guarantee.\<close>

theorem check_device_moved_same_manufacturer:
  assumes chk: "check_device cl codes rows serial mac ip api_id (Some mfr) None = Inr d"
    and stored: "\<forall>r \<in> set rows. stored_canonical cl r"
  shows "(dr_outcome d = Moved \<longrightarrow>
      (\<exists>c \<in> set rows. dr_existing d = Some c \<and> ch_manufacturer c = mfr \<and> ch_ip c \<noteq> ip))
    \<and> (\<forall>r \<in> set rows. ch_manufacturer r \<noteq> mfr \<longrightarrow>
        (serial \<noteq> [] \<and> ch_serial r = serial) \<or>
        (canonicalize_mac_address mac \<noteq> None \<and>
          canonicalize_mac_address (ch_mac r) = canonicalize_mac_address mac) \<longrightarrow>
        dr_outcome d = Conflict)"
proof (intro conjI impI ballI)
  assume mv: "dr_outcome d = Moved"
  from check_device_path[OF chk refl]
  show "\<exists>c \<in> set rows. dr_existing d = Some c \<and> ch_manufacturer c = mfr \<and> ch_ip c \<noteq> ip"
  proof cases
    case (durable s m)
    then show ?thesis using mv durable_Some_outcome by fastforce
  next
    case (serial s m)
    then show ?thesis
      using mv moved_or_duplicate_outcome resolve_serial_Inr(1) durable_None(1)
      by (metis dedup_outcome.distinct(7))
  next
    case (mac m)
    then show ?thesis
      using mv moved_or_duplicate_outcome resolve_mac_Inr(1)[OF stored refl]
      by (metis dedup_outcome.distinct(7))
  next
    case (ip i)
    then show ?thesis using mv check_by_ip_outcome[of i serial] by (auto split: if_splits)
  next
    case (api_id a)
    then show ?thesis
      using mv moved_or_duplicate_outcome[of a ip "''api_device_id''" d] db.api_id_owner[where a = api_id and rows = rows and mfr = mfr and c = a]
      by (auto simp: check_by_api_id_def split: if_splits)
  next
    case new
    then show ?thesis using mv by auto
  qed
next
  fix r
  assume r: "r \<in> set rows" "ch_manufacturer r \<noteq> mfr"
    and key: "(serial \<noteq> [] \<and> ch_serial r = serial) \<or>
        (canonicalize_mac_address mac \<noteq> None \<and>
          canonicalize_mac_address (ch_mac r) = canonicalize_mac_address mac)"
  have "dr_outcome d \<noteq> Conflict \<Longrightarrow> False"
  proof -
    assume nc: "dr_outcome d \<noteq> Conflict"
    from check_device_path[OF chk refl] obtain s m where
      s: "resolve_serial_identity rows serial None = Inr s"
      and m: "resolve_mac_identity rows (canonicalize_mac_address mac) None = Inr m"
      and own: "\<And>c. s = Some c \<Longrightarrow> ch_manufacturer c = mfr" "\<And>c. m = Some c \<Longrightarrow> ch_manufacturer c = mfr"
      by cases (use nc durable_Some_outcome durable_None in \<open>blast+\<close>)
    from key show False
    proof
      assume k: "serial \<noteq> [] \<and> ch_serial r = serial"
      with s r resolve_serial_Inr(2)[of rows serial] obtain c where c: "s = Some c" by (cases s) auto
      with s k have "query_serial rows serial = Inr (Some c)"
        by (simp add: resolve_serial_identity_def)
      with db.sole_owner(1) r k have "r = c" by blast
      with own(1) c r show False by blast
    next
      assume k: "canonicalize_mac_address mac \<noteq> None \<and>
          canonicalize_mac_address (ch_mac r) = canonicalize_mac_address mac"
      then obtain x where x: "canonicalize_mac_address mac = Some x" by auto
      with m r k resolve_mac_Inr(2)[OF stored refl, of mac] obtain c where c: "m = Some c"
        by (cases m) auto
      have "canonical_mac x" "x \<noteq> []" using x canonicalize_canonical canonicalize_nonempty by metis+
      moreover from this m c x have "query_mac rows x = Inr (Some c)"
        by (simp add: resolve_mac_identity_def)
      ultimately have "r = c" using db.sole_owner(2) r k x stored by metis
      with own(2) c r show False by blast
    qed
  qed
  then show "dr_outcome d = Conflict" by blast
qed

theorem check_device_moved_same_manufacturer_witness:
  "let rows = [sample_chassis 1 7 ''S1'' None ''10.0.0.1'' ''a1'' ''online'',
               sample_chassis 2 8 ''S2'' None ''10.0.0.2'' ''a2'' ''online'']
   in \<exists>d. check_device no_ipv6 (\<lambda>_. ''shure'') rows ''S2'' None ''10.0.0.9'' ''a9'' (Some 7) None = Inr d
     \<and> dr_outcome d = Conflict"
proof -
  let ?rows = "[sample_chassis 1 7 ''S1'' None ''10.0.0.1'' ''a1'' ''online'',
               sample_chassis 2 8 ''S2'' None ''10.0.0.2'' ''a2'' ''online'']"
  have 2: "\<forall>r \<in> set ?rows. stored_canonical no_ipv6 r" by code_simp
  have "\<not> isl (check_device no_ipv6 (\<lambda>_. ''shure'') ?rows ''S2'' None ''10.0.0.9'' ''a9'' (Some 7) None)"
    by code_simp
  then obtain d where
    d: "check_device no_ipv6 (\<lambda>_. ''shure'') ?rows ''S2'' None ''10.0.0.9'' ''a9'' (Some 7) None = Inr d"
    by (metis sum.collapse(2))
  have "dr_outcome d = Conflict"
    using check_device_moved_same_manufacturer[OF d 2] by (simp add: sample_chassis_def)
  with d show ?thesis unfolding Let_def by blast
qed

end
