(* ===== verification/Queue_Conflict.thy ===== *)
theory Queue_Conflict
  imports Deduplication
begin

text \<open>
  Conflict classification of a staged discovery-queue entry against the adopted inventory
  (\<open>services/deduplication/queue_conflict_service.py\<close>), and the movement log
  (\<open>services/deduplication/tracking.py\<close>, \<open>DeviceMovementLog\<close> in
  \<open>models/discovery/discovery_queue.py\<close>).  Tables are listed in the default ordering of their
  model, in which \<open>first()\<close> looks.
\<close>

section \<open>Movement log\<close>

record movement =
  mv_pk :: nat
  mv_device :: nat
  mv_old_ip :: "string option"
  mv_new_ip :: "string option"
  mv_old_location :: "nat option"
  mv_new_location :: "nat option"
  mv_detected_at :: time
  mv_detected_by :: string
  mv_reason :: string
  mv_acknowledged :: bool
  mv_acknowledged_at :: "time option"
  mv_acknowledged_by :: "nat option"

definition log_device_movement ::
  "time \<Rightarrow> nat \<Rightarrow> string option \<Rightarrow> string option \<Rightarrow> nat option \<Rightarrow> nat option \<Rightarrow> string \<Rightarrow> string
     \<Rightarrow> movement list \<Rightarrow> movement list \<times> movement"
where
  "log_device_movement now device old_ip new_ip old_loc new_loc detected_by reason logs =
     (let m = \<lparr>mv_pk = next_pk mv_pk logs, mv_device = device, mv_old_ip = old_ip,
          mv_new_ip = new_ip, mv_old_location = old_loc, mv_new_location = new_loc,
          mv_detected_at = now, mv_detected_by = detected_by, mv_reason = reason,
          mv_acknowledged = False, mv_acknowledged_at = None, mv_acknowledged_by = None\<rparr>
      in (logs @ [m], m))"

text \<open>Both values present and different; an empty address is not a value.\<close>

definition changed_ip :: "string option \<Rightarrow> string option \<Rightarrow> bool" where
  "changed_ip a b = (a \<noteq> None \<and> a \<noteq> Some [] \<and> b \<noteq> None \<and> b \<noteq> Some [] \<and> a \<noteq> b)"

definition changed_location :: "nat option \<Rightarrow> nat option \<Rightarrow> bool" where
  "changed_location a b = (a \<noteq> None \<and> b \<noteq> None \<and> a \<noteq> b)"

definition movement_type :: "movement \<Rightarrow> string" where
  "movement_type m =
     (if changed_ip (mv_old_ip m) (mv_new_ip m)
      then (if changed_location (mv_old_location m) (mv_new_location m)
            then ''ip_and_location'' else ''ip_only'')
      else if changed_location (mv_old_location m) (mv_new_location m) then ''location_only''
      else ''unknown'')"

section \<open>Queue conflicts\<close>

record queue_conflict =
  qc_is_duplicate :: bool
  qc_is_ip_conflict :: bool
  qc_device :: "chassis option"
  qc_charger :: "charger option"
  qc_type :: "string option"

definition no_conflict :: queue_conflict where
  "no_conflict = \<lparr>qc_is_duplicate = False, qc_is_ip_conflict = False, qc_device = None,
     qc_charger = None, qc_type = None\<rparr>"

definition has_conflict :: "queue_conflict \<Rightarrow> bool" where
  "has_conflict c = (qc_is_duplicate c \<or> qc_is_ip_conflict c)"

definition ip_conflict_type :: "queue_entry \<Rightarrow> string \<Rightarrow> string" where
  "ip_conflict_type e existing_serial =
     (if dq_serial e \<noteq> [] \<and> existing_serial \<noteq> dq_serial e then ''ip_conflict''
      else ''metadata_update'')"

definition check_by_address :: "queue_entry \<Rightarrow> chassis list \<Rightarrow> charger list \<Rightarrow> queue_conflict" where
  "check_by_address e chs cgs =
     (case qs_first (\<lambda>r. ch_ip r = dq_ip e) chs of
        Some c \<Rightarrow> no_conflict\<lparr>qc_is_ip_conflict := True, qc_device := Some c,
                    qc_type := Some (ip_conflict_type e (ch_serial c))\<rparr>
      | None \<Rightarrow>
          (case qs_first (\<lambda>r. cg_ip r = Some (dq_ip e)) cgs of
             Some c \<Rightarrow> no_conflict\<lparr>qc_is_ip_conflict := True, qc_charger := Some c,
                         qc_type := Some (ip_conflict_type e (cg_serial c))\<rparr>
           | None \<Rightarrow> no_conflict))"

definition check :: "queue_entry \<Rightarrow> chassis list \<Rightarrow> charger list \<Rightarrow> queue_conflict" where
  "check e chs cgs =
     (if dq_serial e = [] then check_by_address e chs cgs
      else (case qs_first (\<lambda>r. ch_serial r = dq_serial e) chs of
          Some c \<Rightarrow> no_conflict\<lparr>qc_is_duplicate := True, qc_device := Some c,
              qc_type := Some (if ch_ip c \<noteq> dq_ip e then ''moved'' else ''duplicate'')\<rparr>
        | None \<Rightarrow>
            (case qs_first (\<lambda>r. cg_serial r = dq_serial e) cgs of
               Some c \<Rightarrow> no_conflict\<lparr>qc_is_duplicate := True, qc_charger := Some c,
                   qc_type := Some (if cg_ip c \<noteq> Some (dq_ip e) then ''moved'' else ''duplicate'')\<rparr>
             | None \<Rightarrow> check_by_address e chs cgs)))"

section \<open>Properties\<close>

definition owns_serial :: "queue_entry \<Rightarrow> chassis list \<Rightarrow> charger list \<Rightarrow> bool" where
  "owns_serial e chs cgs \<longleftrightarrow> dq_serial e \<noteq> [] \<and>
     ((\<exists>r \<in> set chs. ch_serial r = dq_serial e) \<or> (\<exists>r \<in> set cgs. cg_serial r = dq_serial e))"

definition owns_address :: "queue_entry \<Rightarrow> chassis list \<Rightarrow> charger list \<Rightarrow> bool" where
  "owns_address e chs cgs \<longleftrightarrow>
     (\<exists>r \<in> set chs. ch_ip r = dq_ip e) \<or> (\<exists>r \<in> set cgs. cg_ip r = Some (dq_ip e))"

text \<open>A staged entry is classified as a duplicate exactly when a chassis or charger has its
  serial number, and otherwise as an address conflict exactly when one has its address; a
  conflict always names exactly one owner and one conflict type, and the owner really carries
  the key that decided.\<close>

theorem queue_conflict_classification:
  "(qc_is_duplicate (check e chs cgs) \<longleftrightarrow> owns_serial e chs cgs)
   \<and> (qc_is_ip_conflict (check e chs cgs) \<longleftrightarrow> \<not> owns_serial e chs cgs \<and> owns_address e chs cgs)
   \<and> (has_conflict (check e chs cgs) \<longleftrightarrow> qc_type (check e chs cgs) \<noteq> None)
   \<and> (has_conflict (check e chs cgs) \<longleftrightarrow>
        (qc_device (check e chs cgs) = None) \<noteq> (qc_charger (check e chs cgs) = None))
   \<and> (case qc_device (check e chs cgs) of None \<Rightarrow> True | Some c \<Rightarrow>
        c \<in> set chs \<and> (if qc_is_duplicate (check e chs cgs) then ch_serial c = dq_serial e
                      else ch_ip c = dq_ip e))
   \<and> (case qc_charger (check e chs cgs) of None \<Rightarrow> True | Some c \<Rightarrow>
        c \<in> set cgs \<and> (if qc_is_duplicate (check e chs cgs) then cg_serial c = dq_serial e
                      else cg_ip c = Some (dq_ip e)))"
  unfolding check_def check_by_address_def owns_serial_def owns_address_def has_conflict_def no_conflict_def
  by (rule qs_first_cases[of "\<lambda>r. ch_serial r = dq_serial e" chs];
      rule qs_first_cases[of "\<lambda>r. cg_serial r = dq_serial e" cgs];
      rule qs_first_cases[of "\<lambda>r. ch_ip r = dq_ip e" chs];
      rule qs_first_cases[of "\<lambda>r. cg_ip r = Some (dq_ip e)" cgs];
      cases "dq_serial e = []"; simp; blast)

end
