(* ===== verification/Chassis_Persistence.thy ===== *)
theory Chassis_Persistence
  imports Chassis_Save Queue_Conflict
begin

text \<open>
  The create and update boundary of a chassis with the device quota of its organization
  (\<open>services/hardware/wireless_chassis_persistence_service.py\<close>).

  A \<open>WirelessChassisWrite\<close> is the list of the fields the caller set and a chassis carrying their
  values.  \<open>tenancy\<close> is what ownership is resolved with: whether the multitenancy app is
  installed, the locations and the organizations.  The row lock of the organization serialises
  quota checks; the functions below are what one holder computes.
\<close>

record organization =
  og_pk :: nat
  og_max_devices :: "nat option"

record tenancy =
  tn_installed :: bool
  tn_locations :: "location list"
  tn_organizations :: "organization list"

datatype persist_error =
    Chassis chassis_error
  | QuotaExceeded nat nat nat
  | NoManufacturer
  | NoIdentity

type_synonym chassis_write = "chassis_field list \<times> chassis"

definition chassis_result :: "chassis_error + 'a \<Rightarrow> persist_error + 'a" where
  "chassis_result m = (case m of Inl e \<Rightarrow> Inl (Chassis e) | Inr x \<Rightarrow> Inr x)"

section \<open>Ownership and quota\<close>

definition location_organization :: "tenancy \<Rightarrow> nat option \<Rightarrow> nat option" where
  "location_organization tn loc =
     (case loc of None \<Rightarrow> None
      | Some l \<Rightarrow> (case qs_first (\<lambda>x. lo_pk x = l) (tn_locations tn) of None \<Rightarrow> None
          | Some x \<Rightarrow> (case lo_building x of None \<Rightarrow> None | Some b \<Rightarrow> bd_organization b)))"

definition organization_id_for_values :: "tenancy \<Rightarrow> chassis_write \<Rightarrow> nat option" where
  "organization_id_for_values tn w =
     (if \<not> tn_installed tn then None
      else if FLocation \<notin> set (fst w) then None
      else location_organization tn (ch_location (snd w)))"

definition locked_organization :: "tenancy \<Rightarrow> chassis_write \<Rightarrow> organization option" where
  "locked_organization tn w =
     (case organization_id_for_values tn w of None \<Rightarrow> None
      | Some oid \<Rightarrow> qs_first (\<lambda>g. og_pk g = oid) (tn_organizations tn))"

definition organization_devices :: "tenancy \<Rightarrow> nat \<Rightarrow> chassis list \<Rightarrow> nat" where
  "organization_devices tn oid rows =
     length (filter (\<lambda>c. location_organization tn (ch_location c) = Some oid) rows)"

definition enforce_create_quota ::
  "tenancy \<Rightarrow> organization option \<Rightarrow> chassis list \<Rightarrow> persist_error + unit"
where
  "enforce_create_quota tn org rows =
     (case org of None \<Rightarrow> Inr ()
      | Some g \<Rightarrow> (case og_max_devices g of None \<Rightarrow> Inr ()
          | Some m \<Rightarrow>
              (let current = organization_devices tn (og_pk g) rows
               in if current + 1 \<le> m then Inr () else Inl (QuotaExceeded (og_pk g) m current))))"

definition persisted_organization_id :: "tenancy \<Rightarrow> nat option \<Rightarrow> chassis list \<Rightarrow> nat option" where
  "persisted_organization_id tn pk rows =
     (if pk = None \<or> \<not> tn_installed tn then None
      else (case qs_first (\<lambda>c. Some (ch_pk c) = pk) rows of None \<Rightarrow> None
        | Some c \<Rightarrow> location_organization tn (ch_location c)))"

definition check_transfer_quota ::
  "tenancy \<Rightarrow> organization option \<Rightarrow> nat option \<Rightarrow> chassis list \<Rightarrow> persist_error + unit"
where
  "check_transfer_quota tn org current rows =
     (case org of None \<Rightarrow> Inr ()
      | Some g \<Rightarrow> if current \<noteq> Some (og_pk g) then enforce_create_quota tn org rows else Inr ())"

definition validate_location_quota ::
  "tenancy \<Rightarrow> nat option \<Rightarrow> chassis \<Rightarrow> chassis list \<Rightarrow> persist_error + unit"
where
  "validate_location_quota tn chassis_id candidate rows =
     check_transfer_quota tn (locked_organization tn ([FLocation], candidate))
       (persisted_organization_id tn chassis_id rows) rows"

section \<open>Create, update, upsert\<close>

text \<open>A new instance: the defaults of the model fields.\<close>

definition blank_chassis :: chassis where
  "blank_chassis = (sample_chassis 0 0 [] None [] [] ''discovered'')\<lparr>ch_role := []\<rparr>"

definition create ::
  "save_env \<Rightarrow> tenancy \<Rightarrow> time \<Rightarrow> nat option \<Rightarrow> chassis_write \<Rightarrow> inventory
     \<Rightarrow> persist_error + chassis \<times> inventory"
where
  "create env tn now manufacturer w db =
     (let selected = (case manufacturer of Some m \<Rightarrow> Some m
            | None \<Rightarrow> if FManufacturer \<in> set (fst w) then Some (ch_manufacturer (snd w)) else None);
          has = (\<lambda>f v. f \<in> set (fst w) \<and> v \<noteq> [])
      in case selected of None \<Rightarrow> Inl NoManufacturer
         | Some mfr \<Rightarrow>
             if \<not> has FApiId (ch_api_id (snd w)) \<or> \<not> has FIp (ch_ip (snd w)) then Inl NoIdentity
             else bindE (enforce_create_quota tn (locked_organization tn w) (iv_chassis db)) (\<lambda>_.
               chassis_result (create_chassis env now
                 ((copy_fields (filter (\<lambda>f. f \<noteq> FManufacturer) (fst w)) (snd w) blank_chassis)
                    \<lparr>ch_manufacturer := mfr\<rparr>) db)))"

definition update ::
  "save_env \<Rightarrow> tenancy \<Rightarrow> time \<Rightarrow> chassis \<Rightarrow> chassis_write \<Rightarrow> bool \<Rightarrow> inventory
     \<Rightarrow> persist_error + chassis \<times> inventory"
where
  "update env tn now chassis w save_all db =
     (if fst w = [] then Inr (chassis, db)
      else
        (let persist = chassis_result (save_chassis env now (if save_all then None else Some (fst w))
               (copy_fields (fst w) (snd w) chassis) db)
         in if FLocation \<notin> set (fst w) then persist
            else bindE (check_transfer_quota tn (locked_organization tn w)
                    (persisted_organization_id tn (Some (ch_pk chassis)) (iv_chassis db)) (iv_chassis db))
                  (\<lambda>_. persist)))"

text \<open>\<open>update_or_create\<close> on the manufacturer-scoped identifier.\<close>

definition upsert ::
  "save_env \<Rightarrow> tenancy \<Rightarrow> time \<Rightarrow> nat \<Rightarrow> string \<Rightarrow> chassis_write \<Rightarrow> chassis_write option \<Rightarrow> inventory
     \<Rightarrow> persist_error + (chassis \<times> bool) \<times> inventory"
where
  "upsert env tn now mfr api_id defaults create_defaults db =
     (if api_id = [] then Inl NoIdentity
      else
        (let strip_identity = (\<lambda>w::chassis_write. (filter (\<lambda>f. f \<noteq> FManufacturer \<and> f \<noteq> FApiId) (fst w), snd w));
             update_values = strip_identity defaults;
             created_values = strip_identity (case create_defaults of Some w \<Rightarrow> w | None \<Rightarrow> defaults);
             same = (\<lambda>r. ch_api_id r = api_id \<and> ch_manufacturer r = mfr);
             org = locked_organization tn created_values;
             current = (case qs_first same (iv_chassis db) of None \<Rightarrow> None
               | Some r \<Rightarrow> location_organization tn (ch_location r))
         in bindE (check_transfer_quota tn org current (iv_chassis db)) (\<lambda>_.
            case qs_first same (iv_chassis db) of
              Some r \<Rightarrow>
                (if fst update_values = [] then Inr ((r, False), db)
                 else bindE (chassis_result (save_chassis env now (Some (fst update_values))
                        (copy_fields (fst update_values) (snd update_values) r) db))
                      (\<lambda>(c, db'). Inr ((c, False), db')))
            | None \<Rightarrow>
                bindE (chassis_result (create_chassis env now
                   ((copy_fields (fst created_values) (snd created_values) blank_chassis)
                      \<lparr>ch_manufacturer := mfr, ch_api_id := api_id\<rparr>) db))
                 (\<lambda>(c, db'). Inr ((c, True), db')))))"

section \<open>Normalised payloads\<close>

definition role_for_device_type :: "string \<Rightarrow> string" where
  "role_for_device_type device_type =
     (let n = lower device_type in
      if contains ''transmitter'' n then ''transmitter''
      else if contains ''transceiver'' n then ''transceiver''
      else ''receiver'')"

definition create_from_normalized ::
  "save_env \<Rightarrow> tenancy \<Rightarrow> time \<Rightarrow> nat \<Rightarrow> normalized \<Rightarrow> string option \<Rightarrow> inventory
     \<Rightarrow> persist_error + chassis \<times> inventory"
where
  "create_from_normalized env tn now mfr p initial_status db =
     (let src = blank_chassis\<lparr>ch_api_id := nh_api_id p, ch_serial := nh_serial p,
            ch_mac := canonicalize_mac_address (Some (nh_mac p)), ch_ip := nh_ip p, ch_name := nh_name p,
            ch_model := nh_model p, ch_role := role_for_device_type (nh_device_type p),
            ch_firmware := nh_firmware p, ch_hosted_firmware := nh_hosted_firmware p,
            ch_description := nh_description p, ch_subnet := nh_subnet p, ch_gateway := nh_gateway p,
            ch_network_mode := nh_network_mode p, ch_interface_id := nh_interface_id p,
            ch_last_seen := Some now\<rparr>;
          fs = [FApiId, FSerial, FMac, FIp, FName, FModel, FRole, FFirmware, FHostedFirmware,
                FDescription, FSubnet, FGateway, FNetworkMode, FInterfaceId, FLastSeen]
      in create env tn now (Some mfr)
           (case initial_status of None \<Rightarrow> (fs, src)
            | Some s \<Rightarrow> (fs @ [FStatus], src\<lparr>ch_status := s\<rparr>)) db)"

definition nonempty_or :: "string \<Rightarrow> string \<Rightarrow> string" where
  "nonempty_or a b = (if a \<noteq> [] then a else b)"

definition present_or :: "string option \<Rightarrow> string option \<Rightarrow> string option" where
  "present_or a b = (if a \<noteq> None \<and> a \<noteq> Some [] then a else b)"

definition update_values :: "time \<Rightarrow> chassis \<Rightarrow> normalized \<Rightarrow> bool \<Rightarrow> chassis_write" where
  "update_values now c p set_ip =
     (let incoming_mac = canonicalize_mac_address (Some (nh_mac p));
          new_mac = (incoming_mac \<noteq> None \<and> incoming_mac = canonicalize_mac_address (ch_mac c)
                     \<and> ch_mac c \<noteq> incoming_mac);
          src = c\<lparr>ch_ip := (if set_ip then nh_ip p else ch_ip c),
            ch_name := nonempty_or (nh_name p) (ch_name c),
            ch_model := nonempty_or (nh_model p) (ch_model c),
            ch_role := (if nh_device_type p \<noteq> [] then role_for_device_type (nh_device_type p) else ch_role c),
            ch_firmware := nonempty_or (nh_firmware p) (ch_firmware c),
            ch_hosted_firmware := nonempty_or (nh_hosted_firmware p) (ch_hosted_firmware c),
            ch_description := nonempty_or (nh_description p) (ch_description c),
            ch_subnet := present_or (nh_subnet p) (ch_subnet c),
            ch_gateway := present_or (nh_gateway p) (ch_gateway c),
            ch_network_mode := nonempty_or (nh_network_mode p) (ch_network_mode c),
            ch_interface_id := nonempty_or (nh_interface_id p) (ch_interface_id c),
            ch_last_seen := Some now,
            ch_mac := (if new_mac then incoming_mac else ch_mac c)\<rparr>
      in ((if set_ip then [FIp] else []) @
          [FName, FModel, FRole, FFirmware, FHostedFirmware, FDescription, FSubnet, FGateway,
           FNetworkMode, FInterfaceId, FLastSeen] @ (if new_mac then [FMac] else []), src))"

definition update_from_normalized ::
  "save_env \<Rightarrow> tenancy \<Rightarrow> time \<Rightarrow> chassis \<Rightarrow> normalized \<Rightarrow> bool \<Rightarrow> inventory
     \<Rightarrow> persist_error + chassis \<times> inventory"
where
  "update_from_normalized env tn now c p set_ip db =
     update env tn now c (update_values now c p set_ip) False db"

section \<open>Quotas\<close>

definition quota_ok :: "tenancy \<Rightarrow> chassis list \<Rightarrow> bool" where
  "quota_ok tn rows \<longleftrightarrow> (\<forall>g \<in> set (tn_organizations tn). \<forall>m. og_max_devices g = Some m \<longrightarrow>
     organization_devices tn (og_pk g) rows \<le> m)"

lemma length_filter_put_row:
  assumes "distinct (map ch_pk rows)" "prev \<in> set rows" "ch_pk row = ch_pk prev"
  shows "length (filter P (put_row ch_pk row rows)) + (if P prev then 1 else 0)
    = length (filter P rows) + (if P row then 1 else 0)"
  using assms
proof (induction rows)
  case Nil
  then show ?case by simp
next
  case (Cons a rows)
  have hd: "put_row ch_pk row (a # rows) = (if ch_pk a = ch_pk row then row else a) # put_row ch_pk row rows"
    by (simp add: put_row_def)
  show ?case
  proof (cases "a = prev")
    case True
    with Cons.prems have "put_row ch_pk row rows = rows"
      by (auto simp: put_row_def image_iff intro!: map_idI)
    with True Cons.prems(3) show ?thesis unfolding hd by simp
  next
    case False
    with Cons.prems have "prev \<in> set rows" "ch_pk a \<noteq> ch_pk row" by (auto simp: image_iff)
    with Cons show ?thesis unfolding hd by simp
  qed
qed

lemma create_chassis_rows:
  assumes "create_chassis env now c0 db = Inr (c, db')"
  shows "\<exists>row. iv_chassis db' = iv_chassis db @ [row] \<and> ch_location row = ch_location c0
    \<and> ch_manufacturer row = ch_manufacturer c0 \<and> ch_api_id row = ch_api_id c0
    \<and> ch_serial row = ch_serial c0 \<and> ch_mac row = ch_mac c0
    \<and> ch_ip row = ip_key' env (ch_ip c0) \<and> ch_status row = ch_status c0
    \<and> ch_pk row = next_pk ch_pk (iv_chassis db) \<and> ch_pk c = ch_pk row
    \<and> \<not> integrity_violation row (iv_chassis db) \<and> iv_chargers db' = iv_chargers db
    \<and> validate_chassis_ip c0 db = Inr ()"
proof -
  from assms obtain old derived affected c1 where
    pre: "pre_save env now True None c0 db = Inr (old, derived, affected, c1)"
    and c: "c = c1\<lparr>ch_pk := next_pk ch_pk (iv_chassis db)\<rparr>"
    and u: "\<not> integrity_violation (stored_form env c) (iv_chassis db)"
    and db': "db' = post_save now old affected c (stored_form env c)
       (db\<lparr>iv_chassis := iv_chassis db @ [stored_form env c]\<rparr>)" by (rule create_chassisE)
  from pre obtain c2 where v: "validate_chassis_ip c0 db = Inr ()"
    and l: "prepare_lifecycle_fields now True (iv_chassis db) c0 = Inr (old, derived, c2)"
    and core: "keeps_core c2 c1" by (rule pre_saveE)
  show ?thesis
    using prepare_lifecycle_frame[OF l] core u v
    by (intro exI[of _ "stored_form env c"]) (auto simp: db' c keeps_core_def)
qed

lemma save_chassis_rows:
  assumes "save_chassis env now (Some fs) c0 db = Inr (c, db')"
  shows "\<exists>row prev. iv_chassis db' = put_row ch_pk row (iv_chassis db) \<and> prev \<in> set (iv_chassis db)
    \<and> qs_get (\<lambda>r. ch_pk r = ch_pk c0) (iv_chassis db) = Inr prev
    \<and> ch_pk row = ch_pk c0 \<and> ch_pk prev = ch_pk c0 \<and> ch_pk c = ch_pk c0
    \<and> ch_location row = (if FLocation \<in> set fs then ch_location c0 else ch_location prev)
    \<and> ch_manufacturer row = (if FManufacturer \<in> set fs then ch_manufacturer c0 else ch_manufacturer prev)
    \<and> ch_status row = (if FStatus \<in> set fs then ch_status c0 else ch_status prev)
    \<and> ch_ip c = ch_ip c0 \<and> ch_status c = ch_status c0 \<and> ch_manufacturer c = ch_manufacturer c0"
proof -
  from assms obtain old derived affected prev where
    pre: "pre_save env now False (Some fs) c0 db = Inr (old, derived, affected, c)"
    and prev: "qs_get (\<lambda>r. ch_pk r = ch_pk c) (iv_chassis db) = Inr prev"
    and db': "db' = post_save now old affected c (written_row env (Some fs) derived c prev)
       (db\<lparr>iv_chassis := put_row ch_pk (written_row env (Some fs) derived c prev) (iv_chassis db)\<rparr>)"
    by (rule save_chassisE)
  from pre obtain c2 where
    l: "prepare_lifecycle_fields now False (iv_chassis db) c0 = Inr (old, derived, c2)"
    and core: "keeps_core c2 c" by (rule pre_saveE)
  note F = prepare_lifecycle_frame[OF l]
  have pk: "ch_pk c = ch_pk c0" using F core by (simp add: keeps_core_def)
  have "prev \<in> set (iv_chassis db)" "ch_pk prev = ch_pk c" using qs_get_row[OF prev] by simp_all
  then show ?thesis
    using F core pk prev
    by (intro exI[of _ "written_row env (Some fs) derived c prev"] exI[of _ prev])
       (auto simp: db' written_row_def keeps_core_def)
qed

lemma organization_found:
  assumes "distinct (map og_pk (tn_organizations tn))" "g \<in> set (tn_organizations tn)"
  shows "qs_first (\<lambda>x. og_pk x = og_pk g) (tn_organizations tn) = Some g"
  using filter_by_key[OF assms] by (simp add: qs_first_def)

lemma locked_found:
  assumes "distinct (map og_pk (tn_organizations tn))" "g \<in> set (tn_organizations tn)"
    "tn_installed tn" "FLocation \<in> set (fst w)" "location_organization tn (ch_location (snd w)) = Some (og_pk g)"
  shows "locked_organization tn w = Some g"
  using assms by (simp add: locked_organization_def organization_id_for_values_def organization_found)

lemma location_organization_None [simp]: "location_organization tn None = None"
  by (simp add: location_organization_def)

lemma create_quota:
  assumes ok: "quota_ok tn (iv_chassis db)" and orgs: "distinct (map og_pk (tn_organizations tn))" "tn_installed tn"
    and cr: "create env tn now mfr w db = Inr (c, db')"
  shows "quota_ok tn (iv_chassis db')"
  unfolding quota_ok_def
proof (intro ballI allI impI)
  fix g m assume g: "g \<in> set (tn_organizations tn)" "og_max_devices g = Some m"
  from cr obtain mf where
    q: "enforce_create_quota tn (locked_organization tn w) (iv_chassis db) = Inr ()"
    and s: "create_chassis env now ((copy_fields (filter (\<lambda>f. f \<noteq> FManufacturer) (fst w)) (snd w) blank_chassis)
        \<lparr>ch_manufacturer := mf\<rparr>) db = Inr (c, db')"
    by (auto simp: create_def result_simps chassis_result_def Let_def split: option.splits if_splits sum.splits)
  from create_chassis_rows[OF s] obtain row where row: "iv_chassis db' = iv_chassis db @ [row]"
    and loc: "ch_location row = (if FLocation \<in> set (fst w) then ch_location (snd w) else None)"
    by (auto simp: blank_chassis_def sample_chassis_def)
  show "organization_devices tn (og_pk g) (iv_chassis db') \<le> m"
  proof (cases "location_organization tn (ch_location row) = Some (og_pk g)")
    case True
    then have "FLocation \<in> set (fst w)" "location_organization tn (ch_location (snd w)) = Some (og_pk g)"
      by (auto simp: loc split: if_splits)
    with g orgs have "locked_organization tn w = Some g" by (intro locked_found) auto
    with q g True show ?thesis
      by (auto simp: enforce_create_quota_def organization_devices_def row Let_def split: if_splits)
  next
    case False
    with ok g show ?thesis by (auto simp: quota_ok_def organization_devices_def row)
  qed
qed

lemma update_quota:
  assumes ok: "quota_ok tn (iv_chassis db)" and orgs: "distinct (map og_pk (tn_organizations tn))" "tn_installed tn"
    and pks: "distinct (map ch_pk (iv_chassis db))"
    and up: "update env tn now chassis w False db = Inr (c, db')"
  shows "quota_ok tn (iv_chassis db')"
proof (cases "fst w = []")
  case True
  with up ok show ?thesis by (simp add: update_def)
next
  case False
  let ?c0 = "copy_fields (fst w) (snd w) chassis"
  from up False have s: "save_chassis env now (Some (fst w)) ?c0 db = Inr (c, db')"
    by (auto simp: update_def result_simps chassis_result_def Let_def split: if_splits sum.splits)
  from save_chassis_rows[OF s] obtain row prev where
    row: "iv_chassis db' = put_row ch_pk row (iv_chassis db)" "prev \<in> set (iv_chassis db)"
      "ch_pk row = ch_pk prev" "ch_pk prev = ch_pk chassis"
    and loc: "ch_location row = (if FLocation \<in> set (fst w) then ch_location (snd w) else ch_location prev)"
    by (auto split: if_splits)
  show ?thesis
    unfolding quota_ok_def
  proof (intro ballI allI impI)
    fix g m assume g: "g \<in> set (tn_organizations tn)" "og_max_devices g = Some m"
    let ?in = "\<lambda>r. location_organization tn (ch_location r) = Some (og_pk g)"
    note cnt = length_filter_put_row[OF pks row(2,3), of ?in]
    have old: "organization_devices tn (og_pk g) (iv_chassis db) \<le> m" using ok g by (auto simp: quota_ok_def)
    show "organization_devices tn (og_pk g) (iv_chassis db') \<le> m"
    proof (cases "?in row \<and> \<not> ?in prev")
      case True
      then have fl: "FLocation \<in> set (fst w)" "location_organization tn (ch_location (snd w)) = Some (og_pk g)"
        by (auto simp: loc split: if_splits)
      with g orgs have lk: "locked_organization tn w = Some g" by (intro locked_found) auto
      have "qs_first (\<lambda>x. ch_pk x = ch_pk chassis) (iv_chassis db) = Some prev"
        using filter_by_key[OF pks row(2)] row(4) by (simp add: qs_first_def)
      then have "persisted_organization_id tn (Some (ch_pk chassis)) (iv_chassis db)
          = location_organization tn (ch_location prev)"
        using orgs by (simp add: persisted_organization_id_def)
      with up False fl lk True have "enforce_create_quota tn (Some g) (iv_chassis db) = Inr ()"
        by (auto simp: update_def check_transfer_quota_def result_simps Let_def)
      with g cnt True show ?thesis
        by (auto simp: enforce_create_quota_def organization_devices_def row(1) Let_def split: if_splits)
    next
      case F: False
      with cnt old show ?thesis by (auto simp: organization_devices_def row(1) split: if_splits)
    qed
  qed
qed

text \<open>C4: no organization gets more chassis than its quota: creating a chassis and updating named
  fields of one (a move to another location included) keep every finite quota.\<close>

theorem quotas_respected:
  assumes "quota_ok tn (iv_chassis db)" "distinct (map og_pk (tn_organizations tn))" "tn_installed tn"
    and "distinct (map ch_pk (iv_chassis db))"
    and "create env tn now mfr w db = Inr (c, db') \<or> update env tn now chassis w False db = Inr (c, db')"
  shows "quota_ok tn (iv_chassis db')"
  using assms create_quota update_quota by blast

theorem quotas_respected_witness:
  "let tn = \<lparr>tn_installed = True,
             tn_locations = [\<lparr>lo_pk = 3, lo_building = Some \<lparr>bd_domain = None, bd_country = [], bd_organization = Some 5\<rparr>\<rparr>],
             tn_organizations = [\<lparr>og_pk = 5, og_max_devices = Some 1\<rparr>]\<rparr>;
       w = ([FApiId, FIp, FLocation], blank_chassis\<lparr>ch_api_id := ''a1'', ch_ip := ''10.0.0.1'', ch_location := Some 3\<rparr>)
   in \<exists>c db'. create sample_env tn 5 (Some 7) w (sample_inventory [] []) = Inr (c, db')
        \<and> quota_ok tn (iv_chassis db')"
proof -
  let ?tn = "\<lparr>tn_installed = True,
             tn_locations = [\<lparr>lo_pk = 3, lo_building = Some \<lparr>bd_domain = None, bd_country = [], bd_organization = Some 5\<rparr>\<rparr>],
             tn_organizations = [\<lparr>og_pk = 5, og_max_devices = Some 1\<rparr>]\<rparr>"
  let ?w = "([FApiId, FIp, FLocation], blank_chassis\<lparr>ch_api_id := ''a1'', ch_ip := ''10.0.0.1'', ch_location := Some 3\<rparr>)"
  have "\<not> isl (create sample_env ?tn 5 (Some 7) ?w (sample_inventory [] []))" by code_simp
  then obtain c db' where 1: "create sample_env ?tn 5 (Some 7) ?w (sample_inventory [] []) = Inr (c, db')"
    by (metis sum.collapse(2) surj_pair)
  have "quota_ok ?tn (iv_chassis (sample_inventory [] []))"
    by (simp add: quota_ok_def organization_devices_def sample_inventory_def)
  with quotas_respected[of ?tn "sample_inventory [] []" sample_env 5 "Some 7" ?w c db' blank_chassis] 1
  show ?thesis unfolding Let_def by (auto simp: sample_inventory_def)
qed

text \<open>Creation, too, keeps one owner per address.\<close>

lemma create_keeps_addresses:
  assumes ok: "addresses_ok db" and cr: "create_chassis env now c0 db = Inr (c, db')"
    and spell: "stored_spelling_agrees env (ch_ip c0)" "ch_ip c0 \<noteq> []"
  shows "addresses_ok db'"
proof -
  from create_chassis_rows[OF cr] obtain row where
    row: "iv_chassis db' = iv_chassis db @ [row]" "ch_ip row = ip_key' env (ch_ip c0)"
      "ch_pk row = next_pk ch_pk (iv_chassis db)" "\<not> integrity_violation row (iv_chassis db)"
      "iv_chargers db' = iv_chargers db" "validate_chassis_ip c0 db = Inr ()" by blast
  have "ch_pk row \<notin> ch_pk ` set (iv_chassis db)" unfolding row(3) by (rule next_pk_notin)
  then have pk: "\<forall>r \<in> set (iv_chassis db). ch_pk r \<noteq> ch_pk row" by (metis imageI)
  with row(4) have u: "\<forall>r \<in> set (iv_chassis db). ch_ip r \<noteq> ch_ip row \<and>
      \<not> (ch_manufacturer r = ch_manufacturer row \<and> ch_api_id r = ch_api_id row)"
    by (auto simp: integrity_violation_def list_ex_iff)
  have "\<forall>g \<in> set (iv_chargers db). cg_ip g \<noteq> Some (ch_ip row)"
    using validated_address_free[OF row(6) spell] row(2) by simp
  with ok pk u show ?thesis by (auto simp: addresses_ok_def row(1,5))
qed

end
