(* ===== verification/Workload_Limits.thy ===== *)
theory Workload_Limits
  imports Ip_Address Models
begin

text \<open>
  Workload ceilings: how host settings become bounded limits (\<open>services/sync/polling_dtos.py\<close>,
  \<open>services/monitoring/alert_fanout_dtos.py\<close>, \<open>services/chargers/polling_service.py\<close>,
  \<open>services/common/network_limits.py\<close>, \<open>services/realtime/subscription_supervisor.py\<close>,
  \<open>discovery/limits.py\<close>), the bounded prefix of a vendor inventory and the counters of one
  alert run.

  The host settings are a map from names to JSON-like values; an absent name yields the default.
  Floating-point values are rationals, so the infinities, on which \<open>int\<close> raises
  \<open>OverflowError\<close>, are not values of the model.
\<close>

type_synonym host_settings = "string \<rightharpoonup> json"

section \<open>Reading a setting\<close>

text \<open>\<open>int(text)\<close>: surrounding space, one sign, and groups of digits separated by single
  underscores; the interpreter refuses more than 4300 digits.\<close>

definition max_int_digits :: nat where "max_int_digits = 4300"

definition unsigned_of_text :: "string \<Rightarrow> int option" where
  "unsigned_of_text s =
     (let groups = split_on CHR ''_'' s; digits = concat groups
      in if list_all (\<lambda>g. g \<noteq> [] \<and> list_all dec_digit g) groups \<and> length digits \<le> max_int_digits
         then Some (int (text_val 10 digits)) else None)"

definition int_of_text :: "string \<Rightarrow> int option" where
  "int_of_text s =
     (case strip s of
        [] \<Rightarrow> None
      | c # cs \<Rightarrow> if c = CHR ''-'' then map_option uminus (unsigned_of_text cs)
                  else if c = CHR ''+'' then unsigned_of_text cs
                  else unsigned_of_text (c # cs))"

text \<open>\<open>int(number)\<close> drops the fraction.\<close>

definition truncate_rat :: "rat \<Rightarrow> int" where
  "truncate_rat q = (if q < 0 then - \<lfloor>- q\<rfloor> else \<lfloor>q\<rfloor>)"

text \<open>\<open>int(raw_value)\<close> with \<open>TypeError\<close> and \<open>ValueError\<close> as None.  A Boolean never reaches it.\<close>

fun int_of_json :: "json \<Rightarrow> int option" where
  "int_of_json (JInt n) = Some n"
| "int_of_json (JNum q) = Some (truncate_rat q)"
| "int_of_json (JStr s) = int_of_text s"
| "int_of_json _ = None"

fun is_bool :: "json \<Rightarrow> bool" where
  "is_bool (JBool _) = True"
| "is_bool _ = False"

text \<open>The two parsers: polling, alerts, chargers and realtime clamp into the range, the network
  limits reject what is not positive.\<close>

definition bounded_positive_setting :: "host_settings \<Rightarrow> string \<Rightarrow> int \<Rightarrow> int \<Rightarrow> int" where
  "bounded_positive_setting st name dflt hard_limit =
     (let raw = (case st name of None \<Rightarrow> JInt dflt | Some v \<Rightarrow> v)
      in if is_bool raw then dflt
         else case int_of_json raw of None \<Rightarrow> dflt | Some n \<Rightarrow> min (max n 1) hard_limit)"

definition bounded_positive_int_setting :: "host_settings \<Rightarrow> string \<Rightarrow> int \<Rightarrow> int \<Rightarrow> int" where
  "bounded_positive_int_setting st name dflt hard_limit =
     (let raw = (case st name of None \<Rightarrow> JInt dflt | Some v \<Rightarrow> v)
      in if is_bool raw then dflt
         else case int_of_json raw of None \<Rightarrow> dflt
           | Some n \<Rightarrow> if n \<le> 0 then dflt else min n hard_limit)"

text \<open>What every limit relies on: a default inside the range gives a value inside the range, and
  a setting inside the range is taken as it is.\<close>

locale bounded_setting =
  fixes read :: "host_settings \<Rightarrow> string \<Rightarrow> int \<Rightarrow> int \<Rightarrow> int"
  assumes range: "1 \<le> d \<Longrightarrow> d \<le> h \<Longrightarrow> 1 \<le> read st nm d h \<and> read st nm d h \<le> h"
    and taken: "st nm = Some v \<Longrightarrow> \<not> is_bool v \<Longrightarrow> int_of_json v = Some n \<Longrightarrow> 1 \<le> n \<Longrightarrow> n \<le> h
      \<Longrightarrow> read st nm d h = n"
    and absent: "st nm = None \<Longrightarrow> 1 \<le> d \<Longrightarrow> d \<le> h \<Longrightarrow> read st nm d h = d"
begin

lemma positive: "1 \<le> d \<Longrightarrow> d \<le> h \<Longrightarrow> 0 < nat (read st nm d h)"
  using range[of d h st nm] by simp

lemma ceiling: "1 \<le> d \<Longrightarrow> d \<le> h \<Longrightarrow> nat (read st nm d h) \<le> nat h"
  using range[of d h st nm] by (auto intro: nat_mono)

lemma nonneg: "1 \<le> d \<Longrightarrow> d \<le> h \<Longrightarrow> 0 \<le> read st nm d h"
  using range[of d h st nm] by simp

end

interpretation clamped: bounded_setting bounded_positive_setting
  by unfold_locales
    (auto simp: bounded_positive_setting_def Let_def split: option.splits)

interpretation rejecting: bounded_setting bounded_positive_int_setting
  by unfold_locales
    (auto simp: bounded_positive_int_setting_def Let_def split: option.splits)

section \<open>The limits\<close>

definition default_max_poll_devices :: int where "default_max_poll_devices = 500"
definition hard_max_poll_devices :: int where "hard_max_poll_devices = 5000"
definition default_broadcast_chunk_size :: int where "default_broadcast_chunk_size = 100"
definition hard_max_broadcast_chunk_size :: int where "hard_max_broadcast_chunk_size = 500"

record poll_limits =
  pl_max_devices :: int
  pl_broadcast_chunk_size :: int

definition poll_limits_from_settings :: "host_settings \<Rightarrow> poll_limits" where
  "poll_limits_from_settings st =
     \<lparr>pl_max_devices = bounded_positive_setting st ''MICBOARD_POLL_MAX_DEVICES''
        default_max_poll_devices hard_max_poll_devices,
      pl_broadcast_chunk_size = bounded_positive_setting st ''MICBOARD_POLL_BROADCAST_CHUNK_SIZE''
        default_broadcast_chunk_size hard_max_broadcast_chunk_size\<rparr>"

record charger_limits =
  cl_max_devices :: int
  cl_max_stations :: int
  cl_max_slots :: int

definition charger_limits_from_settings :: "host_settings \<Rightarrow> charger_limits" where
  "charger_limits_from_settings st =
     \<lparr>cl_max_devices = bounded_positive_setting st ''MICBOARD_CHARGER_MAX_DEVICES'' 100 500,
      cl_max_stations = bounded_positive_setting st ''MICBOARD_CHARGER_MAX_STATIONS'' 64 256,
      cl_max_slots = bounded_positive_setting st ''MICBOARD_CHARGER_MAX_SLOTS'' 32 128\<rparr>"

record sse_limits =
  sl_max_line_bytes :: int
  sl_max_event_bytes :: int

definition sse_limits_from_settings :: "host_settings \<Rightarrow> sse_limits" where
  "sse_limits_from_settings st =
     \<lparr>sl_max_line_bytes = bounded_positive_int_setting st ''MICBOARD_SSE_MAX_LINE_BYTES''
        (64 * 1024) (1024 * 1024),
      sl_max_event_bytes = bounded_positive_int_setting st ''MICBOARD_SSE_MAX_EVENT_BYTES''
        (64 * 1024) (1024 * 1024)\<rparr>"

definition max_discovery_candidates :: int where "max_discovery_candidates = 4096"

definition clamp_candidate_limit :: "int \<Rightarrow> int" where
  "clamp_candidate_limit requested = min max_discovery_candidates (max 0 requested)"

lemma clamp_candidate_limit_range [simp]:
  "0 \<le> clamp_candidate_limit n" "clamp_candidate_limit n \<le> max_discovery_candidates"
  by (simp_all add: clamp_candidate_limit_def max_discovery_candidates_def)

lemma clamp_candidate_limit_idem [simp]:
  "clamp_candidate_limit (clamp_candidate_limit n) = clamp_candidate_limit n"
  by (simp add: clamp_candidate_limit_def max_discovery_candidates_def)

section \<open>A bounded inventory\<close>

record 'a inventory_batch =
  ib_devices :: "'a list"
  ib_limit :: int

definition consume :: "'a list \<Rightarrow> int \<Rightarrow> 'a inventory_batch" where
  "consume devices device_limit =
     \<lparr>ib_devices = take (nat (device_limit + 1)) devices, ib_limit = device_limit\<rparr>"

definition inventory_complete :: "'a inventory_batch \<Rightarrow> bool" where
  "inventory_complete b \<longleftrightarrow> int (length (ib_devices b)) \<le> ib_limit b"

lemma inventory_complete_consume:
  "1 \<le> n \<Longrightarrow> inventory_complete (consume ds n) \<longleftrightarrow> int (length ds) \<le> n"
  by (auto simp: inventory_complete_def consume_def)

lemma consume_complete:
  assumes "1 \<le> n" "inventory_complete (consume ds n)"
  shows "ib_devices (consume ds n) = ds"
proof -
  from assms have "int (length ds) \<le> n" by (simp add: inventory_complete_consume)
  then show ?thesis by (simp add: consume_def)
qed

lemma consume_incomplete:
  "1 \<le> n \<Longrightarrow> \<not> inventory_complete (consume ds n) \<Longrightarrow> int (length (ib_devices (consume ds n))) = n + 1"
  by (auto simp: inventory_complete_def consume_def)

text \<open>Whatever the host configures, every limit lies between one and its hard ceiling; an
  absent setting gives the default, and an inventory is reported complete exactly when it fits
  the limit, in which case nothing of it is dropped.\<close>

theorem limits_bounded:
  "(let l = poll_limits_from_settings st; c = charger_limits_from_settings st;
        s = sse_limits_from_settings st in
    1 \<le> pl_max_devices l \<and> pl_max_devices l \<le> hard_max_poll_devices
    \<and> 1 \<le> pl_broadcast_chunk_size l \<and> pl_broadcast_chunk_size l \<le> hard_max_broadcast_chunk_size
    \<and> 1 \<le> cl_max_devices c \<and> cl_max_devices c \<le> 500
    \<and> 1 \<le> cl_max_stations c \<and> cl_max_stations c \<le> 256
    \<and> 1 \<le> cl_max_slots c \<and> cl_max_slots c \<le> 128
    \<and> 1 \<le> sl_max_line_bytes s \<and> sl_max_line_bytes s \<le> 1048576
    \<and> 1 \<le> sl_max_event_bytes s \<and> sl_max_event_bytes s \<le> 1048576
    \<and> (inventory_complete (consume ds (pl_max_devices l)) = (int (length ds) \<le> pl_max_devices l))
    \<and> length (ib_devices (consume ds (pl_max_devices l))) \<le> nat hard_max_poll_devices + 1
    \<and> (ib_devices (consume ds (pl_max_devices l)) = ds) = (int (length ds) \<le> pl_max_devices l + 1))
   \<and> pl_max_devices (poll_limits_from_settings Map.empty) = 500"
proof -
  let ?n = "pl_max_devices (poll_limits_from_settings st)"
  note r = clamped.range[of default_max_poll_devices hard_max_poll_devices st]
    clamped.range[of default_broadcast_chunk_size hard_max_broadcast_chunk_size st]
    clamped.range[of 100 500 st] clamped.range[of 64 256 st] clamped.range[of 32 128 st]
    rejecting.range[of "64 * 1024" "1024 * 1024" st]
  note defs = poll_limits_from_settings_def charger_limits_from_settings_def
    sse_limits_from_settings_def default_max_poll_devices_def hard_max_poll_devices_def
    default_broadcast_chunk_size_def hard_max_broadcast_chunk_size_def
  have n: "1 \<le> ?n" "?n \<le> hard_max_poll_devices"
    using r(1) by (simp_all add: defs)
  have len: "length (ib_devices (consume ds ?n)) \<le> nat hard_max_poll_devices + 1"
    using n by (simp add: consume_def min_def) arith
  have same: "(ib_devices (consume ds ?n) = ds) = (int (length ds) \<le> ?n + 1)"
    using n by (auto simp: consume_def nat_le_iff take_all_iff le_nat_iff)
  show ?thesis
    using n len same r inventory_complete_consume[OF n(1), of ds]
    by (simp add: Let_def defs clamped.absent)
qed

section \<open>The budget of one alert run\<close>

record alert_budget =
  ab_assignment_limit :: int
  ab_recipient_limit :: int
  ab_delivery_limit :: int
  ab_assignments :: int
  ab_recipients :: int
  ab_deliveries :: int
  ab_assignments_truncated :: bool
  ab_recipients_truncated :: bool
  ab_deliveries_truncated :: bool

definition budget_from_settings :: "host_settings \<Rightarrow> alert_budget" where
  "budget_from_settings st =
     \<lparr>ab_assignment_limit = bounded_positive_setting st ''MICBOARD_POLL_ALERT_MAX_ASSIGNMENTS'' 100 500,
      ab_recipient_limit = bounded_positive_setting st ''MICBOARD_POLL_ALERT_MAX_RECIPIENTS'' 250 1000,
      ab_delivery_limit = bounded_positive_setting st ''MICBOARD_POLL_ALERT_MAX_DELIVERIES'' 250 1000,
      ab_assignments = 0, ab_recipients = 0, ab_deliveries = 0,
      ab_assignments_truncated = False, ab_recipients_truncated = False,
      ab_deliveries_truncated = False\<rparr>"

definition remaining_assignments :: "alert_budget \<Rightarrow> int" where
  "remaining_assignments b = ab_assignment_limit b - ab_assignments b"

definition remaining_recipients :: "alert_budget \<Rightarrow> int" where
  "remaining_recipients b = ab_recipient_limit b - ab_recipients b"

definition remaining_deliveries :: "alert_budget \<Rightarrow> int" where
  "remaining_deliveries b = ab_delivery_limit b - ab_deliveries b"

definition truncated :: "alert_budget \<Rightarrow> bool" where
  "truncated b \<longleftrightarrow> ab_assignments_truncated b \<or> ab_recipients_truncated b \<or> ab_deliveries_truncated b"

definition exhausted :: "alert_budget \<Rightarrow> bool" where
  "exhausted b \<longleftrightarrow> remaining_assignments b = 0 \<or> remaining_recipients b = 0 \<or> remaining_deliveries b = 0"

datatype budget_error = AssignmentsExceedBudget | RecipientsExceedBudget

definition record_assignments :: "int \<Rightarrow> bool \<Rightarrow> alert_budget \<Rightarrow> budget_error + alert_budget" where
  "record_assignments n trunc b =
     (if n < 0 \<or> n > remaining_assignments b then Inl AssignmentsExceedBudget
      else Inr (b\<lparr>ab_assignments := ab_assignments b + n,
                  ab_assignments_truncated := ab_assignments_truncated b \<or> trunc\<rparr>))"

definition record_recipients :: "int \<Rightarrow> bool \<Rightarrow> alert_budget \<Rightarrow> budget_error + alert_budget" where
  "record_recipients n trunc b =
     (if n < 0 \<or> n > remaining_recipients b then Inl RecipientsExceedBudget
      else Inr (b\<lparr>ab_recipients := ab_recipients b + n,
                  ab_recipients_truncated := ab_recipients_truncated b \<or> trunc\<rparr>))"

definition claim_delivery :: "alert_budget \<Rightarrow> bool \<times> alert_budget" where
  "claim_delivery b =
     (if remaining_deliveries b \<le> 0 then (False, b\<lparr>ab_deliveries_truncated := True\<rparr>)
      else (True, b\<lparr>ab_deliveries := ab_deliveries b + 1\<rparr>))"

text \<open>One run of an alert task is any sequence of these operations.\<close>

inductive budget_run :: "alert_budget \<Rightarrow> alert_budget \<Rightarrow> bool" where
  start: "budget_run b b"
| assignments: "budget_run b b' \<Longrightarrow> record_assignments n t b' = Inr b'' \<Longrightarrow> budget_run b b''"
| recipients: "budget_run b b' \<Longrightarrow> record_recipients n t b' = Inr b'' \<Longrightarrow> budget_run b b''"
| delivery: "budget_run b b' \<Longrightarrow> claim_delivery b' = (g, b'') \<Longrightarrow> budget_run b b''"

inductive_cases budget_runE: "budget_run b b'"

text \<open>\<open>claims n\<close> asks for a delivery \<open>n\<close> times; the answers come back in order.\<close>

fun claims :: "nat \<Rightarrow> alert_budget \<Rightarrow> bool list \<times> alert_budget" where
  "claims 0 b = ([], b)"
| "claims (Suc n) b = (let (g, b1) = claim_delivery b; (gs, b2) = claims n b1 in (g # gs, b2))"

definition budget_ok :: "alert_budget \<Rightarrow> bool" where
  "budget_ok b \<longleftrightarrow> 0 \<le> ab_assignments b \<and> ab_assignments b \<le> ab_assignment_limit b
     \<and> ab_assignment_limit b \<le> 500
     \<and> 0 \<le> ab_recipients b \<and> ab_recipients b \<le> ab_recipient_limit b \<and> ab_recipient_limit b \<le> 1000
     \<and> 0 \<le> ab_deliveries b \<and> ab_deliveries b \<le> ab_delivery_limit b \<and> ab_delivery_limit b \<le> 1000"

lemma budget_from_settings_ok: "budget_ok (budget_from_settings st)"
  using clamped.range[of 100 500 st] clamped.range[of 250 1000 st]
    clamped.nonneg[of 100 500 st] clamped.nonneg[of 250 1000 st]
  by (simp add: budget_ok_def budget_from_settings_def)

lemmas budget_ops = record_assignments_def record_recipients_def claim_delivery_def
  remaining_assignments_def remaining_recipients_def remaining_deliveries_def

definition grows :: "alert_budget \<Rightarrow> alert_budget \<Rightarrow> bool" where
  "grows b b' \<longleftrightarrow> ab_assignment_limit b' = ab_assignment_limit b
     \<and> ab_recipient_limit b' = ab_recipient_limit b \<and> ab_delivery_limit b' = ab_delivery_limit b
     \<and> ab_assignments b \<le> ab_assignments b' \<and> ab_recipients b \<le> ab_recipients b'
     \<and> ab_deliveries b \<le> ab_deliveries b' \<and> (truncated b \<longrightarrow> truncated b')"

lemma grows_trans: "grows a b \<Longrightarrow> grows b c \<Longrightarrow> grows a c"
  by (simp add: grows_def)

lemma record_assignments_step:
  "record_assignments n t b = Inr b' \<Longrightarrow> budget_ok b \<Longrightarrow> budget_ok b' \<and> grows b b'"
  unfolding record_assignments_def remaining_assignments_def
  by (cases "n < 0 \<or> n > ab_assignment_limit b - ab_assignments b")
    (auto simp: budget_ok_def grows_def truncated_def)

lemma record_recipients_step:
  "record_recipients n t b = Inr b' \<Longrightarrow> budget_ok b \<Longrightarrow> budget_ok b' \<and> grows b b'"
  unfolding record_recipients_def remaining_recipients_def
  by (cases "n < 0 \<or> n > ab_recipient_limit b - ab_recipients b")
    (auto simp: budget_ok_def grows_def truncated_def)

lemma claim_delivery_step:
  "claim_delivery b = (g, b') \<Longrightarrow> budget_ok b \<Longrightarrow> budget_ok b' \<and> grows b b'"
  unfolding claim_delivery_def remaining_deliveries_def
  by (cases "ab_delivery_limit b - ab_deliveries b \<le> 0")
    (auto simp: budget_ok_def grows_def truncated_def)

lemma budget_run_invariant: "budget_run b b' \<Longrightarrow> budget_ok b \<Longrightarrow> budget_ok b' \<and> grows b b'"
proof (induction rule: budget_run.induct)
  case (start b)
  then show ?case by (simp add: grows_def)
qed (blast dest: record_assignments_step record_recipients_step claim_delivery_step
      intro: grows_trans)+

lemma claims_refused:
  "remaining_deliveries b \<le> 0 \<Longrightarrow> fst (claims n b) = replicate n False"
proof (induction n arbitrary: b)
  case (Suc n)
  then have "claim_delivery b = (False, b\<lparr>ab_deliveries_truncated := True\<rparr>)"
    by (simp add: claim_delivery_def)
  with Suc show ?case by (simp add: Let_def split_beta remaining_deliveries_def)
qed simp

lemma claims_exact:
  "fst (claims n b)
   = replicate (min n (nat (remaining_deliveries b))) True
     @ replicate (n - nat (remaining_deliveries b)) False"
proof (induction n arbitrary: b)
  case (Suc n)
  show ?case
  proof (cases "remaining_deliveries b \<le> 0")
    case True
    then show ?thesis using claims_refused[OF True, of "Suc n"] by simp
  next
    case False
    let ?b = "b\<lparr>ab_deliveries := ab_deliveries b + 1\<rparr>"
    from False have step: "claim_delivery b = (True, ?b)" by (simp add: claim_delivery_def)
    have "remaining_deliveries ?b = remaining_deliveries b - 1"
      by (simp add: remaining_deliveries_def)
    with False have rem: "nat (remaining_deliveries b) = Suc (nat (remaining_deliveries ?b))" by simp
    show ?thesis using Suc[of ?b] step by (simp add: Let_def split_beta rem)
  qed
qed simp

text \<open>an alert run never exceeds its budget: from fresh settings every reachable state keeps
  the three counters within their limits and the limits within the hard ceilings, no counter is
  ever given back, and a truncation mark is never lost; of any number of delivery claims exactly
  as many as remain are granted, and they are the first ones.\<close>

theorem alert_budget_respected:
  assumes run: "budget_run (budget_from_settings st) b"
  shows "budget_ok b \<and> grows (budget_from_settings st) b
    \<and> fst (claims n b) = replicate (min n (nat (remaining_deliveries b))) True
        @ replicate (n - nat (remaining_deliveries b)) False
    \<and> (exhausted b \<longrightarrow> remaining_assignments b = 0 \<or> remaining_recipients b = 0
         \<or> fst (claim_delivery b) = False)"
  using budget_run_invariant[OF run budget_from_settings_ok] claims_exact[of n b]
  by (auto simp: exhausted_def claim_delivery_def)

theorem alert_budget_respected_witness:
  "let b0 = budget_from_settings [''MICBOARD_POLL_ALERT_MAX_DELIVERIES'' \<mapsto> JStr '' 2 ''];
       b = b0\<lparr>ab_assignments := 3\<rparr>
   in budget_ok b \<and> fst (claims 4 b) = [True, True, False, False]"
proof -
  let ?st = "[''MICBOARD_POLL_ALERT_MAX_DELIVERIES'' \<mapsto> JStr '' 2 '']"
  let ?fresh = "budget_from_settings ?st"
  let ?b = "?fresh\<lparr>ab_assignments := 3\<rparr>"
  have "ab_assignment_limit ?fresh = 100" by code_simp
  moreover have "\<not> ab_assignments_truncated ?fresh" by code_simp
  moreover have "ab_assignments ?fresh = 0" by (simp add: budget_from_settings_def)
  ultimately have "record_assignments 3 False ?fresh = Inr ?b"
    by (simp add: record_assignments_def remaining_assignments_def)
  from budget_run.assignments[OF budget_run.start this] have run: "budget_run ?fresh ?b" .
  have rem: "remaining_deliveries ?b = 2" by code_simp
  have "replicate (min 4 (nat (remaining_deliveries ?b))) True
      @ replicate (4 - nat (remaining_deliveries ?b)) False = [True, True, False, False]"
    unfolding rem by code_simp
  with alert_budget_respected[OF run, of 4] show ?thesis
    unfolding Let_def by (metis (no_types))
qed

end
