(* ===== verification/Manufacturer_Sync.thy ===== *)
theory Manufacturer_Sync
  imports Chassis_Persistence Deduplication Queue_Conflict Workload_Limits
begin

text \<open>
  Synchronising one manufacturer's inventory (\<open>services/manufacturer/sync.py\<close>): the
  normalisation of vendor payloads (\<open>NormalizedHardware.from_api\<close> in \<open>services/core/hardware.py\<close>),
  the outcome of one payload and the transaction over a batch.

  A vendor plugin is third-party code: its device list and its payload transformation are
  parameters, either of which may raise.  Every transaction is a function of the state that
  either returns the new state or an error; the error rolls the state back.
\<close>

section \<open>Normalisation\<close>

datatype sync_error =
    NotText
  | PluginFailed
  | Dedup dedup_error
  | Persist persist_error
  | Life chassis_error
  | NotProvisioned nat
  | NotOnline nat

type_synonym payload = "(string \<times> json) list"

definition field :: "payload \<Rightarrow> string \<Rightarrow> json" where
  "field d k = (case map_of d k of None \<Rightarrow> JNull | Some v \<Rightarrow> v)"

fun truthy :: "json \<Rightarrow> bool" where
  "truthy JNull = False"
| "truthy (JBool b) = b"
| "truthy (JInt n) = (n \<noteq> 0)"
| "truthy (JNum q) = (q \<noteq> 0)"
| "truthy (JStr s) = (s \<noteq> [])"
| "truthy (JList xs) = (xs \<noteq> [])"
| "truthy (JObj ps) = (ps \<noteq> [])"

text \<open>\<open>d.get(k1) or d.get(k2) or ... or default\<close>, and \<open>.strip()\<close> of the result.\<close>

fun first_of :: "payload \<Rightarrow> string list \<Rightarrow> string \<Rightarrow> json" where
  "first_of d [] dflt = JStr dflt"
| "first_of d (k # ks) dflt = (if truthy (field d k) then field d k else first_of d ks dflt)"

fun stripped :: "json \<Rightarrow> sync_error + string" where
  "stripped (JStr s) = Inr (strip s)"
| "stripped _ = Inl NotText"

text \<open>A nullable text field of the payload class: other values are refused.\<close>

fun optional_text :: "json \<Rightarrow> sync_error + string option" where
  "optional_text JNull = Inr None"
| "optional_text (JStr s) = Inr (Some (strip s))"
| "optional_text _ = Inl NotText"

definition from_api :: "payload \<Rightarrow> sync_error + normalized option" where
  "from_api d =
     bindE (stripped (first_of d [''id'', ''api_device_id''] [])) (\<lambda>api_id.
     bindE (stripped (first_of d [''ip'', ''ipAddress'', ''ipv4'', ''ip_address''] [])) (\<lambda>ip.
     if api_id = [] \<or> ip = [] then Inr None else
     bindE (stripped (first_of d [''serial_number'', ''serialNumber'', ''serial''] [])) (\<lambda>serial.
     bindE (stripped (first_of d [''mac_address'', ''macAddress'', ''mac''] [])) (\<lambda>raw_mac.
     bindE (stripped (first_of d [''name'', ''model''] [])) (\<lambda>name.
     bindE (stripped (first_of d [''model''] [])) (\<lambda>model.
     bindE (stripped (first_of d [''device_type''] [])) (\<lambda>device_type.
     bindE (stripped (first_of d [''firmware'', ''firmware_version'', ''firmwareVersion''] [])) (\<lambda>firmware.
     bindE (stripped (first_of d [''hosted_firmware_version''] [])) (\<lambda>hosted.
     bindE (stripped (first_of d [''description''] [])) (\<lambda>description.
     bindE (stripped (first_of d [''network_mode'', ''networkMode''] ''auto'')) (\<lambda>mode.
     bindE (stripped (first_of d [''interface_id'', ''interfaceId''] [])) (\<lambda>interface.
     bindE (optional_text (if truthy (field d ''subnet_mask'') then field d ''subnet_mask''
                           else field d ''subnetMask'')) (\<lambda>subnet.
     bindE (optional_text (field d ''gateway'')) (\<lambda>gateway.
       Inr (Some \<lparr>nh_api_id = api_id, nh_ip = ip, nh_serial = serial,
         nh_mac = (case canonicalize_mac_address (Some raw_mac) of None \<Rightarrow> [] | Some m \<Rightarrow> m),
         nh_name = name, nh_model = model, nh_device_type = device_type, nh_firmware = firmware,
         nh_hosted_firmware = hosted, nh_description = description, nh_subnet = subnet,
         nh_gateway = gateway, nh_network_mode = mode, nh_interface_id = interface\<rparr>)))))))))))))))"

text \<open>\<open>_normalize_devices\<close>: devices the transformation drops and payloads without an identity
  are skipped.\<close>

definition normalize_one :: "('raw \<Rightarrow> unit + payload option) \<Rightarrow> 'raw \<Rightarrow> normalized list \<Rightarrow> sync_error + normalized list" where
  "normalize_one transform raw acc =
     (case transform raw of Inl _ \<Rightarrow> Inl PluginFailed
      | Inr t \<Rightarrow> if t = None \<or> t = Some [] then Inr acc
          else bindE (from_api (the t)) (\<lambda>p. case p of None \<Rightarrow> Inr acc | Some n \<Rightarrow> Inr (acc @ [n])))"

definition normalize_devices :: "('raw \<Rightarrow> unit + payload option) \<Rightarrow> 'raw list \<Rightarrow> sync_error + normalized list" where
  "normalize_devices transform raws = foldE (normalize_one transform) raws []"

section \<open>One payload\<close>

record sync_state =
  ss_db :: inventory
  ss_moves :: "movement list"
  ss_index :: "identity_index option"

definition persist_result :: "persist_error + 'a \<Rightarrow> sync_error + 'a" where
  "persist_result m = (case m of Inl e \<Rightarrow> Inl (Persist e) | Inr x \<Rightarrow> Inr x)"

definition life_result :: "chassis_error + 'a \<Rightarrow> sync_error + 'a" where
  "life_result m = (case m of Inl e \<Rightarrow> Inl (Life e) | Inr x \<Rightarrow> Inr x)"

definition dedup_outcome_of :: "dedup_error + 'a \<Rightarrow> sync_error + 'a" where
  "dedup_outcome_of m = (case m of Inl e \<Rightarrow> Inl (Dedup e) | Inr x \<Rightarrow> Inr x)"

lemma lifted_Inr [result_simps]:
  "persist_result m = Inr x \<longleftrightarrow> m = Inr x"
  "life_result m' = Inr y \<longleftrightarrow> m' = Inr y"
  "dedup_outcome_of m'' = Inr z \<longleftrightarrow> m'' = Inr z"
  by (simp_all add: persist_result_def life_result_def dedup_outcome_of_def split: sum.splits)

text \<open>The instance the caller holds is the one in the batch index, so its changes show there.\<close>

definition refresh_object :: "chassis \<Rightarrow> identity_index option \<Rightarrow> identity_index option" where
  "refresh_object c ix = map_option (ix_refresh c) ix"

text \<open>\<open>_transition_responding_chassis_online\<close>\<close>

definition transition_responding_chassis_online ::
  "save_env \<Rightarrow> time \<Rightarrow> chassis \<Rightarrow> sync_state \<Rightarrow> sync_error + chassis \<times> sync_state"
where
  "transition_responding_chassis_online env now c st =
     (if ch_status c = ''online'' then Inr (c, st)
      else
        bindE (if ch_status c = ''discovered''
               then bindE (life_result (transition_device env now (ch_pk c) ''provisioning'' (ss_db st)))
                      (\<lambda>(ok, db). if ok then Inr db else Inl (NotProvisioned (ch_pk c)))
               else Inr (ss_db st)) (\<lambda>db1.
        bindE (life_result (mark_online env now (ch_pk c) db1)) (\<lambda>(ok, db2).
        if \<not> ok then Inl (NotOnline (ch_pk c))
        else (case qs_get (\<lambda>r. ch_pk r = ch_pk c) (iv_chassis db2) of
            Inl _ \<Rightarrow> Inl (Life ChassisMissing)
          | Inr row \<Rightarrow>
              (let c' = copy_fields [FStatus, FIsOnline, FLastOnline, FLastSeen] row c
               in Inr (c', st\<lparr>ss_db := db2, ss_index := refresh_object c' (ss_index st)\<rparr>))))))"

definition text_or_none :: "string \<Rightarrow> string option" where
  "text_or_none s = (if s = [] then None else Some s)"

text \<open>\<open>_persist_moved_chassis\<close>\<close>

definition record_move :: "time \<Rightarrow> chassis \<Rightarrow> string option \<Rightarrow> string option \<Rightarrow> movement list \<Rightarrow> movement list" where
  "record_move now c old_ip new_ip moves =
     (if old_ip \<noteq> new_ip
      then fst (log_device_movement now (ch_pk c) old_ip new_ip None None ''manufacturer_sync''
                  ''Manufacturer synchronization detected an address change'' moves)
      else moves)"

definition move_object ::
  "save_env \<Rightarrow> chassis \<Rightarrow> string option \<Rightarrow> identity_index option \<Rightarrow> sync_error + identity_index option"
where
  "move_object env c old_ip ix =
     (case (refresh_object c ix, old_ip) of
        (Some x, Some old) \<Rightarrow> bindE (dedup_outcome_of (ix_move_ip (se_clean_ipv6 env) c old x)) (\<lambda>x'. Inr (Some x'))
      | (x, _) \<Rightarrow> Inr x)"

definition persist_moved_chassis ::
  "save_env \<Rightarrow> tenancy \<Rightarrow> time \<Rightarrow> chassis \<Rightarrow> normalized \<Rightarrow> sync_state \<Rightarrow> sync_error + chassis \<times> sync_state"
where
  "persist_moved_chassis env tn now c p st =
     bindE (persist_result (update_from_normalized env tn now c p True (ss_db st))) (\<lambda>(c', db').
     let old_ip = text_or_none (ch_ip c); new_ip = text_or_none (ch_ip c')
     in bindE (move_object env c' old_ip (ss_index st)) (\<lambda>ix.
        transition_responding_chassis_online env now c'
           (st\<lparr>ss_db := db', ss_moves := record_move now c old_ip new_ip (ss_moves st), ss_index := ix\<rparr>)))"

datatype sync_outcome = Created | Updated

text \<open>\<open>_sync_normalized_device\<close>; None is a payload that was rejected.\<close>

definition update_duplicate ::
  "save_env \<Rightarrow> tenancy \<Rightarrow> time \<Rightarrow> chassis \<Rightarrow> normalized \<Rightarrow> sync_state \<Rightarrow> sync_error + sync_outcome option \<times> sync_state"
where
  "update_duplicate env tn now c p st =
     bindE (persist_result (update_from_normalized env tn now c p False (ss_db st))) (\<lambda>(c', db').
       let st1 = st\<lparr>ss_db := db', ss_index := refresh_object c' (ss_index st)\<rparr> in
       if ch_status c' = ''degraded'' \<or> ch_status c' = ''maintenance'' then Inr (Some Updated, st1)
       else bindE (transition_responding_chassis_online env now c' st1)
              (\<lambda>(_, st2). Inr (Some Updated, st2)))"

definition add_object ::
  "save_env \<Rightarrow> chassis \<Rightarrow> identity_index option \<Rightarrow> sync_error + identity_index option"
where
  "add_object env c ix =
     (case ix of None \<Rightarrow> Inr None
      | Some x \<Rightarrow> bindE (dedup_outcome_of (ix_add (se_clean_ipv6 env) c x)) (\<lambda>x'. Inr (Some x')))"

definition create_new ::
  "save_env \<Rightarrow> tenancy \<Rightarrow> time \<Rightarrow> nat \<Rightarrow> normalized \<Rightarrow> sync_state \<Rightarrow> sync_error + sync_outcome option \<times> sync_state"
where
  "create_new env tn now mfr p st =
     bindE (persist_result (create_from_normalized env tn now mfr p (Some ''online'') (ss_db st)))
       (\<lambda>(c, db'). bindE (add_object env c (ss_index st)) (\<lambda>ix.
          Inr (Some Created, st\<lparr>ss_db := db', ss_index := ix\<rparr>)))"

definition sync_normalized_device ::
  "save_env \<Rightarrow> tenancy \<Rightarrow> time \<Rightarrow> nat \<Rightarrow> normalized \<Rightarrow> sync_state \<Rightarrow> sync_error + sync_outcome option \<times> sync_state"
where
  "sync_normalized_device env tn now mfr p st =
     bindE (dedup_outcome_of (check_device (se_clean_ipv6 env) (se_code env) (iv_chassis (ss_db st))
              (nh_serial p) (canonicalize_mac_address (Some (nh_mac p))) (nh_ip p) (nh_api_id p)
              (Some mfr) (ss_index st))) (\<lambda>d.
     if dr_outcome d = Conflict then Inr (None, st)
     else (case dr_existing d of
         Some c \<Rightarrow>
           if ch_manufacturer c \<noteq> mfr then Inr (None, st)
           else if dr_outcome d = Moved
           then bindE (persist_moved_chassis env tn now c p st) (\<lambda>(_, st'). Inr (Some Updated, st'))
           else if dr_outcome d = Duplicate then update_duplicate env tn now c p st
           else if dr_outcome d = New then create_new env tn now mfr p st
           else Inr (None, st)
       | None \<Rightarrow> if dr_outcome d = New then create_new env tn now mfr p st else Inr (None, st)))"

section \<open>A batch\<close>

record sync_counts =
  sc_created :: nat
  sc_updated :: nat

definition sync_step ::
  "save_env \<Rightarrow> tenancy \<Rightarrow> time \<Rightarrow> nat \<Rightarrow> normalized \<Rightarrow> sync_counts \<times> sync_state \<Rightarrow> sync_error + sync_counts \<times> sync_state"
where
  "sync_step env tn now mfr p = (\<lambda>(n, st).
     bindE (sync_normalized_device env tn now mfr p st) (\<lambda>(out, st').
       Inr ((case out of None \<Rightarrow> n
             | Some Created \<Rightarrow> n\<lparr>sc_created := sc_created n + 1\<rparr>
             | Some Updated \<Rightarrow> n\<lparr>sc_updated := sc_updated n + 1\<rparr>), st')))"

text \<open>\<open>_persist_normalized_devices\<close>: the locked manufacturer row decides once more whether the
  batch may be written; the index is built under the lock.  \<open>max_params\<close> is the backend's bound
  on query parameters.\<close>

definition persist_normalized_devices ::
  "save_env \<Rightarrow> tenancy \<Rightarrow> time \<Rightarrow> nat option \<Rightarrow> bool \<Rightarrow> manufacturer \<Rightarrow> normalized list
     \<Rightarrow> inventory \<times> movement list \<Rightarrow> sync_error + sync_counts option \<times> inventory \<times> movement list"
where
  "persist_normalized_devices env tn now max_params force locked ps = (\<lambda>(db, moves).
     if \<not> force \<and> \<not> mf_active locked then Inr (None, db, moves)
     else bindE (dedup_outcome_of (ix_build max_params (se_clean_ipv6 env) ps (mf_pk locked) (iv_chassis db))) (\<lambda>ix.
          bindE (foldE (sync_step env tn now (mf_pk locked)) ps
            (\<lparr>sc_created = 0, sc_updated = 0\<rparr>, \<lparr>ss_db = db, ss_moves = moves, ss_index = Some ix\<rparr>))
            (\<lambda>(n, st). Inr (Some n, ss_db st, ss_moves st))))"

record sync_result =
  sr_success :: bool
  sr_added :: nat
  sr_updated :: nat
  sr_removed :: nat
  sr_problem :: "string option"
  sr_examined :: nat
  sr_limit :: int
  sr_complete :: bool

definition sync_failure :: "string \<Rightarrow> nat \<Rightarrow> int \<Rightarrow> sync_result" where
  "sync_failure problem examined limit =
     \<lparr>sr_success = False, sr_added = 0, sr_updated = 0, sr_removed = 0, sr_problem = Some problem,
      sr_examined = examined, sr_limit = limit, sr_complete = True\<rparr>"

definition sync_success :: "nat \<Rightarrow> nat \<Rightarrow> nat \<Rightarrow> int \<Rightarrow> sync_result" where
  "sync_success added updated examined limit =
     \<lparr>sr_success = True, sr_added = added, sr_updated = updated, sr_removed = 0, sr_problem = None,
      sr_examined = examined, sr_limit = limit, sr_complete = True\<rparr>"

text \<open>What the synchronisation reads: the manufacturer as first read and as read under the lock,
  the plugin (none when it cannot be loaded) and the host settings.\<close>

record 'raw vendor_plugin =
  vp_devices :: "unit + 'raw list"
  vp_transform :: "'raw \<Rightarrow> unit + payload option"

record 'raw sync_source =
  sy_manufacturer :: "manufacturer option"
  sy_locked :: "manufacturer option"
  sy_plugin :: "'raw vendor_plugin option"
  sy_settings :: host_settings

definition sync_batch ::
  "save_env \<Rightarrow> tenancy \<Rightarrow> time \<Rightarrow> nat option \<Rightarrow> bool \<Rightarrow> int \<Rightarrow> 'raw vendor_plugin \<Rightarrow> manufacturer option
     \<Rightarrow> 'raw inventory_batch \<Rightarrow> inventory \<times> movement list
     \<Rightarrow> sync_error + sync_result \<times> inventory \<times> movement list"
where
  "sync_batch env tn now max_params force limit plugin locked batch s =
     (let examined = length (ib_devices batch) in
      if \<not> inventory_complete batch
      then Inr ((sync_failure ''inventory exceeded the device limit'' examined limit)
                  \<lparr>sr_complete := False\<rparr>, s)
      else bindE (normalize_devices (vp_transform plugin) (ib_devices batch)) (\<lambda>ps.
        if ps = [] then Inr (sync_success 0 0 examined limit, s)
        else (case locked of None \<Rightarrow> Inl PluginFailed
          | Some m \<Rightarrow>
              bindE (persist_normalized_devices env tn now max_params force m ps s) (\<lambda>(n, s').
              case n of
                None \<Rightarrow> Inr (sync_failure ''manufacturer became inactive'' examined limit, s')
              | Some k \<Rightarrow> Inr (sync_success (sc_created k) (sc_updated k) examined limit, s')))))"

definition sync_devices_for_manufacturer ::
  "save_env \<Rightarrow> tenancy \<Rightarrow> time \<Rightarrow> nat option \<Rightarrow> bool \<Rightarrow> 'raw sync_source \<Rightarrow> inventory \<times> movement list
     \<Rightarrow> sync_result \<times> inventory \<times> movement list"
where
  "sync_devices_for_manufacturer env tn now max_params force src s =
     (let limit = pl_max_devices (poll_limits_from_settings (sy_settings src)) in
      case sy_manufacturer src of
        None \<Rightarrow> (sync_failure ''manufacturer not found or inactive'' 0 limit, s)
      | Some m \<Rightarrow>
          if \<not> force \<and> \<not> mf_active m
          then (sync_failure ''manufacturer not found or inactive'' 0 limit, s)
          else (case sy_plugin src of
              None \<Rightarrow> (sync_failure ''plugin not found'' 0 limit, s)
            | Some plugin \<Rightarrow>
                (case vp_devices plugin of
                   Inl _ \<Rightarrow> (sync_failure ''synchronization failed'' 0 limit, s)
                 | Inr devices \<Rightarrow>
                     (case sync_batch env tn now max_params force limit plugin (sy_locked src)
                             (consume devices limit) s of
                        Inl _ \<Rightarrow> (sync_failure ''synchronization failed'' 0 limit, s)
                      | Inr r \<Rightarrow> r))))"

section \<open>Nothing of another manufacturer is written\<close>

definition other_rows :: "nat \<Rightarrow> inventory \<Rightarrow> chassis list" where
  "other_rows m db = filter (\<lambda>r. ch_manufacturer r \<noteq> m) (iv_chassis db)"

definition row_of :: "nat \<Rightarrow> nat \<Rightarrow> inventory \<Rightarrow> bool" where
  "row_of m pk db \<longleftrightarrow> (\<forall>r \<in> set (iv_chassis db). ch_pk r = pk \<longrightarrow> ch_manufacturer r = m)"

definition keeps_others :: "nat \<Rightarrow> inventory \<Rightarrow> inventory \<Rightarrow> bool" where
  "keeps_others m db db' \<longleftrightarrow> other_rows m db' = other_rows m db \<and> iv_chargers db' = iv_chargers db
     \<and> (\<forall>q pk. row_of q pk db \<longrightarrow> pk \<in> ch_pk ` set (iv_chassis db) \<longrightarrow>
            row_of q pk db' \<and> pk \<in> ch_pk ` set (iv_chassis db'))"

lemma keeps_others_refl [simp]: "keeps_others m db db"
  by (simp add: keeps_others_def)

lemma keeps_others_trans: "keeps_others m a b \<Longrightarrow> keeps_others m b c \<Longrightarrow> keeps_others m a c"
  unfolding keeps_others_def by metis

lemma filter_put_row_other:
  assumes "\<forall>x \<in> set rows. ch_pk x = ch_pk row \<longrightarrow> \<not> P x" "\<not> P row"
  shows "filter P (put_row ch_pk row rows) = filter P rows"
  using assms by (induction rows) (auto simp: put_row_def)

lemma qs_get_only:
  assumes "qs_get P rows = Inr r" "x \<in> set rows" "P x"
  shows "x = r"
proof -
  from assms(1) have "filter P rows = [r]" by (auto simp: qs_get_def split: list.splits)
  then show ?thesis using assms(2,3) by (rule filter_singleton)
qed

lemma save_keeps_others:
  assumes s: "save_chassis env now (Some fs) c0 db = Inr (c, db')" and f: "FManufacturer \<notin> set fs"
    and own: "row_of m (ch_pk c0) db"
  shows "keeps_others m db db' \<and> ch_pk c = ch_pk c0 \<and> ch_manufacturer c = ch_manufacturer c0"
proof -
  from save_chassis_rows[OF s] f obtain row prev where
    rows: "iv_chassis db' = put_row ch_pk row (iv_chassis db)" and
    prev: "qs_get (\<lambda>r. ch_pk r = ch_pk c0) (iv_chassis db) = Inr prev" "prev \<in> set (iv_chassis db)"
    and pk: "ch_pk row = ch_pk c0" "ch_pk prev = ch_pk c0" "ch_pk c = ch_pk c0"
    and mf: "ch_manufacturer row = ch_manufacturer prev" "ch_manufacturer c = ch_manufacturer c0"
    by auto
  have pm: "ch_manufacturer prev = m" using own prev(2) pk(2) by (simp add: row_of_def)
  have "other_rows m db' = other_rows m db"
    unfolding other_rows_def rows
    by (rule filter_put_row_other) (use own pk mf(1) pm in \<open>auto simp: row_of_def\<close>)
  moreover have "iv_chargers db' = iv_chargers db"
    using s by (auto elim!: save_chassisE)
  moreover have "row_of q pk db'" if "row_of q pk db" for q pk
    using that prev(2) mf(1) pk by (auto simp: row_of_def rows put_row_mem)
  moreover have "ch_pk ` set (iv_chassis db') = ch_pk ` set (iv_chassis db)"
    unfolding rows by (metis list.set_map map_pk_put_row)
  ultimately show ?thesis using pk mf(2) by (simp add: keeps_others_def)
qed

lemma transition_keeps_others:
  assumes t: "transition_device env now pk s db = Inr (ok, db')" and own: "row_of m pk db"
  shows "keeps_others m db db'"
proof -
  from t obtain d where d: "qs_get (\<lambda>r. ch_pk r = pk) (iv_chassis db) = Inr d"
    by (auto simp: transition_device_def split: sum.splits)
  show ?thesis
  proof (cases "is_valid_transition (ch_status d) s")
    case True
    with t d obtain c where
      "save_chassis env now (Some [FStatus, FLastSeen]) (d\<lparr>ch_status := s, ch_last_seen := Some now\<rparr>) db
         = Inr (c, db')"
      by (auto simp: transition_device_def result_simps)
    from save_keeps_others[OF this] own qs_get_row[OF d] show ?thesis by simp
  next
    case False
    with t d show ?thesis by (simp add: transition_device_def)
  qed
qed

lemma update_values_fields: "FManufacturer \<notin> set (fst (update_values now c p b))"
  by (auto simp: update_values_def Let_def)

lemma copy_fields_pk [simp]: "ch_pk (copy_fields fs src dst) = ch_pk dst"
proof -
  have "ch_pk (copy_field f src d) = ch_pk d" for f d by (cases f) simp_all
  then show ?thesis unfolding copy_fields_def by (induction fs arbitrary: dst) simp_all
qed

lemma copy_fields_manufacturer:
  "FManufacturer \<notin> set fs \<Longrightarrow> ch_manufacturer (copy_fields fs src dst) = ch_manufacturer dst"
proof (induction fs arbitrary: dst)
  case (Cons f fs)
  then have "ch_manufacturer (copy_field f src d) = ch_manufacturer d" for d
    by (cases f) simp_all
  with Cons show ?case by (simp add: copy_fields_def)
qed (simp add: copy_fields_def)

lemma update_keeps_others:
  assumes u: "update_from_normalized env tn now c p b db = Inr (c', db')" and own: "row_of m (ch_pk c) db"
  shows "keeps_others m db db' \<and> ch_pk c' = ch_pk c \<and> ch_manufacturer c' = ch_manufacturer c"
proof -
  let ?w = "update_values now c p b"
  from u have "(c', db') = (c, db) \<or>
      save_chassis env now (Some (fst ?w)) (copy_fields (fst ?w) (snd ?w) c) db = Inr (c', db')"
    by (auto simp: update_from_normalized_def update_def result_simps chassis_result_def Let_def
        split: if_splits sum.splits)
  then show ?thesis
    using save_keeps_others[of env now "fst ?w" "copy_fields (fst ?w) (snd ?w) c" db c' db' m]
      own update_values_fields[of now c p b]
    by (auto simp: copy_fields_manufacturer)
qed

lemma create_keeps_others:
  assumes u: "create_from_normalized env tn now m p s db = Inr (c, db')"
  shows "keeps_others m db db' \<and> (\<exists>row. iv_chassis db' = iv_chassis db @ [row] \<and> ch_pk row = ch_pk c
    \<and> ch_manufacturer row = m \<and> row_of m (ch_pk c) db')"
proof -
  from u obtain c0 where c0: "create_chassis env now (c0\<lparr>ch_manufacturer := m\<rparr>) db = Inr (c, db')"
    by (auto simp: create_from_normalized_def create_def result_simps chassis_result_def Let_def
        split: if_splits sum.splits option.splits)
  from create_chassis_rows[OF c0] obtain row where
    rows: "iv_chassis db' = iv_chassis db @ [row]" "ch_manufacturer row = m" "iv_chargers db' = iv_chargers db"
    and pk: "ch_pk row = next_pk ch_pk (iv_chassis db)" "ch_pk c = ch_pk row" by auto
  have fresh: "ch_pk row \<notin> ch_pk ` set (iv_chassis db)" unfolding pk by (rule next_pk_notin)
  have "other_rows m db' = other_rows m db" by (simp add: other_rows_def rows)
  moreover have "\<forall>r \<in> set (iv_chassis db). ch_pk r \<noteq> ch_pk row" using fresh by (metis imageI)
  ultimately show ?thesis
    by (auto simp: keeps_others_def row_of_def rows(1,2) pk(2) rows(3))
qed

section \<open>The objects of the batch index\<close>

text \<open>Every object the index holds is a stored row's instance: same key, same manufacturer.\<close>

definition objects_ok :: "inventory \<Rightarrow> identity_index \<Rightarrow> bool" where
  "objects_ok db ix \<longleftrightarrow> (\<forall>pk c. ix_objects ix pk = Some c \<longrightarrow>
     ch_pk c = pk \<and> pk \<in> ch_pk ` set (iv_chassis db) \<and> row_of (ch_manufacturer c) pk db)"

definition index_ok :: "inventory \<Rightarrow> identity_index option \<Rightarrow> bool" where
  "index_ok db ix \<longleftrightarrow> (case ix of None \<Rightarrow> True | Some x \<Rightarrow> objects_ok db x)"

lemma index_ok_simps [simp]:
  "index_ok db None" "index_ok db (Some ix) \<longleftrightarrow> objects_ok db ix"
  by (simp_all add: index_ok_def)

lemma objects_ok_later: "objects_ok db ix \<Longrightarrow> keeps_others m db db' \<Longrightarrow> objects_ok db' ix"
  unfolding objects_ok_def keeps_others_def by metis

lemma objects_ok_put:
  assumes "objects_ok db ix" "ix_objects ix' = (ix_objects ix)(ch_pk c \<mapsto> c)"
    "ch_pk c \<in> ch_pk ` set (iv_chassis db)" "row_of (ch_manufacturer c) (ch_pk c) db"
  shows "objects_ok db ix'"
  using assms by (auto simp: objects_ok_def)

lemma refresh_index_ok:
  assumes "index_ok db ix" "ch_pk c \<in> ch_pk ` set (iv_chassis db)" "row_of (ch_manufacturer c) (ch_pk c) db"
  shows "index_ok db (refresh_object c ix)"
proof (cases ix)
  case None
  then show ?thesis by (simp add: refresh_object_def)
next
  case (Some x)
  with assms(1) have "objects_ok db x" by simp
  moreover have "ix_objects (ix_refresh c x) = (ix_objects x)(ch_pk c \<mapsto> c)" by (simp add: ix_refresh_def)
  ultimately have "objects_ok db (ix_refresh c x)" using assms(2,3) by (rule objects_ok_put)
  with Some show ?thesis by (simp add: refresh_object_def)
qed

lemma move_index_ok:
  assumes "index_ok db ix" "ch_pk c \<in> ch_pk ` set (iv_chassis db)" "row_of (ch_manufacturer c) (ch_pk c) db"
    and "move_object env c old ix = Inr ix'"
  shows "index_ok db ix'"
proof -
  have "objects_ok db x'" if "objects_ok db x" "ix_move_ip cl c o' x = Inr x'" for x x' cl o'
    using that by (auto simp: objects_ok_def ix_move_ip_def Let_def result_simps)
  then show ?thesis
    using refresh_index_ok[OF assms(1-3)] assms(4)
    by (cases "refresh_object c ix"; cases old) (auto simp: move_object_def dedup_outcome_of_def result_simps split: sum.splits)
qed

lemma built_index_ok:
  assumes "distinct (map ch_pk (iv_chassis db))" "ix_build mp cl ps m (iv_chassis db) = Inr ix"
  shows "objects_ok db ix"
proof -
  let ?qs = "identity_querysets mp (batch_serials ps) (batch_macs ps)
      (map (prepared_ip cl) (batch_keys cl ps)) (batch_api_ids ps) m mac_variant_list (iv_chassis db)"
  have "set (concat ?qs) \<subseteq> set (iv_chassis db)"
    by (auto simp: identity_querysets_def chunked_querysets_def)
  from fetch_by_pk_inv[OF this assms(1)] have
    f: "snd ` set (fetch_by_pk ?qs) = set (concat ?qs)" "\<forall>(k, r) \<in> set (fetch_by_pk ?qs). k = ch_pk r"
    by (simp_all add: fetch_by_pk_def)
  have "ch_pk c = pk \<and> c \<in> set (iv_chassis db)" if "map_of (fetch_by_pk ?qs) pk = Some c" for pk c
  proof -
    from that have "(pk, c) \<in> set (fetch_by_pk ?qs)" by (rule map_of_SomeD)
    with f \<open>set (concat ?qs) \<subseteq> set (iv_chassis db)\<close> show ?thesis by (force simp: image_iff)
  qed
  moreover have "row_of (ch_manufacturer c) (ch_pk c) db" if "c \<in> set (iv_chassis db)" for c
    using that assms(1) by (auto simp: row_of_def distinct_map inj_on_def)
  moreover have "ix_objects ix = map_of (fetch_by_pk ?qs)"
    unfolding ix_build_fold[OF assms(2)] Let_def by simp
  ultimately show ?thesis by (auto simp: objects_ok_def)
qed

section \<open>Whom a check names\<close>

lemma check_names_input:
  "check_by_serial codes ip m ex = Inr (Some d) \<Longrightarrow> dr_existing d = ex"
  "check_by_mac codes mac ip m ex = Inr (Some d) \<Longrightarrow> dr_existing d = ex"
  "check_by_ip ex serial omac = Inr (Some d) \<Longrightarrow> dr_existing d = ex"
  "check_by_api_id ex ip = Inr (Some d) \<Longrightarrow> dr_existing d = ex"
  "check_durable_identity_conflict codes s mm m = Inr (Some d) \<Longrightarrow>
     dr_existing d = None \<or> dr_existing d = s \<or> dr_existing d = mm"
  by (auto simp: check_defs result_simps split: option.splits if_splits)

lemma ix_unique_object: "ix_unique ix m k = Inr (Some c) \<Longrightarrow> \<exists>pk. ix_objects ix pk = Some c"
proof -
  assume "ix_unique ix m k = Inr (Some c)"
  then have "c \<in> set (List.map_filter (ix_objects ix) (case m k of None \<Rightarrow> [] | Some xs \<Rightarrow> xs))"
    unfolding ix_unique_def by (rule at_most_one_mem)
  then show ?thesis by (auto simp: List.map_filter_def)
qed

lemma indexed_objects:
  "resolve_serial_identity rows serial (Some ix) = Inr (Some c) \<Longrightarrow> \<exists>pk. ix_objects ix pk = Some c"
  "resolve_mac_identity rows mac (Some ix) = Inr (Some c) \<Longrightarrow> \<exists>pk. ix_objects ix pk = Some c"
  "ix_lookup_ip cl ix ip = Inr (Some c) \<Longrightarrow> \<exists>pk. ix_objects ix pk = Some c"
  "ix_lookup_api_id ix m a = Inr (Some c) \<Longrightarrow> \<exists>pk. ix_objects ix pk = Some c"
  by (auto simp: resolve_serial_identity_def resolve_mac_identity_def ix_lookup_serial_def
      ix_lookup_mac_def ix_lookup_ip_def ix_lookup_api_id_def result_simps
      split: if_splits option.splits dest: ix_unique_object)

lemma filter_one_mem: "filter P xs = [c] \<Longrightarrow> c \<in> set xs"
  using filter_is_subset[of P xs] by simp

lemma stored_rows:
  "resolve_serial_identity rows serial None = Inr (Some c) \<Longrightarrow> c \<in> set rows"
  "resolve_mac_identity rows mac None = Inr (Some c) \<Longrightarrow> c \<in> set rows"
  "query_ip cl rows ip = Inr (Some c) \<Longrightarrow> c \<in> set rows"
  "query_api_id rows m a = Inr (Some c) \<Longrightarrow> c \<in> set rows"
  by (auto simp: resolve_serial_identity_def resolve_mac_identity_def query_serial_def query_mac_def
      query_ip_def query_api_id_def qs_get_or_none_filter at_most_one_Some
      split: if_splits option.splits dest: filter_one_mem)

lemma check_device_existing:
  assumes "check_device cl codes rows serial mac ip a (Some m) ix = Inr d" "dr_existing d = Some c"
  shows "case ix of None \<Rightarrow> c \<in> set rows | Some x \<Rightarrow> \<exists>pk. ix_objects x pk = Some c"
proof -
  define src where "src = (\<lambda>c. case ix of None \<Rightarrow> c \<in> set rows | Some x \<Rightarrow> \<exists>pk. ix_objects x pk = Some c)"
  let ?ip = "case ix of Some x \<Rightarrow> ix_lookup_ip cl x ip | None \<Rightarrow> orm (query_ip cl rows ip)"
  let ?api = "case ix of Some x \<Rightarrow> ix_lookup_api_id x m a | None \<Rightarrow> query_api_id rows m a"
  let ?mac = "canonicalize_mac_address mac"
  from assms(1) obtain s mm r where s: "resolve_serial_identity rows serial ix = Inr s"
    and mm: "resolve_mac_identity rows ?mac ix = Inr mm"
    and r: "orElse (check_durable_identity_conflict codes s mm m)
      (orElse (if serial \<noteq> [] then check_by_serial codes ip m s else Inr None)
      (orElse (case ?mac of None \<Rightarrow> Inr None | Some x \<Rightarrow> if x = [] then Inr None else check_by_mac codes x ip m mm)
      (orElse (bindE ?ip (\<lambda>existing. check_by_ip existing serial ?mac))
        (bindE (orm ?api) (\<lambda>existing. check_by_api_id existing ip))))) = Inr r"
    and d: "(case r of Some d \<Rightarrow> Inr d | None \<Rightarrow> dr_new) = Inr d"
    unfolding check_device_def Let_def option.case bindE_Inr_iff orm_Inr_iff by blast
  have srcs: "s = Some x \<Longrightarrow> src x" "mm = Some x \<Longrightarrow> src x"
    "?ip = Inr (Some x) \<Longrightarrow> src x" "?api = Inr (Some x) \<Longrightarrow> src x" for x
    using s mm indexed_objects stored_rows unfolding src_def by (auto simp: result_simps split: option.splits)
  from d assms(2) have rd: "r = Some d" by (cases r) auto
  from r[unfolded rd orElse_Some_iff bindE_Inr_iff orm_Inr_iff] have "src c"
    using assms(2) srcs
    by (elim disjE conjE exE; auto dest!: check_names_input split: if_splits option.splits)
  then show ?thesis by (simp add: src_def)
qed

section \<open>One payload keeps the others\<close>

definition same_keys :: "inventory \<Rightarrow> inventory \<Rightarrow> bool" where
  "same_keys db db' \<longleftrightarrow> map ch_pk (iv_chassis db') = map ch_pk (iv_chassis db)"

lemma same_keys_refl [simp]: "same_keys db db"
  by (simp add: same_keys_def)

lemma same_keys_trans: "same_keys a b \<Longrightarrow> same_keys b c \<Longrightarrow> same_keys a c"
  by (simp add: same_keys_def)

lemma save_same_keys:
  assumes "save_chassis env now (Some fs) c0 db = Inr (c, db')"
  shows "same_keys db db'"
  using save_chassis_rows[OF assms] by (auto simp: same_keys_def)

lemma transition_same_keys:
  assumes t: "transition_device env now pk s db = Inr (ok, db')"
  shows "same_keys db db'"
  using t by (auto simp: transition_device_def result_simps split: sum.splits if_splits
      intro: save_same_keys)

lemma update_same_keys:
  assumes u: "update_from_normalized env tn now c p b db = Inr (c', db')"
  shows "same_keys db db'"
  using u by (auto simp: update_from_normalized_def update_def result_simps chassis_result_def Let_def
      split: if_splits sum.splits intro: save_same_keys)

text \<open>\<open>own m c db\<close>: the instance belongs to the manufacturer and so does its row.\<close>

definition own :: "nat \<Rightarrow> chassis \<Rightarrow> inventory \<Rightarrow> bool" where
  "own m c db \<longleftrightarrow> ch_manufacturer c = m \<and> ch_pk c \<in> ch_pk ` set (iv_chassis db) \<and> row_of m (ch_pk c) db"

lemma own_later: "own m c db \<Longrightarrow> keeps_others m db db' \<Longrightarrow> own m c db'"
  unfolding own_def keeps_others_def by metis

definition safe_step :: "nat \<Rightarrow> nat \<Rightarrow> sync_state \<Rightarrow> sync_state \<Rightarrow> bool" where
  "safe_step m k st st' \<longleftrightarrow> keeps_others m (ss_db st) (ss_db st')
     \<and> index_ok (ss_db st') (ss_index st')
     \<and> length (iv_chassis (ss_db st')) = length (iv_chassis (ss_db st)) + k"

lemma safe_step_refl: "index_ok (ss_db st) (ss_index st) \<Longrightarrow> safe_step m 0 st st"
  by (simp add: safe_step_def)

lemma safe_step_trans: "safe_step m j a b \<Longrightarrow> safe_step m k b c \<Longrightarrow> safe_step m (j + k) a c"
  unfolding safe_step_def using keeps_others_trans by auto

lemma index_ok_later: "index_ok db ix \<Longrightarrow> keeps_others m db db' \<Longrightarrow> index_ok db' ix"
  by (cases ix) (auto intro: objects_ok_later)

lemma same_keys_length: "same_keys db db' \<Longrightarrow> length (iv_chassis db') = length (iv_chassis db)"
  by (metis same_keys_def length_map)

lemma online_safe:
  assumes t: "transition_responding_chassis_online env now c st = Inr (c', st')"
    and o: "own m c (ss_db st)" and ix: "index_ok (ss_db st) (ss_index st)"
  shows "safe_step m 0 st st'"
proof (cases "ch_status c = ''online''")
  case True
  with t ix show ?thesis by (auto simp: transition_responding_chassis_online_def safe_step_refl)
next
  case False
  with t obtain db1 db2 row ok where
    db1: "db1 = ss_db st \<or> transition_device env now (ch_pk c) ''provisioning'' (ss_db st) = Inr (True, db1)"
    and db2: "transition_device env now (ch_pk c) ''online'' db1 = Inr (ok, db2)"
    and c': "c' = copy_fields [FStatus, FIsOnline, FLastOnline, FLastSeen] row c"
    and st': "st' = st\<lparr>ss_db := db2, ss_index := refresh_object c' (ss_index st)\<rparr>"
    by (auto simp: transition_responding_chassis_online_def mark_online_def result_simps Let_def
        split: if_splits sum.splits)
  have r: "row_of m (ch_pk c) (ss_db st)" using o by (simp add: own_def)
  have k1: "keeps_others m (ss_db st) db1 \<and> same_keys (ss_db st) db1"
    using db1 transition_keeps_others[OF _ r] transition_same_keys by auto
  then have r1: "row_of m (ch_pk c) db1" using own_later[OF o] by (simp add: own_def)
  have k: "keeps_others m (ss_db st) db2" "same_keys (ss_db st) db2"
    using k1 transition_keeps_others[OF db2 r1] transition_same_keys[OF db2]
    by (blast intro: keeps_others_trans same_keys_trans)+
  have o2: "own m c db2" using o k(1) by (rule own_later)
  have "index_ok db2 (refresh_object c' (ss_index st))"
    using index_ok_later[OF ix k(1)] o2 unfolding c'
    by (intro refresh_index_ok) (simp_all add: own_def copy_fields_manufacturer)
  with k same_keys_length[OF k(2)] show ?thesis by (simp add: safe_step_def st')
qed

lemma update_own:
  assumes u: "update_from_normalized env tn now c p b db = Inr (c', db')" and o: "own m c db"
  shows "keeps_others m db db' \<and> same_keys db db' \<and> own m c' db'"
proof -
  have r: "row_of m (ch_pk c) db" using o by (simp add: own_def)
  have K: "keeps_others m db db'" and c': "ch_pk c' = ch_pk c" "ch_manufacturer c' = ch_manufacturer c"
    using update_keeps_others[OF u r] by simp_all
  with own_later[OF o K] update_same_keys[OF u] show ?thesis by (simp add: own_def)
qed

lemma moved_safe:
  assumes u: "persist_moved_chassis env tn now c p st = Inr (c', st')"
    and o: "own m c (ss_db st)" and ix: "index_ok (ss_db st) (ss_index st)"
  shows "safe_step m 0 st st'"
proof -
  from u obtain c1 db1 mv ix' where
    u1: "update_from_normalized env tn now c p True (ss_db st) = Inr (c1, db1)"
    and mi: "move_object env c1 (text_or_none (ch_ip c)) (ss_index st) = Inr ix'"
    and t: "transition_responding_chassis_online env now c1
       (st\<lparr>ss_db := db1, ss_moves := mv, ss_index := ix'\<rparr>)
       = Inr (c', st')" (is "transition_responding_chassis_online _ _ _ ?st1 = _")
    by (auto simp: persist_moved_chassis_def result_simps Let_def)
  from update_own[OF u1 o] have K: "keeps_others m (ss_db st) db1" "same_keys (ss_db st) db1" "own m c1 db1"
    by simp_all
  have i1: "index_ok (ss_db ?st1) (ss_index ?st1)"
    using index_ok_later[OF ix K(1)] K(3) move_index_ok[OF _ _ _ mi] by (simp add: own_def)
  have "safe_step m 0 st ?st1" using K i1 same_keys_length[OF K(2)] by (simp add: safe_step_def)
  moreover have "safe_step m 0 ?st1 st'" using online_safe[OF t] K(3) i1 by simp
  ultimately show ?thesis using safe_step_trans by fastforce
qed

lemma duplicate_safe:
  assumes u: "update_duplicate env tn now c p st = Inr (out, st')"
    and o: "own m c (ss_db st)" and ix: "index_ok (ss_db st) (ss_index st)"
  shows "safe_step m 0 st st' \<and> out = Some Updated"
proof -
  from u obtain c1 db1 where
    u1: "update_from_normalized env tn now c p False (ss_db st) = Inr (c1, db1)"
    by (auto simp: update_duplicate_def result_simps)
  define st1 where "st1 = st\<lparr>ss_db := db1, ss_index := refresh_object c1 (ss_index st)\<rparr>"
  from update_own[OF u1 o] have K: "keeps_others m (ss_db st) db1" "same_keys (ss_db st) db1" "own m c1 db1"
    by simp_all
  have i1: "index_ok (ss_db st1) (ss_index st1)"
    using index_ok_later[OF ix K(1)] K(3) by (auto simp: own_def st1_def intro: refresh_index_ok)
  have s1: "safe_step m 0 st st1" using K i1 same_keys_length[OF K(2)] by (simp add: safe_step_def st1_def)
  show ?thesis
  proof (cases "ch_status c1 = ''degraded'' \<or> ch_status c1 = ''maintenance''")
    case True
    with u u1 s1 show ?thesis by (auto simp: update_duplicate_def persist_result_def st1_def Let_def)
  next
    case False
    with u u1 obtain c2 where t: "transition_responding_chassis_online env now c1 st1 = Inr (c2, st')"
      and out: "out = Some Updated"
      by (auto simp: update_duplicate_def persist_result_def st1_def Let_def result_simps)
    have "own m c1 (ss_db st1)" using K(3) by (simp add: st1_def)
    from safe_step_trans[OF s1 online_safe[OF t this i1]] out show ?thesis by simp
  qed
qed

lemma create_safe:
  assumes u: "create_new env tn now m p st = Inr (out, st')"
    and ix: "index_ok (ss_db st) (ss_index st)"
  shows "safe_step m 1 st st' \<and> out = Some Created"
proof -
  from u obtain c db1 ix' where
    u1: "create_from_normalized env tn now m p (Some ''online'') (ss_db st) = Inr (c, db1)"
    and st': "st' = st\<lparr>ss_db := db1, ss_index := ix'\<rparr>" and ai: "add_object env c (ss_index st) = Inr ix'"
    and out: "out = Some Created"
    by (auto simp: create_new_def result_simps)
  from create_keeps_others[OF u1] obtain row where K: "keeps_others m (ss_db st) db1"
    and row: "iv_chassis db1 = iv_chassis (ss_db st) @ [row]" "ch_pk row = ch_pk c" "row_of m (ch_pk c) db1"
    by blast
  have cm: "ch_manufacturer c = m"
    using u1 by (auto simp: create_from_normalized_def create_def result_simps chassis_result_def Let_def
        create_chassis_def keeps_core_def split: if_splits sum.splits option.splits
        elim!: pre_saveE dest!: prepare_lifecycle_frame)
  have "objects_ok db1 x'" if "ss_index st = Some x" "ix_add (se_clean_ipv6 env) c x = Inr x'" for x x'
  proof -
    have "objects_ok db1 x" using that index_ok_later[OF ix K] by simp
    moreover have "ix_objects x' = (ix_objects x)(ch_pk c \<mapsto> c)"
      by (rule ix_add_objects[OF that(2)])
    moreover have "ch_pk c \<in> ch_pk ` set (iv_chassis db1)" using row by simp
    moreover have "row_of (ch_manufacturer c) (ch_pk c) db1" using row(3) cm by simp
    ultimately show ?thesis by (rule objects_ok_put)
  qed
  then have "index_ok db1 ix'"
    using ai by (cases "ss_index st") (auto simp: add_object_def result_simps)
  with K row out show ?thesis by (simp add: safe_step_def st')
qed

lemma device_safe:
  assumes u: "sync_normalized_device env tn now m p st = Inr (out, st')"
    and pks: "distinct (map ch_pk (iv_chassis (ss_db st)))" and ix: "index_ok (ss_db st) (ss_index st)"
  shows "safe_step m (if out = Some Created then 1 else 0) st st'"
proof -
  let ?mac = "canonicalize_mac_address (Some (nh_mac p))"
  from u obtain d where
    d: "check_device (se_clean_ipv6 env) (se_code env) (iv_chassis (ss_db st)) (nh_serial p) ?mac (nh_ip p)
      (nh_api_id p) (Some m) (ss_index st) = Inr d"
    by (auto simp: sync_normalized_device_def result_simps)
  have owner: "own m c (ss_db st)" if "dr_existing d = Some c" "ch_manufacturer c = m" for c
  proof (cases "ss_index st")
    case None
    with check_device_existing[OF d that(1)] have "c \<in> set (iv_chassis (ss_db st))" by simp
    with pks that(2) show ?thesis
      by (auto simp: own_def row_of_def distinct_map inj_on_def)
  next
    case (Some x)
    with check_device_existing[OF d that(1)] obtain pk where "ix_objects x pk = Some c" by auto
    with ix Some that(2) show ?thesis by (auto simp: objects_ok_def own_def)
  qed
  note unf = sync_normalized_device_def d dedup_outcome_of_def
  show ?thesis
  proof (cases "dr_existing d")
    case None
    with u ix show ?thesis
      by (auto simp: unf split: if_splits dest!: create_safe intro: safe_step_refl)
  next
    case (Some c)
    note ex = this
    show ?thesis
    proof (cases "dr_outcome d = Conflict \<or> ch_manufacturer c \<noteq> m")
      case True
      with u ix ex show ?thesis by (auto simp: unf split: if_splits intro: safe_step_refl)
    next
      case False
      with owner[OF ex] have o: "own m c (ss_db st)" by simp
      note steps = moved_safe[of env tn now c p st _ st' m, OF _ o ix]
        duplicate_safe[of env tn now c p st out st' m, OF _ o ix]
        create_safe[of env tn now m p st out st', OF _ ix] safe_step_refl[OF ix]
      show ?thesis
        using u False ex steps by (cases "dr_outcome d") (auto simp: unf result_simps)
    qed
  qed
qed

text \<open>Keys stay distinct: an accepted payload writes over rows in place or appends one with the
  next key.\<close>

lemma online_keys:
  assumes "transition_responding_chassis_online env now c st = Inr (c', st')"
  shows "same_keys (ss_db st) (ss_db st')"
  using assms
  by (auto simp: transition_responding_chassis_online_def mark_online_def result_simps Let_def
      split: if_splits sum.splits dest!: transition_same_keys intro: same_keys_trans)

lemma device_keys:
  assumes u: "sync_normalized_device env tn now m p st = Inr (out, st')"
    and pks: "distinct (map ch_pk (iv_chassis (ss_db st)))"
  shows "distinct (map ch_pk (iv_chassis (ss_db st')))"
proof -
  have same: "same_keys (ss_db st) (ss_db st') \<Longrightarrow> ?thesis" using pks by (simp add: same_keys_def)
  have new: ?thesis if "create_new env tn now m p st = Inr (out, st')"
  proof -
    from that obtain c db1 where
      "create_from_normalized env tn now m p (Some ''online'') (ss_db st) = Inr (c, db1)" "ss_db st' = db1"
      by (auto simp: create_new_def result_simps)
    then obtain c0 where "create_chassis env now (c0\<lparr>ch_manufacturer := m\<rparr>) (ss_db st) = Inr (c, ss_db st')"
      by (auto simp: create_from_normalized_def create_def result_simps chassis_result_def Let_def
          split: if_splits sum.splits option.splits)
    from create_chassis_rows[OF this] pks next_pk_notin[of ch_pk "iv_chassis (ss_db st)"]
    show ?thesis by auto
  qed
  have upd: "same_keys (ss_db st) (ss_db st')" if "update_duplicate env tn now c p st = Inr (out, st')" for c
    using that
    by (auto simp: update_duplicate_def result_simps Let_def split: if_splits
        dest!: online_keys update_same_keys intro: same_keys_trans)
  have mov: "same_keys (ss_db st) (ss_db st')" if "persist_moved_chassis env tn now c p st = Inr (c', st')" for c c'
    using that
    by (auto simp: persist_moved_chassis_def result_simps Let_def
        dest!: online_keys update_same_keys intro: same_keys_trans)
  show ?thesis
    using u same new upd mov pks
    by (auto simp: sync_normalized_device_def result_simps split: if_splits option.splits)
qed

section \<open>Properties\<close>

definition batch_inv :: "nat \<Rightarrow> inventory \<Rightarrow> normalized list \<Rightarrow> sync_counts \<times> sync_state \<Rightarrow> bool" where
  "batch_inv m db done = (\<lambda>(n, st). keeps_others m db (ss_db st) \<and> index_ok (ss_db st) (ss_index st)
     \<and> distinct (map ch_pk (iv_chassis (ss_db st)))
     \<and> length (iv_chassis (ss_db st)) = length (iv_chassis db) + sc_created n
     \<and> sc_created n + sc_updated n \<le> length done)"

lemma sync_step_inv:
  assumes i: "batch_inv m db done s" and f: "sync_step env tn now m p s = Inr s'"
  shows "batch_inv m db (done @ [p]) s'"
proof -
  obtain n st where s: "s = (n, st)" by (cases s)
  from f s obtain out st' where d: "sync_normalized_device env tn now m p st = Inr (out, st')"
    and s': "s' = ((case out of None \<Rightarrow> n | Some Created \<Rightarrow> n\<lparr>sc_created := sc_created n + 1\<rparr>
      | Some Updated \<Rightarrow> n\<lparr>sc_updated := sc_updated n + 1\<rparr>), st')"
    by (auto simp: sync_step_def result_simps)
  from i s have I: "keeps_others m db (ss_db st)" "index_ok (ss_db st) (ss_index st)"
    "distinct (map ch_pk (iv_chassis (ss_db st)))" by (simp_all add: batch_inv_def)
  from device_safe[OF d I(3,2)] device_keys[OF d I(3)] I(1) i s show ?thesis
    by (cases out rule: option.exhaust[OF _ sync_outcome.exhaust])
      (auto simp: s' batch_inv_def safe_step_def intro: keeps_others_trans split: option.splits sync_outcome.splits)
qed

lemma persist_batch:
  assumes p: "persist_normalized_devices env tn now mp force mf ps (db, moves) = Inr (n, db', moves')"
    and pks: "distinct (map ch_pk (iv_chassis db))"
  shows "keeps_others (mf_pk mf) db db' \<and>
    (case n of None \<Rightarrow> (db', moves') = (db, moves) \<and> \<not> force \<and> \<not> mf_active mf
     | Some k \<Rightarrow> length (iv_chassis db') = length (iv_chassis db) + sc_created k
         \<and> sc_created k + sc_updated k \<le> length ps)"
proof (cases "\<not> force \<and> \<not> mf_active mf")
  case True
  with p show ?thesis by (auto simp: persist_normalized_devices_def)
next
  case False
  from p False obtain ix where ix: "ix_build mp (se_clean_ipv6 env) ps (mf_pk mf) (iv_chassis db) = Inr ix"
    by (auto simp: persist_normalized_devices_def result_simps)
  let ?start = "(\<lparr>sc_created = 0, sc_updated = 0\<rparr>, \<lparr>ss_db = db, ss_moves = moves, ss_index = Some ix\<rparr>)"
  from p False ix obtain k st where fold: "foldE (sync_step env tn now (mf_pk mf)) ps ?start = Inr (k, st)"
    and r: "n = Some k" "db' = ss_db st"
    by (auto simp: persist_normalized_devices_def dedup_outcome_of_def result_simps)
  have "batch_inv (mf_pk mf) db ps (k, st)"
  proof (rule foldE_indexed_invariant[OF fold])
    show "batch_inv (mf_pk mf) db [] ?start"
      using built_index_ok[OF pks ix] pks by (simp add: batch_inv_def)
  qed (rule sync_step_inv)
  with r show ?thesis by (simp add: batch_inv_def)
qed

text \<open>C6: a manufacturer's synchronisation is confined to its own inventory: whatever the vendor
  reports, no chassis of another manufacturer and no charger is changed, added or removed, and
  no row's owner changes; a failed synchronisation leaves everything as it was.\<close>

theorem sync_isolated:
  assumes pks: "distinct (map ch_pk (iv_chassis db))" and m: "sy_locked src = Some mf"
    and run: "sync_devices_for_manufacturer env tn now mp force src (db, moves) = (res, db', moves')"
  shows "other_rows (mf_pk mf) db' = other_rows (mf_pk mf) db \<and> iv_chargers db' = iv_chargers db
    \<and> keeps_others (mf_pk mf) db db'
    \<and> (\<not> sr_success res \<longrightarrow> (db', moves') = (db, moves))"
proof -
  note unf = sync_devices_for_manufacturer_def sync_batch_def Let_def m sync_failure_def sync_success_def
  have "keeps_others (mf_pk mf) db db' \<and> (\<not> sr_success res \<longrightarrow> (db', moves') = (db, moves))"
    using run
    by (auto simp: unf result_simps bindE_def split: option.splits if_splits sum.splits prod.splits
        dest!: persist_batch[OF _ pks])
  then show ?thesis by (simp add: keeps_others_def)
qed

definition sample_manufacturer :: "nat \<Rightarrow> string \<Rightarrow> bool \<Rightarrow> manufacturer" where
  "sample_manufacturer pk code active =
     \<lparr>mf_pk = pk, mf_name = code, mf_code = code, mf_active = active, mf_config = JNull\<rparr>"

definition sample_source :: "payload list \<Rightarrow> payload sync_source" where
  "sample_source devices =
     \<lparr>sy_manufacturer = Some (sample_manufacturer 7 ''shure'' True),
      sy_locked = Some (sample_manufacturer 7 ''shure'' True),
      sy_plugin = Some \<lparr>vp_devices = Inr devices, vp_transform = (\<lambda>d. Inr (Some d))\<rparr>,
      sy_settings = Map.empty\<rparr>"

definition sample_tenancy :: tenancy where
  "sample_tenancy = \<lparr>tn_installed = False, tn_locations = [], tn_organizations = []\<rparr>"

theorem sync_isolated_witness:
  "let other = sample_chassis 1 8 ''S9'' None ''10.0.0.9'' ''z'' ''online'';
       d = [(''id'', JStr ''a1''), (''ip'', JStr ''10.0.0.1''), (''serial'', JStr ''S1'')];
       (res, db', moves') = sync_devices_for_manufacturer sample_env sample_tenancy 5 None False
          (sample_source [d]) (sample_inventory [other] [], [])
   in sr_success res \<and> sr_added res = 1 \<and> other_rows 7 db' = [other]"
proof -
  let ?other = "sample_chassis 1 8 ''S9'' None ''10.0.0.9'' ''z'' ''online''"
  let ?d = "[(''id'', JStr ''a1''), (''ip'', JStr ''10.0.0.1''), (''serial'', JStr ''S1'')]"
  let ?run = "sync_devices_for_manufacturer sample_env sample_tenancy 5 None False
          (sample_source [?d]) (sample_inventory [?other] [], [])"
  obtain res db' moves' where run: "?run = (res, db', moves')" by (metis surj_pair)
  have "(\<lambda>(r, _). sr_success r \<and> sr_added r = 1) ?run" by code_simp
  with run have ok: "sr_success res \<and> sr_added res = 1" by simp
  have lock: "sy_locked (sample_source [?d]) = Some (sample_manufacturer 7 ''shure'' True)"
    by (simp add: sample_source_def)
  have "distinct (map ch_pk (iv_chassis (sample_inventory [?other] [])))"
    by (simp add: sample_inventory_def)
  from sync_isolated[OF this lock run]
  have "other_rows 7 db' = other_rows 7 (sample_inventory [?other] [])"
    by (simp only: sample_manufacturer_def manufacturer.simps)
  also have "\<dots> = [?other]"
    by (simp add: other_rows_def sample_inventory_def sample_chassis_def)
  finally show ?thesis using ok run by (simp only: Let_def prod.case)
qed

lemma normalize_length: "normalize_devices tf raws = Inr ps \<Longrightarrow> length ps \<le> length raws"
  unfolding normalize_devices_def
  by (erule foldE_indexed_invariant[where I = "\<lambda>done acc. length acc \<le> length done"])
    (auto simp: normalize_one_def result_simps split: sum.splits if_splits option.splits)

text \<open>C7: the reported counts are true: the inventory grows by exactly the devices reported as
  added, additions and updates never exceed the devices examined, which stay within the
  configured limit; an inventory that overflows the limit is reported incomplete and nothing of
  it is written.\<close>

theorem sync_counts_exact:
  assumes pks: "distinct (map ch_pk (iv_chassis db))"
    and run: "sync_devices_for_manufacturer env tn now mp force src (db, moves) = (res, db', moves')"
  shows "length (iv_chassis db') = length (iv_chassis db) + sr_added res
    \<and> sr_added res + sr_updated res \<le> sr_examined res
    \<and> (sr_success res \<longrightarrow> sr_complete res \<and> int (sr_examined res) \<le> sr_limit res)
    \<and> (\<not> sr_complete res \<longrightarrow> (db', moves') = (db, moves) \<and> int (sr_examined res) = sr_limit res + 1)
    \<and> 1 \<le> sr_limit res \<and> sr_limit res \<le> hard_max_poll_devices"
proof -
  note lim = clamped.range[of default_max_poll_devices hard_max_poll_devices "sy_settings src"]
  define limit where "limit = pl_max_devices (poll_limits_from_settings (sy_settings src))"
  have l: "1 \<le> limit" "limit \<le> hard_max_poll_devices"
    using lim by (simp_all add: limit_def poll_limits_from_settings_def default_max_poll_devices_def
        hard_max_poll_devices_def)
  note unf = sync_devices_for_manufacturer_def sync_batch_def Let_def limit_def[symmetric]
    sync_failure_def sync_success_def
  show ?thesis
  proof (cases "\<exists>m plugin ds. sy_manufacturer src = Some m \<and> (force \<or> mf_active m)
      \<and> sy_plugin src = Some plugin \<and> vp_devices plugin = Inr ds")
    case False
    with run l show ?thesis by (auto simp: unf split: option.splits if_splits sum.splits)
  next
    case True
    then obtain m plugin ds where src: "sy_manufacturer src = Some m" "force \<or> mf_active m"
      "sy_plugin src = Some plugin" "vp_devices plugin = Inr ds" by blast
    let ?batch = "consume ds limit"
    show ?thesis
    proof (cases "inventory_complete ?batch")
      case False
      with run l src(2) consume_incomplete[OF l(1) False] show ?thesis by (auto simp: unf src(1,3,4))
    next
      case True
      then have len: "int (length (ib_devices ?batch)) \<le> limit"
        by (simp add: inventory_complete_def consume_def)
      show ?thesis
        using run l True len src(2)
        by (auto simp: unf src(1,3,4) result_simps bindE_def split: option.splits if_splits sum.splits prod.splits
            dest!: persist_batch[OF _ pks] normalize_length)
    qed
  qed
qed

theorem sync_counts_exact_witness:
  "let d = (\<lambda>i a. [(''id'', JStr i), (''ip'', JStr a)]);
       src = (sample_source [d ''a1'' ''10.0.0.1'', d ''a2'' ''10.0.0.2'', d ''a3'' ''10.0.0.3''])
               \<lparr>sy_settings := [''MICBOARD_POLL_MAX_DEVICES'' \<mapsto> JInt 1]\<rparr>;
       (res, db', moves') = sync_devices_for_manufacturer sample_env sample_tenancy 5 None False src
          (sample_inventory [] [], [])
   in \<not> sr_complete res \<and> sr_examined res = 2 \<and> iv_chassis db' = []"
proof -
  let ?d = "\<lambda>i a. [(''id'', JStr i), (''ip'', JStr a)]"
  let ?src = "(sample_source [?d ''a1'' ''10.0.0.1'', ?d ''a2'' ''10.0.0.2'', ?d ''a3'' ''10.0.0.3''])
      \<lparr>sy_settings := [''MICBOARD_POLL_MAX_DEVICES'' \<mapsto> JInt 1]\<rparr>"
  let ?run = "sync_devices_for_manufacturer sample_env sample_tenancy 5 None False ?src
      (sample_inventory [] [], [])"
  obtain res db' moves' where run: "?run = (res, db', moves')" by (metis surj_pair)
  have "(\<lambda>(r, _). \<not> sr_complete r \<and> sr_limit r = 1) ?run" by code_simp
  with run have r: "\<not> sr_complete res" "sr_limit res = 1" by simp_all
  have "distinct (map ch_pk (iv_chassis (sample_inventory [] [])))" by (simp add: sample_inventory_def)
  from sync_counts_exact[OF this run] r
  have "db' = sample_inventory [] []" "int (sr_examined res) = 2" by simp_all
  then show ?thesis using r(1) by (simp only: Let_def run prod.case) (simp add: sample_inventory_def)
qed

text \<open>A responding chassis that was retired cannot be brought online, and the error ends the
  batch.\<close>

lemma retired_is_not_online:
  assumes "qs_get (\<lambda>r. ch_pk r = ch_pk c) (iv_chassis (ss_db st)) = Inr row"
    "ch_status row = ''retired''" "ch_status c = ''retired''"
  shows "transition_responding_chassis_online env now c st = Inl (NotOnline (ch_pk c))"
proof -
  have "\<not> is_valid_transition ''retired'' ''online''" by code_simp
  with assms show ?thesis
    by (simp add: transition_responding_chassis_online_def mark_online_def transition_device_def life_result_def)
qed

text \<open>one retired chassis that still answers stops its whole manufacturer: the batch fails and
  the new device reported beside it is not recorded, although without the retired one it is.\<close>

theorem retired_chassis_blocks_sync:
  "let old = sample_chassis 1 7 ''S1'' None ''10.0.0.1'' ''a1'' ''retired'';
       report = (\<lambda>i a s. [(''id'', JStr i), (''ip'', JStr a), (''serial'', JStr s)]);
       sync = (\<lambda>ds. sync_devices_for_manufacturer sample_env sample_tenancy 5 None False
                (sample_source ds) (sample_inventory [old] [], []));
       (r1, db1, _) = sync [report ''a1'' ''10.0.0.1'' ''S1'', report ''a2'' ''10.0.0.2'' ''S2''];
       (r2, db2, _) = sync [report ''a2'' ''10.0.0.2'' ''S2'']
   in \<not> sr_success r1 \<and> map ch_serial (iv_chassis db1) = [''S1'']
      \<and> sr_success r2 \<and> map ch_serial (iv_chassis db2) = [''S1'', ''S2'']"
proof -
  let ?old = "sample_chassis 1 7 ''S1'' None ''10.0.0.1'' ''a1'' ''retired''"
  let ?report = "\<lambda>i a s. [(''id'', JStr i), (''ip'', JStr a), (''serial'', JStr s)]"
  let ?sync = "\<lambda>ds. sync_devices_for_manufacturer sample_env sample_tenancy 5 None False
                (sample_source ds) (sample_inventory [?old] [], [])"
  let ?both = "?sync [?report ''a1'' ''10.0.0.1'' ''S1'', ?report ''a2'' ''10.0.0.2'' ''S2'']"
  let ?new = "?sync [?report ''a2'' ''10.0.0.2'' ''S2'']"
  have "\<not> sr_success (fst ?both)" by code_simp
  moreover have "map ch_serial (iv_chassis (fst (snd ?both))) = [''S1'']" by code_simp
  moreover have "sr_success (fst ?new)" by code_simp
  moreover have "map ch_serial (iv_chassis (fst (snd ?new))) = [''S1'', ''S2'']" by code_simp
  ultimately show ?thesis unfolding Let_def by (simp only: split_beta fst_conv snd_conv) simp
qed

text \<open>A device that reports a text with a colon that is no IPv6 address, such as an address with a port, keeps
  the index from being built: nothing of the whole batch is written.\<close>

lemma malformed_address_stops_batch:
  assumes "force \<or> mf_active mf" "p \<in> set ps" "refused_ip (se_clean_ipv6 env) (nh_ip p)"
  shows "persist_normalized_devices env tn now mp force mf ps (db, moves) = Inl (Dedup InvalidIPv6)"
  using assms by (auto simp: persist_normalized_devices_def ix_build_cases dedup_outcome_of_def Let_def)

text \<open>\<open>payload.model_dump()\<close>: the fields under their own names, which \<open>from_api\<close> reads too.\<close>

definition json_text :: "string option \<Rightarrow> json" where
  "json_text v = (case v of None \<Rightarrow> JNull | Some s \<Rightarrow> JStr s)"

definition model_dump :: "normalized \<Rightarrow> payload" where
  "model_dump p =
     [(''api_device_id'', JStr (nh_api_id p)), (''ip'', JStr (nh_ip p)),
      (''serial_number'', JStr (nh_serial p)), (''mac_address'', JStr (nh_mac p)),
      (''name'', JStr (nh_name p)), (''model'', JStr (nh_model p)),
      (''device_type'', JStr (nh_device_type p)), (''firmware_version'', JStr (nh_firmware p)),
      (''hosted_firmware_version'', JStr (nh_hosted_firmware p)),
      (''description'', JStr (nh_description p)), (''subnet_mask'', json_text (nh_subnet p)),
      (''gateway'', json_text (nh_gateway p)), (''network_mode'', JStr (nh_network_mode p)),
      (''interface_id'', JStr (nh_interface_id p))]"

definition trimmed :: "string \<Rightarrow> bool" where
  "trimmed s \<longleftrightarrow> strip s = s"

text \<open>The form of an accepted payload.\<close>

definition payload_ok :: "normalized \<Rightarrow> bool" where
  "payload_ok p \<longleftrightarrow> nh_api_id p \<noteq> [] \<and> nh_ip p \<noteq> []
     \<and> (nh_mac p = [] \<or> canonical_mac (nh_mac p))
     \<and> list_all trimmed [nh_api_id p, nh_ip p, nh_serial p, nh_name p, nh_model p, nh_device_type p,
         nh_firmware p, nh_hosted_firmware p, nh_description p, nh_network_mode p, nh_interface_id p]
     \<and> (\<forall>s. nh_subnet p = Some s \<longrightarrow> trimmed s) \<and> (\<forall>s. nh_gateway p = Some s \<longrightarrow> trimmed s)"

lemma stripped_trimmed: "stripped v = Inr s \<Longrightarrow> trimmed s"
  by (cases v) (auto simp: trimmed_def)

lemma optional_trimmed: "optional_text v = Inr (Some s) \<Longrightarrow> trimmed s"
  by (cases v) (auto simp: trimmed_def)

lemma if_Inr_Some: "(if b then Inr None else x) = Inr (Some p) \<longleftrightarrow> \<not> b \<and> x = Inr (Some p)"
  by simp

lemma from_api_ok:
  assumes "from_api d = Inr (Some p)"
  shows "payload_ok p"
  using assms[unfolded from_api_def bindE_Inr_iff if_Inr_Some]
  by (elim exE conjE)
    ((drule stripped_trimmed)+, auto simp: payload_ok_def canonicalize_canonical
      dest: optional_trimmed split: option.splits)

lemma canonicalize_empty [simp]: "canonicalize_mac_address (Some []) = None"
  by (simp add: canonicalize_mac_address_def compact_mac_def)

lemma or_empty [simp]:
  "(if s = [] then JStr [] else JStr s) = JStr s" "(if s \<noteq> [] then JStr s else JStr []) = JStr s"
  by simp_all

lemma dump_field:
  "field (model_dump p) ''id'' = JNull" "field (model_dump p) ''api_device_id'' = JStr (nh_api_id p)"
  "field (model_dump p) ''ip'' = JStr (nh_ip p)"
  "field (model_dump p) ''ipAddress'' = JNull" "field (model_dump p) ''ipv4'' = JNull"
  "field (model_dump p) ''ip_address'' = JNull"
  "field (model_dump p) ''serial_number'' = JStr (nh_serial p)"
  "field (model_dump p) ''serialNumber'' = JNull" "field (model_dump p) ''serial'' = JNull"
  "field (model_dump p) ''mac_address'' = JStr (nh_mac p)"
  "field (model_dump p) ''macAddress'' = JNull" "field (model_dump p) ''mac'' = JNull"
  "field (model_dump p) ''name'' = JStr (nh_name p)" "field (model_dump p) ''model'' = JStr (nh_model p)"
  "field (model_dump p) ''device_type'' = JStr (nh_device_type p)"
  "field (model_dump p) ''firmware'' = JNull"
  "field (model_dump p) ''firmware_version'' = JStr (nh_firmware p)"
  "field (model_dump p) ''firmwareVersion'' = JNull"
  "field (model_dump p) ''hosted_firmware_version'' = JStr (nh_hosted_firmware p)"
  "field (model_dump p) ''description'' = JStr (nh_description p)"
  "field (model_dump p) ''subnet_mask'' = json_text (nh_subnet p)"
  "field (model_dump p) ''subnetMask'' = JNull"
  "field (model_dump p) ''gateway'' = json_text (nh_gateway p)"
  "field (model_dump p) ''network_mode'' = JStr (nh_network_mode p)"
  "field (model_dump p) ''networkMode'' = JNull"
  "field (model_dump p) ''interface_id'' = JStr (nh_interface_id p)"
  "field (model_dump p) ''interfaceId'' = JNull"
  by (simp_all add: field_def model_dump_def)

lemma optional_dump: "(\<forall>s. v = Some s \<longrightarrow> trimmed s) \<Longrightarrow> optional_text (json_text v) = Inr v"
  by (cases v) (simp_all add: json_text_def trimmed_def)

lemma optional_dump_or:
  assumes "\<forall>s. v = Some s \<longrightarrow> trimmed s" "v \<noteq> Some []"
  shows "optional_text (if truthy (json_text v) then json_text v else JNull) = Inr v"
  using assms by (cases v) (simp_all add: json_text_def trimmed_def)

lemma canonical_trimmed: "s = [] \<or> canonical_mac s \<Longrightarrow> trimmed s"
proof (elim disjE)
  assume "canonical_mac s"
  moreover have "\<not> is_space c" if "is_lower_hex c" for c
    using that by (auto simp: is_lower_hex_def is_hex_def is_space_def Let_def)
  ultimately show ?thesis
    unfolding trimmed_def by (elim canonical_macE) (simp add: strip_id)
qed (simp add: trimmed_def)

text \<open>normalisation accepts only identified payloads in normal form (stripped texts, a
  canonical MAC address or none), and normalising the dump of an accepted payload gives it back,
  when its name is not blank beside a model and its network mode and subnet mask are not blank.\<close>

theorem normalization_roundtrip:
  assumes "from_api d = Inr (Some p)"
    and "nh_name p \<noteq> [] \<or> nh_model p = []" "nh_network_mode p \<noteq> []" "nh_subnet p \<noteq> Some []"
  shows "payload_ok p \<and> from_api (model_dump p) = Inr (Some p)"
proof -
  from assms(1) have ok: "payload_ok p" by (rule from_api_ok)
  have mac: "(case canonicalize_mac_address (Some (nh_mac p)) of None \<Rightarrow> [] | Some m \<Rightarrow> m) = nh_mac p"
    using ok canonicalize_of_canonical[of "nh_mac p"]
    by (auto simp: payload_ok_def split: option.split)
  have s: "strip (nh_mac p) = nh_mac p"
    using ok canonical_trimmed[of "nh_mac p"] by (simp add: payload_ok_def trimmed_def)
  have texts:
    "first_of (model_dump p) [''id'', ''api_device_id''] [] = JStr (nh_api_id p)"
    "first_of (model_dump p) [''ip'', ''ipAddress'', ''ipv4'', ''ip_address''] [] = JStr (nh_ip p)"
    "first_of (model_dump p) [''serial_number'', ''serialNumber'', ''serial''] [] = JStr (nh_serial p)"
    "first_of (model_dump p) [''mac_address'', ''macAddress'', ''mac''] [] = JStr (nh_mac p)"
    "first_of (model_dump p) [''name'', ''model''] [] = JStr (nh_name p)"
    "first_of (model_dump p) [''model''] [] = JStr (nh_model p)"
    "first_of (model_dump p) [''device_type''] [] = JStr (nh_device_type p)"
    "first_of (model_dump p) [''firmware'', ''firmware_version'', ''firmwareVersion''] [] = JStr (nh_firmware p)"
    "first_of (model_dump p) [''hosted_firmware_version''] [] = JStr (nh_hosted_firmware p)"
    "first_of (model_dump p) [''description''] [] = JStr (nh_description p)"
    "first_of (model_dump p) [''network_mode'', ''networkMode''] ''auto'' = JStr (nh_network_mode p)"
    "first_of (model_dump p) [''interface_id'', ''interfaceId''] [] = JStr (nh_interface_id p)"
    using assms(2,3) by (auto simp: dump_field)
  have nets: "optional_text (if truthy (field (model_dump p) ''subnet_mask'') then field (model_dump p) ''subnet_mask''
      else field (model_dump p) ''subnetMask'') = Inr (nh_subnet p)"
    "optional_text (field (model_dump p) ''gateway'') = Inr (nh_gateway p)"
    using ok assms(4) optional_dump_or[of "nh_subnet p"] optional_dump[of "nh_gateway p"]
    unfolding dump_field payload_ok_def by blast+
  have "from_api (model_dump p) = Inr (Some p)"
    using ok s mac unfolding from_api_def texts nets
    by (simp add: payload_ok_def trimmed_def)
  with ok show ?thesis by simp
qed

theorem normalization_roundtrip_witness:
  "let d = [(''id'', JStr '' a1 ''), (''ip'', JStr ''10.0.0.1''), (''model'', JStr ''QLXD4''),
            (''mac'', JStr ''AABBCCDDEEFF''), (''gateway'', JStr ''10.0.0.254'')]
   in \<exists>p. from_api d = Inr (Some p) \<and> nh_mac p = ''aa:bb:cc:dd:ee:ff''
        \<and> from_api (model_dump p) = Inr (Some p)"
proof -
  let ?d = "[(''id'', JStr '' a1 ''), (''ip'', JStr ''10.0.0.1''), (''model'', JStr ''QLXD4''),
            (''mac'', JStr ''AABBCCDDEEFF''), (''gateway'', JStr ''10.0.0.254'')]"
  let ?ok = "\<lambda>r. case r of Inr (Some p) \<Rightarrow> nh_mac p = ''aa:bb:cc:dd:ee:ff'' \<and> nh_name p = ''QLXD4''
      \<and> nh_network_mode p = ''auto'' \<and> nh_subnet p = None | _ \<Rightarrow> False"
  have "?ok (from_api ?d)" by code_simp
  then obtain p where "from_api ?d = Inr (Some p)" "nh_mac p = ''aa:bb:cc:dd:ee:ff''"
    "nh_name p \<noteq> []" "nh_network_mode p \<noteq> []" "nh_subnet p \<noteq> Some []"
    by (auto split: sum.splits option.splits)
  with normalization_roundtrip[of ?d p] show ?thesis unfolding Let_def by blast
qed

end
