(* ===== verification/Discovery_Sources.thy ===== *)
theory Discovery_Sources
  imports Workload_Limits "HOL-Library.Product_Lexorder"
begin

text \<open>
  Bounded local discovery sources: the rotating cursors and the shared budget of
  \<open>services/sync/discovery_source_cursor_service.py\<close>, the lazy expansion of scan definitions in
  \<open>services/sync/discovery_utils.py\<close> and the candidate pages of
  \<open>services/sync/discovery_candidate_source_service.py\<close>.

  A source is a table of primary keys and texts.  The cache is a map of keys to JSON values that
  may be down, when reads give nothing and writes are dropped; \<open>digest\<close> is the hash of the
  cursor key, a parameter.  An iterator of addresses is the list of what it yields.
\<close>

section \<open>Cursors\<close>

record cursor_cache =
  cc_entries :: "string \<rightharpoonup> json"
  cc_up :: bool

record discovery_source =
  so_name :: string
  so_rows :: "(nat \<times> string) list"

record source_page =
  pg_values :: "string list"
  pg_complete :: bool

definition cursor_key :: "(string \<Rightarrow> string) \<Rightarrow> manufacturer \<Rightarrow> string \<Rightarrow> string \<Rightarrow> string" where
  "cursor_key digest m grp source =
     ''micboard:discovery-source-cursor:v1:'' @ digest (nat_text (mf_pk m) @ '':'' @ mf_code m)
       @ '':'' @ grp @ '':'' @ source"

definition read_cursor :: "cursor_cache \<Rightarrow> string \<Rightarrow> nat" where
  "read_cursor cache key =
     (if \<not> cc_up cache then 0
      else case cc_entries cache key of
          Some (JInt n) \<Rightarrow> if n < 0 then 0 else nat n
        | _ \<Rightarrow> 0)"

definition write_cursor :: "string \<Rightarrow> nat \<Rightarrow> cursor_cache \<Rightarrow> cursor_cache" where
  "write_cursor key v cache =
     (if cc_up cache then cache\<lparr>cc_entries := (cc_entries cache)(key \<mapsto> JInt (int v))\<rparr> else cache)"

text \<open>Rows after the cursor first, then the others, each in key order.\<close>

definition cursor_bucket :: "nat \<Rightarrow> nat \<times> string \<Rightarrow> nat" where
  "cursor_bucket cursor r = (if fst r > cursor then 0 else 1)"

definition cursor_order :: "nat \<Rightarrow> (nat \<times> string) list \<Rightarrow> (nat \<times> string) list" where
  "cursor_order cursor rows = sort_key (\<lambda>r. (cursor_bucket cursor r, fst r)) rows"

definition rotating_page ::
  "(string \<Rightarrow> string) \<Rightarrow> manufacturer \<Rightarrow> string \<Rightarrow> discovery_source \<Rightarrow> int \<Rightarrow> cursor_cache
     \<Rightarrow> source_page \<times> cursor_cache"
where
  "rotating_page digest m grp so limit cache =
     (let page_limit = nat (clamp_candidate_limit limit) in
      if page_limit = 0 then (\<lparr>pg_values = [], pg_complete = (so_rows so = [])\<rparr>, cache)
      else
        (let key = cursor_key digest m grp (so_name so);
             rows = take (page_limit + 1) (cursor_order (read_cursor cache key) (so_rows so));
             selected = take page_limit rows;
             cache' = (if selected = [] then cache else write_cursor key (fst (last selected)) cache)
         in (\<lparr>pg_values = map snd selected, pg_complete = (length rows \<le> page_limit)\<rparr>, cache')))"

section \<open>One budget for several sources\<close>

text \<open>One round over the sources: each source that still has rows gets one more; the round stops
  when the budget is used up.\<close>

fun allocate_round ::
  "(string \<Rightarrow> nat) \<Rightarrow> string list \<Rightarrow> (string \<Rightarrow> nat) \<times> nat \<times> bool \<Rightarrow> (string \<Rightarrow> nat) \<times> nat \<times> bool"
where
  "allocate_round sizes [] st = st"
| "allocate_round sizes (s # ss) (a, remaining, advanced) =
     (if a s \<ge> sizes s then allocate_round sizes ss (a, remaining, advanced)
      else if remaining - 1 = 0 then (a(s := a s + 1), 0, True)
      else allocate_round sizes ss (a(s := a s + 1), remaining - 1, True))"

lemma allocate_round_measure:
  assumes "allocate_round sizes ss (a, r, adv) = (a', r', adv')" "0 < r"
  shows "r' \<le> r \<and> (adv' \<and> \<not> adv \<longrightarrow> r' < r)"
  using assms
proof (induction ss arbitrary: a r adv)
  case Nil
  then show ?case by simp
next
  case (Cons s ss)
  show ?case
  proof (cases "a s \<ge> sizes s")
    case True
    with Cons.prems Cons.IH[of a r adv] show ?thesis by auto
  next
    case False
    show ?thesis
    proof (cases "r - 1 = 0")
      case True
      with False Cons.prems show ?thesis by auto
    next
      case r1: False
      with False Cons.prems have "allocate_round sizes ss (a(s := a s + 1), r - 1, True) = (a', r', adv')"
        by simp
      from Cons.IH[OF this] r1 show ?thesis by linarith
    qed
  qed
qed

function allocate_loop ::
  "(string \<Rightarrow> nat) \<Rightarrow> string list \<Rightarrow> (string \<Rightarrow> nat) \<Rightarrow> nat \<Rightarrow> (string \<Rightarrow> nat)"
where
  "allocate_loop sizes ss a remaining =
     (if remaining = 0 then a
      else (case allocate_round sizes ss (a, remaining, False) of
          (a', remaining', advanced) \<Rightarrow>
            if advanced then allocate_loop sizes ss a' remaining' else a'))"
  by pat_completeness auto
termination
  by (relation "measure (\<lambda>(sizes, ss, a, remaining). remaining)")
    (auto dest!: allocate_round_measure[OF sym])

declare allocate_loop.simps [simp del]

definition allocate_budget :: "string list \<Rightarrow> (string \<Rightarrow> nat) \<Rightarrow> nat \<Rightarrow> string \<Rightarrow> nat" where
  "allocate_budget ss sizes limit = allocate_loop sizes ss (\<lambda>_. 0) limit"

definition bounded_size :: "(nat \<times> string) list \<Rightarrow> nat \<Rightarrow> nat" where
  "bounded_size rows limit =
     (if limit = 0 then (if rows = [] then 0 else 1) else length (take (limit + 1) rows))"

fun source_pages ::
  "(string \<Rightarrow> string) \<Rightarrow> manufacturer \<Rightarrow> string \<Rightarrow> (string \<Rightarrow> nat) \<Rightarrow> (string \<Rightarrow> nat) \<Rightarrow> discovery_source list
     \<Rightarrow> cursor_cache \<Rightarrow> (string \<times> source_page) list \<times> cursor_cache"
where
  "source_pages digest m grp sizes a [] cache = ([], cache)"
| "source_pages digest m grp sizes a (so # sos) cache =
     (let (p, cache1) =
            (if a (so_name so) \<noteq> 0 then rotating_page digest m grp so (int (a (so_name so))) cache
             else (\<lparr>pg_values = [], pg_complete = (sizes (so_name so) = 0)\<rparr>, cache));
          (ps, cache2) = source_pages digest m grp sizes a sos cache1
      in ((so_name so, p) # ps, cache2))"

definition source_sizes :: "discovery_source list \<Rightarrow> nat \<Rightarrow> string \<Rightarrow> nat" where
  "source_sizes sources limit n =
     (case map_of (map (\<lambda>so. (so_name so, bounded_size (so_rows so) limit)) sources) n of
        None \<Rightarrow> 0 | Some k \<Rightarrow> k)"

definition rotating_pages ::
  "(string \<Rightarrow> string) \<Rightarrow> manufacturer \<Rightarrow> string \<Rightarrow> discovery_source list \<Rightarrow> int \<Rightarrow> cursor_cache
     \<Rightarrow> (string \<times> source_page) list \<times> cursor_cache"
where
  "rotating_pages digest m grp sources limit cache =
     (let page_limit = nat (clamp_candidate_limit limit);
          sizes = source_sizes sources page_limit in
      if sources = [] then ([], cache)
      else if page_limit = 0
      then (map (\<lambda>so. (so_name so, \<lparr>pg_values = [], pg_complete = (sizes (so_name so) = 0)\<rparr>)) sources, cache)
      else
        (let priority_key = cursor_key digest m grp ''priority'';
             start = read_cursor cache priority_key mod length sources;
             ordered = drop start sources @ take start sources;
             a = allocate_budget (map so_name ordered) sizes page_limit;
             (pages, cache') = source_pages digest m grp sizes a ordered cache
         in (pages,
             if list_ex (\<lambda>(_, p). pg_values p \<noteq> []) pages
             then write_cursor priority_key ((start + 1) mod length sources) cache' else cache')))"

section \<open>Rotation\<close>

text \<open>The cursor order of a table is a rotation of the table in key order.\<close>

definition in_key_order :: "(nat \<times> string) list \<Rightarrow> (nat \<times> string) list" where
  "in_key_order rows = sort_key fst rows"

lemma key_order_sorted:
  assumes "distinct (map fst rows)"
  shows "sorted_wrt (\<lambda>x y. fst x < fst y) (in_key_order rows)"
proof -
  have "distinct (map fst (in_key_order rows))" "sorted (map fst (in_key_order rows))"
    using assms by (simp_all add: in_key_order_def distinct_map)
  then show ?thesis by (simp add: strict_sorted_iff sorted_wrt_map[symmetric])
qed

lemma strict_split:
  fixes xs :: "(nat \<times> string) list"
  assumes "sorted_wrt (\<lambda>x y. fst x < fst y) xs"
  shows "\<exists>i \<le> length xs. filter (\<lambda>r. fst r > c) xs = drop i xs \<and> filter (\<lambda>r. \<not> fst r > c) xs = take i xs"
  using assms
proof (induction xs)
  case Nil
  then show ?case by simp
next
  case (Cons x xs)
  show ?case
  proof (cases "fst x > c")
    case True
    with Cons.prems have all: "\<forall>y \<in> set xs. fst y > c"
      unfolding sorted_wrt.simps(2) using less_trans[of c "fst x"] by blast
    with True show ?thesis
      by (intro exI[of _ 0]) (auto simp: filter_empty_conv)
  next
    case False
    from Cons obtain i where "i \<le> length xs" "filter (\<lambda>r. fst r > c) xs = drop i xs"
      "filter (\<lambda>r. \<not> fst r > c) xs = take i xs" by auto
    with False show ?thesis by (intro exI[of _ "Suc i"]) simp
  qed
qed

lemma strict_split_at:
  fixes xs :: "(nat \<times> string) list"
  assumes "sorted_wrt (\<lambda>x y. fst x < fst y) xs" "j < length xs"
  shows "filter (\<lambda>r. fst r > fst (xs ! j)) xs = drop (Suc j) xs
    \<and> filter (\<lambda>r. \<not> fst r > fst (xs ! j)) xs = take (Suc j) xs"
  using assms
proof (induction xs arbitrary: j)
  case Nil
  then show ?case by simp
next
  case (Cons x xs)
  show ?case
  proof (cases j)
    case 0
    with Cons.prems have "filter (\<lambda>r. fst r > fst x) xs = xs" by (auto simp: filter_id_conv)
    moreover have "filter (\<lambda>r. \<not> fst r > fst x) xs = []"
      using Cons.prems by (auto simp: filter_empty_conv)
    ultimately show ?thesis using 0 by simp
  next
    case (Suc k)
    with Cons.prems have k: "k < length xs" "fst x < fst (xs ! k)" by auto
    then have "\<not> fst (xs ! k) < fst x" by simp
    with Cons Suc k show ?thesis by simp
  qed
qed

lemma sort_key_unique:
  fixes f :: "'a \<Rightarrow> 'k :: linorder"
  assumes "inj_on f (set xs)" "distinct xs" "distinct ys" "set ys = set xs" "sorted (map f ys)"
  shows "sort_key f xs = ys"
proof -
  have "map f (sort_key f xs) = map f ys"
    using assms by (intro sorted_distinct_set_unique) (simp_all add: distinct_map)
  then show ?thesis by (rule map_inj_on) (use assms in simp)
qed

lemma cursor_order_split:
  assumes d: "distinct (map fst rows)" and i: "i \<le> length (in_key_order rows)"
    "filter (\<lambda>r. fst r > c) (in_key_order rows) = drop i (in_key_order rows)"
    "filter (\<lambda>r. \<not> fst r > c) (in_key_order rows) = take i (in_key_order rows)"
  shows "cursor_order c rows = rotate i (in_key_order rows)"
proof -
  let ?S = "in_key_order rows"
  have S: "sorted_wrt (\<lambda>x y. fst x < fst y) ?S" using d by (rule key_order_sorted)
  have dS: "distinct ?S" using d by (simp add: in_key_order_def distinct_map)
  have low: "\<forall>r \<in> set (take i ?S). \<not> fst r > c" and high: "\<forall>r \<in> set (drop i ?S). fst r > c"
    unfolding i(2,3)[symmetric] by simp_all
  have "sorted_wrt (\<lambda>x y. fst x \<le> fst y) ?S" using S by (rule sorted_wrt_mono_rel[rotated]) simp
  then have parts: "sorted_wrt (\<lambda>x y. fst x \<le> fst y) (drop i ?S)"
      "sorted_wrt (\<lambda>x y. fst x \<le> fst y) (take i ?S)"
    by (simp_all add: sorted_wrt_drop sorted_wrt_take)
  let ?le = "\<lambda>x y. (cursor_bucket c x, fst x) \<le> (cursor_bucket c y, fst y)"
  have "sorted_wrt ?le (drop i ?S)" "sorted_wrt ?le (take i ?S)"
    using parts low high
    by (auto simp: cursor_bucket_def elim!: sorted_wrt_mono_rel[rotated])
  then have sorted: "sorted_wrt ?le (drop i ?S @ take i ?S)"
    using low high by (auto simp: sorted_wrt_append cursor_bucket_def)
  have "cursor_order c rows = drop i ?S @ take i ?S"
    unfolding cursor_order_def
  proof (rule sort_key_unique)
    show "inj_on (\<lambda>r. (cursor_bucket c r, fst r)) (set rows)"
      using d by (auto simp: distinct_map inj_on_def)
    show "distinct rows" using d by (simp add: distinct_map)
    show "distinct (drop i ?S @ take i ?S)"
      using dS by (metis append_take_drop_id distinct_append inf_commute)
    show "set (drop i ?S @ take i ?S) = set rows"
      by (metis Un_commute append_take_drop_id in_key_order_def set_append set_sort)
    show "sorted (map (\<lambda>r. (cursor_bucket c r, fst r)) (drop i ?S @ take i ?S))"
      using sorted by (simp only: sorted_wrt_map)
  qed
  then show ?thesis
    using i(1) by (cases "i = length ?S") (simp_all add: rotate_drop_take)
qed

lemma length_key_order [simp]: "length (in_key_order rows) = length rows"
  by (simp add: in_key_order_def)

lemma cursor_order_rotate:
  assumes d: "distinct (map fst rows)"
  obtains i where "i \<le> length rows" "cursor_order c rows = rotate i (in_key_order rows)"
  using strict_split[OF key_order_sorted[OF d], of c] cursor_order_split[OF d, of _ c] that
  by (metis length_key_order)

lemma cursor_order_at:
  assumes d: "distinct (map fst rows)" and j: "j < length rows"
  shows "cursor_order (fst (in_key_order rows ! j)) rows = rotate (Suc j) (in_key_order rows)"
  using strict_split_at[OF key_order_sorted[OF d], of j] j
  by (intro cursor_order_split[OF d]) simp_all

text \<open>One page moves the ring on by the rows it served.\<close>

lemma ring_step:
  assumes d: "distinct (map fst rows)" and k: "0 < k" "k \<le> length rows"
  shows "cursor_order (fst (last (take k (cursor_order c rows)))) rows = rotate k (cursor_order c rows)"
proof -
  let ?S = "in_key_order rows" and ?n = "length rows"
  obtain i where i: "i \<le> ?n" "cursor_order c rows = rotate i ?S" using d by (rule cursor_order_rotate)
  let ?j = "(i + (k - 1)) mod ?n"
  have j: "?j < ?n" by (rule mod_less_divisor) (use k in linarith)
  have "length (take k (rotate i ?S)) = k" using k by simp
  then have "last (take k (rotate i ?S)) = take k (rotate i ?S) ! (k - 1)"
    using k(1) by (metis last_conv_nth length_0_conv less_nat_zero_code)
  also have "\<dots> = rotate i ?S ! (k - 1)" using k(1) by simp
  also have "\<dots> = ?S ! ?j" using k by (simp add: nth_rotate)
  finally have last: "last (take k (rotate i ?S)) = ?S ! ?j" .
  have "cursor_order (fst (last (take k (cursor_order c rows)))) rows = rotate (Suc ?j) ?S"
    unfolding i(2) last by (rule cursor_order_at[OF d j])
  also have "\<dots> = rotate (Suc ?j mod ?n) ?S" using rotate_conv_mod[of "Suc ?j" ?S] by simp
  also have "Suc ?j mod ?n = (i + k) mod ?n" using k by (simp add: mod_Suc_eq)
  also have "rotate ((i + k) mod ?n) ?S = rotate (i + k) ?S" using rotate_conv_mod[of "i + k" ?S] by simp
  also have "\<dots> = rotate k (rotate i ?S)" by (simp add: rotate_rotate add.commute)
  finally show ?thesis using i(2) by simp
qed

definition ring :: "(string \<Rightarrow> string) \<Rightarrow> manufacturer \<Rightarrow> string \<Rightarrow> discovery_source \<Rightarrow> cursor_cache \<Rightarrow> (nat \<times> string) list" where
  "ring digest m grp so cache = cursor_order (read_cursor cache (cursor_key digest m grp (so_name so))) (so_rows so)"

lemma length_ring [simp]: "length (ring digest m grp so cache) = length (so_rows so)"
  by (simp add: ring_def cursor_order_def)

lemma set_ring [simp]: "set (ring digest m grp so cache) = set (so_rows so)"
  by (simp add: ring_def cursor_order_def)

lemma read_written: "cc_up cache \<Longrightarrow> read_cursor (write_cursor key v cache) key = v"
  by (simp add: read_cursor_def write_cursor_def)

lemma page_step:
  assumes d: "distinct (map fst (so_rows so))" and up: "cc_up cache"
    and L: "0 < nat (clamp_candidate_limit limit)"
    and p: "rotating_page digest m grp so limit cache = (p, cache')"
  shows "pg_values p = map snd (take (nat (clamp_candidate_limit limit)) (ring digest m grp so cache))
    \<and> cc_up cache' \<and> pg_complete p = (length (so_rows so) \<le> nat (clamp_candidate_limit limit))
    \<and> ring digest m grp so cache'
      = rotate (min (nat (clamp_candidate_limit limit)) (length (so_rows so))) (ring digest m grp so cache)"
proof -
  let ?L = "nat (clamp_candidate_limit limit)" and ?key = "cursor_key digest m grp (so_name so)"
  let ?R = "ring digest m grp so cache"
  have sel: "take ?L (take (?L + 1) ?R) = take ?L ?R" by simp
  have vals: "pg_values p = map snd (take ?L ?R)" "pg_complete p = (length (so_rows so) \<le> ?L)"
    and c': "cache' = (if take ?L ?R = [] then cache else write_cursor ?key (fst (last (take ?L ?R))) cache)"
    using p L by (auto simp: rotating_page_def Let_def ring_def[symmetric] split: if_splits)
  have "ring digest m grp so cache' = rotate (min ?L (length (so_rows so))) ?R"
  proof (cases "so_rows so = []")
    case True
    then have "?R = []" by (metis length_0_conv length_ring)
    with True c' show ?thesis by simp
  next
    case False
    let ?k = "min ?L (length (so_rows so))"
    have tk: "take ?L ?R = take ?k ?R" by (simp add: min_def)
    have ne: "take ?L ?R \<noteq> []" using L False by (metis length_0_conv length_ring length_take min_0L neq0_conv take_eq_Nil)
    then have "cache' = write_cursor ?key (fst (last (take ?k ?R))) cache"
      using c' unfolding tk by (simp only: if_False)
    then have "read_cursor cache' ?key = fst (last (take ?k ?R))"
      using read_written[OF up] by simp
    then have "ring digest m grp so cache' = cursor_order (fst (last (take ?k ?R))) (so_rows so)"
      unfolding ring_def[of digest m grp so cache'] by simp
    also have "\<dots> = rotate ?k ?R"
      unfolding ring_def by (rule ring_step[OF d]) (use L False in simp_all)
    finally show ?thesis .
  qed
  moreover have "cc_up cache'" using up by (simp add: c' write_cursor_def)
  ultimately show ?thesis using vals by simp
qed

text \<open>\<open>serve k\<close>: the pages of \<open>k\<close> consecutive calls.\<close>

fun serve ::
  "nat \<Rightarrow> (string \<Rightarrow> string) \<Rightarrow> manufacturer \<Rightarrow> string \<Rightarrow> discovery_source \<Rightarrow> int \<Rightarrow> cursor_cache
     \<Rightarrow> source_page list \<times> cursor_cache"
where
  "serve 0 digest m grp so limit cache = ([], cache)"
| "serve (Suc k) digest m grp so limit cache =
     (let (p, cache1) = rotating_page digest m grp so limit cache;
          (ps, cache2) = serve k digest m grp so limit cache1
      in (p # ps, cache2))"

definition served :: "source_page list \<Rightarrow> string list" where
  "served ps = concat (map pg_values ps)"

lemma serve_values:
  assumes d: "distinct (map fst (so_rows so))" and up: "cc_up cache"
    and L: "0 < nat (clamp_candidate_limit limit)"
  shows "served (fst (serve k digest m grp so limit cache))
    = map snd (concat (map (\<lambda>j. take (nat (clamp_candidate_limit limit))
        (rotate (j * min (nat (clamp_candidate_limit limit)) (length (so_rows so)))
           (ring digest m grp so cache))) [0..<k]))"
  using up
proof (induction k arbitrary: cache)
  case 0
  then show ?case by (simp add: served_def)
next
  case (Suc k)
  let ?L = "nat (clamp_candidate_limit limit)" and ?R = "ring digest m grp so cache"
  let ?l = "min ?L (length (so_rows so))"
  obtain p c1 where p: "rotating_page digest m grp so limit cache = (p, c1)" by (cases "rotating_page digest m grp so limit cache")
  from page_step[OF d Suc.prems L p] have v: "pg_values p = map snd (take ?L ?R)" and up1: "cc_up c1"
    and R1: "ring digest m grp so c1 = rotate ?l ?R" by simp_all
  have "served (fst (serve (Suc k) digest m grp so limit cache))
      = pg_values p @ served (fst (serve k digest m grp so limit c1))"
    by (simp add: p split_beta served_def)
  also have "\<dots> = map snd (concat (map (\<lambda>j. take ?L (rotate (j * ?l) ?R)) (0 # map Suc [0..<k])))"
    unfolding Suc.IH[OF up1] v R1 by (simp add: rotate_rotate o_def add.commute)
  also have "0 # map Suc [0..<k] = [0..<Suc k]" by (simp add: map_Suc_upt upt_conv_Cons del: upt_Suc)
  finally show ?case .
qed

lemma concat_windows:
  assumes "k * l \<le> length xs"
  shows "concat (map (\<lambda>j. take l (rotate (j * l) xs)) [0..<k]) = take (k * l) xs"
  using assms
proof (induction k)
  case 0
  then show ?case by simp
next
  case (Suc k)
  then have le: "k * l + l \<le> length xs" by (simp add: add.commute)
  then have IH: "concat (map (\<lambda>j. take l (rotate (j * l) xs)) [0..<k]) = take (k * l) xs"
    using Suc.IH by simp
  have "take l (rotate (k * l) xs) = take l (drop (k * l) xs)"
  proof (cases "k * l < length xs")
    case True
    with le show ?thesis by (simp add: rotate_drop_take)
  next
    case False
    with le show ?thesis by simp
  qed
  moreover have "take (Suc k * l) xs = take (k * l) xs @ take l (drop (k * l) xs)"
    using take_add[of "k * l" l xs] by (simp add: add.commute)
  ultimately show ?case using IH by (simp del: mult_Suc)
qed

lemma windows_cover:
  assumes "x \<in> set xs" "length xs \<le> k * l" "l \<le> length xs" "0 < l"
  shows "x \<in> set (concat (map (\<lambda>j. take l (rotate (j * l) xs)) [0..<k]))"
proof -
  from assms(1) obtain q where q: "q < length xs" "xs ! q = x" by (auto simp: in_set_conv_nth)
  let ?j = "q div l" and ?t = "q mod l"
  have j: "?j < k" using q(1) assms(2,4) by (simp add: div_less_iff_less_mult)
  have t: "?t < l" using assms(4) by simp
  with assms(3) have "rotate (?j * l) xs ! ?t = xs ! ((?j * l + ?t) mod length xs)"
    by (simp add: nth_rotate)
  also have "(?j * l + ?t) mod length xs = q" using q(1) by simp
  finally have "take l (rotate (?j * l) xs) ! ?t = x" using t q(2) by simp
  then have "x \<in> set (take l (rotate (?j * l) xs))"
    using t assms(3) by (metis length_rotate length_take min.absorb2 nth_mem)
  with j show ?thesis by auto
qed

text \<open>bounded pages are fair: while the cache answers, consecutive calls go round the source
  in key order from the row after the cursor; no row is served twice before all of them were
  served, every row is served within as many calls as its inventory has pages, and a page says it
  is complete exactly when the whole source fits it.\<close>

theorem rotating_pages_fair:
  assumes d: "distinct (map fst (so_rows so))" and up: "cc_up cache"
    and L: "L = nat (clamp_candidate_limit limit)" "0 < L"
  shows "(length (so_rows so) \<le> k * L \<longrightarrow>
        set (served (fst (serve k digest m grp so limit cache))) = snd ` set (so_rows so))
    \<and> (k * L \<le> length (so_rows so) \<longrightarrow>
        served (fst (serve k digest m grp so limit cache))
          = map snd (take (k * L) (ring digest m grp so cache)))
    \<and> set (ring digest m grp so cache) = set (so_rows so) \<and> distinct (ring digest m grp so cache)
    \<and> pg_complete (fst (rotating_page digest m grp so limit cache)) = (length (so_rows so) \<le> L)"
proof -
  let ?R = "ring digest m grp so cache" and ?n = "length (so_rows so)"
  let ?l = "min L ?n"
  have L': "0 < nat (clamp_candidate_limit limit)" using L by simp
  note vals = serve_values[OF d up L', folded L(1), of k digest m grp]
  have win: "take L (rotate i ?R) = take ?l (rotate i ?R)" for i by (simp add: min_def)
  have "set (served (fst (serve k digest m grp so limit cache))) = snd ` set (so_rows so)" if le: "?n \<le> k * L"
  proof (cases "?n = 0")
    case True
    then have "?R = []" by (metis length_0_conv length_ring)
    with True show ?thesis unfolding vals by simp
  next
    case False
    have k: "?n \<le> k * ?l" using le False by (cases "L \<le> ?n"; cases k) (auto simp: min_def)
    have "set ?R \<subseteq> set (concat (map (\<lambda>j. take ?l (rotate (j * ?l) ?R)) [0..<k]))"
      using windows_cover[of _ ?R k ?l] k False L(2) by fastforce
    moreover have "set (concat (map (\<lambda>j. take ?l (rotate (j * ?l) ?R)) [0..<k])) \<subseteq> set ?R"
      using set_take_subset by fastforce
    ultimately have "set (concat (map (\<lambda>j. take ?l (rotate (j * ?l) ?R)) [0..<k])) = set ?R" by blast
    then show ?thesis unfolding vals win set_map by simp
  qed
  moreover have "served (fst (serve k digest m grp so limit cache)) = map snd (take (k * L) ?R)"
    if le: "k * L \<le> ?n"
  proof (cases k)
    case 0
    then show ?thesis by (simp add: served_def)
  next
    case (Suc j)
    with le have "L \<le> ?n" by simp
    then have "?l = L" by simp
    then show ?thesis unfolding vals win using concat_windows[of k L ?R] le by simp
  qed
  moreover have "distinct ?R" using d by (simp add: ring_def cursor_order_def distinct_map)
  moreover have "pg_complete (fst (rotating_page digest m grp so limit cache)) = (?n \<le> L)"
    using page_step[OF d up L', of digest m grp] L(1) by (metis prod.collapse)
  ultimately show ?thesis by simp
qed

definition sample_cache :: cursor_cache where
  "sample_cache = \<lparr>cc_entries = Map.empty, cc_up = True\<rparr>"

theorem rotating_pages_fair_witness:
  "let m = \<lparr>mf_pk = 7, mf_name = ''Shure'', mf_code = ''shure'', mf_active = True, mf_config = JNull\<rparr>;
       so = \<lparr>so_name = ''configured'', so_rows = [(5, ''e''), (1, ''a''), (3, ''c'')]\<rparr>
   in served (fst (serve 1 id m ''g'' so 2 sample_cache)) = [''a'', ''c'']
      \<and> set (served (fst (serve 2 id m ''g'' so 2 sample_cache))) = {''a'', ''c'', ''e''}"
proof -
  let ?m = "\<lparr>mf_pk = 7, mf_name = ''Shure'', mf_code = ''shure'', mf_active = True, mf_config = JNull\<rparr>"
  let ?so = "\<lparr>so_name = ''configured'', so_rows = [(5, ''e''), (1, ''a''), (3, ''c'')]\<rparr>"
  have d: "distinct (map fst (so_rows ?so))" and up: "cc_up sample_cache"
    and L: "2 = nat (clamp_candidate_limit 2)" "(0::nat) < 2"
    by (simp_all add: sample_cache_def clamp_candidate_limit_def max_discovery_candidates_def)
  have r: "map snd (take 2 (ring id ?m ''g'' ?so sample_cache)) = [''a'', ''c'']" by code_simp
  from rotating_pages_fair[OF d up L, of 1 id ?m "''g''"] rotating_pages_fair[OF d up L, of 2 id ?m "''g''"] r
  show ?thesis unfolding Let_def by (auto simp: insert_commute)
qed

section \<open>The shared budget\<close>

text \<open>Between rounds every source has the same level, or all its rows when it has fewer.\<close>

lemma allocate_round_level:
  assumes "allocate_round sizes ss (a, r, adv) = (a', r', adv')" "distinct ss" "0 < r"
    "\<forall>s \<in> set ss. a s = min (sizes s) k"
  shows "\<exists>us vs. ss = us @ vs \<and> (\<forall>s \<in> set us. a' s = min (sizes s) (Suc k))
    \<and> (\<forall>s \<in> set vs. a' s = min (sizes s) k) \<and> (\<forall>s. s \<notin> set ss \<longrightarrow> a' s = a s)
    \<and> r' + sum_list (map a' ss) = r + sum_list (map a ss) \<and> (0 < r' \<longrightarrow> vs = [])
    \<and> (adv' \<longleftrightarrow> adv \<or> (\<exists>s \<in> set us. k < sizes s))"
  using assms
proof (induction ss arbitrary: a r adv)
  case Nil
  then show ?case by auto
next
  case (Cons s ss)
  have as: "a s = min (sizes s) k" using Cons.prems(4) by simp
  show ?case
  proof (cases "a s \<ge> sizes s")
    case True
    with as have sz: "sizes s \<le> k" by simp
    from True Cons.prems(1) have "allocate_round sizes ss (a, r, adv) = (a', r', adv')" by simp
    moreover have "distinct ss" "\<forall>s \<in> set ss. a s = min (sizes s) k" using Cons.prems(2,4) by simp_all
    ultimately obtain us vs where
      IH: "ss = us @ vs" "\<forall>s \<in> set us. a' s = min (sizes s) (Suc k)" "\<forall>s \<in> set vs. a' s = min (sizes s) k"
        "\<forall>x. x \<notin> set ss \<longrightarrow> a' x = a x" "r' + sum_list (map a' ss) = r + sum_list (map a ss)"
        "0 < r' \<longrightarrow> vs = []" "adv' \<longleftrightarrow> adv \<or> (\<exists>s \<in> set us. k < sizes s)"
      using Cons.IH[of a r adv] Cons.prems(3) by blast
    have "a' s = a s" using IH(4) Cons.prems(2) by simp
    with IH as sz show ?thesis by (intro exI[of _ "s # us"] exI[of _ vs]) auto
  next
    case False
    with as have sz: "k < sizes s" "a s = k" by auto
    let ?a = "a(s := a s + 1)"
    have sum: "sum_list (map ?a ss) = sum_list (map a ss)"
      using Cons.prems(2) by (intro arg_cong[where f = sum_list] map_cong) auto
    show ?thesis
    proof (cases "r - 1 = 0")
      case True
      with False Cons.prems(1,3) have res: "a' = ?a" "r' = 0" "adv'" "r = 1" by auto
      have "\<forall>x \<in> set ss. a' x = min (sizes x) k" using res(1) Cons.prems(2,4) by auto
      moreover have "sum_list (map a' ss) = sum_list (map a ss)" using sum res(1) by simp
      moreover have "a' s = Suc k" "\<forall>x. x \<notin> set (s # ss) \<longrightarrow> a' x = a x" using res(1) sz(2) by auto
      ultimately show ?thesis
        using res(2-4) sz by (intro exI[of _ "[s]"] exI[of _ ss]) auto
    next
      case r1: False
      with False Cons.prems(1) have "allocate_round sizes ss (?a, r - 1, True) = (a', r', adv')" by simp
      moreover have "distinct ss" "\<forall>x \<in> set ss. ?a x = min (sizes x) k" using Cons.prems(2,4) by auto
      moreover have "0 < r - 1" using r1 by simp
      ultimately obtain us vs where
        IH: "ss = us @ vs" "\<forall>s \<in> set us. a' s = min (sizes s) (Suc k)" "\<forall>s \<in> set vs. a' s = min (sizes s) k"
          "\<forall>x. x \<notin> set ss \<longrightarrow> a' x = ?a x" "r' + sum_list (map a' ss) = r - 1 + sum_list (map ?a ss)"
          "0 < r' \<longrightarrow> vs = []" "adv' \<longleftrightarrow> True \<or> (\<exists>s \<in> set us. k < sizes s)"
        using Cons.IH[of ?a "r - 1" True] by blast
      have "a' s = Suc k" using IH(4) Cons.prems(2) sz by simp
      with IH sz r1 sum show ?thesis by (intro exI[of _ "s # us"] exI[of _ vs]) auto
    qed
  qed
qed

definition round_robin :: "(string \<Rightarrow> nat) \<Rightarrow> string list \<Rightarrow> (string \<Rightarrow> nat) \<Rightarrow> bool" where
  "round_robin sizes ss a \<longleftrightarrow> (\<exists>k us vs. ss = us @ vs \<and> (\<forall>s \<in> set us. a s = min (sizes s) (Suc k))
     \<and> (\<forall>s \<in> set vs. a s = min (sizes s) k))"

lemma allocate_loop_level:
  assumes "distinct ss" "\<forall>s \<in> set ss. a s = min (sizes s) k"
  shows "round_robin sizes ss (allocate_loop sizes ss a r)
    \<and> (\<exists>r'. r' + sum_list (map (allocate_loop sizes ss a r) ss) = r + sum_list (map a ss)
        \<and> (r' = 0 \<or> (\<forall>s \<in> set ss. allocate_loop sizes ss a r s = sizes s)))"
  using assms
proof (induction sizes ss a r arbitrary: k rule: allocate_loop.induct)
  case (1 sizes ss a r)
  show ?case
  proof (cases "r = 0")
    case True
    then have "allocate_loop sizes ss a r = a" by (simp add: allocate_loop.simps)
    moreover have "round_robin sizes ss a"
      unfolding round_robin_def using 1(3) by (intro exI[of _ k] exI[of _ "[]"] exI[of _ ss]) simp
    ultimately show ?thesis using True by simp
  next
    case False
    obtain a' r' adv where round: "allocate_round sizes ss (a, r, False) = (a', r', adv)"
      by (cases "allocate_round sizes ss (a, r, False)")
    have "0 < r" using False by simp
    from allocate_round_level[OF round 1(2) this 1(3)] obtain us vs where
      L: "ss = us @ vs" "\<forall>s \<in> set us. a' s = min (sizes s) (Suc k)" "\<forall>s \<in> set vs. a' s = min (sizes s) k"
        "r' + sum_list (map a' ss) = r + sum_list (map a ss)" "0 < r' \<longrightarrow> vs = []"
        "adv \<longleftrightarrow> False \<or> (\<exists>s \<in> set us. k < sizes s)" by blast
    have unf: "allocate_loop sizes ss a r = (if adv then allocate_loop sizes ss a' r' else a')"
      by (subst allocate_loop.simps) (simp add: False round)
    show ?thesis
    proof (cases "adv \<and> 0 < r'")
      case True
      then have lvl: "\<forall>s \<in> set ss. a' s = min (sizes s) (Suc k)" using L(1,2,5) by auto
      from True have "allocate_loop sizes ss a r = allocate_loop sizes ss a' r'" using unf by simp
      moreover note 1(1)[OF False round[symmetric] HOL.refl _ 1(2) lvl] True
      ultimately show ?thesis using L(4) by simp
    next
      case F: False
      have eq: "allocate_loop sizes ss a r = a'"
        using F unf by (cases adv) (simp_all add: allocate_loop.simps)
      have rr: "round_robin sizes ss a'" using L(1-3) unfolding round_robin_def by blast
      have "r' = 0 \<or> (\<forall>s \<in> set ss. a' s = sizes s)"
      proof (cases "r' = 0")
        case True
        then show ?thesis ..
      next
        case False
        with F L(5,6) have "vs = []" "\<forall>s \<in> set us. sizes s \<le> k" by auto
        with L(1,2) show ?thesis by auto
      qed
      with rr L(4) show ?thesis unfolding eq by blast
    qed
  qed
qed

lemma round_robin_bound: "round_robin sizes ss a \<Longrightarrow> s \<in> set ss \<Longrightarrow> a s \<le> sizes s"
  by (auto simp: round_robin_def)

lemma round_robin_fair:
  "round_robin sizes ss a \<Longrightarrow> s \<in> set ss \<Longrightarrow> t \<in> set ss \<Longrightarrow> a s < sizes s \<Longrightarrow> a t \<le> Suc (a s)"
  by (auto simp: round_robin_def)

lemma allocate_budget_sum:
  assumes "distinct ss"
  shows "round_robin sizes ss (allocate_budget ss sizes limit)
    \<and> sum_list (map (allocate_budget ss sizes limit) ss) = min limit (sum_list (map sizes ss))"
proof -
  let ?a = "allocate_budget ss sizes limit"
  have zero: "\<forall>s \<in> set ss. (\<lambda>_. 0) s = min (sizes s) 0" by simp
  have z: "sum_list (map (\<lambda>_. 0::nat) ss) = 0" by (induction ss) simp_all
  from allocate_loop_level[OF assms zero, of limit] obtain r' where
    rr: "round_robin sizes ss ?a" and r: "r' + sum_list (map ?a ss) = limit"
      "r' = 0 \<or> (\<forall>s \<in> set ss. ?a s = sizes s)"
    unfolding allocate_budget_def z by auto
  have le: "sum_list (map ?a ss) \<le> sum_list (map sizes ss)"
    by (rule sum_list_mono) (rule round_robin_bound[OF rr])
  have same: "map ?a ss = map sizes ss" if "r' \<noteq> 0" using that r(2) by auto
  have "sum_list (map ?a ss) = min limit (sum_list (map sizes ss))"
  proof (cases "r' = 0")
    case True
    with r(1) le show ?thesis by simp
  next
    case False
    show ?thesis using r(1) unfolding same[OF False] by simp
  qed
  with rr show ?thesis by blast
qed

text \<open>C18: the budget shared by several sources is spent exactly and fairly: the allocations sum
  up to the budget or, when they are smaller, to all sources together; no source gets more than
  it has, and a source that does not get all of its rows is never more than one behind another.\<close>

theorem allocation_exact_and_fair:
  assumes "distinct ss"
  shows "sum_list (map (allocate_budget ss sizes limit) ss) = min limit (sum_list (map sizes ss))
    \<and> (\<forall>s \<in> set ss. allocate_budget ss sizes limit s \<le> sizes s)
    \<and> (\<forall>s \<in> set ss. \<forall>t \<in> set ss. allocate_budget ss sizes limit s < sizes s \<longrightarrow>
         allocate_budget ss sizes limit t \<le> Suc (allocate_budget ss sizes limit s))"
  using allocate_budget_sum[OF assms, of sizes limit] round_robin_bound round_robin_fair by blast

theorem allocation_exact_and_fair_witness:
  "let a = allocate_budget [''x'', ''y''] ((\<lambda>_. 0)(''x'' := 1, ''y'' := 9)) 5
   in a ''x'' + a ''y'' = 5 \<and> a ''x'' \<le> 1"
  using allocation_exact_and_fair[of "[''x'', ''y'']" "(\<lambda>_. 0)(''x'' := 1, ''y'' := 9)" 5]
  by (simp add: Let_def)

section \<open>Pages of several sources\<close>

lemma page_size:
  assumes "0 < k" "int k \<le> max_discovery_candidates"
    "rotating_page digest m grp so (int k) cache = (p, cache')"
  shows "length (pg_values p) = min k (length (so_rows so))
    \<and> pg_complete p = (length (so_rows so) \<le> k) \<and> set (pg_values p) \<subseteq> snd ` set (so_rows so)"
proof -
  have c: "clamp_candidate_limit (int k) = int k" using assms(2) by (simp add: clamp_candidate_limit_def)
  let ?R = "ring digest m grp so cache"
  from assms have "pg_values p = map snd (take k ?R)" "pg_complete p = (length (so_rows so) \<le> k)"
    by (auto simp: rotating_page_def Let_def c ring_def[symmetric] split: if_splits)
  moreover have "set (take k ?R) \<subseteq> set (so_rows so)" using set_take_subset[of k ?R] by simp
  ultimately show ?thesis by (auto simp: min.commute)
qed

lemma source_pages_spec:
  assumes "source_pages digest m grp sizes a sos cache = (ps, cache')"
    and "\<forall>so \<in> set sos. sizes (so_name so) = 0 \<longleftrightarrow> so_rows so = []"
    and "\<forall>so \<in> set sos. int (a (so_name so)) \<le> max_discovery_candidates \<and> a (so_name so) \<le> length (so_rows so)"
  shows "map fst ps = map so_name sos
    \<and> sum_list (map (\<lambda>(_, p). length (pg_values p)) ps) = sum_list (map (\<lambda>so. a (so_name so)) sos)
    \<and> (list_all (\<lambda>(_, p). pg_complete p) ps \<longleftrightarrow> list_all (\<lambda>so. a (so_name so) = length (so_rows so)) sos)
    \<and> list_all2 (\<lambda>so (_, p). set (pg_values p) \<subseteq> snd ` set (so_rows so)) sos ps"
  using assms
proof (induction sos arbitrary: cache ps cache')
  case Nil
  then show ?case by simp
next
  case (Cons so sos)
  obtain p c1 where p: "(if a (so_name so) \<noteq> 0 then rotating_page digest m grp so (int (a (so_name so))) cache
      else (\<lparr>pg_values = [], pg_complete = (sizes (so_name so) = 0)\<rparr>, cache)) = (p, c1)"
    by (metis surj_pair)
  obtain qs c2 where qs: "source_pages digest m grp sizes a sos c1 = (qs, c2)" by (metis surj_pair)
  have ps: "ps = (so_name so, p) # qs" using Cons.prems(1) unfolding source_pages.simps p
    by (simp add: qs)
  have head: "length (pg_values p) = a (so_name so)
      \<and> (pg_complete p \<longleftrightarrow> a (so_name so) = length (so_rows so)) \<and> set (pg_values p) \<subseteq> snd ` set (so_rows so)"
  proof (cases "a (so_name so) = 0")
    case True
    with p Cons.prems(2) show ?thesis by auto
  next
    case False
    with p have "rotating_page digest m grp so (int (a (so_name so))) cache = (p, c1)" by simp
    from page_size[OF _ _ this] False Cons.prems(3) show ?thesis by auto
  qed
  from Cons.IH[OF qs] Cons.prems(2,3) head show ?case by (simp add: ps)
qed

lemma bounded_size_min: "0 < limit \<Longrightarrow> bounded_size rows limit = min (limit + 1) (length rows)"
  by (simp add: bounded_size_def min.commute)

lemma source_sizes_of:
  assumes "distinct (map so_name sources)" "so \<in> set sources"
  shows "source_sizes sources limit (so_name so) = bounded_size (so_rows so) limit"
proof -
  have "(so_name so, bounded_size (so_rows so) limit)
      \<in> set (map (\<lambda>so. (so_name so, bounded_size (so_rows so) limit)) sources)" using assms(2) by force
  moreover have "distinct (map fst (map (\<lambda>so. (so_name so, bounded_size (so_rows so) limit)) sources))"
    using assms(1) by (simp add: o_def)
  ultimately have "map_of (map (\<lambda>so. (so_name so, bounded_size (so_rows so) limit)) sources) (so_name so)
      = Some (bounded_size (so_rows so) limit)" by (rule map_of_is_SomeI[rotated])
  then show ?thesis by (simp add: source_sizes_def)
qed

lemma min_sum_bounded:
  "min l (sum_list (map (\<lambda>x. min (Suc l) (f x)) xs)) = min l (sum_list (map f xs))"
proof (induction xs)
  case (Cons x xs)
  then show ?case by (auto simp: min_def split: if_splits)
qed simp

lemma all_equal_iff_sum:
  assumes "\<forall>x \<in> set xs. a x \<le> (f x :: nat)"
  shows "list_all (\<lambda>x. a x = f x) xs \<longleftrightarrow> sum_list (map a xs) = sum_list (map f xs)"
  using assms
proof (induction xs)
  case (Cons x xs)
  have "sum_list (map a xs) \<le> sum_list (map f xs)" using Cons.prems by (intro sum_list_mono) auto
  with Cons show ?case by auto
qed simp

lemma sum_rotated:
  "sum_list (map f (drop i xs @ take i xs)) = (sum_list (map f xs) :: nat)"
  by (metis add.commute append_take_drop_id map_append sum_list.append)

text \<open>The pages of all sources together fill the budget exactly: they hold as many values as
  the budget allows and the sources have, every value comes from its own source, and all pages
  are complete exactly when the whole inventory fits the budget, whatever the cursors are and
  even while the cache is down.\<close>

theorem pages_fill_budget:
  assumes names: "distinct (map so_name sources)"
    and pages: "rotating_pages digest m grp sources limit cache = (pages, cache')"
  shows "sum_list (map (\<lambda>(_, p). length (pg_values p)) pages)
      = min (nat (clamp_candidate_limit limit)) (sum_list (map (\<lambda>so. length (so_rows so)) sources))
    \<and> (list_all (\<lambda>(_, p). pg_complete p) pages
        \<longleftrightarrow> sum_list (map (\<lambda>so. length (so_rows so)) sources) \<le> nat (clamp_candidate_limit limit))
    \<and> set (map fst pages) = set (map so_name sources)
    \<and> (\<forall>so \<in> set sources. \<forall>p. (so_name so, p) \<in> set pages \<longrightarrow> set (pg_values p) \<subseteq> snd ` set (so_rows so))"
proof -
  let ?l = "nat (clamp_candidate_limit limit)" and ?n = "\<lambda>so. length (so_rows so)"
  let ?sizes = "source_sizes sources ?l"
  have size: "so \<in> set sources \<Longrightarrow> ?sizes (so_name so) = bounded_size (so_rows so) ?l" for so
    by (rule source_sizes_of[OF names])
  consider (none) "sources = []" | (zero) "sources \<noteq> []" "?l = 0" | (some) "sources \<noteq> []" "0 < ?l"
    by (metis neq0_conv)
  then show ?thesis
  proof cases
    case none
    with pages show ?thesis by (simp add: rotating_pages_def Let_def)
  next
    case zero
    with pages have ps: "pages = map (\<lambda>so. (so_name so, \<lparr>pg_values = [], pg_complete = (?sizes (so_name so) = 0)\<rparr>)) sources"
      by (simp add: rotating_pages_def Let_def)
    have "list_all (\<lambda>so. ?sizes (so_name so) = 0) sources \<longleftrightarrow> list_all (\<lambda>so. so_rows so = []) sources"
      using size zero(2) by (auto simp: list_all_iff bounded_size_def)
    moreover have "list_all (\<lambda>so. so_rows so = []) sources \<longleftrightarrow> sum_list (map ?n sources) = 0"
      by (auto simp: list_all_iff)
    moreover have "sum_list (map (\<lambda>(_, p). length (pg_values p)) pages) = 0"
      unfolding ps by (induction sources) simp_all
    ultimately show ?thesis using zero(2) by (auto simp: ps list_all_iff)
  next
    case some
    define start where "start = read_cursor cache (cursor_key digest m grp ''priority'') mod length sources"
    define ordered where "ordered = drop start sources @ take start sources"
    define a where "a = allocate_budget (map so_name ordered) ?sizes ?l"
    obtain c1 where sp: "source_pages digest m grp ?sizes a ordered cache = (pages, c1)"
      using pages some
      by (auto simp: rotating_pages_def Let_def start_def ordered_def a_def split: prod.splits)
    have set_ord: "set ordered = set sources"
      unfolding ordered_def by (metis Un_commute append_take_drop_id set_append)
    have dist: "distinct (map so_name ordered)"
      using names unfolding ordered_def map_append
      by (metis append_take_drop_id distinct_append inf_commute map_append)
    have sz: "?sizes (so_name so) = min (Suc ?l) (?n so)" if "so \<in> set ordered" for so
      using size[of so] that some(2) by (simp add: set_ord bounded_size_min)
    have sum_sz: "sum_list (map ?sizes (map so_name ordered)) = sum_list (map (\<lambda>so. min (Suc ?l) (?n so)) ordered)"
      unfolding map_map o_def by (intro arg_cong[where f = sum_list] map_cong) (simp_all add: sz)
    from allocate_budget_sum[OF dist, of ?sizes ?l] have rr: "round_robin ?sizes (map so_name ordered) a"
      and sum: "sum_list (map a (map so_name ordered)) = min ?l (sum_list (map ?n ordered))"
      unfolding a_def sum_sz min_sum_bounded by simp_all
    have a_le: "a (so_name so) \<le> ?n so" "int (a (so_name so)) \<le> max_discovery_candidates"
      if "so \<in> set ordered" for so
    proof -
      have "a (so_name so) \<le> ?sizes (so_name so)"
        using that by (intro round_robin_bound[OF rr]) simp
      then show "a (so_name so) \<le> ?n so" using sz[OF that] by simp
      have "a (so_name so) \<le> sum_list (map a (map so_name ordered))"
        using that by (intro member_le_sum_list) simp_all
      also have "\<dots> \<le> ?l" unfolding sum by simp
      finally show "int (a (so_name so)) \<le> max_discovery_candidates"
        using clamp_candidate_limit_range[of limit] by linarith
    qed
    have "\<forall>so \<in> set ordered. ?sizes (so_name so) = 0 \<longleftrightarrow> so_rows so = []" by (auto simp: sz min_def)
    from source_pages_spec[OF sp this] a_le
    have P: "map fst pages = map so_name ordered"
      "sum_list (map (\<lambda>(_, p). length (pg_values p)) pages) = sum_list (map (\<lambda>so. a (so_name so)) ordered)"
      "list_all (\<lambda>(_, p). pg_complete p) pages \<longleftrightarrow> list_all (\<lambda>so. a (so_name so) = ?n so) ordered"
      "list_all2 (\<lambda>so (_, p). set (pg_values p) \<subseteq> snd ` set (so_rows so)) ordered pages" by simp_all
    have sum': "sum_list (map (\<lambda>so. a (so_name so)) ordered) = min ?l (sum_list (map ?n ordered))"
      using sum by (simp add: o_def)
    have "list_all (\<lambda>so. a (so_name so) = ?n so) ordered \<longleftrightarrow> sum_list (map ?n ordered) \<le> ?l"
      using all_equal_iff_sum[of ordered "\<lambda>so. a (so_name so)" ?n] a_le(1) sum' by auto
    moreover have "set (pg_values p) \<subseteq> snd ` set (so_rows so)"
      if "so \<in> set sources" "(so_name so, p) \<in> set pages" for so p
    proof -
      from that(2) obtain i where i: "i < length pages" "pages ! i = (so_name so, p)" by (auto simp: in_set_conv_nth)
      then have len: "i < length ordered" using P(4) by (simp add: list_all2_lengthD)
      have "so_name (ordered ! i) = so_name so" using P(1) i len by (metis fst_conv nth_map)
      then have "ordered ! i = so"
        using dist that(1) len set_ord by (metis distinct_map inj_onD nth_mem)
      with list_all2_nthD2[OF P(4) i(1)] i(2) show ?thesis by simp
    qed
    moreover have "set (map fst pages) = set (map so_name sources)" unfolding P(1) by (simp add: set_ord)
    ultimately show ?thesis
      using P(2,3) sum' sum_rotated[of ?n start sources] unfolding ordered_def by simp
  qed
qed

theorem pages_fill_budget_witness:
  "let m = \<lparr>mf_pk = 7, mf_name = ''Shure'', mf_code = ''shure'', mf_active = True, mf_config = JNull\<rparr>;
       sources = [\<lparr>so_name = ''configured'', so_rows = [(1, ''a''), (2, ''b''), (3, ''c'')]\<rparr>,
                  \<lparr>so_name = ''staged'', so_rows = [(9, ''z'')]\<rparr>]
   in sum_list (map (\<lambda>(_, p). length (pg_values p)) (fst (rotating_pages id m ''g'' sources 3 sample_cache))) = 3
      \<and> \<not> list_all (\<lambda>(_, p). pg_complete p) (fst (rotating_pages id m ''g'' sources 3 sample_cache))"
proof -
  let ?m = "\<lparr>mf_pk = 7, mf_name = ''Shure'', mf_code = ''shure'', mf_active = True, mf_config = JNull\<rparr>"
  let ?s = "[\<lparr>so_name = ''configured'', so_rows = [(1, ''a''), (2, ''b''), (3, ''c'')]\<rparr>,
                  \<lparr>so_name = ''staged'', so_rows = [(9, ''z'')]\<rparr>]"
  have "distinct (map so_name ?s)" by simp
  from pages_fill_budget[OF this prod.collapse[symmetric], of id ?m "''g''" 3 sample_cache]
  show ?thesis unfolding Let_def
    by (simp add: clamp_candidate_limit_def max_discovery_candidates_def)
qed

end
