(* ===== verification/Scan_Expansion.thy ===== *)
theory Scan_Expansion
  imports Discovery_Sources "HOL-Library.Multiset" "HOL-Library.Char_ord" "HOL-Library.List_Lexorder"
begin

text \<open>
  Expansion of scan definitions under one address budget (\<open>services/sync/discovery_utils.py\<close>,
  \<open>discovery/network_utils.py\<close>) and the candidate pages built from it
  (\<open>services/sync/discovery_candidate_source_service.py\<close>).

  \<open>ip_network_hosts\<close> is \<open>ipaddress.ip_network(text, strict=False).hosts()\<close> with its elements
  printed; the name lookup of the host is a parameter.
\<close>

section \<open>Networks\<close>

text \<open>A decimal prefix length, or for IPv4 a contiguous netmask or host msk.\<close>

definition prefix_of_digits :: "nat \<Rightarrow> string \<Rightarrow> nat option" where
  "prefix_of_digits width s =
     (if s = [] \<or> \<not> list_all dec_digit s then None
      else (let n = text_val 10 s in if n \<le> width then Some n else None))"

fun prefix_of_mask :: "nat \<Rightarrow> nat \<Rightarrow> nat option" where
  "prefix_of_mask width msk = find (\<lambda>p. msk = 2 ^ width - 2 ^ (width - p)) [0..<Suc width]"

definition ipv4_prefix :: "string \<Rightarrow> nat option" where
  "ipv4_prefix s =
     (case prefix_of_digits 32 s of Some p \<Rightarrow> Some p
      | None \<Rightarrow> (case parse_ipv4 s of None \<Rightarrow> None
          | Some m \<Rightarrow> (case prefix_of_mask 32 m of Some p \<Rightarrow> Some p
              | None \<Rightarrow> prefix_of_mask 32 (2 ^ 32 - 1 - m))))"

definition ipv4_hosts :: "nat \<Rightarrow> nat \<Rightarrow> string list" where
  "ipv4_hosts n p =
     (let size = 2 ^ (32 - p); base = n - n mod size in
      map print_ipv4
        (if p = 32 then [n] else if p = 31 then [base, base + 1] else [base + 1..<base + size - 1]))"

definition ipv6_hosts :: "ip_address \<Rightarrow> nat \<Rightarrow> nat \<Rightarrow> string list" where
  "ipv6_hosts a n p =
     (let size = 2 ^ (128 - p); base = n - n mod size in
      if p = 128 then [text_of_ip a]
      else map print_ipv6 (if p = 127 then [base, base + 1] else [base + 1..<base + size]))"

definition ipv4_network_hosts :: "string \<Rightarrow> string option \<Rightarrow> string list option" where
  "ipv4_network_hosts addr msk =
     (case (parse_ipv4 addr, case msk of None \<Rightarrow> Some 32 | Some m \<Rightarrow> ipv4_prefix m) of
        (Some n, Some p) \<Rightarrow> Some (ipv4_hosts n p) | _ \<Rightarrow> None)"

definition ipv6_network_hosts :: "string \<Rightarrow> string option \<Rightarrow> string list option" where
  "ipv6_network_hosts addr msk =
     (case (parse_ipv6 addr, case msk of None \<Rightarrow> Some 128 | Some m \<Rightarrow> prefix_of_digits 128 m) of
        (Some (IPv6 n scope), Some p) \<Rightarrow> Some (ipv6_hosts (IPv6 n scope) n p) | _ \<Rightarrow> None)"

definition ip_network_hosts :: "string \<Rightarrow> string list option" where
  "ip_network_hosts s =
     (case (case split_on CHR ''/'' s of [a] \<Rightarrow> Some (a, None) | [a, m] \<Rightarrow> Some (a, Some m) | _ \<Rightarrow> None) of
        None \<Rightarrow> None
      | Some (a, m) \<Rightarrow> (case ipv4_network_hosts a m of Some hs \<Rightarrow> Some hs | None \<Rightarrow> ipv6_network_hosts a m))"

lemma network_examples:
  "ip_network_hosts ''10.0.0.5/30'' = Some [''10.0.0.5'', ''10.0.0.6'']"
  "ip_network_hosts ''10.0.0.4/255.255.255.254'' = Some [''10.0.0.4'', ''10.0.0.5'']"
  "ip_network_hosts ''10.0.0.4/0.0.0.3'' = Some [''10.0.0.5'', ''10.0.0.6'']"
  "ip_network_hosts ''10.0.0.4/33'' = None"
  by code_simp+

section \<open>Iterators\<close>

type_synonym address_iterator = "string \<times> string \<times> string list"

datatype lookup = Resolved "string list" | LookupFailed | LookupCrashed

fun build_cidr_iterators :: "string list \<Rightarrow> address_iterator list \<times> bool" where
  "build_cidr_iterators [] = ([], True)"
| "build_cidr_iterators (c # cs) =
     (let (its, ok) = build_cidr_iterators cs in
      case ip_network_hosts c of None \<Rightarrow> (its, False) | Some hs \<Rightarrow> ((''cidrs'', c, hs) # its, ok))"

text \<open>\<open>resolve_fqdns\<close>: a failed lookup keeps its name with no address; the addresses are a sorted set.\<close>

definition resolved_addresses :: "lookup \<Rightarrow> string list" where
  "resolved_addresses l = (case l of Resolved xs \<Rightarrow> sort (remdups xs) | _ \<Rightarrow> [])"

definition build_fqdn_iterators :: "(string \<Rightarrow> lookup) \<Rightarrow> string list \<Rightarrow> address_iterator list \<times> bool" where
  "build_fqdn_iterators resolve fqdns =
     (if list_ex (\<lambda>f. resolve f = LookupCrashed) fqdns then ([], False)
      else (map (\<lambda>f. (''fqdns'', f, resolved_addresses (resolve f))) fqdns,
            list_all (\<lambda>f. resolve f \<noteq> LookupFailed) fqdns))"

record expansion =
  ex_cidrs :: "(string \<times> string list) list"
  ex_fqdns :: "(string \<times> string list) list"
  ex_total :: nat

definition add_address :: "string \<Rightarrow> string \<Rightarrow> string \<Rightarrow> expansion \<Rightarrow> expansion" where
  "add_address source key a ex =
     (if source = ''cidrs''
      then ex\<lparr>ex_cidrs := dict_push key a (ex_cidrs ex), ex_total := ex_total ex + 1\<rparr>
      else ex\<lparr>ex_fqdns := dict_push key a (ex_fqdns ex), ex_total := ex_total ex + 1\<rparr>)"

text \<open>One round: every active iterator gives one address; at the limit the rest of the round stays
  active untouched.\<close>

fun consume_round ::
  "nat \<Rightarrow> address_iterator list \<Rightarrow> expansion \<Rightarrow> address_iterator list \<Rightarrow> expansion \<times> address_iterator list"
where
  "consume_round limit [] ex next = (ex, next)"
| "consume_round limit ((source, key, []) # rest) ex next = consume_round limit rest ex next"
| "consume_round limit ((source, key, a # as) # rest) ex next =
     (let ex' = add_address source key a ex in
      if ex_total ex' = limit then (ex', next @ (source, key, as) # rest)
      else consume_round limit rest ex' (next @ [(source, key, as)]))"

definition pending :: "address_iterator list \<Rightarrow> string list" where
  "pending its = concat (map (\<lambda>(_, _, xs). xs) its)"

lemma pending_simps [simp]:
  "pending [] = []" "pending ((s, k, xs) # its) = xs @ pending its"
  "pending (its @ its') = pending its @ pending its'"
  by (simp_all add: pending_def)

lemma add_address_total [simp]: "ex_total (add_address s k a ex) = Suc (ex_total ex)"
  by (simp add: add_address_def)

lemma consume_round_measure:
  assumes "consume_round limit its ex next = (ex', next')"
  shows "length (pending next') + length next' \<le> length (pending its) + length its + length (pending next) + length next
    \<and> (its \<noteq> [] \<longrightarrow>
        length (pending next') + length next' < length (pending its) + length its + length (pending next) + length next)"
  using assms
proof (induction limit its ex "next" arbitrary: ex' next' rule: consume_round.induct)
  case (1 limit ex "next")
  then show ?case by simp
next
  case (2 limit source key rest ex "next")
  from 2(1)[of ex' next'] 2(2) show ?case by auto
next
  case (3 limit source key a as rest ex "next")
  show ?case
  proof (cases "ex_total (add_address source key a ex) = limit")
    case True
    with 3(2) have "next' = next @ (source, key, as) # rest" by (auto simp: Let_def)
    then show ?thesis by simp
  next
    case False
    with 3(2) have "consume_round limit rest (add_address source key a ex) (next @ [(source, key, as)]) = (ex', next')"
      by (simp add: Let_def)
    from 3(1)[OF HOL.refl False this] show ?thesis by auto
  qed
qed

function consume_loop :: "nat \<Rightarrow> address_iterator list \<Rightarrow> expansion \<Rightarrow> expansion \<times> address_iterator list" where
  "consume_loop limit active ex =
     (if active = [] \<or> ex_total ex \<ge> limit then (ex, active)
      else (case consume_round limit active ex [] of (ex', next) \<Rightarrow> consume_loop limit next ex'))"
  by pat_completeness auto
termination
  by (relation "measure (\<lambda>(limit, active, ex). length (pending active) + length active)")
    (auto dest!: consume_round_measure[OF sym])

declare consume_loop.simps [simp del]

text \<open>\<open>_consume_address_iterators\<close>: the loop, then one look at each iterator left.\<close>

definition consume_address_iterators ::
  "nat \<Rightarrow> address_iterator list \<Rightarrow> expansion \<Rightarrow> expansion \<times> bool"
where
  "consume_address_iterators limit active ex =
     (let (ex', left) = consume_loop limit active ex
      in (ex', left = [] \<or> \<not> list_ex (\<lambda>(_, _, xs). xs \<noteq> []) left))"

definition empty_map :: "string list \<Rightarrow> (string \<times> string list) list" where
  "empty_map ks = map (\<lambda>k. (k, [])) (fromkeys ks)"

definition expand_scanning_sources ::
  "(string \<Rightarrow> lookup) \<Rightarrow> string list \<Rightarrow> string list \<Rightarrow> int \<Rightarrow> string list \<Rightarrow> expansion \<times> bool"
where
  "expand_scanning_sources resolve cidrs fqdns max_hosts source_order =
     (let limit = nat (clamp_candidate_limit max_hosts);
          (cidr_its, cidrs_ok) = build_cidr_iterators cidrs;
          (fqdn_its, fqdns_ok) = build_fqdn_iterators resolve fqdns;
          names = filter (\<lambda>n. n = ''cidrs'' \<or> n = ''fqdns'') (fromkeys (source_order @ [''cidrs'', ''fqdns'']));
          active = concat (map (\<lambda>n. if n = ''cidrs'' then cidr_its else fqdn_its) names);
          (ex, its_ok) = consume_address_iterators limit active
            \<lparr>ex_cidrs = empty_map cidrs, ex_fqdns = empty_map fqdns, ex_total = 0\<rparr>
      in (ex, cidrs_ok \<and> fqdns_ok \<and> its_ok))"

text \<open>\<open>expand_cidrs\<close>: the addresses of all ranges in order, invalid ranges skipped, cut at the budget.\<close>

fun expand_cidrs_from :: "string list \<Rightarrow> nat \<Rightarrow> string list" where
  "expand_cidrs_from [] remaining = []"
| "expand_cidrs_from (c # cs) remaining =
     (case ip_network_hosts c of
        None \<Rightarrow> expand_cidrs_from cs remaining
      | Some hs \<Rightarrow>
          (let taken = take remaining hs; left = remaining - length taken
           in taken @ (if left = 0 then [] else expand_cidrs_from cs left)))"

definition expand_cidrs :: "string list \<Rightarrow> int \<Rightarrow> string list" where
  "expand_cidrs cidrs max_hosts =
     (let remaining = nat (clamp_candidate_limit max_hosts) in
      if remaining = 0 then [] else expand_cidrs_from cidrs remaining)"

definition dedupe_preserve_order :: "string list \<Rightarrow> string list" where
  "dedupe_preserve_order items =
     snd (fold (\<lambda>it (seen, deduped). if it \<in> set seen then (seen, deduped) else (it # seen, deduped @ [it]))
            items ([], []))"

section \<open>Candidate pages\<close>

record scan_definition =
  sd_pk :: nat
  sd_manufacturer :: nat
  sd_text :: string

record discovered_device =
  dd_pk :: nat
  dd_ip :: string
  dd_api_id :: string
  dd_device_type :: string
  dd_model :: string
  dd_channels :: nat
  dd_manufacturer :: "nat option"
  dd_status :: string
  dd_metadata :: json
  dd_discovered_at :: time
  dd_updated :: time
  dd_notes :: string

record candidate_page =
  cp_candidates :: "string list"
  cp_complete :: bool

record scan_source_page =
  sp_cidrs :: "string list"
  sp_fqdns :: "string list"
  sp_order :: "string list"
  sp_complete :: bool

definition definition_source :: "string \<Rightarrow> manufacturer \<Rightarrow> scan_definition list \<Rightarrow> discovery_source" where
  "definition_source name m defs =
     \<lparr>so_name = name,
      so_rows = map (\<lambda>d. (sd_pk d, sd_text d)) (filter (\<lambda>d. sd_manufacturer d = mf_pk m) defs)\<rparr>"

definition configured_source :: "manufacturer \<Rightarrow> chassis list \<Rightarrow> discovery_source" where
  "configured_source m chs =
     \<lparr>so_name = ''configured'',
      so_rows = map (\<lambda>c. (ch_pk c, ch_ip c)) (filter (\<lambda>c. ch_manufacturer c = mf_pk m) chs)\<rparr>"

definition staged_source :: "manufacturer \<Rightarrow> chassis list \<Rightarrow> discovered_device list \<Rightarrow> discovery_source" where
  "staged_source m chs staged =
     \<lparr>so_name = ''staged'',
      so_rows = map (\<lambda>d. (dd_pk d, dd_ip d))
        (filter (\<lambda>d. dd_manufacturer d = Some (mf_pk m) \<and> dd_ip d \<notin> snd ` set (so_rows (configured_source m chs)))
          staged)\<rparr>"

definition page_values :: "string \<Rightarrow> (string \<times> source_page) list \<Rightarrow> string list" where
  "page_values name pages = (case map_of pages name of None \<Rightarrow> [] | Some p \<Rightarrow> pg_values p)"

definition scan_definition_pages ::
  "(string \<Rightarrow> string) \<Rightarrow> manufacturer \<Rightarrow> string \<Rightarrow> scan_definition list \<Rightarrow> scan_definition list \<Rightarrow> bool \<Rightarrow> bool
     \<Rightarrow> int \<Rightarrow> cursor_cache \<Rightarrow> (string \<times> source_page) list \<times> cursor_cache"
where
  "scan_definition_pages digest m grp cidr_rows fqdn_rows scan_cidrs scan_fqdns limit cache =
     rotating_pages digest m grp
       ((if scan_cidrs then [definition_source ''cidrs'' m cidr_rows] else [])
        @ (if scan_fqdns then [definition_source ''fqdns'' m fqdn_rows] else []))
       (clamp_candidate_limit limit) cache"

definition collect_local_candidates ::
  "(string \<Rightarrow> string) \<Rightarrow> manufacturer \<Rightarrow> chassis list \<Rightarrow> int \<Rightarrow> cursor_cache \<Rightarrow> source_page \<times> cursor_cache"
where
  "collect_local_candidates digest m chs limit cache =
     rotating_page digest m ''reconciliation-local-inventory'' (configured_source m chs)
       (clamp_candidate_limit limit) cache"

definition prepare_scanning_data ::
  "(string \<Rightarrow> string) \<Rightarrow> (string \<Rightarrow> lookup) \<Rightarrow> manufacturer \<Rightarrow> scan_definition list \<Rightarrow> scan_definition list
     \<Rightarrow> bool \<Rightarrow> bool \<Rightarrow> int \<Rightarrow> cursor_cache \<Rightarrow> (expansion \<times> bool) \<times> cursor_cache"
where
  "prepare_scanning_data digest resolve m cidr_rows fqdn_rows scan_cidrs scan_fqdns max_hosts cache =
     (let (pages, cache') = scan_definition_pages digest m ''reconciliation-scan-sources'' cidr_rows fqdn_rows
            scan_cidrs scan_fqdns max_hosts cache;
          (ex, expansion_complete) = expand_scanning_sources resolve (page_values ''cidrs'' pages)
            (page_values ''fqdns'' pages) (clamp_candidate_limit max_hosts) (map fst pages)
      in ((ex, list_all (\<lambda>(_, p). pg_complete p) pages \<and> expansion_complete), cache'))"

definition configured_scan_sources ::
  "(string \<Rightarrow> string) \<Rightarrow> manufacturer \<Rightarrow> scan_definition list \<Rightarrow> scan_definition list \<Rightarrow> bool \<Rightarrow> bool \<Rightarrow> int
     \<Rightarrow> cursor_cache \<Rightarrow> scan_source_page \<times> cursor_cache"
where
  "configured_scan_sources digest m cidr_rows fqdn_rows scan_cidrs scan_fqdns limit cache =
     (let (pages, cache') = scan_definition_pages digest m ''full-sync-scan-sources'' cidr_rows fqdn_rows
            scan_cidrs scan_fqdns limit cache
      in (\<lparr>sp_cidrs = page_values ''cidrs'' pages, sp_fqdns = page_values ''fqdns'' pages,
           sp_order = filter (\<lambda>n. n = ''cidrs'' \<or> n = ''fqdns'') (map fst pages),
           sp_complete = list_all (\<lambda>(_, p). pg_complete p) pages\<rparr>, cache'))"

definition collect_inventory_candidates ::
  "(string \<Rightarrow> string) \<Rightarrow> manufacturer \<Rightarrow> chassis list \<Rightarrow> discovered_device list \<Rightarrow> int \<Rightarrow> cursor_cache
     \<Rightarrow> candidate_page \<times> cursor_cache"
where
  "collect_inventory_candidates digest m chs staged limit cache =
     (let (pages, cache') = rotating_pages digest m ''full-sync-local-inventory''
            [configured_source m chs, staged_source m chs staged] (clamp_candidate_limit limit) cache
      in (\<lparr>cp_candidates = page_values ''configured'' pages @ page_values ''staged'' pages,
           cp_complete = list_all (\<lambda>(_, p). pg_complete p) pages\<rparr>, cache'))"

definition collect_scanned_candidates ::
  "(string \<Rightarrow> lookup) \<Rightarrow> string list \<Rightarrow> string list \<Rightarrow> bool \<Rightarrow> bool \<Rightarrow> int \<Rightarrow> string list \<Rightarrow> candidate_page"
where
  "collect_scanned_candidates resolve cidrs fqdns scan_cidrs scan_fqdns max_hosts source_order =
     (let limit = clamp_candidate_limit max_hosts;
          order = (if source_order = [] then [''cidrs'', ''fqdns''] else source_order);
          (ex, whole) = expand_scanning_sources resolve (if scan_cidrs then cidrs else [])
            (if scan_fqdns then fqdns else []) limit order;
          names = filter (\<lambda>n. n = ''cidrs'' \<or> n = ''fqdns'') (fromkeys order);
          ips = concat (map (\<lambda>n. concat (map snd (if n = ''cidrs'' then ex_cidrs ex else ex_fqdns ex))) names)
      in \<lparr>cp_candidates = take (nat limit) (fromkeys ips), cp_complete = whole\<rparr>)"

section \<open>What an expansion delivers\<close>

text \<open>The addresses listed under the definitions, and the addresses the definitions offer.\<close>

definition delivered :: "expansion \<Rightarrow> string list" where
  "delivered ex = concat (map snd (ex_cidrs ex)) @ concat (map snd (ex_fqdns ex))"

definition offered :: "(string \<Rightarrow> lookup) \<Rightarrow> string list \<Rightarrow> string list \<Rightarrow> string list" where
  "offered resolve cidrs fqdns =
     concat (List.map_filter ip_network_hosts cidrs)
     @ (if list_ex (\<lambda>f. resolve f = LookupCrashed) fqdns then []
        else concat (map (\<lambda>f. resolved_addresses (resolve f)) fqdns))"

lemma mset_update_snoc:
  "mset (concat (map snd (AList.update k ((case map_of d k of None \<Rightarrow> [] | Some xs \<Rightarrow> xs) @ [x]) d)))
     = add_mset x (mset (concat (map snd d)))"
  by (induction d) auto

lemma mset_dict_push: "mset (concat (map snd (dict_push k x d))) = add_mset x (mset (concat (map snd d)))"
  unfolding dict_push_def by (rule mset_update_snoc)

lemma delivered_add_address [simp]:
  "mset (delivered (add_address s k a ex)) = add_mset a (mset (delivered ex))"
  unfolding delivered_def add_address_def by (simp add: mset_dict_push del: mset_concat)

lemma consume_round_mset:
  assumes "consume_round limit its ex next = (ex', next')"
  shows "mset (delivered ex') + mset (pending next')
      = mset (delivered ex) + mset (pending its) + mset (pending next)
    \<and> (ex_total ex = length (delivered ex) \<longrightarrow> ex_total ex' = length (delivered ex'))
    \<and> (ex_total ex < limit \<longrightarrow> ex_total ex' \<le> limit)"
  using assms
proof (induction limit its ex "next" arbitrary: ex' next' rule: consume_round.induct)
  case (1 limit ex "next")
  then show ?case by simp
next
  case (2 limit source key rest ex "next")
  then show ?case by simp
next
  case (3 limit source key a as rest ex "next")
  have len: "length (delivered (add_address source key a ex)) = Suc (length (delivered ex))"
    by (metis delivered_add_address size_add_mset size_mset)
  show ?case
  proof (cases "ex_total (add_address source key a ex) = limit")
    case True
    with 3(2) have "ex' = add_address source key a ex" "next' = next @ (source, key, as) # rest"
      by (auto simp: Let_def)
    with True len show ?thesis by simp
  next
    case False
    with 3(2) have "consume_round limit rest (add_address source key a ex) (next @ [(source, key, as)]) = (ex', next')"
      by (simp add: Let_def)
    from 3(1)[OF HOL.refl False this] False len show ?thesis by auto
  qed
qed

lemma consume_loop_mset:
  assumes "consume_loop limit active ex = (ex', left)" "ex_total ex = length (delivered ex)" "ex_total ex \<le> limit"
  shows "mset (delivered ex') + mset (pending left) = mset (delivered ex) + mset (pending active)
    \<and> ex_total ex' = length (delivered ex') \<and> ex_total ex' \<le> limit \<and> (left = [] \<or> ex_total ex' = limit)"
  using assms
proof (induction limit active ex arbitrary: ex' left rule: consume_loop.induct)
  case (1 limit active ex)
  show ?case
  proof (cases "active = [] \<or> ex_total ex \<ge> limit")
    case True
    with 1(2-4) show ?thesis by (subst (asm) consume_loop.simps) auto
  next
    case False
    obtain ex1 next1 where r: "consume_round limit active ex [] = (ex1, next1)" by (cases "consume_round limit active ex []")
    with False 1(2) have l: "consume_loop limit next1 ex1 = (ex', left)" by (simp add: consume_loop.simps[of limit active])
    from consume_round_mset[OF r] 1(3) False
    have f: "ex_total ex1 = length (delivered ex1)" "ex_total ex1 \<le> limit"
      and m: "mset (delivered ex1) + mset (pending next1) = mset (delivered ex) + mset (pending active)" by auto
    from 1(1)[OF False r[symmetric] l f] show ?thesis unfolding m .
  qed
qed

lemma pending_nonempty: "list_ex (\<lambda>(_, _, xs). xs \<noteq> []) its \<longleftrightarrow> pending its \<noteq> []"
  by (induction its) auto

lemma consume_address_iterators_total:
  assumes "consume_address_iterators limit active ex = (ex', whole)" "delivered ex = []" "ex_total ex = 0"
  shows "mset (delivered ex') \<subseteq># mset (pending active) \<and> ex_total ex' = length (delivered ex')
    \<and> ex_total ex' = min limit (length (pending active)) \<and> (whole \<longleftrightarrow> length (pending active) \<le> limit)"
proof -
  from assms obtain left where l: "consume_loop limit active ex = (ex', left)"
    and c: "whole = (left = [] \<or> \<not> list_ex (\<lambda>(_, _, xs). xs \<noteq> []) left)"
    by (auto simp: consume_address_iterators_def split: prod.splits)
  from consume_loop_mset[OF l] assms
  have m: "mset (delivered ex') + mset (pending left) = mset (pending active)"
    and t: "ex_total ex' = length (delivered ex')" "ex_total ex' \<le> limit" "left = [] \<or> ex_total ex' = limit" by auto
  have sz: "length (delivered ex') + length (pending left) = length (pending active)"
    using arg_cong[OF m, of size] by simp
  have "whole \<longleftrightarrow> pending left = []" using c pending_nonempty[of left] by auto
  then have w: "whole \<longleftrightarrow> length (pending left) = 0" by simp
  have "length (pending left) = 0 \<or> ex_total ex' = limit" using t(3) by auto
  with w sz t(1,2) have "ex_total ex' = min limit (length (pending active))"
    "whole \<longleftrightarrow> length (pending active) \<le> limit" by linarith+
  moreover have "mset (delivered ex') \<subseteq># mset (pending active)" using m by (metis mset_subset_eq_add_left)
  ultimately show ?thesis using t(1) by simp
qed

lemma build_cidr_iterators_spec:
  "pending (fst (build_cidr_iterators cidrs)) = concat (List.map_filter ip_network_hosts cidrs)
   \<and> snd (build_cidr_iterators cidrs) = list_all (\<lambda>c. ip_network_hosts c \<noteq> None) cidrs"
  by (induction cidrs) (auto simp: Let_def map_filter_simps split: prod.splits option.splits)

lemma build_fqdn_iterators_pending:
  "pending (fst (build_fqdn_iterators resolve fqdns))
     = (if list_ex (\<lambda>f. resolve f = LookupCrashed) fqdns then []
        else concat (map (\<lambda>f. resolved_addresses (resolve f)) fqdns))"
  by (auto simp: build_fqdn_iterators_def pending_def o_def)

lemma build_fqdn_iterators_ok:
  "snd (build_fqdn_iterators resolve fqdns)
     = list_all (\<lambda>f. resolve f \<noteq> LookupFailed \<and> resolve f \<noteq> LookupCrashed) fqdns"
  by (auto simp: build_fqdn_iterators_def list_all_iff list_ex_iff)

lemma delivered_empty: "delivered \<lparr>ex_cidrs = empty_map cs, ex_fqdns = empty_map fs, ex_total = 0\<rparr> = []"
  by (simp add: delivered_def empty_map_def o_def)

lemma two_names:
  assumes "distinct ns" "set ns = {a, b}" "a \<noteq> b"
  shows "ns = [a, b] \<or> ns = [b, a]"
proof -
  from assms have "length ns = 2" by (metis card_2_iff distinct_card)
  then obtain x y where "ns = [x, y]" by (metis (no_types, opaque_lifting) Suc_length_conv length_0_conv numeral_2_eq_2)
  with assms show ?thesis by (auto simp: doubleton_eq_iff)
qed

text \<open>C19: expanding scan definitions delivers as many addresses as the budget allows and the
  definitions offer, all of them offered ones; the result counts as complete exactly when every
  range parses, every name was looked up and the offer fits the budget; the candidate list built
  from it is free of duplicates and within the budget.\<close>

theorem expansion_exact:
  "let (ex, whole) = expand_scanning_sources resolve cidrs fqdns max_hosts order;
       limit = nat (clamp_candidate_limit max_hosts);
       page = collect_scanned_candidates resolve cidrs fqdns True True max_hosts order
   in ex_total ex = min limit (length (offered resolve cidrs fqdns))
      \<and> length (delivered ex) = ex_total ex
      \<and> mset (delivered ex) \<subseteq># mset (offered resolve cidrs fqdns)
      \<and> whole = (list_all (\<lambda>c. ip_network_hosts c \<noteq> None) cidrs
           \<and> list_all (\<lambda>f. resolve f \<noteq> LookupFailed \<and> resolve f \<noteq> LookupCrashed) fqdns
           \<and> length (offered resolve cidrs fqdns) \<le> limit)
      \<and> distinct (cp_candidates page) \<and> length (cp_candidates page) \<le> limit
      \<and> set (cp_candidates page) \<subseteq> set (offered resolve cidrs fqdns)"
proof -
  have clamp: "clamp_candidate_limit (clamp_candidate_limit m) = clamp_candidate_limit m" for m
    by (simp add: clamp_candidate_limit_def)
  have main: "ex_total ex = min (nat (clamp_candidate_limit mh)) (length (offered resolve cidrs fqdns))
      \<and> length (delivered ex) = ex_total ex \<and> mset (delivered ex) \<subseteq># mset (offered resolve cidrs fqdns)
      \<and> whole = (list_all (\<lambda>c. ip_network_hosts c \<noteq> None) cidrs
           \<and> list_all (\<lambda>f. resolve f \<noteq> LookupFailed \<and> resolve f \<noteq> LookupCrashed) fqdns
           \<and> length (offered resolve cidrs fqdns) \<le> nat (clamp_candidate_limit mh))"
    if e: "expand_scanning_sources resolve cidrs fqdns mh ord = (ex, whole)" for ex whole mh ord
  proof -
    let ?c = "build_cidr_iterators cidrs" and ?f = "build_fqdn_iterators resolve fqdns"
    define names where "names = filter (\<lambda>n. n = ''cidrs'' \<or> n = ''fqdns'') (fromkeys (ord @ [''cidrs'', ''fqdns'']))"
    define active where "active = concat (map (\<lambda>n. if n = ''cidrs'' then fst ?c else fst ?f) names)"
    define r where "r = consume_address_iterators (nat (clamp_candidate_limit mh)) active
        \<lparr>ex_cidrs = empty_map cidrs, ex_fqdns = empty_map fqdns, ex_total = 0\<rparr>"
    from e have er: "ex = fst r" and c: "whole = (snd ?c \<and> snd ?f \<and> snd r)"
      by (simp_all add: expand_scanning_sources_def Let_def names_def active_def r_def split_beta)
    have its: "consume_address_iterators (nat (clamp_candidate_limit mh)) active
        \<lparr>ex_cidrs = empty_map cidrs, ex_fqdns = empty_map fqdns, ex_total = 0\<rparr> = (ex, snd r)"
      unfolding er r_def by simp
    have "names = [''cidrs'', ''fqdns''] \<or> names = [''fqdns'', ''cidrs'']"
      by (rule two_names) (auto simp: names_def)
    then have m: "mset (pending active) = mset (offered resolve cidrs fqdns)"
      by (auto simp: active_def offered_def build_cidr_iterators_spec build_fqdn_iterators_pending union_commute
          simp del: mset_concat)
    then have l: "length (pending active) = length (offered resolve cidrs fqdns)" by (metis size_mset)
    from consume_address_iterators_total[OF its delivered_empty] show ?thesis
      unfolding m l c by (simp add: build_cidr_iterators_spec build_fqdn_iterators_ok)
  qed
  let ?o = "if order = [] then [''cidrs'', ''fqdns''] else order"
  obtain ex2 c2 where e2: "expand_scanning_sources resolve cidrs fqdns (clamp_candidate_limit max_hosts) ?o = (ex2, c2)"
    by fastforce
  have sub: "set (delivered ex2) \<subseteq> set (offered resolve cidrs fqdns)"
    using main[OF e2] by (metis set_mset_mono set_mset_mset)
  have cand: "cp_candidates (collect_scanned_candidates resolve cidrs fqdns True True max_hosts order)
     = take (nat (clamp_candidate_limit max_hosts)) (fromkeys (concat (map (\<lambda>n. concat (map snd (if n = ''cidrs'' then ex_cidrs ex2 else ex_fqdns ex2)))
         (filter (\<lambda>n. n = ''cidrs'' \<or> n = ''fqdns'') (fromkeys ?o)))))"
    by (simp only: collect_scanned_candidates_def Let_def e2 if_True prod.case candidate_page.simps)
  have sub2: "set (concat (map (\<lambda>n. concat (map snd (if n = ''cidrs'' then ex_cidrs ex2 else ex_fqdns ex2)))
         (filter (\<lambda>n. n = ''cidrs'' \<or> n = ''fqdns'') ns))) \<subseteq> set (delivered ex2)" for ns
    by (auto simp: delivered_def split: if_splits)
  obtain ex c where e: "expand_scanning_sources resolve cidrs fqdns max_hosts order = (ex, c)" by fastforce
  have "set (cp_candidates (collect_scanned_candidates resolve cidrs fqdns True True max_hosts order))
      \<subseteq> set (offered resolve cidrs fqdns)"
    unfolding cand by (intro subset_trans[OF set_take_subset] subset_trans[OF _ sub], subst set_fromkeys) (rule sub2)
  with main[OF e] show ?thesis
    unfolding e Let_def prod.case by (simp add: cand distinct_take)
qed

lemma dedupe_fold:
  "snd (fold (\<lambda>it (seen, deduped). if it \<in> set seen then (seen, deduped) else (it # seen, deduped @ [it]))
            items (seen, acc)) = acc @ unique_from seen items"
  by (induction items arbitrary: seen acc) auto

lemma dedupe_is_fromkeys: "dedupe_preserve_order items = fromkeys items"
  by (simp add: dedupe_preserve_order_def fromkeys_def dedupe_fold)

end
