(* ===== verification/Vendor_Client.thy ===== *)
theory Vendor_Client
  imports Workload_Limits
begin

text \<open>
  The HTTP client of a manufacturer (\<open>services/common/base/client.py\<close>) with its circuit breaker
  (\<open>services/common/base/circuit_breaker.py\<close>), the bounded transport
  (\<open>services/common/base/bounded_transport.py\<close>) and the discovery-list clients of the two vendors
  built on it.

  One exchange with the server is a value of \<open>exchange\<close>: the world answers the k-th attempt of a
  request with \<open>world k\<close>, its failure is recorded at the clock reading \<open>clock k\<close>.  Seconds are
  rational.  What \<open>Response.json\<close> makes of a body is the parameter \<open>parse\<close>: a value, a
  \<open>JSONDecodeError\<close>, or another exception, as for bytes that are no text.
\<close>

section \<open>Circuit breaker\<close>

datatype circuit = Closed | Open | HalfOpen

record breaker =
  br_threshold :: int
  br_recovery :: int
  br_failures :: nat
  br_last :: rat
  br_state :: circuit

definition new_breaker :: "int \<Rightarrow> int \<Rightarrow> breaker" where
  "new_breaker threshold recovery =
     \<lparr>br_threshold = threshold, br_recovery = recovery, br_failures = 0, br_last = 0, br_state = Closed\<rparr>"

definition allow_request :: "rat \<Rightarrow> breaker \<Rightarrow> bool \<times> breaker" where
  "allow_request now b =
     (if br_state b = Open
      then (if now - br_last b > of_int (br_recovery b) then (True, b\<lparr>br_state := HalfOpen\<rparr>) else (False, b))
      else (True, b))"

definition record_success :: "breaker \<Rightarrow> breaker" where
  "record_success b = b\<lparr>br_failures := 0, br_state := Closed\<rparr>"

definition record_failure :: "rat \<Rightarrow> breaker \<Rightarrow> breaker" where
  "record_failure now b =
     (let b' = b\<lparr>br_failures := br_failures b + 1, br_last := now\<rparr> in
      if int (br_failures b') \<ge> br_threshold b' then b'\<lparr>br_state := Open\<rparr> else b')"

section \<open>Bounded transport\<close>

datatype transport_failure = TimedOut | NoConnection | Crashed

record response =
  re_status :: int
  re_length :: "string option"
  re_retry_after :: "string option"
  re_chunks :: "string list"

type_synonym exchange = "transport_failure + response"

record http_limits =
  hl_max_delay :: rat
  hl_max_bytes :: int

datatype send_failure = Transport transport_failure | TooLarge

definition enforce_size :: "http_limits \<Rightarrow> int \<Rightarrow> send_failure + unit" where
  "enforce_size lm n = requireE (n \<le> hl_max_bytes lm) TooLarge"

definition enforce_declared_length :: "http_limits \<Rightarrow> response \<Rightarrow> send_failure + unit" where
  "enforce_declared_length lm r =
     (case re_length r of None \<Rightarrow> Inr ()
      | Some s \<Rightarrow> enforce_size lm (case int_of_text s of None \<Rightarrow> 0 | Some n \<Rightarrow> n))"

text \<open>The chunks are joined while their total stays within the ceiling.\<close>

fun read_chunks :: "http_limits \<Rightarrow> int \<Rightarrow> string list \<Rightarrow> send_failure + string" where
  "read_chunks lm bytes_read [] = Inr []"
| "read_chunks lm bytes_read (chunk # chunks) =
     (let n = bytes_read + int (length chunk) in
      bindE (enforce_size lm n) (\<lambda>_.
      bindE (read_chunks lm n chunks) (\<lambda>rest. Inr (chunk @ rest))))"

definition bounded_send :: "http_limits \<Rightarrow> exchange \<Rightarrow> send_failure + response \<times> string" where
  "bounded_send lm x =
     (case x of
        Inl f \<Rightarrow> Inl (Transport f)
      | Inr r \<Rightarrow>
          if re_status r \<ge> 400 then Inr (r, [])
          else bindE (enforce_declared_length lm r) (\<lambda>_.
               bindE (read_chunks lm 0 (re_chunks r)) (\<lambda>content. Inr (r, content))))"

definition response_content :: "http_limits \<Rightarrow> response \<Rightarrow> string \<Rightarrow> send_failure + string" where
  "response_content lm r content =
     bindE (enforce_declared_length lm r) (\<lambda>_.
     bindE (enforce_size lm (int (length content))) (\<lambda>_. Inr content))"

definition extract_retry_after :: "http_limits \<Rightarrow> response \<Rightarrow> int option" where
  "extract_retry_after lm r =
     (case re_retry_after r of None \<Rightarrow> None
      | Some s \<Rightarrow> (case int_of_text s of None \<Rightarrow> None
          | Some n \<Rightarrow> if n \<le> 0 then None else Some (min n \<lceil>hl_max_delay lm\<rceil>)))"

section \<open>Client\<close>

datatype client_error =
    CircuitOpen | TimeoutError | ConnectionError | UnknownError | Oversized
  | HttpError int | RateLimited "int option" | InvalidJson | BodyCrash

datatype parsed = Parsed json | NotJson | ParserCrash

text \<open>\<open>cl_backoff\<close> is None where \<open>retry_backoff\<close> is no finite number.\<close>

record client =
  cl_max_retries :: int
  cl_backoff :: "rat option"
  cl_retry_codes :: "int list"
  cl_limits :: http_limits
  cl_last_success :: "rat option"
  cl_failures :: nat
  cl_healthy :: bool
  cl_circuit :: breaker

definition is_healthy :: "client \<Rightarrow> bool" where
  "is_healthy cl \<longleftrightarrow> cl_healthy cl \<and> cl_failures cl < 5"

definition record_request_failure :: "rat \<Rightarrow> client \<Rightarrow> client" where
  "record_request_failure now cl =
     cl\<lparr>cl_failures := cl_failures cl + 1, cl_healthy := False, cl_circuit := record_failure now (cl_circuit cl)\<rparr>"

text \<open>The delay before the next attempt; 0 is no sleep.\<close>

definition sleep_before_retry :: "client \<Rightarrow> nat \<Rightarrow> response option \<Rightarrow> rat" where
  "sleep_before_retry cl attempt r =
     (let delay = (case (case r of None \<Rightarrow> None | Some r' \<Rightarrow> extract_retry_after (cl_limits cl) r') of
            Some n \<Rightarrow> of_int n
          | None \<Rightarrow> (case cl_backoff cl of None \<Rightarrow> 0
              | Some f \<Rightarrow> if f \<le> 0 then 0 else f * 2 ^ min attempt 30))
      in max 0 (min delay (hl_max_delay (cl_limits cl))))"

definition handle_response ::
  "(string \<Rightarrow> parsed) \<Rightarrow> rat \<Rightarrow> response \<times> string \<Rightarrow> client \<Rightarrow> (client_error + json option) \<times> client"
where
  "handle_response parse now rc cl =
     (let r = fst rc in
      if re_status r \<ge> 400 then
        (let cl' = record_request_failure now cl in
         if re_status r = 429
         then (Inl (RateLimited (case extract_retry_after (cl_limits cl) r of Some n \<Rightarrow> Some n
                 | None \<Rightarrow> (case re_retry_after r of None \<Rightarrow> None | Some s \<Rightarrow> int_of_text s))), cl')
         else (Inl (HttpError (re_status r)), cl'))
      else (case response_content (cl_limits cl) r (snd rc) of
          Inl _ \<Rightarrow> (Inl Oversized, record_request_failure now cl)
        | Inr content \<Rightarrow>
            (let cl' = cl\<lparr>cl_last_success := Some now, cl_failures := 0, cl_healthy := True,
                          cl_circuit := record_success (cl_circuit cl)\<rparr> in
             if content = [] then (Inr None, cl')
             else (case parse content of
                 NotJson \<Rightarrow> (Inl InvalidJson, record_request_failure now cl')
               | ParserCrash \<Rightarrow> (Inl BodyCrash, cl')
               | Parsed v \<Rightarrow> (Inr (Some v), cl')))))"

text \<open>The retry loop: the result, the client, the delays slept and the number of exchanges.\<close>

function request_loop ::
  "(string \<Rightarrow> parsed) \<Rightarrow> (nat \<Rightarrow> rat) \<Rightarrow> (nat \<Rightarrow> exchange) \<Rightarrow> int \<Rightarrow> nat \<Rightarrow> client
     \<Rightarrow> (client_error + json option) \<times> client \<times> rat list \<times> nat"
where
  "request_loop parse clock world max_retries attempt cl =
     (case bounded_send (cl_limits cl) (world attempt) of
        Inl (Transport Crashed) \<Rightarrow>
          (Inl UnknownError, record_request_failure (clock attempt) cl, [], attempt + 1)
      | Inl (Transport f) \<Rightarrow>
          (let cl' = record_request_failure (clock attempt) cl in
           if int attempt < max_retries
           then (case request_loop parse clock world max_retries (attempt + 1) cl' of
               (res, cl'', sleeps, n) \<Rightarrow> (res, cl'', sleep_before_retry cl' attempt None # sleeps, n))
           else (Inl (if f = TimedOut then TimeoutError else ConnectionError), cl', [], attempt + 1))
      | Inl TooLarge \<Rightarrow> (Inl Oversized, record_request_failure (clock attempt) cl, [], attempt + 1)
      | Inr (r, content) \<Rightarrow>
          if re_status r \<in> set (cl_retry_codes cl) \<and> int attempt < max_retries
          then (let cl' = record_request_failure (clock attempt) cl in
             case request_loop parse clock world max_retries (attempt + 1) cl' of
               (res, cl'', sleeps, n) \<Rightarrow> (res, cl'', sleep_before_retry cl' attempt (Some r) # sleeps, n))
          else (case handle_response parse (clock attempt) (r, content) cl of
             (res, cl') \<Rightarrow> (res, cl', [], attempt + 1)))"
  by pat_completeness auto
termination
  by (relation "measure (\<lambda>(parse, clock, world, max_retries, attempt, cl). nat (max_retries - int attempt))") auto

declare request_loop.simps [simp del]

definition make_request ::
  "(string \<Rightarrow> parsed) \<Rightarrow> rat \<Rightarrow> (nat \<Rightarrow> rat) \<Rightarrow> (nat \<Rightarrow> exchange) \<Rightarrow> client
     \<Rightarrow> (client_error + json option) \<times> client \<times> rat list \<times> nat"
where
  "make_request parse now clock world cl =
     (let (ok, b) = allow_request now (cl_circuit cl); cl1 = cl\<lparr>cl_circuit := b\<rparr> in
      if \<not> ok then (Inl CircuitOpen, cl1, [], 0)
      else request_loop parse clock world (cl_max_retries cl1) 0 cl1)"

text \<open>\<open>check_health\<close> sends one exchange past the breaker: the reported status, and the client,
  on which only an oversized answer leaves a trace.\<close>

definition check_health :: "rat \<Rightarrow> exchange \<Rightarrow> client \<Rightarrow> (transport_failure + string) \<times> client" where
  "check_health now x cl =
     (case bounded_send (cl_limits cl) x of
        Inl (Transport Crashed) \<Rightarrow> (Inl Crashed, cl)
      | Inl (Transport _) \<Rightarrow> (Inr ''error'', cl)
      | Inl TooLarge \<Rightarrow> (Inr ''error'', record_request_failure now cl)
      | Inr (r, _) \<Rightarrow> (Inr (if re_status r = 200 then ''healthy'' else ''unhealthy''), cl))"

section \<open>What the breaker remembers\<close>

datatype breaker_event = Ask rat | Success | Failure rat

definition breaker_step :: "breaker_event \<Rightarrow> breaker \<Rightarrow> breaker" where
  "breaker_step e b =
     (case e of Ask now \<Rightarrow> snd (allow_request now b) | Success \<Rightarrow> record_success b | Failure now \<Rightarrow> record_failure now b)"

text \<open>The specification reads the history, newest event first: the failures since the last
  success, the time of the last failure, and whether a probe was let through after it.\<close>

fun streak :: "breaker_event list \<Rightarrow> nat" where
  "streak [] = 0"
| "streak (Success # es) = 0"
| "streak (Failure t # es) = streak es + 1"
| "streak (Ask t # es) = streak es"

fun last_failure :: "breaker_event list \<Rightarrow> rat" where
  "last_failure [] = 0"
| "last_failure (Failure t # es) = t"
| "last_failure (_ # es) = last_failure es"

fun probing :: "int \<Rightarrow> breaker_event list \<Rightarrow> bool" where
  "probing recovery [] = False"
| "probing recovery (Success # es) = False"
| "probing recovery (Failure t # es) = False"
| "probing recovery (Ask now # es) = (probing recovery es \<or> now - last_failure es > of_int recovery)"

definition breaker_after :: "breaker \<Rightarrow> breaker_event list \<Rightarrow> breaker" where
  "breaker_after b es = foldr breaker_step es b"

lemma breaker_after_spec:
  assumes "1 \<le> threshold"
  shows "breaker_after (new_breaker threshold recovery) es =
    \<lparr>br_threshold = threshold, br_recovery = recovery, br_failures = streak es, br_last = last_failure es,
     br_state = (if int (streak es) < threshold then Closed
                 else if probing recovery es then HalfOpen else Open)\<rparr>"
proof (induction es)
  case Nil
  with assms show ?case by (simp add: breaker_after_def new_breaker_def)
next
  case (Cons e es)
  have "breaker_after (new_breaker threshold recovery) (e # es)
    = breaker_step e (breaker_after (new_breaker threshold recovery) es)"
    by (simp add: breaker_after_def)
  also note Cons.IH
  finally show ?case
    using assms
    by (cases e) (auto simp: breaker_step_def allow_request_def record_success_def record_failure_def Let_def)
qed

text \<open>after any history of questions, successes and failures the breaker refuses a request
  exactly when the failures since the last success have reached the threshold, no probe was let
  through since the last failure, and the recovery time has not passed since that failure.\<close>

theorem breaker_refuses_iff:
  "1 \<le> threshold \<Longrightarrow>
   fst (allow_request now (breaker_after (new_breaker threshold recovery) es))
     \<longleftrightarrow> \<not> (threshold \<le> int (streak es) \<and> \<not> probing recovery es
           \<and> now - last_failure es \<le> of_int recovery)"
  unfolding breaker_after_spec by (auto simp: allow_request_def)

theorem breaker_refuses_iff_witness:
  "\<not> fst (allow_request 50 (breaker_after (new_breaker 2 60) [Failure 10, Failure 5, Success]))
   \<and> fst (allow_request 71 (breaker_after (new_breaker 2 60) [Failure 10, Failure 5, Success]))
   \<and> fst (allow_request 20 (breaker_after (new_breaker 2 60) [Failure 10, Success, Failure 5]))"
  using breaker_refuses_iff[of 2 50 60 "[Failure 10, Failure 5, Success]"]
    breaker_refuses_iff[of 2 71 60 "[Failure 10, Failure 5, Success]"]
    breaker_refuses_iff[of 2 20 60 "[Failure 10, Success, Failure 5]"]
  by simp

section \<open>One request\<close>

lemma record_request_failure_simps [simp]:
  "cl_limits (record_request_failure t cl) = cl_limits cl"
  "cl_max_retries (record_request_failure t cl) = cl_max_retries cl"
  "cl_retry_codes (record_request_failure t cl) = cl_retry_codes cl"
  "cl_backoff (record_request_failure t cl) = cl_backoff cl"
  "cl_healthy (record_request_failure t cl) = False"
  "cl_failures (record_request_failure t cl) = Suc (cl_failures cl)"
  by (simp_all add: record_request_failure_def)

lemma read_chunks_Inr:
  "read_chunks lm k cs = Inr content \<Longrightarrow> content = concat cs"
  by (induction lm k cs arbitrary: content rule: read_chunks.induct)
    (auto simp: Let_def result_simps)

lemma bounded_send_Inr:
  assumes "bounded_send lm x = Inr (r, content)"
  shows "x = Inr r \<and> (content = (if re_status r \<ge> 400 then [] else concat (re_chunks r)))"
  using assms
  by (auto simp: bounded_send_def result_simps dest: read_chunks_Inr split: sum.splits if_splits)

lemma sleep_range:
  assumes "0 \<le> hl_max_delay (cl_limits cl)"
  shows "0 \<le> sleep_before_retry cl k r \<and> sleep_before_retry cl k r \<le> hl_max_delay (cl_limits cl)"
  using assms by (simp add: sleep_before_retry_def Let_def)

lemma request_loop_step:
  assumes "request_loop parse clock world mr k cl = (res, cl', sleeps, n)"
    and "0 \<le> hl_max_delay (cl_limits cl)"
  obtains (failed) e where "res = Inl e" "e \<noteq> CircuitOpen" "e \<noteq> BodyCrash"
      "cl' = record_request_failure (clock k) cl" "sleeps = []" "n = Suc k"
  | (answered) r content where "bounded_send (cl_limits cl) (world k) = Inr (r, content)"
      "handle_response parse (clock k) (r, content) cl = (res, cl')" "sleeps = []" "n = Suc k"
  | (retried) d rest where "int k < mr" "0 \<le> d" "d \<le> hl_max_delay (cl_limits cl)" "sleeps = d # rest"
      "request_loop parse clock world mr (Suc k) (record_request_failure (clock k) cl) = (res, cl', rest, n)"
proof (cases "bounded_send (cl_limits cl) (world k)")
  case (Inl f)
  note Inl_f = Inl
  have d: "0 \<le> hl_max_delay (cl_limits (record_request_failure (clock k) cl))" using assms(2) by simp
  show thesis
  proof (cases f)
    case TooLarge
    with Inl_f assms(1) show thesis by (subst (asm) request_loop.simps) (auto intro: failed)
  next
    case (Transport g)
    show thesis
    proof (cases "g \<noteq> Crashed \<and> int k < mr")
      case True
      obtain r1 c1 s1 n1 where l: "request_loop parse clock world mr (Suc k) (record_request_failure (clock k) cl) = (r1, c1, s1, n1)"
        by (metis prod_cases4)
      from True Inl_f Transport assms(1) l
      have "res = r1" "cl' = c1" "n = n1" "sleeps = sleep_before_retry (record_request_failure (clock k) cl) k None # s1"
        by (subst (asm) request_loop.simps; cases g; simp add: Let_def)+
      with True l sleep_range[OF d] show thesis by (intro retried) auto
    next
      case False
      with Inl_f Transport assms(1) show thesis
        by (subst (asm) request_loop.simps) (cases g; auto simp: Let_def intro: failed)
    qed
  qed
next
  case (Inr rc)
  obtain r content where rc: "rc = (r, content)" by (cases rc)
  have d: "0 \<le> hl_max_delay (cl_limits (record_request_failure (clock k) cl))" using assms(2) by simp
  show thesis
  proof (cases "re_status r \<in> set (cl_retry_codes cl) \<and> int k < mr")
    case True
    obtain r1 c1 s1 n1 where l: "request_loop parse clock world mr (Suc k) (record_request_failure (clock k) cl) = (r1, c1, s1, n1)"
      by (metis prod_cases4)
    from True Inr rc assms(1) l
    have "res = r1" "cl' = c1" "n = n1" "sleeps = sleep_before_retry (record_request_failure (clock k) cl) k (Some r) # s1"
      by (subst (asm) request_loop.simps; simp add: Let_def)+
    with True l sleep_range[OF d] show thesis by (intro retried) auto
  next
    case False
    with Inr rc assms(1) have "handle_response parse (clock k) (r, content) cl = (res, cl')" "sleeps = []" "n = Suc k"
      by (subst (asm) request_loop.simps; auto split: prod.splits)+
    with Inr rc show thesis by (intro answered) auto
  qed
qed

lemma handle_response_cases:
  assumes "handle_response parse now (r, content) cl = (res, cl')"
  obtains (failed) e where "res = Inl e" "e \<noteq> CircuitOpen" "e \<noteq> BodyCrash" "\<not> cl_healthy cl'" "0 < cl_failures cl'"
  | (body) "res = Inl BodyCrash" "re_status r < 400" "parse content = ParserCrash"
      "cl_healthy cl'" "cl_failures cl' = 0" "br_state (cl_circuit cl') = Closed"
  | (good) v where "res = Inr v" "re_status r < 400" "int (length content) \<le> hl_max_bytes (cl_limits cl)"
      "v = None \<longleftrightarrow> content = []" "\<forall>j. v = Some j \<longrightarrow> parse content = Parsed j"
      "cl_healthy cl'" "cl_failures cl' = 0" "br_state (cl_circuit cl') = Closed" "cl_last_success cl' = Some now"
proof (cases "re_status r \<ge> 400")
  case True
  with assms show thesis by (auto simp: handle_response_def Let_def intro: failed split: if_splits)
next
  case False
  show thesis
  proof (cases "response_content (cl_limits cl) r content")
    case (Inl f)
    with False assms show thesis by (auto simp: handle_response_def Let_def intro: failed)
  next
    case (Inr content')
    then have c: "content' = content" "int (length content) \<le> hl_max_bytes (cl_limits cl)"
      by (auto simp: response_content_def enforce_size_def result_simps)
    define cl1 where "cl1 = cl\<lparr>cl_last_success := Some now, cl_failures := 0, cl_healthy := True,
                          cl_circuit := record_success (cl_circuit cl)\<rparr>"
    have cl1: "cl_healthy cl1" "cl_failures cl1 = 0" "br_state (cl_circuit cl1) = Closed" "cl_last_success cl1 = Some now"
      by (simp_all add: cl1_def record_success_def)
    have "handle_response parse now (r, content) cl = (if content = [] then (Inr None, cl1)
        else case parse content of NotJson \<Rightarrow> (Inl InvalidJson, record_request_failure now cl1)
               | ParserCrash \<Rightarrow> (Inl BodyCrash, cl1) | Parsed v \<Rightarrow> (Inr (Some v), cl1))"
      using False Inr c(1) unfolding handle_response_def Let_def cl1_def by (simp split del: if_split)
    from this assms have e: "(if content = [] then (Inr None, cl1)
        else case parse content of NotJson \<Rightarrow> (Inl InvalidJson, record_request_failure now cl1)
               | ParserCrash \<Rightarrow> (Inl BodyCrash, cl1) | Parsed v \<Rightarrow> (Inr (Some v), cl1)) = (res, cl')"
      by (rule subst)
    show thesis
    proof (cases "content = []")
      case True
      with e cl1 False c show thesis by (intro good[of None]) auto
    next
      case ne: False
      show thesis
      proof (cases "parse content")
        case (Parsed v)
        with e ne cl1 False c show thesis by (intro good[of "Some v"]) auto
      next
        case NotJson
        with e ne show thesis by (intro failed) auto
      next
        case ParserCrash
        with e ne cl1 False show thesis by (intro body) auto
      qed
    qed
  qed
qed

lemma request_loop_spec:
  assumes "request_loop parse clock world mr k cl = (res, cl', sleeps, n)" "0 \<le> hl_max_delay (cl_limits cl)"
  shows "n = k + Suc (length sleeps) \<and> int (length sleeps) \<le> max 0 (mr - int k)
    \<and> list_all (\<lambda>d. 0 \<le> d \<and> d \<le> hl_max_delay (cl_limits cl)) sleeps
    \<and> res \<noteq> Inl CircuitOpen
    \<and> (\<forall>e. res = Inl e \<and> e \<noteq> BodyCrash \<longrightarrow> \<not> cl_healthy cl' \<and> 0 < cl_failures cl')
    \<and> (res = Inl BodyCrash \<longrightarrow> cl_healthy cl' \<and> cl_failures cl' = 0 \<and> br_state (cl_circuit cl') = Closed
         \<and> (\<exists>r. world (n - 1) = Inr r \<and> re_status r < 400 \<and> parse (concat (re_chunks r)) = ParserCrash))
    \<and> (\<forall>v. res = Inr v \<longrightarrow> cl_healthy cl' \<and> cl_failures cl' = 0 \<and> br_state (cl_circuit cl') = Closed
         \<and> cl_last_success cl' = Some (clock (n - 1))
         \<and> (\<exists>r. world (n - 1) = Inr r \<and> re_status r < 400
              \<and> int (length (concat (re_chunks r))) \<le> hl_max_bytes (cl_limits cl)
              \<and> (\<forall>j. v = Some j \<longrightarrow> parse (concat (re_chunks r)) = Parsed j)))"
  using assms
proof (induction "nat (mr - int k)" arbitrary: k cl sleeps rule: less_induct)
  case less
  from less.prems show ?case
  proof (cases rule: request_loop_step)
    case (failed e)
    then show ?thesis by auto
  next
    case (answered r content)
    note b = bounded_send_Inr[OF answered(1)]
    from answered(2) show ?thesis
    proof (cases rule: handle_response_cases)
      case (failed e)
      with answered show ?thesis by auto
    next
      case body
      with answered b show ?thesis by auto
    next
      case (good v)
      with answered b show ?thesis by auto
    qed
  next
    case (retried d rest)
    have m: "nat (mr - int (Suc k)) < nat (mr - int k)" using retried(1) by simp
    have "0 \<le> hl_max_delay (cl_limits (record_request_failure (clock k) cl))" using less.prems(2) by simp
    from less.hyps[OF m retried(5) this] retried(1-4) show ?thesis by auto
  qed
qed


text \<open>C23: a request makes at most one exchange more than it may retry, none at all exactly when the
  breaker refuses; it sleeps between exchanges only and never beyond the ceiling; a result comes from the
  last answer, whose body is within the byte ceiling and whose status is no error, and leaves the client
  healthy with a closed breaker; an error leaves the client unhealthy, with one exception: a body on which
  the JSON parser fails in another way than with \<open>JSONDecodeError\<close>, such as bytes that are no UTF-8, raises
  after the success was recorded and so leaves the client healthy with a closed breaker.\<close>

theorem request_bounded:
  assumes "make_request parse now clock world cl = (res, cl', sleeps, n)" "0 \<le> hl_max_delay (cl_limits cl)"
  shows "n \<le> nat (cl_max_retries cl) + 1
    \<and> (n = 0 \<longleftrightarrow> \<not> fst (allow_request now (cl_circuit cl))) \<and> (n = 0 \<longleftrightarrow> res = Inl CircuitOpen)
    \<and> length sleeps = n - 1 \<and> list_all (\<lambda>d. 0 \<le> d \<and> d \<le> hl_max_delay (cl_limits cl)) sleeps
    \<and> (\<forall>e. res = Inl e \<and> e \<noteq> BodyCrash \<and> e \<noteq> CircuitOpen \<longrightarrow> \<not> is_healthy cl')
    \<and> (res = Inl BodyCrash \<longrightarrow> is_healthy cl' \<and> br_state (cl_circuit cl') = Closed
         \<and> (\<exists>r. world (n - 1) = Inr r \<and> re_status r < 400 \<and> parse (concat (re_chunks r)) = ParserCrash))
    \<and> (\<forall>v. res = Inr v \<longrightarrow> is_healthy cl' \<and> br_state (cl_circuit cl') = Closed
         \<and> (\<exists>r. world (n - 1) = Inr r \<and> re_status r < 400
              \<and> int (length (concat (re_chunks r))) \<le> hl_max_bytes (cl_limits cl)
              \<and> (\<forall>j. v = Some j \<longrightarrow> parse (concat (re_chunks r)) = Parsed j)))"
proof (cases "fst (allow_request now (cl_circuit cl))")
  case False
  with assms(1) show ?thesis by (auto simp: make_request_def Let_def split: prod.splits)
next
  case True
  let ?cl = "cl\<lparr>cl_circuit := snd (allow_request now (cl_circuit cl))\<rparr>"
  from True assms(1) have l: "request_loop parse clock world (cl_max_retries cl) 0 ?cl = (res, cl', sleeps, n)"
    by (auto simp: make_request_def Let_def split: prod.splits)
  have "0 \<le> hl_max_delay (cl_limits ?cl)" using assms(2) by simp
  from request_loop_spec[OF l this] True show ?thesis by (auto simp: is_healthy_def)
qed

definition sample_client :: client where
  "sample_client = \<lparr>cl_max_retries = 2, cl_backoff = Some (1 / 2), cl_retry_codes = [429, 500, 503],
     cl_limits = \<lparr>hl_max_delay = 30, hl_max_bytes = 8\<rparr>, cl_last_success = None, cl_failures = 0,
     cl_healthy = True, cl_circuit = new_breaker 5 60\<rparr>"

definition sample_world :: "nat \<Rightarrow> exchange" where
  "sample_world k =
     (if k = 0 then Inl TimedOut
      else if k = 1 then Inr \<lparr>re_status = 503, re_length = None, re_retry_after = Some ''99'', re_chunks = []\<rparr>
      else Inr \<lparr>re_status = 200, re_length = Some ''4'', re_retry_after = None, re_chunks = [''nu'', ''ll'']\<rparr>)"

lemma sample_request:
  "fst (make_request (\<lambda>_. Parsed JNull) 1 (\<lambda>k. of_nat k) sample_world sample_client) = Inr (Some JNull)"
  "fst (snd (snd (make_request (\<lambda>_. Parsed JNull) 1 (\<lambda>k. of_nat k) sample_world sample_client))) = [1 / 2, 30]"
  "snd (snd (snd (make_request (\<lambda>_. Parsed JNull) 1 (\<lambda>k. of_nat k) sample_world sample_client))) = 3"
  "fst (make_request (\<lambda>_. ParserCrash) 1 (\<lambda>k. of_nat k) sample_world sample_client) = Inl BodyCrash"
  by code_simp+

theorem request_bounded_witness:
  "let (res, cl', sleeps, n) = make_request (\<lambda>_. Parsed JNull) 1 (\<lambda>k. of_nat k) sample_world sample_client;
       (failed, cl'', _) = make_request (\<lambda>_. ParserCrash) 1 (\<lambda>k. of_nat k) sample_world sample_client
   in res = Inr (Some JNull) \<and> sleeps = [1 / 2, 30] \<and> n = 3 \<and> is_healthy cl'
      \<and> failed = Inl BodyCrash \<and> is_healthy cl''"
proof -
  let ?q = "\<lambda>p. make_request (\<lambda>_. p) 1 (\<lambda>k. of_nat k) sample_world sample_client"
  obtain res cl' sleeps n where q: "?q (Parsed JNull) = (res, cl', sleeps, n)" by (metis prod_cases4)
  obtain res2 cl2 sleeps2 n2 where q2: "?q ParserCrash = (res2, cl2, sleeps2, n2)" by (metis prod_cases4)
  have "0 \<le> hl_max_delay (cl_limits sample_client)" by (simp add: sample_client_def)
  from request_bounded[OF q this] request_bounded[OF q2 this] sample_request show ?thesis unfolding q q2 by simp
qed

end
