(* ===== verification/Discovery_Lists.thy ===== *)
theory Discovery_Lists
  imports Vendor_Client
begin

text \<open>
  The manual discovery list kept by a vendor's service, as the two vendor clients edit it
  (\<open>integrations/shure/discovery_client.py\<close>, \<open>integrations/sennheiser/discovery_client.py\<close>).

  A client call is its outcome: the result of the \<open>GET\<close> is a value, the result of a write a function
  of the addresses written.  An edit gives what it returns or raises and the list it sent, if any.
\<close>

section \<open>Addresses\<close>

fun ipv4_text :: "json \<Rightarrow> string option" where
  "ipv4_text (JStr s) = (case ip_of_text s of Some (IPv4 n) \<Rightarrow> Some (print_ipv4 n) | _ \<Rightarrow> None)"
| "ipv4_text _ = None"

definition validate_ipv4_list :: "json list \<Rightarrow> string list" where
  "validate_ipv4_list ips = List.map_filter ipv4_text ips"

definition validate_ipv4_address :: "string \<Rightarrow> bool" where
  "validate_ipv4_address s = (case ip_of_text s of Some (IPv4 _) \<Rightarrow> True | _ \<Rightarrow> False)"

text \<open>Every client error is an exception of its vendor except what the JSON parser raises.\<close>

definition is_api_error :: "client_error \<Rightarrow> bool" where
  "is_api_error e \<longleftrightarrow> e \<noteq> BodyCrash"

section \<open>Edits\<close>

type_synonym reply = "client_error + json option"
type_synonym edit = "(client_error + bool) \<times> string list option"

text \<open>The addresses of a call: None when there are too many or none is valid.\<close>

definition bounded_addresses :: "json list \<Rightarrow> string list option" where
  "bounded_addresses ips =
     (let bounded = take (nat (max_discovery_candidates + 1)) ips in
      if int (length bounded) > max_discovery_candidates then None
      else (let valid = validate_ipv4_list bounded in if valid = [] then None else Some valid))"

text \<open>What the code does with the outcome of its last write.\<close>

definition write_result :: "reply \<Rightarrow> client_error + bool" where
  "write_result r = (case r of Inl e \<Rightarrow> if is_api_error e then Inr False else Inl e | Inr _ \<Rightarrow> Inr True)"

text \<open>The addresses the service holds: None when its answer is unusable.\<close>

definition remote_addresses :: "json option \<Rightarrow> string list option" where
  "remote_addresses res =
     (case res of
        Some (JObj (kv # kvs)) \<Rightarrow>
          (case map_of (kv # kvs) ''ips'' of
             None \<Rightarrow> Some []
           | Some (JList xs) \<Rightarrow> if int (length xs) > max_discovery_candidates then None else Some (validate_ipv4_list xs)
           | Some _ \<Rightarrow> None)
      | _ \<Rightarrow> Some [])"

definition shure_add :: "reply \<Rightarrow> (string list \<Rightarrow> reply) \<Rightarrow> json list \<Rightarrow> edit" where
  "shure_add got put ips =
     (case bounded_addresses ips of
        None \<Rightarrow> (Inr False, None)
      | Some valid \<Rightarrow>
          (case (case got of Inl e \<Rightarrow> if is_api_error e then Inr (Some []) else Inl e | Inr res \<Rightarrow> Inr (remote_addresses res)) of
             Inl e \<Rightarrow> (Inl e, None)
           | Inr None \<Rightarrow> (Inr False, None)
           | Inr (Some existing) \<Rightarrow>
               (let combined = fromkeys (existing @ valid) in
                if int (length combined) > max_discovery_candidates then (Inr False, None)
                else (write_result (put combined), Some combined))))"

definition sennheiser_add :: "reply \<Rightarrow> (string list \<Rightarrow> reply) \<Rightarrow> json list \<Rightarrow> edit" where
  "sennheiser_add got put ips =
     (case bounded_addresses ips of
        None \<Rightarrow> (Inr False, None)
      | Some valid \<Rightarrow> (write_result (put valid), Some valid))"

text \<open>\<open>get_discovery_ips\<close>: the list as the service holds it, or nothing.\<close>

fun text_of_json :: "json \<Rightarrow> string option" where
  "text_of_json (JStr s) = Some s"
| "text_of_json _ = None"

definition get_discovery_ips :: "reply \<Rightarrow> client_error + string list" where
  "get_discovery_ips got =
     (case got of
        Inl e \<Rightarrow> if is_api_error e then Inr [] else Inl e
      | Inr (Some (JObj (kv # kvs))) \<Rightarrow>
          (case map_of (kv # kvs) ''ips'' of
             Some (JList xs) \<Rightarrow> (if list_all (\<lambda>x. text_of_json x \<noteq> None) xs then Inr (List.map_filter text_of_json xs) else Inr [])
           | _ \<Rightarrow> Inr [])
      | Inr _ \<Rightarrow> Inr [])"

text \<open>Removal: Shure tries \<open>PATCH\<close> and falls back to \<open>POST\<close>, Sennheiser sends \<open>DELETE\<close>.\<close>

definition shure_remove :: "(string list \<Rightarrow> reply) \<Rightarrow> (string list \<Rightarrow> reply) \<Rightarrow> json list \<Rightarrow> edit" where
  "shure_remove patch post ips =
     (case bounded_addresses ips of
        None \<Rightarrow> (Inr False, None)
      | Some valid \<Rightarrow>
          (case patch valid of
             Inr _ \<Rightarrow> (Inr True, Some valid)
           | Inl e \<Rightarrow> if is_api_error e then (write_result (post valid), Some valid) else (Inl e, Some valid)))"

definition sennheiser_remove :: "(string list \<Rightarrow> reply) \<Rightarrow> json list \<Rightarrow> edit" where
  "sennheiser_remove delete ips =
     (case bounded_addresses ips of
        None \<Rightarrow> (Inr False, None)
      | Some valid \<Rightarrow> (write_result (delete valid), Some valid))"

section \<open>The contract of an edit\<close>

locale list_edit =
  fixes edit :: "(string list \<Rightarrow> reply) \<Rightarrow> json list \<Rightarrow> edit"
  assumes carries: "snd (edit put ips) = Some sent \<Longrightarrow>
      set (validate_ipv4_list ips) \<subseteq> set sent \<and> sent \<noteq> [] \<and> int (length sent) \<le> max_discovery_candidates"
    and unsent: "snd (edit put ips) = None \<Longrightarrow> fst (edit put ips) \<noteq> Inr True"
begin

lemma accepted:
  assumes "fst (edit put ips) = Inr True"
  obtains sent where "snd (edit put ips) = Some sent" "set (validate_ipv4_list ips) \<subseteq> set sent"
    "int (length sent) \<le> max_discovery_candidates"
  using assms unsent[of put ips] carries[of put ips] by (cases "snd (edit put ips)") auto

lemma refused_when_too_many:
  "int (card (set (validate_ipv4_list ips))) > max_discovery_candidates \<Longrightarrow> fst (edit put ips) \<noteq> Inr True"
proof
  assume many: "int (card (set (validate_ipv4_list ips))) > max_discovery_candidates" and "fst (edit put ips) = Inr True"
  from accepted[OF this(2)] obtain sent where s: "set (validate_ipv4_list ips) \<subseteq> set sent"
    "int (length sent) \<le> max_discovery_candidates" by blast
  have "card (set (validate_ipv4_list ips)) \<le> length sent"
    using card_mono[OF finite_set s(1)] card_length[of sent] by linarith
  with s many show False by linarith
qed

end

lemma bounded_addresses_Some:
  assumes "bounded_addresses ips = Some valid"
  shows "valid = validate_ipv4_list ips \<and> valid \<noteq> [] \<and> int (length ips) \<le> max_discovery_candidates
    \<and> int (length valid) \<le> max_discovery_candidates"
proof -
  have len: "length (validate_ipv4_list xs) \<le> length xs" for xs
    by (induction xs) (auto simp: validate_ipv4_list_def map_filter_simps split: option.splits)
  have b: "int (length (take (nat (max_discovery_candidates + 1)) ips)) \<le> max_discovery_candidates"
    using assms by (auto simp: bounded_addresses_def Let_def split: if_splits)
  then have l: "int (length ips) \<le> max_discovery_candidates"
    by (simp add: min_def max_discovery_candidates_def split: if_splits)
  then have "take (nat (max_discovery_candidates + 1)) ips = ips" by simp
  with assms l len[of ips] show ?thesis
    by (auto simp: bounded_addresses_def Let_def split: if_splits)
qed

interpretation shure: list_edit "shure_add got" for got
proof
  fix put ips sent
  assume "snd (shure_add got put ips) = Some sent"
  then show "set (validate_ipv4_list ips) \<subseteq> set sent \<and> sent \<noteq> [] \<and> int (length sent) \<le> max_discovery_candidates"
    by (auto simp: shure_add_def Let_def simp flip: set_empty
        dest: bounded_addresses_Some split: option.splits sum.splits if_splits)
next
  fix put ips
  assume "snd (shure_add got put ips) = None"
  then show "fst (shure_add got put ips) \<noteq> Inr True"
    by (auto simp: shure_add_def Let_def split: option.splits sum.splits if_splits)
qed

interpretation sennheiser: list_edit "sennheiser_add got" for got
  by unfold_locales
    (auto simp: sennheiser_add_def dest: bounded_addresses_Some split: option.splits)

interpretation shure_removal: list_edit "\<lambda>patch. shure_remove patch post" for post
  by unfold_locales
    (auto simp: shure_remove_def dest: bounded_addresses_Some split: option.splits sum.splits if_splits)

interpretation sennheiser_removal: list_edit sennheiser_remove
  by unfold_locales
    (auto simp: sennheiser_remove_def dest: bounded_addresses_Some split: option.splits)

section \<open>Shure's read-modify-write\<close>

text \<open>C24: adding addresses writes the list the service told, followed by the new addresses, when the
  read succeeds; when the read fails for any reason it writes the new addresses alone, so that a
  passing fault of the service loses every other address that was registered.\<close>

theorem failed_read_loses_list:
  assumes valid: "bounded_addresses ips = Some valid" and e: "is_api_error e"
    and held: "remote_addresses (Some (JObj [(''ips'', JList held)])) = Some existing"
    and fits: "int (length (fromkeys (existing @ valid))) \<le> max_discovery_candidates"
    and other: "a \<in> set existing" "a \<notin> set valid"
  shows "snd (shure_add (Inr (Some (JObj [(''ips'', JList held)]))) put ips) = Some (fromkeys (existing @ valid))
    \<and> snd (shure_add (Inl e) put ips) = Some (fromkeys valid)
    \<and> a \<in> set (fromkeys (existing @ valid)) \<and> a \<notin> set (fromkeys valid)"
proof -
  have "length (fromkeys valid) \<le> length valid" by (rule length_fromkeys_le)
  then have "int (length (fromkeys valid)) \<le> max_discovery_candidates"
    using bounded_addresses_Some[OF valid] by linarith
  with assms show ?thesis by (simp add: shure_add_def Let_def)
qed

lemma sample_addresses:
  "ipv4_text (JStr ''10.0.0.9'') = Some ''10.0.0.9''" "ipv4_text (JStr ''10.0.0.1'') = Some ''10.0.0.1''"
  "ipv4_text (JStr ''bad'') = None"
  by code_simp+

declare ipv4_text.simps [simp del]

lemma small_calls:
  "int (length ips) \<le> max_discovery_candidates \<Longrightarrow>
   bounded_addresses ips = (if validate_ipv4_list ips = [] then None else Some (validate_ipv4_list ips))"
  by (simp add: bounded_addresses_def Let_def)

theorem failed_read_loses_list_witness:
  "snd (shure_add (Inl TimeoutError) (\<lambda>_. Inr None) [JStr ''10.0.0.9'']) = Some [''10.0.0.9'']
   \<and> ''10.0.0.1'' \<notin> set (fromkeys [''10.0.0.9''])"
proof -
  have v: "bounded_addresses [JStr ''10.0.0.9''] = Some [''10.0.0.9'']"
    by (simp add: small_calls max_discovery_candidates_def validate_ipv4_list_def map_filter_simps sample_addresses)
  have h: "remote_addresses (Some (JObj [(''ips'', JList [JStr ''10.0.0.1''])])) = Some [''10.0.0.1'']"
    by (simp add: remote_addresses_def max_discovery_candidates_def validate_ipv4_list_def map_filter_simps sample_addresses)
  have "is_api_error TimeoutError" by (simp add: is_api_error_def)
  moreover have "int (length (fromkeys ([''10.0.0.1''] @ [''10.0.0.9'']))) \<le> max_discovery_candidates"
    by (simp add: max_discovery_candidates_def)
  ultimately have "snd (shure_add (Inl TimeoutError) (\<lambda>_. Inr None) [JStr ''10.0.0.9'']) = Some (fromkeys [''10.0.0.9''])
      \<and> ''10.0.0.1'' \<notin> set (fromkeys [''10.0.0.9''])"
    using failed_read_loses_list[OF v _ h, of TimeoutError "''10.0.0.1''" "\<lambda>_. Inr None"] by simp
  then show ?thesis by simp
qed

text \<open>An edit of a discovery list that reports success has sent every valid address of the call
  in one list within the hard ceiling, whichever vendor and operation it is.\<close>

theorem accepted_edit_sent:
  assumes "fst r = Inr True"
    and "r = shure_add got put ips \<or> r = sennheiser_add got put ips
       \<or> r = shure_remove patch post ips \<or> r = sennheiser_remove delete ips"
  shows "\<exists>sent. snd r = Some sent \<and> set (validate_ipv4_list ips) \<subseteq> set sent
    \<and> int (length sent) \<le> max_discovery_candidates"
  using assms(2)
proof (elim disjE)
  assume r: "r = shure_add got put ips"
  from assms(1) show ?thesis unfolding r by (rule shure.accepted) blast
next
  assume r: "r = sennheiser_add got put ips"
  from assms(1) show ?thesis unfolding r by (rule sennheiser.accepted) blast
next
  assume r: "r = shure_remove patch post ips"
  from assms(1) show ?thesis unfolding r by (rule shure_removal.accepted) blast
next
  assume r: "r = sennheiser_remove delete ips"
  from assms(1) show ?thesis unfolding r by (rule sennheiser_removal.accepted) blast
qed

theorem accepted_edit_sent_witness:
  "set (validate_ipv4_list [JStr ''10.0.0.9'', JStr ''bad'']) = {''10.0.0.9''}
   \<and> (\<exists>sent. snd (sennheiser_add (Inr None) (\<lambda>_. Inr None) [JStr ''10.0.0.9'', JStr ''bad'']) = Some sent
       \<and> set (validate_ipv4_list [JStr ''10.0.0.9'', JStr ''bad'']) \<subseteq> set sent)"
proof -
  let ?r = "sennheiser_add (Inr None) (\<lambda>_. Inr None) [JStr ''10.0.0.9'', JStr ''bad'']"
  have valid: "validate_ipv4_list [JStr ''10.0.0.9'', JStr ''bad''] = [''10.0.0.9'']"
    by (simp add: validate_ipv4_list_def map_filter_simps sample_addresses)
  have "fst ?r = Inr True"
    by (simp add: sennheiser_add_def small_calls max_discovery_candidates_def valid write_result_def)
  from accepted_edit_sent[OF this disjI2[OF disjI1[OF HOL.refl]]]
  have "\<exists>sent. snd ?r = Some sent \<and> set (validate_ipv4_list [JStr ''10.0.0.9'', JStr ''bad'']) \<subseteq> set sent" by blast
  with valid show ?thesis by simp
qed

end
