(* ===== verification/Charger_Polling.thy ===== *)
theory Charger_Polling
  imports Discovery_Sources Manufacturer_Sync
begin

text \<open>
  The bounded charger poll (\<open>services/chargers/polling_service.py\<close>) over its cache adapter
  (\<open>services/chargers/polling_cache.py\<close>) and data (\<open>services/chargers/polling_dtos.py\<close>): a large vendor
  inventory is read one page per poll, the stations found so far wait in the cursor, and the public
  snapshot is replaced when a cycle is complete.

  The plugin is a parameter: the inventory it returns, the health of its client (None when asking
  raises) and its channels per device (None when asking raises).  \<open>digest\<close> is SHA-256 in
  hexadecimal.  Characters are the code points below 256.
\<close>

section \<open>Data\<close>

text \<open>What a vendor call returns: a sequence, another iterable, or neither (mappings and texts
  included).\<close>

datatype vendor_items = Listing "json list" | Iterable "json list" | NoItems

record slot_snapshot =
  ss_number :: int
  ss_mic :: string
  ss_battery :: int
  ss_charging :: bool

record station_snapshot =
  st_id :: string
  st_name :: string
  st_status :: string
  st_slots :: "slot_snapshot list"

record inventory_page =
  ip_items :: "payload list"
  ip_start :: nat
  ip_next :: nat
  ip_size :: "nat option"
  ip_fingerprint :: "string option"
  ip_truncated :: bool
  ip_complete :: bool

record charger_cursor =
  cu_next :: nat
  cu_size :: nat
  cu_fingerprint :: "string option"
  cu_stations :: "station_snapshot list"
  cu_stations_truncated :: bool
  cu_slots_truncated :: bool
  cu_failed :: bool

record poll_result =
  pr_scanned :: nat
  pr_cached :: nat
  pr_failed :: nat
  pr_truncated :: bool
  pr_stations_truncated :: bool
  pr_slots_truncated :: bool

section \<open>Cache adapter\<close>

text \<open>A shared cache that may be down; entries that no longer validate are absent.\<close>

record charger_cache =
  cc_cursors :: "string \<rightharpoonup> charger_cursor"
  cc_snapshots :: "string \<rightharpoonup> station_snapshot list"
  cc_alive :: bool

definition charger_cursor_key :: "manufacturer \<Rightarrow> string" where
  "charger_cursor_key m = ''micboard:charger-poll:v1:'' @ nat_text (mf_pk m) @ '':'' @ mf_code m"

definition snapshot_key :: "manufacturer \<Rightarrow> string" where
  "snapshot_key m = ''charger_data_'' @ mf_code m"

definition first_cursor :: charger_cursor where
  "first_cursor = \<lparr>cu_next = 0, cu_size = 0, cu_fingerprint = None, cu_stations = [],
     cu_stations_truncated = False, cu_slots_truncated = False, cu_failed = False\<rparr>"

definition valid_cursor :: "charger_cursor \<Rightarrow> bool" where
  "valid_cursor cu \<longleftrightarrow> cu_next cu = 0 \<or> cu_fingerprint cu \<noteq> None"

definition read_charger_cursor :: "manufacturer \<Rightarrow> charger_cache \<Rightarrow> charger_cursor" where
  "read_charger_cursor m cache =
     (case (if cc_alive cache then cc_cursors cache (charger_cursor_key m) else None) of
        None \<Rightarrow> first_cursor
      | Some cu \<Rightarrow> if valid_cursor cu then cu else first_cursor)"

definition write_charger_cursor :: "manufacturer \<Rightarrow> charger_cursor \<Rightarrow> charger_cache \<Rightarrow> charger_cache" where
  "write_charger_cursor m cu cache =
     (if cc_alive cache then cache\<lparr>cc_cursors := (cc_cursors cache)(charger_cursor_key m \<mapsto> cu)\<rparr> else cache)"

definition clear_cursor :: "manufacturer \<Rightarrow> charger_cache \<Rightarrow> charger_cache" where
  "clear_cursor m cache =
     (if cc_alive cache then cache\<lparr>cc_cursors := (cc_cursors cache)(charger_cursor_key m := None)\<rparr> else cache)"

definition publish_snapshot :: "manufacturer \<Rightarrow> station_snapshot list \<Rightarrow> charger_cache \<Rightarrow> charger_cache" where
  "publish_snapshot m stations cache =
     (if cc_alive cache then cache\<lparr>cc_snapshots := (cc_snapshots cache)(snapshot_key m \<mapsto> stations)\<rparr> else cache)"

definition finish_cycle :: "manufacturer \<Rightarrow> station_snapshot list \<Rightarrow> bool \<Rightarrow> charger_cache \<Rightarrow> charger_cache" where
  "finish_cycle m stations publish cache =
     clear_cursor m (if publish then publish_snapshot m stations cache else cache)"

definition persist_continuation ::
  "manufacturer \<Rightarrow> inventory_page \<Rightarrow> station_snapshot list \<Rightarrow> bool \<Rightarrow> bool \<Rightarrow> bool \<Rightarrow> charger_cache \<Rightarrow> charger_cache"
where
  "persist_continuation m page stations stations_truncated slots_truncated cycle_failed cache =
     (case (ip_size page, ip_fingerprint page) of
        (Some size', Some fingerprint) \<Rightarrow>
          if ip_next page \<noteq> 0
          then write_charger_cursor m
                 \<lparr>cu_next = ip_next page, cu_size = size', cu_fingerprint = Some fingerprint,
                  cu_stations = stations, cu_stations_truncated = stations_truncated,
                  cu_slots_truncated = slots_truncated, cu_failed = cycle_failed\<rparr> cache
          else clear_cursor m cache
      | _ \<Rightarrow> clear_cursor m cache)"

section \<open>Vendor values\<close>

definition printable :: "char \<Rightarrow> bool" where
  "printable c = (let n = of_char c :: nat in (32 \<le> n \<and> n \<le> 126) \<or> (161 \<le> n \<and> n \<noteq> 173))"

fun bounded_text :: "json \<Rightarrow> nat \<Rightarrow> string" where
  "bounded_text (JStr s) n = strip (filter printable (take n s))"
| "bounded_text _ _ = []"

definition bounded_integer :: "json \<Rightarrow> int \<Rightarrow> int \<Rightarrow> int" where
  "bounded_integer v lo hi =
     (if is_bool v then lo else case int_of_json v of None \<Rightarrow> lo | Some n \<Rightarrow> min (max n lo) hi)"

fun mapping_of :: "json \<Rightarrow> payload option" where
  "mapping_of (JObj kvs) = Some kvs"
| "mapping_of _ = None"

definition bounded_items :: "vendor_items \<Rightarrow> nat \<Rightarrow> payload list \<times> bool" where
  "bounded_items v limit =
     (case v of NoItems \<Rightarrow> ([], False)
      | Listing xs \<Rightarrow> (List.map_filter mapping_of (take limit xs), length (take (limit + 1) xs) > limit)
      | Iterable xs \<Rightarrow> (List.map_filter mapping_of (take limit xs), length (take (limit + 1) xs) > limit))"

definition slot_of_channel :: "payload \<Rightarrow> slot_snapshot option" where
  "slot_of_channel channel =
     (case mapping_of (field channel ''tx'') of None \<Rightarrow> None
      | Some tx \<Rightarrow> Some
          \<lparr>ss_number = bounded_integer (field channel ''channel'') 0 1024,
           ss_mic = (let t = bounded_text (field tx ''name'') 200 in if t = [] then ''Unknown Mic'' else t),
           ss_battery = bounded_integer (field tx ''battery_percentage'') 0 100,
           ss_charging = truthy (field tx ''charging_status'')\<rparr>)"

text \<open>The slots, whether they were cut, whether the vendor failed.\<close>

definition station_slots :: "vendor_items option \<Rightarrow> nat \<Rightarrow> slot_snapshot list \<times> bool \<times> bool" where
  "station_slots channels limit =
     (case channels of None \<Rightarrow> ([], False, True)
      | Some v \<Rightarrow> (let (raw, truncated) = bounded_items v limit
          in (List.map_filter slot_of_channel raw, truncated, False)))"

definition charging_station_models :: "string list" where
  "charging_station_models = [''SBC250'', ''SBC850'', ''MXWNCS8'', ''MXWNCS4'', ''SBC220'']"

definition is_station :: "payload \<Rightarrow> bool" where
  "is_station device \<longleftrightarrow>
     (case field device ''api_device_id'' of JStr s \<Rightarrow> s \<noteq> [] | _ \<Rightarrow> False)
     \<and> (bounded_text (field device ''model'') 255 \<in> set charging_station_models
        \<or> bounded_text (field device ''device_type'') 255 \<in> set charging_station_models)"

section \<open>Pages\<close>

text \<open>UTF-8 of the code points below 256, and the hashed bytes of an inventory.\<close>

definition utf8 :: "string \<Rightarrow> nat list" where
  "utf8 s = concat (map (\<lambda>c. let n = of_char c :: nat in
     if n < 128 then [n] else [192 + n div 64, 128 + n mod 64]) s)"

definition hashed_field :: "json \<Rightarrow> nat list" where
  "hashed_field v = (let encoded = utf8 (bounded_text v 255); n = length encoded in [n div 256, n mod 256] @ encoded)"

definition hashed_item :: "json \<Rightarrow> nat list" where
  "hashed_item v =
     (case mapping_of v of
        Some kvs \<Rightarrow> [0, 77] @ concat (map (\<lambda>f. hashed_field (field kvs f)) [''api_device_id'', ''model'', ''device_type''])
      | None \<Rightarrow> [0, 88] @ concat (map hashed_field [JNull, JNull, JNull]))"

definition inventory_fingerprint :: "(nat list \<Rightarrow> string) \<Rightarrow> json list \<Rightarrow> string" where
  "inventory_fingerprint digest items = digest (utf8 (nat_text (length items)) @ concat (map hashed_item items))"

definition inventory_item :: "payload \<Rightarrow> payload" where
  "inventory_item item = map (\<lambda>f. (f, field item f)) [''api_device_id'', ''model'', ''device_type'', ''name'']"

definition hard_max_charger_inventory :: nat where "hard_max_charger_inventory = 5000"

definition page_of_inventory ::
  "(nat list \<Rightarrow> string) \<Rightarrow> vendor_items \<Rightarrow> nat \<Rightarrow> nat \<Rightarrow> nat option \<Rightarrow> string option \<Rightarrow> inventory_page"
where
  "page_of_inventory digest v limit start_offset expected_size expected_fingerprint =
     (case v of
        Listing xs \<Rightarrow>
          (let total = length xs in
           if total > hard_max_charger_inventory
           then \<lparr>ip_items = [], ip_start = 0, ip_next = 0, ip_size = Some total, ip_fingerprint = None,
                 ip_truncated = True, ip_complete = False\<rparr>
           else
             (let fingerprint = inventory_fingerprint digest xs;
                  unchanged = (expected_size = None \<or> expected_size = Some total)
                    \<and> (expected_fingerprint = None \<or> expected_fingerprint = Some fingerprint);
                  offset = (if unchanged \<and> start_offset < total then start_offset else 0);
                  next_offset = min (offset + limit) total
              in \<lparr>ip_items = map inventory_item (List.map_filter mapping_of (take limit (drop offset xs))),
                  ip_start = offset, ip_next = (if next_offset \<ge> total then 0 else next_offset),
                  ip_size = Some total, ip_fingerprint = Some fingerprint,
                  ip_truncated = (total > limit), ip_complete = (next_offset \<ge> total)\<rparr>))
      | _ \<Rightarrow>
          (let (items, truncated) = bounded_items v limit
           in \<lparr>ip_items = map inventory_item items, ip_start = 0, ip_next = 0, ip_size = None,
               ip_fingerprint = None, ip_truncated = truncated, ip_complete = \<not> truncated\<rparr>))"

section \<open>The poll\<close>

text \<open>Unique stations of the cursor under the current limit.\<close>

definition station_accumulator :: "station_snapshot list \<Rightarrow> nat \<Rightarrow> station_snapshot list \<times> bool" where
  "station_accumulator stations limit =
     fold (\<lambda>s (acc, truncated).
             if st_id s \<in> set (map st_id acc) then (acc, truncated)
             else if length acc \<ge> limit then (acc, True) else (acc @ [s], truncated)) stations ([], False)"

record scan =
  pn_stations :: "station_snapshot list"
  pn_stations_truncated :: bool
  pn_failures :: nat
  pn_slots_truncated :: bool
  pn_failed :: bool

definition status_text :: "bool \<Rightarrow> string" where
  "status_text healthy = (if healthy then ''online'' else ''offline'')"

definition scan_device ::
  "charger_limits \<Rightarrow> (string \<Rightarrow> vendor_items option) \<Rightarrow> bool \<Rightarrow> payload \<Rightarrow> scan \<Rightarrow> scan"
where
  "scan_device lims channels healthy device sc =
     (if \<not> is_station device then sc
      else
        (let device_id = bounded_text (field device ''api_device_id'') 255 in
         if device_id = [] then sc\<lparr>pn_failures := pn_failures sc + 1\<rparr>
         else if device_id \<in> set (map st_id (pn_stations sc)) then sc
         else if length (pn_stations sc) \<ge> nat (cl_max_stations lims) then sc\<lparr>pn_stations_truncated := True\<rparr>
         else
           (let (slots, channel_truncated, channel_failed) =
                  station_slots (channels device_id) (nat (cl_max_slots lims));
                sc1 = sc\<lparr>pn_slots_truncated := pn_slots_truncated sc \<or> channel_truncated\<rparr> in
            if channel_failed then sc1\<lparr>pn_failures := pn_failures sc1 + 1, pn_failed := True\<rparr>
            else sc1\<lparr>pn_stations := pn_stations sc1 @
                [\<lparr>st_id = device_id,
                  st_name = (let t = bounded_text (field device ''name'') 200 in if t = [] then ''Charger'' else t),
                  st_status = status_text healthy, st_slots = slots\<rparr>]\<rparr>)))"

definition set_status :: "bool \<Rightarrow> station_snapshot \<Rightarrow> station_snapshot" where
  "set_status healthy s = s\<lparr>st_status := status_text healthy\<rparr>"

definition poll ::
  "(nat list \<Rightarrow> string) \<Rightarrow> charger_limits \<Rightarrow> manufacturer \<Rightarrow> vendor_items \<Rightarrow> (string \<Rightarrow> vendor_items option)
     \<Rightarrow> bool option \<Rightarrow> charger_cache \<Rightarrow> poll_result \<times> charger_cache"
where
  "poll digest lims m devices channels health cache =
     (let cursor = read_charger_cursor m cache;
          resumed = cu_next cursor \<noteq> 0;
          page = page_of_inventory digest devices (nat (cl_max_devices lims)) (cu_next cursor)
            (if resumed then Some (cu_size cursor) else None)
            (if resumed then cu_fingerprint cursor else None);
          healthy = (health = Some True);
          continuing = ip_start page \<noteq> 0;
          (acc, rebounded) = station_accumulator (if continuing then cu_stations cursor else [])
            (nat (cl_max_stations lims));
          sc = fold (scan_device lims channels healthy) (ip_items page)
            \<lparr>pn_stations = acc,
             pn_stations_truncated = rebounded \<or> (continuing \<and> cu_stations_truncated cursor),
             pn_failures = 0, pn_slots_truncated = continuing \<and> cu_slots_truncated cursor,
             pn_failed = continuing \<and> cu_failed cursor\<rparr>;
          stations = map (set_status healthy) (pn_stations sc);
          cache' = (if ip_complete page then finish_cycle m stations (\<not> pn_failed sc) cache
            else persist_continuation m page stations (pn_stations_truncated sc) (pn_slots_truncated sc)
                   (pn_failed sc) cache)
      in (\<lparr>pr_scanned = length (ip_items page), pr_cached = length stations, pr_failed = pn_failures sc,
           pr_truncated = ip_truncated page, pr_stations_truncated = pn_stations_truncated sc,
           pr_slots_truncated = pn_slots_truncated sc\<rparr>, cache'))"

section \<open>A cycle of pages\<close>

text \<open>The scan as far as the cursor keeps it, with every status erased.\<close>

definition kept :: "scan \<Rightarrow> scan" where
  "kept sc = sc\<lparr>pn_stations := map (set_status True) (pn_stations sc), pn_failures := 0\<rparr>"

definition first_scan :: scan where
  "first_scan = \<lparr>pn_stations = [], pn_stations_truncated = False, pn_failures = 0,
     pn_slots_truncated = False, pn_failed = False\<rparr>"

lemma set_status_simps [simp]:
  "st_id (set_status h s) = st_id s" "set_status h (set_status h' s) = set_status h s"
  by (simp_all add: set_status_def)

lemma map_set_status_twice [simp]:
  "map (set_status h) (map (set_status h') xs) = map (set_status h) xs"
  by simp

lemma kept_eq_iff:
  "kept a = kept b \<longleftrightarrow> map (set_status True) (pn_stations a) = map (set_status True) (pn_stations b)
     \<and> pn_stations_truncated a = pn_stations_truncated b \<and> pn_slots_truncated a = pn_slots_truncated b
     \<and> pn_failed a = pn_failed b"
  by (cases a; cases b) (auto simp: kept_def)

lemma restatus:
  assumes "map (set_status True) xs = map (set_status True) ys"
  shows "map (set_status h) xs = map (set_status h) ys"
proof -
  have "map (set_status h) (map (set_status True) xs) = map (set_status h) (map (set_status True) ys)"
    using assms by (rule arg_cong)
  then show ?thesis unfolding map_set_status_twice .
qed

lemma kept_ids:
  assumes "kept a = kept b"
  shows "map st_id (pn_stations a) = map st_id (pn_stations b)" "length (pn_stations a) = length (pn_stations b)"
proof -
  have "map st_id (map (set_status True) (pn_stations a)) = map st_id (map (set_status True) (pn_stations b))"
    using assms by (simp only: kept_eq_iff)
  then show "map st_id (pn_stations a) = map st_id (pn_stations b)" by (simp add: o_def)
  then show "length (pn_stations a) = length (pn_stations b)" by (metis length_map)
qed

lemma scan_device_kept:
  assumes "kept a = kept b"
  shows "kept (scan_device lims channels h d a) = kept (scan_device lims channels h' d b)"
proof -
  note ids = kept_ids[OF assms]
  have set: "set (map st_id (pn_stations a)) = set (map st_id (pn_stations b))" by (simp only: ids)
  show ?thesis
    using assms ids(2) set
    by (auto simp: scan_device_def kept_eq_iff Let_def set_status_def split: prod.splits)
qed

lemma fold_scan_kept:
  "kept a = kept b \<Longrightarrow> kept (fold (scan_device lims channels h) ds a) = kept (fold (scan_device lims channels h') ds b)"
proof (induction ds arbitrary: a b)
  case (Cons d ds)
  from Cons.IH[OF scan_device_kept[OF Cons.prems]] show ?case by simp
qed simp

text \<open>The scanned stations stay unique and within the limit, so the cursor restores them as they are.\<close>

definition accepted :: "charger_limits \<Rightarrow> station_snapshot list \<Rightarrow> bool" where
  "accepted lims ss \<longleftrightarrow> distinct (map st_id ss) \<and> length ss \<le> nat (cl_max_stations lims)"

lemma scan_device_accepted:
  "accepted lims (pn_stations sc) \<Longrightarrow> accepted lims (pn_stations (scan_device lims channels h d sc))"
  by (auto simp: scan_device_def accepted_def Let_def split: prod.splits)

lemma fold_scan_accepted:
  "accepted lims (pn_stations sc) \<Longrightarrow> accepted lims (pn_stations (fold (scan_device lims channels h) ds sc))"
  by (induction ds arbitrary: sc) (auto intro: scan_device_accepted)

lemma station_accumulator_id:
  assumes "accepted lims ss"
  shows "station_accumulator ss (nat (cl_max_stations lims)) = (ss, False)"
proof -
  have "fold (\<lambda>s (acc, truncated).
             if st_id s \<in> set (map st_id acc) then (acc, truncated)
             else if length acc \<ge> l then (acc, True) else (acc @ [s], truncated)) ss (acc, t) = (acc @ ss, t)"
    if "distinct (map st_id (acc @ ss))" "length acc + length ss \<le> l" for l acc t
    using that by (induction ss arbitrary: acc) auto
  from this[of "[]"] assms show ?thesis by (simp add: station_accumulator_def accepted_def)
qed


text \<open>The scan of a whole inventory, and the cache after a complete cycle.\<close>

definition whole_scan :: "charger_limits \<Rightarrow> (string \<Rightarrow> vendor_items option) \<Rightarrow> json list \<Rightarrow> scan" where
  "whole_scan lims channels ds =
     fold (scan_device lims channels True) (map inventory_item (List.map_filter mapping_of ds)) first_scan"

definition after_cycle ::
  "charger_limits \<Rightarrow> manufacturer \<Rightarrow> (string \<Rightarrow> vendor_items option) \<Rightarrow> json list \<Rightarrow> bool option \<Rightarrow> charger_cache \<Rightarrow> charger_cache"
where
  "after_cycle lims m channels ds health cache =
     (let sc = whole_scan lims channels ds in
      finish_cycle m (map (set_status (health = Some True)) (pn_stations sc)) (\<not> pn_failed sc) cache)"

definition resumed_scan :: "charger_cursor \<Rightarrow> scan" where
  "resumed_scan cu = \<lparr>pn_stations = cu_stations cu, pn_stations_truncated = cu_stations_truncated cu,
     pn_failures = 0, pn_slots_truncated = cu_slots_truncated cu, pn_failed = cu_failed cu\<rparr>"

text \<open>The cache between two polls: the cursor stands at \<open>n\<close> and holds the scan of what precedes.\<close>

definition at_offset ::
  "(nat list \<Rightarrow> string) \<Rightarrow> charger_limits \<Rightarrow> manufacturer \<Rightarrow> (string \<Rightarrow> vendor_items option) \<Rightarrow> json list \<Rightarrow> nat
     \<Rightarrow> charger_cache \<Rightarrow> bool"
where
  "at_offset digest lims m channels ds n cache \<longleftrightarrow>
     (case cc_cursors cache (charger_cursor_key m) of
        None \<Rightarrow> n = 0
      | Some cu \<Rightarrow> 0 < n \<and> n < length ds \<and> cu_next cu = n \<and> cu_size cu = length ds
          \<and> cu_fingerprint cu = Some (inventory_fingerprint digest ds)
          \<and> accepted lims (cu_stations cu)
          \<and> kept (resumed_scan cu) = kept (whole_scan lims channels (take n ds)))"

lemma map_filter_append: "List.map_filter f (xs @ ys) = List.map_filter f xs @ List.map_filter f ys"
  by (simp add: List.map_filter_def)

lemma whole_scan_append:
  "whole_scan lims channels (xs @ ys) =
     fold (scan_device lims channels True) (map inventory_item (List.map_filter mapping_of ys)) (whole_scan lims channels xs)"
  by (simp add: whole_scan_def map_filter_append)

lemma whole_scan_accepted: "accepted lims (pn_stations (whole_scan lims channels ds))"
  unfolding whole_scan_def by (rule fold_scan_accepted) (simp add: accepted_def first_scan_def)

lemma poll_page:
  fixes health :: "bool option"
  assumes up: "cc_alive cache" and small: "length ds \<le> hard_max_charger_inventory"
    and at: "at_offset digest lims m channels ds n cache"
  defines "l \<equiv> nat (cl_max_devices lims)"
    and "c \<equiv> snd (poll digest lims m (Listing ds) channels health cache)"
  shows "length ds \<le> n + l \<Longrightarrow> c = after_cycle lims m channels ds health cache"
    and "n + l < length ds \<Longrightarrow> 0 < l \<Longrightarrow> at_offset digest lims m channels ds (n + l) c
        \<and> (\<exists>cu. c = write_charger_cursor m cu cache)"
proof -
  let ?cu = "read_charger_cursor m cache" and ?h = "health = Some True"
  have cu: "cu_next ?cu = n" "n \<noteq> 0 \<Longrightarrow> n < length ds" "n \<noteq> 0 \<Longrightarrow> cu_size ?cu = length ds"
    "n \<noteq> 0 \<Longrightarrow> cu_fingerprint ?cu = Some (inventory_fingerprint digest ds)"
    "accepted lims (if n \<noteq> 0 then cu_stations ?cu else [])"
    "kept (if n \<noteq> 0 then resumed_scan ?cu else first_scan) = kept (whole_scan lims channels (take n ds))"
    using at up
    by (auto simp: at_offset_def read_charger_cursor_def first_cursor_def valid_cursor_def accepted_def
        whole_scan_def map_filter_simps split: option.splits)
  define page where "page = page_of_inventory digest (Listing ds) l n
    (if n \<noteq> 0 then Some (cu_size ?cu) else None) (if n \<noteq> 0 then cu_fingerprint ?cu else None)"
  have page: "ip_items page = map inventory_item (List.map_filter mapping_of (take l (drop n ds)))"
    "ip_start page = n" "ip_next page = (if length ds \<le> n + l then 0 else n + l)" "ip_size page = Some (length ds)"
    "ip_fingerprint page = Some (inventory_fingerprint digest ds)" "ip_complete page = (length ds \<le> n + l)"
    using small cu(1-4) by (auto simp: page_def page_of_inventory_def Let_def not_less min_def)
  define sc where "sc = fold (scan_device lims channels ?h) (ip_items page)
    (if n \<noteq> 0 then resumed_scan ?cu else first_scan)"
  have c: "c = (if ip_complete page then finish_cycle m (map (set_status ?h) (pn_stations sc)) (\<not> pn_failed sc) cache
      else persist_continuation m page (map (set_status ?h) (pn_stations sc)) (pn_stations_truncated sc)
             (pn_slots_truncated sc) (pn_failed sc) cache)"
    using station_accumulator_id[OF cu(5)]
    unfolding c_def poll_def Let_def l_def[symmetric] cu(1) page_def[symmetric] page(2)
    by (cases "n = 0") (simp_all add: sc_def resumed_scan_def first_scan_def)
  have "kept sc = kept (whole_scan lims channels (take n ds @ take l (drop n ds)))"
    unfolding sc_def page(1) whole_scan_append by (rule fold_scan_kept[OF cu(6)])
  then have k: "kept sc = kept (whole_scan lims channels (take (n + l) ds))" by (simp add: take_add)
  have acc: "accepted lims (pn_stations sc)"
    unfolding sc_def using cu(5)
    by (intro fold_scan_accepted) (auto simp: resumed_scan_def first_scan_def)
  show "c = after_cycle lims m channels ds health cache" if "length ds \<le> n + l"
    using that k restatus[of "pn_stations sc" "pn_stations (whole_scan lims channels ds)" ?h]
    unfolding c page(6) kept_eq_iff by (simp add: after_cycle_def Let_def)
  show "at_offset digest lims m channels ds (n + l) c \<and> (\<exists>cu. c = write_charger_cursor m cu cache)"
    if "n + l < length ds" "0 < l"
  proof -
    define cu' where "cu' = \<lparr>cu_next = n + l, cu_size = length ds, cu_fingerprint = Some (inventory_fingerprint digest ds),
      cu_stations = map (set_status ?h) (pn_stations sc), cu_stations_truncated = pn_stations_truncated sc,
      cu_slots_truncated = pn_slots_truncated sc, cu_failed = pn_failed sc\<rparr>"
    have "c = write_charger_cursor m cu' cache"
      using that unfolding c page(6) by (simp add: persist_continuation_def page cu'_def)
    moreover have "accepted lims (cu_stations cu')" using acc by (simp add: accepted_def cu'_def o_def)
    moreover have "kept (resumed_scan cu') = kept sc" by (simp add: kept_eq_iff resumed_scan_def cu'_def)
    ultimately show ?thesis
      using that k up by (auto simp: at_offset_def write_charger_cursor_def) (simp_all add: cu'_def)
  qed
qed

lemma finish_after_write:
  "cc_alive cache \<Longrightarrow> finish_cycle m stations publish (write_charger_cursor m cu cache)
     = finish_cycle m stations publish cache"
  by (simp add: finish_cycle_def write_charger_cursor_def clear_cursor_def publish_snapshot_def)

lemma write_after_write:
  "cc_alive cache \<Longrightarrow> write_charger_cursor m cu (write_charger_cursor m cu' cache) = write_charger_cursor m cu cache"
  by (simp add: write_charger_cursor_def)

lemma write_alive [simp]: "cc_alive (write_charger_cursor m cu cache) = cc_alive cache"
  by (simp add: write_charger_cursor_def)

definition polls ::
  "(nat list \<Rightarrow> string) \<Rightarrow> charger_limits \<Rightarrow> manufacturer \<Rightarrow> vendor_items \<Rightarrow> (string \<Rightarrow> vendor_items option)
     \<Rightarrow> bool option list \<Rightarrow> charger_cache \<Rightarrow> charger_cache"
where
  "polls digest lims m devices channels healths cache =
     fold (\<lambda>h c. snd (poll digest lims m devices channels h c)) healths cache"

lemma polls_within:
  assumes "cc_alive cache" "length ds \<le> hard_max_charger_inventory" "0 < cl_max_devices lims"
    and "cc_cursors cache (charger_cursor_key m) = None"
    and "hs = [] \<or> length hs * nat (cl_max_devices lims) < length ds"
  shows "at_offset digest lims m channels ds (length hs * nat (cl_max_devices lims))
      (polls digest lims m (Listing ds) channels hs cache)
    \<and> (polls digest lims m (Listing ds) channels hs cache = cache
       \<or> (\<exists>cu. polls digest lims m (Listing ds) channels hs cache = write_charger_cursor m cu cache))"
  using assms(5)
proof (induction hs rule: rev_induct)
  case Nil
  with assms(4) show ?case by (simp add: polls_def at_offset_def)
next
  case (snoc h hs)
  let ?l = "nat (cl_max_devices lims)" and ?c = "polls digest lims m (Listing ds) channels hs cache"
  from snoc.prems have len: "length hs * ?l + ?l < length ds" by (simp add: algebra_simps)
  then have "hs = [] \<or> length hs * ?l < length ds" by simp
  note IH = snoc.IH[OF this]
  have up: "cc_alive ?c" using IH assms(1) by auto
  have "0 < ?l" using assms(3) by simp
  from poll_page(2)[OF up assms(2) conjunct1[OF IH] len this, of h]
  obtain cu where a: "at_offset digest lims m channels ds (length hs * ?l + ?l)
      (snd (poll digest lims m (Listing ds) channels h ?c))"
    and w: "snd (poll digest lims m (Listing ds) channels h ?c) = write_charger_cursor m cu ?c" by blast
  have "write_charger_cursor m cu ?c = write_charger_cursor m cu cache"
    using IH assms(1) by (auto simp: write_after_write)
  with a w show ?case by (auto simp: polls_def algebra_simps)
qed

text \<open>C22: polling a listed inventory page by page, with as many polls as it has pages, leaves the
  shared cache exactly as one poll that reads the whole inventory at once, whatever the health was
  on the way; the polls before the last leave every public snapshot as it was.\<close>

theorem paged_cycle_equals_one_poll:
  fixes lims :: charger_limits
  defines "l \<equiv> nat (cl_max_devices lims)"
  assumes up: "cc_alive cache" and small: "length ds \<le> hard_max_charger_inventory" and pos: "0 < cl_max_devices lims"
    and fresh: "cc_cursors cache (charger_cursor_key m) = None"
    and cycle: "length hs = (length ds - 1) div l"
  shows "polls digest lims m (Listing ds) channels (hs @ [h]) cache
      = snd (poll digest (lims\<lparr>cl_max_devices := int (length ds)\<rparr>) m (Listing ds) channels h cache)
    \<and> cc_snapshots (polls digest lims m (Listing ds) channels hs cache) = cc_snapshots cache"
proof -
  let ?c = "polls digest lims m (Listing ds) channels hs cache"
  have l: "0 < l" using pos by (simp add: l_def)
  have "hs = [] \<or> length hs * l < length ds"
  proof (cases "ds = []")
    case True
    with cycle show ?thesis by simp
  next
    case False
    have "length hs * l \<le> length ds - 1" unfolding cycle by (metis div_times_less_eq_dividend)
    with False show ?thesis by (cases ds) auto
  qed
  from polls_within[OF up small pos fresh this[unfolded l_def]]
  have at: "at_offset digest lims m channels ds (length hs * l) ?c" and
    c: "?c = cache \<or> (\<exists>cu. ?c = write_charger_cursor m cu cache)" by (simp_all add: l_def)
  have upc: "cc_alive ?c" using c up by auto
  have "length ds - 1 < length hs * l + l"
    unfolding cycle using l by (metis add.commute div_mult_mod_eq mod_less_divisor mult.commute nat_add_left_cancel_less)
  then have whole: "length ds \<le> length hs * l + l" by linarith
  have fields: "cl_max_stations (lims\<lparr>cl_max_devices := k\<rparr>) = cl_max_stations lims"
    "cl_max_slots (lims\<lparr>cl_max_devices := k\<rparr>) = cl_max_slots lims" for k by simp_all
  have scan: "whole_scan (lims\<lparr>cl_max_devices := k\<rparr>) channels ds = whole_scan lims channels ds" for k
  proof -
    have "scan_device (lims\<lparr>cl_max_devices := k\<rparr>) channels True = scan_device lims channels True"
      unfolding scan_device_def fields ..
    then show ?thesis by (simp add: whole_scan_def)
  qed
  have "polls digest lims m (Listing ds) channels (hs @ [h]) cache = snd (poll digest lims m (Listing ds) channels h ?c)"
    by (simp add: polls_def)
  also have "\<dots> = after_cycle lims m channels ds h ?c"
    by (rule poll_page(1)[OF upc small at[unfolded l_def] whole[unfolded l_def]])
  also have "\<dots> = after_cycle lims m channels ds h cache"
    using c up finish_after_write by (auto simp: after_cycle_def Let_def)
  also have "\<dots> = snd (poll digest (lims\<lparr>cl_max_devices := int (length ds)\<rparr>) m (Listing ds) channels h cache)"
    by (subst poll_page(1)[OF up small, of digest _ m channels 0])
      (use fresh in \<open>simp_all add: at_offset_def after_cycle_def scan\<close>)
  finally show ?thesis using c up by (auto simp: write_charger_cursor_def)
qed

definition sample_station :: "string \<Rightarrow> json" where
  "sample_station k = JObj [(''api_device_id'', JStr k), (''model'', JStr ''SBC250'')]"

definition sample_limits :: charger_limits where
  "sample_limits = \<lparr>cl_max_devices = 2, cl_max_stations = 8, cl_max_slots = 4\<rparr>"

theorem paged_cycle_equals_one_poll_witness:
  "let m = \<lparr>mf_pk = 7, mf_name = ''Shure'', mf_code = ''shure'', mf_active = True, mf_config = JNull\<rparr>;
       ds = [sample_station ''a'', sample_station ''b'', sample_station ''c''];
       cache = \<lparr>cc_cursors = Map.empty, cc_snapshots = Map.empty, cc_alive = True\<rparr>
   in polls (\<lambda>_. ''h'') sample_limits m (Listing ds) (\<lambda>_. Some NoItems) [None, Some True] cache
      = snd (poll (\<lambda>_. ''h'') (sample_limits\<lparr>cl_max_devices := 3\<rparr>) m (Listing ds) (\<lambda>_. Some NoItems) (Some True) cache)"
proof -
  let ?m = "\<lparr>mf_pk = 7, mf_name = ''Shure'', mf_code = ''shure'', mf_active = True, mf_config = JNull\<rparr>"
  let ?ds = "[sample_station ''a'', sample_station ''b'', sample_station ''c'']"
  let ?cache = "\<lparr>cc_cursors = Map.empty, cc_snapshots = Map.empty, cc_alive = True\<rparr>"
  have "length [None] = (length ?ds - 1) div nat (cl_max_devices sample_limits)" by (simp add: sample_limits_def)
  from paged_cycle_equals_one_poll[OF _ _ _ _ this, of ?cache ?m "\<lambda>_. ''h''" "\<lambda>_. Some NoItems" "Some True"]
  show ?thesis by (simp add: hard_max_charger_inventory_def sample_limits_def)
qed

end
