(* ===== verification/Tenant_Scope.thy ===== *)
theory Tenant_Scope
  imports Prelude
begin

text \<open>
  Which rows a user may see and change: the tenant querysets of \<open>models/base_managers.py\<close>, the
  membership data of \<open>multitenancy/models.py\<close>, the deployment switches of
  \<open>settings/deployment_controls.py\<close> and the mutation policy of \<open>services/shared/access_policy.py\<close>.

  A row is its primary key with its joins: one map from relation paths to keys per combination of
  related rows, so a condition of one \<open>filter\<close> call holds when one join satisfies it.  A model is
  its label and the attributes its class has.
\<close>

section \<open>Deployment, models, rows\<close>

record deployment =
  dp_multi_site :: bool
  dp_msp :: bool
  dp_cross_org :: bool
  dp_site :: nat
  dp_installed :: bool

record model_meta =
  mm_label :: string
  mm_attrs :: "string list"

type_synonym join = "(string \<times> nat) list"

record row =
  rw_pk :: nat
  rw_joins :: "join list"

definition where_path :: "string \<Rightarrow> nat \<Rightarrow> join \<Rightarrow> bool" where
  "where_path path v j \<longleftrightarrow> map_of j path = Some v"

definition select :: "(join \<Rightarrow> bool) \<Rightarrow> row list \<Rightarrow> row list" where
  "select P rows = filter (\<lambda>r. list_ex P (rw_joins r)) rows"

definition explicit_tenant_lookups :: "(string \<times> string \<times> string option) list" where
  "explicit_tenant_lookups =
     [(''micboard_multitenancy.organization'', ''pk'', None),
      (''micboard_multitenancy.campus'', ''organization_id'', Some ''pk''),
      (''micboard.alert'', ''channel__chassis__location__building__organization_id'',
         Some ''channel__chassis__location__building__campus_id''),
      (''micboard.chargerslot'', ''charger__location__building__organization_id'',
         Some ''charger__location__building__campus_id''),
      (''micboard.devicemovementlog'', ''device__location__building__organization_id'',
         Some ''device__location__building__campus_id''),
      (''micboard.wallsection'', ''wall__location__building__organization_id'',
         Some ''wall__location__building__campus_id'')]"

definition explicit_site_lookups :: "(string \<times> string) list" where
  "explicit_site_lookups =
     [(''micboard.alert'', ''channel__chassis__location__building__site_id''),
      (''micboard.chargerslot'', ''charger__location__building__site_id''),
      (''micboard.devicemovementlog'', ''device__location__building__site_id''),
      (''micboard.wallsection'', ''wall__location__building__site_id'')]"

definition relationship_tenant_lookups :: "(string \<times> string \<times> string option) list" where
  "relationship_tenant_lookups =
     [(''building'', ''building__organization_id'', Some ''building__campus_id''),
      (''location'', ''location__building__organization_id'', Some ''location__building__campus_id''),
      (''base_chassis'', ''base_chassis__location__building__organization_id'',
         Some ''base_chassis__location__building__campus_id''),
      (''chassis'', ''chassis__location__building__organization_id'',
         Some ''chassis__location__building__campus_id''),
      (''wireless_unit'', ''wireless_unit__base_chassis__location__building__organization_id'',
         Some ''wireless_unit__base_chassis__location__building__campus_id''),
      (''assignments'', ''assignments__wireless_unit__base_chassis__location__building__organization_id'',
         Some ''assignments__wireless_unit__base_chassis__location__building__campus_id''),
      (''campus'', ''campus__organization_id'', Some ''campus_id'')]"

definition relationship_site_lookups :: "(string \<times> string) list" where
  "relationship_site_lookups =
     [(''building'', ''building__site_id''),
      (''location'', ''location__building__site_id''),
      (''base_chassis'', ''base_chassis__location__building__site_id''),
      (''chassis'', ''chassis__location__building__site_id''),
      (''wireless_unit'', ''wireless_unit__base_chassis__location__building__site_id''),
      (''assignments'', ''assignments__wireless_unit__base_chassis__location__building__site_id''),
      (''organization'', ''organization__site_id''),
      (''campus'', ''campus__organization__site_id'')]"

definition has_attr :: "model_meta \<Rightarrow> string \<Rightarrow> bool" where
  "has_attr m a \<longleftrightarrow> a \<in> set (mm_attrs m)"

fun first_related :: "model_meta \<Rightarrow> (string \<times> 'a) list \<Rightarrow> 'a option" where
  "first_related m [] = None"
| "first_related m ((a, l) # ls) = (if has_attr m a then Some l else first_related m ls)"

definition tenant_lookups :: "model_meta \<Rightarrow> (string \<times> string option) option" where
  "tenant_lookups m =
     (case map_of explicit_tenant_lookups (mm_label m) of
        Some l \<Rightarrow> Some l
      | None \<Rightarrow>
          if has_attr m ''organization_id''
          then Some (''organization_id'', if has_attr m ''campus_id'' then Some ''campus_id'' else None)
          else first_related m relationship_tenant_lookups)"

definition supports_membership_scope :: "model_meta \<Rightarrow> bool" where
  "supports_membership_scope m \<longleftrightarrow> tenant_lookups m \<noteq> None"

definition campus_lookup :: "model_meta \<Rightarrow> string option" where
  "campus_lookup m =
     (if has_attr m ''campus_id'' then Some ''campus_id''
      else case tenant_lookups m of None \<Rightarrow> None | Some (_, c) \<Rightarrow> c)"

definition site_lookup :: "model_meta \<Rightarrow> string option" where
  "site_lookup m =
     (if has_attr m ''site_id'' then Some ''site_id''
      else case map_of explicit_site_lookups (mm_label m) of
          Some l \<Rightarrow> Some l
        | None \<Rightarrow> first_related m relationship_site_lookups)"

section \<open>Scopes\<close>

definition for_site :: "deployment \<Rightarrow> model_meta \<Rightarrow> row list \<Rightarrow> row list" where
  "for_site dp m rows =
     (if \<not> dp_multi_site dp then rows
      else case site_lookup m of None \<Rightarrow> [] | Some l \<Rightarrow> select (where_path l (dp_site dp)) rows)"

definition for_organization :: "deployment \<Rightarrow> model_meta \<Rightarrow> nat option \<Rightarrow> row list \<Rightarrow> row list" where
  "for_organization dp m org rows =
     (if \<not> dp_msp dp then rows
      else case org of None \<Rightarrow> rows
        | Some v \<Rightarrow> (case tenant_lookups m of None \<Rightarrow> [] | Some (l, _) \<Rightarrow> select (where_path l v) rows))"

definition for_campus :: "deployment \<Rightarrow> model_meta \<Rightarrow> nat option \<Rightarrow> row list \<Rightarrow> row list" where
  "for_campus dp m campus rows =
     (if \<not> dp_msp dp then rows
      else case campus of None \<Rightarrow> rows
        | Some v \<Rightarrow> (case campus_lookup m of None \<Rightarrow> [] | Some l \<Rightarrow> select (where_path l v) rows))"

text \<open>The condition one membership contributes, or none where the model cannot be limited to a
  campus.\<close>

definition membership_scope ::
  "string \<times> string option \<Rightarrow> nat \<times> nat option \<Rightarrow> (join \<Rightarrow> bool) option"
where
  "membership_scope l mb =
     (case (snd mb, snd l) of
        (None, _) \<Rightarrow> Some (where_path (fst l) (fst mb))
      | (Some campus, None) \<Rightarrow>
          if fst l \<noteq> ''pk'' then None else Some (where_path (fst l) (fst mb))
      | (Some campus, Some cl) \<Rightarrow>
          Some (\<lambda>j. where_path (fst l) (fst mb) j \<and> where_path cl campus j))"

definition for_memberships :: "model_meta \<Rightarrow> (nat \<times> nat option) list \<Rightarrow> row list \<Rightarrow> row list" where
  "for_memberships m mbs rows =
     (case tenant_lookups m of None \<Rightarrow> []
      | Some l \<Rightarrow> select (\<lambda>j. list_ex (\<lambda>P. P j) (List.map_filter (membership_scope l) mbs)) rows)"

section \<open>Users\<close>

text \<open>A membership with the columns of its organization and campus that the filters join.\<close>

record membership =
  me_org :: nat
  me_campus :: "nat option"
  me_role :: string
  me_active :: bool
  me_org_active :: bool
  me_org_site :: "nat option"
  me_campus_active :: bool
  me_campus_org :: nat

record group =
  gr_pk :: nat
  gr_active :: bool
  gr_all_room_buildings :: "nat list"

record user =
  us_pk :: nat
  us_authenticated :: bool
  us_active :: bool
  us_superuser :: bool
  us_memberships :: "membership list"
  us_groups :: "group list"

definition current_membership :: "membership \<Rightarrow> bool" where
  "current_membership mb \<longleftrightarrow>
     (case me_campus mb of None \<Rightarrow> True | Some _ \<Rightarrow> me_campus_active mb \<and> me_campus_org mb = me_org mb)
     \<and> me_active mb \<and> me_org_active mb"

definition membership_keys :: "membership list \<Rightarrow> (nat \<times> nat option) list" where
  "membership_keys mbs = map (\<lambda>mb. (me_org mb, me_campus mb)) mbs"

definition user_memberships :: "user \<Rightarrow> (nat \<times> nat option) list" where
  "user_memberships u = membership_keys (filter current_membership (us_memberships u))"

text \<open>The single-site filter by monitoring groups.\<close>

definition in_groups :: "user \<Rightarrow> join \<Rightarrow> bool" where
  "in_groups u j \<longleftrightarrow>
     list_ex (\<lambda>g. gr_active g \<and>
        (where_path ''location__monitoring_groups'' (gr_pk g) j
         \<or> list_ex (\<lambda>b. where_path ''location__building_id'' b j) (gr_all_room_buildings g))) (us_groups u)"

definition for_user :: "deployment \<Rightarrow> model_meta \<Rightarrow> user \<Rightarrow> row list \<Rightarrow> row list" where
  "for_user dp m u rows =
     (if \<not> us_authenticated u then []
      else if us_superuser u \<and> dp_cross_org dp then (if dp_multi_site dp then for_site dp m rows else rows)
      else if dp_msp dp then
        (if \<not> dp_installed dp then []
         else if user_memberships u = [] then []
         else (let scoped = for_memberships m (user_memberships u) rows
               in if dp_multi_site dp then for_site dp m scoped else scoped))
      else if dp_multi_site dp then for_site dp m rows
      else if has_attr m ''location'' then select (in_groups u) rows
      else rows)"

section \<open>Mutation policy\<close>

definition tenant_admin_roles :: "string list" where
  "tenant_admin_roles = [''admin'', ''owner'']"

definition platform_global_labels :: "string list" where
  "platform_global_labels =
     [''micboard.activitylog'', ''micboard.configurationauditlog'', ''micboard.discovereddevice'',
      ''micboard.discoverycidr'', ''micboard.discoveryfqdn'', ''micboard.discoveryjob'',
      ''micboard.discoveryqueue'', ''micboard.manufacturer'', ''micboard.manufacturerapiserver'',
      ''micboard.manufacturerconfiguration'', ''micboard.micboardconfig'', ''micboard.servicesynclog'',
      ''micboard.settingdefinition'', ''micboard.useralertpreference'']"

definition shared_ownership_labels :: "string list" where
  "shared_ownership_labels = [''micboard.performer'']"

definition unrestricted :: "deployment \<Rightarrow> user \<Rightarrow> bool" where
  "unrestricted dp u \<longleftrightarrow> us_superuser u \<and> dp_cross_org dp"

definition tenant_mode :: "deployment \<Rightarrow> bool" where
  "tenant_mode dp \<longleftrightarrow> dp_msp dp \<or> dp_multi_site dp"

definition management_memberships :: "deployment \<Rightarrow> user \<Rightarrow> (nat \<times> nat option) list" where
  "management_memberships dp u =
     (if \<not> dp_msp dp \<or> \<not> dp_installed dp then []
      else membership_keys (filter (\<lambda>mb. current_membership mb \<and> me_role mb \<in> set tenant_admin_roles
             \<and> (dp_multi_site dp \<longrightarrow> me_org_site mb = Some (dp_site dp))) (us_memberships u)))"

definition platform_global :: "model_meta \<Rightarrow> bool" where
  "platform_global m \<longleftrightarrow> mm_label m \<in> set platform_global_labels"

definition platform_global_access :: "user \<Rightarrow> model_meta \<Rightarrow> bool" where
  "platform_global_access u m \<longleftrightarrow> us_superuser u \<and> platform_global m"

text \<open>The scope of a model that no tenants share; the owners of a shared performer are its
  assignments, given by \<open>owners\<close>.\<close>

definition exclusive_scope :: "deployment \<Rightarrow> model_meta \<Rightarrow> user \<Rightarrow> row list \<Rightarrow> row list" where
  "exclusive_scope dp m u rows =
     (if \<not> dp_msp dp then for_site dp m rows
      else (let mbs = management_memberships dp u in
        if mbs = [] then []
        else (let scoped = for_memberships m mbs rows
              in if dp_multi_site dp then for_site dp m scoped else scoped)))"

definition assignment_model :: model_meta where
  "assignment_model = \<lparr>mm_label = ''micboard.performerassignment'', mm_attrs = [''wireless_unit'', ''performer'']\<rparr>"

definition scope_shared :: "deployment \<Rightarrow> model_meta \<Rightarrow> user \<Rightarrow> (row \<Rightarrow> row list) \<Rightarrow> row list \<Rightarrow> row list" where
  "scope_shared dp m u owners rows =
     (if mm_label m \<notin> set shared_ownership_labels then rows
      else filter (\<lambda>r. owners r \<noteq> [] \<and>
             list_all (\<lambda>ow. rw_pk ow \<in> set (map rw_pk (exclusive_scope dp assignment_model u (owners r)))) (owners r)) rows)"

definition scope_manageable ::
  "deployment \<Rightarrow> model_meta \<Rightarrow> user \<Rightarrow> (row \<Rightarrow> row list) \<Rightarrow> row list \<Rightarrow> row list"
where
  "scope_manageable dp m u owners rows =
     (if \<not> tenant_mode dp then rows
      else if platform_global m then (if platform_global_access u m then rows else [])
      else if unrestricted dp u then rows
      else if \<not> supports_membership_scope m then []
      else scope_shared dp m u owners (exclusive_scope dp m u rows))"

definition can_manage_model :: "deployment \<Rightarrow> model_meta \<Rightarrow> user \<Rightarrow> bool" where
  "can_manage_model dp m u =
     (if \<not> tenant_mode dp then True
      else if platform_global m then platform_global_access u m
      else if unrestricted dp u then True
      else if \<not> supports_membership_scope m then False
      else if \<not> dp_msp dp then True
      else management_memberships dp u \<noteq> [])"

definition can_add_model :: "deployment \<Rightarrow> model_meta \<Rightarrow> user \<Rightarrow> bool" where
  "can_add_model dp m u =
     (if platform_global_access u m then True
      else if tenant_mode dp \<and> mm_label m \<in> set shared_ownership_labels
      then unrestricted dp u \<and> \<not> dp_multi_site dp
      else if unrestricted dp u then True
      else can_manage_model dp m u)"

definition can_manage_object :: "deployment \<Rightarrow> model_meta \<Rightarrow> user \<Rightarrow> (row \<Rightarrow> row list) \<Rightarrow> row \<Rightarrow> bool" where
  "can_manage_object dp m u owners r =
     (if \<not> tenant_mode dp then True
      else if platform_global m then platform_global_access u m
      else if unrestricted dp u then True
      else scope_manageable dp m u owners [r] \<noteq> [])"

section \<open>Isolation\<close>

lemma mem_select [simp]: "r \<in> set (select P rows) \<longleftrightarrow> r \<in> set rows \<and> list_ex P (rw_joins r)"
  by (auto simp: select_def)

lemma for_site_subset: "r \<in> set (for_site dp m rows) \<Longrightarrow> r \<in> set rows"
  by (auto simp: for_site_def split: if_splits option.splits)

lemma for_site_mono: "set rows \<subseteq> set rows' \<Longrightarrow> set (for_site dp m rows) \<subseteq> set (for_site dp m rows')"
  by (auto simp: for_site_def split: option.splits)

lemma some_scope:
  "list_ex (\<lambda>P. P j) (List.map_filter f mbs) \<longleftrightarrow> (\<exists>mb \<in> set mbs. \<exists>P. f mb = Some P \<and> P j)"
  by (induction mbs) (auto simp: map_filter_simps split: option.splits)

lemma mem_for_memberships:
  "r \<in> set (for_memberships m mbs rows) \<longleftrightarrow>
     r \<in> set rows \<and> (\<exists>l mb P j. tenant_lookups m = Some l \<and> mb \<in> set mbs \<and> membership_scope l mb = Some P
       \<and> j \<in> set (rw_joins r) \<and> P j)"
  by (cases "tenant_lookups m") (auto simp: for_memberships_def some_scope list_ex_iff[of _ "rw_joins r"])

lemma for_memberships_mono:
  "set mbs \<subseteq> set mbs' \<Longrightarrow> set (for_memberships m mbs rows) \<subseteq> set (for_memberships m mbs' rows)"
  unfolding subset_iff mem_for_memberships by blast

lemma management_within_memberships: "set (management_memberships dp u) \<subseteq> set (user_memberships u)"
  by (auto simp: management_memberships_def user_memberships_def membership_keys_def)

text \<open>Two memberships that share no row: other organizations, or two campuses of one organization.
  The organization rows themselves are shared by all its campuses.\<close>

definition apart :: "model_meta \<Rightarrow> nat \<times> nat option \<Rightarrow> nat \<times> nat option \<Rightarrow> bool" where
  "apart m a b \<longleftrightarrow>
     fst a \<noteq> fst b
     \<or> (mm_label m \<noteq> ''micboard_multitenancy.organization''
        \<and> (case (snd a, snd b) of (Some x, Some y) \<Rightarrow> x \<noteq> y | _ \<Rightarrow> False))"

lemma first_related_mem: "first_related m ls = Some l \<Longrightarrow> \<exists>a. (a, l) \<in> set ls"
  by (induction ls) (auto split: if_splits)

lemma pk_lookup_organization:
  assumes "tenant_lookups m = Some (l, None)" "l = ''pk''"
  shows "mm_label m = ''micboard_multitenancy.organization''"
proof (rule ccontr)
  assume other: "mm_label m \<noteq> ''micboard_multitenancy.organization''"
  have "map_of explicit_tenant_lookups (mm_label m) \<noteq> Some (''pk'', None)"
    using other by (auto simp: explicit_tenant_lookups_def split: if_splits)
  moreover have "first_related m relationship_tenant_lookups \<noteq> Some (''pk'', None)"
    by (auto simp: relationship_tenant_lookups_def dest!: first_related_mem)
  ultimately show False
    using assms by (auto simp: tenant_lookups_def split: option.splits if_splits)
qed

lemma apart_scopes:
  assumes l: "tenant_lookups m = Some l" and apart: "apart m a b"
    and P: "membership_scope l a = Some P" "membership_scope l b = Some Q"
  shows "\<not> (P j \<and> Q j)"
proof -
  obtain p c where lc: "l = (p, c)" by (cases l)
  show ?thesis
  proof (cases c)
    case None
    have "fst a = fst b \<Longrightarrow> p = ''pk'' \<Longrightarrow> snd a \<noteq> None \<Longrightarrow> snd b \<noteq> None \<Longrightarrow> False"
      using pk_lookup_organization[of m p] l apart by (auto simp: lc None apart_def)
    with P apart show ?thesis
      by (auto simp: lc None membership_scope_def apart_def where_path_def split: option.splits if_splits)
  next
    case (Some cl)
    with P apart show ?thesis
      by (auto simp: lc membership_scope_def apart_def where_path_def split: option.splits)
  qed
qed

lemma visible_by_membership:
  assumes "dp_msp dp" "\<not> unrestricted dp u" "r \<in> set (for_user dp m u rows)"
  shows "r \<in> set (for_memberships m (user_memberships u) rows)"
  using assms
  by (auto simp: for_user_def unrestricted_def Let_def split: if_splits dest: for_site_subset)

text \<open>The membership owns the combination of related rows \<open>j\<close>: it is in the organization, and on the campus
  of a membership that is limited to one.\<close>

definition member_owns :: "model_meta \<Rightarrow> nat \<times> nat option \<Rightarrow> join \<Rightarrow> bool" where
  "member_owns m mb j \<longleftrightarrow>
     (case tenant_lookups m of None \<Rightarrow> False
      | Some (org_path, campus_path) \<Rightarrow>
          map_of j org_path = Some (fst mb)
          \<and> (case (snd mb, campus_path) of
               (None, _) \<Rightarrow> True
             | (Some campus, Some path) \<Rightarrow> map_of j path = Some campus
             | (Some campus, None) \<Rightarrow> org_path = ''pk''))"

lemma scope_owns:
  assumes "tenant_lookups m = Some l" "membership_scope l mb = Some P" "P j"
  shows "member_owns m mb j"
  using assms
  by (cases l) (auto simp: member_owns_def membership_scope_def where_path_def split: option.splits if_splits)

lemma apart_owners:
  assumes "apart m a b" "member_owns m a j" "member_owns m b j'"
  shows "j \<noteq> j'"
proof -
  obtain l where l: "tenant_lookups m = Some l" using assms(2) by (auto simp: member_owns_def split: option.splits)
  have "\<exists>P. membership_scope l mb = Some P \<and> P i" if "member_owns m mb i" for mb i
    using that by (cases l) (auto simp: member_owns_def l membership_scope_def where_path_def split: option.splits)
  with apart_scopes[OF l assms(1)] assms(2,3) show ?thesis by metis
qed

text \<open>C20: in an MSP deployment two users, neither a superuser with the cross-organization view, see a common
  row only where each has a membership that owns the row through one of its related rows.  If those
  memberships are apart, in other organizations or on other campuses, then these are two different related
  rows: a row with one owner is never seen from both sides, and a performer with assignments in two
  organizations is seen by both.\<close>

theorem tenants_disjoint:
  assumes msp: "dp_msp dp" and bound: "\<not> unrestricted dp u" "\<not> unrestricted dp v"
    and seen: "r \<in> set (for_user dp m u rows)" "r \<in> set (for_user dp m v rows)"
  shows "\<exists>a \<in> set (user_memberships u). \<exists>b \<in> set (user_memberships v).
    \<exists>j \<in> set (rw_joins r). \<exists>j' \<in> set (rw_joins r).
      member_owns m a j \<and> member_owns m b j' \<and> (apart m a b \<longrightarrow> j \<noteq> j')"
proof -
  have owner: "\<exists>a \<in> set (user_memberships w). \<exists>j \<in> set (rw_joins r). member_owns m a j"
    if "\<not> unrestricted dp w" "r \<in> set (for_user dp m w rows)" for w
    using visible_by_membership[OF msp that] scope_owns unfolding mem_for_memberships by blast
  from owner[OF bound(1) seen(1)] owner[OF bound(2) seen(2)] obtain a b j j' where
    "a \<in> set (user_memberships u)" "j \<in> set (rw_joins r)" "member_owns m a j"
    "b \<in> set (user_memberships v)" "j' \<in> set (rw_joins r)" "member_owns m b j'" by blast
  with apart_owners[of m a b j j'] show ?thesis by blast
qed

definition sample_deployment :: deployment where
  "sample_deployment = \<lparr>dp_multi_site = False, dp_msp = True, dp_cross_org = True, dp_site = 1, dp_installed = True\<rparr>"

definition sample_member :: "nat \<Rightarrow> nat option \<Rightarrow> string \<Rightarrow> user" where
  "sample_member org campus role =
     \<lparr>us_pk = org, us_authenticated = True, us_active = True, us_superuser = False,
      us_memberships = [\<lparr>me_org = org, me_campus = campus, me_role = role, me_active = True, me_org_active = True,
        me_org_site = None, me_campus_active = True, me_campus_org = org\<rparr>], us_groups = []\<rparr>"

definition sample_model :: model_meta where
  "sample_model = \<lparr>mm_label = ''micboard.wirelesschassis'', mm_attrs = [''location'']\<rparr>"

definition sample_row :: "nat \<Rightarrow> nat \<Rightarrow> nat \<Rightarrow> row" where
  "sample_row pk org campus = \<lparr>rw_pk = pk,
     rw_joins = [[(''location__building__organization_id'', org), (''location__building__campus_id'', campus)]]\<rparr>"

definition sample_rows :: "row list" where
  "sample_rows = [sample_row 10 3 5, sample_row 11 3 6, sample_row 12 2 7,
     \<lparr>rw_pk = 13, rw_joins = rw_joins (sample_row 0 3 5) @ rw_joins (sample_row 0 2 7)\<rparr>]"

theorem tenants_disjoint_witness:
  "map rw_pk (for_user sample_deployment sample_model (sample_member 3 (Some 5) ''viewer'') sample_rows) = [10, 13]
   \<and> map rw_pk (for_user sample_deployment sample_model (sample_member 2 (Some 7) ''viewer'') sample_rows) = [12, 13]
   \<and> (\<exists>j j'. j \<noteq> j' \<and> member_owns sample_model (3, Some 5) j \<and> member_owns sample_model (2, Some 7) j')"
proof -
  let ?u = "sample_member 3 (Some 5) ''viewer''" and ?v = "sample_member 2 (Some 7) ''viewer''"
  let ?r = "last sample_rows"
  have keys: "user_memberships (sample_member g (Some k) ''viewer'') = [(g, Some k)]" for g k
    by (simp add: user_memberships_def sample_member_def current_membership_def membership_keys_def)
  have sight: "map rw_pk (for_user sample_deployment sample_model ?u sample_rows) = [10, 13]"
    "map rw_pk (for_user sample_deployment sample_model ?v sample_rows) = [12, 13]" by code_simp+
  have bound: "dp_msp sample_deployment" "\<not> unrestricted sample_deployment ?u" "\<not> unrestricted sample_deployment ?v"
    by code_simp+
  have seen: "?r \<in> set (for_user sample_deployment sample_model ?u sample_rows)"
    "?r \<in> set (for_user sample_deployment sample_model ?v sample_rows)" by code_simp+
  have "apart sample_model (3, Some 5) (2, Some 7)" by (simp add: apart_def)
  with tenants_disjoint[OF bound seen] sight show ?thesis by (auto simp: keys)
qed

section \<open>Changing is seeing\<close>

lemma exclusive_within_sight:
  assumes "tenant_mode dp" "us_authenticated u" "\<not> unrestricted dp u"
  shows "set (exclusive_scope dp m u rows) \<subseteq> set (for_user dp m u rows)"
proof (cases "dp_msp dp")
  case True
  have installed: "management_memberships dp u \<noteq> [] \<Longrightarrow> dp_installed dp"
    by (auto simp: management_memberships_def split: if_splits)
  have some: "management_memberships dp u \<noteq> [] \<Longrightarrow> user_memberships u \<noteq> []"
    using management_within_memberships[of dp u] by (metis set_empty subset_empty)
  note mono = for_memberships_mono[OF management_within_memberships, of m dp u rows]
  show ?thesis
    using True assms installed some mono for_site_mono[OF mono, of dp m]
    by (auto simp: exclusive_scope_def for_user_def unrestricted_def Let_def)
next
  case False
  with assms show ?thesis
    by (auto simp: exclusive_scope_def for_user_def unrestricted_def tenant_mode_def)
qed

lemma scope_shared_subset: "set (scope_shared dp m u owners rows) \<subseteq> set rows"
  by (auto simp: scope_shared_def)

lemma in_singleton: "set ys \<subseteq> set [x] \<Longrightarrow> ys \<noteq> [] \<Longrightarrow> x \<in> set ys"
  by (cases ys) auto

lemma exclusive_subset: "set (exclusive_scope dp m u rows) \<subseteq> set rows"
  by (auto simp: exclusive_scope_def Let_def mem_for_memberships split: if_splits dest: for_site_subset)

text \<open>where tenants or sites are separated, a user without the cross-organization view can
  change only rows of tenant models that he or she can see, and a shared performer only when every
  assignment of it lies in the user's own administration scope.\<close>

theorem manageable_within_sight:
  assumes "tenant_mode dp" "us_authenticated u" "\<not> unrestricted dp u" "\<not> platform_global m"
  shows "set (scope_manageable dp m u owners rows) \<subseteq> set (for_user dp m u rows)
    \<and> (can_manage_object dp m u owners r \<longrightarrow> r \<in> set (for_user dp m u [r]))
    \<and> (mm_label m = ''micboard.performer'' \<longrightarrow>
        (\<forall>p \<in> set (scope_manageable dp m u owners rows).
           owners p \<noteq> [] \<and> set (map rw_pk (owners p)) \<subseteq> set (map rw_pk (exclusive_scope dp assignment_model u (owners p)))))"
proof -
  have scope: "scope_manageable dp m u owners rs =
      (if supports_membership_scope m then scope_shared dp m u owners (exclusive_scope dp m u rs) else [])" for rs
    using assms by (simp add: scope_manageable_def)
  have sub: "set (scope_manageable dp m u owners rs) \<subseteq> set (exclusive_scope dp m u rs)" for rs
    unfolding scope by (auto dest: subsetD[OF scope_shared_subset])
  note sight = subset_trans[OF sub exclusive_within_sight[OF assms(1-3)]]
  have "r \<in> set (for_user dp m u [r])" if "can_manage_object dp m u owners r"
  proof -
    have "scope_manageable dp m u owners [r] \<noteq> []"
      using that assms by (simp add: can_manage_object_def)
    then have "r \<in> set (scope_manageable dp m u owners [r])"
      using in_singleton subset_trans[OF sub exclusive_subset] by metis
    with sight show ?thesis by blast
  qed
  moreover have "owners p \<noteq> [] \<and> set (map rw_pk (owners p)) \<subseteq> set (map rw_pk (exclusive_scope dp assignment_model u (owners p)))"
    if "mm_label m = ''micboard.performer''" "p \<in> set (scope_manageable dp m u owners rows)" for p
    using that unfolding scope
    by (auto simp: scope_shared_def shared_ownership_labels_def list_all_iff split: if_splits)
  ultimately show ?thesis using sight by blast
qed

theorem manageable_within_sight_witness:
  "map rw_pk (scope_manageable sample_deployment sample_model (sample_member 3 None ''admin'') (\<lambda>_. [])
      [sample_row 10 3 5, sample_row 12 2 7]) = [10]
   \<and> scope_manageable sample_deployment sample_model (sample_member 3 None ''operator'') (\<lambda>_. []) [sample_row 10 3 5] = []
   \<and> set (scope_manageable sample_deployment sample_model (sample_member 3 None ''admin'') (\<lambda>_. [])
        [sample_row 10 3 5, sample_row 12 2 7])
     \<subseteq> set (for_user sample_deployment sample_model (sample_member 3 None ''admin'')
        [sample_row 10 3 5, sample_row 12 2 7])"
proof -
  have "tenant_mode sample_deployment" "us_authenticated (sample_member 3 None ''admin'')"
    "\<not> unrestricted sample_deployment (sample_member 3 None ''admin'')" "\<not> platform_global sample_model"
    by (simp_all add: tenant_mode_def sample_deployment_def sample_member_def unrestricted_def
        platform_global_def platform_global_labels_def sample_model_def)
  note sight = conjunct1[OF manageable_within_sight[OF this, of "\<lambda>_. []" "[sample_row 10 3 5, sample_row 12 2 7]"]]
  have "map rw_pk (scope_manageable sample_deployment sample_model (sample_member 3 None ''admin'') (\<lambda>_. [])
      [sample_row 10 3 5, sample_row 12 2 7]) = [10]"
    by code_simp
  moreover have "map rw_pk (scope_manageable sample_deployment sample_model (sample_member 3 None ''operator'') (\<lambda>_. [])
      [sample_row 10 3 5]) = []"
    by code_simp
  ultimately show ?thesis using sight by simp
qed

end
