(* ===== verification/Alerts.thy ===== *)
theory Alerts
  imports Tenant_Scope Lifecycle Discovery_Sources
begin

text \<open>
  Alerts: whom a condition of a wireless unit is reported to (\<open>services/monitoring/alert_fanout_service.py\<close>),
  when a report becomes an alert row and an e-mail (\<open>services/monitoring/alert_delivery_service.py\<close>),
  which conditions are reported (\<open>services/monitoring/alerts.py\<close>), and the bounded scan after a poll
  (\<open>services/monitoring/poll_alert_service.py\<close>), over the rows of \<open>models/monitoring\<close>.

  One run is sequential; the rows it reads may differ from those its caller loaded, so every check
  reads the database of its own moment.  The e-mail backend is a parameter: whether a message to an
  address is accepted.  Rendering and log lines are left out.

  The clock stands still during a run: \<open>ae_now\<close> is the moment every alert of it is dated and compared with,
  where the code reads the clock again for each.  For a recipient whose minimum interval is zero minutes the
  code can therefore repeat, within one run, an alert that the model suppresses.
\<close>

section \<open>Rows\<close>

record alert_preferences =
  ap_method :: string
  ap_email :: string
  ap_low :: int
  ap_critical :: int
  ap_quiet :: bool
  ap_quiet_start :: "int option"
  ap_quiet_end :: "int option"
  ap_interval :: int

record account =
  at_user :: user
  at_email :: string
  at_prefs :: "alert_preferences option"

record monitoring_group =
  mg_pk :: nat
  mg_active :: bool
  mg_users :: "nat list"

record assignment =
  as_pk :: nat
  as_performer :: string
  as_unit :: nat
  as_group :: nat
  as_active :: bool
  as_battery :: bool
  as_signal :: bool
  as_audio :: bool
  as_offline :: bool

record alert =
  al_pk :: nat
  al_channel :: nat
  al_user :: nat
  al_assignment :: nat
  al_type :: string
  al_status :: string
  al_message :: string
  al_data :: json
  al_created :: time
  al_acknowledged :: "time option"
  al_resolved :: "time option"

record channel_info =
  ci_number :: int
  ci_chassis_name :: string
  ci_chassis_ip :: string

text \<open>\<open>ad_units\<close> are the wireless units as the tenant filter sees them.\<close>

record alert_db =
  ad_accounts :: "account list"
  ad_groups :: "monitoring_group list"
  ad_assignments :: "assignment list"
  ad_units :: "row list"
  ad_channels :: "(nat \<times> channel_info) list"
  ad_alerts :: "alert list"

definition account_pk :: "account \<Rightarrow> nat" where
  "account_pk a = us_pk (at_user a)"

text \<open>\<open>is_quiet_hours\<close> at a time of day.  Midnight is a time too, so it counts as set.\<close>

definition is_quiet_hours :: "alert_preferences \<Rightarrow> int \<Rightarrow> bool" where
  "is_quiet_hours p tod =
     (ap_quiet p \<and>
      (case (ap_quiet_start p, ap_quiet_end p) of
         (Some s, Some e) \<Rightarrow> if s \<le> e then s \<le> tod \<and> tod \<le> e else s \<le> tod \<or> tod \<le> e
       | _ \<Rightarrow> False))"

definition severity :: "alert \<Rightarrow> string" where
  "severity a =
     (if al_type a \<in> set [''battery_critical'', ''hardware_offline''] then ''High''
      else if al_type a = ''signal_loss'' then ''Medium'' else ''Low'')"

definition is_overdue :: "time \<Rightarrow> alert \<Rightarrow> bool" where
  "is_overdue now a =
     (if al_status a \<in> set [''acknowledged'', ''resolved''] then False
      else now - al_created a > 30 * 60 * 1000000)"

section \<open>Fanout\<close>

record fanout_cache =
  fc_cursors :: "string \<rightharpoonup> nat"
  fc_pairs :: "string \<rightharpoonup> nat \<times> nat"
  fc_flags :: "string \<rightharpoonup> bool"
  fc_up :: bool

definition fanout_cursor :: "fanout_cache \<Rightarrow> string \<Rightarrow> nat" where
  "fanout_cursor c key = (if fc_up c then (case fc_cursors c key of None \<Rightarrow> 0 | Some n \<Rightarrow> n) else 0)"

definition set_cursor :: "string \<Rightarrow> nat \<Rightarrow> fanout_cache \<Rightarrow> fanout_cache" where
  "set_cursor key v c = (if fc_up c then c\<lparr>fc_cursors := (fc_cursors c)(key \<mapsto> v)\<rparr> else c)"

definition pair_cursor :: "fanout_cache \<Rightarrow> string \<Rightarrow> nat \<times> nat" where
  "pair_cursor c key = (if fc_up c then (case fc_pairs c key of None \<Rightarrow> (0, 0) | Some p \<Rightarrow> p) else (0, 0))"

definition set_pair_cursor :: "string \<Rightarrow> nat \<times> nat \<Rightarrow> fanout_cache \<Rightarrow> fanout_cache" where
  "set_pair_cursor key v c = (if fc_up c then c\<lparr>fc_pairs := (fc_pairs c)(key \<mapsto> v)\<rparr> else c)"

definition assignment_cursor_key :: "nat \<Rightarrow> string \<Rightarrow> string" where
  "assignment_cursor_key unit_id scope = ''micboard:alert-fanout:v1:assignment:'' @ scope @ '':'' @ nat_text unit_id"

definition recipient_cursor_key :: "nat \<Rightarrow> string \<Rightarrow> string" where
  "recipient_cursor_key unit_id scope = ''micboard:alert-fanout:v1:recipient:'' @ scope @ '':'' @ nat_text unit_id"

text \<open>A page in circular order after the cursor: the rows and whether more remain.\<close>

definition circular_page :: "('a \<Rightarrow> 'k::linorder) \<Rightarrow> 'k \<Rightarrow> nat \<Rightarrow> 'a list \<Rightarrow> 'a list \<times> bool" where
  "circular_page key cursor limit rows =
     (let page = take (limit + 1) (sort_key (\<lambda>r. (if key r > cursor then 0 else 1 :: nat, key r)) rows)
      in (take limit page, length page > limit))"

definition active_group :: "alert_db \<Rightarrow> assignment \<Rightarrow> monitoring_group option" where
  "active_group db a = find (\<lambda>g. mg_pk g = as_group a \<and> mg_active g) (ad_groups db)"

definition active_account :: "alert_db \<Rightarrow> nat \<Rightarrow> account option" where
  "active_account db pk = find (\<lambda>a. account_pk a = pk \<and> us_active (at_user a)) (ad_accounts db)"

datatype alert_error = Budget budget_error | ChannelGone

definition assignments_for_unit ::
  "alert_db \<Rightarrow> nat \<Rightarrow> string \<Rightarrow> bool \<Rightarrow> alert_budget \<times> fanout_cache
     \<Rightarrow> alert_error + assignment list \<times> alert_budget \<times> fanout_cache"
where
  "assignments_for_unit db unit_id scope offline_only bc =
     (let b = fst bc; c = snd bc; limit = remaining_assignments b in
      if limit \<le> 0 then Inr ([], b\<lparr>ab_assignments_truncated := True\<rparr>, c)
      else
        (let rows = filter (\<lambda>a. as_unit a = unit_id \<and> as_active a \<and> active_group db a \<noteq> None
               \<and> (offline_only \<longrightarrow> as_offline a)) (ad_assignments db);
             key = assignment_cursor_key unit_id scope;
             page = circular_page as_pk (fanout_cursor c key) (nat limit) rows;
             c' = (if fst page = [] then c else set_cursor key (as_pk (last (fst page))) c)
         in case record_assignments (int (length (fst page))) (snd page) b of
              Inl e \<Rightarrow> Inl (Budget e)
            | Inr b' \<Rightarrow> Inr (fst page, b', c')))"

definition recipient_pairs :: "alert_db \<Rightarrow> assignment list \<Rightarrow> (nat \<times> nat) list" where
  "recipient_pairs db assignments =
     concat (map (\<lambda>a. case active_group db a of None \<Rightarrow> []
        | Some g \<Rightarrow> map (\<lambda>u. (as_pk a, u)) (filter (\<lambda>u. active_account db u \<noteq> None) (mg_users g)))
       (filter (\<lambda>a. as_pk a \<in> set (map as_pk assignments)) (ad_assignments db)))"

definition recipients_for_assignments ::
  "alert_db \<Rightarrow> nat \<Rightarrow> assignment list \<Rightarrow> string \<Rightarrow> alert_budget \<times> fanout_cache
     \<Rightarrow> alert_error + (nat \<times> account list) list \<times> alert_budget \<times> fanout_cache"
where
  "recipients_for_assignments db unit_id assignments scope bc =
     (let b = fst bc; c = snd bc; limit = remaining_recipients b in
      if limit \<le> 0 then Inr ([], b\<lparr>ab_recipients_truncated := True\<rparr>, c)
      else if assignments = [] then Inr ([], b, c)
      else
        (let key = recipient_cursor_key unit_id scope;
             page = circular_page id (pair_cursor c key) (nat limit) (recipient_pairs db assignments);
             c' = (if fst page = [] then c else set_pair_cursor key (last (fst page)) c)
         in case record_recipients (int (length (fst page))) (snd page) b of
              Inl e \<Rightarrow> Inl (Budget e)
            | Inr b' \<Rightarrow>
                Inr (fold (\<lambda>p d. case find (\<lambda>a. account_pk a = snd p) (ad_accounts db) of
                        None \<Rightarrow> d | Some a \<Rightarrow> dict_push (fst p) a d) (fst page) [], b', c')))"

section \<open>Authorization at delivery\<close>

definition unit_model :: model_meta where
  "unit_model = \<lparr>mm_label = ''micboard.wirelessunit'', mm_attrs = [''base_chassis'', ''manufacturer'']\<rparr>"

definition recipient_has_unit_scope :: "deployment \<Rightarrow> alert_db \<Rightarrow> nat \<Rightarrow> user \<Rightarrow> bool" where
  "recipient_has_unit_scope dp db unit_id u =
     (if \<not> us_authenticated u \<or> \<not> us_active u then False
      else if \<not> tenant_mode dp then True
      else list_ex (\<lambda>r. rw_pk r = unit_id) (for_user dp unit_model u (ad_units db)))"

definition current_authorized_recipient ::
  "deployment \<Rightarrow> alert_db \<Rightarrow> nat \<Rightarrow> nat \<Rightarrow> nat \<Rightarrow> account option"
where
  "current_authorized_recipient dp db unit_id assignment_id user_id =
     (case active_account db user_id of
        None \<Rightarrow> None
      | Some a \<Rightarrow>
          if \<not> us_authenticated (at_user a) then None
          else if \<not> list_ex (\<lambda>s. as_pk s = assignment_id \<and> as_unit s = unit_id \<and> as_active s
                   \<and> (case active_group db s of None \<Rightarrow> False | Some g \<Rightarrow> user_id \<in> set (mg_users g)))
                 (ad_assignments db) then None
          else if recipient_has_unit_scope dp db unit_id (at_user a) then Some a else None)"

section \<open>Delivery\<close>

record alert_env =
  ae_deployment :: deployment
  ae_now :: time
  ae_time_of_day :: int
  ae_send :: "alert \<Rightarrow> string \<Rightarrow> bool"
  ae_settings :: host_settings
  ae_iso :: "time \<Rightarrow> string"

definition recent_alert :: "time \<Rightarrow> int \<Rightarrow> nat \<Rightarrow> nat \<Rightarrow> string \<Rightarrow> alert \<Rightarrow> bool" where
  "recent_alert now minutes channel user_id type' a \<longleftrightarrow>
     al_channel a = channel \<and> al_user a = user_id \<and> al_type a = type'
     \<and> al_status a \<in> set [''pending'', ''sent''] \<and> al_created a \<ge> now - minutes * 60 * 1000000"

definition alert_interval :: "account \<Rightarrow> int" where
  "alert_interval a = max 0 (case at_prefs a of None \<Rightarrow> 5 | Some p \<Rightarrow> ap_interval p)"

definition next_alert_pk :: "alert_db \<Rightarrow> nat" where
  "next_alert_pk db = Suc (fold max (map al_pk (ad_alerts db)) 0)"

definition set_alert_status :: "nat \<Rightarrow> string \<Rightarrow> alert_db \<Rightarrow> alert_db" where
  "set_alert_status pk s db =
     db\<lparr>ad_alerts := map (\<lambda>a. if al_pk a = pk then a\<lparr>al_status := s\<rparr> else a) (ad_alerts db)\<rparr>"

text \<open>The e-mail of a new alert: the recipient is looked up once more, a refused message marks the
  alert as failed.\<close>

definition send_email_if_allowed ::
  "alert_env \<Rightarrow> alert \<Rightarrow> nat \<Rightarrow> nat \<Rightarrow> nat \<Rightarrow> alert_db \<Rightarrow> alert_db"
where
  "send_email_if_allowed env al unit_id assignment_id user_id db =
     (case current_authorized_recipient (ae_deployment env) db unit_id assignment_id user_id of
        None \<Rightarrow> db
      | Some a \<Rightarrow>
          if (case at_prefs a of None \<Rightarrow> False
              | Some p \<Rightarrow> ap_method p \<notin> set [''email'', ''both''] \<or> is_quiet_hours p (ae_time_of_day env))
          then db
          else
            (let address = (case at_prefs a of None \<Rightarrow> at_email a
                   | Some p \<Rightarrow> if ap_email p = [] then at_email a else ap_email p)
             in if address = [] then db
                else if ae_send env al address then db else set_alert_status (al_pk al) ''failed'' db))"

text \<open>The result is the alert returned, the budget and the database.\<close>

definition create_scoped_alert ::
  "alert_env \<Rightarrow> wireless_unit \<Rightarrow> nat \<Rightarrow> nat \<Rightarrow> string \<Rightarrow> string \<Rightarrow> json \<Rightarrow> alert_budget \<times> alert_db
     \<Rightarrow> alert_error + alert option \<times> alert_budget \<times> alert_db"
where
  "create_scoped_alert env u assignment_id user_id type' message data bd =
     (let b = fst bd; db = snd bd in
      case un_assigned_resource u of
        None \<Rightarrow> Inr (None, b, db)
      | Some channel \<Rightarrow>
          if map_of (ad_channels db) channel = None then Inl ChannelGone
          else (case current_authorized_recipient (ae_deployment env) db (un_pk u) assignment_id user_id of
              None \<Rightarrow> Inr (None, b, db)
            | Some a \<Rightarrow>
                (let (granted, b') = claim_delivery b in
                 if \<not> granted then Inr (None, b', db)
                 else (case qs_first (recent_alert (ae_now env) (alert_interval a) channel (account_pk a) type')
                         (sort_key (\<lambda>r. - al_created r) (ad_alerts db)) of
                     Some r \<Rightarrow> Inr (Some r, b', db)
                   | None \<Rightarrow>
                       (let al = \<lparr>al_pk = next_alert_pk db, al_channel = channel, al_user = account_pk a,
                              al_assignment = assignment_id, al_type = type', al_status = ''pending'',
                              al_message = message, al_data = data, al_created = ae_now env,
                              al_acknowledged = None, al_resolved = None\<rparr>;
                            db' = db\<lparr>ad_alerts := ad_alerts db @ [al]\<rparr>
                        in Inr (Some al, b', send_email_if_allowed env al (un_pk u) assignment_id (account_pk a) db'))))))"

definition create_alert ::
  "alert_env \<Rightarrow> wireless_unit \<Rightarrow> account \<Rightarrow> nat \<Rightarrow> string \<Rightarrow> string \<Rightarrow> json \<Rightarrow> alert_budget \<times> alert_db
     \<Rightarrow> alert_error + alert option \<times> alert_budget \<times> alert_db"
where
  "create_alert env u a assignment_id type' message data bd =
     (if \<not> recipient_has_unit_scope (ae_deployment env) (snd bd) (un_pk u) (at_user a)
      then Inr (None, fst bd, snd bd)
      else if remaining_deliveries (fst bd) \<le> 0
      then Inr (None, (fst bd)\<lparr>ab_deliveries_truncated := True\<rparr>, snd bd)
      else create_scoped_alert env u assignment_id (account_pk a) type' message data bd)"

section \<open>Conditions\<close>

definition transmitter_alerts ::
  "wireless_unit \<Rightarrow> assignment \<Rightarrow> account \<Rightarrow> int option \<Rightarrow> bool \<Rightarrow> bool \<Rightarrow> (string \<times> string) list"
where
  "transmitter_alerts u s a battery_pct signal_loss audio_low =
     (let critical = (case at_prefs a of None \<Rightarrow> 10 | Some p \<Rightarrow> ap_critical p);
          low = (case at_prefs a of None \<Rightarrow> 20 | Some p \<Rightarrow> ap_low p)
      in (case (as_battery s, battery_pct) of
            (True, Some pct) \<Rightarrow>
              if pct \<le> critical
              then [(''battery_critical'', ''Battery critically low: '' @ int_text pct @ ''% - '' @ as_performer s)]
              else if pct \<le> low then [(''battery_low'', ''Battery low: '' @ int_text pct @ ''% - '' @ as_performer s)]
              else []
          | _ \<Rightarrow> [])
         @ (if as_signal s \<and> signal_loss
            then [(''signal_loss'', ''Signal loss detected: RF level '' @ int_text (un_rf_level u) @ ''dB'')] else [])
         @ (if as_audio s \<and> audio_low
            then [(''audio_low'', ''Audio level too low: '' @ int_text (un_audio_level u) @ ''dB'')] else []))"

definition unit_snapshot :: "alert_env \<Rightarrow> alert_db \<Rightarrow> wireless_unit \<Rightarrow> json" where
  "unit_snapshot env db u =
     JObj ([(''unit_name'', JStr (un_name u)), (''unit_slot'', JInt (un_slot u)),
            (''battery_percentage'', json_int (get_battery_percentage u)),
            (''audio_level'', JInt (un_audio_level u)), (''rf_level'', JInt (un_rf_level u)),
            (''status'', JStr (un_status u)), (''is_active'', JBool (un_status u = ''online'')),
            (''timestamp'', JStr (ae_iso env (ae_now env)))]
       @ (case un_assigned_resource u of None \<Rightarrow> []
          | Some ch \<Rightarrow> (case map_of (ad_channels db) ch of None \<Rightarrow> []
              | Some ci \<Rightarrow> [(''channel_number'', JInt (ci_number ci)), (''chassis_name'', JStr (ci_chassis_name ci)),
                            (''chassis_ip'', JStr (ci_chassis_ip ci))])))"

type_synonym alert_state = "alert_budget \<times> fanout_cache \<times> alert_db"

text \<open>The reports of one check in order: every assignment of the page, every recipient of it, every
  candidate.\<close>

definition reports ::
  "assignment list \<Rightarrow> (nat \<times> account list) list \<Rightarrow> (assignment \<Rightarrow> account \<Rightarrow> (string \<times> string) list)
     \<Rightarrow> (assignment \<times> account \<times> string \<times> string) list"
where
  "reports assignments recipients candidates =
     concat (map (\<lambda>s. concat (map (\<lambda>a. map (\<lambda>(t, m). (s, a, t, m)) (candidates s a))
        (case map_of recipients (as_pk s) of None \<Rightarrow> [] | Some us \<Rightarrow> us))) assignments)"

text \<open>A check that fails has still kept what was delivered before: the error comes with the state.\<close>

fun deliver ::
  "alert_env \<Rightarrow> wireless_unit \<Rightarrow> json \<Rightarrow> (assignment \<times> account \<times> string \<times> string) list
     \<Rightarrow> alert_budget \<times> alert_db \<Rightarrow> alert_error option \<times> alert_budget \<times> alert_db"
where
  "deliver env u data [] bd = (None, bd)"
| "deliver env u data ((s, a, t, m) # rs) bd =
     (case create_alert env u a (as_pk s) t m data bd of
        Inl e \<Rightarrow> (Some e, bd)
      | Inr (_, bd') \<Rightarrow> deliver env u data rs bd')"

definition fan_out ::
  "alert_env \<Rightarrow> wireless_unit \<Rightarrow> string \<Rightarrow> bool \<Rightarrow> (assignment \<Rightarrow> account \<Rightarrow> (string \<times> string) list)
     \<Rightarrow> alert_state \<Rightarrow> alert_error option \<times> alert_state"
where
  "fan_out env u scope offline_only candidates st =
     (let b = fst st; c = fst (snd st); db = snd (snd st) in
      case assignments_for_unit db (un_pk u) scope offline_only (b, c) of
        Inl e \<Rightarrow> (Some e, st)
      | Inr (assignments, b1, c1) \<Rightarrow>
          (case recipients_for_assignments db (un_pk u) assignments scope (b1, c1) of
             Inl e \<Rightarrow> (Some e, b1, c1, db)
           | Inr (recipients, b2, c2) \<Rightarrow>
               (let r = deliver env u (unit_snapshot env db u) (reports assignments recipients candidates) (b2, db)
                in (fst r, fst (snd r), c2, snd (snd r)))))"

definition check_wireless_unit_alerts ::
  "alert_env \<Rightarrow> wireless_unit \<Rightarrow> alert_state \<Rightarrow> alert_error option \<times> alert_state"
where
  "check_wireless_unit_alerts env u st =
     (let battery_pct = get_battery_percentage u; signal_loss = un_rf_level u < - 80;
          audio_low = un_audio_level u < - 40
      in if battery_pct = None \<and> \<not> signal_loss \<and> \<not> audio_low then (None, st)
         else fan_out env u ''transmitter'' False
                (\<lambda>s a. transmitter_alerts u s a battery_pct signal_loss audio_low) st)"

definition check_hardware_offline_alerts ::
  "alert_env \<Rightarrow> wireless_unit \<Rightarrow> alert_state \<Rightarrow> alert_error option \<times> alert_state"
where
  "check_hardware_offline_alerts env u st =
     (if un_status u = ''online'' then (None, st)
      else fan_out env u ''offline'' True (\<lambda>_ _. [(''hardware_offline'', ''Device offline: '' @ un_name u)]) st)"

section \<open>The scan after a poll\<close>

record alert_scan =
  aq_scanned :: nat
  aq_failed :: nat
  aq_truncated :: bool
  aq_units_truncated :: bool
  aq_limit :: nat
  aq_budget :: alert_budget

definition scan_limit :: "host_settings \<Rightarrow> nat" where
  "scan_limit st = nat (bounded_positive_setting st ''MICBOARD_POLL_ALERT_MAX_UNITS'' 100 500)"

definition unit_cursor_key :: "nat \<Rightarrow> string" where
  "unit_cursor_key m = ''micboard:poll-alert-cursor:v1:'' @ nat_text m"

definition scope_cursor_key :: "nat \<Rightarrow> string" where
  "scope_cursor_key m = ''micboard:poll-alert-scope:v1:'' @ nat_text m"

definition read_scope_cursor :: "fanout_cache \<Rightarrow> nat \<Rightarrow> bool" where
  "read_scope_cursor c m = (fc_up c \<and> fc_flags c (scope_cursor_key m) = Some True)"

definition write_scope_cursor :: "nat \<Rightarrow> bool \<Rightarrow> fanout_cache \<Rightarrow> fanout_cache" where
  "write_scope_cursor m v c = (if fc_up c then c\<lparr>fc_flags := (fc_flags c)(scope_cursor_key m \<mapsto> v)\<rparr> else c)"

text \<open>Units of the manufacturer with an active assignment to an active group with an active user.\<close>

definition alert_candidates :: "alert_db \<Rightarrow> nat \<Rightarrow> wireless_unit list \<Rightarrow> wireless_unit list" where
  "alert_candidates db m units =
     filter (\<lambda>u. un_manufacturer u = m \<and>
       list_ex (\<lambda>s. as_unit s = un_pk u \<and> as_active s \<and>
         (case active_group db s of None \<Rightarrow> False
          | Some g \<Rightarrow> list_ex (\<lambda>p. active_account db p \<noteq> None) (mg_users g))) (ad_assignments db)) units"

definition select_units :: "nat \<Rightarrow> nat \<Rightarrow> wireless_unit list \<Rightarrow> wireless_unit list \<times> bool" where
  "select_units cursor limit candidates =
     (let after = take (limit + 1) (sort_key un_pk (filter (\<lambda>u. un_pk u > cursor) candidates));
          bounded = take limit after; truncated = length after > limit
      in if \<not> truncated \<and> cursor > 0
         then (let remaining = limit - length bounded;
                   wrapped = take (remaining + 1) (sort_key un_pk (filter (\<lambda>u. un_pk u \<le> cursor) candidates))
               in (bounded @ take remaining wrapped, length wrapped > remaining))
         else (bounded, truncated))"

definition check_unit ::
  "alert_env \<Rightarrow> bool \<Rightarrow> wireless_unit \<Rightarrow> alert_state \<Rightarrow> alert_error option \<times> alert_state"
where
  "check_unit env transmitter_first u st =
     (let first = (if transmitter_first then check_wireless_unit_alerts else check_hardware_offline_alerts);
          second = (if transmitter_first then check_hardware_offline_alerts else check_wireless_unit_alerts);
          r = first env u st
      in if fst r \<noteq> None then r else second env u (snd r))"

fun scan_units ::
  "alert_env \<Rightarrow> nat \<Rightarrow> bool \<Rightarrow> wireless_unit list \<Rightarrow> nat \<times> nat \<times> alert_state \<Rightarrow> nat \<times> nat \<times> alert_state"
where
  "scan_units env m transmitter_first [] acc = acc"
| "scan_units env m transmitter_first (u # us) (scanned, failed, st) =
     (let (e, b, c, db) = check_unit env transmitter_first u st;
          acc = (scanned + 1, if e = None then failed else failed + 1, b, set_cursor (unit_cursor_key m) (un_pk u) c, db)
      in if truncated b \<or> exhausted b then acc else scan_units env m transmitter_first us acc)"

definition evaluate_manufacturer ::
  "alert_env \<Rightarrow> nat \<Rightarrow> wireless_unit list \<Rightarrow> fanout_cache \<times> alert_db \<Rightarrow> alert_scan \<times> fanout_cache \<times> alert_db"
where
  "evaluate_manufacturer env m units cd =
     (let c = fst cd; db = snd cd; limit = scan_limit (ae_settings env);
          (bounded, over) = select_units (fanout_cursor c (unit_cursor_key m)) limit (alert_candidates db m units);
          transmitter_first = read_scope_cursor c m;
          c1 = (if bounded = [] then c else write_scope_cursor m (\<not> transmitter_first) c);
          (scanned, failed, b, c2, db2) =
            scan_units env m transmitter_first bounded (0, 0, budget_from_settings (ae_settings env), c1, db);
          units_truncated = over \<or> scanned < length bounded
      in (\<lparr>aq_scanned = scanned, aq_failed = failed, aq_truncated = units_truncated \<or> truncated b,
           aq_units_truncated = units_truncated, aq_limit = limit, aq_budget = b\<rparr>, c2, db2))"

section \<open>Handling an alert\<close>

datatype handling_error = NoSuchAlert | WrongStatus

text \<open>\<open>get_alerts_for_user\<close>; \<open>visible\<close> is the tenant filter on the alert rows.\<close>

definition alerts_for_user :: "(user \<Rightarrow> alert \<Rightarrow> bool) \<Rightarrow> user \<Rightarrow> alert list \<Rightarrow> alert list" where
  "alerts_for_user visible u alerts =
     (if \<not> us_authenticated u \<or> \<not> us_active u then []
      else filter (\<lambda>a. visible u a \<and> (us_superuser u \<or> al_user a = us_pk u)) alerts)"

definition put_alert :: "alert \<Rightarrow> alert list \<Rightarrow> alert list" where
  "put_alert = put_row al_pk"

definition acknowledge_alert ::
  "(user \<Rightarrow> alert \<Rightarrow> bool) \<Rightarrow> time \<Rightarrow> nat \<Rightarrow> user \<Rightarrow> alert list \<Rightarrow> handling_error + alert list"
where
  "acknowledge_alert visible now pk u alerts =
     (case qs_first (\<lambda>a. al_pk a = pk) (alerts_for_user visible u alerts) of
        None \<Rightarrow> Inl NoSuchAlert
      | Some a \<Rightarrow>
          if al_status a = ''acknowledged'' then Inr alerts
          else if al_status a \<noteq> ''pending'' then Inl WrongStatus
          else Inr (put_alert (a\<lparr>al_status := ''acknowledged'', al_acknowledged := Some now\<rparr>) alerts))"

definition resolve_alert ::
  "(user \<Rightarrow> alert \<Rightarrow> bool) \<Rightarrow> time \<Rightarrow> nat \<Rightarrow> user \<Rightarrow> alert list \<Rightarrow> handling_error + alert list"
where
  "resolve_alert visible now pk u alerts =
     (case qs_first (\<lambda>a. al_pk a = pk) (alerts_for_user visible u alerts) of
        None \<Rightarrow> Inl NoSuchAlert
      | Some a \<Rightarrow>
          if al_status a = ''resolved'' then Inr alerts
          else if al_status a \<notin> set [''pending'', ''acknowledged''] then Inl WrongStatus
          else Inr (put_alert (a\<lparr>al_status := ''resolved'', al_resolved := Some now\<rparr>) alerts))"

section \<open>What a delivery may do\<close>

lemma fold_max_ge: "(n :: nat) \<le> fold max xs n \<and> (\<forall>x \<in> set xs. x \<le> fold max xs n)"
proof (induction xs arbitrary: n)
  case (Cons x xs)
  from Cons.IH[of "max x n"] show ?case by auto
qed simp

lemma next_alert_pk_fresh: "al \<in> set (ad_alerts db) \<Longrightarrow> al_pk al < next_alert_pk db"
  using fold_max_ge[of 0 "map al_pk (ad_alerts db)"] by (force simp: next_alert_pk_def)

lemma set_status_fresh:
  assumes "\<forall>x \<in> set xs. al_pk x < al_pk al"
  shows "map (\<lambda>a. if al_pk a = al_pk al then a\<lparr>al_status := s\<rparr> else a) (xs @ [al]) = xs @ [al\<lparr>al_status := s\<rparr>]"
  using assms by (simp, intro map_idI) auto

text \<open>What justifies an alert of a unit in a database: its addressee is an active account in an active
  group that holds an active assignment of the unit, within the tenant scope of the unit.\<close>

definition justified :: "alert_env \<Rightarrow> alert_db \<Rightarrow> wireless_unit \<Rightarrow> alert \<Rightarrow> bool" where
  "justified env db u al \<longleftrightarrow>
     un_assigned_resource u = Some (al_channel al) \<and> al_created al = ae_now env
     \<and> (\<exists>a \<in> set (ad_accounts db). account_pk a = al_user al \<and> us_active (at_user a) \<and> us_authenticated (at_user a)
          \<and> (tenant_mode (ae_deployment env) \<longrightarrow>
               un_pk u \<in> rw_pk ` set (for_user (ae_deployment env) unit_model (at_user a) (ad_units db)))
          \<and> (\<exists>s \<in> set (ad_assignments db). \<exists>g \<in> set (ad_groups db). as_pk s = al_assignment al
               \<and> as_unit s = un_pk u \<and> as_active s \<and> mg_pk g = as_group s \<and> mg_active g
               \<and> al_user al \<in> set (mg_users g)))"

lemma authorized_recipient:
  assumes "current_authorized_recipient dp db unit_id sid uid = Some a"
  shows "a \<in> set (ad_accounts db) \<and> account_pk a = uid \<and> us_active (at_user a) \<and> us_authenticated (at_user a)
    \<and> (tenant_mode dp \<longrightarrow> unit_id \<in> rw_pk ` set (for_user dp unit_model (at_user a) (ad_units db)))
    \<and> (\<exists>s \<in> set (ad_assignments db). \<exists>g \<in> set (ad_groups db). as_pk s = sid \<and> as_unit s = unit_id \<and> as_active s
         \<and> mg_pk g = as_group s \<and> mg_active g \<and> uid \<in> set (mg_users g))"
proof -
  from assms have acc: "active_account db uid = Some a"
    by (auto simp: current_authorized_recipient_def split: option.splits if_splits)
  with assms have auth: "us_authenticated (at_user a)"
    and asg: "list_ex (\<lambda>s. as_pk s = sid \<and> as_unit s = unit_id \<and> as_active s
                   \<and> (case active_group db s of None \<Rightarrow> False | Some g \<Rightarrow> uid \<in> set (mg_users g)))
                 (ad_assignments db)"
    and scope: "recipient_has_unit_scope dp db unit_id (at_user a)"
    by (simp_all add: current_authorized_recipient_def split: if_split_asm)
  from acc have a: "a \<in> set (ad_accounts db)" "account_pk a = uid" "us_active (at_user a)"
    by (auto simp: active_account_def find_Some_iff in_set_conv_nth)
  have tenant: "unit_id \<in> rw_pk ` set (for_user dp unit_model (at_user a) (ad_units db))" if "tenant_mode dp"
    using scope that by (auto simp: recipient_has_unit_scope_def list_ex_iff split: if_splits)
  from asg obtain s g where "s \<in> set (ad_assignments db)" "as_pk s = sid" "as_unit s = unit_id" "as_active s"
    "active_group db s = Some g" "uid \<in> set (mg_users g)"
    by (auto simp: list_ex_iff split: option.splits)
  moreover from this(5) have "g \<in> set (ad_groups db)" "mg_pk g = as_group s" "mg_active g"
    by (auto simp: active_group_def find_Some_iff in_set_conv_nth)
  ultimately show ?thesis using a auth tenant by blast
qed

text \<open>Databases of one run differ in their alerts only.\<close>

definition same_context :: "alert_db \<Rightarrow> alert_db \<Rightarrow> bool" where
  "same_context db db' \<longleftrightarrow> ad_accounts db' = ad_accounts db \<and> ad_groups db' = ad_groups db
     \<and> ad_assignments db' = ad_assignments db \<and> ad_units db' = ad_units db \<and> ad_channels db' = ad_channels db"

lemma same_context_refl [simp]: "same_context db db"
  by (simp add: same_context_def)

lemma same_context_trans: "same_context a b \<Longrightarrow> same_context b c \<Longrightarrow> same_context a c"
  by (simp add: same_context_def)

lemma justified_context: "same_context db db' \<Longrightarrow> justified env db' u al = justified env db u al"
  by (simp add: same_context_def justified_def)

definition is_open :: "alert \<Rightarrow> bool" where
  "is_open al \<longleftrightarrow> al_status al \<in> set [''pending'', ''sent'']"

definition alert_key :: "alert \<Rightarrow> nat \<times> nat \<times> string" where
  "alert_key al = (al_channel al, al_user al, al_type al)"

text \<open>Sending the e-mail of the newest alert leaves it pending or marks it as failed.\<close>

lemma send_email_result:
  assumes fresh: "\<forall>x \<in> set (ad_alerts db). al_pk x < al_pk al"
  shows "\<exists>s \<in> {al_status al, ''failed''}.
    send_email_if_allowed env al unit_id sid uid (db\<lparr>ad_alerts := ad_alerts db @ [al]\<rparr>)
      = db\<lparr>ad_alerts := ad_alerts db @ [al\<lparr>al_status := s\<rparr>]\<rparr>"
proof -
  have "set_alert_status (al_pk al) ''failed'' (db\<lparr>ad_alerts := ad_alerts db @ [al]\<rparr>)
      = db\<lparr>ad_alerts := ad_alerts db @ [al\<lparr>al_status := ''failed''\<rparr>]\<rparr>"
    using set_status_fresh[OF fresh] by (simp add: set_alert_status_def)
  then show ?thesis
    by (auto simp: send_email_if_allowed_def Let_def split: option.split)
qed

lemma create_scoped_cases:
  assumes "create_scoped_alert env u sid uid t m data (b, db) = Inr (r, b', db')"
  obtains (unchanged) "db' = db" "b' = b \<or> (\<exists>g. claim_delivery b = (g, b'))"
  | (created) a channel s where "un_assigned_resource u = Some channel"
      "current_authorized_recipient (ae_deployment env) db (un_pk u) sid uid = Some a"
      "claim_delivery b = (True, b')" "s \<in> {''pending'', ''failed''}"
      "\<forall>x \<in> set (ad_alerts db). \<not> recent_alert (ae_now env) (alert_interval a) channel uid t x"
      "db' = db\<lparr>ad_alerts := ad_alerts db @ [\<lparr>al_pk = next_alert_pk db, al_channel = channel, al_user = uid,
          al_assignment = sid, al_type = t, al_status = s, al_message = m, al_data = data, al_created = ae_now env,
          al_acknowledged = None, al_resolved = None\<rparr>]\<rparr>"
proof (cases "un_assigned_resource u")
  case None
  with assms show thesis by (auto simp: create_scoped_alert_def intro: unchanged)
next
  case (Some channel)
  show thesis
  proof (cases "current_authorized_recipient (ae_deployment env) db (un_pk u) sid uid")
    case None
    with Some assms show thesis
      by (auto simp: create_scoped_alert_def intro: unchanged split: if_splits)
  next
    case (Some a)
    note a = \<open>un_assigned_resource u = Some channel\<close> Some
    have uid: "account_pk a = uid" using authorized_recipient[OF a(2)] by blast
    obtain g b1 where cl: "claim_delivery b = (g, b1)" by (cases "claim_delivery b")
    let ?recent = "recent_alert (ae_now env) (alert_interval a) channel uid t"
    show thesis
    proof (cases "g \<and> qs_first ?recent (sort_key (\<lambda>r. - al_created r) (ad_alerts db)) = None")
      case False
      with a uid cl assms have "db' = db" "b' = b1"
        by (auto simp: create_scoped_alert_def Let_def split: if_splits option.splits)
      with cl show thesis by (intro unchanged) auto
    next
      case True
      define al where "al = \<lparr>al_pk = next_alert_pk db, al_channel = channel, al_user = uid,
          al_assignment = sid, al_type = t, al_status = ''pending'', al_message = m, al_data = data,
          al_created = ae_now env, al_acknowledged = None, al_resolved = None\<rparr>"
      from True a uid cl assms have e: "b' = b1"
        "db' = send_email_if_allowed env al (un_pk u) sid uid (db\<lparr>ad_alerts := ad_alerts db @ [al]\<rparr>)"
        by (auto simp: create_scoped_alert_def Let_def al_def split: if_splits)
      have "\<forall>x \<in> set (ad_alerts db). al_pk x < al_pk al" using next_alert_pk_fresh by (simp add: al_def)
      from send_email_result[OF this, of env "un_pk u" sid uid] e(2)
      obtain s where s: "s \<in> {al_status al, ''failed''}" "db' = db\<lparr>ad_alerts := ad_alerts db @ [al\<lparr>al_status := s\<rparr>]\<rparr>"
        by blast
      have "\<forall>x \<in> set (ad_alerts db). \<not> ?recent x" using True by (auto simp: qs_first_None)
      with a cl True e s show thesis by (intro created[of channel a s]) (auto simp: al_def)
    qed
  qed
qed

section \<open>What a run adds\<close>

definition unrepeated :: "alert_env \<Rightarrow> alert_db \<Rightarrow> alert \<Rightarrow> bool" where
  "unrepeated env db al \<longleftrightarrow>
     (\<exists>a \<in> set (ad_accounts db). account_pk a = al_user al \<and>
        (\<forall>old \<in> set (ad_alerts db).
           \<not> recent_alert (ae_now env) (alert_interval a) (al_channel al) (al_user al) (al_type al) old))"

definition extends ::
  "alert_env \<Rightarrow> wireless_unit set \<Rightarrow> alert_budget \<times> alert_db \<Rightarrow> alert_budget \<times> alert_db \<Rightarrow> bool"
where
  "extends env us s s' \<longleftrightarrow>
     same_context (snd s) (snd s') \<and> grows (fst s) (fst s') \<and> (budget_ok (fst s) \<longrightarrow> budget_ok (fst s'))
     \<and> (\<exists>new. ad_alerts (snd s') = ad_alerts (snd s) @ new
          \<and> int (length new) \<le> ab_deliveries (fst s') - ab_deliveries (fst s)
          \<and> (\<forall>al \<in> set new. (\<exists>u \<in> us. justified env (snd s) u al) \<and> unrepeated env (snd s) al)
          \<and> distinct (map alert_key (filter is_open new)))"

lemma extends_refl [simp]: "extends env us s s"
  by (auto simp: extends_def grows_def)

lemma unrepeated_earlier:
  assumes "unrepeated env db' al" "same_context db db'" "ad_alerts db' = ad_alerts db @ new"
  shows "unrepeated env db al"
  using assms by (auto simp: unrepeated_def same_context_def)

lemma unrepeated_distinct:
  assumes "unrepeated env db al" "old \<in> set (ad_alerts db)" "is_open old" "al_created old = ae_now env"
  shows "alert_key old \<noteq> alert_key al"
proof
  assume k: "alert_key old = alert_key al"
  from assms(1) obtain a where "\<not> recent_alert (ae_now env) (alert_interval a) (al_channel al) (al_user al) (al_type al) old"
    using assms(2) unfolding unrepeated_def by blast
  moreover have "0 \<le> alert_interval a" by (simp add: alert_interval_def)
  ultimately show False using k assms(3,4) by (simp add: recent_alert_def alert_key_def is_open_def)
qed

lemma extends_trans:
  assumes "extends env us s s'" "extends env us s' s''"
  shows "extends env us s s''"
proof -
  obtain n1 where n1: "ad_alerts (snd s') = ad_alerts (snd s) @ n1"
    "int (length n1) \<le> ab_deliveries (fst s') - ab_deliveries (fst s)"
    "\<forall>al \<in> set n1. (\<exists>u \<in> us. justified env (snd s) u al) \<and> unrepeated env (snd s) al"
    "distinct (map alert_key (filter is_open n1))"
    using assms(1) unfolding extends_def by blast
  obtain n2 where n2: "ad_alerts (snd s'') = ad_alerts (snd s') @ n2"
    "int (length n2) \<le> ab_deliveries (fst s'') - ab_deliveries (fst s')"
    "\<forall>al \<in> set n2. (\<exists>u \<in> us. justified env (snd s') u al) \<and> unrepeated env (snd s') al"
    "distinct (map alert_key (filter is_open n2))"
    using assms(2) unfolding extends_def by blast
  have ctx: "same_context (snd s) (snd s')" "same_context (snd s') (snd s'')"
    using assms unfolding extends_def by blast+
  have "alert_key a \<noteq> alert_key b" if "a \<in> set n1" "is_open a" "b \<in> set n2" for a b
  proof -
    have "al_created a = ae_now env" using n1(3) that(1) unfolding justified_def by blast
    with that n1(1) n2(3) show ?thesis by (intro unrepeated_distinct[of env "snd s'"]) auto
  qed
  then have "distinct (map alert_key (filter is_open (n1 @ n2)))"
    using n1(4) n2(4) by fastforce
  moreover have "\<forall>al \<in> set n2. (\<exists>u \<in> us. justified env (snd s) u al) \<and> unrepeated env (snd s) al"
    using n2(3) justified_context[OF ctx(1)] unrepeated_earlier[OF _ ctx(1) n1(1)] by blast
  ultimately have "\<exists>new. ad_alerts (snd s'') = ad_alerts (snd s) @ new
      \<and> int (length new) \<le> ab_deliveries (fst s'') - ab_deliveries (fst s)
      \<and> (\<forall>al \<in> set new. (\<exists>u \<in> us. justified env (snd s) u al) \<and> unrepeated env (snd s) al)
      \<and> distinct (map alert_key (filter is_open new))"
    using n1 n2 by (intro exI[of _ "n1 @ n2"]) auto
  moreover have "grows (fst s) (fst s'')" using assms grows_trans unfolding extends_def by blast
  moreover have "budget_ok (fst s) \<longrightarrow> budget_ok (fst s'')" using assms unfolding extends_def by blast
  ultimately show ?thesis using same_context_trans[OF ctx] unfolding extends_def by blast
qed

lemma extends_budget:
  "grows b b' \<Longrightarrow> (budget_ok b \<Longrightarrow> budget_ok b') \<Longrightarrow> extends env us (b, db) (b', db)"
  by (auto simp: extends_def grows_def)

lemma claim_grows: "claim_delivery b = (g, b') \<Longrightarrow> grows b b' \<and> (g \<longrightarrow> ab_deliveries b' = ab_deliveries b + 1)"
  by (auto simp: claim_delivery_def grows_def truncated_def split: if_splits)

lemma create_scoped_extends:
  assumes "create_scoped_alert env u sid uid t m data (b, db) = Inr (r, b', db')"
  shows "extends env {u} (b, db) (b', db')"
  using assms
proof (cases rule: create_scoped_cases)
  case unchanged
  then show ?thesis using claim_grows claim_delivery_step by (auto intro: extends_budget)
next
  case (created a channel s)
  define al where "al = \<lparr>al_pk = next_alert_pk db, al_channel = channel, al_user = uid,
      al_assignment = sid, al_type = t, al_status = s, al_message = m, al_data = data, al_created = ae_now env,
      al_acknowledged = None, al_resolved = None\<rparr>"
  note auth = authorized_recipient[OF created(2)]
  have "justified env db u al"
    using auth created(1) by (auto simp: justified_def al_def)
  moreover have "unrepeated env db al"
    using auth created(5) unfolding unrepeated_def al_def by auto
  moreover have db: "db' = db\<lparr>ad_alerts := ad_alerts db @ [al]\<rparr>" using created(6) by (simp add: al_def)
  ultimately show ?thesis
    using claim_grows[OF created(3)] claim_delivery_step[OF created(3)]
    by (auto simp: extends_def same_context_def)
qed

lemma create_alert_extends:
  assumes "create_alert env u a sid t m data (b, db) = Inr (r, b', db')"
  shows "extends env {u} (b, db) (b', db')"
proof -
  have "grows b (b\<lparr>ab_deliveries_truncated := True\<rparr>)" "budget_ok b \<Longrightarrow> budget_ok (b\<lparr>ab_deliveries_truncated := True\<rparr>)"
    by (auto simp: grows_def truncated_def budget_ok_def)
  with assms show ?thesis
    by (auto simp: create_alert_def split: if_splits intro: extends_budget create_scoped_extends)
qed

lemma extends_mono: "us \<subseteq> vs \<Longrightarrow> extends env us s s' \<Longrightarrow> extends env vs s s'"
  unfolding extends_def by (meson subsetD)

lemma deliver_extends:
  "deliver env u data rs (b, db) = (e, b', db') \<Longrightarrow> extends env {u} (b, db) (b', db')"
proof (induction rs arbitrary: b db)
  case Nil
  then show ?case by simp
next
  case (Cons x rs)
  obtain s a t m where x: "x = (s, a, t, m)" by (metis prod_cases4)
  show ?case
  proof (cases "create_alert env u a (as_pk s) t m data (b, db)")
    case (Inl f)
    with Cons.prems show ?thesis by (simp add: x)
  next
    case (Inr y)
    obtain r b1 db1 where y: "y = (r, b1, db1)" by (metis prod_cases3)
    with Inr Cons.prems have "deliver env u data rs (b1, db1) = (e, b', db')" by (simp add: x)
    from extends_trans[OF create_alert_extends[OF Inr[unfolded y]] Cons.IH[OF this]] show ?thesis .
  qed
qed

lemma assignments_for_unit_grows:
  assumes "assignments_for_unit db n scope off (b, c) = Inr (xs, b', c')"
  shows "grows b b' \<and> (budget_ok b \<longrightarrow> budget_ok b')"
proof (cases "remaining_assignments b \<le> 0")
  case True
  with assms show ?thesis by (auto simp: assignments_for_unit_def grows_def truncated_def budget_ok_def)
next
  case False
  with assms obtain k t where "record_assignments k t b = Inr b'"
    by (auto simp: assignments_for_unit_def Let_def split: sum.splits)
  moreover from this have "grows b b'"
    by (auto simp: record_assignments_def grows_def truncated_def split: if_splits)
  ultimately show ?thesis using record_assignments_step by blast
qed

lemma recipients_for_assignments_grows:
  assumes "recipients_for_assignments db n as scope (b, c) = Inr (xs, b', c')"
  shows "grows b b' \<and> (budget_ok b \<longrightarrow> budget_ok b')"
proof (cases "remaining_recipients b \<le> 0 \<or> as = []")
  case True
  with assms show ?thesis
    by (auto simp: recipients_for_assignments_def grows_def truncated_def budget_ok_def Let_def split: if_splits)
next
  case False
  with assms obtain k t where "record_recipients k t b = Inr b'"
    by (auto simp: recipients_for_assignments_def Let_def split: sum.splits)
  moreover from this have "grows b b'"
    by (auto simp: record_recipients_def grows_def truncated_def split: if_splits)
  ultimately show ?thesis using record_recipients_step by blast
qed

lemma fan_out_extends:
  assumes "fan_out env u scope off cands (b, c, db) = (e, b', c', db')"
  shows "extends env {u} (b, db) (b', db')"
proof (cases "assignments_for_unit db (un_pk u) scope off (b, c)")
  case (Inl f)
  with assms show ?thesis by (simp add: fan_out_def)
next
  case (Inr x)
  obtain as b1 c1 where x: "x = (as, b1, c1)" by (metis prod_cases3)
  note A = assignments_for_unit_grows[OF Inr[unfolded x]]
  have e1: "extends env {u} (b, db) (b1, db)" using A by (intro extends_budget) auto
  show ?thesis
  proof (cases "recipients_for_assignments db (un_pk u) as scope (b1, c1)")
    case (Inl f)
    with assms Inr x e1 show ?thesis by (simp add: fan_out_def)
  next
    case R: (Inr y)
    obtain rs b2 c2 where y: "y = (rs, b2, c2)" by (metis prod_cases3)
    note B = recipients_for_assignments_grows[OF R[unfolded y]]
    have e2: "extends env {u} (b1, db) (b2, db)" using B by (intro extends_budget) auto
    obtain f b3 db3 where d: "deliver env u (unit_snapshot env db u) (reports as rs cands) (b2, db) = (f, b3, db3)"
      by (metis prod_cases3)
    with assms Inr x R y have "b' = b3" "db' = db3" by (simp_all add: fan_out_def Let_def)
    with extends_trans[OF e1 extends_trans[OF e2 deliver_extends[OF d]]] show ?thesis by simp
  qed
qed

lemma check_unit_extends:
  assumes "check_unit env tf u (b, c, db) = (e, b', c', db')"
  shows "extends env {u} (b, db) (b', db')"
proof -
  have one: "extends env {u} (b, db) (b', db')"
    if "check_wireless_unit_alerts env u (b, c, db) = (e, b', c', db')
      \<or> check_hardware_offline_alerts env u (b, c, db) = (e, b', c', db')" for b c db e b' c' db'
    using that fan_out_extends
    by (auto simp: check_wireless_unit_alerts_def check_hardware_offline_alerts_def Let_def split: if_splits)
  let ?first = "if tf then check_wireless_unit_alerts else check_hardware_offline_alerts"
  let ?second = "if tf then check_hardware_offline_alerts else check_wireless_unit_alerts"
  obtain e1 b1 c1 db1 where f: "?first env u (b, c, db) = (e1, b1, c1, db1)" by (metis prod_cases4)
  have x: "extends env {u} (b, db) (b1, db1)" using f by (intro one) (auto split: if_splits)
  show ?thesis
  proof (cases "e1 = None")
    case False
    with assms f x show ?thesis by (simp add: check_unit_def Let_def)
  next
    case True
    with assms f have "?second env u (b1, c1, db1) = (e, b', c', db')" by (simp add: check_unit_def Let_def)
    then have "extends env {u} (b1, db1) (b', db')" by (intro one) (auto split: if_splits)
    with x show ?thesis by (rule extends_trans)
  qed
qed

lemma scan_units_extends:
  assumes "scan_units env m tf us (n, f, b, c, db) = (n', f', b', c', db')"
  shows "extends env (set us) (b, db) (b', db') \<and> n' \<le> n + length us \<and> f' - f \<le> n' - n \<and> f \<le> f' \<and> n \<le> n'"
  using assms
proof (induction us arbitrary: n f b c db)
  case Nil
  then show ?case by simp
next
  case (Cons u us)
  obtain e b1 c1 db1 where ch: "check_unit env tf u (b, c, db) = (e, b1, c1, db1)" by (metis prod_cases4)
  have x: "extends env (set (u # us)) (b, db) (b1, db1)"
    by (rule extends_mono[OF _ check_unit_extends[OF ch]]) simp
  show ?case
  proof (cases "truncated b1 \<or> exhausted b1")
    case True
    with Cons.prems ch x show ?thesis by (auto simp: Let_def)
  next
    case False
    with Cons.prems ch have "scan_units env m tf us (Suc n, if e = None then f else f + 1, b1,
        set_cursor (unit_cursor_key m) (un_pk u) c1, db1) = (n', f', b', c', db')" by simp
    from Cons.IH[OF this] have y: "extends env (set us) (b1, db1) (b', db')" and
      n: "n' \<le> Suc n + length us" "f' - (if e = None then f else f + 1) \<le> n' - Suc n"
        "(if e = None then f else f + 1) \<le> f'" "Suc n \<le> n'" by blast+
    have "extends env (set (u # us)) (b1, db1) (b', db')" by (rule extends_mono[OF _ y]) auto
    with extends_trans[OF x this] n show ?thesis by (auto split: if_splits)
  qed
qed

lemma select_units_spec:
  assumes "select_units cursor limit cands = (bounded, over)"
  shows "set bounded \<subseteq> set cands \<and> length bounded \<le> limit"
proof -
  have "set (take n (sort_key un_pk (filter P cands))) \<subseteq> set cands" for n P
    by (rule subset_trans[OF set_take_subset]) auto
  with assms show ?thesis
    by (auto simp: select_units_def Let_def split: if_splits dest!: in_set_takeD)
qed

text \<open>C21: the scan after a poll, dated with the one clock of its run, looks at no more units than its limit and adds no more alerts than its
  budget of deliveries, at most 1000; it only appends to the alert table; every new alert is
  addressed to an active account of an active group holding an active assignment of one of the
  manufacturer's units, inside the tenant scope of that unit; and it repeats no alert that is
  still open within the interval its addressee has chosen, neither an older one nor a new one.\<close>

theorem alert_scan_safe:
  assumes "evaluate_manufacturer env m units (c, db) = (res, c', db')"
  shows "aq_failed res \<le> aq_scanned res \<and> aq_scanned res \<le> aq_limit res \<and> aq_limit res \<le> 500
    \<and> budget_ok (aq_budget res)
    \<and> (\<exists>new. ad_alerts db' = ad_alerts db @ new \<and> int (length new) \<le> ab_deliveries (aq_budget res)
         \<and> (\<forall>al \<in> set new. \<exists>u \<in> set units. un_manufacturer u = m \<and> justified env db u al)
         \<and> (\<forall>al \<in> set new. unrepeated env db al) \<and> distinct (map alert_key (filter is_open new)))"
proof -
  define limit where "limit = scan_limit (ae_settings env)"
  obtain bounded over where s: "select_units (fanout_cursor c (unit_cursor_key m)) limit (alert_candidates db m units)
      = (bounded, over)" by fastforce
  define tf where "tf = read_scope_cursor c m"
  define c1 where "c1 = (if bounded = [] then c else write_scope_cursor m (\<not> tf) c)"
  let ?b0 = "budget_from_settings (ae_settings env)"
  obtain n f b c2 db2 where r: "scan_units env m tf bounded (0, 0, ?b0, c1, db) = (n, f, b, c2, db2)"
    by (metis prod_cases5)
  note run = assms[unfolded evaluate_manufacturer_def Let_def fst_conv snd_conv, folded limit_def tf_def,
      unfolded s prod.case, folded c1_def, unfolded r prod.case]
  have e: "aq_scanned res = n" "aq_failed res = f" "aq_limit res = limit" "aq_budget res = b" "db' = db2"
    using run by auto
  note bounded = select_units_spec[OF s]
  note ext = scan_units_extends[OF r]
  have limit: "limit \<le> 500"
    using clamped.ceiling[of 100 500 "ae_settings env" "''MICBOARD_POLL_ALERT_MAX_UNITS''"]
    by (simp add: limit_def scan_limit_def)
  have ok: "budget_ok b" using ext budget_from_settings_ok unfolding extends_def by auto
  from ext obtain new where new: "ad_alerts db2 = ad_alerts db @ new"
    "int (length new) \<le> ab_deliveries b - ab_deliveries ?b0"
    "\<forall>al \<in> set new. (\<exists>u \<in> set bounded. justified env db u al) \<and> unrepeated env db al"
    "distinct (map alert_key (filter is_open new))"
    unfolding extends_def by auto
  have "ab_deliveries ?b0 = 0" by (simp add: budget_from_settings_def)
  moreover have "\<forall>u \<in> set bounded. u \<in> set units \<and> un_manufacturer u = m"
    using bounded by (auto simp: alert_candidates_def)
  ultimately have "\<exists>new. ad_alerts db2 = ad_alerts db @ new \<and> int (length new) \<le> ab_deliveries b
         \<and> (\<forall>al \<in> set new. \<exists>u \<in> set units. un_manufacturer u = m \<and> justified env db u al)
         \<and> (\<forall>al \<in> set new. unrepeated env db al) \<and> distinct (map alert_key (filter is_open new))"
    using new by (intro exI[of _ new] conjI) (simp_all, blast)
  with e ok limit ext bounded show ?thesis by auto
qed

section \<open>An e-mail outage\<close>

lemma failed_is_not_recent: "al_status x = ''failed'' \<Longrightarrow> \<not> recent_alert now k ch usr t x"
  by (simp add: recent_alert_def)

lemma authorized_context:
  assumes "same_context db db'"
  shows "current_authorized_recipient dp db' n sid uid = current_authorized_recipient dp db n sid uid"
proof -
  have f: "ad_accounts db' = ad_accounts db" "ad_groups db' = ad_groups db"
    "ad_assignments db' = ad_assignments db" "ad_units db' = ad_units db"
    using assms by (simp_all add: same_context_def)
  show ?thesis
    unfolding current_authorized_recipient_def active_account_def active_group_def recipient_has_unit_scope_def f ..
qed

lemma append_context: "same_context db (db\<lparr>ad_alerts := xs\<rparr>)"
  by (simp add: same_context_def)

lemma create_during_outage:
  assumes ch: "un_assigned_resource u = Some channel" "map_of (ad_channels db) channel \<noteq> None"
    and a: "current_authorized_recipient (ae_deployment env) db (un_pk u) sid uid = Some a"
    and email: "at_prefs a = None" "at_email a \<noteq> []" "\<forall>al address. \<not> ae_send env al address"
    and budget: "0 < remaining_deliveries b"
    and fresh: "\<forall>x \<in> set (ad_alerts db). \<not> recent_alert (ae_now env) (alert_interval a) channel uid t x"
  shows "\<exists>al b'. create_scoped_alert env u sid uid t m data (b, db)
      = Inr (Some (al\<lparr>al_status := ''pending''\<rparr>), b', db\<lparr>ad_alerts := ad_alerts db @ [al]\<rparr>)
    \<and> al_status al = ''failed'' \<and> alert_key al = (channel, uid, t) \<and> b' = b\<lparr>ab_deliveries := ab_deliveries b + 1\<rparr>"
proof -
  have uid: "account_pk a = uid" using authorized_recipient[OF a] by blast
  define al where "al = \<lparr>al_pk = next_alert_pk db, al_channel = channel, al_user = uid,
      al_assignment = sid, al_type = t, al_status = ''pending'', al_message = m, al_data = data,
      al_created = ae_now env, al_acknowledged = None, al_resolved = None\<rparr>"
  have less: "\<forall>x \<in> set (ad_alerts db). al_pk x < al_pk al" using next_alert_pk_fresh by (simp add: al_def)
  have auth': "current_authorized_recipient (ae_deployment env) (db\<lparr>ad_alerts := xs\<rparr>) (un_pk u) sid uid = Some a" for xs
    using a by (simp only: authorized_context[OF append_context])
  have "send_email_if_allowed env al (un_pk u) sid uid (db\<lparr>ad_alerts := ad_alerts db @ [al]\<rparr>)
      = db\<lparr>ad_alerts := ad_alerts db @ [al\<lparr>al_status := ''failed''\<rparr>]\<rparr>"
    using auth' email set_status_fresh[OF less, of "''failed''"]
    by (simp add: send_email_if_allowed_def Let_def set_alert_status_def)
  moreover have "qs_first (recent_alert (ae_now env) (alert_interval a) channel uid t)
      (sort_key (\<lambda>r. - al_created r) (ad_alerts db)) = None"
    using fresh by (simp add: qs_first_None)
  moreover have "claim_delivery b = (True, b\<lparr>ab_deliveries := ab_deliveries b + 1\<rparr>)"
    using budget by (simp add: claim_delivery_def)
  ultimately have "create_scoped_alert env u sid uid t m data (b, db) = Inr (Some al,
      b\<lparr>ab_deliveries := ab_deliveries b + 1\<rparr>, db\<lparr>ad_alerts := ad_alerts db @ [al\<lparr>al_status := ''failed''\<rparr>]\<rparr>)"
    using ch a uid by (auto simp: create_scoped_alert_def Let_def al_def)
  then show ?thesis
    by (intro exI[of _ "al\<lparr>al_status := ''failed''\<rparr>"]) (simp add: alert_key_def, simp add: al_def)
qed

text \<open>while e-mails are refused, every evaluation of the same condition adds another alert of the
  same channel, user and type, however long the interval the user has chosen: a failed alert
  suppresses nothing.  None of these alerts can ever be acknowledged or resolved.\<close>

theorem outage_repeats_alerts:
  assumes ch: "un_assigned_resource u = Some channel" "map_of (ad_channels db) channel \<noteq> None"
    and a: "current_authorized_recipient (ae_deployment env) db (un_pk u) sid uid = Some a"
    and email: "at_prefs a = None" "at_email a \<noteq> []" "\<forall>al address. \<not> ae_send env al address"
    and budget: "1 < remaining_deliveries b"
    and old: "\<forall>x \<in> set (ad_alerts db). alert_key x = (channel, uid, t) \<longrightarrow> al_status x = ''failed''"
  shows "\<exists>x y r b1 db1 b2 db2. create_scoped_alert env u sid uid t m data (b, db) = Inr (r, b1, db1)
      \<and> create_scoped_alert env u sid uid t m data (b1, db1) = Inr (Some (y\<lparr>al_status := ''pending''\<rparr>), b2, db2)
      \<and> ad_alerts db2 = ad_alerts db @ [x, y] \<and> alert_key x = (channel, uid, t) \<and> alert_key y = (channel, uid, t)
      \<and> al_status y = ''failed''
      \<and> acknowledge_alert (\<lambda>_ _. True) now (al_pk y) (at_user a) (ad_alerts db2) \<in> {Inl NoSuchAlert, Inl WrongStatus}
      \<and> resolve_alert (\<lambda>_ _. True) now (al_pk y) (at_user a) (ad_alerts db2) \<in> {Inl NoSuchAlert, Inl WrongStatus}"
proof -
  have quiet: "\<forall>x \<in> set xs. \<not> recent_alert (ae_now env) (alert_interval a) channel uid t x"
    if "\<forall>x \<in> set xs. alert_key x = (channel, uid, t) \<longrightarrow> al_status x = ''failed''" for xs
    using that by (auto simp: recent_alert_def alert_key_def)
  from create_during_outage[OF ch a email _ quiet[OF old], of b m data] budget
  obtain x b1 where x: "create_scoped_alert env u sid uid t m data (b, db)
      = Inr (Some (x\<lparr>al_status := ''pending''\<rparr>), b1, db\<lparr>ad_alerts := ad_alerts db @ [x]\<rparr>)"
    "al_status x = ''failed''" "alert_key x = (channel, uid, t)" "b1 = b\<lparr>ab_deliveries := ab_deliveries b + 1\<rparr>"
    by (auto simp: remaining_deliveries_def)
  let ?db1 = "db\<lparr>ad_alerts := ad_alerts db @ [x]\<rparr>"
  have a1: "current_authorized_recipient (ae_deployment env) ?db1 (un_pk u) sid uid = Some a"
    using a by (simp only: authorized_context[OF append_context])
  have old1: "\<forall>z \<in> set (ad_alerts ?db1). alert_key z = (channel, uid, t) \<longrightarrow> al_status z = ''failed''"
    using old x(2) by auto
  have "map_of (ad_channels ?db1) channel \<noteq> None" "0 < remaining_deliveries b1"
    using ch(2) budget x(4) by (auto simp: remaining_deliveries_def)
  from create_during_outage[OF ch(1) this(1) a1 email this(2) quiet[OF old1], of m data]
  obtain y b2 where y: "create_scoped_alert env u sid uid t m data (b1, ?db1)
      = Inr (Some (y\<lparr>al_status := ''pending''\<rparr>), b2, ?db1\<lparr>ad_alerts := ad_alerts ?db1 @ [y]\<rparr>)"
    "al_status y = ''failed''" "alert_key y = (channel, uid, t)" by blast
  have pk: "al_pk y = next_alert_pk ?db1"
    using y(1) by (cases rule: create_scoped_cases) (auto dest: arg_cong[where f = ad_alerts])
  have only: "z = y" if "z \<in> set (ad_alerts db @ [x, y])" "al_pk z = al_pk y" for z
    using that next_alert_pk_fresh[of z ?db1] pk by auto
  let ?rows = "ad_alerts db @ [x, y]"
  let ?q = "qs_first (\<lambda>z. al_pk z = al_pk y) (alerts_for_user (\<lambda>_ _. True) (at_user a) ?rows)"
  have stuck: "al_status z = ''failed''" if "?q = Some z" for z
  proof -
    from qs_first_Some[OF that] have "z \<in> set ?rows" "al_pk z = al_pk y"
      by (auto simp: alerts_for_user_def split: if_splits)
    from only[OF this] y(2) show ?thesis by simp
  qed
  have "acknowledge_alert (\<lambda>_ _. True) now (al_pk y) (at_user a) ?rows \<in> {Inl NoSuchAlert, Inl WrongStatus}
      \<and> resolve_alert (\<lambda>_ _. True) now (al_pk y) (at_user a) ?rows \<in> {Inl NoSuchAlert, Inl WrongStatus}"
    by (cases ?q) (simp_all add: acknowledge_alert_def resolve_alert_def stuck)
  moreover have "ad_alerts (?db1\<lparr>ad_alerts := ad_alerts ?db1 @ [y]\<rparr>) = ?rows" by simp
  ultimately show ?thesis using x(1,3) y by metis
qed

section \<open>Samples\<close>

definition sample_unit :: wireless_unit where
  "sample_unit = \<lparr>un_pk = 4, un_device_type = ''mic_transmitter'', un_base_chassis = 2, un_protocol_family = [],
     un_wmas_profile = [], un_assigned_resource = Some 9, un_manufacturer = 7, un_model = [], un_serial = ''S'',
     un_name = ''Vox'', un_slot = 1, un_battery = 255, un_battery_charge = None, un_battery_runtime = [],
     un_battery_type = [], un_battery_health = [], un_battery_cycles = None, un_battery_temperature = None, un_audio_level = 0, un_rf_level = 0,
     un_frequency = [], un_antenna = [], un_tx_offset = 0, un_quality = 255, un_iem_link_quality = None,
     un_iem_audio_level = None, un_firmware = [], un_status = ''offline'', un_api_status = [], un_charging = False,
     un_muted = False, un_last_seen = None, un_updated = 0\<rparr>"

definition sample_account :: account where
  "sample_account = \<lparr>at_user = \<lparr>us_pk = 3, us_authenticated = True, us_active = True, us_superuser = False,
       us_memberships = [], us_groups = []\<rparr>, at_email = ''a@b'', at_prefs = None\<rparr>"

definition sample_alert_db :: alert_db where
  "sample_alert_db = \<lparr>ad_accounts = [sample_account], ad_groups = [\<lparr>mg_pk = 5, mg_active = True, mg_users = [3]\<rparr>],
     ad_assignments = [\<lparr>as_pk = 6, as_performer = ''Ada'', as_unit = 4, as_group = 5, as_active = True,
       as_battery = True, as_signal = True, as_audio = False, as_offline = True\<rparr>],
     ad_units = [], ad_channels = [(9, \<lparr>ci_number = 1, ci_chassis_name = ''Rack'', ci_chassis_ip = ''10.0.0.1''\<rparr>)],
     ad_alerts = []\<rparr>"

definition sample_alert_env :: "bool \<Rightarrow> alert_env" where
  "sample_alert_env works = \<lparr>ae_deployment = \<lparr>dp_multi_site = False, dp_msp = False, dp_cross_org = True, dp_site = 1,
       dp_installed = True\<rparr>, ae_now = 1000, ae_time_of_day = 0, ae_send = (\<lambda>_ _. works), ae_settings = Map.empty,
     ae_iso = (\<lambda>_. [])\<rparr>"

definition empty_fanout_cache :: fanout_cache where
  "empty_fanout_cache = \<lparr>fc_cursors = Map.empty, fc_pairs = Map.empty, fc_flags = Map.empty, fc_up = True\<rparr>"

theorem alert_scan_safe_witness:
  "let r = evaluate_manufacturer (sample_alert_env True) 7 [sample_unit] (empty_fanout_cache, sample_alert_db)
   in map alert_key (ad_alerts (snd (snd r))) = [(9, 3, ''hardware_offline'')]
      \<and> (\<forall>al \<in> set (ad_alerts (snd (snd r))). justified (sample_alert_env True) sample_alert_db sample_unit al)"
proof -
  let ?r = "evaluate_manufacturer (sample_alert_env True) 7 [sample_unit] (empty_fanout_cache, sample_alert_db)"
  obtain res c' db' where r: "?r = (res, c', db')" by (metis prod_cases3)
  have "map alert_key (ad_alerts (snd (snd ?r))) = [(9, 3, ''hardware_offline'')]" by code_simp
  moreover have "ad_alerts sample_alert_db = []" by (simp add: sample_alert_db_def)
  moreover note alert_scan_safe[OF r]
  ultimately show ?thesis unfolding r by auto
qed

theorem outage_repeats_alerts_witness:
  "\<exists>r b1 db1 q b2 db2.
     create_scoped_alert (sample_alert_env False) sample_unit 6 3 ''hardware_offline'' [] JNull
       (budget_from_settings Map.empty, sample_alert_db) = Inr (r, b1, db1)
     \<and> create_scoped_alert (sample_alert_env False) sample_unit 6 3 ''hardware_offline'' [] JNull (b1, db1) = Inr (q, b2, db2)
     \<and> length (ad_alerts db2) = 2"
proof -
  have u: "un_assigned_resource sample_unit = Some 9" by (simp add: sample_unit_def)
  have ch: "map_of (ad_channels sample_alert_db) 9 \<noteq> None" by (simp add: sample_alert_db_def)
  have a: "current_authorized_recipient (ae_deployment (sample_alert_env False)) sample_alert_db (un_pk sample_unit) 6 3
      = Some sample_account"
    by (simp add: current_authorized_recipient_def active_account_def active_group_def recipient_has_unit_scope_def
        sample_alert_db_def sample_alert_env_def sample_account_def account_pk_def tenant_mode_def sample_unit_def)
  have e: "at_prefs sample_account = None" "at_email sample_account \<noteq> []"
    "\<forall>al address. \<not> ae_send (sample_alert_env False) al address"
    by (simp_all add: sample_account_def sample_alert_env_def)
  have b: "1 < remaining_deliveries (budget_from_settings Map.empty)"
    by (simp add: remaining_deliveries_def budget_from_settings_def clamped.absent)
  have none: "ad_alerts sample_alert_db = []" by (simp add: sample_alert_db_def)
  then have old: "\<forall>x \<in> set (ad_alerts sample_alert_db). alert_key x = (9, 3, ''hardware_offline'') \<longrightarrow> al_status x = ''failed''"
    by simp
  from outage_repeats_alerts[OF u ch a e b old, of "[]" JNull 0] obtain x y r b1 db1 b2 db2 where
    "create_scoped_alert (sample_alert_env False) sample_unit 6 3 ''hardware_offline'' [] JNull
       (budget_from_settings Map.empty, sample_alert_db) = Inr (r, b1, db1)"
    "create_scoped_alert (sample_alert_env False) sample_unit 6 3 ''hardware_offline'' [] JNull (b1, db1)
       = Inr (Some (y\<lparr>al_status := ''pending''\<rparr>), b2, db2)"
    "ad_alerts db2 = ad_alerts sample_alert_db @ [x, y]" by blast
  moreover from this(3) none have "length (ad_alerts db2) = 2" by simp
  ultimately show ?thesis by blast
qed

end
