(* ===== verification/Discovery_Approval.thy ===== *)
theory Discovery_Approval
  imports Chassis_Persistence "HOL-Library.Product_Lexorder"
begin

text \<open>
  Promoting staged discovery-queue entries to managed inventory
  (\<open>services/sync/discovery_approval_service.py\<close> with its inventory snapshot, identity resolution,
  batch policy and plan).  One approval reads the pending entries of a selection, resolves every one
  to a charger, an existing chassis or a new chassis, refuses the whole batch when two entries
  disagree about ownership, writes every target once and marks the entries imported.

  The approval is one transaction: an error leaves the caller with the state it had.  Row and
  advisory locks order concurrent approvals and do not change what one computes.  \<open>ae_digest\<close> is
  the hexadecimal SHA-256 of a text, \<open>ae_repr\<close> is \<open>str\<close> of a JSON number, list or object; the
  reviewer is the predicate \<open>has_perm\<close>.
\<close>

section \<open>Errors, environment, targets\<close>

datatype approval_error =
    PermissionDenied
  | BatchTooLarge
  | ConflictScopeTooLarge
  | LockScopeTooLarge
  | UnsupportedRole
  | ChargerGone
  | ForeignCharger
  | SerialConflict
  | UnprovenIpConflict
  | ChargerNeedsLink
  | ChargerNeedsLocation
  | SeveralChargers
  | ForeignChassis
  | ApiIdConflict
  | SeveralChassis
  | NeedsIdentity
  | AmbiguousOwner
  | OwnedByChassis
  | OwnedByCharger
  | OwnedByOtherCharger
  | OwnedByOtherChassis
  | ConflictingManufacturers
  | ConflictingIdentities
  | AddressForSeveralDevices
  | SeveralAddressesForDevice
  | ConflictingRoles
  | ConflictingSerials
  | SerialOfSeveralIdentities
  | RetiredChassis
  | KeyError
  | InvalidAddress chassis_error
  | Persisting persist_error

record approval_env =
  ae_save :: save_env
  ae_tenancy :: tenancy
  ae_digest :: "string \<Rightarrow> string"
  ae_repr :: "json \<Rightarrow> string"
  ae_now :: time

definition max_approval_batch :: nat where "max_approval_batch = 100"

definition max_approval_locks :: nat where "max_approval_locks = max_approval_batch * 4"

definition lookupE :: "('k \<times> 'v) list \<Rightarrow> 'k \<Rightarrow> approval_error + 'v" where
  "lookupE d k = (case map_of d k of None \<Rightarrow> Inl KeyError | Some v \<Rightarrow> Inr v)"

definition is_charger_entry :: "queue_entry \<Rightarrow> bool" where
  "is_charger_entry e = (lower (dq_device_type e) = ''charger'')"

section \<open>Locked inventory\<close>

record approval_inventory =
  ai_chassis :: "chassis list"
  ai_chargers :: "charger list"
  ai_chassis_owners :: "(string \<times> nat list) list"
  ai_charger_owners :: "(string \<times> nat list) list"
  ai_by_api :: "((nat \<times> string) \<times> chassis list) list"
  ai_by_serial :: "((nat \<times> string) \<times> chassis list) list"
  ai_chargers_by_serial :: "((nat option \<times> string) \<times> charger list) list"

text \<open>\<open>str(row.ip)\<close> of a charger without an address is \<open>None\<close>.\<close>

definition charger_ip_text :: "charger \<Rightarrow> string" where
  "charger_ip_text g = (case cg_ip g of None \<Rightarrow> ''None'' | Some a \<Rightarrow> a)"

text \<open>\<open>_owner_ids_by_ip\<close> keeps every owner of an address.\<close>

definition owner_ids_by_ip :: "('r \<Rightarrow> string) \<Rightarrow> ('r \<Rightarrow> nat) \<Rightarrow> 'r list \<Rightarrow> (string \<times> nat list) list" where
  "owner_ids_by_ip ip pk rows = map (\<lambda>(k, rs). (k, map pk rs)) (group_by ip rows)"

definition chassis_identity_filter :: "queue_entry \<Rightarrow> string \<Rightarrow> string \<Rightarrow> chassis \<Rightarrow> bool" where
  "chassis_identity_filter e api_id serial c =
     (dq_existing_device e = Some (ch_pk c)
      \<or> (api_id \<noteq> [] \<and> ch_manufacturer c = dq_manufacturer e \<and> ch_api_id c = api_id)
      \<or> (serial \<noteq> [] \<and> ch_manufacturer c = dq_manufacturer e \<and> ch_serial c = serial))"

definition chassis_filter :: "queue_entry list \<Rightarrow> chassis \<Rightarrow> bool" where
  "chassis_filter items c =
     (ch_ip c \<in> set (map dq_ip items)
      \<or> list_ex (\<lambda>e. \<not> is_charger_entry e
            \<and> chassis_identity_filter e (strip (dq_api_id e)) (strip (dq_serial e)) c) items)"

definition charger_filter :: "queue_entry list \<Rightarrow> charger \<Rightarrow> bool" where
  "charger_filter items g =
     (cg_ip g \<in> Some ` set (map dq_ip items)
      \<or> list_ex (\<lambda>e. is_charger_entry e
            \<and> (dq_existing_charger e = Some (cg_pk g)
               \<or> (strip (dq_serial e) \<noteq> [] \<and> cg_manufacturer g = Some (dq_manufacturer e)
                  \<and> cg_serial g = strip (dq_serial e)))) items)"

definition inventory_indexes :: "string list \<Rightarrow> chassis list \<Rightarrow> charger list \<Rightarrow> approval_inventory" where
  "inventory_indexes ips chs cgs =
     \<lparr>ai_chassis = chs, ai_chargers = cgs,
      ai_chassis_owners = owner_ids_by_ip ch_ip ch_pk (filter (\<lambda>c. ch_ip c \<in> set ips) chs),
      ai_charger_owners = owner_ids_by_ip charger_ip_text cg_pk (filter (\<lambda>g. charger_ip_text g \<in> set ips) cgs),
      ai_by_api = group_by (\<lambda>c. (ch_manufacturer c, strip (ch_api_id c)))
                    (filter (\<lambda>c. strip (ch_api_id c) \<noteq> []) chs),
      ai_by_serial = group_by (\<lambda>c. (ch_manufacturer c, strip (ch_serial c)))
                    (filter (\<lambda>c. strip (ch_serial c) \<noteq> []) chs),
      ai_chargers_by_serial = group_by (\<lambda>g. (cg_manufacturer g, strip (cg_serial g)))
                    (filter (\<lambda>g. strip (cg_serial g) \<noteq> []) cgs)\<rparr>"

definition lock_inventory :: "queue_entry list \<Rightarrow> inventory \<Rightarrow> approval_error + approval_inventory" where
  "lock_inventory items db =
     (let chs = take (max_approval_locks + 1) (sort_key ch_pk (filter (chassis_filter items) (iv_chassis db)));
          cgs = take (max_approval_locks + 1) (sort_key cg_pk (filter (charger_filter items) (iv_chargers db)))
      in bindE (requireE (length chs \<le> max_approval_locks) LockScopeTooLarge) (\<lambda>_.
         bindE (requireE (length cgs \<le> max_approval_locks) LockScopeTooLarge) (\<lambda>_.
         Inr (inventory_indexes (map dq_ip items) chs cgs))))"

text \<open>\<open>chassis_by_pk.get\<close> and \<open>chargers_by_pk.get\<close>; keys are unique.\<close>

definition locked_chassis :: "approval_inventory \<Rightarrow> nat \<Rightarrow> chassis option" where
  "locked_chassis inven pk = map_of (map (\<lambda>c. (ch_pk c, c)) (ai_chassis inven)) pk"

definition locked_charger :: "approval_inventory \<Rightarrow> nat \<Rightarrow> charger option" where
  "locked_charger inven pk = map_of (map (\<lambda>g. (cg_pk g, g)) (ai_chargers inven)) pk"

definition get_list :: "('k \<times> 'v list) list \<Rightarrow> 'k \<Rightarrow> 'v list" where
  "get_list d k = (case map_of d k of None \<Rightarrow> [] | Some xs \<Rightarrow> xs)"

section \<open>Resolution\<close>

record approval_target =
  tg_chassis :: "chassis option"
  tg_api_id :: string

fun metadata_value_text :: "(json \<Rightarrow> string) \<Rightarrow> json option \<Rightarrow> string" where
  "metadata_value_text repr None = []"
| "metadata_value_text repr (Some JNull) = []"
| "metadata_value_text repr (Some (JStr s)) = strip s"
| "metadata_value_text repr (Some (JBool b)) = (if b then ''True'' else ''False'')"
| "metadata_value_text repr (Some v) = strip (repr v)"

fun metadata_text :: "(json \<Rightarrow> string) \<Rightarrow> json \<Rightarrow> string list \<Rightarrow> string" where
  "metadata_text repr metadata [] = []"
| "metadata_text repr metadata (k # ks) =
     (let v = metadata_value_text repr (case metadata of JObj kvs \<Rightarrow> map_of kvs k | _ \<Rightarrow> None)
      in if v \<noteq> [] then v else metadata_text repr metadata ks)"

definition resolve_linked_charger :: "queue_entry \<Rightarrow> charger option \<Rightarrow> approval_error + charger" where
  "resolve_linked_charger e found =
     (case found of None \<Rightarrow> Inl ChargerGone
      | Some g \<Rightarrow>
          (let serial = strip (dq_serial e); existing = strip (cg_serial g);
               serial_matches = (serial \<noteq> [] \<and> existing \<noteq> [] \<and> serial = existing)
           in bindE (requireE (cg_manufacturer g = None \<or> cg_manufacturer g = Some (dq_manufacturer e))
                       ForeignCharger) (\<lambda>_.
              bindE (requireE (\<not> (serial \<noteq> [] \<and> \<not> serial_matches)) SerialConflict) (\<lambda>_.
              bindE (requireE (\<not> (dq_is_ip_conflict e \<and> \<not> serial_matches)) UnprovenIpConflict) (\<lambda>_.
              Inr g)))))"

definition resolve_charger :: "queue_entry \<Rightarrow> approval_inventory \<Rightarrow> approval_error + charger" where
  "resolve_charger e inven =
     (case dq_existing_charger e of
        Some pk \<Rightarrow> resolve_linked_charger e (locked_charger inven pk)
      | None \<Rightarrow>
          (let serial = strip (dq_serial e) in
           if serial = [] then Inl ChargerNeedsLink
           else (case get_list (ai_chargers_by_serial inven) (Some (dq_manufacturer e), serial) of
               [] \<Rightarrow> Inl ChargerNeedsLocation
             | [g] \<Rightarrow> Inr g
             | _ \<Rightarrow> Inl SeveralChargers)))"

definition validate_matched_chassis ::
  "queue_entry \<Rightarrow> chassis \<Rightarrow> string \<Rightarrow> string \<Rightarrow> approval_error + unit"
where
  "validate_matched_chassis e c api_id serial =
     (let existing_api = strip (ch_api_id c); existing_serial = strip (ch_serial c);
          api_matches = (api_id \<noteq> [] \<and> api_id = existing_api);
          serial_matches = (serial \<noteq> [] \<and> existing_serial \<noteq> [] \<and> serial = existing_serial)
      in bindE (requireE (ch_manufacturer c = dq_manufacturer e) ForeignChassis) (\<lambda>_.
         bindE (requireE (\<not> (serial \<noteq> [] \<and> existing_serial \<noteq> [] \<and> serial \<noteq> existing_serial)) SerialConflict) (\<lambda>_.
         if dq_existing_device e \<noteq> None
         then bindE (requireE (\<not> (api_id \<noteq> existing_api \<and> \<not> serial_matches)) ApiIdConflict) (\<lambda>_.
              requireE (\<not> (dq_is_ip_conflict e \<and> \<not> (api_matches \<or> serial_matches))) UnprovenIpConflict)
         else requireE (\<not> (api_id \<noteq> [] \<and> existing_api \<noteq> api_id)) ApiIdConflict)))"

definition indexed_chassis_matches ::
  "queue_entry \<Rightarrow> approval_inventory \<Rightarrow> string \<Rightarrow> string \<Rightarrow> chassis list"
where
  "indexed_chassis_matches e inven api_id serial =
     (let explicit = (case dq_existing_device e of None \<Rightarrow> []
            | Some pk \<Rightarrow> (case locked_chassis inven pk of None \<Rightarrow> [] | Some c \<Rightarrow> [c]));
          by_api = (if api_id \<noteq> [] then get_list (ai_by_api inven) (dq_manufacturer e, api_id) else []);
          by_serial = (if serial \<noteq> [] then get_list (ai_by_serial inven) (dq_manufacturer e, serial) else [])
      in map snd (fold (\<lambda>c. AList.update (ch_pk c) c) (explicit @ by_api @ by_serial) []))"

definition serial_api_id :: "(string \<Rightarrow> string) \<Rightarrow> string \<Rightarrow> string" where
  "serial_api_id digest serial =
     (let readable = ''serial:'' @ serial in
      if length readable \<le> 100 then readable else ''serial-sha256:'' @ digest serial)"

definition resolved_api_id :: "(string \<Rightarrow> string) \<Rightarrow> string \<Rightarrow> string \<Rightarrow> chassis option \<Rightarrow> string" where
  "resolved_api_id digest api_id serial found =
     (let adopted = (if api_id = [] then (case found of None \<Rightarrow> [] | Some c \<Rightarrow> strip (ch_api_id c)) else api_id)
      in if adopted = [] \<and> serial \<noteq> [] then serial_api_id digest serial else adopted)"

definition resolve_chassis ::
  "(string \<Rightarrow> string) \<Rightarrow> queue_entry \<Rightarrow> approval_inventory \<Rightarrow> approval_error + approval_target"
where
  "resolve_chassis digest e inven =
     (let api_id = strip (dq_api_id e); serial = strip (dq_serial e);
          matches = indexed_chassis_matches e inven api_id serial;
          found = (case matches of [] \<Rightarrow> None | c # _ \<Rightarrow> Some c);
          target_id = resolved_api_id digest api_id serial found
      in bindE (requireE (length matches \<le> 1) SeveralChassis) (\<lambda>_.
         bindE (case found of None \<Rightarrow> Inr () | Some c \<Rightarrow> validate_matched_chassis e c api_id serial) (\<lambda>_.
         bindE (requireE (target_id \<noteq> []) NeedsIdentity) (\<lambda>_.
         Inr \<lparr>tg_chassis = found, tg_api_id = target_id\<rparr>))))"

definition validate_role :: "queue_entry \<Rightarrow> approval_error + unit" where
  "validate_role e =
     requireE (is_charger_entry e
       \<or> lower (dq_device_type e) \<in> set [''receiver'', ''transmitter'', ''transceiver'']) UnsupportedRole"

section \<open>Batch policy\<close>

type_synonym target_key = "string \<times> nat \<times> string"

record batch_policy =
  bp_ip_claims :: "(string \<times> target_key) list"
  bp_target_ips :: "(target_key \<times> string) list"
  bp_identity_serials :: "((nat \<times> string) \<times> string) list"
  bp_identity_roles :: "((nat \<times> string) \<times> string) list"
  bp_serial_identities :: "((nat \<times> string) \<times> (nat \<times> string)) list"
  bp_chassis_identities :: "(nat \<times> (nat \<times> string)) list"
  bp_charger_manufacturers :: "(nat \<times> nat) list"

definition empty_policy :: batch_policy where
  "empty_policy = \<lparr>bp_ip_claims = [], bp_target_ips = [], bp_identity_serials = [],
     bp_identity_roles = [], bp_serial_identities = [], bp_chassis_identities = [],
     bp_charger_manufacturers = []\<rparr>"

text \<open>\<open>d.setdefault(k, v)\<close> followed by the check that the value kept is \<open>v\<close>.\<close>

definition agree :: "approval_error \<Rightarrow> 'k \<Rightarrow> 'v \<Rightarrow> ('k \<times> 'v) list \<Rightarrow> approval_error + ('k \<times> 'v) list" where
  "agree err k v d =
     (case map_of d k of None \<Rightarrow> Inr (d @ [(k, v)])
      | Some w \<Rightarrow> if w = v then Inr d else Inl err)"

definition single_owner_id :: "nat list \<Rightarrow> approval_error + nat option" where
  "single_owner_id ids = bindE (requireE (length ids \<le> 1) AmbiguousOwner)
     (\<lambda>_. Inr (case ids of [] \<Rightarrow> None | i # _ \<Rightarrow> Some i))"

definition claim_address :: "queue_entry \<Rightarrow> target_key \<Rightarrow> batch_policy \<Rightarrow> approval_error + batch_policy" where
  "claim_address e key p =
     bindE (agree AddressForSeveralDevices (dq_ip e) key (bp_ip_claims p)) (\<lambda>claims.
     bindE (agree SeveralAddressesForDevice key (dq_ip e) (bp_target_ips p)) (\<lambda>ips.
     Inr (p\<lparr>bp_ip_claims := claims, bp_target_ips := ips\<rparr>)))"

definition charger_key :: "charger \<Rightarrow> target_key" where
  "charger_key g = (''charger'', cg_pk g, [])"

definition chassis_key :: "queue_entry \<Rightarrow> approval_target \<Rightarrow> target_key" where
  "chassis_key e t = (case tg_chassis t of
       None \<Rightarrow> (''chassis_identity'', dq_manufacturer e, tg_api_id t)
     | Some c \<Rightarrow> (''chassis'', ch_pk c, []))"

definition validate_charger_target ::
  "approval_inventory \<Rightarrow> queue_entry \<Rightarrow> charger \<Rightarrow> batch_policy \<Rightarrow> approval_error + batch_policy"
where
  "validate_charger_target inven e g p =
     bindE (single_owner_id (get_list (ai_chassis_owners inven) (dq_ip e))) (\<lambda>chassis_owner.
     bindE (requireE (chassis_owner = None) OwnedByChassis) (\<lambda>_.
     bindE (single_owner_id (get_list (ai_charger_owners inven) (dq_ip e))) (\<lambda>charger_owner.
     bindE (requireE (charger_owner = None \<or> charger_owner = Some (cg_pk g)) OwnedByOtherCharger) (\<lambda>_.
     bindE (agree ConflictingManufacturers (cg_pk g) (dq_manufacturer e) (bp_charger_manufacturers p)) (\<lambda>ms.
     claim_address e (charger_key g) (p\<lparr>bp_charger_manufacturers := ms\<rparr>))))))"

definition agree_serial :: "queue_entry \<Rightarrow> nat \<times> string \<Rightarrow> batch_policy \<Rightarrow> approval_error + batch_policy" where
  "agree_serial e ident p =
     (let serial = strip (dq_serial e) in
      if serial = [] then Inr p
      else bindE (agree ConflictingSerials ident serial (bp_identity_serials p)) (\<lambda>ss.
           bindE (agree SerialOfSeveralIdentities (dq_manufacturer e, serial) ident (bp_serial_identities p)) (\<lambda>si.
           Inr (p\<lparr>bp_identity_serials := ss, bp_serial_identities := si\<rparr>))))"

definition validate_chassis_target ::
  "approval_inventory \<Rightarrow> queue_entry \<Rightarrow> approval_target \<Rightarrow> batch_policy \<Rightarrow> approval_error + batch_policy"
where
  "validate_chassis_target inven e t p =
     (let ident = (dq_manufacturer e, tg_api_id t) in
     bindE (single_owner_id (get_list (ai_charger_owners inven) (dq_ip e))) (\<lambda>charger_owner.
     bindE (requireE (charger_owner = None) OwnedByCharger) (\<lambda>_.
     bindE (single_owner_id (get_list (ai_chassis_owners inven) (dq_ip e))) (\<lambda>chassis_owner.
     bindE (requireE (chassis_owner = None \<or> (tg_chassis t \<noteq> None \<and> chassis_owner = map_option ch_pk (tg_chassis t)))
              OwnedByOtherChassis) (\<lambda>_.
     bindE (case tg_chassis t of None \<Rightarrow> Inr (bp_chassis_identities p)
            | Some c \<Rightarrow> agree ConflictingIdentities (ch_pk c) ident (bp_chassis_identities p)) (\<lambda>ci.
     bindE (claim_address e (chassis_key e t) (p\<lparr>bp_chassis_identities := ci\<rparr>)) (\<lambda>p1.
     bindE (agree ConflictingRoles ident (lower (dq_device_type e)) (bp_identity_roles p1)) (\<lambda>rs.
     agree_serial e ident (p1\<lparr>bp_identity_roles := rs\<rparr>)))))))))"

section \<open>Plan\<close>

record approval_plan =
  ap_chargers :: "(nat \<times> charger) list"
  ap_chassis :: "(nat \<times> approval_target) list"
  ap_permissions :: "string list"

definition target_permission :: "approval_target \<Rightarrow> string" where
  "target_permission t =
     (if tg_chassis t = None then ''micboard.add_wirelesschassis'' else ''micboard.change_wirelesschassis'')"

text \<open>One entry of the loop of \<open>build\<close>: the policy and the plan so far.\<close>

definition plan_entry ::
  "(string \<Rightarrow> string) \<Rightarrow> approval_inventory \<Rightarrow> queue_entry \<Rightarrow> batch_policy \<times> approval_plan
     \<Rightarrow> approval_error + batch_policy \<times> approval_plan"
where
  "plan_entry digest inven e st =
     (case st of (p, plan) \<Rightarrow>
     bindE (validate_role e) (\<lambda>_.
     if is_charger_entry e
     then bindE (resolve_charger e inven) (\<lambda>g.
          bindE (validate_charger_target inven e g p) (\<lambda>p'.
          Inr (p', plan\<lparr>ap_chargers := AList.update (dq_pk e) g (ap_chargers plan),
                        ap_permissions := ap_permissions plan @ [''micboard.change_charger'']\<rparr>)))
     else bindE (resolve_chassis digest e inven) (\<lambda>t.
          bindE (validate_chassis_target inven e t p) (\<lambda>p'.
          Inr (p', plan\<lparr>ap_chassis := AList.update (dq_pk e) t (ap_chassis plan),
                        ap_permissions := ap_permissions plan @ [target_permission t]\<rparr>)))))"

definition build_plan ::
  "(string \<Rightarrow> string) \<Rightarrow> queue_entry list \<Rightarrow> inventory \<Rightarrow> approval_error + approval_plan"
where
  "build_plan digest items db =
     bindE (lock_inventory items db) (\<lambda>inven.
     bindE (foldE (plan_entry digest inven) items
             (empty_policy, \<lparr>ap_chargers = [], ap_chassis = [], ap_permissions = [''micboard.change_discoveryqueue'']\<rparr>))
       (\<lambda>(p, plan). Inr plan))"

section \<open>Adoption\<close>

text \<open>\<open>values.update(...)\<close> on the columns to write.\<close>

definition merge_write :: "chassis_write \<Rightarrow> chassis_write \<Rightarrow> chassis_write" where
  "merge_write old new = (fst old @ filter (\<lambda>f. f \<notin> set (fst old)) (fst new), copy_fields (fst new) (snd new) (snd old))"

definition adopted_status :: "approval_target \<Rightarrow> string" where
  "adopted_status t =
     (if map_option ch_status (tg_chassis t) = Some ''discovered'' then ''provisioning'' else ''online'')"

definition chassis_values :: "(json \<Rightarrow> string) \<Rightarrow> queue_entry \<Rightarrow> approval_target \<Rightarrow> approval_error + chassis_write" where
  "chassis_values repr e t =
     bindE (requireE (map_option ch_status (tg_chassis t) \<noteq> Some ''retired'') RetiredChassis) (\<lambda>_.
     let mac = metadata_text repr (dq_metadata e) [''mac_address'', ''macAddress''];
         mask' = metadata_text repr (dq_metadata e) [''subnet_mask'', ''subnetMask''];
         gate = metadata_text repr (dq_metadata e) [''gateway''];
         src = blank_chassis\<lparr>ch_manufacturer := dq_manufacturer e, ch_api_id := tg_api_id t, ch_ip := dq_ip e,
                 ch_role := lower (dq_device_type e), ch_is_online := True, ch_status := adopted_status t,
                 ch_serial := strip (dq_serial e), ch_name := strip (dq_name e), ch_fqdn := strip (dq_fqdn e),
                 ch_model := strip (dq_model e), ch_firmware := strip (dq_firmware e),
                 ch_mac := Some mac, ch_subnet := Some mask', ch_gateway := Some gate\<rparr>;
         optional = (\<lambda>f v. if v \<noteq> [] then [f] else [])
     in Inr ([FManufacturer, FApiId, FIp, FRole, FIsOnline, FStatus]
          @ optional FSerial (strip (dq_serial e)) @ optional FName (strip (dq_name e))
          @ optional FFqdn (strip (dq_fqdn e)) @ optional FModel (strip (dq_model e))
          @ optional FFirmware (strip (dq_firmware e)) @ optional FMac mac
          @ optional FSubnet mask' @ optional FGateway gate, src))"

definition persisting :: "persist_error + 'a \<Rightarrow> approval_error + 'a" where
  "persisting m = (case m of Inl e \<Rightarrow> Inl (Persisting e) | Inr x \<Rightarrow> Inr x)"

definition merged_values ::
  "(json \<Rightarrow> string) \<Rightarrow> (queue_entry \<times> approval_target) list \<Rightarrow> approval_error + chassis_write"
where
  "merged_values repr entries =
     foldE (\<lambda>(e, t) w. bindE (chassis_values repr e t) (\<lambda>v. Inr (merge_write w v))) entries ([], blank_chassis)"

definition adopt_wireless_chassis ::
  "approval_env \<Rightarrow> (queue_entry \<times> approval_target) list \<Rightarrow> inventory
     \<Rightarrow> approval_error + (chassis \<times> bool) \<times> inventory"
where
  "adopt_wireless_chassis env entries db =
     bindE (merged_values (ae_repr env) entries) (\<lambda>w.
     case tg_chassis (snd (hd entries)) of
       None \<Rightarrow> bindE (persisting (create (ae_save env) (ae_tenancy env) (ae_now env) None w db))
                (\<lambda>(c, db'). Inr ((c, True), db'))
     | Some c \<Rightarrow> bindE (persisting (update (ae_save env) (ae_tenancy env) (ae_now env) c w True db))
                (\<lambda>(c', db'). Inr ((c', False), db')))"

text \<open>Setting the columns of one entry on a charger; the same columns are the ones saved.\<close>

definition set_charger_values :: "queue_entry \<Rightarrow> charger \<Rightarrow> charger" where
  "set_charger_values e g =
     (let keep = (\<lambda>v old. if strip v \<noteq> [] then strip v else old) in
      g\<lparr>cg_manufacturer := Some (dq_manufacturer e), cg_ip := Some (dq_ip e), cg_status := ''online'',
        cg_active := True, cg_name := keep (dq_name e) (cg_name g), cg_fqdn := keep (dq_fqdn e) (cg_fqdn g),
        cg_model := keep (dq_model e) (cg_model g), cg_firmware := keep (dq_firmware e) (cg_firmware g)\<rparr>)"

definition charger_row :: "approval_env \<Rightarrow> queue_entry list \<Rightarrow> charger \<Rightarrow> charger" where
  "charger_row env items prev =
     (let r = fold set_charger_values items prev
      in r\<lparr>cg_ip := map_option (ip_key' (ae_save env)) (cg_ip r), cg_updated := ae_now env\<rparr>)"

definition adopt_charger ::
  "approval_env \<Rightarrow> queue_entry list \<Rightarrow> charger \<Rightarrow> inventory \<Rightarrow> approval_error + charger \<times> inventory"
where
  "adopt_charger env items g0 db =
     (let g = fold set_charger_values items g0 in
      bindE (persisting (chassis_result (validate_charger_ip g db))) (\<lambda>_.
      case qs_get (\<lambda>r. cg_pk r = cg_pk g) (iv_chargers db) of
        Inl _ \<Rightarrow> Inl (Persisting (Chassis ChassisMissing))
      | Inr prev \<Rightarrow>
          (let row = charger_row env items prev in
           if list_ex (\<lambda>r. cg_pk r \<noteq> cg_pk row \<and> cg_ip row \<noteq> None \<and> cg_ip r = cg_ip row) (iv_chargers db)
           then Inl (Persisting (Chassis IntegrityError))
           else Inr (g\<lparr>cg_updated := ae_now env\<rparr>, db\<lparr>iv_chargers := put_row cg_pk row (iv_chargers db)\<rparr>))))"

section \<open>Persisting the plan\<close>

type_synonym charger_groups = "(nat \<times> queue_entry list) list"
type_synonym chassis_groups = "(target_key \<times> (queue_entry \<times> approval_target) list) list"

definition group_entry ::
  "approval_plan \<Rightarrow> queue_entry \<Rightarrow> charger_groups \<times> chassis_groups
     \<Rightarrow> approval_error + charger_groups \<times> chassis_groups"
where
  "group_entry plan e gs =
     (case gs of (cgs, chs) \<Rightarrow>
     if is_charger_entry e
     then bindE (lookupE (ap_chargers plan) (dq_pk e)) (\<lambda>g. Inr (dict_push (cg_pk g) e cgs, chs))
     else bindE (lookupE (ap_chassis plan) (dq_pk e)) (\<lambda>t. Inr (cgs, dict_push (chassis_key e t) (e, t) chs)))"

definition adopt_charger_group ::
  "approval_env \<Rightarrow> approval_plan \<Rightarrow> nat \<times> queue_entry list \<Rightarrow> (nat \<times> charger) list \<times> inventory
     \<Rightarrow> approval_error + (nat \<times> charger) list \<times> inventory"
where
  "adopt_charger_group env plan grp st =
     (case st of (approved, db) \<Rightarrow>
     bindE (lookupE (ap_chargers plan) (dq_pk (hd (snd grp)))) (\<lambda>g0.
     bindE (adopt_charger env (snd grp) g0 db) (\<lambda>(g, db').
     Inr (map (\<lambda>e. (dq_pk e, g)) (snd grp) @ approved, db'))))"

record persisted_targets =
  pt_chassis :: "(nat \<times> chassis) list"
  pt_created :: nat
  pt_updated :: nat

definition adopt_chassis_group ::
  "approval_env \<Rightarrow> target_key \<times> (queue_entry \<times> approval_target) list \<Rightarrow> persisted_targets \<times> inventory
     \<Rightarrow> approval_error + persisted_targets \<times> inventory"
where
  "adopt_chassis_group env grp st =
     (case st of (pt, db) \<Rightarrow>
     bindE (adopt_wireless_chassis env (snd grp) db) (\<lambda>((c, created), db').
     Inr (pt\<lparr>pt_chassis := map (\<lambda>(e, t). (dq_pk e, c)) (snd grp) @ pt_chassis pt,
             pt_created := pt_created pt + (if created then 1 else 0),
             pt_updated := pt_updated pt + (if created then 0 else 1)\<rparr>, db')))"

definition persist_targets ::
  "approval_env \<Rightarrow> queue_entry list \<Rightarrow> approval_plan \<Rightarrow> inventory
     \<Rightarrow> approval_error + ((nat \<times> charger) list \<times> persisted_targets) \<times> inventory"
where
  "persist_targets env items plan db =
     bindE (foldE (group_entry plan) items ([], [])) (\<lambda>(cgs, chs).
     bindE (foldE (adopt_charger_group env plan) cgs ([], db)) (\<lambda>(chargers, db1).
     bindE (foldE (adopt_chassis_group env) chs (\<lparr>pt_chassis = [], pt_created = 0, pt_updated = length cgs\<rparr>, db1))
       (\<lambda>(pt, db2). Inr ((chargers, pt), db2))))"

definition review_entry ::
  "time \<Rightarrow> nat \<Rightarrow> (nat \<times> charger) list \<Rightarrow> persisted_targets \<Rightarrow> queue_entry \<Rightarrow> approval_error + queue_entry"
where
  "review_entry now reviewer chargers pt e =
     bindE (if is_charger_entry e
            then bindE (lookupE chargers (dq_pk e)) (\<lambda>g. Inr (e\<lparr>dq_existing_charger := Some (cg_pk g)\<rparr>))
            else bindE (lookupE (pt_chassis pt) (dq_pk e)) (\<lambda>c. Inr (e\<lparr>dq_existing_device := Some (ch_pk c)\<rparr>)))
       (\<lambda>e'. Inr (e'\<lparr>dq_status := ''imported'', dq_reviewed_at := Some now, dq_reviewed_by := Some reviewer\<rparr>))"

text \<open>\<open>approved.update(...)\<close> above puts the later entries in front, where \<open>map_of\<close> looks first;
  \<open>bulk_update\<close> writes the five named columns of the row with the entry's key.\<close>

definition write_review :: "queue_entry \<Rightarrow> queue_entry list \<Rightarrow> queue_entry list" where
  "write_review e rows = map (\<lambda>r. if dq_pk r = dq_pk e
     then r\<lparr>dq_existing_charger := dq_existing_charger e, dq_existing_device := dq_existing_device e,
            dq_status := dq_status e, dq_reviewed_at := dq_reviewed_at e, dq_reviewed_by := dq_reviewed_by e\<rparr>
     else r) rows"

definition mark_imported ::
  "time \<Rightarrow> nat \<Rightarrow> (nat \<times> charger) list \<Rightarrow> persisted_targets \<Rightarrow> queue_entry list \<Rightarrow> queue_entry list
     \<Rightarrow> approval_error + queue_entry list"
where
  "mark_imported now reviewer chargers pt items queue =
     foldE (\<lambda>e q. bindE (review_entry now reviewer chargers pt e) (\<lambda>e'. Inr (write_review e' q))) items queue"

section \<open>Approval\<close>

text \<open>SQL \<open>TRIM\<close> removes blanks only.\<close>

definition sql_trim :: "string \<Rightarrow> string" where
  "sql_trim s = rev (dropWhile (\<lambda>c. c = CHR '' '') (rev (dropWhile (\<lambda>c. c = CHR '' '') s)))"

definition pending_selection :: "nat list \<Rightarrow> queue_entry list \<Rightarrow> queue_entry list" where
  "pending_selection selected queue =
     take (max_approval_batch + 1)
       (sort_key dq_pk (filter (\<lambda>e. dq_pk e \<in> set selected \<and> dq_status e = ''pending'') queue))"

definition preflight_permission :: "chassis list \<Rightarrow> queue_entry \<Rightarrow> string" where
  "preflight_permission chs e =
     (let api_id = sql_trim (dq_api_id e); serial = sql_trim (dq_serial e);
          exists_with = (\<lambda>f v. list_ex (\<lambda>c. ch_manufacturer c = dq_manufacturer e \<and> f c = v) chs)
      in if is_charger_entry e then ''micboard.change_charger''
         else if dq_existing_device e \<noteq> None \<or> (api_id \<noteq> [] \<and> exists_with ch_api_id api_id)
                 \<or> (serial \<noteq> [] \<and> exists_with ch_serial serial)
         then ''micboard.change_wirelesschassis'' else ''micboard.add_wirelesschassis'')"

definition preflight_target_permissions ::
  "(string \<Rightarrow> bool) \<Rightarrow> nat list \<Rightarrow> queue_entry list \<Rightarrow> chassis list \<Rightarrow> approval_error + unit"
where
  "preflight_target_permissions has_perm selected queue chs =
     requireE (list_all has_perm (map (preflight_permission chs) (pending_selection selected queue))) PermissionDenied"

definition lock_items :: "nat list \<Rightarrow> queue_entry list \<Rightarrow> approval_error + queue_entry list" where
  "lock_items selected queue =
     (let requested = pending_selection selected queue;
          ips = map dq_ip requested;
          locked = take (max_approval_batch + 1)
            (sort_key dq_pk (filter (\<lambda>e. dq_status e = ''pending'' \<and> dq_ip e \<in> set ips) queue));
          chosen = filter (\<lambda>pk. pk \<in> set (map dq_pk requested)) (map dq_pk locked)
      in bindE (requireE (length requested \<le> max_approval_batch) BatchTooLarge) (\<lambda>_.
         if requested = [] then Inr []
         else bindE (requireE (length locked \<le> max_approval_batch) ConflictScopeTooLarge) (\<lambda>_.
           Inr (sort_key dq_pk (filter (\<lambda>e. dq_pk e \<in> set chosen \<and> dq_status e = ''pending'') queue)))))"

definition addressing :: "chassis_error + 'a \<Rightarrow> approval_error + 'a" where
  "addressing m = (case m of Inl e \<Rightarrow> Inl (InvalidAddress e) | Inr x \<Rightarrow> Inr x)"

record approval_result =
  ar_imported :: nat
  ar_created :: nat
  ar_updated :: nat

definition approve ::
  "approval_env \<Rightarrow> (string \<Rightarrow> bool) \<Rightarrow> nat \<Rightarrow> nat list \<Rightarrow> queue_entry list \<Rightarrow> inventory
     \<Rightarrow> approval_error + approval_result \<times> queue_entry list \<times> inventory"
where
  "approve env has_perm reviewer selected queue db =
     bindE (requireE (has_perm ''micboard.change_discoveryqueue'') PermissionDenied) (\<lambda>_.
     bindE (preflight_target_permissions has_perm selected queue (iv_chassis db)) (\<lambda>_.
     bindE (lock_items selected queue) (\<lambda>items.
     bindE (addressing (lock_addresses (map (\<lambda>e. Some (dq_ip e)) items))) (\<lambda>_.
     bindE (build_plan (ae_digest env) items db) (\<lambda>plan.
     bindE (requireE (list_all has_perm (ap_permissions plan)) PermissionDenied) (\<lambda>_.
     bindE (persist_targets env items plan db) (\<lambda>((chargers, pt), db').
     bindE (mark_imported (ae_now env) reviewer chargers pt items queue) (\<lambda>queue'.
     Inr (\<lparr>ar_imported = length items, ar_created = pt_created pt, ar_updated = pt_updated pt\<rparr>, queue', db')))))))))"

section \<open>The batch policy: one address, one target\<close>

definition plan_key :: "approval_plan \<Rightarrow> queue_entry \<Rightarrow> target_key option" where
  "plan_key plan e =
     (if is_charger_entry e then map_option charger_key (map_of (ap_chargers plan) (dq_pk e))
      else map_option (chassis_key e) (map_of (ap_chassis plan) (dq_pk e)))"

lemma agree_entry:
  assumes "agree err k v d = Inr d'"
  shows "map_of d' k = Some v" "map_of d \<subseteq>\<^sub>m map_of d'"
  using assms by (auto simp: agree_def map_le_def map_add_def split: option.splits if_splits)

lemma claim_address_entry:
  assumes "claim_address e key p = Inr p'"
  shows "map_of (bp_ip_claims p') (dq_ip e) = Some key" "map_of (bp_target_ips p') key = Some (dq_ip e)"
    "map_of (bp_ip_claims p) \<subseteq>\<^sub>m map_of (bp_ip_claims p')" "map_of (bp_target_ips p) \<subseteq>\<^sub>m map_of (bp_target_ips p')"
    "bp_charger_manufacturers p' = bp_charger_manufacturers p"
  using assms by (auto simp: claim_address_def result_simps dest: agree_entry)

lemma agree_serial_frame:
  assumes "agree_serial e ident p = Inr p'"
  shows "bp_ip_claims p' = bp_ip_claims p" "bp_target_ips p' = bp_target_ips p"
    "bp_charger_manufacturers p' = bp_charger_manufacturers p"
  using assms by (auto simp: agree_serial_def result_simps Let_def split: if_splits)

text \<open>What the policy has admitted for the address of an entry: its claim, and the stored owners.\<close>

definition admits :: "approval_inventory \<Rightarrow> queue_entry \<Rightarrow> target_key \<Rightarrow> batch_policy \<Rightarrow> bool" where
  "admits inven e key p \<longleftrightarrow> map_of (bp_ip_claims p) (dq_ip e) = Some key \<and> map_of (bp_target_ips p) key = Some (dq_ip e)
     \<and> set (get_list (ai_chassis_owners inven) (dq_ip e)) \<subseteq> {i. key = (''chassis'', i, [])}
     \<and> set (get_list (ai_charger_owners inven) (dq_ip e)) \<subseteq> {i. key = (''charger'', i, [])}"

definition keeps_claims :: "batch_policy \<Rightarrow> batch_policy \<Rightarrow> bool" where
  "keeps_claims p p' \<longleftrightarrow> map_of (bp_ip_claims p) \<subseteq>\<^sub>m map_of (bp_ip_claims p')
     \<and> map_of (bp_charger_manufacturers p) \<subseteq>\<^sub>m map_of (bp_charger_manufacturers p')
     \<and> map_of (bp_target_ips p) \<subseteq>\<^sub>m map_of (bp_target_ips p')"

lemma map_leD: "m \<subseteq>\<^sub>m m' \<Longrightarrow> m k = Some v \<Longrightarrow> m' k = Some v"
  by (metis domI map_le_def)

lemma admits_kept: "admits inven e key p \<Longrightarrow> keeps_claims p p' \<Longrightarrow> admits inven e key p'"
  unfolding admits_def keeps_claims_def by (blast dest: map_leD)

lemma single_owner_entry: "single_owner_id ids = Inr i \<Longrightarrow> set ids = set_option i"
  by (cases ids) (auto simp: single_owner_id_def result_simps)

lemma validate_charger_target_admits:
  assumes "validate_charger_target inven e g p = Inr p'"
  shows "admits inven e (charger_key g) p' \<and> keeps_claims p p'
    \<and> map_of (bp_charger_manufacturers p') (cg_pk g) = Some (dq_manufacturer e)"
proof -
  from assms obtain co ms where
    m: "agree ConflictingManufacturers (cg_pk g) (dq_manufacturer e) (bp_charger_manufacturers p) = Inr ms" and
    s: "single_owner_id (get_list (ai_chassis_owners inven) (dq_ip e)) = Inr None"
      "single_owner_id (get_list (ai_charger_owners inven) (dq_ip e)) = Inr co" "co = None \<or> co = Some (cg_pk g)"
    and c: "claim_address e (charger_key g) (p\<lparr>bp_charger_manufacturers := ms\<rparr>) = Inr p'"
    by (auto simp: validate_charger_target_def result_simps)
  from claim_address_entry[OF c] agree_entry[OF m] s(3) single_owner_entry[OF s(1)] single_owner_entry[OF s(2)]
  show ?thesis by (auto simp: admits_def keeps_claims_def charger_key_def)
qed

lemma validate_chassis_target_admits:
  assumes "validate_chassis_target inven e t p = Inr p'"
  shows "admits inven e (chassis_key e t) p' \<and> keeps_claims p p'"
proof -
  let ?ident = "(dq_manufacturer e, tg_api_id t)"
  from assms obtain co ci p1 rs where
    s: "single_owner_id (get_list (ai_charger_owners inven) (dq_ip e)) = Inr None"
      "single_owner_id (get_list (ai_chassis_owners inven) (dq_ip e)) = Inr co"
      "co = None \<or> (tg_chassis t \<noteq> None \<and> co = map_option ch_pk (tg_chassis t))"
    and c: "claim_address e (chassis_key e t) (p\<lparr>bp_chassis_identities := ci\<rparr>) = Inr p1"
    and a: "agree_serial e ?ident (p1\<lparr>bp_identity_roles := rs\<rparr>) = Inr p'"
    by (auto simp: validate_chassis_target_def result_simps Let_def)
  from claim_address_entry[OF c] agree_serial_frame[OF a] s(3) single_owner_entry[OF s(1)] single_owner_entry[OF s(2)]
  show ?thesis by (auto simp: admits_def keeps_claims_def chassis_key_def)
qed

text \<open>What the loop has established for an entry it has processed.\<close>

definition planned :: "(string \<Rightarrow> string) \<Rightarrow> approval_inventory \<Rightarrow> queue_entry \<Rightarrow> batch_policy \<times> approval_plan \<Rightarrow> bool" where
  "planned digest inven e st \<longleftrightarrow> (case st of (p, plan) \<Rightarrow>
     validate_role e = Inr () \<and>
     (if is_charger_entry e
      then \<exists>g. map_of (ap_chargers plan) (dq_pk e) = Some g \<and> resolve_charger e inven = Inr g
             \<and> admits inven e (charger_key g) p
             \<and> map_of (bp_charger_manufacturers p) (cg_pk g) = Some (dq_manufacturer e)
             \<and> ''micboard.change_charger'' \<in> set (ap_permissions plan)
      else \<exists>t. map_of (ap_chassis plan) (dq_pk e) = Some t \<and> resolve_chassis digest e inven = Inr t
             \<and> admits inven e (chassis_key e t) p
             \<and> target_permission t \<in> set (ap_permissions plan)))"

lemma plan_entry_planned:
  assumes "plan_entry digest inven e (p, plan) = Inr (p', plan')"
  shows "planned digest inven e (p', plan') \<and> keeps_claims p p'
    \<and> set (ap_permissions plan) \<subseteq> set (ap_permissions plan')
    \<and> (\<forall>k. k \<noteq> dq_pk e \<longrightarrow> map_of (ap_chargers plan') k = map_of (ap_chargers plan) k
          \<and> map_of (ap_chassis plan') k = map_of (ap_chassis plan) k)"
  using assms
  by (auto simp: plan_entry_def planned_def result_simps update_conv' split: if_splits
      dest: validate_charger_target_admits validate_chassis_target_admits)

lemma planned_kept:
  assumes "planned digest inven e (p, plan)" "keeps_claims p p'"
    "set (ap_permissions plan) \<subseteq> set (ap_permissions plan')"
    "map_of (ap_chargers plan') (dq_pk e) = map_of (ap_chargers plan) (dq_pk e)"
    "map_of (ap_chassis plan') (dq_pk e) = map_of (ap_chassis plan) (dq_pk e)"
  shows "planned digest inven e (p', plan')"
  using assms by (auto simp: planned_def keeps_claims_def[of p p'] intro: admits_kept[OF _ assms(2)] dest: map_leD split: if_splits)

lemma build_plan_planned:
  assumes "build_plan digest items db = Inr plan" "distinct (map dq_pk items)"
  obtains inven p where "lock_inventory items db = Inr inven" "\<forall>e \<in> set items. planned digest inven e (p, plan)"
    "''micboard.change_discoveryqueue'' \<in> set (ap_permissions plan)"
proof -
  let ?s0 = "(empty_policy, \<lparr>ap_chargers = [], ap_chassis = [], ap_permissions = [''micboard.change_discoveryqueue'']\<rparr>)"
  from assms(1) obtain inven p where l: "lock_inventory items db = Inr inven"
    and f: "foldE (plan_entry digest inven) items ?s0 = Inr (p, plan)"
    by (auto simp: build_plan_def result_simps)
  let ?I = "\<lambda>ys st. (\<forall>e \<in> set ys. planned digest inven e st) \<and> ''micboard.change_discoveryqueue'' \<in> set (ap_permissions (snd st))"
  have "?I items (p, plan)"
  proof (rule foldE_indexed_invariant[OF f])
    fix ys x zs and s s' :: "batch_policy \<times> approval_plan"
    assume split: "items = ys @ x # zs" and I: "?I ys s" and step: "plan_entry digest inven x s = Inr s'"
    obtain q pl q' pl' where s: "s = (q, pl)" "s' = (q', pl')" by fastforce
    note E = plan_entry_planned[OF step[unfolded s]]
    have "dq_pk e \<noteq> dq_pk x" if "e \<in> set ys" for e using that assms(2) unfolding split by (auto simp: image_iff)
    with I E planned_kept[of digest inven _ q pl q' pl'] show "?I (ys @ [x]) s'" unfolding s by auto
  qed simp
  with l that show thesis by auto
qed

section \<open>The locked inventory holds every owner\<close>

lemma get_list_group_by: "get_list (group_by f xs) k = filter (\<lambda>x. f x = k) xs"
  by (simp add: get_list_def map_of_group_by split: list.splits)

lemma map_of_map_values: "map_of (map (\<lambda>(k, v). (k, f v)) xs) k = map_option f (map_of xs k)"
  by (induction xs) auto

lemma owner_ids_of_ip: "get_list (owner_ids_by_ip ip pk rows) k = map pk (filter (\<lambda>r. ip r = k) rows)"
  by (simp add: owner_ids_by_ip_def get_list_def map_of_map_values map_of_group_by split: list.splits)

lemma lock_inventoryE:
  assumes "lock_inventory items db = Inr inven"
  obtains chs cgs where "inven = inventory_indexes (map dq_ip items) chs cgs"
    "set chs = {c \<in> set (iv_chassis db). chassis_filter items c}"
    "set cgs = {g \<in> set (iv_chargers db). charger_filter items g}"
proof -
  let ?A = "sort_key ch_pk (filter (chassis_filter items) (iv_chassis db))"
  let ?B = "sort_key cg_pk (filter (charger_filter items) (iv_chargers db))"
  from assms have l: "length (take (max_approval_locks + 1) ?A) \<le> max_approval_locks"
    "length (take (max_approval_locks + 1) ?B) \<le> max_approval_locks"
    and i: "inven = inventory_indexes (map dq_ip items) (take (max_approval_locks + 1) ?A) (take (max_approval_locks + 1) ?B)"
    unfolding lock_inventory_def Let_def by (auto simp: result_simps)
  from l have "take (max_approval_locks + 1) ?A = ?A" "take (max_approval_locks + 1) ?B = ?B"
    by (auto simp del: length_sort)
  with i that[of ?A ?B] show thesis by simp
qed

lemma locked_owners:
  assumes "lock_inventory items db = Inr inven" "e \<in> set items"
  shows "set (get_list (ai_chassis_owners inven) (dq_ip e)) = ch_pk ` {c \<in> set (iv_chassis db). ch_ip c = dq_ip e}"
    and "cg_pk ` {g \<in> set (iv_chargers db). cg_ip g = Some (dq_ip e)}
          \<subseteq> set (get_list (ai_charger_owners inven) (dq_ip e))"
proof -
  from assms(1) obtain chs cgs where i: "inven = inventory_indexes (map dq_ip items) chs cgs"
    and rows: "set chs = {c \<in> set (iv_chassis db). chassis_filter items c}"
      "set cgs = {g \<in> set (iv_chargers db). charger_filter items g}" by (rule lock_inventoryE)
  have a: "dq_ip e \<in> set (map dq_ip items)" using assms(2) by simp
  have "set (get_list (ai_chassis_owners inven) (dq_ip e)) = ch_pk ` {c \<in> set chs. ch_ip c = dq_ip e}"
    using a by (auto simp: i inventory_indexes_def owner_ids_of_ip)
  moreover have "{c \<in> set chs. ch_ip c = dq_ip e} = {c \<in> set (iv_chassis db). ch_ip c = dq_ip e}"
    using a by (auto simp: rows chassis_filter_def)
  ultimately show "set (get_list (ai_chassis_owners inven) (dq_ip e)) = ch_pk ` {c \<in> set (iv_chassis db). ch_ip c = dq_ip e}"
    by simp
  have "cg_pk ` {g \<in> set cgs. cg_ip g = Some (dq_ip e)} \<subseteq> set (get_list (ai_charger_owners inven) (dq_ip e))"
    using a by (auto simp: i inventory_indexes_def owner_ids_of_ip charger_ip_text_def)
  moreover have "{g \<in> set cgs. cg_ip g = Some (dq_ip e)} = {g \<in> set (iv_chargers db). cg_ip g = Some (dq_ip e)}"
    using a by (auto simp: rows charger_filter_def)
  ultimately show "cg_pk ` {g \<in> set (iv_chargers db). cg_ip g = Some (dq_ip e)}
      \<subseteq> set (get_list (ai_charger_owners inven) (dq_ip e))" by simp
qed

lemma locked_rows:
  assumes "lock_inventory items db = Inr inven"
  shows "set (ai_chassis inven) \<subseteq> set (iv_chassis db)" "set (ai_chargers inven) \<subseteq> set (iv_chargers db)"
  using assms by (auto elim!: lock_inventoryE simp: inventory_indexes_def)

lemma resolved_charger:
  assumes "resolve_charger e inven = Inr g" "lock_inventory items db = Inr inven"
  shows "g \<in> set (iv_chargers db) \<and> cg_manufacturer g \<in> {None, Some (dq_manufacturer e)}"
proof (cases "dq_existing_charger e")
  case (Some pk)
  with assms(1) have "locked_charger inven pk = Some g" "cg_manufacturer g \<in> {None, Some (dq_manufacturer e)}"
    by (auto simp: resolve_charger_def resolve_linked_charger_def result_simps Let_def split: option.splits)
  with locked_rows(2)[OF assms(2)] show ?thesis
    by (auto simp: locked_charger_def dest!: map_of_SomeD)
next
  case None
  with assms(1) have "get_list (ai_chargers_by_serial inven) (Some (dq_manufacturer e), strip (dq_serial e)) = [g]"
    by (auto simp: resolve_charger_def Let_def split: if_splits list.splits)
  moreover from assms(2) obtain chs cgs where i: "inven = inventory_indexes (map dq_ip items) chs cgs"
    "set cgs = {g \<in> set (iv_chargers db). charger_filter items g}" by (rule lock_inventoryE)
  ultimately have "g \<in> set (filter (\<lambda>x. (cg_manufacturer x, strip (cg_serial x)) = (Some (dq_manufacturer e), strip (dq_serial e)))
      (filter (\<lambda>g. strip (cg_serial g) \<noteq> []) cgs))"
    by (simp add: inventory_indexes_def get_list_group_by)
  with i show ?thesis by auto
qed

lemma fold_update_values:
  "set (map snd (fold (\<lambda>c. AList.update (f c) c) cs acc)) \<subseteq> set cs \<union> set (map snd acc)"
proof (induction cs arbitrary: acc)
  case (Cons c cs)
  have "set (map snd (AList.update (f c) c acc)) \<subseteq> insert c (set (map snd acc))"
    by (induction acc) auto
  with Cons.IH[of "AList.update (f c) c acc"] show ?case by auto
qed simp

lemma indexed_matches_rows:
  assumes "lock_inventory items db = Inr inven"
  shows "set (indexed_chassis_matches e inven api_id serial) \<subseteq> set (iv_chassis db)"
proof -
  from assms obtain chs cgs where i: "inven = inventory_indexes (map dq_ip items) chs cgs"
    "set chs = {c \<in> set (iv_chassis db). chassis_filter items c}" by (rule lock_inventoryE)
  let ?cands = "(case dq_existing_device e of None \<Rightarrow> []
            | Some pk \<Rightarrow> (case locked_chassis inven pk of None \<Rightarrow> [] | Some c \<Rightarrow> [c]))
     @ (if api_id \<noteq> [] then get_list (ai_by_api inven) (dq_manufacturer e, api_id) else [])
     @ (if serial \<noteq> [] then get_list (ai_by_serial inven) (dq_manufacturer e, serial) else [])"
  have "set ?cands \<subseteq> set (iv_chassis db)"
    using i(2)
    by (auto simp: i(1) inventory_indexes_def get_list_group_by locked_chassis_def
        split: option.splits if_splits dest!: map_of_SomeD[OF sym])
  with fold_update_values[of ch_pk ?cands "[]"]
  have "set (map snd (fold (\<lambda>c. AList.update (ch_pk c) c) ?cands [])) \<subseteq> set (iv_chassis db)"
    unfolding list.map list.set by blast
  then show ?thesis unfolding indexed_chassis_matches_def Let_def .
qed

lemma resolved_chassis:
  assumes "resolve_chassis digest e inven = Inr t" "lock_inventory items db = Inr inven"
  shows "tg_api_id t \<noteq> [] \<and> (\<forall>c. tg_chassis t = Some c \<longrightarrow>
      c \<in> set (iv_chassis db) \<and> ch_manufacturer c = dq_manufacturer e)"
proof -
  let ?m = "indexed_chassis_matches e inven (strip (dq_api_id e)) (strip (dq_serial e))"
  let ?found = "case ?m of [] \<Rightarrow> None | c # _ \<Rightarrow> Some c"
  from assms(1) have t: "tg_chassis t = ?found" "tg_api_id t \<noteq> []"
    and v: "(case ?found of None \<Rightarrow> Inr () | Some c \<Rightarrow> validate_matched_chassis e c (strip (dq_api_id e)) (strip (dq_serial e))) = Inr ()"
    by (auto simp: resolve_chassis_def Let_def result_simps)
  show ?thesis
  proof (intro conjI allI impI t(2))
    fix c assume c: "tg_chassis t = Some c"
    with t obtain cs where "?m = c # cs" by (auto split: list.splits)
    then have "c \<in> set ?m" by simp
    with indexed_matches_rows[OF assms(2)] show "c \<in> set (iv_chassis db)" by blast
    from v c t have "validate_matched_chassis e c (strip (dq_api_id e)) (strip (dq_serial e)) = Inr ()" by simp
    then show "ch_manufacturer c = dq_manufacturer e"
      by (auto simp: validate_matched_chassis_def Let_def result_simps)
  qed
qed

section \<open>What adopting one target writes\<close>

lemma persisting_Inr [result_simps]: "persisting m = Inr x \<longleftrightarrow> m = Inr x"
  by (simp add: persisting_def split: sum.splits)

lemma chassis_result_Inr [result_simps]: "chassis_result m = Inr x \<longleftrightarrow> m = Inr x"
  by (simp add: chassis_result_def split: sum.splits)

lemma optional_field: "x \<in> set (if b then [f] else []) \<longleftrightarrow> b \<and> x = f"
  by (cases b) simp_all

lemma adopted_status_cases: "adopted_status t \<in> {''provisioning'', ''online''}"
  by (simp add: adopted_status_def)

lemma chassis_values_fields:
  assumes "chassis_values repr e t = Inr v"
  shows "{FManufacturer, FApiId, FIp, FStatus} \<subseteq> set (fst v)" "FLocation \<notin> set (fst v)"
    "ch_manufacturer (snd v) = dq_manufacturer e" "ch_ip (snd v) = dq_ip e" "ch_api_id (snd v) = tg_api_id t"
    "ch_status (snd v) \<in> {''provisioning'', ''online''}"
proof -
  from assms obtain mac mask' gate where v: "snd v = blank_chassis\<lparr>ch_manufacturer := dq_manufacturer e,
         ch_api_id := tg_api_id t, ch_ip := dq_ip e, ch_role := lower (dq_device_type e), ch_is_online := True,
         ch_status := adopted_status t, ch_serial := strip (dq_serial e), ch_name := strip (dq_name e),
         ch_fqdn := strip (dq_fqdn e), ch_model := strip (dq_model e), ch_firmware := strip (dq_firmware e),
         ch_mac := Some mac, ch_subnet := Some mask', ch_gateway := Some gate\<rparr>"
    unfolding chassis_values_def Let_def bindE_Inr_iff requireE_Inr_iff by fastforce
  then show "ch_manufacturer (snd v) = dq_manufacturer e" "ch_ip (snd v) = dq_ip e" "ch_api_id (snd v) = tg_api_id t"
    "ch_status (snd v) \<in> {''provisioning'', ''online''}"
    using adopted_status_cases[of t] by simp_all
  show "{FManufacturer, FApiId, FIp, FStatus} \<subseteq> set (fst v)" "FLocation \<notin> set (fst v)"
    using assms unfolding chassis_values_def Let_def bindE_Inr_iff requireE_Inr_iff
    by (auto simp: optional_field simp del: metadata_text.simps split del: if_split)
qed

definition same_values :: "nat \<Rightarrow> string \<Rightarrow> chassis_write \<Rightarrow> bool" where
  "same_values m a w \<longleftrightarrow> {FManufacturer, FApiId, FIp, FStatus} \<subseteq> set (fst w) \<and> FLocation \<notin> set (fst w)
     \<and> ch_manufacturer (snd w) = m \<and> ch_ip (snd w) = a \<and> ch_status (snd w) \<in> {''provisioning'', ''online''}"

lemma merged_values_same:
  assumes "merged_values repr entries = Inr w" "entries \<noteq> []"
    "\<forall>(e, t) \<in> set entries. dq_manufacturer e = m \<and> dq_ip e = a"
  shows "same_values m a w"
proof -
  let ?f = "\<lambda>(e, t) w. bindE (chassis_values repr e t) (\<lambda>v. Inr (merge_write w v))"
  let ?I = "\<lambda>ys w. FLocation \<notin> set (fst w) \<and> (ys \<noteq> [] \<longrightarrow> same_values m a w)"
  have "?I entries w"
  proof (rule foldE_indexed_invariant[of ?f entries "([], blank_chassis)" w ?I])
    show "foldE ?f entries ([], blank_chassis) = Inr w" using assms(1) by (simp add: merged_values_def)
    fix ys x zs and s s' :: chassis_write
    assume split: "entries = ys @ x # zs" and I: "?I ys s" and step: "?f x s = Inr s'"
    obtain e t where x: "x = (e, t)" by fastforce
    with step obtain v where v: "chassis_values repr e t = Inr v" "s' = merge_write s v" by (auto simp: result_simps)
    have "dq_manufacturer e = m \<and> dq_ip e = a" using assms(3) split x by auto
    with I chassis_values_fields[OF v(1)] v(2) show "?I (ys @ [x]) s'"
      by (auto simp: same_values_def merge_write_def)
  qed simp
  with assms(2) show ?thesis by blast
qed

lemma save_all_rows:
  assumes "save_chassis env now None c0 db = Inr (c, db')"
  shows "\<exists>row. iv_chassis db' = put_row ch_pk row (iv_chassis db) \<and> ch_pk row = ch_pk c0 \<and> ch_pk c = ch_pk c0
    \<and> ch_pk c0 \<in> ch_pk ` set (iv_chassis db) \<and> ch_manufacturer row = ch_manufacturer c0
    \<and> ch_ip row = ip_key' env (ch_ip c0) \<and> ch_status row = ch_status c0 \<and> iv_chargers db' = iv_chargers db"
proof -
  from assms obtain old derived affected prev where
    pre: "pre_save env now False None c0 db = Inr (old, derived, affected, c)"
    and prev: "qs_get (\<lambda>r. ch_pk r = ch_pk c) (iv_chassis db) = Inr prev"
    and db': "db' = post_save now old affected c (written_row env None derived c prev)
       (db\<lparr>iv_chassis := put_row ch_pk (written_row env None derived c prev) (iv_chassis db)\<rparr>)"
    by (rule save_chassisE)
  from pre obtain c2 where
    l: "prepare_lifecycle_fields now False (iv_chassis db) c0 = Inr (old, derived, c2)"
    and core: "keeps_core c2 c" by (rule pre_saveE)
  note F = prepare_lifecycle_frame[OF l]
  have pk: "ch_pk c = ch_pk c0" using F core by (simp add: keeps_core_def)
  have "prev \<in> set (iv_chassis db)" "ch_pk prev = ch_pk c" using qs_get_row[OF prev] by simp_all
  then have "ch_pk c0 \<in> ch_pk ` set (iv_chassis db)" using pk by (metis imageI)
  with F core pk show ?thesis
    by (intro exI[of _ "written_row env None derived c prev"])
       (simp add: db' written_row_def keeps_core_def)
qed

definition adopted_row :: "approval_env \<Rightarrow> nat \<Rightarrow> string \<Rightarrow> nat \<Rightarrow> chassis \<Rightarrow> bool" where
  "adopted_row env m a pk row \<longleftrightarrow> ch_pk row = pk \<and> ch_manufacturer row = m
     \<and> ch_ip row = ip_key' (ae_save env) a \<and> ch_status row \<in> {''provisioning'', ''online''}"

lemma adopt_new_rows:
  assumes "adopt_wireless_chassis env entries db = Inr ((c, created), db')"
    and "tg_chassis (snd (hd entries)) = None" "entries \<noteq> []"
    and "\<forall>(e, t) \<in> set entries. dq_manufacturer e = m \<and> dq_ip e = a"
  shows "created \<and> (\<exists>row. iv_chassis db' = iv_chassis db @ [row] \<and> adopted_row env m a (ch_pk c) row)
    \<and> ch_pk c \<notin> ch_pk ` set (iv_chassis db) \<and> iv_chargers db' = iv_chargers db"
proof -
  from assms(1,2) obtain w where w: "merged_values (ae_repr env) entries = Inr w"
    and cr: "create (ae_save env) (ae_tenancy env) (ae_now env) None w db = Inr (c, db')" and "created"
    by (auto simp: adopt_wireless_chassis_def result_simps)
  have S: "same_values m a w" by (rule merged_values_same[OF w assms(3,4)])
  let ?c0 = "(copy_fields (filter (\<lambda>f. f \<noteq> FManufacturer) (fst w)) (snd w) blank_chassis)\<lparr>ch_manufacturer := m\<rparr>"
  from cr S have s: "create_chassis (ae_save env) (ae_now env) ?c0 db = Inr (c, db')"
    by (auto simp: create_def same_values_def result_simps Let_def split: if_splits)
  from create_chassis_rows[OF s] obtain row where
    row: "iv_chassis db' = iv_chassis db @ [row]" "ch_manufacturer row = m" "ch_status row = ch_status ?c0"
      "ch_ip row = ip_key' (ae_save env) (ch_ip ?c0)" "ch_pk c = ch_pk row"
      "ch_pk row = next_pk ch_pk (iv_chassis db)" "iv_chargers db' = iv_chargers db" by auto
  have "ch_pk c \<notin> ch_pk ` set (iv_chassis db)" unfolding row(5,6) by (rule next_pk_notin)
  with row S \<open>created\<close> show ?thesis by (auto simp: adopted_row_def same_values_def)
qed

lemma adopt_existing_rows:
  assumes "adopt_wireless_chassis env entries db = Inr ((c, created), db')"
    and "tg_chassis (snd (hd entries)) = Some c0" "entries \<noteq> []"
    and "\<forall>(e, t) \<in> set entries. dq_manufacturer e = m \<and> dq_ip e = a"
  shows "\<not> created \<and> (\<exists>row. iv_chassis db' = put_row ch_pk row (iv_chassis db) \<and> adopted_row env m a (ch_pk c0) row)
    \<and> ch_pk c = ch_pk c0 \<and> ch_pk c0 \<in> ch_pk ` set (iv_chassis db) \<and> iv_chargers db' = iv_chargers db"
proof -
  from assms(1,2) obtain w where w: "merged_values (ae_repr env) entries = Inr w"
    and up: "update (ae_save env) (ae_tenancy env) (ae_now env) c0 w True db = Inr (c, db')" and "\<not> created"
    by (auto simp: adopt_wireless_chassis_def result_simps)
  have S: "same_values m a w" by (rule merged_values_same[OF w assms(3,4)])
  from up S have s: "save_chassis (ae_save env) (ae_now env) None (copy_fields (fst w) (snd w) c0) db = Inr (c, db')"
    by (auto simp: update_def same_values_def result_simps Let_def split: if_splits)
  show ?thesis
    using save_all_rows[OF s] S \<open>\<not> created\<close> by (auto simp: adopted_row_def same_values_def)
qed

lemma fold_charger_pk: "cg_pk (fold set_charger_values items g) = cg_pk g"
  by (induction items arbitrary: g) (simp_all add: set_charger_values_def Let_def)

lemma fold_charger_values:
  assumes "items \<noteq> []" "\<forall>e \<in> set items. dq_manufacturer e = m \<and> dq_ip e = a"
  shows "cg_ip (fold set_charger_values items g) = Some a \<and> cg_manufacturer (fold set_charger_values items g) = Some m"
  using assms by (cases items rule: rev_cases) (simp_all add: set_charger_values_def Let_def)

definition adopted_charger_row :: "approval_env \<Rightarrow> nat \<Rightarrow> string \<Rightarrow> nat \<Rightarrow> charger \<Rightarrow> bool" where
  "adopted_charger_row env m a pk row \<longleftrightarrow> cg_pk row = pk \<and> cg_manufacturer row = Some m
     \<and> cg_ip row = Some (ip_key' (ae_save env) a)"

lemma adopt_charger_rows:
  assumes "adopt_charger env items g0 db = Inr (g, db')"
    and "items \<noteq> []" "\<forall>e \<in> set items. dq_manufacturer e = m \<and> dq_ip e = a"
  shows "\<exists>row. iv_chargers db' = put_row cg_pk row (iv_chargers db) \<and> adopted_charger_row env m a (cg_pk g0) row
    \<and> cg_pk g = cg_pk g0 \<and> cg_pk g0 \<in> cg_pk ` set (iv_chargers db) \<and> iv_chassis db' = iv_chassis db
    \<and> (\<forall>r \<in> set (iv_chargers db). cg_pk r \<noteq> cg_pk g0 \<longrightarrow> cg_ip r \<noteq> cg_ip row)
    \<and> validate_charger_ip (fold set_charger_values items g0) db = Inr ()"
proof -
  let ?g = "fold set_charger_values items g0"
  from assms(1) obtain prev where v: "validate_charger_ip ?g db = Inr ()"
    and prev: "qs_get (\<lambda>r. cg_pk r = cg_pk ?g) (iv_chargers db) = Inr prev"
    and u: "\<not> list_ex (\<lambda>r. cg_pk r \<noteq> cg_pk (charger_row env items prev) \<and> cg_ip (charger_row env items prev) \<noteq> None
        \<and> cg_ip r = cg_ip (charger_row env items prev)) (iv_chargers db)"
    and g: "g = ?g\<lparr>cg_updated := ae_now env\<rparr>"
    and db': "db' = db\<lparr>iv_chargers := put_row cg_pk (charger_row env items prev) (iv_chargers db)\<rparr>"
    by (auto simp: adopt_charger_def result_simps Let_def split: sum.splits if_splits)
  have p: "prev \<in> set (iv_chargers db)" "cg_pk prev = cg_pk g0"
    using qs_get_row[OF prev] by (simp_all add: fold_charger_pk)
  then have "cg_pk g0 \<in> cg_pk ` set (iv_chargers db)" by (metis imageI)
  moreover have "adopted_charger_row env m a (cg_pk g0) (charger_row env items prev)"
    using fold_charger_values[OF assms(2,3)] p
    by (simp add: adopted_charger_row_def charger_row_def Let_def fold_charger_pk)
  ultimately show ?thesis
    using u v
    by (intro exI[of _ "charger_row env items prev"])
       (auto simp: db' g fold_charger_pk list_ex_iff adopted_charger_row_def)
qed

section \<open>Groups of a plan\<close>

definition plan_charger :: "approval_plan \<Rightarrow> queue_entry \<Rightarrow> charger" where
  "plan_charger plan e = the (map_of (ap_chargers plan) (dq_pk e))"

definition plan_target :: "approval_plan \<Rightarrow> queue_entry \<Rightarrow> approval_target" where
  "plan_target plan e = the (map_of (ap_chassis plan) (dq_pk e))"

lemma lookupE_Inr [result_simps]: "lookupE d k = Inr v \<longleftrightarrow> map_of d k = Some v"
  by (simp add: lookupE_def split: option.split)

lemma grouped:
  assumes "foldE (group_entry plan) items ([], []) = Inr (cgs, chs)"
  shows "cgs = group_by (\<lambda>e. cg_pk (plan_charger plan e)) (filter is_charger_entry items)
    \<and> chs = group_by (\<lambda>(e, t). chassis_key e t)
         (map (\<lambda>e. (e, plan_target plan e)) (filter (\<lambda>e. \<not> is_charger_entry e) items))"
proof -
  let ?I = "\<lambda>ys st. fst st = group_by (\<lambda>e. cg_pk (plan_charger plan e)) (filter is_charger_entry ys)
    \<and> snd st = group_by (\<lambda>(e, t). chassis_key e t)
         (map (\<lambda>e. (e, plan_target plan e)) (filter (\<lambda>e. \<not> is_charger_entry e) ys))"
  have "?I items (cgs, chs)"
  proof (rule foldE_indexed_invariant[OF assms])
    fix ys x zs and s s' :: "charger_groups \<times> chassis_groups"
    assume "?I ys s" "group_entry plan x s = Inr s'"
    then show "?I (ys @ [x]) s'"
      by (cases s) (auto simp: group_entry_def result_simps plan_charger_def plan_target_def group_by_snoc
          split: if_splits)
  qed (simp add: group_by_def)
  then show ?thesis by simp
qed

definition in_group :: "chassis_groups \<Rightarrow> target_key \<Rightarrow> queue_entry \<Rightarrow> approval_target \<Rightarrow> bool" where
  "in_group gs k e t \<longleftrightarrow> (\<exists>entries. (k, entries) \<in> set gs \<and> (e, t) \<in> set entries)"

lemma in_group_append: "in_group (xs @ ys) k e t \<longleftrightarrow> in_group xs k e t \<or> in_group ys k e t"
  by (auto simp: in_group_def)

lemma in_group_Cons: "in_group ((k', entries) # ys) k e t \<longleftrightarrow> (k = k' \<and> (e, t) \<in> set entries) \<or> in_group ys k e t"
  by (auto simp: in_group_def)

lemma in_group_Nil: "\<not> in_group [] k e t"
  by (simp add: in_group_def)

lemma in_group_key: "in_group gs k e t \<Longrightarrow> k \<in> fst ` set gs"
  by (force simp: in_group_def)

text \<open>The groups a plan forms: distinct keys, one address per group, every entry in one group, and
  existing targets that are rows of the entry's manufacturer.\<close>

definition chassis_groups_ok :: "inventory \<Rightarrow> chassis_groups \<Rightarrow> bool" where
  "chassis_groups_ok db gs \<longleftrightarrow> distinct (map fst gs) \<and> distinct (map ch_pk (iv_chassis db)) \<and> [] \<notin> snd ` set gs
     \<and> (\<forall>k e t. in_group gs k e t \<longrightarrow> chassis_key e t = k)
     \<and> (\<forall>k e t c. in_group gs k e t \<and> tg_chassis t = Some c \<longrightarrow>
          c \<in> set (iv_chassis db) \<and> ch_manufacturer c = dq_manufacturer e)
     \<and> (\<forall>k e t e' t'. in_group gs k e t \<and> in_group gs k e' t' \<longrightarrow> dq_ip e' = dq_ip e)
     \<and> (\<forall>k e t k' e' t'. in_group gs k e t \<and> in_group gs k' e' t' \<and> dq_pk e' = dq_pk e \<longrightarrow> k' = k)"

lemma chassis_groups_okD:
  assumes "chassis_groups_ok db gs"
  shows "distinct (map fst gs)" "distinct (map ch_pk (iv_chassis db))"
    "(k, entries) \<in> set gs \<Longrightarrow> entries \<noteq> []"
    "in_group gs k e t \<Longrightarrow> chassis_key e t = k"
    "in_group gs k e t \<Longrightarrow> tg_chassis t = Some c \<Longrightarrow> c \<in> set (iv_chassis db) \<and> ch_manufacturer c = dq_manufacturer e"
    "in_group gs k e t \<Longrightarrow> in_group gs k e' t' \<Longrightarrow> dq_ip e' = dq_ip e"
    "in_group gs k e t \<Longrightarrow> in_group gs k' e' t' \<Longrightarrow> dq_pk e' = dq_pk e \<Longrightarrow> k' = k"
proof -
  show "distinct (map fst gs)" "distinct (map ch_pk (iv_chassis db))"
    using assms unfolding chassis_groups_ok_def by simp_all
  show "(k, entries) \<in> set gs \<Longrightarrow> entries \<noteq> []"
    using assms unfolding chassis_groups_ok_def by (metis image_eqI snd_conv)
  show "in_group gs k e t \<Longrightarrow> chassis_key e t = k"
    "in_group gs k e t \<Longrightarrow> tg_chassis t = Some c \<Longrightarrow> c \<in> set (iv_chassis db) \<and> ch_manufacturer c = dq_manufacturer e"
    "in_group gs k e t \<Longrightarrow> in_group gs k e' t' \<Longrightarrow> dq_ip e' = dq_ip e"
    "in_group gs k e t \<Longrightarrow> in_group gs k' e' t' \<Longrightarrow> dq_pk e' = dq_pk e \<Longrightarrow> k' = k"
    using assms unfolding chassis_groups_ok_def by blast+
qed

text \<open>What holds after the groups \<open>gs\<close>: every row keeps its key and manufacturer, and only targets
  change; every entry of a group has its row.\<close>

definition rows_kept :: "target_key set \<Rightarrow> chassis list \<Rightarrow> chassis list \<Rightarrow> bool" where
  "rows_kept keys rows0 rows \<longleftrightarrow> (\<forall>r \<in> set rows0. \<exists>r' \<in> set rows. ch_pk r' = ch_pk r
     \<and> ch_manufacturer r' = ch_manufacturer r \<and> (r' = r \<or> (''chassis'', ch_pk r, []) \<in> keys))"

definition entry_adopted :: "approval_env \<Rightarrow> inventory \<Rightarrow> persisted_targets \<Rightarrow> inventory \<Rightarrow> target_key \<Rightarrow> queue_entry \<Rightarrow> bool" where
  "entry_adopted env db0 pt db k e \<longleftrightarrow> (\<exists>c. map_of (pt_chassis pt) (dq_pk e) = Some c
     \<and> (\<exists>row \<in> set (iv_chassis db). adopted_row env (dq_manufacturer e) (dq_ip e) (ch_pk c) row)
     \<and> (k = (''chassis'', ch_pk c, []) \<or> ch_pk c \<notin> ch_pk ` set (iv_chassis db0)))"

definition chassis_adopted :: "approval_env \<Rightarrow> inventory \<Rightarrow> chassis_groups \<Rightarrow> persisted_targets \<Rightarrow> inventory \<Rightarrow> bool" where
  "chassis_adopted env db0 gs pt db \<longleftrightarrow>
     rows_kept (fst ` set gs) (iv_chassis db0) (iv_chassis db)
     \<and> length (iv_chassis db) = length (iv_chassis db0) + pt_created pt
     \<and> (\<forall>k e t. in_group gs k e t \<longrightarrow> entry_adopted env db0 pt db k e)
     \<and> iv_chargers db = iv_chargers db0
     \<and> (0 < pt_created pt \<longrightarrow> (\<exists>k e t. in_group gs k e t \<and> tg_chassis t = None))"

lemma row_of_pk: "distinct (map f xs) \<Longrightarrow> x \<in> set xs \<Longrightarrow> y \<in> set xs \<Longrightarrow> f x = f y \<Longrightarrow> x = y"
  by (simp add: distinct_map inj_on_def)

lemma group_manufacturer:
  assumes G: "chassis_groups_ok db gs" and "in_group gs k e t" "in_group gs k e' t'"
  shows "dq_manufacturer e = dq_manufacturer e'"
proof -
  note D = chassis_groups_okD[OF G]
  have key: "chassis_key e t = chassis_key e' t'" using D(4)[OF assms(2)] D(4)[OF assms(3)] by simp
  show ?thesis
  proof (cases "tg_chassis t")
    case None
    with key show ?thesis by (auto simp: chassis_key_def split: option.splits)
  next
    case (Some c)
    with key obtain c' where c': "tg_chassis t' = Some c'" "ch_pk c = ch_pk c'"
      by (auto simp: chassis_key_def split: option.splits)
    from D(5)[OF assms(2) Some] D(5)[OF assms(3) c'(1)] row_of_pk[OF D(2) _ _ c'(2)] show ?thesis by metis
  qed
qed

lemma map_of_group: "(e, t) \<in> set entries \<Longrightarrow> map_of (map (\<lambda>(e, t). (dq_pk e, c)) entries @ d) (dq_pk e) = Some c"
  by (induction entries) auto

lemma map_of_other: "k \<notin> dq_pk ` fst ` set entries \<Longrightarrow>
    map_of (map (\<lambda>(e, t). (dq_pk e, c)) entries @ d) k = map_of d k"
  by (induction entries) auto

lemma rows_kept_append: "rows_kept ks rows0 rows \<Longrightarrow> rows_kept (insert k ks) rows0 (rows @ [row])"
  by (fastforce simp: rows_kept_def)

lemma rows_kept_put:
  assumes "rows_kept ks rows0 rows" "distinct (map ch_pk rows0)" "c0 \<in> set rows0"
    "ch_pk row = ch_pk c0" "ch_manufacturer row = ch_manufacturer c0"
  shows "rows_kept (insert (''chassis'', ch_pk c0, []) ks) rows0 (put_row ch_pk row rows)"
  unfolding rows_kept_def
proof
  fix r assume r: "r \<in> set rows0"
  with assms(1) obtain r' where r': "r' \<in> set rows" "ch_pk r' = ch_pk r" "ch_manufacturer r' = ch_manufacturer r"
    "r' = r \<or> (''chassis'', ch_pk r, []) \<in> ks" by (auto simp: rows_kept_def)
  let ?P = "\<lambda>x. ch_pk x = ch_pk r \<and> ch_manufacturer x = ch_manufacturer r
      \<and> (x = r \<or> (''chassis'', ch_pk r, []) \<in> insert (''chassis'', ch_pk c0, []) ks)"
  show "\<exists>x \<in> set (put_row ch_pk row rows). ?P x"
  proof (cases "ch_pk r = ch_pk c0")
    case True
    then have "r = c0" using row_of_pk[OF assms(2) r assms(3)] by simp
    moreover have "ch_pk row \<in> ch_pk ` set rows" using r' True assms(4) by (metis imageI)
    ultimately show ?thesis using assms(4,5) by (intro bexI[of _ row]) (auto simp: put_row_mem)
  next
    case False
    then show ?thesis using r' assms(4) by (intro bexI[of _ r']) (auto simp: put_row_mem)
  qed
qed

lemma rows_kept_pks: "rows_kept ks rows0 rows \<Longrightarrow> ch_pk ` set rows0 \<subseteq> ch_pk ` set rows"
  by (auto simp: rows_kept_def) (metis imageI)

lemma adopt_chassis_group_step:
  assumes G: "chassis_groups_ok db0 (ys @ (k, entries) # zs)"
    and J: "chassis_adopted env db0 ys pt db"
    and step: "adopt_chassis_group env (k, entries) (pt, db) = Inr (pt', db')"
  shows "chassis_adopted env db0 (ys @ [(k, entries)]) pt' db'"
proof -
  let ?gs = "ys @ (k, entries) # zs"
  note D = chassis_groups_okD[OF G]
  from J have kept: "rows_kept (fst ` set ys) (iv_chassis db0) (iv_chassis db)"
    and len: "length (iv_chassis db) = length (iv_chassis db0) + pt_created pt"
    and adopted: "\<And>k e t. in_group ys k e t \<Longrightarrow> entry_adopted env db0 pt db k e"
    and cgs: "iv_chargers db = iv_chargers db0"
    and cr: "0 < pt_created pt \<longrightarrow> (\<exists>k e t. in_group ys k e t \<and> tg_chassis t = None)"
    unfolding chassis_adopted_def by blast+
  from step obtain c created where ad: "adopt_wireless_chassis env entries db = Inr ((c, created), db')"
    and pt': "pt_chassis pt' = map (\<lambda>(e, t). (dq_pk e, c)) entries @ pt_chassis pt"
      "pt_created pt' = pt_created pt + (if created then 1 else 0)"
    by (auto simp: adopt_chassis_group_def result_simps)
  have ne: "entries \<noteq> []" by (rule D(3)[of k]) simp
  obtain e0 t0 where h: "hd entries = (e0, t0)" by fastforce
  with ne have h': "(e0, t0) \<in> set entries" by (metis hd_in_set)
  have ig: "in_group ?gs k e t" if "(e, t) \<in> set entries" for e t
    using that by (simp add: in_group_append in_group_Cons)
  have v: "\<forall>(e, t) \<in> set entries. dq_manufacturer e = dq_manufacturer e0 \<and> dq_ip e = dq_ip e0"
    using group_manufacturer[OF G ig ig[OF h']] D(6)[OF ig[OF h'] ig] by blast
  have old: "map_of (pt_chassis pt') (dq_pk e) = map_of (pt_chassis pt) (dq_pk e)" "k' \<noteq> k"
    if "in_group ys k' e t" for k' e t
  proof -
    show nk: "k' \<noteq> k" using D(1) in_group_key[OF that] by auto
    have i: "in_group ?gs k' e t" using that by (simp add: in_group_append)
    show "map_of (pt_chassis pt') (dq_pk e) = map_of (pt_chassis pt) (dq_pk e)"
      unfolding pt' by (rule map_of_other) (use D(7)[OF i ig] nk in fastforce)
  qed
  have new: "map_of (pt_chassis pt') (dq_pk e) = Some c" if "(e, t) \<in> set entries" for e t
    unfolding pt' by (rule map_of_group[OF that])
  have keys: "fst ` set (ys @ [(k, entries)]) = insert k (fst ` set ys)" by simp
  have split: "in_group (ys @ [(k, entries)]) k' e t \<longleftrightarrow> in_group ys k' e t \<or> (k' = k \<and> (e, t) \<in> set entries)" for k' e t
    by (simp add: in_group_append in_group_Cons in_group_Nil)
  show ?thesis
  proof (cases "tg_chassis t0")
    case None
    from adopt_new_rows[OF ad _ ne v] h None obtain row where
      r: created "iv_chassis db' = iv_chassis db @ [row]" "adopted_row env (dq_manufacturer e0) (dq_ip e0) (ch_pk c) row"
        "ch_pk c \<notin> ch_pk ` set (iv_chassis db)" "iv_chargers db' = iv_chargers db" by auto
    have "ch_pk c \<notin> ch_pk ` set (iv_chassis db0)" using r(4) rows_kept_pks[OF kept] by blast
    then have "entry_adopted env db0 pt' db' k' e" if "in_group (ys @ [(k, entries)]) k' e t" for k' e t
      using that[unfolded split] adopted[of k' e t] old[of k' e t] new[of e t] r(2,3) v
      unfolding entry_adopted_def by fastforce
    moreover have "in_group (ys @ [(k, entries)]) k e0 t0" by (simp add: split h')
    then have "\<exists>k' e t. in_group (ys @ [(k, entries)]) k' e t \<and> tg_chassis t = None" using None by blast
    ultimately show ?thesis
      using rows_kept_append[OF kept] len r cgs unfolding chassis_adopted_def keys pt' by simp
  next
    case (Some c0)
    from adopt_existing_rows[OF ad _ ne v] h Some obtain row where
      r: "\<not> created" "iv_chassis db' = put_row ch_pk row (iv_chassis db)"
        "adopted_row env (dq_manufacturer e0) (dq_ip e0) (ch_pk c0) row" "ch_pk c = ch_pk c0"
        "ch_pk c0 \<in> ch_pk ` set (iv_chassis db)" "iv_chargers db' = iv_chargers db" by auto
    have c0: "c0 \<in> set (iv_chassis db0)" "ch_manufacturer c0 = dq_manufacturer e0"
      using D(5)[OF ig[OF h'] Some] by simp_all
    have k: "k = (''chassis'', ch_pk c0, [])" using D(4)[OF ig[OF h']] Some by (simp add: chassis_key_def)
    have rowpk: "ch_pk row = ch_pk c0" "ch_manufacturer row = ch_manufacturer c0"
      using r(3) c0 by (simp_all add: adopted_row_def)
    have "entry_adopted env db0 pt' db' k' e" if i: "in_group ys k' e t" for k' e t
    proof -
      from adopted[OF i] obtain c' row' where a: "map_of (pt_chassis pt) (dq_pk e) = Some c'" "row' \<in> set (iv_chassis db)"
        "adopted_row env (dq_manufacturer e) (dq_ip e) (ch_pk c') row'"
        "k' = (''chassis'', ch_pk c', []) \<or> ch_pk c' \<notin> ch_pk ` set (iv_chassis db0)"
        unfolding entry_adopted_def by blast
      have "ch_pk row' \<noteq> ch_pk row" using a(3,4) old(2)[OF i] c0(1) k rowpk(1) by (auto simp: adopted_row_def)
      then have "row' \<in> set (iv_chassis db')" using a(2) by (simp add: r(2) put_row_mem)
      with a old(1)[OF i] show ?thesis unfolding entry_adopted_def by auto
    qed
    moreover have "entry_adopted env db0 pt' db' k e" if "(e, t) \<in> set entries" for e t
    proof -
      have "row \<in> set (iv_chassis db')" using r(5) rowpk(1) by (simp add: r(2) put_row_mem)
      with new[OF that] that v r(3,4) k show ?thesis unfolding entry_adopted_def by fastforce
    qed
    moreover have "rows_kept (insert k (fst ` set ys)) (iv_chassis db0) (iv_chassis db')"
      unfolding k r(2) by (rule rows_kept_put[OF kept D(2) c0(1) rowpk])
    moreover have "0 < pt_created pt \<longrightarrow> (\<exists>k' e t. in_group (ys @ [(k, entries)]) k' e t \<and> tg_chassis t = None)"
      using cr unfolding split by blast
    ultimately show ?thesis
      using len r(1,6) cgs unfolding chassis_adopted_def keys pt' by (auto simp: r(2) split)
  qed
qed

section \<open>Chargers of a plan\<close>

definition charger_rows_kept :: "nat set \<Rightarrow> charger list \<Rightarrow> charger list \<Rightarrow> bool" where
  "charger_rows_kept ks rows0 rows \<longleftrightarrow> map cg_pk rows = map cg_pk rows0 \<and>
     (\<forall>r \<in> set rows0. cg_pk r \<notin> ks \<longrightarrow> r \<in> set rows)"

definition charger_adopted ::
  "approval_env \<Rightarrow> inventory \<Rightarrow> charger_groups \<Rightarrow> (nat \<times> charger) list \<Rightarrow> inventory \<Rightarrow> bool"
where
  "charger_adopted env db0 gs approved db \<longleftrightarrow>
     charger_rows_kept (fst ` set gs) (iv_chargers db0) (iv_chargers db)
     \<and> iv_chassis db = iv_chassis db0
     \<and> (\<forall>k items e. (k, items) \<in> set gs \<and> e \<in> set items \<longrightarrow> (\<exists>g. map_of approved (dq_pk e) = Some g \<and> cg_pk g = k
          \<and> (\<exists>row \<in> set (iv_chargers db). adopted_charger_row env (dq_manufacturer e) (dq_ip e) k row)))"

text \<open>Every group is a charger of the plan, with one address and one manufacturer.\<close>

definition charger_groups_ok :: "approval_plan \<Rightarrow> charger_groups \<Rightarrow> bool" where
  "charger_groups_ok plan gs \<longleftrightarrow> distinct (map fst gs)
     \<and> (\<forall>k items. (k, items) \<in> set gs \<longrightarrow> items \<noteq> [])
     \<and> (\<forall>k items e. (k, items) \<in> set gs \<and> e \<in> set items \<longrightarrow>
          (\<exists>g. map_of (ap_chargers plan) (dq_pk e) = Some g \<and> cg_pk g = k))
     \<and> (\<forall>k items e e'. (k, items) \<in> set gs \<and> e \<in> set items \<and> e' \<in> set items \<longrightarrow>
          dq_ip e' = dq_ip e \<and> dq_manufacturer e' = dq_manufacturer e)"

lemma charger_groups_okD:
  assumes "charger_groups_ok plan gs"
  shows "distinct (map fst gs)" "(k, items) \<in> set gs \<Longrightarrow> items \<noteq> []"
    "(k, items) \<in> set gs \<Longrightarrow> e \<in> set items \<Longrightarrow> \<exists>g. map_of (ap_chargers plan) (dq_pk e) = Some g \<and> cg_pk g = k"
    "(k, items) \<in> set gs \<Longrightarrow> e \<in> set items \<Longrightarrow> e' \<in> set items \<Longrightarrow> dq_ip e' = dq_ip e \<and> dq_manufacturer e' = dq_manufacturer e"
  using assms unfolding charger_groups_ok_def by blast+

lemma adopt_charger_group_step:
  assumes G: "charger_groups_ok plan (ys @ (k, items) # zs)"
    and J: "charger_adopted env db0 ys approved db"
    and step: "adopt_charger_group env plan (k, items) (approved, db) = Inr (approved', db')"
  shows "charger_adopted env db0 (ys @ [(k, items)]) approved' db'"
proof -
  let ?gs = "ys @ (k, items) # zs"
  have mem: "(k, items) \<in> set ?gs" by simp
  note D = charger_groups_okD[OF G]
  from J have kept: "charger_rows_kept (fst ` set ys) (iv_chargers db0) (iv_chargers db)"
    and chs: "iv_chassis db = iv_chassis db0"
    and adopted: "\<And>k items e. (k, items) \<in> set ys \<Longrightarrow> e \<in> set items \<Longrightarrow>
        \<exists>g. map_of approved (dq_pk e) = Some g \<and> cg_pk g = k
          \<and> (\<exists>row \<in> set (iv_chargers db). adopted_charger_row env (dq_manufacturer e) (dq_ip e) k row)"
    unfolding charger_adopted_def by blast+
  have ne: "items \<noteq> []" by (rule D(2)[OF mem])
  then have h: "hd items \<in> set items" by simp
  from step obtain g0 g where g0: "map_of (ap_chargers plan) (dq_pk (hd items)) = Some g0"
    and ad: "adopt_charger env items g0 db = Inr (g, db')"
    and ap': "approved' = map (\<lambda>e. (dq_pk e, g)) items @ approved"
    by (auto simp: adopt_charger_group_def result_simps)
  have k: "cg_pk g0 = k" using D(3)[OF mem h] g0 by auto
  have v: "\<forall>e \<in> set items. dq_manufacturer e = dq_manufacturer (hd items) \<and> dq_ip e = dq_ip (hd items)"
    using D(4)[OF mem h] by blast
  from adopt_charger_rows[OF ad ne v] k obtain row where
    r: "iv_chargers db' = put_row cg_pk row (iv_chargers db)"
      "adopted_charger_row env (dq_manufacturer (hd items)) (dq_ip (hd items)) k row"
      "cg_pk g = k" "k \<in> cg_pk ` set (iv_chargers db)" "iv_chassis db' = iv_chassis db" by blast
  have rk: "cg_pk row = k" using r(2) by (simp add: adopted_charger_row_def)
  have new: "map_of approved' (dq_pk e) = Some g" if "e \<in> set items" for e
    using that unfolding ap' by (induction items) auto
  have keyed: "map_of approved' (dq_pk e) = map_of approved (dq_pk e) \<or> False"
    if "(k', items') \<in> set ys" "e \<in> set items'" for k' items' e
  proof -
    have m': "(k', items') \<in> set ?gs" using that(1) by simp
    have "k' \<noteq> k" using D(1) that(1) by force
    then have "dq_pk e \<notin> dq_pk ` set items"
      using D(3)[OF m' that(2)] D(3)[OF mem] by (metis imageE option.inject)
    then show ?thesis unfolding ap' by (induction items) auto
  qed
  have entry: "\<exists>g. map_of approved' (dq_pk e) = Some g \<and> cg_pk g = k'
        \<and> (\<exists>row \<in> set (iv_chargers db'). adopted_charger_row env (dq_manufacturer e) (dq_ip e) k' row)"
    if "(k', items') \<in> set ys" "e \<in> set items'" for k' items' e
  proof -
    from adopted[OF that] obtain g' row' where a: "map_of approved (dq_pk e) = Some g'" "cg_pk g' = k'"
      "row' \<in> set (iv_chargers db)" "adopted_charger_row env (dq_manufacturer e) (dq_ip e) k' row'" by blast
    have "k' \<noteq> k" using D(1) that(1) by force
    then have "row' \<in> set (iv_chargers db')" using a(3,4) rk by (simp add: r(1) put_row_mem adopted_charger_row_def)
    with a keyed[OF that] show ?thesis by auto
  qed
  have row: "row \<in> set (iv_chargers db')" using r(4) rk by (simp add: r(1) put_row_mem)
  have "charger_rows_kept (fst ` set (ys @ [(k, items)])) (iv_chargers db0) (iv_chargers db')"
    using kept rk by (auto simp: charger_rows_kept_def r(1) put_row_mem)
  then show ?thesis
    using entry new row r(2,3,5) chs v unfolding charger_adopted_def by fastforce
qed

section \<open>The whole plan\<close>

lemma group_by_image:
  assumes "(k, ys) \<in> set (group_by f xs)" "y \<in> set ys"
  shows "y \<in> set xs \<and> f y = k"
  using group_by_entry[OF assms(1)] assms(2) by simp

lemma plan_charger_groups_ok:
  assumes l: "lock_inventory items db = Inr inven"
    and P: "\<forall>e \<in> set items. planned digest inven e (p, plan)"
    and M: "\<forall>e \<in> set items. \<forall>e' \<in> set items. is_charger_entry e \<and> is_charger_entry e' \<and> plan_key plan e = plan_key plan e'
        \<longrightarrow> dq_ip e' = dq_ip e \<and> dq_manufacturer e' = dq_manufacturer e"
  shows "charger_groups_ok plan (group_by (\<lambda>e. cg_pk (plan_charger plan e)) (filter is_charger_entry items))"
proof -
  have c: "\<exists>g. map_of (ap_chargers plan) (dq_pk e) = Some g \<and> plan_charger plan e = g"
    if "e \<in> set items" "is_charger_entry e" for e
    using P[rule_format, OF that(1)] that(2) by (auto simp: planned_def plan_charger_def)
  show ?thesis
    unfolding charger_groups_ok_def
  proof (intro conjI allI impI)
    fix k xs e e'
    assume m: "(k, xs) \<in> set (group_by (\<lambda>e. cg_pk (plan_charger plan e)) (filter is_charger_entry items)) \<and> e \<in> set xs \<and> e' \<in> set xs"
    then have e: "e \<in> set items" "is_charger_entry e" "e' \<in> set items" "is_charger_entry e'"
      "cg_pk (plan_charger plan e) = k" "cg_pk (plan_charger plan e') = k"
      using group_by_image by fastforce+
    with c[OF e(1,2)] c[OF e(3,4)] have "plan_key plan e = plan_key plan e'"
      by (auto simp: plan_key_def charger_key_def)
    with M e show "dq_ip e' = dq_ip e" "dq_manufacturer e' = dq_manufacturer e" by blast+
  qed (use c group_by_image in \<open>auto dest: group_by_entry\<close>)
qed

lemma plan_chassis_groups_ok:
  assumes l: "lock_inventory items db = Inr inven"
    and P: "\<forall>e \<in> set items. planned digest inven e (p, plan)"
    and pks: "distinct (map dq_pk items)" "distinct (map ch_pk (iv_chassis db))"
  shows "chassis_groups_ok db (group_by (\<lambda>(e, t). chassis_key e t)
           (map (\<lambda>e. (e, plan_target plan e)) (filter (\<lambda>e. \<not> is_charger_entry e) items)))"
    (is "chassis_groups_ok db ?gs")
proof -
  have mem: "e \<in> set items \<and> \<not> is_charger_entry e \<and> t = plan_target plan e \<and> chassis_key e t = k"
    if "in_group ?gs k e t" for k e t
    using that group_by_image unfolding in_group_def by fastforce
  have t: "resolve_chassis digest e inven = Inr t \<and> map_of (bp_target_ips p) k = Some (dq_ip e)"
    if "in_group ?gs k e t" for k e t
    using P[rule_format, of e] mem[OF that] by (auto simp: planned_def plan_target_def admits_def)
  have ne: "[] \<notin> snd ` set ?gs" using group_by_entry by fastforce
  have ip: "dq_ip e' = dq_ip e" if "in_group ?gs k e t" "in_group ?gs k e' t'" for k e t e' t'
    using t[OF that(1)] t[OF that(2)] by simp
  have pk: "k' = k" if "in_group ?gs k e t" "in_group ?gs k' e' t'" "dq_pk e' = dq_pk e" for k e t k' e' t'
  proof -
    have "e' = e" using row_of_pk[OF pks(1)] mem[OF that(1)] mem[OF that(2)] that(3) by blast
    with mem[OF that(1)] mem[OF that(2)] show ?thesis by metis
  qed
  show ?thesis
    unfolding chassis_groups_ok_def
  proof (intro conjI allI impI)
    show "distinct (map fst ?gs)" by simp
    fix k e t c assume "in_group ?gs k e t \<and> tg_chassis t = Some c"
    then show "c \<in> set (iv_chassis db)" "ch_manufacturer c = dq_manufacturer e"
      using resolved_chassis[OF _ l] t by blast+
  next
    show "distinct (map ch_pk (iv_chassis db))" "[] \<notin> snd ` set ?gs" by (rule pks(2), rule ne)
  next
    fix k e t assume "in_group ?gs k e t"
    then show "chassis_key e t = k" using mem by blast
  next
    fix k e t e' t' assume "in_group ?gs k e t \<and> in_group ?gs k e' t'"
    then show "dq_ip e' = dq_ip e" using ip by blast
  next
    fix k e t k' e' t' assume "in_group ?gs k e t \<and> in_group ?gs k' e' t' \<and> dq_pk e' = dq_pk e"
    then show "k' = k" using pk by blast
  qed
qed

lemma planned_chargers_agree:
  assumes "planned digest inven e (p, plan)" "planned digest inven e' (p, plan)"
    and "is_charger_entry e" "is_charger_entry e'" "plan_key plan e = plan_key plan e'"
  shows "dq_ip e' = dq_ip e \<and> dq_manufacturer e' = dq_manufacturer e"
proof -
  from assms obtain g g' where
    g: "admits inven e (charger_key g) p" "map_of (bp_charger_manufacturers p) (cg_pk g) = Some (dq_manufacturer e)"
      "map_of (ap_chargers plan) (dq_pk e) = Some g"
    and g': "admits inven e' (charger_key g') p" "map_of (bp_charger_manufacturers p) (cg_pk g') = Some (dq_manufacturer e')"
      "map_of (ap_chargers plan) (dq_pk e') = Some g'"
    by (auto simp: planned_def)
  with assms have k: "charger_key g = charger_key g'" by (simp add: plan_key_def)
  then have pk: "cg_pk g = cg_pk g'" by (simp add: charger_key_def)
  have "map_of (bp_target_ips p) (charger_key g) = Some (dq_ip e)"
    "map_of (bp_target_ips p) (charger_key g') = Some (dq_ip e')" using g(1) g'(1) by (simp_all add: admits_def)
  with g(2) g'(2) k pk show ?thesis by simp
qed

lemma persist_targetsE:
  assumes run: "persist_targets env items plan db = Inr ((chargers, pt), db')"
    and l: "lock_inventory items db = Inr inven"
    and P: "\<forall>e \<in> set items. planned digest inven e (p, plan)"
    and pks: "distinct (map dq_pk items)" "distinct (map ch_pk (iv_chassis db))"
  obtains db1 where
    "charger_adopted env db (group_by (\<lambda>e. cg_pk (plan_charger plan e)) (filter is_charger_entry items)) chargers db1"
    "chassis_adopted env db1 (group_by (\<lambda>(e, t). chassis_key e t)
       (map (\<lambda>e. (e, plan_target plan e)) (filter (\<lambda>e. \<not> is_charger_entry e) items))) pt db'"
proof -
  let ?C = "group_by (\<lambda>e. cg_pk (plan_charger plan e)) (filter is_charger_entry items)"
  let ?H = "group_by (\<lambda>(e, t). chassis_key e t)
       (map (\<lambda>e. (e, plan_target plan e)) (filter (\<lambda>e. \<not> is_charger_entry e) items))"
  from run obtain cgs chs db1 where gr: "foldE (group_entry plan) items ([], []) = Inr (cgs, chs)"
    and fc: "foldE (adopt_charger_group env plan) cgs ([], db) = Inr (chargers, db1)"
    and fh: "foldE (adopt_chassis_group env) chs (\<lparr>pt_chassis = [], pt_created = 0, pt_updated = length cgs\<rparr>, db1)
        = Inr (pt, db')"
    by (auto simp: persist_targets_def result_simps)
  from grouped[OF gr] have eq: "cgs = ?C" "chs = ?H" by simp_all
  have GC: "charger_groups_ok plan ?C"
    by (rule plan_charger_groups_ok[OF l P]) (use P planned_chargers_agree in blast)
  have A: "charger_adopted env db cgs (fst (chargers, db1)) (snd (chargers, db1))"
  proof (rule foldE_indexed_invariant[OF fc])
    show "charger_adopted env db [] (fst ([], db)) (snd ([], db))"
      by (simp add: charger_adopted_def charger_rows_kept_def)
    fix ys x zs and s s' :: "(nat \<times> charger) list \<times> inventory"
    assume split: "cgs = ys @ x # zs" and I: "charger_adopted env db ys (fst s) (snd s)"
      and step: "adopt_charger_group env plan x s = Inr s'"
    obtain k xs a d a' d' where "x = (k, xs)" "s = (a, d)" "s' = (a', d')" by (metis surj_pair)
    with adopt_charger_group_step[of plan ys k xs zs env db a d a' d'] split GC I step eq
    show "charger_adopted env db (ys @ [x]) (fst s') (snd s')" by simp
  qed
  then have "iv_chassis db1 = iv_chassis db" by (simp add: charger_adopted_def)
  with plan_chassis_groups_ok[OF l P pks] have GH: "chassis_groups_ok db1 ?H" by (simp add: chassis_groups_ok_def)
  have "chassis_adopted env db1 chs (fst (pt, db')) (snd (pt, db'))"
  proof (rule foldE_indexed_invariant[OF fh])
    show "chassis_adopted env db1 [] (fst (\<lparr>pt_chassis = [], pt_created = 0, pt_updated = length cgs\<rparr>, db1))
        (snd (\<lparr>pt_chassis = [], pt_created = 0, pt_updated = length cgs\<rparr>, db1))"
      by (auto simp: chassis_adopted_def rows_kept_def in_group_Nil)
    fix ys x zs and s s' :: "persisted_targets \<times> inventory"
    assume split: "chs = ys @ x # zs" and I: "chassis_adopted env db1 ys (fst s) (snd s)"
      and step: "adopt_chassis_group env x s = Inr s'"
    obtain k xs a d a' d' where "x = (k, xs)" "s = (a, d)" "s' = (a', d')" by (metis surj_pair)
    with adopt_chassis_group_step[of db1 ys k xs zs env a d a' d'] split GH I step eq
    show "chassis_adopted env db1 (ys @ [x]) (fst s') (snd s')" by simp
  qed
  with A eq that show thesis by simp
qed

section \<open>The queue\<close>

lemma lock_items_selected:
  assumes "lock_items selected queue = Inr items" "distinct (map dq_pk queue)"
  shows "set items = {e \<in> set queue. dq_pk e \<in> set selected \<and> dq_status e = ''pending''}
    \<and> distinct (map dq_pk items) \<and> length items \<le> max_approval_batch"
proof -
  let ?sel = "{e \<in> set queue. dq_pk e \<in> set selected \<and> dq_status e = ''pending''}"
  let ?sorted = "sort_key dq_pk (filter (\<lambda>e. dq_pk e \<in> set selected \<and> dq_status e = ''pending'') queue)"
  let ?req = "pending_selection selected queue"
  let ?all = "sort_key dq_pk (filter (\<lambda>e. dq_status e = ''pending'' \<and> dq_ip e \<in> set (map dq_ip ?req)) queue)"
  have b: "length ?req \<le> max_approval_batch"
    using assms(1) by (auto simp: lock_items_def Let_def result_simps)
  then have req: "?req = ?sorted" by (auto simp: pending_selection_def)
  then have sel: "set ?req = ?sel" by (auto simp: pending_selection_def)
  show ?thesis
  proof (cases "?req = []")
    case True
    with assms(1) have "items = []" by (auto simp: lock_items_def Let_def result_simps)
    with True sel show ?thesis by auto
  next
    case False
    let ?locked = "take (max_approval_batch + 1) ?all"
    let ?items = "sort_key dq_pk (filter (\<lambda>e. dq_pk e \<in> set (filter (\<lambda>pk. pk \<in> set (map dq_pk ?req)) (map dq_pk ?locked))
       \<and> dq_status e = ''pending'') queue)"
    from assms(1) False have lk: "length ?locked \<le> max_approval_batch" and it: "items = ?items"
      by (auto simp: lock_items_def Let_def result_simps)
    from lk have "?locked = ?all" by auto
    then have locked: "set ?locked = {e \<in> set queue. dq_status e = ''pending'' \<and> dq_ip e \<in> dq_ip ` set ?req}" by auto
    have "set ?items = ?sel"
    proof (intro equalityI subsetI)
      fix e assume "e \<in> set ?items"
      then have e: "e \<in> set queue" "dq_status e = ''pending''" "dq_pk e \<in> dq_pk ` set ?req" by auto
      then obtain e' where e': "e' \<in> ?sel" "dq_pk e' = dq_pk e" unfolding sel by auto
      then have "e' = e" using row_of_pk[OF assms(2)] e(1) by simp
      with e' show "e \<in> ?sel" by simp
    next
      fix e assume e: "e \<in> ?sel"
      then have "e \<in> set ?req" unfolding sel .
      then have "e \<in> set ?locked" "dq_pk e \<in> set (map dq_pk ?req)" unfolding locked using e by auto
      with e show "e \<in> set ?items" by auto
    qed
    moreover have "distinct (map dq_pk ?items)"
      using assms(2) by (simp add: distinct_map distinct_sort inj_on_def)
    ultimately have S: "set items = ?sel" "distinct (map dq_pk items)" using it by simp_all
    have "length items = card ?sel" using S by (metis distinct_card distinct_map)
    also have "\<dots> \<le> length ?req" unfolding sel[symmetric] by (rule card_length)
    finally show ?thesis using S b by simp
  qed
qed

text \<open>What a reviewed entry looks like.\<close>

definition reviewed ::
  "nat \<Rightarrow> (nat \<times> charger) list \<Rightarrow> persisted_targets \<Rightarrow> queue_entry \<Rightarrow> queue_entry \<Rightarrow> bool"
where
  "reviewed reviewer chargers pt e e' \<longleftrightarrow> dq_pk e' = dq_pk e \<and> dq_status e' = ''imported''
     \<and> dq_reviewed_by e' = Some reviewer
     \<and> (if is_charger_entry e
        then \<exists>g. map_of chargers (dq_pk e) = Some g \<and> dq_existing_charger e' = Some (cg_pk g)
        else \<exists>c. map_of (pt_chassis pt) (dq_pk e) = Some c \<and> dq_existing_device e' = Some (ch_pk c))"

lemma review_entry_reviewed:
  "review_entry now reviewer chargers pt e = Inr e' \<Longrightarrow> reviewed reviewer chargers pt e e'"
  by (auto simp: review_entry_def reviewed_def result_simps split: if_splits)

lemma write_review_pks [simp]: "map dq_pk (write_review e q) = map dq_pk q"
  by (induction q) (auto simp: write_review_def)

lemma write_review_mem:
  assumes "e \<in> set q" "dq_pk e = dq_pk e'" "reviewed reviewer chargers pt e0 e'"
  shows "\<exists>r \<in> set (write_review e' q). reviewed reviewer chargers pt e0 r"
proof -
  let ?r = "e\<lparr>dq_existing_charger := dq_existing_charger e', dq_existing_device := dq_existing_device e',
      dq_status := dq_status e', dq_reviewed_at := dq_reviewed_at e', dq_reviewed_by := dq_reviewed_by e'\<rparr>"
  have "?r \<in> set (write_review e' q)" using assms(1,2) by (force simp: write_review_def)
  moreover have "reviewed reviewer chargers pt e0 ?r" using assms(2,3) by (auto simp: reviewed_def)
  ultimately show ?thesis by blast
qed

lemma mark_imported_rows:
  assumes run: "mark_imported now reviewer chargers pt items queue = Inr queue'"
    and sub: "set items \<subseteq> set queue" and pks: "distinct (map dq_pk items)"
  shows "map dq_pk queue' = map dq_pk queue
    \<and> (\<forall>e \<in> set queue. dq_pk e \<notin> dq_pk ` set items \<longrightarrow> e \<in> set queue')
    \<and> (\<forall>e \<in> set items. \<exists>e' \<in> set queue'. reviewed reviewer chargers pt e e')"
proof -
  let ?f = "\<lambda>e q. bindE (review_entry now reviewer chargers pt e) (\<lambda>e'. Inr (write_review e' q))"
  let ?I = "\<lambda>ys q. map dq_pk q = map dq_pk queue
    \<and> (\<forall>e \<in> set queue. dq_pk e \<notin> dq_pk ` set ys \<longrightarrow> e \<in> set q)
    \<and> (\<forall>e \<in> set ys. \<exists>e' \<in> set q. reviewed reviewer chargers pt e e')"
  have "?I items queue'"
  proof (rule foldE_indexed_invariant[of ?f items queue queue' ?I])
    show "foldE ?f items queue = Inr queue'" using run by (simp add: mark_imported_def)
    fix ys x zs and q q' :: "queue_entry list"
    assume split: "items = ys @ x # zs" and I: "?I ys q" and step: "?f x q = Inr q'"
    from step obtain x' where x': "review_entry now reviewer chargers pt x = Inr x'" "q' = write_review x' q"
      by (auto simp: result_simps)
    note rv = review_entry_reviewed[OF x'(1)]
    then have pk: "dq_pk x' = dq_pk x" by (simp add: reviewed_def)
    have other: "r \<in> set q'" if "r \<in> set q" "dq_pk r \<noteq> dq_pk x" for r
      using that pk by (force simp: x'(2) write_review_def)
    have 1: "map dq_pk q' = map dq_pk queue" using I by (simp add: x'(2))
    have 2: "\<forall>e \<in> set queue. dq_pk e \<notin> dq_pk ` set (ys @ [x]) \<longrightarrow> e \<in> set q'" using I other by auto
    have "\<exists>e' \<in> set q'. reviewed reviewer chargers pt e e'" if e: "e \<in> set ys" for e
    proof -
      from I e obtain e' where e': "e' \<in> set q" "reviewed reviewer chargers pt e e'" by blast
      have "dq_pk e \<noteq> dq_pk x" using pks e unfolding split by (auto simp: image_iff)
      with e' other[of e'] show ?thesis by (auto simp: reviewed_def)
    qed
    moreover have "\<exists>e' \<in> set q'. reviewed reviewer chargers pt x e'"
    proof -
      have "x \<in> set queue" "dq_pk x \<notin> dq_pk ` set ys" using sub pks unfolding split by (auto simp: image_iff)
      with I have "x \<in> set q" by blast
      then show ?thesis unfolding x'(2) by (rule write_review_mem) (use pk rv in simp_all)
    qed
    ultimately show "?I (ys @ [x]) q'" using 1 2 by auto
  qed simp
  then show ?thesis .
qed

lemma approveE:
  assumes "approve env has_perm reviewer selected queue db = Inr (res, queue', db')"
  obtains items plan chargers pt where
    "has_perm ''micboard.change_discoveryqueue''" "lock_items selected queue = Inr items"
    "build_plan (ae_digest env) items db = Inr plan" "list_all has_perm (ap_permissions plan)"
    "persist_targets env items plan db = Inr ((chargers, pt), db')"
    "mark_imported (ae_now env) reviewer chargers pt items queue = Inr queue'"
    "res = \<lparr>ar_imported = length items, ar_created = pt_created pt, ar_updated = pt_updated pt\<rparr>"
  using assms by (auto simp: approve_def result_simps)

definition chosen_entries :: "nat list \<Rightarrow> queue_entry list \<Rightarrow> queue_entry list" where
  "chosen_entries selected queue = filter (\<lambda>e. dq_pk e \<in> set selected \<and> dq_status e = ''pending'') queue"

text \<open>What a chosen entry has become: imported, reviewed, and linked to a row of its manufacturer that
  holds its address.\<close>

definition imported_entry :: "approval_env \<Rightarrow> nat \<Rightarrow> inventory \<Rightarrow> queue_entry \<Rightarrow> queue_entry \<Rightarrow> bool" where
  "imported_entry env reviewer db e e' \<longleftrightarrow> dq_pk e' = dq_pk e \<and> dq_status e' = ''imported''
     \<and> dq_reviewed_by e' = Some reviewer
     \<and> (if is_charger_entry e
        then \<exists>row \<in> set (iv_chargers db). dq_existing_charger e' = Some (cg_pk row)
               \<and> cg_manufacturer row = Some (dq_manufacturer e) \<and> cg_ip row = Some (ip_key' (ae_save env) (dq_ip e))
        else \<exists>row \<in> set (iv_chassis db). dq_existing_device e' = Some (ch_pk row)
               \<and> ch_manufacturer row = dq_manufacturer e \<and> ch_ip row = ip_key' (ae_save env) (dq_ip e))"

lemma approve_persisted:
  assumes run: "approve env has_perm reviewer selected queue db = Inr (res, queue', db')"
    and pks: "distinct (map dq_pk queue)" "distinct (map ch_pk (iv_chassis db))"
  obtains items inven plan p chargers pt db1 where
    "set items = set (chosen_entries selected queue)" "distinct (map dq_pk items)"
    "lock_inventory items db = Inr inven" "\<forall>e \<in> set items. planned (ae_digest env) inven e (p, plan)"
    "list_all has_perm (ap_permissions plan)"
    "charger_adopted env db (group_by (\<lambda>e. cg_pk (plan_charger plan e)) (filter is_charger_entry items)) chargers db1"
    "chassis_adopted env db1 (group_by (\<lambda>(e, t). chassis_key e t)
       (map (\<lambda>e. (e, plan_target plan e)) (filter (\<lambda>e. \<not> is_charger_entry e) items))) pt db'"
    "mark_imported (ae_now env) reviewer chargers pt items queue = Inr queue'"
    "ar_imported res = length items" "ar_created res = pt_created pt"
proof -
  from run obtain items plan chargers pt where
    r: "lock_items selected queue = Inr items" "build_plan (ae_digest env) items db = Inr plan"
      "list_all has_perm (ap_permissions plan)" "persist_targets env items plan db = Inr ((chargers, pt), db')"
      "mark_imported (ae_now env) reviewer chargers pt items queue = Inr queue'"
      "res = \<lparr>ar_imported = length items, ar_created = pt_created pt, ar_updated = pt_updated pt\<rparr>"
    by (rule approveE)
  from lock_items_selected[OF r(1) pks(1)] have it: "set items = set (chosen_entries selected queue)"
    "distinct (map dq_pk items)" by (auto simp: chosen_entries_def)
  from build_plan_planned[OF r(2) it(2)] obtain inven p where
    l: "lock_inventory items db = Inr inven" and P: "\<forall>e \<in> set items. planned (ae_digest env) inven e (p, plan)" by blast
  from persist_targetsE[OF r(4) l P it(2) pks(2)] obtain db1 where
    "charger_adopted env db (group_by (\<lambda>e. cg_pk (plan_charger plan e)) (filter is_charger_entry items)) chargers db1"
    "chassis_adopted env db1 (group_by (\<lambda>(e, t). chassis_key e t)
       (map (\<lambda>e. (e, plan_target plan e)) (filter (\<lambda>e. \<not> is_charger_entry e) items))) pt db'" by blast
  with that[of items inven p plan chargers db1 pt] it l P r show thesis by simp
qed

lemma chosen_group:
  assumes "e \<in> set items" "\<not> is_charger_entry e"
  shows "in_group (group_by (\<lambda>(e, t). chassis_key e t)
     (map (\<lambda>e. (e, plan_target plan e)) (filter (\<lambda>e. \<not> is_charger_entry e) items)))
     (chassis_key e (plan_target plan e)) e (plan_target plan e)"
  using group_by_member[of "(e, plan_target plan e)" "map (\<lambda>e. (e, plan_target plan e)) (filter (\<lambda>e. \<not> is_charger_entry e) items)"
      "\<lambda>(e, t). chassis_key e t"] assms
  by (fastforce simp: in_group_def)

definition sample_entry :: "nat \<Rightarrow> nat \<Rightarrow> string \<Rightarrow> string \<Rightarrow> string \<Rightarrow> queue_entry" where
  "sample_entry pk mfr ip serial device_type =
     \<lparr>dq_pk = pk, dq_manufacturer = mfr, dq_serial = serial, dq_api_id = [], dq_ip = ip,
      dq_device_type = device_type, dq_model = [], dq_name = ''Rack'', dq_fqdn = [], dq_firmware = [],
      dq_metadata = JNull, dq_status = ''pending'', dq_discovered_at = 0, dq_reviewed_at = None,
      dq_reviewed_by = None, dq_notes = [], dq_existing_device = None, dq_existing_charger = None,
      dq_is_duplicate = False, dq_is_ip_conflict = False, dq_is_duplicate_api_id = False,
      dq_api_id_conflict_count = 0\<rparr>"

definition sample_approval :: approval_env where
  "sample_approval = \<lparr>ae_save = sample_env, ae_tenancy = \<lparr>tn_installed = False, tn_locations = [], tn_organizations = []\<rparr>,
     ae_digest = id, ae_repr = (\<lambda>_. []), ae_now = 9\<rparr>"

definition sample_queue :: "queue_entry list" where
  "sample_queue = [sample_entry 3 7 ''10.0.0.5'' ''S5'' ''Receiver'', sample_entry 4 7 ''10.0.0.6'' ''S1'' ''receiver'']"

definition sample_approval_inventory :: inventory where
  "sample_approval_inventory = sample_inventory [sample_chassis 1 7 ''S1'' None ''10.0.0.1'' ''a1'' ''offline''] []"

definition sample_first :: queue_entry where
  "sample_first = sample_entry 3 7 ''10.0.0.5'' ''S5'' ''Receiver''"

lemma sample_locked: "lock_items [3] sample_queue = Inr [sample_first]"
  by (simp add: lock_items_def pending_selection_def sample_queue_def sample_first_def sample_entry_def
      max_approval_batch_def)

lemma sample_inventory_locked:
  "lock_inventory sample_queue sample_approval_inventory
     = Inr (inventory_indexes (map dq_ip sample_queue) (iv_chassis sample_approval_inventory) [])"
  by (simp add: lock_inventory_def sample_queue_def sample_entry_def max_approval_locks_def max_approval_batch_def
      sample_approval_inventory_def sample_inventory_def chassis_filter_def chassis_identity_filter_def
      is_charger_entry_def strip_def is_space_def lower_def lower_char_def sample_chassis_def)

lemma sample_first_locked:
  "lock_inventory [sample_first] sample_approval_inventory = Inr (inventory_indexes [''10.0.0.5''] [] [])"
  by (simp add: lock_inventory_def sample_first_def sample_entry_def max_approval_locks_def max_approval_batch_def
      sample_approval_inventory_def sample_inventory_def chassis_filter_def chassis_identity_filter_def
      is_charger_entry_def strip_def is_space_def lower_def lower_char_def sample_chassis_def)

lemma sample_planned: "\<not> isl (build_plan id sample_queue sample_approval_inventory)"
  unfolding build_plan_def sample_inventory_locked bindE_simps by code_simp

definition sample_target :: approval_target where
  "sample_target = \<lparr>tg_chassis = None, tg_api_id = ''serial:S5''\<rparr>"

definition sample_plan :: approval_plan where
  "sample_plan = \<lparr>ap_chargers = [], ap_chassis = [(3, sample_target)],
     ap_permissions = [''micboard.change_discoveryqueue'', ''micboard.add_wirelesschassis'']\<rparr>"

lemma sample_first_planned:
  "build_plan (ae_digest sample_approval) [sample_first] sample_approval_inventory = Inr sample_plan"
  unfolding build_plan_def sample_first_locked bindE_simps by code_simp

lemma sample_groups:
  "foldE (group_entry sample_plan) [sample_first] ([], [])
    = Inr ([], [((''chassis_identity'', 7, ''serial:S5''), [(sample_first, sample_target)])])"
  by code_simp

lemma sample_adopted:
  "\<not> isl (adopt_wireless_chassis sample_approval [(sample_first, sample_target)] sample_approval_inventory)"
  by code_simp

lemma sample_approval_addresses: "\<not> isl (addressing (lock_addresses (map (\<lambda>e. Some (dq_ip e)) [sample_first])))"
  by code_simp

lemma sample_reviewed:
  "\<not> isl (mark_imported now reviewer cgs (pt\<lparr>pt_chassis := [(3, c)], pt_created := n, pt_updated := m\<rparr>) [sample_first] q)"
  by (simp add: mark_imported_def review_entry_def sample_first_def sample_entry_def is_charger_entry_def
      lower_def lower_char_def lookupE_def)

lemma sample_approval_runs:
  "\<exists>res queue' db'. approve sample_approval (\<lambda>_. True) 2 [3] sample_queue sample_approval_inventory = Inr (res, queue', db')"
proof -
  obtain c created db1 where
    ad: "adopt_wireless_chassis sample_approval [(sample_first, sample_target)] sample_approval_inventory = Inr ((c, created), db1)"
    using sample_adopted by (metis sum.collapse(2) surj_pair)
  obtain as where as: "addressing (lock_addresses (map (\<lambda>e. Some (dq_ip e)) [sample_first])) = Inr as"
    using sample_approval_addresses by (metis sum.collapse(2))
  have p: "preflight_target_permissions (\<lambda>_. True) [3] sample_queue (iv_chassis sample_approval_inventory) = Inr ()"
    "list_all (\<lambda>_. True) (ap_permissions sample_plan)"
    by (simp_all add: preflight_target_permissions_def list_all_iff)
  have pk: "dq_pk sample_first = 3" by (simp add: sample_first_def sample_entry_def)
  let ?pt = "\<lparr>pt_chassis = [(3, c)], pt_created = (if created then 1 else 0), pt_updated = (if created then 0 else 1)\<rparr>"
  have ps: "persist_targets sample_approval [sample_first] sample_plan sample_approval_inventory = Inr (([], ?pt), db1)"
    unfolding persist_targets_def sample_groups by (simp add: adopt_chassis_group_def ad pk)
  obtain q where m: "mark_imported (ae_now sample_approval) 2 [] ?pt [sample_first] sample_queue = Inr q"
    using sample_reviewed[of _ _ _ _ _ c ?pt] by simp (metis sum.collapse(2))
  have "\<not> isl (approve sample_approval (\<lambda>_. True) 2 [3] sample_queue sample_approval_inventory)"
    unfolding approve_def p sample_locked bindE_simps as sample_first_planned ps by (simp add: p m)
  then show ?thesis by (metis sum.collapse(2) surj_pair)
qed

lemma sample_approval_pks:
  "distinct (map dq_pk sample_queue)" "distinct (map ch_pk (iv_chassis sample_approval_inventory))"
  "distinct (map cg_pk (iv_chargers sample_approval_inventory))"
  by (simp_all add: sample_queue_def sample_entry_def sample_approval_inventory_def sample_inventory_def)

text \<open>C8: a successful approval imports exactly the chosen pending entries: each is marked with its
  reviewer and linked to a row of its manufacturer that holds its address, every other entry is left
  as it was, and the inventory grows by exactly the reported number of chassis.\<close>

theorem approval_imports:
  assumes run: "approve env has_perm reviewer selected queue db = Inr (res, queue', db')"
    and pks: "distinct (map dq_pk queue)" "distinct (map ch_pk (iv_chassis db))"
  shows "ar_imported res = length (chosen_entries selected queue)
    \<and> map dq_pk queue' = map dq_pk queue
    \<and> (\<forall>e \<in> set queue. e \<notin> set (chosen_entries selected queue) \<longrightarrow> e \<in> set queue')
    \<and> (\<forall>e \<in> set (chosen_entries selected queue). \<exists>e' \<in> set queue'. imported_entry env reviewer db' e e')
    \<and> length (iv_chassis db') = length (iv_chassis db) + ar_created res"
proof -
  obtain items inven plan p chargers pt db1 where
    it: "set items = set (chosen_entries selected queue)" "distinct (map dq_pk items)"
    and l: "lock_inventory items db = Inr inven" and P: "\<forall>e \<in> set items. planned (ae_digest env) inven e (p, plan)"
    and perms: "list_all has_perm (ap_permissions plan)"
    and C: "charger_adopted env db (group_by (\<lambda>e. cg_pk (plan_charger plan e)) (filter is_charger_entry items)) chargers db1"
    and H: "chassis_adopted env db1 (group_by (\<lambda>(e, t). chassis_key e t)
       (map (\<lambda>e. (e, plan_target plan e)) (filter (\<lambda>e. \<not> is_charger_entry e) items))) pt db'"
    and m: "mark_imported (ae_now env) reviewer chargers pt items queue = Inr queue'"
    and res: "ar_imported res = length items" "ar_created res = pt_created pt"
    by (rule approve_persisted[OF run pks])
  have sub: "set items \<subseteq> set queue" unfolding it by (auto simp: chosen_entries_def)
  note M = mark_imported_rows[OF m sub it(2)]
  have "distinct (chosen_entries selected queue)" using pks(1) by (simp add: chosen_entries_def distinct_map)
  then have len: "length items = length (chosen_entries selected queue)"
    using it by (metis distinct_card distinct_map)
  have other: "e \<in> set queue'" if "e \<in> set queue" "e \<notin> set items" for e
  proof -
    have "dq_pk e \<notin> dq_pk ` set items" using row_of_pk[OF pks(1)] sub that by blast
    with M that show ?thesis by blast
  qed
  have chs: "iv_chassis db1 = iv_chassis db" using C by (simp add: charger_adopted_def)
  have cgs: "iv_chargers db' = iv_chargers db1" using H by (simp add: chassis_adopted_def)
  have imp: "\<exists>e' \<in> set queue'. imported_entry env reviewer db' e e'" if e: "e \<in> set items" for e
  proof -
    from M e obtain e' where e': "e' \<in> set queue'" "reviewed reviewer chargers pt e e'" by blast
    have "imported_entry env reviewer db' e e'"
    proof (cases "is_charger_entry e")
      case True
      have g: "(cg_pk (plan_charger plan e), filter (\<lambda>y. cg_pk (plan_charger plan y) = cg_pk (plan_charger plan e))
          (filter is_charger_entry items)) \<in> set (group_by (\<lambda>e. cg_pk (plan_charger plan e)) (filter is_charger_entry items))"
        by (rule group_by_member) (use e True in simp)
      moreover have "e \<in> set (filter (\<lambda>y. cg_pk (plan_charger plan y) = cg_pk (plan_charger plan e))
          (filter is_charger_entry items))" using e True by simp
      ultimately obtain g row where "map_of chargers (dq_pk e) = Some g" "row \<in> set (iv_chargers db1)"
        "adopted_charger_row env (dq_manufacturer e) (dq_ip e) (cg_pk g) row"
        using C unfolding charger_adopted_def by metis
      with e'(2) True cgs show ?thesis
        by (auto simp: imported_entry_def reviewed_def adopted_charger_row_def intro!: bexI[of _ row])
    next
      case False
      with H chosen_group[OF e False] have "entry_adopted env db1 pt db' (chassis_key e (plan_target plan e)) e"
        unfolding chassis_adopted_def by blast
      then obtain c row where "map_of (pt_chassis pt) (dq_pk e) = Some c" "row \<in> set (iv_chassis db')"
        "adopted_row env (dq_manufacturer e) (dq_ip e) (ch_pk c) row" unfolding entry_adopted_def by blast
      with e'(2) False show ?thesis
        by (auto simp: imported_entry_def reviewed_def adopted_row_def intro!: bexI[of _ row])
    qed
    with e' show ?thesis by blast
  qed
  have "length (iv_chassis db') = length (iv_chassis db) + ar_created res"
    using H chs res(2) by (simp add: chassis_adopted_def)
  moreover have "\<forall>e \<in> set queue. e \<notin> set items \<longrightarrow> e \<in> set queue'" using other by blast
  moreover have "\<forall>e \<in> set items. \<exists>e' \<in> set queue'. imported_entry env reviewer db' e e'" using imp by blast
  ultimately show ?thesis unfolding it(1)[symmetric] using len res(1) M[THEN conjunct1] by simp
qed

theorem approval_imports_witness:
  "\<exists>res queue' db'. approve sample_approval (\<lambda>_. True) 2 [3] sample_queue sample_approval_inventory = Inr (res, queue', db')
     \<and> ar_imported res = length [3::nat] \<and> map dq_pk queue' = [3, 4]"
proof -
  obtain res queue' db' where
    run: "approve sample_approval (\<lambda>_. True) 2 [3] sample_queue sample_approval_inventory = Inr (res, queue', db')"
    using sample_approval_runs by blast
  from approval_imports[OF run sample_approval_pks(1,2)] run show ?thesis
    by (auto simp: chosen_entries_def sample_queue_def sample_entry_def)
qed

text \<open>C9: an approval stays within what its reviewer may do: no row of the inventory is removed or moved to
  another manufacturer, and a row is touched only with the change permission for its kind and by a chosen
  entry of its manufacturer; a charger that had no manufacturer gets that of the chosen charger entry;
  chassis are added only with the add permission.\<close>

theorem approval_authorized:
  assumes run: "approve env has_perm reviewer selected queue db = Inr (res, queue', db')"
    and pks: "distinct (map dq_pk queue)" "distinct (map ch_pk (iv_chassis db))" "distinct (map cg_pk (iv_chargers db))"
  shows "has_perm ''micboard.change_discoveryqueue''
    \<and> (\<forall>r \<in> set (iv_chassis db). \<exists>r' \<in> set (iv_chassis db'). ch_pk r' = ch_pk r \<and> ch_manufacturer r' = ch_manufacturer r
         \<and> (r' = r \<or> (has_perm ''micboard.change_wirelesschassis''
              \<and> (\<exists>e \<in> set (chosen_entries selected queue). dq_manufacturer e = ch_manufacturer r))))
    \<and> map cg_pk (iv_chargers db') = map cg_pk (iv_chargers db)
    \<and> (\<forall>r \<in> set (iv_chargers db). \<exists>r' \<in> set (iv_chargers db'). cg_pk r' = cg_pk r
         \<and> (r' = r \<or> (has_perm ''micboard.change_charger''
              \<and> (\<exists>e \<in> set (chosen_entries selected queue). is_charger_entry e
                   \<and> cg_manufacturer r \<in> {None, Some (dq_manufacturer e)}
                   \<and> cg_manufacturer r' = Some (dq_manufacturer e)))))
    \<and> (0 < ar_created res \<longrightarrow> has_perm ''micboard.add_wirelesschassis'')"
proof -
  obtain items inven plan p chargers pt db1 where
    it: "set items = set (chosen_entries selected queue)" "distinct (map dq_pk items)"
    and l: "lock_inventory items db = Inr inven" and P: "\<forall>e \<in> set items. planned (ae_digest env) inven e (p, plan)"
    and perms: "list_all has_perm (ap_permissions plan)"
    and C: "charger_adopted env db (group_by (\<lambda>e. cg_pk (plan_charger plan e)) (filter is_charger_entry items)) chargers db1"
      (is "charger_adopted env db ?C chargers db1")
    and H: "chassis_adopted env db1 (group_by (\<lambda>(e, t). chassis_key e t)
       (map (\<lambda>e. (e, plan_target plan e)) (filter (\<lambda>e. \<not> is_charger_entry e) items))) pt db'"
      (is "chassis_adopted env db1 ?H pt db'")
    and m: "mark_imported (ae_now env) reviewer chargers pt items queue = Inr queue'"
    and res: "ar_imported res = length items" "ar_created res = pt_created pt"
    by (rule approve_persisted[OF run pks(1,2)])
  have perm: "has_perm x" if "x \<in> set (ap_permissions plan)" for x using perms that by (simp add: list_all_iff)
  have target: "resolve_chassis (ae_digest env) e inven = Inr t \<and> has_perm (target_permission t) \<and> e \<in> set items
      \<and> chassis_key e t = k" if "in_group ?H k e t" for k e t
  proof -
    have e: "e \<in> set items" "\<not> is_charger_entry e" "t = plan_target plan e" "chassis_key e t = k"
      using that group_by_image unfolding in_group_def by fastforce+
    with P[rule_format, OF e(1)] perm show ?thesis by (auto simp: planned_def plan_target_def)
  qed
  have chs: "iv_chassis db1 = iv_chassis db" using C by (simp add: charger_adopted_def)
  have cgs: "iv_chargers db' = iv_chargers db1" using H by (simp add: chassis_adopted_def)
  have 1: "has_perm ''micboard.change_wirelesschassis''
        \<and> (\<exists>e \<in> set (chosen_entries selected queue). dq_manufacturer e = ch_manufacturer r)"
    if r: "r \<in> set (iv_chassis db)" and k: "(''chassis'', ch_pk r, []) \<in> fst ` set ?H" for r
  proof -
    from k obtain entries where en: "((''chassis'', ch_pk r, []), entries) \<in> set ?H" by force
    then have "entries \<noteq> []" using group_by_entry[OF en] by blast
    then obtain e t where et: "(e, t) \<in> set entries" by (metis hd_in_set surj_pair)
    with en have ig: "in_group ?H (''chassis'', ch_pk r, []) e t" by (auto simp: in_group_def)
    note T = target[OF ig]
    then obtain c where c: "tg_chassis t = Some c" "ch_pk c = ch_pk r" by (auto simp: chassis_key_def split: option.splits)
    with resolved_chassis[OF _ l] T have "c \<in> set (iv_chassis db)" "ch_manufacturer c = dq_manufacturer e" by blast+
    moreover from this have "c = r" using row_of_pk[OF pks(2) _ r] c(2) by simp
    ultimately show ?thesis using T c(1) it(1) by (auto simp: target_permission_def)
  qed
  have "rows_kept (fst ` set ?H) (iv_chassis db) (iv_chassis db')" using H chs by (simp add: chassis_adopted_def)
  then have A: "\<exists>r' \<in> set (iv_chassis db'). ch_pk r' = ch_pk r \<and> ch_manufacturer r' = ch_manufacturer r
         \<and> (r' = r \<or> (has_perm ''micboard.change_wirelesschassis''
              \<and> (\<exists>e \<in> set (chosen_entries selected queue). dq_manufacturer e = ch_manufacturer r)))"
    if "r \<in> set (iv_chassis db)" for r
    using 1[OF that] that unfolding rows_kept_def by blast
  have K: "charger_rows_kept (fst ` set ?C) (iv_chargers db) (iv_chargers db')"
    using C cgs by (simp add: charger_adopted_def)
  have B: "\<exists>r' \<in> set (iv_chargers db'). cg_pk r' = cg_pk r
         \<and> (r' = r \<or> (has_perm ''micboard.change_charger''
              \<and> (\<exists>e \<in> set (chosen_entries selected queue). is_charger_entry e
                   \<and> cg_manufacturer r \<in> {None, Some (dq_manufacturer e)}
                   \<and> cg_manufacturer r' = Some (dq_manufacturer e))))"
    if r: "r \<in> set (iv_chargers db)" for r
  proof (cases "cg_pk r \<in> fst ` set ?C")
    case True
    then obtain xs where en: "(cg_pk r, xs) \<in> set ?C" by force
    then have "xs \<noteq> []" using group_by_entry[OF en] by blast
    then obtain e where ex: "e \<in> set xs" by (metis hd_in_set)
    with C en cgs obtain row where row: "row \<in> set (iv_chargers db')"
      "adopted_charger_row env (dq_manufacturer e) (dq_ip e) (cg_pk r) row"
      unfolding charger_adopted_def by metis
    from ex group_by_image[OF en] have e: "e \<in> set items" "is_charger_entry e" "cg_pk (plan_charger plan e) = cg_pk r" by auto
    with P[rule_format, OF e(1)] perm obtain g where g: "plan_charger plan e = g" "resolve_charger e inven = Inr g"
      "has_perm ''micboard.change_charger''" by (auto simp: planned_def plan_charger_def)
    from resolved_charger[OF g(2) l] have "g \<in> set (iv_chargers db)" "cg_manufacturer g \<in> {None, Some (dq_manufacturer e)}" by simp_all
    moreover from this have "g = r" using row_of_pk[OF pks(3) _ r] e(3) g(1) by simp
    ultimately show ?thesis
      using g(3) e(1,2) it(1) row by (intro bexI[of _ row]) (auto simp: adopted_charger_row_def)
  next
    case False
    with K r have "r \<in> set (iv_chargers db')" by (simp add: charger_rows_kept_def)
    then show ?thesis by blast
  qed
  have D: "has_perm ''micboard.add_wirelesschassis''" if "0 < ar_created res"
  proof -
    from H that res(2) obtain k e t where "in_group ?H k e t" "tg_chassis t = None"
      unfolding chassis_adopted_def by metis
    with target show ?thesis by (fastforce simp: target_permission_def)
  qed
  have "has_perm ''micboard.change_discoveryqueue''" using run by (rule approveE)
  with A B D K show ?thesis by (simp add: charger_rows_kept_def)
qed

theorem approval_authorized_witness:
  "\<exists>res queue' db'. approve sample_approval (\<lambda>_. True) 2 [3] sample_queue sample_approval_inventory = Inr (res, queue', db')
     \<and> (\<exists>r \<in> set (iv_chassis db'). ch_pk r = 1 \<and> ch_manufacturer r = 7)"
proof -
  obtain res queue' db' where
    run: "approve sample_approval (\<lambda>_. True) 2 [3] sample_queue sample_approval_inventory = Inr (res, queue', db')"
    using sample_approval_runs by blast
  let ?r = "sample_chassis 1 7 ''S1'' None ''10.0.0.1'' ''a1'' ''offline''"
  have "?r \<in> set (iv_chassis sample_approval_inventory)" "ch_pk ?r = 1" "ch_manufacturer ?r = 7"
    by (simp_all add: sample_approval_inventory_def sample_inventory_def sample_chassis_def)
  with approval_authorized[OF run sample_approval_pks] run show ?thesis by metis
qed

text \<open>C10: within one plan two entries share their address exactly when they share their target, and no
  other chassis and no other charger of the inventory owns that address.\<close>

theorem approval_plan_one_to_one:
  assumes "build_plan digest items db = Inr plan" "distinct (map dq_pk items)"
    and "e \<in> set items" "e' \<in> set items"
  shows "plan_key plan e \<noteq> None \<and> (dq_ip e = dq_ip e' \<longleftrightarrow> plan_key plan e = plan_key plan e')
    \<and> (\<forall>c \<in> set (iv_chassis db). ch_ip c = dq_ip e \<longrightarrow> plan_key plan e = Some (''chassis'', ch_pk c, []))
    \<and> (\<forall>g \<in> set (iv_chargers db). cg_ip g = Some (dq_ip e) \<longrightarrow> plan_key plan e = Some (''charger'', cg_pk g, []))"
proof -
  from assms(1,2) obtain inven p where l: "lock_inventory items db = Inr inven"
    and P: "\<forall>e \<in> set items. planned digest inven e (p, plan)" by (rule build_plan_planned)
  have key: "\<exists>k. plan_key plan e = Some k \<and> admits inven e k p" if "e \<in> set items" for e
    using P[rule_format, OF that]
    by (auto simp: planned_def plan_key_def simp del: split_paired_Ex split: if_splits)
  from key[OF assms(3)] key[OF assms(4)] obtain k k' where
    k: "plan_key plan e = Some k" "admits inven e k p" and k': "plan_key plan e' = Some k'" "admits inven e' k' p" by blast
  have "dq_ip e = dq_ip e' \<longleftrightarrow> k = k'" using k(2) k'(2) unfolding admits_def by (metis option.inject)
  moreover have "k = (''chassis'', ch_pk c, [])" if "c \<in> set (iv_chassis db)" "ch_ip c = dq_ip e" for c
    using locked_owners(1)[OF l assms(3)] k(2) that by (auto simp: admits_def)
  moreover have "k = (''charger'', cg_pk g, [])" if "g \<in> set (iv_chargers db)" "cg_ip g = Some (dq_ip e)" for g
  proof -
    have "cg_pk g \<in> set (get_list (ai_charger_owners inven) (dq_ip e))"
      using locked_owners(2)[OF l assms(3)] that by blast
    with k(2) show ?thesis by (auto simp: admits_def)
  qed
  ultimately show ?thesis using k(1) k'(1) by auto
qed

theorem approval_plan_one_to_one_witness:
  "\<exists>plan. build_plan id sample_queue sample_approval_inventory = Inr plan
     \<and> plan_key plan (hd sample_queue) \<noteq> plan_key plan (last sample_queue)"
proof -
  obtain plan where b: "build_plan id sample_queue sample_approval_inventory = Inr plan" using sample_planned by (metis sum.collapse(2))
  have q: "hd sample_queue \<in> set sample_queue" "last sample_queue \<in> set sample_queue"
    "dq_ip (hd sample_queue) \<noteq> dq_ip (last sample_queue)"
    by (simp_all add: sample_queue_def sample_entry_def)
  from approval_plan_one_to_one[OF b sample_approval_pks(1) q(1,2)] q(3) b show ?thesis by auto
qed

end
