(* ===== verification/Subscription_Supervisor.thy ===== *)
theory Subscription_Supervisor
  imports Discovery_Sources "HOL-Library.Multiset"
begin

text \<open>
  The supervisor of realtime device subscriptions (\<open>services/realtime/subscription_supervisor.py\<close>,
  \<open>subscription_dtos.py\<close>): the lease that keeps one supervisor per transport and manufacturer, the
  circular choice of devices, the round that subscribes every chosen device with a bounded number
  of workers, and the loop over rounds.

  Concurrency is interleaving.  Every cache call of every supervisor is one step on the shared
  entry of the lease, and time passes between the steps; every move of a worker is one step on the
  shared queue.  Tokens of acquisitions are pairwise different, as \<open>secrets.token_urlsafe\<close> makes
  them, so an acquisition is named by the number of its supervisor.
\<close>

section \<open>Device origins\<close>

datatype url_error = InvalidDeviceAddress | InvalidDevicePort

text \<open>\<open>int(port)\<close> of an integer or a text; a Boolean and every other type is refused.\<close>

fun device_port :: "json \<Rightarrow> int option" where
  "device_port (JInt n) = Some n"
| "device_port (JStr s) = int_of_text s"
| "device_port _ = None"

fun host_of_address :: "ip_address \<Rightarrow> string" where
  "host_of_address (IPv4 n) = text_of_ip (IPv4 n)"
| "host_of_address (IPv6 n scope) = ''['' @ text_of_ip (IPv6 n scope) @ '']''"

definition build_device_https_url :: "string \<Rightarrow> json \<Rightarrow> url_error + string" where
  "build_device_https_url address port =
     (case ip_of_text address of None \<Rightarrow> Inl InvalidDeviceAddress
      | Some a \<Rightarrow> (case device_port port of None \<Rightarrow> Inl InvalidDevicePort
          | Some p \<Rightarrow> if 1 \<le> p \<and> p \<le> 65535
              then Inr (''https://'' @ host_of_address a @ '':'' @ int_text p)
              else Inl InvalidDevicePort))"

section \<open>Limits\<close>

record subscription_limits =
  sb_max_devices :: int
  sb_max_concurrency :: int
  sb_rotation_seconds :: rat
  sb_reconnect_delay_seconds :: rat

definition hard_max_subscription_devices :: int where "hard_max_subscription_devices = 256"

definition hard_max_subscription_concurrency :: int where "hard_max_subscription_concurrency = 64"

text \<open>\<open>float(raw_value)\<close> when it succeeds with a finite value; \<open>float_of_text\<close> reads a text.\<close>

fun finite_float :: "(string \<Rightarrow> rat option) \<Rightarrow> json \<Rightarrow> rat option" where
  "finite_float float_of_text (JInt n) = Some (of_int n)"
| "finite_float float_of_text (JNum q) = Some q"
| "finite_float float_of_text (JStr s) = float_of_text s"
| "finite_float float_of_text _ = None"

definition bounded_positive_float_setting ::
  "(string \<Rightarrow> rat option) \<Rightarrow> host_settings \<Rightarrow> string \<Rightarrow> rat \<Rightarrow> rat \<Rightarrow> rat \<Rightarrow> rat"
where
  "bounded_positive_float_setting float_of_text st name dflt hard_limit minimum =
     (let raw = (case st name of None \<Rightarrow> JNum dflt | Some v \<Rightarrow> v)
      in if is_bool raw then dflt
         else case finite_float float_of_text raw of None \<Rightarrow> dflt
           | Some q \<Rightarrow> min (max q minimum) hard_limit)"

definition subscription_limits_from_settings ::
  "(string \<Rightarrow> rat option) \<Rightarrow> host_settings \<Rightarrow> subscription_limits"
where
  "subscription_limits_from_settings float_of_text st =
     (let devices = bounded_positive_setting st ''MICBOARD_REALTIME_MAX_DEVICES'' 64 hard_max_subscription_devices;
          concurrency = bounded_positive_setting st ''MICBOARD_REALTIME_MAX_CONCURRENCY'' 16
            hard_max_subscription_concurrency
      in \<lparr>sb_max_devices = devices, sb_max_concurrency = min concurrency devices,
          sb_rotation_seconds = bounded_positive_float_setting float_of_text st
            ''MICBOARD_REALTIME_ROTATION_SECONDS'' 300 3600 1,
          sb_reconnect_delay_seconds = bounded_positive_float_setting float_of_text st
            ''MICBOARD_REALTIME_RECONNECT_DELAY_SECONDS'' 1 60 0\<rparr>)"

section \<open>The lease\<close>

text \<open>One cache entry: the token and when it expires.  A read sees only an entry that has not
  expired, \<open>add\<close> writes only when there is none, and \<open>touch\<close> extends whatever entry there is.
  The cache never drops an entry before it expires: with a backend that evicts unexpired entries under
  pressure the lease would not exclude a second supervisor.\<close>

type_synonym lease_entry = "(nat \<times> time) option"

definition lease_seconds :: time where "lease_seconds = 60"

definition lease_refresh_seconds :: time where "lease_refresh_seconds = 15"

definition cache_get :: "time \<Rightarrow> lease_entry \<Rightarrow> nat option" where
  "cache_get now entry = (case entry of None \<Rightarrow> None | Some (t, e) \<Rightarrow> if now < e then Some t else None)"

definition cache_add :: "time \<Rightarrow> nat \<Rightarrow> lease_entry \<Rightarrow> bool \<times> lease_entry" where
  "cache_add now token entry =
     (if cache_get now entry = None then (True, Some (token, now + lease_seconds)) else (False, entry))"

definition cache_touch :: "time \<Rightarrow> lease_entry \<Rightarrow> bool \<times> lease_entry" where
  "cache_touch now entry =
     (case cache_get now entry of None \<Rightarrow> (False, entry) | Some t \<Rightarrow> (True, Some (t, now + lease_seconds)))"

text \<open>\<open>acquire\<close> and \<open>refresh\<close> with nothing in between; \<open>up\<close> is whether the cache answers.\<close>

definition acquire :: "bool \<Rightarrow> time \<Rightarrow> nat \<Rightarrow> lease_entry \<Rightarrow> bool \<times> lease_entry" where
  "acquire up now token entry = (if up then cache_add now token entry else (False, entry))"

definition refresh :: "bool \<Rightarrow> time \<Rightarrow> nat \<Rightarrow> lease_entry \<Rightarrow> bool \<times> lease_entry" where
  "refresh up now token entry =
     (if \<not> up then (False, entry)
      else if cache_get now entry \<noteq> Some token then (False, entry)
      else (let (touched, entry') = cache_touch now entry
            in if \<not> touched then (False, entry') else (cache_get now entry' = Some token, entry')))"

text \<open>The same calls as separate steps of many supervisors.  \<open>Holding\<close>, \<open>Checked\<close> and \<open>Touched\<close> are
  the places between the calls of a supervisor that runs; \<open>lv_confirmed\<close> is the time of the last
  write of its own that it has seen to be its own, and \<open>lv_touched\<close> of a write still to be confirmed.\<close>

datatype lease_phase = NotStarted | Holding | Checked | Touched | Stopped

record lease_view =
  lv_phase :: lease_phase
  lv_confirmed :: "time option"
  lv_touched :: time

record lease_system =
  ls_now :: time
  ls_entry :: lease_entry
  ls_views :: "nat \<Rightarrow> lease_view"

datatype lease_call =
    Wait nat
  | CallAdd nat
  | CallCheck nat
  | CallTouch nat
  | CallConfirm nat
  | CallFails nat

definition set_view :: "nat \<Rightarrow> lease_view \<Rightarrow> lease_system \<Rightarrow> lease_system" where
  "set_view i v s = s\<lparr>ls_views := (ls_views s)(i := v)\<rparr>"

fun lease_step :: "lease_call \<Rightarrow> lease_system \<Rightarrow> lease_system" where
  "lease_step (Wait d) s = s\<lparr>ls_now := ls_now s + int d\<rparr>"
| "lease_step (CallAdd i) s =
     (if lv_phase (ls_views s i) \<noteq> NotStarted then s
      else (let (ok, entry) = cache_add (ls_now s) i (ls_entry s)
            in set_view i (if ok then \<lparr>lv_phase = Holding, lv_confirmed = Some (ls_now s), lv_touched = ls_now s\<rparr>
                           else (ls_views s i)\<lparr>lv_phase := Stopped\<rparr>) (s\<lparr>ls_entry := entry\<rparr>)))"
| "lease_step (CallCheck i) s =
     (if lv_phase (ls_views s i) \<noteq> Holding then s
      else set_view i ((ls_views s i)\<lparr>lv_phase :=
             (if cache_get (ls_now s) (ls_entry s) = Some i then Checked else Stopped)\<rparr>) s)"
| "lease_step (CallTouch i) s =
     (if lv_phase (ls_views s i) \<noteq> Checked then s
      else (let (ok, entry) = cache_touch (ls_now s) (ls_entry s)
            in set_view i (if ok then (ls_views s i)\<lparr>lv_phase := Touched, lv_touched := ls_now s\<rparr>
                           else (ls_views s i)\<lparr>lv_phase := Stopped\<rparr>) (s\<lparr>ls_entry := entry\<rparr>)))"
| "lease_step (CallConfirm i) s =
     (if lv_phase (ls_views s i) \<noteq> Touched then s
      else set_view i (if cache_get (ls_now s) (ls_entry s) = Some i
             then (ls_views s i)\<lparr>lv_phase := Holding, lv_confirmed := Some (lv_touched (ls_views s i))\<rparr>
             else (ls_views s i)\<lparr>lv_phase := Stopped\<rparr>) s)"
| "lease_step (CallFails i) s = set_view i ((ls_views s i)\<lparr>lv_phase := Stopped\<rparr>) s"

definition no_leases :: "time \<Rightarrow> lease_system" where
  "no_leases now = \<lparr>ls_now = now, ls_entry = None,
     ls_views = (\<lambda>_. \<lparr>lv_phase = NotStarted, lv_confirmed = None, lv_touched = now\<rparr>)\<rparr>"

inductive lease_reachable :: "lease_system \<Rightarrow> bool" where
  start: "lease_reachable (no_leases now)"
| step: "lease_reachable s \<Longrightarrow> lease_reachable (lease_step c s)"

text \<open>A supervisor that has confirmed its lease and has not outlived it.\<close>

definition confirmed :: "nat \<Rightarrow> lease_system \<Rightarrow> bool" where
  "confirmed i s \<longleftrightarrow> (\<exists>t. lv_confirmed (ls_views s i) = Some t \<and> ls_now s < t + lease_seconds)"

text \<open>What the clock and the entry say about one supervisor, and what the entry covers.\<close>

definition view_ok :: "time \<Rightarrow> lease_entry \<Rightarrow> nat \<Rightarrow> lease_view \<Rightarrow> bool" where
  "view_ok now entry i v \<longleftrightarrow> lv_touched v \<le> now \<and> (lv_phase v = NotStarted \<longrightarrow> lv_confirmed v = None)
     \<and> (\<forall>t. lv_confirmed v = Some t \<longrightarrow> t \<le> now \<and> (now < t + lease_seconds \<longrightarrow> (\<exists>e. entry = Some (i, e))))"

definition view_covered :: "time \<Rightarrow> lease_view \<Rightarrow> bool" where
  "view_covered e v \<longleftrightarrow> lv_phase v \<noteq> NotStarted \<and> (\<forall>t. lv_confirmed v = Some t \<longrightarrow> t + lease_seconds \<le> e)
     \<and> (lv_phase v = Touched \<longrightarrow> lv_touched v + lease_seconds \<le> e)"

definition lease_invariant :: "lease_system \<Rightarrow> bool" where
  "lease_invariant s \<longleftrightarrow> (\<forall>i. view_ok (ls_now s) (ls_entry s) i (ls_views s i))
     \<and> (\<forall>i e. ls_entry s = Some (i, e) \<longrightarrow> view_covered e (ls_views s i))"

lemma lease_invariantD:
  assumes "lease_invariant s"
  shows "view_ok (ls_now s) (ls_entry s) i (ls_views s i)"
    "ls_entry s = Some (i, e) \<Longrightarrow> view_covered e (ls_views s i)"
  using assms by (simp_all add: lease_invariant_def)

lemma view_ok_later: "view_ok now entry i v \<Longrightarrow> now \<le> now' \<Longrightarrow> view_ok now' entry i v"
  by (fastforce simp: view_ok_def)

lemma view_ok_extended: "view_ok now (Some (k, e)) i v \<Longrightarrow> view_ok now (Some (k, e')) i v"
  by (fastforce simp: view_ok_def)

lemma cache_get_Some: "cache_get now entry = Some t \<longleftrightarrow> (\<exists>e. entry = Some (t, e) \<and> now < e)"
  by (auto simp: cache_get_def split: option.splits if_splits)

lemma cache_get_None: "cache_get now entry = None \<longleftrightarrow> (\<forall>t e. entry = Some (t, e) \<longrightarrow> e \<le> now)"
  by (auto simp: cache_get_def not_less split: option.splits if_splits)

text \<open>An entry that has expired is no supervisor's confirmed lease, so replacing it hurts none.\<close>

lemma view_ok_replaced:
  assumes "lease_invariant s" "cache_get (ls_now s) (ls_entry s) = None"
  shows "view_ok (ls_now s) entry' i (ls_views s i)"
proof -
  have "\<not> ls_now s < t + lease_seconds" if c: "lv_confirmed (ls_views s i) = Some t" for t
  proof
    assume "ls_now s < t + lease_seconds"
    with lease_invariantD(1)[OF assms(1), of i] c obtain e where e: "ls_entry s = Some (i, e)"
      unfolding view_ok_def by blast
    with lease_invariantD(2)[OF assms(1) e] c have "t + lease_seconds \<le> e" by (simp add: view_covered_def)
    moreover have "e \<le> ls_now s" using assms(2) e by (simp add: cache_get_None)
    ultimately show False using \<open>ls_now s < t + lease_seconds\<close> by simp
  qed
  with lease_invariantD(1)[OF assms(1), of i] show ?thesis unfolding view_ok_def by blast
qed

lemma lease_invariant_start: "lease_invariant (no_leases now)"
  by (simp add: lease_invariant_def no_leases_def view_ok_def)

text \<open>A step that changes the view of one supervisor only.\<close>

lemma lease_invariant_view:
  assumes "lease_invariant s" "view_ok (ls_now s) (ls_entry s) i v"
    and "\<And>e. ls_entry s = Some (i, e) \<Longrightarrow> view_covered e v"
  shows "lease_invariant (set_view i v s)"
  using assms by (simp add: lease_invariant_def set_view_def)

lemma lease_invariant_stop:
  assumes "lease_invariant s"
  shows "lease_invariant (set_view i ((ls_views s i)\<lparr>lv_phase := Stopped\<rparr>) s)"
proof (rule lease_invariant_view[OF assms])
  show "view_ok (ls_now s) (ls_entry s) i ((ls_views s i)\<lparr>lv_phase := Stopped\<rparr>)"
    using lease_invariantD(1)[OF assms, of i] by (simp add: view_ok_def)
  show "view_covered e ((ls_views s i)\<lparr>lv_phase := Stopped\<rparr>)" if "ls_entry s = Some (i, e)" for e
    using lease_invariantD(2)[OF assms that] by (simp add: view_covered_def)
qed

lemma lease_invariant_step:
  assumes I: "lease_invariant s"
  shows "lease_invariant (lease_step c s)"
proof (cases c)
  case (Wait d)
  with I show ?thesis by (auto simp: lease_invariant_def intro: view_ok_later)
next
  case (CallAdd i)
  show ?thesis
  proof (cases "lv_phase (ls_views s i) = NotStarted")
    case False
    with CallAdd I show ?thesis by simp
  next
    case new: True
    show ?thesis
    proof (cases "cache_get (ls_now s) (ls_entry s) = None")
      case True
      let ?e = "ls_now s + lease_seconds"
      have "view_ok (ls_now s) (Some (i, ?e)) j (ls_views s j)" for j by (rule view_ok_replaced[OF I True])
      moreover have "view_ok (ls_now s) (Some (i, ?e)) i \<lparr>lv_phase = Holding, lv_confirmed = Some (ls_now s), lv_touched = ls_now s\<rparr>"
        by (simp add: view_ok_def)
      ultimately show ?thesis
        using CallAdd new True by (simp add: lease_invariant_def set_view_def cache_add_def view_covered_def)
    next
      case False
      with CallAdd new lease_invariant_stop[OF I, of i] show ?thesis by (auto simp: cache_add_def)
    qed
  qed
next
  case (CallCheck i)
  have "lease_invariant (set_view i ((ls_views s i)\<lparr>lv_phase := Checked\<rparr>) s)"
    using lease_invariantD[OF I, of i]
    by (intro lease_invariant_view[OF I]) (auto simp: view_ok_def view_covered_def)
  with CallCheck I lease_invariant_stop[OF I, of i] show ?thesis by simp
next
  case (CallTouch i)
  show ?thesis
  proof (cases "lv_phase (ls_views s i) = Checked")
    case False
    with CallTouch I show ?thesis by simp
  next
    case checked: True
    show ?thesis
    proof (cases "cache_get (ls_now s) (ls_entry s)")
      case None
      with CallTouch checked lease_invariant_stop[OF I, of i] show ?thesis by (simp add: cache_touch_def)
    next
      case (Some k)
      then obtain e where e: "ls_entry s = Some (k, e)" by (auto simp: cache_get_Some)
      let ?e = "ls_now s + lease_seconds"
      let ?v = "(ls_views s i)\<lparr>lv_phase := Touched, lv_touched := ls_now s\<rparr>"
      let ?s = "s\<lparr>ls_entry := Some (k, ?e)\<rparr>"
      have ok: "view_ok (ls_now s) (Some (k, ?e)) j (ls_views s j)" for j
        using lease_invariantD(1)[OF I, of j] e by (auto intro: view_ok_extended)
      have cov: "view_covered ?e (ls_views s k)"
        using lease_invariantD(2)[OF I e] lease_invariantD(1)[OF I, of k]
        by (auto simp: view_covered_def view_ok_def)
      have "lease_invariant ?s" using ok cov by (simp add: lease_invariant_def)
      then have "lease_invariant (set_view i ?v ?s)"
      proof (rule lease_invariant_view)
        show "view_ok (ls_now ?s) (ls_entry ?s) i ?v" using ok[of i] checked by (simp add: view_ok_def)
        show "view_covered e' ?v" if "ls_entry ?s = Some (i, e')" for e'
          using that cov by (auto simp: view_covered_def)
      qed
      with CallTouch checked Some show ?thesis by (simp add: cache_touch_def)
    qed
  qed
next
  case (CallConfirm i)
  show ?thesis
  proof (cases "lv_phase (ls_views s i) = Touched \<and> cache_get (ls_now s) (ls_entry s) = Some i")
    case False
    with CallConfirm I lease_invariant_stop[OF I, of i] show ?thesis by auto
  next
    case True
    then obtain e where e: "ls_entry s = Some (i, e)" by (auto simp: cache_get_Some)
    have "lease_invariant (set_view i ((ls_views s i)\<lparr>lv_phase := Holding, lv_confirmed := Some (lv_touched (ls_views s i))\<rparr>) s)"
      using lease_invariantD(1)[OF I, of i] lease_invariantD(2)[OF I e] True e
      by (intro lease_invariant_view[OF I]) (auto simp: view_ok_def view_covered_def)
    with CallConfirm True show ?thesis by simp
  qed
next
  case (CallFails i)
  with lease_invariant_stop[OF I, of i] show ?thesis by simp
qed

lemma lease_reachable_invariant: "lease_reachable s \<Longrightarrow> lease_invariant s"
  by (induction rule: lease_reachable.induct) (simp_all add: lease_invariant_start lease_invariant_step)

text \<open>The whole heartbeat without interruption is \<open>refresh\<close>.\<close>

lemma refresh_steps:
  assumes "lv_phase (ls_views s i) = Holding"
  shows "ls_entry (lease_step (CallConfirm i) (lease_step (CallTouch i) (lease_step (CallCheck i) s)))
      = snd (refresh True (ls_now s) i (ls_entry s))
    \<and> (lv_phase (ls_views (lease_step (CallConfirm i) (lease_step (CallTouch i) (lease_step (CallCheck i) s))) i) = Holding)
      = fst (refresh True (ls_now s) i (ls_entry s))"
  using assms
  by (cases "ls_entry s") (auto simp: refresh_def set_view_def cache_touch_def cache_get_def lease_seconds_def)

lemma refresh_exact:
  "refresh up now token entry =
     (if up \<and> cache_get now entry = Some token then (True, Some (token, now + lease_seconds)) else (False, entry))"
  by (auto simp: refresh_def cache_touch_def cache_get_def lease_seconds_def split: option.splits)

text \<open>C11: however the cache calls of any number of supervisors interleave, and however long each of
  them is delayed, at most one supervisor at a time is within one lease period of the last write it
  has confirmed, and while one is, the cache holds its token and refuses every acquisition.  An
  uninterrupted heartbeat renews exactly the live lease of its own.  The cache is one that drops no entry
  before it expires.\<close>

theorem lease_exclusive:
  assumes "lease_reachable s" "confirmed i s"
  shows "(confirmed j s \<longrightarrow> j = i) \<and> cache_get (ls_now s) (ls_entry s) = Some i
    \<and> fst (acquire up (ls_now s) j (ls_entry s)) = False
    \<and> refresh True (ls_now s) j (ls_entry s)
       = (if j = i then (True, Some (i, ls_now s + lease_seconds)) else (False, ls_entry s))"
proof -
  have I: "lease_invariant s" by (rule lease_reachable_invariant[OF assms(1)])
  have live: "cache_get (ls_now s) (ls_entry s) = Some k" if "confirmed k s" for k
  proof -
    from that obtain t where t: "lv_confirmed (ls_views s k) = Some t" "ls_now s < t + lease_seconds"
      by (auto simp: confirmed_def)
    with lease_invariantD(1)[OF I, of k] obtain e where e: "ls_entry s = Some (k, e)" unfolding view_ok_def by blast
    with lease_invariantD(2)[OF I e] t show ?thesis by (auto simp: view_covered_def cache_get_Some)
  qed
  from live[OF assms(2)] live[of j] show ?thesis
    by (auto simp: acquire_def cache_add_def refresh_exact)
qed

theorem lease_exclusive_witness:
  "let s = lease_step (Wait 30) (lease_step (CallAdd 1) (no_leases 100))
   in lease_reachable s \<and> confirmed 1 s \<and> \<not> confirmed 2 s \<and> cache_get (ls_now s) (ls_entry s) = Some 1"
proof -
  let ?s = "lease_step (Wait 30) (lease_step (CallAdd 1) (no_leases 100))"
  have r: "lease_reachable ?s" by (intro lease_reachable.intros)
  have c: "confirmed 1 ?s" by (simp add: confirmed_def no_leases_def cache_add_def cache_get_def set_view_def lease_seconds_def)
  from lease_exclusive[OF r c, of 2 True] r c show ?thesis unfolding Let_def by simp
qed

section \<open>The circular choice of devices\<close>

text \<open>A row of the queryset is its key and the identifier to subscribe.  \<open>pyd_int\<close> is pydantic's
  reading of a value as an integer; the package itself writes integers.\<close>

definition selection_cursor_key :: "string \<Rightarrow> string \<Rightarrow> string" where
  "selection_cursor_key transport scope = ''micboard:realtime-selection-cursor:v1:'' @ transport @ '':'' @ scope"

fun selection_cursor_of :: "(json \<Rightarrow> int option) \<Rightarrow> json \<Rightarrow> nat" where
  "selection_cursor_of pyd_int (JObj kvs) =
     (if list_all (\<lambda>kv. fst kv = ''after_id'') kvs
      then (case map_of kvs ''after_id'' of None \<Rightarrow> 0
          | Some v \<Rightarrow> (case pyd_int v of None \<Rightarrow> 0 | Some n \<Rightarrow> if 0 \<le> n then nat n else 0))
      else 0)"
| "selection_cursor_of pyd_int _ = 0"

definition read_selection_cursor :: "(json \<Rightarrow> int option) \<Rightarrow> string \<Rightarrow> cursor_cache \<Rightarrow> nat" where
  "read_selection_cursor pyd_int key cache =
     (if \<not> cc_up cache then 0
      else case cc_entries cache key of None \<Rightarrow> 0 | Some v \<Rightarrow> selection_cursor_of pyd_int v)"

definition write_selection_cursor :: "string \<Rightarrow> nat \<Rightarrow> cursor_cache \<Rightarrow> cursor_cache" where
  "write_selection_cursor key after cache =
     (if cc_up cache
      then cache\<lparr>cc_entries := (cc_entries cache)(key \<mapsto> JObj [(''after_id'', JInt (int after))])\<rparr> else cache)"

definition subscription_window :: "nat \<Rightarrow> nat \<Rightarrow> (nat \<times> string) list \<Rightarrow> (nat \<times> string) list" where
  "subscription_window after limit rows =
     (let selected = take limit (sort_key fst (filter (\<lambda>r. after < fst r) rows));
          remaining = limit - length selected
      in if remaining \<noteq> 0 \<and> after \<noteq> 0
         then selected @ take remaining (sort_key fst (filter (\<lambda>r. fst r \<le> after) rows)) else selected)"

definition select_fair_queryset_batch ::
  "(json \<Rightarrow> int option) \<Rightarrow> string \<Rightarrow> string \<Rightarrow> int \<Rightarrow> (nat \<times> string) list \<Rightarrow> cursor_cache
     \<Rightarrow> (nat \<times> string) list \<times> cursor_cache"
where
  "select_fair_queryset_batch pyd_int transport scope limit rows cache =
     (let bounded_limit = nat (min (max limit 1) hard_max_subscription_devices);
          key = selection_cursor_key transport scope;
          selected = subscription_window (read_selection_cursor pyd_int key cache) bounded_limit rows
      in (selected, if selected = [] then cache else write_selection_cursor key (fst (last selected)) cache))"

fun select_rounds ::
  "nat \<Rightarrow> (json \<Rightarrow> int option) \<Rightarrow> string \<Rightarrow> string \<Rightarrow> int \<Rightarrow> (nat \<times> string) list \<Rightarrow> cursor_cache
     \<Rightarrow> (nat \<times> string) list list"
where
  "select_rounds 0 pyd_int transport scope limit rows cache = []"
| "select_rounds (Suc k) pyd_int transport scope limit rows cache =
     (let (w, cache') = select_fair_queryset_batch pyd_int transport scope limit rows cache
      in w # select_rounds k pyd_int transport scope limit rows cache')"

lemma window_is_ring:
  assumes d: "distinct (map fst rows)" and pos: "\<forall>r \<in> set rows. 0 < fst r"
  shows "subscription_window after limit rows = take limit (cursor_order after rows)"
proof -
  let ?S = "in_key_order rows"
  let ?A = "sort_key fst (filter (\<lambda>r. after < fst r) rows)" and ?B = "sort_key fst (filter (\<lambda>r. fst r \<le> after) rows)"
  have A: "?A = filter (\<lambda>r. after < fst r) ?S" and B: "?B = filter (\<lambda>r. \<not> after < fst r) ?S"
    by (simp_all add: in_key_order_def filter_sort not_less)
  from strict_split[OF key_order_sorted[OF d], of after] obtain i where
    i: "i \<le> length ?S" "filter (\<lambda>r. after < fst r) ?S = drop i ?S" "filter (\<lambda>r. \<not> after < fst r) ?S = take i ?S"
    by blast
  have "rotate i ?S = drop i ?S @ take i ?S"
    using i(1) by (cases "i = length ?S") (simp_all add: rotate_drop_take)
  then have ring: "cursor_order after rows = ?A @ ?B"
    using cursor_order_split[OF d i] A B i by simp
  have empty: "?B = []" if "after = 0"
    using pos that by (auto simp: filter_empty_conv)
  show ?thesis
  proof (cases "after = 0 \<or> limit \<le> length ?A")
    case True
    then show ?thesis using empty by (auto simp: subscription_window_def ring Let_def)
  next
    case False
    then show ?thesis by (auto simp: subscription_window_def ring Let_def)
  qed
qed

lemma selection_step:
  assumes d: "distinct (map fst rows)" and pos: "\<forall>r \<in> set rows. 0 < fst r" and up: "cc_up cache"
    and pyd: "\<And>n. pyd_int (JInt n) = Some n"
    and sel: "select_fair_queryset_batch pyd_int transport scope limit rows cache = (w, cache')"
    and L: "L = nat (min (max limit 1) hard_max_subscription_devices)"
  shows "w = take L (cursor_order (read_selection_cursor pyd_int (selection_cursor_key transport scope) cache) rows)
    \<and> cc_up cache'
    \<and> cursor_order (read_selection_cursor pyd_int (selection_cursor_key transport scope) cache') rows
      = rotate (min L (length rows)) (cursor_order (read_selection_cursor pyd_int (selection_cursor_key transport scope) cache) rows)"
proof -
  let ?key = "selection_cursor_key transport scope"
  let ?R = "cursor_order (read_selection_cursor pyd_int ?key cache) rows"
  have Lp: "0 < L" by (simp add: L hard_max_subscription_devices_def)
  have w: "w = take L ?R"
    and c': "cache' = (if w = [] then cache else write_selection_cursor ?key (fst (last w)) cache)"
    using sel by (auto simp: select_fair_queryset_batch_def Let_def L[symmetric] window_is_ring[OF d pos])
  have len: "length ?R = length rows" by (simp add: cursor_order_def)
  have "cursor_order (read_selection_cursor pyd_int ?key cache') rows = rotate (min L (length rows)) ?R"
  proof (cases "rows = []")
    case True
    then show ?thesis by (simp add: cursor_order_def)
  next
    case False
    let ?k = "min L (length rows)"
    have wk: "w = take ?k ?R" using w len by (simp add: min_def)
    have "w \<noteq> []" using wk False Lp len by (metis length_0_conv length_take min.idem min_0L min_less_iff_conj neq0_conv take_eq_Nil)
    then have "read_selection_cursor pyd_int ?key cache' = fst (last w)"
      using up pyd by (simp add: c' read_selection_cursor_def write_selection_cursor_def)
    then show ?thesis
      using ring_step[OF d, of ?k "read_selection_cursor pyd_int ?key cache"] False Lp wk by simp
  qed
  moreover have "cc_up cache'" using up by (simp add: c' write_selection_cursor_def)
  ultimately show ?thesis using w by simp
qed

lemma select_rounds_windows:
  assumes d: "distinct (map fst rows)" and pos: "\<forall>r \<in> set rows. 0 < fst r"
    and pyd: "\<And>n. pyd_int (JInt n) = Some n" and L: "L = nat (min (max limit 1) hard_max_subscription_devices)"
    and up: "cc_up cache"
  shows "select_rounds k pyd_int transport scope limit rows cache
    = map (\<lambda>j. take L (rotate (j * min L (length rows))
        (cursor_order (read_selection_cursor pyd_int (selection_cursor_key transport scope) cache) rows))) [0..<k]"
  using up
proof (induction k arbitrary: cache)
  case 0
  then show ?case by simp
next
  case (Suc k)
  let ?R = "cursor_order (read_selection_cursor pyd_int (selection_cursor_key transport scope) cache) rows"
  obtain w c1 where s: "select_fair_queryset_batch pyd_int transport scope limit rows cache = (w, c1)" by fastforce
  note step = selection_step[OF d pos Suc.prems pyd s L]
  have "select_rounds (Suc k) pyd_int transport scope limit rows cache
      = map (\<lambda>j. take L (rotate (j * min L (length rows)) ?R)) (0 # map Suc [0..<k])"
    using step Suc.IH[of c1] by (simp add: s rotate_rotate o_def add.commute)
  also have "0 # map Suc [0..<k] = [0..<Suc k]" by (simp add: map_Suc_upt upt_conv_Cons del: upt_Suc)
  finally show ?case .
qed

text \<open>C12: the supervisor's choice of devices is bounded and fair: a choice never exceeds the limit,
  and as many consecutive choices as the inventory is long over the limit reach every device.\<close>

theorem selection_fair:
  assumes "distinct (map fst rows)" "\<forall>r \<in> set rows. 0 < fst r" "cc_up cache"
    and pyd: "\<forall>n. pyd_int (JInt n) = Some n" and L: "L = nat (min (max limit 1) hard_max_subscription_devices)"
    and k: "length rows \<le> k * L"
  shows "set (concat (select_rounds k pyd_int transport scope limit rows cache)) = set rows
    \<and> list_all (\<lambda>w. length w \<le> L \<and> distinct w) (select_rounds k pyd_int transport scope limit rows cache)"
proof -
  let ?R = "cursor_order (read_selection_cursor pyd_int (selection_cursor_key transport scope) cache) rows"
  let ?l = "min L (length rows)"
  note W = select_rounds_windows[OF assms(1,2) pyd[rule_format] L assms(3), of k transport scope]
  have R: "set ?R = set rows" "length ?R = length rows" "distinct ?R"
    using assms(1) by (simp_all add: cursor_order_def distinct_map)
  have win: "take L (rotate i ?R) = take ?l (rotate i ?R)" for i using R(2) by (simp add: min_def)
  have Lp: "0 < L" by (simp add: L hard_max_subscription_devices_def)
  have "set rows \<subseteq> set (concat (map (\<lambda>j. take ?l (rotate (j * ?l) ?R)) [0..<k]))"
  proof (cases "rows = []")
    case False
    have "length ?R \<le> k * ?l" using k False R(2) by (cases "L \<le> length rows"; cases k) (auto simp: min_def)
    then show ?thesis using windows_cover[of _ ?R k ?l] R False Lp by fastforce
  qed simp
  moreover have "set (concat (map (\<lambda>j. take ?l (rotate (j * ?l) ?R)) [0..<k])) \<subseteq> set ?R"
    using set_take_subset by fastforce
  ultimately have "set (concat (select_rounds k pyd_int transport scope limit rows cache)) = set rows"
    unfolding W win using R(1) by blast
  moreover have "list_all (\<lambda>w. length w \<le> L \<and> distinct w) (select_rounds k pyd_int transport scope limit rows cache)"
    unfolding W using R(3) by (simp add: list_all_iff distinct_take)
  ultimately show ?thesis by simp
qed

theorem selection_fair_witness:
  "let rows = [(5, ''e''), (1, ''a''), (3, ''c'')]; pyd_int = (\<lambda>v. case v of JInt n \<Rightarrow> Some n | _ \<Rightarrow> None)
   in set (concat (select_rounds 2 pyd_int ''sse'' ''7'' 2 rows sample_cache)) = {(1, ''a''), (3, ''c''), (5, ''e'')}"
proof -
  let ?rows = "[(5, ''e''), (1, ''a''), (3, ''c'')] :: (nat \<times> string) list"
  let ?pyd = "\<lambda>v. case v of JInt n \<Rightarrow> Some n | _ \<Rightarrow> None"
  have "distinct (map fst ?rows)" "\<forall>r \<in> set ?rows. 0 < fst r" "cc_up sample_cache" "\<forall>n. ?pyd (JInt n) = Some n"
    "2 = nat (min (max 2 1) hard_max_subscription_devices)" "length ?rows \<le> 2 * 2"
    by (simp_all add: sample_cache_def hard_max_subscription_devices_def)
  from selection_fair[OF this, of "''sse''" "''7''"] show ?thesis by (auto simp: Let_def insert_commute)
qed

section \<open>One round of subscriptions\<close>

datatype outcome = Completed | TimedOut | Raised

datatype 'a worker = Ready | Busy 'a | Finished

record 'a pool =
  pq_queue :: "'a list"
  pq_workers :: "'a worker list"
  pq_ended :: "('a \<times> outcome) list"
  pq_timed_out :: bool

definition start_pool :: "nat \<Rightarrow> 'a list \<Rightarrow> 'a pool" where
  "start_pool max_concurrency items =
     \<lparr>pq_queue = items, pq_workers = replicate (min max_concurrency (length items)) Ready,
      pq_ended = [], pq_timed_out = False\<rparr>"

text \<open>One move of worker \<open>w\<close>: it takes the next item or stops when there is none, or its
  subscription ends with the outcome \<open>oc\<close>.\<close>

definition pool_step :: "nat \<Rightarrow> outcome \<Rightarrow> 'a pool \<Rightarrow> 'a pool option" where
  "pool_step w oc p =
     (if w < length (pq_workers p)
      then (case pq_workers p ! w of
          Ready \<Rightarrow> (case pq_queue p of
              [] \<Rightarrow> Some (p\<lparr>pq_workers := (pq_workers p)[w := Finished]\<rparr>)
            | x # xs \<Rightarrow> Some (p\<lparr>pq_queue := xs, pq_workers := (pq_workers p)[w := Busy x]\<rparr>))
        | Busy x \<Rightarrow> Some (p\<lparr>pq_workers := (pq_workers p)[w := Ready], pq_ended := pq_ended p @ [(x, oc)],
                           pq_timed_out := (pq_timed_out p \<or> oc = TimedOut)\<rparr>)
        | Finished \<Rightarrow> None)
      else None)"

fun pool_run :: "(nat \<times> outcome) list \<Rightarrow> 'a pool \<Rightarrow> 'a pool option" where
  "pool_run [] p = Some p"
| "pool_run ((w, oc) # cs) p = (case pool_step w oc p of None \<Rightarrow> None | Some p' \<Rightarrow> pool_run cs p')"

definition pool_finished :: "'a pool \<Rightarrow> bool" where
  "pool_finished p = list_all (\<lambda>w. w = Finished) (pq_workers p)"

fun worker_item :: "'a worker \<Rightarrow> 'a list" where
  "worker_item (Busy x) = [x]"
| "worker_item _ = []"

fun worker_moves :: "'a worker \<Rightarrow> nat" where
  "worker_moves Ready = 1"
| "worker_moves (Busy x) = 2"
| "worker_moves Finished = 0"

text \<open>The moves still to come.\<close>

definition moves_left :: "'a pool \<Rightarrow> nat" where
  "moves_left p = 2 * length (pq_queue p) + sum_list (map worker_moves (pq_workers p))"

definition pool_items :: "'a pool \<Rightarrow> 'a multiset" where
  "pool_items p = mset (pq_queue p) + mset (concat (map worker_item (pq_workers p))) + mset (map fst (pq_ended p))"

definition pool_consistent :: "'a pool \<Rightarrow> bool" where
  "pool_consistent p \<longleftrightarrow> (pq_timed_out p \<longleftrightarrow> TimedOut \<in> snd ` set (pq_ended p))
     \<and> (Finished \<in> set (pq_workers p) \<longrightarrow> pq_queue p = [])"

lemma pool_stepE:
  assumes "pool_step w oc p = Some p'"
  obtains (stops) as bs where "pq_workers p = as @ Ready # bs" "pq_queue p = []"
      "p' = p\<lparr>pq_workers := as @ Finished # bs\<rparr>"
  | (takes) as bs x xs where "pq_workers p = as @ Ready # bs" "pq_queue p = x # xs"
      "p' = p\<lparr>pq_queue := xs, pq_workers := as @ Busy x # bs\<rparr>"
  | (ends) as bs x where "pq_workers p = as @ Busy x # bs"
      "p' = p\<lparr>pq_workers := as @ Ready # bs, pq_ended := pq_ended p @ [(x, oc)],
              pq_timed_out := (pq_timed_out p \<or> oc = TimedOut)\<rparr>"
proof -
  let ?ws = "pq_workers p"
  from assms have w: "w < length ?ws" by (auto simp: pool_step_def split: if_splits)
  have split: "?ws = take w ?ws @ ?ws ! w # drop (Suc w) ?ws" using w by (rule id_take_nth_drop)
  have upd: "?ws[w := v] = take w ?ws @ v # drop (Suc w) ?ws" for v using w by (rule upd_conv_take_nth_drop)
  show thesis
  proof (cases "?ws ! w")
    case Ready
    with assms w split upd stops takes show ?thesis
      by (cases "pq_queue p") (auto simp: pool_step_def)
  next
    case (Busy x)
    with assms w split upd ends show ?thesis by (auto simp: pool_step_def)
  next
    case Finished
    with assms w show ?thesis by (simp add: pool_step_def)
  qed
qed

lemma pool_step_kept:
  assumes "pool_step w oc p = Some p'"
  shows "moves_left p = Suc (moves_left p') \<and> pool_items p' = pool_items p
    \<and> length (pq_workers p') = length (pq_workers p) \<and> (pool_consistent p \<longrightarrow> pool_consistent p')"
  by (rule pool_stepE[OF assms]) (auto simp: moves_left_def pool_items_def pool_consistent_def)

lemma pool_run_kept:
  assumes "pool_run cs p = Some p'"
  shows "moves_left p = length cs + moves_left p' \<and> pool_items p' = pool_items p
    \<and> length (pq_workers p') = length (pq_workers p) \<and> (pool_consistent p \<longrightarrow> pool_consistent p')"
  using assms
proof (induction cs p rule: pool_run.induct)
  case (2 w oc cs p)
  then show ?case by (auto split: option.splits dest!: pool_step_kept)
qed simp

lemma no_moves_left: "moves_left p = 0 \<longleftrightarrow> pq_queue p = [] \<and> pool_finished p"
proof -
  have "worker_moves w = 0 \<longleftrightarrow> w = Finished" for w :: "'a worker" by (cases w) simp_all
  then show ?thesis by (auto simp: moves_left_def pool_finished_def list_all_iff)
qed

lemma pool_can_move:
  assumes "\<not> pool_finished p"
  shows "\<exists>w. pool_step w oc p \<noteq> None"
proof -
  from assms obtain w where "w < length (pq_workers p)" "pq_workers p ! w \<noteq> Finished"
    by (auto simp: pool_finished_def list_all_length)
  then have "pool_step w oc p \<noteq> None"
    by (cases "pq_workers p ! w") (auto simp: pool_step_def split: list.split)
  then show ?thesis ..
qed

lemma finished_items: "pool_finished p \<Longrightarrow> concat (map worker_item (pq_workers p)) = []"
  by (auto simp: pool_finished_def list_all_iff)

text \<open>C13: a round ends under every schedule of its workers: it can always move until all workers
  have finished, which is after exactly two moves per device and one per worker; then every chosen
  device has been subscribed exactly once, and the round reports a time-out exactly when one of the
  subscriptions timed out.  At no moment are more devices subscribed than the concurrency limit.\<close>

theorem round_ends:
  assumes run: "pool_run cs (start_pool n items) = Some p" and n: "0 < n"
  shows "length cs \<le> 2 * length items + min n (length items)
    \<and> (pool_finished p = (length cs = 2 * length items + min n (length items)))
    \<and> (pool_finished p \<or> (\<exists>w. pool_step w oc p \<noteq> None))
    \<and> length (concat (map worker_item (pq_workers p))) \<le> n
    \<and> (pq_timed_out p = (TimedOut \<in> snd ` set (pq_ended p)))
    \<and> mset (map fst (pq_ended p)) \<subseteq># mset items
    \<and> (if pool_finished p then mset (map fst (pq_ended p)) = mset items else True)"
proof -
  let ?p0 = "start_pool n items"
  have m0: "moves_left ?p0 = 2 * length items + min n (length items)"
    unfolding moves_left_def start_pool_def by (simp add: sum_list_replicate)
  have i0: "pool_items ?p0 = mset items" by (simp add: pool_items_def start_pool_def)
  have c0: "pool_consistent ?p0" by (auto simp: pool_consistent_def start_pool_def)
  have K: "moves_left ?p0 = length cs + moves_left p" "pool_items p = mset items"
    "length (pq_workers p) = min n (length items)" "pool_consistent p"
    using pool_run_kept[OF run] i0 c0 by (auto simp: start_pool_def)
  have q: "pq_queue p = []" if "pool_finished p"
  proof (cases "pq_workers p")
    case Nil
    with K(3) n have "items = []" by (metis length_0_conv list.size(3) min_def neq0_conv)
    with K(2) show ?thesis by (simp add: pool_items_def)
  next
    case (Cons w ws)
    with that have "Finished \<in> set (pq_workers p)" by (simp add: pool_finished_def)
    with K(4) show ?thesis by (simp add: pool_consistent_def)
  qed
  have fin: "pool_finished p = (length cs = 2 * length items + min n (length items))"
    using K(1) m0 no_moves_left[of p] q by auto
  have "length (worker_item w) \<le> 1" for w :: "'a worker" by (cases w) simp_all
  then have "length (concat (map worker_item ws)) \<le> length ws" for ws :: "'a worker list"
    by (induction ws) (simp_all, metis One_nat_def Suc_leI add_le_mono plus_1_eq_Suc)
  then have "length (concat (map worker_item (pq_workers p))) \<le> length (pq_workers p)" .
  then have busy: "length (concat (map worker_item (pq_workers p))) \<le> n" using K(3) by simp
  have sub: "mset (map fst (pq_ended p)) \<subseteq># mset items"
    unfolding K(2)[symmetric] pool_items_def by simp
  have all: "mset (map fst (pq_ended p)) = mset items" if "pool_finished p"
    using K(2) q[OF that] finished_items[OF that] by (simp add: pool_items_def)
  show ?thesis
    using K(1) m0 fin busy sub all pool_can_move[of p oc] K(4) by (auto simp: pool_consistent_def)
qed

theorem round_ends_witness:
  "\<exists>p. pool_run [(0, Completed), (1, Completed), (1, TimedOut), (1, Completed), (0, Completed), (0, Completed),
        (1, Raised), (1, Completed)] (start_pool 2 [10, 20, 30 :: nat]) = Some p
     \<and> pool_finished p \<and> pq_timed_out p \<and> mset (map fst (pq_ended p)) = mset [10, 20, 30]"
proof -
  let ?cs = "[(0, Completed), (1, Completed), (1, TimedOut), (1, Completed), (0, Completed), (0, Completed),
        (1, Raised), (1, Completed)]"
  obtain p where r: "pool_run ?cs (start_pool 2 [10, 20, 30 :: nat]) = Some p" and t: "pq_timed_out p"
    by (simp add: start_pool_def pool_step_def)
  note E = round_ends[OF r, of Completed]
  then have f: "pool_finished p" by simp
  with E have "mset (map fst (pq_ended p)) = mset [10, 20, 30]" by (metis zero_less_numeral)
  with f r t show ?thesis by blast
qed

section \<open>Rounds\<close>

text \<open>\<open>timed_out n xs\<close> is the result of the round with number \<open>n\<close> over the devices \<open>xs\<close>, and
  \<open>reload n\<close> what is selected after it.  The value is the number of rounds run; a supervisor that
  never stops by itself, which only losing the lease cancels, has the value None.\<close>

partial_function (option) run_rounds ::
  "(nat \<Rightarrow> 'a list \<Rightarrow> bool) \<Rightarrow> (nat \<Rightarrow> 'a list) option \<Rightarrow> nat \<Rightarrow> nat \<Rightarrow> 'a list \<Rightarrow> nat option"
where
  "run_rounds timed_out reload max_devices n items =
     (if \<not> timed_out n items \<and> reload = None then Some (Suc n)
      else (case reload of
          None \<Rightarrow> run_rounds timed_out reload max_devices (Suc n) items
        | Some r \<Rightarrow> if take max_devices (r n) = [] then Some (Suc n)
                    else run_rounds timed_out reload max_devices (Suc n) (take max_devices (r n))))"

definition run_supervisor ::
  "(nat \<Rightarrow> 'a list \<Rightarrow> bool) \<Rightarrow> (nat \<Rightarrow> 'a list) option \<Rightarrow> nat \<Rightarrow> 'a list \<Rightarrow> nat option"
where
  "run_supervisor timed_out reload max_devices items =
     (if take max_devices items = [] then Some 0
      else run_rounds timed_out reload max_devices 0 (take max_devices items))"

text \<open>The round after which the supervisor stops.\<close>

definition last_round :: "(nat \<Rightarrow> 'a list \<Rightarrow> bool) \<Rightarrow> (nat \<Rightarrow> 'a list) option \<Rightarrow> nat \<Rightarrow> 'a list \<Rightarrow> nat \<Rightarrow> bool" where
  "last_round timed_out reload max_devices items n =
     (case reload of None \<Rightarrow> \<not> timed_out n items | Some r \<Rightarrow> take max_devices (r n) = [])"

lemma run_rounds_stops:
  assumes "last_round timed_out reload m items (n + k)" "\<forall>j < k. \<not> last_round timed_out reload m items (n + j)"
    and "reload = None \<Longrightarrow> items' = items"
  shows "run_rounds timed_out reload m n items' = Some (Suc (n + k))"
  using assms
proof (induction k arbitrary: n items')
  case 0
  then show ?case
    by (subst run_rounds.simps) (auto simp: last_round_def split: option.splits)
next
  case (Suc k)
  from Suc.prems(2) have now: "\<not> last_round timed_out reload m items n" by (metis add.right_neutral zero_less_Suc)
  have later: "\<forall>j < k. \<not> last_round timed_out reload m items (Suc n + j)"
    using Suc.prems(2) by (metis Suc_less_eq add_Suc add_Suc_right)
  have stop: "last_round timed_out reload m items (Suc n + k)" using Suc.prems(1) by simp
  show ?case
  proof (cases reload)
    case None
    with now Suc.prems(3) have "timed_out n items'" by (simp add: last_round_def)
    then show ?thesis
      using Suc.IH[OF stop later, of items'] None Suc.prems(3)
      by (subst run_rounds.simps) simp
  next
    case (Some r)
    with now have "take m (r n) \<noteq> []" by (simp add: last_round_def)
    then show ?thesis
      using Suc.IH[OF stop later, of "take m (r n)"] Some
      by (subst run_rounds.simps) simp
  qed
qed

lemma run_rounds_last:
  assumes "run_rounds timed_out reload m n items' = Some y"
  shows "(reload = None \<longrightarrow> items' = items) \<longrightarrow> (\<exists>k. y = Suc (n + k) \<and> last_round timed_out reload m items (n + k))"
proof (rule run_rounds.raw_induct[OF _ assms, where
      P = "\<lambda>timed_out reload m n items' y. (reload = None \<longrightarrow> items' = items) \<longrightarrow>
        (\<exists>k. y = Suc (n + k) \<and> last_round timed_out reload m items (n + k))"])
  fix run timed_out reload m n items' y
  assume 1: "\<And>timed_out reload m n items' y. run timed_out reload m n items' = Some y \<Longrightarrow>
        (reload = None \<longrightarrow> items' = items) \<longrightarrow>
        (\<exists>k. y = Suc (n + k) \<and> last_round timed_out reload m items (n + k))"
    "(if \<not> timed_out n items' \<and> reload = None then Some (Suc n)
      else (case reload of
          None \<Rightarrow> run timed_out reload m (Suc n) items'
        | Some r \<Rightarrow> if take m (r n) = [] then Some (Suc n)
                    else run timed_out reload m (Suc n) (take m (r n)))) = Some y"
  show "(reload = None \<longrightarrow> items' = items) \<longrightarrow> (\<exists>k. y = Suc (n + k) \<and> last_round timed_out reload m items (n + k))"
  proof (intro impI)
    assume s: "reload = None \<longrightarrow> items' = items"
    have "(y = Suc n \<and> last_round timed_out reload m items n)
        \<or> (\<exists>xs. run timed_out reload m (Suc n) xs = Some y \<and> (reload = None \<longrightarrow> xs = items))"
    proof (cases reload)
      case None
      with 1(2) s show ?thesis by (cases "timed_out n items'") (simp_all add: last_round_def)
    next
      case (Some r)
      with 1(2) show ?thesis by (cases "take m (r n) = []") (auto simp add: last_round_def)
    qed
    then consider (stops) "y = Suc n" "last_round timed_out reload m items n"
      | (more) xs where "run timed_out reload m (Suc n) xs = Some y" "reload = None \<longrightarrow> xs = items" by blast
    then show "\<exists>k. y = Suc (n + k) \<and> last_round timed_out reload m items (n + k)"
    proof cases
      case stops
      then show ?thesis by (intro exI[of _ 0]) simp
    next
      case more
      from 1(1)[OF more(1)] more(2) obtain k where
        "y = Suc (Suc n + k)" "last_round timed_out reload m items (Suc n + k)" by blast
      then show ?thesis by (intro exI[of _ "Suc k"]) simp
    qed
  qed
qed

text \<open>the supervisor stops by itself exactly when some round is its last: with a reload, when the
  reload selects no device (a deactivated manufacturer); without one, when a round ends with no
  time-out.  It then stops after the first such round.\<close>

theorem supervisor_stops_iff:
  assumes "take m items \<noteq> []"
  shows "(run_supervisor timed_out reload m items \<noteq> None) = (\<exists>n. last_round timed_out reload m (take m items) n)
    \<and> (\<forall>y. run_supervisor timed_out reload m items = Some y \<longrightarrow>
          y = Suc (LEAST n. last_round timed_out reload m (take m items) n))"
proof -
  let ?xs = "take m items" and ?P = "last_round timed_out reload m (take m items)"
  have run: "run_supervisor timed_out reload m items = run_rounds timed_out reload m 0 ?xs"
    using assms by (simp add: run_supervisor_def)
  have stops: "run_rounds timed_out reload m 0 ?xs = Some (Suc (LEAST n. ?P n))" if "\<exists>n. ?P n"
  proof -
    have "?P (LEAST n. ?P n)" using that by (rule LeastI_ex)
    moreover have "\<forall>j < (LEAST n. ?P n). \<not> ?P j" using not_less_Least by blast
    ultimately have "run_rounds timed_out reload m 0 ?xs = Some (Suc (0 + (LEAST n. ?P n)))"
      by (intro run_rounds_stops) (simp_all only: add_0)
    then show ?thesis by (simp only: add_0)
  qed
  have "\<exists>n. ?P n" if y: "run_rounds timed_out reload m 0 ?xs = Some y" for y
  proof -
    have "reload = None \<longrightarrow> ?xs = ?xs" by (rule impI) (rule HOL.refl)
    from mp[OF run_rounds_last[OF y] this] obtain k where "?P (0 + k)" by (elim exE conjE)
    then show ?thesis by (rule exI)
  qed
  then have ex: "run_rounds timed_out reload m 0 ?xs \<noteq> None \<Longrightarrow> \<exists>n. ?P n" by auto
  show ?thesis
  proof (cases "\<exists>n. ?P n")
    case True
    with stops run show ?thesis by simp
  next
    case False
    with ex have "run_rounds timed_out reload m 0 ?xs = None" by blast
    with False run show ?thesis by simp
  qed
qed

theorem supervisor_stops_iff_witness:
  "run_supervisor (\<lambda>n xs. True) (Some (\<lambda>n. if n < 2 then [10] else [])) 4 [20 :: nat] = Some 3"
proof -
  have "last_round (\<lambda>n xs. True) (Some (\<lambda>n. if n < 2 then [10] else [])) 4 (take 4 [20 :: nat]) = (\<lambda>n. 2 \<le> n)"
    by (auto simp: last_round_def fun_eq_iff)
  moreover have "(LEAST n. 2 \<le> n) = (2 :: nat)" by (rule Least_equality) simp_all
  ultimately show ?thesis
    using supervisor_stops_iff[of 4 "[20 :: nat]" "\<lambda>n xs. True" "Some (\<lambda>n. if n < 2 then [10] else [])"]
    by auto
qed

section \<open>The limits\<close>

lemma float_setting_range:
  assumes "lo \<le> d" "d \<le> hi"
  shows "lo \<le> bounded_positive_float_setting f st name d hi lo" "bounded_positive_float_setting f st name d hi lo \<le> hi"
  using assms by (auto simp: bounded_positive_float_setting_def Let_def split: option.splits)

text \<open>The limits the supervisor computes satisfy the constraints of its limits object, so building it
  never fails, and the renewal interval leaves three missed heartbeats before a lease expires.\<close>

lemma subscription_limits_valid:
  "(let l = subscription_limits_from_settings f st in
     1 \<le> sb_max_devices l \<and> sb_max_devices l \<le> hard_max_subscription_devices
     \<and> 1 \<le> sb_max_concurrency l \<and> sb_max_concurrency l \<le> hard_max_subscription_concurrency
     \<and> sb_max_concurrency l \<le> sb_max_devices l
     \<and> 0 < sb_rotation_seconds l \<and> sb_rotation_seconds l \<le> 3600
     \<and> 0 \<le> sb_reconnect_delay_seconds l \<and> sb_reconnect_delay_seconds l \<le> 60)
   \<and> 3 * lease_refresh_seconds < lease_seconds"
proof -
  let ?d = "bounded_positive_setting st ''MICBOARD_REALTIME_MAX_DEVICES'' 64 hard_max_subscription_devices"
  let ?c = "bounded_positive_setting st ''MICBOARD_REALTIME_MAX_CONCURRENCY'' 16 hard_max_subscription_concurrency"
  have "1 \<le> ?d \<and> ?d \<le> hard_max_subscription_devices" "1 \<le> ?c \<and> ?c \<le> hard_max_subscription_concurrency"
    by (rule clamped.range; simp add: hard_max_subscription_devices_def hard_max_subscription_concurrency_def)+
  moreover have "(1::rat) \<le> bounded_positive_float_setting f st nm 300 3600 1" "bounded_positive_float_setting f st nm 300 3600 1 \<le> 3600"
    "0 \<le> bounded_positive_float_setting f st nm 1 60 0" "bounded_positive_float_setting f st nm 1 60 0 \<le> 60" for nm
    by (rule float_setting_range; simp)+
  ultimately show ?thesis
    unfolding subscription_limits_from_settings_def Let_def
    by (auto simp: lease_refresh_seconds_def lease_seconds_def intro: less_le_trans[OF zero_less_one])
qed

end
