(* ===== verification/Realtime_Connections.thy ===== *)
theory Realtime_Connections
  imports Models "HOL-Library.Product_Lexorder" "HOL-Library.Option_ord"
begin

text \<open>
  Connection rows of realtime subscriptions: the state changes of a session
  (\<open>services/realtime/connection_service.py\<close>, the callbacks of \<open>sse_subscription_service.py\<close> and
  \<open>shure_websocket_subscription_service.py\<close>) and the maintenance sweep and summary
  (\<open>services/realtime/health_service.py\<close>).

  A session works on the instance it loaded when it started, the sweep on the rows.  Saving an
  instance writes all its columns to the row, or only the named ones; \<open>session\<close> is the pair of the
  two.  The creation and update stamps of a row are left out.
\<close>

record connection =
  cn_pk :: nat
  cn_chassis :: nat
  cn_type :: string
  cn_status :: string
  cn_connected_at :: "time option"
  cn_last_message_at :: "time option"
  cn_disconnected_at :: "time option"
  cn_error_message :: string
  cn_error_count :: nat
  cn_last_error_at :: "time option"
  cn_reconnect_attempts :: nat

definition connection_states :: "string list" where
  "connection_states = [''connecting'', ''connected'', ''disconnected'', ''error'', ''stopped'']"

section \<open>Sessions\<close>

record session =
  ss_instance :: connection
  ss_row :: connection

definition save_all :: "connection \<Rightarrow> session" where
  "save_all c = \<lparr>ss_instance = c, ss_row = c\<rparr>"

definition mark_connected :: "time \<Rightarrow> session \<Rightarrow> session" where
  "mark_connected now s = save_all ((ss_instance s)\<lparr>cn_status := ''connected'', cn_connected_at := Some now,
     cn_last_message_at := Some now, cn_disconnected_at := None, cn_error_count := 0,
     cn_error_message := [], cn_reconnect_attempts := 0\<rparr>)"

definition mark_error :: "time \<Rightarrow> string \<Rightarrow> session \<Rightarrow> session" where
  "mark_error now msg s = save_all ((ss_instance s)\<lparr>cn_status := ''error'', cn_error_message := msg,
     cn_error_count := cn_error_count (ss_instance s) + 1, cn_last_error_at := Some now\<rparr>)"

definition mark_connecting :: "session \<Rightarrow> session" where
  "mark_connecting s = save_all ((ss_instance s)\<lparr>cn_status := ''connecting''\<rparr>)"

definition mark_stopped :: "time \<Rightarrow> session \<Rightarrow> session" where
  "mark_stopped now s = save_all ((ss_instance s)\<lparr>cn_status := ''stopped'', cn_disconnected_at := Some now\<rparr>)"

definition received_message :: "time \<Rightarrow> session \<Rightarrow> session" where
  "received_message now s =
     (if cn_status (ss_instance s) \<noteq> ''connected'' then mark_connected now s
      else s\<lparr>ss_instance := (ss_instance s)\<lparr>cn_last_message_at := Some now\<rparr>,
             ss_row := (ss_row s)\<lparr>cn_last_message_at := Some now\<rparr>\<rparr>)"

definition time_since_last_message :: "time \<Rightarrow> connection \<Rightarrow> time option" where
  "time_since_last_message now c = map_option (\<lambda>t. now - t) (cn_last_message_at c)"

definition connection_duration :: "time \<Rightarrow> connection \<Rightarrow> time option" where
  "connection_duration now c =
     (if cn_connected_at c = None \<or> cn_status c \<noteq> ''connected'' then None
      else map_option (\<lambda>t. now - t) (cn_connected_at c))"

text \<open>A session starts from the row of its chassis, or from a new one: \<open>get_or_create\<close>, the type of
  an existing row, then \<open>mark_connecting\<close>.\<close>

definition new_connection :: "nat \<Rightarrow> nat \<Rightarrow> string \<Rightarrow> connection" where
  "new_connection pk chassis type' =
     \<lparr>cn_pk = pk, cn_chassis = chassis, cn_type = type', cn_status = ''disconnected'',
      cn_connected_at = None, cn_last_message_at = None, cn_disconnected_at = None, cn_error_message = [],
      cn_error_count = 0, cn_last_error_at = None, cn_reconnect_attempts = 0\<rparr>"

definition open_session :: "nat \<Rightarrow> string \<Rightarrow> connection list \<Rightarrow> session" where
  "open_session chassis type' rows =
     (case qs_first (\<lambda>c. cn_chassis c = chassis) rows of
        None \<Rightarrow> mark_connecting (save_all (new_connection (next_pk cn_pk rows) chassis type'))
      | Some c \<Rightarrow> mark_connecting (save_all (c\<lparr>cn_type := type'\<rparr>)))"

text \<open>What happens to one session: a message, a failure, an intentional stop.  A failed subscription
  records the class of the exception, cut to 160 characters.\<close>

datatype session_event = Message time | Failure time string string | Stop time

fun session_step :: "session \<Rightarrow> session_event \<Rightarrow> session" where
  "session_step s (Message now) = received_message now s"
| "session_step s (Failure now label cls) = mark_error now (take 160 (label @ '' subscription failed: '' @ cls)) s"
| "session_step s (Stop now) = mark_stopped now s"

section \<open>The sweep\<close>

definition max_connections_per_sweep :: nat where "max_connections_per_sweep = 500"

definition stale_message :: string where
  "stale_message = ''Connection appears stale - no messages received''"

definition minutes :: "int \<Rightarrow> time" where "minutes n = n * 60 * 1000000"

definition bounded_ids :: "connection list \<Rightarrow> nat list \<times> bool" where
  "bounded_ids rows =
     (let ids = map cn_pk (take (max_connections_per_sweep + 1) rows)
      in (take max_connections_per_sweep ids, max_connections_per_sweep < length ids))"

definition is_stale :: "time \<Rightarrow> connection \<Rightarrow> bool" where
  "is_stale now c = (cn_status c = ''connected'' \<and> (case cn_last_message_at c of None \<Rightarrow> False | Some t \<Rightarrow> t < now - minutes 10))"

definition is_old_error :: "time \<Rightarrow> connection \<Rightarrow> bool" where
  "is_old_error now c = (cn_status c = ''error'' \<and> (case cn_last_error_at c of None \<Rightarrow> False | Some t \<Rightarrow> t < now - minutes 60))"

definition disconnect_stale :: "time \<Rightarrow> connection \<Rightarrow> connection" where
  "disconnect_stale now c = c\<lparr>cn_status := ''disconnected'', cn_disconnected_at := Some now,
     cn_error_message := stale_message, cn_error_count := cn_error_count c + 1, cn_last_error_at := Some now\<rparr>"

definition reset_error :: "time \<Rightarrow> connection \<Rightarrow> connection" where
  "reset_error now c = c\<lparr>cn_status := ''disconnected'', cn_disconnected_at := Some now,
     cn_error_count := 0, cn_error_message := []\<rparr>"

text \<open>\<open>filter(pk__in=ids).update(...)\<close>: the new table and the number of rows changed.\<close>

definition update_rows :: "nat list \<Rightarrow> (connection \<Rightarrow> connection) \<Rightarrow> connection list \<Rightarrow> connection list \<times> nat" where
  "update_rows ids f rows =
     (map (\<lambda>c. if cn_pk c \<in> set ids then f c else c) rows, length (filter (\<lambda>c. cn_pk c \<in> set ids) rows))"

record health_result =
  hr_stale_disconnected :: nat
  hr_errors_reset :: nat
  hr_active :: nat
  hr_errors :: nat
  hr_stale_truncated :: bool
  hr_error_truncated :: bool

definition status_count :: "string \<Rightarrow> connection list \<Rightarrow> nat" where
  "status_count st rows = length (filter (\<lambda>c. cn_status c = st) rows)"

definition oldest :: "(connection \<Rightarrow> time option) \<Rightarrow> connection list \<Rightarrow> connection list" where
  "oldest f rows = sort_key (\<lambda>c. (f c, cn_pk c)) rows"

definition cleanup :: "time \<Rightarrow> connection list \<Rightarrow> health_result \<times> connection list" where
  "cleanup now rows =
     (let (stale_ids, stale_truncated) = bounded_ids (oldest cn_last_message_at (filter (is_stale now) rows));
          (rows1, disconnected) = update_rows stale_ids (disconnect_stale now) rows;
          (error_ids, error_truncated) = bounded_ids (oldest cn_last_error_at (filter (is_old_error now) rows1));
          (rows2, reset) = update_rows error_ids (reset_error now) rows1
      in (\<lparr>hr_stale_disconnected = disconnected, hr_errors_reset = reset,
           hr_active = status_count ''connected'' rows2, hr_errors = status_count ''error'' rows2,
           hr_stale_truncated = stale_truncated, hr_error_truncated = error_truncated\<rparr>, rows2))"

record connection_summary =
  cs_total :: nat
  cs_connected :: nat
  cs_connecting :: nat
  cs_disconnected :: nat
  cs_error :: nat
  cs_stopped :: nat
  cs_healthy_percentage :: rat

definition summarize :: "connection list \<Rightarrow> connection_summary" where
  "summarize rows =
     (let total = length rows; connected = status_count ''connected'' rows
      in \<lparr>cs_total = total, cs_connected = connected, cs_connecting = status_count ''connecting'' rows,
          cs_disconnected = status_count ''disconnected'' rows, cs_error = status_count ''error'' rows,
          cs_stopped = status_count ''stopped'' rows,
          cs_healthy_percentage = (if total \<noteq> 0 then of_nat connected / of_nat total * 100 else 0)\<rparr>)"

section \<open>What one sweep does\<close>

lemma bounded_ids_split:
  "fst (bounded_ids rows) = take max_connections_per_sweep (map cn_pk rows)"
  "snd (bounded_ids rows) = (max_connections_per_sweep < length rows)"
  by (auto simp: bounded_ids_def Let_def take_map[symmetric] max_connections_per_sweep_def)

lemma set_oldest [simp]: "set (oldest f rows) = set rows" "length (oldest f rows) = length rows"
  by (simp_all add: oldest_def)

text \<open>One pass of the sweep over rows \<open>P\<close> with the update \<open>f\<close>.\<close>

lemma sweep_pass:
  assumes pks: "distinct (map cn_pk rows)"
    and ids: "ids = fst (bounded_ids (oldest g (filter P rows)))" "trunc = snd (bounded_ids (oldest g (filter P rows)))"
    and up: "update_rows ids f rows = (rows', n)"
  shows "n = min max_connections_per_sweep (length (filter P rows)) \<and> length rows' = length rows
    \<and> list_all2 (\<lambda>r r'. if cn_pk r \<in> set ids then P r \<and> r' = f r else r' = r \<and> (trunc \<or> \<not> P r)) rows rows'"
proof -
  let ?E = "oldest g (filter P rows)"
  have ids': "ids = map cn_pk (take max_connections_per_sweep ?E)" by (simp add: ids bounded_ids_split take_map)
  have sub: "set (take max_connections_per_sweep ?E) \<subseteq> set (filter P rows)"
    using set_take_subset[of max_connections_per_sweep ?E] by simp
  have inj: "inj_on cn_pk (set rows)" using pks by (simp add: distinct_map)
  have mem: "cn_pk r \<in> set ids \<longleftrightarrow> r \<in> set (take max_connections_per_sweep ?E)" if "r \<in> set rows" for r
    using inj_on_image_mem_iff[OF inj that, of "set (take max_connections_per_sweep ?E)"] sub by (auto simp: ids')
  have all: "trunc \<or> set (take max_connections_per_sweep ?E) = set (filter P rows)"
    by (auto simp: ids(2) bounded_ids_split)
  have "filter (\<lambda>c. cn_pk c \<in> set ids) rows = filter (\<lambda>c. c \<in> set (take max_connections_per_sweep ?E)) rows"
    using mem by (intro filter_cong) simp_all
  then have "n = length (filter (\<lambda>c. c \<in> set (take max_connections_per_sweep ?E)) rows)"
    using up by (simp add: update_rows_def)
  also have "\<dots> = card (set (take max_connections_per_sweep ?E))"
  proof -
    have "distinct rows" using pks by (simp add: distinct_map)
    then have "length (filter (\<lambda>c. c \<in> set (take max_connections_per_sweep ?E)) rows)
        = card (set (filter (\<lambda>c. c \<in> set (take max_connections_per_sweep ?E)) rows))"
      by (metis distinct_card distinct_filter)
    moreover have "set (filter (\<lambda>c. c \<in> set (take max_connections_per_sweep ?E)) rows) = set (take max_connections_per_sweep ?E)"
      using sub by auto
    ultimately show ?thesis by simp
  qed
  also have "\<dots> = min max_connections_per_sweep (length (filter P rows))"
  proof -
    have "distinct ?E" using pks by (simp add: oldest_def distinct_map)
    then show ?thesis by (simp add: distinct_card distinct_take)
  qed
  finally have n: "n = min max_connections_per_sweep (length (filter P rows))" .
  have rows': "rows' = map (\<lambda>c. if cn_pk c \<in> set ids then f c else c) rows" using up by (simp add: update_rows_def)
  have each: "if cn_pk r \<in> set ids then P r \<and> (if cn_pk r \<in> set ids then f r else r) = f r
      else (if cn_pk r \<in> set ids then f r else r) = r \<and> (trunc \<or> \<not> P r)" if "r \<in> set rows" for r
    using mem[OF that] sub all that by auto
  have "list_all2 (\<lambda>r r'. if cn_pk r \<in> set ids then P r \<and> r' = f r else r' = r \<and> (trunc \<or> \<not> P r)) rows rows'"
    unfolding rows' list_all2_map2 by (rule list.rel_refl_strong) (rule each)
  with n rows' show ?thesis by simp
qed


lemma sweep_marks [simp]:
  "\<not> is_old_error now (disconnect_stale now c)" "\<not> is_stale now (disconnect_stale now c)"
  "\<not> is_stale now (reset_error now c)" "\<not> is_old_error now (reset_error now c)"
  "cn_pk (disconnect_stale now c) = cn_pk c" "cn_pk (reset_error now c) = cn_pk c"
  "is_stale now c \<Longrightarrow> \<not> is_old_error now c"
  by (auto simp: is_old_error_def is_stale_def disconnect_stale_def reset_error_def)

definition swept :: "time \<Rightarrow> connection \<Rightarrow> connection \<Rightarrow> bool" where
  "swept now c c' = (c' = c \<or> is_stale now c \<and> c' = disconnect_stale now c \<or> is_old_error now c \<and> c' = reset_error now c)"

text \<open>One sweep disconnects \<open>min 500\<close> of the stale connections and resets \<open>min 500\<close> of the old errors,
  whatever the size of the table, and reports these numbers.  Every other row is left as it was,
  keys stay, and a pass that does not report being truncated leaves no eligible row behind.\<close>

lemma cleanup_exact:
  assumes pks: "distinct (map cn_pk rows)"
    and run: "cleanup now rows = (r, rows')"
  shows "hr_stale_disconnected r = min 500 (length (filter (is_stale now) rows))
    \<and> hr_errors_reset r = min 500 (length (filter (is_old_error now) rows))
    \<and> list_all2 (swept now) rows rows' \<and> map cn_pk rows' = map cn_pk rows
    \<and> hr_stale_truncated r = (500 < length (filter (is_stale now) rows))
    \<and> (hr_stale_truncated r \<or> filter (is_stale now) rows' = [])
    \<and> hr_error_truncated r = (500 < length (filter (is_old_error now) rows))
    \<and> (hr_error_truncated r \<or> filter (is_old_error now) rows' = [])"
proof -
  obtain ids trunc where b1: "bounded_ids (oldest cn_last_message_at (filter (is_stale now) rows)) = (ids, trunc)" by fastforce
  obtain rows1 n where u1: "update_rows ids (disconnect_stale now) rows = (rows1, n)" by fastforce
  obtain ids' trunc' where b2: "bounded_ids (oldest cn_last_error_at (filter (is_old_error now) rows1)) = (ids', trunc')" by fastforce
  obtain rows2 m where u2: "update_rows ids' (reset_error now) rows1 = (rows2, m)" by fastforce
  have r: "rows' = rows2" "hr_stale_disconnected r = n" "hr_errors_reset r = m" "hr_stale_truncated r = trunc" "hr_error_truncated r = trunc'"
    using run by (auto simp: cleanup_def b1 u1 b2 u2)
  note p1 = sweep_pass[OF pks _ _ u1, where g = cn_last_message_at and P = "is_stale now" and trunc = trunc, unfolded b1, simplified]
  have pks1: "map cn_pk rows1 = map cn_pk rows" using u1 by (auto simp: update_rows_def)
  have pks2: "map cn_pk rows2 = map cn_pk rows1" using u2 by (auto simp: update_rows_def)
  note p2 = sweep_pass[OF _ _ _ u2, where g = cn_last_error_at and P = "is_old_error now" and trunc = trunc', unfolded b2 pks1, OF pks, simplified]
  have e1: "list_all2 (\<lambda>c c'. (c' = c \<or> is_stale now c \<and> c' = disconnect_stale now c) \<and> (trunc \<or> \<not> is_stale now c')) rows rows1"
    using p1 by (auto elim!: list_all2_mono split: if_splits)
  have e2: "list_all2 (\<lambda>c c'. (c' = c \<or> is_old_error now c \<and> c' = reset_error now c) \<and> (trunc' \<or> \<not> is_old_error now c')) rows1 rows2"
    using p2 by (auto elim!: list_all2_mono split: if_splits)
  have errs: "length (filter (is_old_error now) rows1) = length (filter (is_old_error now) rows)"
    using e1 by (induction rows rows1 rule: list_all2_induct) auto
  have both: "list_all2 (\<lambda>c c'. swept now c c' \<and> (trunc \<or> \<not> is_stale now c') \<and> (trunc' \<or> \<not> is_old_error now c')) rows rows2"
    by (rule list_all2_trans[OF _ e1 e2]) (auto simp: swept_def)
  have left: "list_all2 (\<lambda>c c'. Q c') xs ys \<Longrightarrow> filter (\<lambda>c. \<not> Q c) ys = []" for Q and xs ys :: "connection list"
    by (induction xs ys rule: list_all2_induct) auto
  have "trunc \<or> filter (is_stale now) rows2 = []"
    using left[of "\<lambda>c. \<not> is_stale now c" rows rows2] list_all2_mono[OF both] by (cases trunc) simp_all
  moreover have "trunc' \<or> filter (is_old_error now) rows2 = []"
    using left[of "\<lambda>c. \<not> is_old_error now c" rows rows2] list_all2_mono[OF both] by (cases trunc') simp_all
  moreover have "list_all2 (swept now) rows rows2" using both by (auto elim: list_all2_mono)
  moreover have "trunc = (500 < length (filter (is_stale now) rows))" "trunc' = (500 < length (filter (is_old_error now) rows1))"
    using bounded_ids_split(2)[of "oldest cn_last_message_at (filter (is_stale now) rows)"]
      bounded_ids_split(2)[of "oldest cn_last_error_at (filter (is_old_error now) rows1)"]
    by (simp_all add: b1 b2 max_connections_per_sweep_def)
  ultimately show ?thesis
    using p1 p2 errs by (simp add: r pks1 pks2 max_connections_per_sweep_def)
qed

text \<open>The summary counts every row once as long as the rows hold known states, so the healthy share is
  a percentage.\<close>

lemma summary_adds_up:
  assumes "\<forall>c\<in>set rows. cn_status c \<in> set connection_states"
  shows "cs_connected (summarize rows) + cs_connecting (summarize rows) + cs_disconnected (summarize rows)
      + cs_error (summarize rows) + cs_stopped (summarize rows) = cs_total (summarize rows)"
  using assms by (induction rows) (auto simp: summarize_def status_count_def connection_states_def Let_def)

lemma healthy_share: "0 \<le> cs_healthy_percentage (summarize rows) \<and> cs_healthy_percentage (summarize rows) \<le> 100"
proof -
  have "status_count ''connected'' rows \<le> length rows" by (simp add: status_count_def)
  then have "(of_nat (status_count ''connected'' rows) :: rat) \<le> of_nat (length rows)" by (simp only: of_nat_le_iff)
  then show ?thesis by (auto simp: summarize_def Let_def divide_le_eq)
qed

section \<open>Sessions and sweeps together\<close>

text \<open>A connected session has seen its connection and a message and carries no error.\<close>

definition consistent :: "connection \<Rightarrow> bool" where
  "consistent c = (cn_status c \<in> set connection_states
     \<and> (cn_status c = ''connected'' \<longrightarrow> cn_connected_at c \<noteq> None \<and> cn_last_message_at c \<noteq> None \<and> cn_disconnected_at c = None
          \<and> cn_error_count c = 0 \<and> cn_error_message c = [] \<and> cn_reconnect_attempts c = 0)
     \<and> (cn_status c = ''error'' \<longrightarrow> cn_last_error_at c \<noteq> None \<and> 0 < cn_error_count c))"

text \<open>A session starts on the row of its chassis; its events and the sweeps of the maintenance task
  follow in any order.\<close>

inductive realtime_reachable :: "session \<Rightarrow> bool" where
  opened: "realtime_reachable (open_session chassis type' rows)"
| event: "realtime_reachable s \<Longrightarrow> realtime_reachable (session_step s e)"
| sweep: "\<lbrakk>realtime_reachable s; cleanup now [ss_row s] = (r, [row])\<rbrakk> \<Longrightarrow> realtime_reachable (s\<lparr>ss_row := row\<rparr>)"

lemma cleanup_one:
  assumes "cleanup now [c] = (r, [c'])"
  shows "swept now c c' \<and> \<not> is_stale now c' \<and> \<not> is_old_error now c'"
proof -
  have "length (filter P [c]) < 500" for P by simp
  then show ?thesis using cleanup_exact[OF _ assms] by (auto split: if_splits)
qed


lemmas session_defs = save_all_def mark_connected_def mark_error_def mark_connecting_def mark_stopped_def received_message_def

definition in_step :: "session \<Rightarrow> bool" where
  "in_step s = (consistent (ss_instance s) \<and> consistent (ss_row s) \<and> cn_status (ss_instance s) \<noteq> ''disconnected''
    \<and> (ss_row s = ss_instance s \<or> cn_status (ss_row s) = ''disconnected''))"

lemma in_step_save [simp]: "in_step (save_all c) = (consistent c \<and> cn_status c \<noteq> ''disconnected'')"
  by (auto simp: in_step_def save_all_def)

lemma in_step_marks [simp]:
  "in_step (mark_connected now s)" "in_step (mark_error now msg s)" "in_step (mark_connecting s)" "in_step (mark_stopped now s)"
  by (simp_all add: mark_connected_def mark_error_def mark_connecting_def mark_stopped_def, simp_all add: consistent_def connection_states_def)

lemma in_step_received: "in_step s \<Longrightarrow> in_step (received_message now s)"
  by (simp add: received_message_def) (auto simp: in_step_def consistent_def)

lemma swept_cases: "swept now c c' \<Longrightarrow> c' = c \<or> cn_status c' = ''disconnected''"
  by (auto simp: swept_def disconnect_stale_def reset_error_def)

lemma disconnected_consistent: "cn_status c = ''disconnected'' \<Longrightarrow> consistent c"
  by (simp add: consistent_def connection_states_def)

lemma cleanup_single: "\<exists>r c'. cleanup now [c] = (r, [c'])"
  by (simp add: cleanup_def update_rows_def case_prod_beta)

lemma first_session:
  "ss_instance (session_step (open_session 7 ''sse'' []) (Message t)) = ss_row (session_step (open_session 7 ''sse'' []) (Message t))"
  "ss_row (session_step (open_session 7 ''sse'' []) (Message t)) = (new_connection (next_pk cn_pk ([] :: connection list)) 7 ''sse'')\<lparr>cn_status := ''connected'',
     cn_connected_at := Some t, cn_last_message_at := Some t\<rparr>"
  by (simp_all add: open_session_def session_defs qs_first_def new_connection_def)

text \<open>C14: However the events of a session and the sweeps of the maintenance task interleave, the
  instance and the row hold a known status, a connected one has its connection and message times and
  no error left, and the row can differ from the instance only by being disconnected.\<close>

theorem realtime_invariant:
  assumes "realtime_reachable s"
  shows "consistent (ss_instance s) \<and> consistent (ss_row s) \<and> cn_status (ss_instance s) \<noteq> ''disconnected''
    \<and> (ss_row s = ss_instance s \<or> cn_status (ss_row s) = ''disconnected'')"
  using assms
proof (induction rule: realtime_reachable.induct)
  case (opened chassis type' rows)
  have "in_step (open_session chassis type' rows)" by (simp add: open_session_def split: option.splits)
  then show ?case unfolding in_step_def .
next
  case (event s e)
  then have "in_step (session_step s e)" by (cases e) (simp_all add: in_step_received in_step_def[of s, symmetric])
  then show ?case unfolding in_step_def .
next
  case (sweep s now r row)
  from swept_cases[OF conjunct1[OF cleanup_one[OF sweep.hyps(2)]]] show ?case
    using sweep.IH disconnected_consistent[of row] by auto
qed

theorem realtime_invariant_witness:
  defines "s \<equiv> session_step (open_session 7 ''sse'' []) (Message 5)"
  shows "cn_status (ss_row s) = ''connected'' \<and> consistent (ss_row s)"
  using realtime_invariant[OF realtime_reachable.event[OF realtime_reachable.opened[of 7 "''sse''" "[]"], of "Message 5"]]
  by (simp add: s_def first_session new_connection_def del: session_step.simps)

lemma messages_keep_row_disconnected:
  assumes "cn_status (ss_instance s) = ''connected''" "cn_status (ss_row s) = ''disconnected''"
  shows "cn_status (ss_instance (fold (\<lambda>t u. session_step u (Message t)) ts s)) = ''connected''
    \<and> cn_status (ss_row (fold (\<lambda>t u. session_step u (Message t)) ts s)) = ''disconnected''
    \<and> cn_error_message (ss_row (fold (\<lambda>t u. session_step u (Message t)) ts s)) = cn_error_message (ss_row s)"
  using assms by (induction ts arbitrary: s) (auto simp: received_message_def)

text \<open>A running session whose row was swept while it was quiet never becomes connected again by
  receiving messages: the instance still says connected, so a message writes its time only, and the
  row keeps the status disconnected and the stale notice, which no later sweep removes.\<close>

theorem stale_session_stays_disconnected:
  assumes "realtime_reachable s" "cn_status (ss_instance s) = ''connected''"
    and "is_stale now (ss_row s)" "cleanup now [ss_row s] = (r, [row])"
  shows "cn_status (ss_row (fold (\<lambda>t u. session_step u (Message t)) ts (s\<lparr>ss_row := row\<rparr>))) = ''disconnected''
    \<and> cn_error_message (ss_row (fold (\<lambda>t u. session_step u (Message t)) ts (s\<lparr>ss_row := row\<rparr>))) = stale_message
    \<and> snd (cleanup later [ss_row (fold (\<lambda>t u. session_step u (Message t)) ts (s\<lparr>ss_row := row\<rparr>))])
        = [ss_row (fold (\<lambda>t u. session_step u (Message t)) ts (s\<lparr>ss_row := row\<rparr>))]"
proof -
  let ?u = "fold (\<lambda>t u. session_step u (Message t)) ts (s\<lparr>ss_row := row\<rparr>)"
  have row: "row = disconnect_stale now (ss_row s)"
    using cleanup_one[OF assms(4)] assms(3) sweep_marks(7) by (auto simp: swept_def)
  have u: "cn_status (ss_row ?u) = ''disconnected'' \<and> cn_error_message (ss_row ?u) = stale_message"
    using messages_keep_row_disconnected[of "s\<lparr>ss_row := row\<rparr>" ts] assms(2) by (simp add: row disconnect_stale_def)
  then have "\<not> is_stale later (ss_row ?u)" "\<not> is_old_error later (ss_row ?u)"
    by (auto simp: is_stale_def is_old_error_def)
  moreover obtain r' row' where c: "cleanup later [ss_row ?u] = (r', [row'])"
    using cleanup_single by blast
  ultimately have "row' = ss_row ?u" using cleanup_one[OF c] by (simp add: swept_def)
  with u c show ?thesis by simp
qed

theorem stale_session_stays_disconnected_witness:
  defines "s \<equiv> session_step (open_session 7 ''sse'' []) (Message 0)"
  shows "cn_status (ss_row (session_step (s\<lparr>ss_row := disconnect_stale (minutes 11) (ss_row s)\<rparr>) (Message (minutes 12)))) = ''disconnected''"
proof -
  have st: "is_stale (minutes 11) (ss_row s)" "cn_status (ss_instance s) = ''connected''"
    by (simp_all add: s_def first_session new_connection_def is_stale_def minutes_def del: session_step.simps)
  obtain r row where c: "cleanup (minutes 11) [ss_row s] = (r, [row])"
    using cleanup_single by blast
  have row: "row = disconnect_stale (minutes 11) (ss_row s)"
    using cleanup_one[OF c] st sweep_marks(7) by (auto simp: swept_def)
  have "realtime_reachable s" unfolding s_def by (intro realtime_reachable.intros)
  from stale_session_stays_disconnected[OF this st(2,1) c, of "[minutes 12]"] show ?thesis by (simp add: row)
qed

end
