(* ===== verification/Device_Updates.thy ===== *)
theory Device_Updates
  imports Manufacturer_Sync Alerts
begin

text \<open>
  Persisting polled and realtime device payloads (\<open>services/sync/device_update_service.py\<close>): one
  chassis per payload with its lifecycle, the channels and wireless units below it with their slots
  and alerts, and the offline reconciliation after an authoritative snapshot.

  Each write commits on its own, so a device whose processing raises keeps what was written before
  the error: an operation returns its error together with the state it leaves.  The search for a
  free slot may never end; an operation that does not return is \<open>None\<close>.

  Payloads are what the plugin made of them: a \<open>device_report\<close> and \<open>unit_report\<close> hold the keys the
  service reads.  Where the service treats an absent and a null value alike the field is \<open>None\<close> for both;
  where it does not, the field is an \<open>entry\<close>.  Every other value has the type of its column.
  The plugin is a parameter, as are the digest of a text (its first four bytes as a number), the
  columns the database accepts for a unit, and the tenant row of a unit.
\<close>

section \<open>Payloads and state\<close>

datatype 'a entry = Absent | Null | Given 'a

text \<open>\<open>data.get(key, default)\<close> of an entry that is not null.\<close>

fun entry_or :: "'a \<Rightarrow> 'a entry \<Rightarrow> 'a" where
  "entry_or dflt (Given x) = x"
| "entry_or dflt _ = dflt"

record unit_report =
  ur_slot :: "int option"
  ur_battery :: "int option"
  ur_battery_charge :: "int option"
  ur_battery_type :: "string option"
  ur_runtime :: "string option"
  ur_battery_health :: "string option"
  ur_battery_cycles :: "int option"
  ur_battery_temperature :: "rat option"
  ur_audio_level :: "int option"
  ur_rf_level :: "int option"
  ur_frequency :: "string option"
  ur_antenna :: "string option"
  ur_tx_offset :: "int option"
  ur_quality :: "int option"
  ur_status :: "string option"
  ur_name :: "string option"

text \<open>One channel: its number and the unit payload, if it is a dictionary (an embedded one that is
  empty counts as none).\<close>

record 'tx channel_report =
  cr_number :: "int entry"
  cr_unit :: "'tx option"

record device_report =
  de_api_device_id :: "string option"
  de_id :: "string option"
  de_ip :: "string entry"
  de_type :: "string entry"
  de_name :: "string entry"
  de_firmware :: "string entry"
  de_channels :: "unit_report channel_report list option"

record ('raw, 'tx) update_plugin =
  pl_device :: "'raw \<Rightarrow> unit + device_report option"
  pl_channels :: "string \<Rightarrow> unit + 'tx channel_report list"
  pl_unit :: "'tx \<Rightarrow> int \<Rightarrow> unit + unit_report option"

record update_state =
  up_db :: inventory
  up_units :: "wireless_unit list"
  up_cache :: fanout_cache
  up_alert_db :: alert_db

record update_env =
  ue_save :: save_env
  ue_tenancy :: tenancy
  ue_now :: time
  ue_alert :: alert_env
  ue_digest :: "string \<Rightarrow> nat"
  ue_accepts :: "wireless_unit \<Rightarrow> bool"
  ue_unit_row :: "inventory \<Rightarrow> wireless_unit \<Rightarrow> row"

datatype update_error =
    NotTransformed
  | PluginRaised
  | MissingIdentifier
  | NotPersisted persist_error
  | NullColumn
  | ChannelNotNumber
  | NotChanged chassis_error
  | NotProvisionedChassis nat
  | NotOnlineChassis nat
  | ChannelRefused save_error
  | UnitRefused save_error
  | SeveralRows
  | ColumnRefused
  | AlertRaised alert_error

section \<open>Operations that keep the state of an error\<close>

type_synonym 'a update_op = "update_state \<Rightarrow> ((update_error + 'a) \<times> update_state) option"

definition up_return :: "'a \<Rightarrow> 'a update_op" where
  "up_return x st = Some (Inr x, st)"

definition up_fail :: "update_error \<Rightarrow> 'a update_op" where
  "up_fail e st = Some (Inl e, st)"

definition up_bind :: "'a update_op \<Rightarrow> ('a \<Rightarrow> 'b update_op) \<Rightarrow> 'b update_op" where
  "up_bind m f st =
     (case m st of None \<Rightarrow> None | Some (Inl e, st') \<Rightarrow> Some (Inl e, st') | Some (Inr x, st') \<Rightarrow> f x st')"

text \<open>One committed write: an error leaves the state as it was.\<close>

definition up_write :: "(update_state \<Rightarrow> update_error + 'a \<times> update_state) \<Rightarrow> 'a update_op" where
  "up_write w st = Some (case w st of Inl e \<Rightarrow> (Inl e, st) | Inr (x, st') \<Rightarrow> (Inr x, st'))"

text \<open>A new inventory: units keep only links to channels that still exist (\<open>SET_NULL\<close>).\<close>

definition set_inventory :: "inventory \<Rightarrow> update_state \<Rightarrow> update_state" where
  "set_inventory db st = st\<lparr>up_db := db,
     up_units := map (\<lambda>u. case un_assigned_resource u of None \<Rightarrow> u
        | Some ch \<Rightarrow> if ch \<in> rf_pk ` set (iv_channels db) then u else u\<lparr>un_assigned_resource := None\<rparr>) (up_units st)\<rparr>"

section \<open>Chassis\<close>

definition or_empty :: "string option \<Rightarrow> string" where
  "or_empty v = (case v of None \<Rightarrow> [] | Some s \<Rightarrow> s)"

definition reported_id :: "device_report \<Rightarrow> string" where
  "reported_id d = strip (if or_empty (de_api_device_id d) \<noteq> [] then or_empty (de_api_device_id d) else or_empty (de_id d))"

definition reported_chassis :: "time \<Rightarrow> device_report \<Rightarrow> chassis_write" where
  "reported_chassis now d = ([FIp, FModel, FName, FFirmware, FLastSeen],
     blank_chassis\<lparr>ch_ip := strip (entry_or [] (de_ip d)), ch_model := strip (entry_or ''unknown'' (de_type d)),
       ch_name := strip (entry_or [] (de_name d)), ch_firmware := strip (entry_or [] (de_firmware d)),
       ch_last_seen := Some now\<rparr>)"

text \<open>The write takes a null for any of its four texts (it strips the others), the table does not: the whole
  upsert is undone, whatever is refused first.\<close>

definition null_column :: "device_report \<Rightarrow> bool" where
  "null_column d \<longleftrightarrow> Null \<in> set [de_ip d, de_type d, de_name d, de_firmware d]"

definition reported_new_chassis :: "time \<Rightarrow> device_report \<Rightarrow> chassis_write" where
  "reported_new_chassis now d =
     (fst (reported_chassis now d) @ [FStatus], (snd (reported_chassis now d))\<lparr>ch_status := ''online''\<rparr>)"

definition upsert_chassis :: "update_env \<Rightarrow> nat \<Rightarrow> string \<Rightarrow> device_report \<Rightarrow> (chassis \<times> bool) update_op" where
  "upsert_chassis env m api_id d = up_write (\<lambda>st.
     if null_column d then Inl NullColumn else
     case upsert (ue_save env) (ue_tenancy env) (ue_now env) m api_id (reported_chassis (ue_now env) d)
            (Some (reported_new_chassis (ue_now env) d)) (up_db st) of
       Inl e \<Rightarrow> Inl (NotPersisted e)
     | Inr (r, db) \<Rightarrow> Inr (r, set_inventory db st))"

definition change_status :: "update_env \<Rightarrow> nat \<Rightarrow> string \<Rightarrow> bool update_op" where
  "change_status env pk status = up_write (\<lambda>st.
     case transition_device (ue_save env) (ue_now env) pk status (up_db st) of
       Inl e \<Rightarrow> Inl (NotChanged e)
     | Inr (ok, db) \<Rightarrow> Inr (ok, set_inventory db st))"

definition reconcile_chassis_lifecycle :: "update_env \<Rightarrow> chassis \<Rightarrow> bool \<Rightarrow> chassis update_op" where
  "reconcile_chassis_lifecycle env c created =
     (if created \<or> ch_status c \<in> set [''online'', ''degraded'', ''maintenance''] then up_return c
      else up_bind
        (if ch_status c = ''discovered''
         then up_bind (change_status env (ch_pk c) ''provisioning'')
                (\<lambda>ok. if ok then up_return () else up_fail (NotProvisionedChassis (ch_pk c)))
         else up_return ())
        (\<lambda>_. up_bind (change_status env (ch_pk c) ''online'')
           (\<lambda>ok. if \<not> ok then up_fail (NotOnlineChassis (ch_pk c))
              else up_write (\<lambda>st. case qs_get (\<lambda>r. ch_pk r = ch_pk c) (iv_chassis (up_db st)) of
                     Inl _ \<Rightarrow> Inl (NotChanged ChassisMissing)
                   | Inr row \<Rightarrow> Inr (copy_fields [FStatus, FIsOnline, FLastOnline, FLastSeen] row c, st)))))"

section \<open>Slots\<close>

text \<open>\<open>while exists(slot): slot = (slot + 1) % 10000\<close>\<close>

partial_function (option) free_slot :: "int set \<Rightarrow> nat \<Rightarrow> nat option" where
  "free_slot taken slot = (if int slot \<in> taken then free_slot taken ((slot + 1) mod 10000) else Some slot)"

declare free_slot.simps [code]

definition assign_unit_slot ::
  "update_env \<Rightarrow> rf_channel \<Rightarrow> unit_report \<Rightarrow> string \<Rightarrow> int \<Rightarrow> update_state \<Rightarrow> int option"
where
  "assign_unit_slot env ch r api_id number st =
     (case filter (\<lambda>u. un_assigned_resource u = Some (rf_pk ch)) (up_units st) of
        u # _ \<Rightarrow> Some (un_slot u)
      | [] \<Rightarrow> (case ur_slot r of Some s \<Rightarrow> Some s
          | None \<Rightarrow> map_option int (free_slot (un_slot ` set (up_units st))
                      (ue_digest env (api_id @ '':'' @ int_text number) mod 10000))))"

section \<open>Channels and units\<close>

definition blank_channel :: "nat \<Rightarrow> nat \<Rightarrow> int \<Rightarrow> rf_channel" where
  "blank_channel pk chassis number =
     \<lparr>rf_pk = pk, rf_chassis = chassis, rf_number = number, rf_direction = ''receive'',
      rf_protocol_family = ''legacy_uhf'', rf_wmas_profile = [], rf_licensed = False, rf_enabled = True,
      rf_state = ''free'', rf_frequency = None, rf_signal_strength = None, rf_audio_level = None,
      rf_signal_quality = None, rf_muted = False, rf_active_unit = None, rf_iem_mix_level = None,
      rf_iem_link_quality = None, rf_active_iem = None\<rparr>"

text \<open>\<open>update_or_create\<close> with no defaults writes nothing to a channel that exists.\<close>

definition update_or_create_channel :: "chassis \<Rightarrow> int \<Rightarrow> rf_channel update_op" where
  "update_or_create_channel c number = up_write (\<lambda>st.
     let rows = iv_channels (up_db st) in
     case qs_get_or_none (\<lambda>r. rf_chassis r = ch_pk c \<and> rf_number r = number) rows of
       Inl _ \<Rightarrow> Inl SeveralRows
     | Inr (Some r) \<Rightarrow> Inr (r, st)
     | Inr None \<Rightarrow>
         (case prepare_channel_for_save True rows c (blank_channel (next_pk rf_pk rows) (ch_pk c) number) of
            Inl e \<Rightarrow> Inl (ChannelRefused e)
          | Inr (_, ch) \<Rightarrow> Inr (ch, st\<lparr>up_db := (up_db st)\<lparr>iv_channels := rows @ [ch]\<rparr>\<rparr>)))"

definition blank_unit :: "nat \<Rightarrow> wireless_unit" where
  "blank_unit pk =
     \<lparr>un_pk = pk, un_device_type = ''mic_transmitter'', un_base_chassis = 0, un_protocol_family = ''legacy_uhf'',
      un_wmas_profile = [], un_assigned_resource = None, un_manufacturer = 0, un_model = [], un_serial = [],
      un_name = [], un_slot = 0, un_battery = unknown_byte, un_battery_charge = None, un_battery_runtime = [],
      un_battery_type = [], un_battery_health = [], un_battery_cycles = None, un_battery_temperature = None,
      un_audio_level = 0, un_rf_level = 0, un_frequency = [], un_antenna = [], un_tx_offset = unknown_byte,
      un_quality = unknown_byte, un_iem_link_quality = None, un_iem_audio_level = None, un_firmware = [],
      un_status = ''discovered'', un_api_status = [], un_charging = False, un_muted = False,
      un_last_seen = None, un_updated = 0\<rparr>"

definition or_int :: "int \<Rightarrow> int option \<Rightarrow> int" where
  "or_int dflt v = (case v of None \<Rightarrow> dflt | Some n \<Rightarrow> n)"

definition reported_unit :: "chassis \<Rightarrow> rf_channel \<Rightarrow> int \<Rightarrow> unit_report \<Rightarrow> wireless_unit \<Rightarrow> wireless_unit" where
  "reported_unit c ch slot r u = u\<lparr>un_assigned_resource := Some (rf_pk ch), un_slot := slot,
     un_manufacturer := ch_manufacturer c, un_base_chassis := ch_pk c,
     un_battery := or_int unknown_byte (ur_battery r), un_battery_charge := ur_battery_charge r,
     un_battery_type := or_empty (ur_battery_type r), un_battery_runtime := or_empty (ur_runtime r),
     un_battery_health := or_empty (ur_battery_health r), un_battery_cycles := ur_battery_cycles r,
     un_battery_temperature := ur_battery_temperature r, un_audio_level := or_int 0 (ur_audio_level r),
     un_rf_level := or_int 0 (ur_rf_level r), un_frequency := or_empty (ur_frequency r),
     un_antenna := or_empty (ur_antenna r), un_tx_offset := or_int unknown_byte (ur_tx_offset r),
     un_quality := or_int unknown_byte (ur_quality r), un_status := or_empty (ur_status r),
     un_name := or_empty (ur_name r)\<rparr>"

definition update_or_create_unit ::
  "update_env \<Rightarrow> chassis \<Rightarrow> rf_channel \<Rightarrow> int \<Rightarrow> unit_report \<Rightarrow> wireless_unit update_op"
where
  "update_or_create_unit env c ch slot r = up_write (\<lambda>st.
     let rows = up_units st; now = ue_now env in
     case qs_get_or_none (\<lambda>u. un_assigned_resource u = Some (rf_pk ch)) rows of
       Inl _ \<Rightarrow> Inl SeveralRows
     | Inr found \<Rightarrow>
         (let old = (case found of Some u \<Rightarrow> u | None \<Rightarrow> blank_unit (next_pk un_pk rows)) in
          case prepare_unit_for_save now (found = None) rows (reported_unit c ch slot r old) of
            Inl e \<Rightarrow> Inl (UnitRefused e)
          | Inr (ctx, u1) \<Rightarrow>
              (let u = u1\<lparr>un_updated := now\<rparr> in
               if \<not> ue_accepts env u then Inl ColumnRefused
               else Inr (u, st\<lparr>up_units := (if found = None then rows @ [u] else put_row un_pk u rows),
                 up_db := (up_db st)\<lparr>iv_audit := finalize_unit_save now u ctx (iv_audit (up_db st))\<rparr>\<rparr>))))"

text \<open>What the alert service sees of the state, and a check of one unit with a budget of its own.  A
  check that raises keeps what it has delivered.\<close>

definition channel_infos :: "inventory \<Rightarrow> (nat \<times> channel_info) list" where
  "channel_infos db = List.map_filter (\<lambda>r.
     case qs_first (\<lambda>c. ch_pk c = rf_chassis r) (iv_chassis db) of None \<Rightarrow> None
     | Some c \<Rightarrow> Some (rf_pk r, \<lparr>ci_number = rf_number r, ci_chassis_name = ch_name c, ci_chassis_ip = ch_ip c\<rparr>))
     (iv_channels db)"

definition alert_view :: "update_env \<Rightarrow> update_state \<Rightarrow> alert_db" where
  "alert_view env st = (up_alert_db st)\<lparr>ad_units := map (ue_unit_row env (up_db st)) (up_units st),
     ad_channels := channel_infos (up_db st)\<rparr>"

definition alert_check ::
  "update_env \<Rightarrow> (alert_env \<Rightarrow> wireless_unit \<Rightarrow> alert_state \<Rightarrow> alert_error option \<times> alert_state)
     \<Rightarrow> wireless_unit \<Rightarrow> unit update_op"
where
  "alert_check env test u st =
     (let (e, b, c, db) = test (ue_alert env) u
            (budget_from_settings (ae_settings (ue_alert env)), up_cache st, alert_view env st);
          st' = st\<lparr>up_cache := c, up_alert_db := db\<rparr>
      in Some (case e of None \<Rightarrow> (Inr (), st') | Some x \<Rightarrow> (Inl (AlertRaised x), st')))"

definition persist_unit ::
  "update_env \<Rightarrow> chassis \<Rightarrow> string \<Rightarrow> int \<Rightarrow> unit_report \<Rightarrow> unit update_op"
where
  "persist_unit env c api_id number r =
     up_bind (update_or_create_channel c number) (\<lambda>ch.
     up_bind (\<lambda>st. map_option (\<lambda>s. (Inr s, st)) (assign_unit_slot env ch r api_id number st)) (\<lambda>slot.
     up_bind (update_or_create_unit env c ch slot r) (\<lambda>u.
     alert_check env check_wireless_unit_alerts u)))"

definition update_channel_and_unit ::
  "update_env \<Rightarrow> ('tx \<Rightarrow> int \<Rightarrow> unit + unit_report option) \<Rightarrow> chassis \<Rightarrow> string \<Rightarrow> 'tx channel_report \<Rightarrow> unit update_op"
where
  "update_channel_and_unit env transform c api_id cr =
     (if cr_number cr = Null then up_fail ChannelNotNumber
      else (let number = entry_or 0 (cr_number cr) in
      case cr_unit cr of None \<Rightarrow> up_return ()
      | Some raw \<Rightarrow> (case transform raw number of
            Inl _ \<Rightarrow> up_fail PluginRaised
          | Inr None \<Rightarrow> up_return ()
          | Inr (Some r) \<Rightarrow> persist_unit env c api_id number r)))"

fun update_channels ::
  "update_env \<Rightarrow> ('tx \<Rightarrow> int \<Rightarrow> unit + unit_report option) \<Rightarrow> chassis \<Rightarrow> string \<Rightarrow> 'tx channel_report list \<Rightarrow> unit update_op"
where
  "update_channels env transform c api_id [] = up_return ()"
| "update_channels env transform c api_id (cr # crs) =
     up_bind (update_channel_and_unit env transform c api_id cr) (\<lambda>_. update_channels env transform c api_id crs)"

section \<open>Devices\<close>

definition device_channels ::
  "update_env \<Rightarrow> ('raw, 'tx) update_plugin \<Rightarrow> device_report \<Rightarrow> chassis \<Rightarrow> string \<Rightarrow> unit update_op"
where
  "device_channels env pl d c api_id =
     (case de_channels d of
        Some (cr # crs) \<Rightarrow> update_channels env (\<lambda>r _. Inr (Some r)) c api_id (cr # crs)
      | _ \<Rightarrow> (case pl_channels pl api_id of
            Inl _ \<Rightarrow> up_fail PluginRaised
          | Inr crs \<Rightarrow> update_channels env (pl_unit pl) c api_id crs))"

text \<open>One payload.  The key of the chassis is recorded as active as soon as its lifecycle is right,
  before its channels are processed: it comes with the result.\<close>

definition update_device ::
  "update_env \<Rightarrow> ('raw, 'tx) update_plugin \<Rightarrow> nat \<Rightarrow> 'raw \<Rightarrow> nat update_op"
where
  "update_device env pl m raw =
     (case pl_device pl raw of
        Inl _ \<Rightarrow> up_fail PluginRaised
      | Inr None \<Rightarrow> up_fail NotTransformed
      | Inr (Some d) \<Rightarrow>
          (let api_id = reported_id d in
           if api_id = [] then up_fail MissingIdentifier
           else up_bind (upsert_chassis env m api_id d) (\<lambda>(c, created).
             up_bind (reconcile_chassis_lifecycle env c created) (\<lambda>c'.
             up_bind (device_channels env pl d c' api_id) (\<lambda>_. up_return (ch_pk c'))))))"

record update_tally =
  ut_updated :: nat
  ut_active :: "nat list"
  ut_failed :: bool

text \<open>The loop over the payloads.  The active keys matter only when nothing failed, and then they are
  the keys of the updated chassis.\<close>

fun update_devices ::
  "update_env \<Rightarrow> ('raw, 'tx) update_plugin \<Rightarrow> nat \<Rightarrow> 'raw list \<Rightarrow> update_tally \<Rightarrow> update_state
     \<Rightarrow> (update_tally \<times> update_state) option"
where
  "update_devices env pl m [] t st = Some (t, st)"
| "update_devices env pl m (raw # raws) t st =
     (case update_device env pl m raw st of
        None \<Rightarrow> None
      | Some (Inl _, st') \<Rightarrow> update_devices env pl m raws (t\<lparr>ut_failed := True\<rparr>) st'
      | Some (Inr pk, st') \<Rightarrow>
          update_devices env pl m raws (t\<lparr>ut_updated := ut_updated t + 1, ut_active := ut_active t @ [pk]\<rparr>) st')"

section \<open>Chassis missing from a snapshot\<close>

fun mark_all_offline :: "update_env \<Rightarrow> nat list \<Rightarrow> nat \<Rightarrow> update_state \<Rightarrow> (nat \<times> update_state) option" where
  "mark_all_offline env [] n st = Some (n, st)"
| "mark_all_offline env (pk # pks) n st =
     (case change_status env pk ''offline'' st of
        None \<Rightarrow> None
      | Some (Inl _, st') \<Rightarrow> mark_all_offline env pks n st'
      | Some (Inr _, st') \<Rightarrow> mark_all_offline env pks (n + 1) st')"

fun check_all_offline :: "update_env \<Rightarrow> wireless_unit list \<Rightarrow> unit update_op" where
  "check_all_offline env [] = up_return ()"
| "check_all_offline env (u # us) =
     up_bind (alert_check env check_hardware_offline_alerts u) (\<lambda>_. check_all_offline env us)"

definition missing_chassis :: "nat \<Rightarrow> nat list \<Rightarrow> inventory \<Rightarrow> nat list" where
  "missing_chassis m active db = map ch_pk (filter (\<lambda>c. ch_manufacturer c = m
     \<and> ch_status c \<in> set [''online'', ''degraded'', ''provisioning''] \<and> ch_pk c \<notin> set active) (iv_chassis db))"

definition offline_units :: "nat \<Rightarrow> update_state \<Rightarrow> wireless_unit list" where
  "offline_units m st = concat (map (\<lambda>c. filter (\<lambda>u. un_base_chassis u = ch_pk c) (up_units st))
     (filter (\<lambda>c. ch_manufacturer c = m \<and> ch_status c = ''offline'') (iv_chassis (up_db st))))"

definition mark_offline_receivers :: "update_env \<Rightarrow> nat \<Rightarrow> nat list \<Rightarrow> unit update_op" where
  "mark_offline_receivers env m active st =
     (let missing = missing_chassis m active (up_db st) in
      if missing = [] then Some (Inr (), st)
      else (case mark_all_offline env missing 0 st of
          None \<Rightarrow> None
        | Some (n, st') \<Rightarrow> if n = 0 then Some (Inr (), st') else check_all_offline env (offline_units m st') st'))"

definition update_models_from_api_data ::
  "update_env \<Rightarrow> ('raw, 'tx) update_plugin \<Rightarrow> nat \<Rightarrow> bool \<Rightarrow> 'raw list \<Rightarrow> nat update_op"
where
  "update_models_from_api_data env pl m authoritative raws st =
     (case update_devices env pl m raws \<lparr>ut_updated = 0, ut_active = [], ut_failed = False\<rparr> st of
        None \<Rightarrow> None
      | Some (t, st') \<Rightarrow>
          if authoritative \<and> \<not> ut_failed t
          then up_bind (mark_offline_receivers env m (ut_active t)) (\<lambda>_. up_return (ut_updated t)) st'
          else Some (Inr (ut_updated t), st'))"


section \<open>The search for a slot\<close>

lemma free_slot_first:
  assumes "int ((slot + k) mod 10000) \<notin> taken" "\<forall>j<k. int ((slot + j) mod 10000) \<in> taken" "slot < 10000"
  shows "free_slot taken slot = Some ((slot + k) mod 10000)"
  using assms
proof (induction k arbitrary: slot)
  case 0
  then show ?case by (subst free_slot.simps) simp
next
  case (Suc k)
  let ?next = "(slot + 1) mod 10000"
  have shift: "(?next + j) mod 10000 = (slot + Suc j) mod 10000" for j
    by (simp add: mod_add_left_eq)
  have "int ((?next + k) mod 10000) \<notin> taken" unfolding shift by (rule Suc.prems(1))
  moreover have "\<forall>j<k. int ((?next + j) mod 10000) \<in> taken" unfolding shift using Suc.prems(2) by blast
  ultimately have "free_slot taken ?next = Some ((?next + k) mod 10000)" by (rule Suc.IH) simp
  moreover have "int slot \<in> taken" using Suc.prems(2,3) by (metis add.right_neutral mod_less zero_less_Suc)
  ultimately show ?case by (subst free_slot.simps) (simp only: shift if_True)
qed

lemma free_slot_result:
  assumes "free_slot taken slot = Some s" "slot < 10000"
  shows "s < 10000 \<and> int s \<notin> taken"
  by (rule free_slot.raw_induct[OF _ assms(1), of "\<lambda>taken slot s. slot < 10000 \<longrightarrow> s < 10000 \<and> int s \<notin> taken", rule_format, OF _ assms(2)])
     (auto split: if_splits)

lemma some_slot_ahead:
  assumes "(f :: nat) < 10000" "slot < 10000"
  shows "\<exists>k<10000. (slot + k) mod 10000 = f"
proof (cases "slot \<le> f")
  case True
  with assms show ?thesis by (intro exI[of _ "f - slot"]) simp
next
  case False
  with assms show ?thesis by (intro exI[of _ "10000 - slot + f"]) simp
qed

text \<open>The search for a slot returns exactly when one of the 10000 slots is free.  It then takes the
  first free one from the start upwards, around the end, so the slot is in range, nobody has it, and
  all slots passed over are taken.\<close>

theorem free_slot_terminates:
  assumes "slot < 10000"
  shows "(free_slot taken slot \<noteq> None) = (\<exists>f<10000. int f \<notin> taken)
    \<and> (\<forall>s. free_slot taken slot = Some s \<longrightarrow> s < 10000 \<and> int s \<notin> taken
         \<and> (\<exists>k. s = (slot + k) mod 10000 \<and> (\<forall>j<k. int ((slot + j) mod 10000) \<in> taken)))"
proof -
  have found: "\<exists>k. free_slot taken slot = Some ((slot + k) mod 10000) \<and> (\<forall>j<k. int ((slot + j) mod 10000) \<in> taken)"
    if f: "f < 10000" "int f \<notin> taken" for f
  proof -
    obtain k where "int ((slot + k) mod 10000) \<notin> taken" using some_slot_ahead[OF f(1) assms] f(2) by auto
    then obtain k where k: "int ((slot + k) mod 10000) \<notin> taken" "\<forall>j<k. int ((slot + j) mod 10000) \<in> taken"
      using exists_least_iff[of "\<lambda>k. int ((slot + k) mod 10000) \<notin> taken"] by blast
    from free_slot_first[OF k assms] k(2) show ?thesis by blast
  qed
  have "s < 10000 \<and> int s \<notin> taken \<and> (\<exists>k. s = (slot + k) mod 10000 \<and> (\<forall>j<k. int ((slot + j) mod 10000) \<in> taken))"
    if s: "free_slot taken slot = Some s" for s
    using free_slot_result[OF s assms] found[of s] s by auto
  moreover have "free_slot taken slot \<noteq> None" if "f < 10000" "int f \<notin> taken" for f using found[OF that] by auto
  moreover have "\<exists>f<10000. int f \<notin> taken" if "free_slot taken slot \<noteq> None"
    using that free_slot_result[OF _ assms, of taken] by blast
  ultimately show ?thesis by blast
qed

theorem free_slot_terminates_witness: "free_slot {9999, 0} 9999 = Some 1"
proof -
  have st: "(9999 :: nat) < 10000" by simp
  note T = free_slot_terminates[OF st, of "{9999, 0}"]
  have "\<exists>f<10000. int f \<notin> {9999, 0}" by (rule exI[of _ 1]) simp
  with conjunct1[OF T] have "free_slot {9999, 0} 9999 \<noteq> None" by (rule iffD2)
  then obtain s where s: "free_slot {9999, 0} 9999 = Some s" by (elim not_None_eq[THEN iffD1, THEN exE])
  from conjunct2[OF T, rule_format, OF s] obtain k where
    k: "int s \<notin> {9999, 0}" "s = (9999 + k) mod 10000" "\<forall>j<k. int ((9999 + j) mod 10000) \<in> {9999, 0}" by (elim conjE exE)
  have "\<not> 2 < k"
  proof
    assume "2 < k"
    with k(3) have "int ((9999 + 2) mod 10000) \<in> {9999, 0}" by (elim allE impE)
    then show False by simp
  qed
  then have "k = 0 \<or> k = 1 \<or> k = 2" by linarith
  then have "s = 9999 \<or> s = 0 \<or> s = 1" using k(2) by (elim disjE) simp_all
  with s k(1) show ?thesis by (elim disjE) simp_all
qed

section \<open>What an operation preserves\<close>

lemma up_bind_Some:
  "up_bind m f st = Some (r, st2) \<longleftrightarrow>
     (\<exists>e. m st = Some (Inl e, st2) \<and> r = Inl e) \<or> (\<exists>x st1. m st = Some (Inr x, st1) \<and> f x st1 = Some (r, st2))"
  by (auto simp: up_bind_def split: option.splits sum.splits prod.splits)

lemma up_bind_None:
  "up_bind m f st = None \<longleftrightarrow> m st = None \<or> (\<exists>x st1. m st = Some (Inr x, st1) \<and> f x st1 = None)"
  by (auto simp: up_bind_def split: option.splits sum.splits prod.splits)

lemma up_write_Some:
  "up_write w st = Some (r, st') \<longleftrightarrow>
     (\<exists>e. w st = Inl e \<and> r = Inl e \<and> st' = st) \<or> (\<exists>x. w st = Inr (x, st') \<and> r = Inr x)"
  by (auto simp: up_write_def split: sum.splits)

lemma up_write_returns [simp]: "up_write w st \<noteq> None"
  by (simp add: up_write_def)

text \<open>A relation between the state before and after that every operation keeps to, whatever it
  returns: \<open>keeps P m\<close> from the states with \<open>P\<close>.\<close>

locale update_relation =
  fixes R :: "update_state \<Rightarrow> update_state \<Rightarrow> bool"
  assumes R_refl: "R st st" and R_trans: "R a b \<Longrightarrow> R b c \<Longrightarrow> R a c"
begin

definition keeps :: "(update_state \<Rightarrow> bool) \<Rightarrow> 'a update_op \<Rightarrow> bool" where
  "keeps P m = (\<forall>st r st'. P st \<longrightarrow> m st = Some (r, st') \<longrightarrow> R st st')"

definition stable :: "(update_state \<Rightarrow> bool) \<Rightarrow> bool" where
  "stable P = (\<forall>st st'. P st \<longrightarrow> R st st' \<longrightarrow> P st')"

lemma keepsD: "keeps P m \<Longrightarrow> P st \<Longrightarrow> m st = Some (r, st') \<Longrightarrow> R st st'"
  by (auto simp: keeps_def)

lemma keeps_const [simp]: "keeps P (up_return x)" "keeps P (up_fail e)"
  by (auto simp: keeps_def up_return_def up_fail_def R_refl)

lemma keeps_bind:
  assumes "keeps P m" "\<And>x. keeps P (f x)" "stable P"
  shows "keeps P (up_bind m f)"
  unfolding keeps_def
proof (intro allI impI)
  fix st r st2 assume P: "P st" and b: "up_bind m f st = Some (r, st2)"
  from b show "R st st2"
    unfolding up_bind_Some
  proof (elim disjE exE conjE)
    fix e assume "m st = Some (Inl e, st2)"
    then show ?thesis by (rule keepsD[OF assms(1) P])
  next
    fix x st1 assume m: "m st = Some (Inr x, st1)" and f: "f x st1 = Some (r, st2)"
    have s1: "R st st1" by (rule keepsD[OF assms(1) P m])
    with assms(3) P have "P st1" by (auto simp: stable_def)
    with s1 keepsD[OF assms(2) _ f] show ?thesis by (blast intro: R_trans)
  qed
qed

lemma keeps_write:
  assumes "\<And>st x st'. P st \<Longrightarrow> w st = Inr (x, st') \<Longrightarrow> R st st'"
  shows "keeps P (up_write w)"
  using assms by (auto simp: keeps_def up_write_Some R_refl)

lemma keeps_channels:
  assumes "\<And>cr. keeps P (update_channel_and_unit env tr c a cr)" "stable P"
  shows "keeps P (update_channels env tr c a crs)"
  using assms by (induction crs) (auto intro: keeps_bind)

lemma keeps_checks:
  assumes "\<And>u. keeps P (alert_check env check_hardware_offline_alerts u)" "stable P"
  shows "keeps P (check_all_offline env us)"
  using assms by (induction us) (auto intro: keeps_bind)

lemma keeps_devices:
  assumes "\<And>raw. keeps P (update_device env pl m raw)" "stable P"
  shows "P st \<Longrightarrow> update_devices env pl m raws t st = Some (t', st') \<Longrightarrow> R st st'"
proof (induction raws arbitrary: t st)
  case Nil
  then show ?case by (simp add: R_refl)
next
  case (Cons raw raws)
  from Cons.prems(2) obtain r st1 t1 where d: "update_device env pl m raw st = Some (r, st1)"
    and rest: "update_devices env pl m raws t1 st1 = Some (t', st')"
    by (auto split: option.splits sum.splits prod.splits)
  have s1: "R st st1" by (rule keepsD[OF assms(1) Cons.prems(1) d])
  with assms(2) Cons.prems(1) have "P st1" by (auto simp: stable_def)
  with s1 Cons.IH[OF _ rest] show ?case by (blast intro: R_trans)
qed

lemma keeps_offline:
  assumes "\<And>pk. pk \<in> set pks \<Longrightarrow> keeps P (change_status env pk ''offline'')" "stable P"
  shows "P st \<Longrightarrow> mark_all_offline env pks n st = Some (k, st') \<Longrightarrow> R st st'"
  using assms(1)
proof (induction pks arbitrary: n st)
  case Nil
  then show ?case by (simp add: R_refl)
next
  case (Cons pk pks)
  from Cons.prems(2) obtain r st1 n1 where c: "change_status env pk ''offline'' st = Some (r, st1)"
    and rest: "mark_all_offline env pks n1 st1 = Some (k, st')"
    by (auto split: option.splits sum.splits prod.splits)
  have s1: "R st st1" by (rule keepsD[OF Cons.prems(3) Cons.prems(1) c]) simp
  with assms(2) Cons.prems(1) have "P st1" by (auto simp: stable_def)
  with s1 Cons.IH[OF _ rest] Cons.prems(3) show ?case by (auto intro: R_trans)
qed

end


lemma set_inventory_simps [simp]:
  "up_db (set_inventory db st) = db" "up_cache (set_inventory db st) = up_cache st"
  "up_alert_db (set_inventory db st) = up_alert_db st"
  by (simp_all add: set_inventory_def)

lemma upsertE:
  assumes "upsert env tn now m a d cd db = Inr ((c, created), db')" "fst d \<noteq> []"
  obtains (existing) r fs where "r \<in> set (iv_chassis db)" "ch_manufacturer r = m" "ch_api_id r = a"
      "fs = filter (\<lambda>f. f \<noteq> FManufacturer \<and> f \<noteq> FApiId) (fst d)"
      "created = False" "c = r \<and> db' = db \<and> fs = [] \<or> save_chassis env now (Some fs) (copy_fields fs (snd d) r) db = Inr (c, db')"
  | (fresh) c0 w where "w = (case cd of Some w \<Rightarrow> w | None \<Rightarrow> d)" "created = True"
      "c0 = (copy_fields (filter (\<lambda>f. f \<noteq> FManufacturer \<and> f \<noteq> FApiId) (fst w)) (snd w) blank_chassis)\<lparr>ch_manufacturer := m, ch_api_id := a\<rparr>"
      "create_chassis env now c0 db = Inr (c, db')"
proof -
  let ?same = "\<lambda>r. ch_api_id r = a \<and> ch_manufacturer r = m"
  show thesis
  proof (cases "qs_first ?same (iv_chassis db)")
    case None
    with assms(1) show ?thesis
      by (intro fresh) (auto simp: upsert_def Let_def result_simps chassis_result_def split: if_splits sum.splits option.splits)
  next
    case (Some r)
    with assms(1) show ?thesis
      using qs_first_Some[OF Some]
      by (intro existing) (auto simp: upsert_def Let_def result_simps chassis_result_def split: if_splits sum.splits)
  qed
qed

lemma change_statusE:
  assumes "change_status env pk s st = Some (r, st')"
  obtains "st' = st" | ok db where "r = Inr ok" "st' = set_inventory db st"
    "transition_device (ue_save env) (ue_now env) pk s (up_db st) = Inr (ok, db)"
  using assms by (auto simp: change_status_def up_write_Some split: sum.splits prod.splits)

lemma transition_rows:
  assumes "transition_device env now pk s db = Inr (ok, db')"
  shows "db' = db \<or> (\<exists>row prev. iv_chassis db' = put_row ch_pk row (iv_chassis db) \<and> prev \<in> set (iv_chassis db)
    \<and> ch_pk row = pk \<and> ch_pk prev = pk \<and> ch_status row = s \<and> ch_manufacturer row = ch_manufacturer prev)"
proof -
  from assms obtain d where d: "qs_get (\<lambda>r. ch_pk r = pk) (iv_chassis db) = Inr d"
    by (auto simp: transition_device_def split: sum.splits)
  show ?thesis
  proof (cases "is_valid_transition (ch_status d) s")
    case True
    with assms d obtain c where
      "save_chassis env now (Some [FStatus, FLastSeen]) (d\<lparr>ch_status := s, ch_last_seen := Some now\<rparr>) db = Inr (c, db')"
      by (auto simp: transition_device_def result_simps)
    from save_chassis_rows[OF this] qs_get_row[OF d] show ?thesis by auto
  next
    case False
    with assms d show ?thesis by (simp add: transition_device_def)
  qed
qed

section \<open>Nothing goes offline without a complete snapshot\<close>

definition no_new_offline :: "update_state \<Rightarrow> update_state \<Rightarrow> bool" where
  "no_new_offline st st' = (\<forall>c' \<in> set (iv_chassis (up_db st')). ch_status c' = ''offline'' \<longrightarrow>
     (\<exists>c \<in> set (iv_chassis (up_db st)). ch_pk c = ch_pk c' \<and> ch_status c = ''offline''))"

interpretation offline: update_relation no_new_offline
proof
  show "no_new_offline st st" for st by (auto simp: no_new_offline_def)
  show "no_new_offline a c" if "no_new_offline a b" "no_new_offline b c" for a b c
    using that unfolding no_new_offline_def by metis
qed

lemma always_stable [simp]: "offline.stable (\<lambda>_. True)"
  by (simp add: offline.stable_def)

lemma no_new_offline_same [simp]: "iv_chassis (up_db st') = iv_chassis (up_db st) \<Longrightarrow> no_new_offline st st'"
  by (auto simp: no_new_offline_def)

lemma no_new_offline_put:
  assumes "iv_chassis (up_db st') = put_row ch_pk row (iv_chassis (up_db st))"
    and "ch_status row = ''offline'' \<Longrightarrow> \<exists>c \<in> set (iv_chassis (up_db st)). ch_pk c = ch_pk row \<and> ch_status c = ''offline''"
  shows "no_new_offline st st'"
  using assms by (auto simp: no_new_offline_def put_row_mem)

lemma reported_fields: "fst (reported_chassis now d) \<noteq> []" "FStatus \<notin> set (fst (reported_chassis now d))"
  by (simp_all add: reported_chassis_def)

lemma upsert_no_new_offline: "offline.keeps (\<lambda>_. True) (upsert_chassis env m a d)"
  unfolding upsert_chassis_def
proof (rule offline.keeps_write)
  fix st x st'
  assume "(if null_column d then Inl NullColumn
      else case upsert (ue_save env) (ue_tenancy env) (ue_now env) m a (reported_chassis (ue_now env) d)
       (Some (reported_new_chassis (ue_now env) d)) (up_db st) of
     Inl e \<Rightarrow> Inl (NotPersisted e) | Inr (r, db) \<Rightarrow> Inr (r, set_inventory db st)) = Inr (x, st')"
  then obtain c created db where u: "upsert (ue_save env) (ue_tenancy env) (ue_now env) m a (reported_chassis (ue_now env) d)
       (Some (reported_new_chassis (ue_now env) d)) (up_db st) = Inr ((c, created), db)" and st': "st' = set_inventory db st"
    by (auto split: sum.splits prod.splits if_splits)
  from u reported_fields(1) show "no_new_offline st st'"
  proof (cases rule: upsertE)
    case (existing r fs)
    from existing(6) show ?thesis
    proof
      assume "c = r \<and> db = up_db st \<and> fs = []"
      then show ?thesis by (simp add: st')
    next
      assume s: "save_chassis (ue_save env) (ue_now env) (Some fs) (copy_fields fs (snd (reported_chassis (ue_now env) d)) r) (up_db st) = Inr (c, db)"
      have "FStatus \<notin> set fs" using existing(4) reported_fields(2) by auto
      with save_chassis_rows[OF s] obtain row prev where "iv_chassis db = put_row ch_pk row (iv_chassis (up_db st))"
        "prev \<in> set (iv_chassis (up_db st))" "ch_pk row = ch_pk prev" "ch_status row = ch_status prev" by auto
      then show ?thesis by (intro no_new_offline_put[of _ row]) (auto simp: st')
    qed
  next
    case (fresh c0 w)
    have "ch_status c0 = ''online''"
      by (simp add: fresh(1,3) reported_new_chassis_def reported_chassis_def copy_fields_simps)
    with create_chassis_rows[OF fresh(4)] show ?thesis by (auto simp: no_new_offline_def st')
  qed
qed

lemma change_status_no_new_offline:
  assumes "s \<noteq> ''offline''"
  shows "offline.keeps (\<lambda>_. True) (change_status env pk s)"
  unfolding offline.keeps_def
proof (intro allI impI)
  fix st r st' assume "change_status env pk s st = Some (r, st')"
  then show "no_new_offline st st'"
  proof (cases rule: change_statusE)
    case 1
    then show ?thesis by simp
  next
    case (2 ok db)
    from transition_rows[OF 2(3)] show ?thesis
    proof (elim disjE exE conjE)
      assume "db = up_db st"
      then show ?thesis by (simp add: 2(2))
    next
      fix row prev assume "iv_chassis db = put_row ch_pk row (iv_chassis (up_db st))" "ch_status row = s"
      then show ?thesis using assms by (intro no_new_offline_put[of _ row]) (auto simp: 2(2))
    qed
  qed
qed

lemma reconcile_no_new_offline: "offline.keeps (\<lambda>_. True) (reconcile_chassis_lifecycle env c created)"
  unfolding reconcile_chassis_lifecycle_def
  by (auto intro!: offline.keeps_bind change_status_no_new_offline offline.keeps_write split: sum.splits)

lemma alert_check_db: "alert_check env f u st = Some (r, st') \<Longrightarrow> up_db st' = up_db st \<and> up_units st' = up_units st"
  by (auto simp: alert_check_def Let_def split: prod.splits option.splits)

lemma unit_ops_no_new_offline:
  "offline.keeps (\<lambda>_. True) (update_or_create_channel c n)"
  "offline.keeps (\<lambda>_. True) (update_or_create_unit env c ch slot r)"
  "offline.keeps (\<lambda>_. True) (alert_check env f u)"
  "offline.keeps (\<lambda>_. True) (\<lambda>st. map_option (\<lambda>s. (Inr s, st)) (assign_unit_slot env ch r a n st))"
proof -
  show "offline.keeps (\<lambda>_. True) (update_or_create_channel c n)"
    unfolding update_or_create_channel_def
    by (rule offline.keeps_write) (auto simp: Let_def split: sum.splits option.splits)
  show "offline.keeps (\<lambda>_. True) (update_or_create_unit env c ch slot r)"
    unfolding update_or_create_unit_def
    by (rule offline.keeps_write) (auto simp: Let_def split: sum.splits if_splits)
  show "offline.keeps (\<lambda>_. True) (alert_check env f u)"
    by (auto simp: offline.keeps_def dest!: alert_check_db)
  show "offline.keeps (\<lambda>_. True) (\<lambda>st. map_option (\<lambda>s. (Inr s, st)) (assign_unit_slot env ch r a n st))"
    by (auto simp: offline.keeps_def)
qed

lemma channel_no_new_offline: "offline.keeps (\<lambda>_. True) (update_channel_and_unit env tr c a cr)"
  unfolding update_channel_and_unit_def persist_unit_def Let_def
  by (auto split: option.splits sum.splits intro!: offline.keeps_bind unit_ops_no_new_offline)

lemma device_no_new_offline: "offline.keeps (\<lambda>_. True) (update_device env pl m raw)"
  unfolding update_device_def device_channels_def Let_def
  by (auto split: option.splits sum.splits list.splits
      intro!: offline.keeps_bind upsert_no_new_offline reconcile_no_new_offline offline.keeps_channels channel_no_new_offline)

lemma update_devices_tally:
  "update_devices env pl m raws t st = Some (t', st') \<Longrightarrow>
     ut_updated t \<le> ut_updated t' \<and> ut_updated t' \<le> ut_updated t + length raws
     \<and> ut_failed t' = (ut_failed t \<or> ut_updated t' < ut_updated t + length raws)"
  by (induction raws arbitrary: t st) (fastforce split: option.splits sum.splits prod.splits)+

text \<open>C16: An update that is not authoritative, or during which the processing of any payload failed,
  puts no chassis offline: every chassis that is offline afterwards was offline before.  The count it
  returns is at most the number of payloads, and smaller exactly when one failed.\<close>

theorem partial_update_never_offline:
  assumes "update_models_from_api_data env pl m authoritative raws st = Some (Inr n, st')"
    and "authoritative \<longrightarrow> n < length raws"
  shows "no_new_offline st st' \<and> n \<le> length raws"
proof -
  from assms(1) obtain t st1 where d: "update_devices env pl m raws \<lparr>ut_updated = 0, ut_active = [], ut_failed = False\<rparr> st = Some (t, st1)"
    and n: "n = ut_updated t" and rest: "authoritative \<and> \<not> ut_failed t \<or> st' = st1"
    by (auto simp: update_models_from_api_data_def up_bind_Some up_return_def split: option.splits prod.splits if_splits)
  have k: "no_new_offline st st1" by (rule offline.keeps_devices[OF device_no_new_offline _ _ d]) simp_all
  from update_devices_tally[OF d] n rest assms(2) have "st' = st1 \<and> n \<le> length raws" by auto
  with k show ?thesis by simp
qed


section \<open>Nothing of another manufacturer is touched\<close>

definition foreign_pks :: "nat \<Rightarrow> inventory \<Rightarrow> nat set" where
  "foreign_pks m db = ch_pk ` set (other_rows m db)"

text \<open>A unit of no channel, or of a channel of another manufacturer's chassis.\<close>

definition foreign_unit :: "nat \<Rightarrow> inventory \<Rightarrow> wireless_unit \<Rightarrow> bool" where
  "foreign_unit m db u = (case un_assigned_resource u of None \<Rightarrow> True
     | Some ch \<Rightarrow> \<exists>r \<in> set (iv_channels db). rf_pk r = ch \<and> rf_chassis r \<in> foreign_pks m db)"

definition inventory_keys :: "inventory \<Rightarrow> bool" where
  "inventory_keys db = (distinct (map ch_pk (iv_chassis db)) \<and> distinct (map rf_pk (iv_channels db)))"

definition keys_ok :: "update_state \<Rightarrow> bool" where
  "keys_ok st = (inventory_keys (up_db st) \<and> distinct (map un_pk (up_units st)))"

definition inventory_untouched :: "nat \<Rightarrow> inventory \<Rightarrow> inventory \<Rightarrow> bool" where
  "inventory_untouched m db db' = (keeps_others m db db' \<and> (inventory_keys db \<longrightarrow> inventory_keys db')
     \<and> (\<forall>r \<in> set (iv_channels db). rf_chassis r \<in> foreign_pks m db \<longrightarrow> r \<in> set (iv_channels db')))"

definition untouched :: "nat \<Rightarrow> update_state \<Rightarrow> update_state \<Rightarrow> bool" where
  "untouched m st st' = (keys_ok st \<longrightarrow> keys_ok st' \<and> inventory_untouched m (up_db st) (up_db st')
     \<and> (\<forall>u \<in> set (up_units st). foreign_unit m (up_db st) u \<longrightarrow> u \<in> set (up_units st')))"

lemma foreign_pks_kept: "keeps_others m db db' \<Longrightarrow> foreign_pks m db' = foreign_pks m db"
  by (simp add: foreign_pks_def keeps_others_def)

lemma own_not_foreign: "row_of m pk db \<Longrightarrow> pk \<notin> foreign_pks m db"
  by (auto simp: foreign_pks_def other_rows_def row_of_def)

lemma inventory_untouched_refl [simp]: "inventory_untouched m db db"
  by (simp add: inventory_untouched_def)

lemma inventory_untouched_trans:
  assumes "inventory_untouched m a b" "inventory_untouched m b c"
  shows "inventory_untouched m a c"
proof -
  have "foreign_pks m b = foreign_pks m a" using assms(1) by (simp add: inventory_untouched_def foreign_pks_kept)
  with assms show ?thesis unfolding inventory_untouched_def by (metis keeps_others_trans)
qed

lemma foreign_unit_later:
  assumes "inventory_untouched m db db'" "foreign_unit m db u"
  shows "foreign_unit m db' u"
proof -
  have "foreign_pks m db' = foreign_pks m db" using assms(1) by (simp add: inventory_untouched_def foreign_pks_kept)
  with assms show ?thesis unfolding foreign_unit_def inventory_untouched_def by (fastforce split: option.splits)
qed

interpretation untouched: update_relation "untouched m" for m
proof
  show "untouched m st st" for st by (simp add: untouched_def)
  show "untouched m a c" if "untouched m a b" "untouched m b c" for a b c
    using that foreign_unit_later unfolding untouched_def by (metis inventory_untouched_trans)
qed

subsection \<open>Channels made and removed by a save\<close>

lemma create_channels_keys:
  "create_channels c stored ns rows = (rows', ok) \<Longrightarrow> distinct (map rf_pk rows) \<Longrightarrow>
     distinct (map rf_pk rows')"
proof (induction ns arbitrary: rows)
  case Nil
  then show ?case by simp
next
  case (Cons n ns)
  show ?case
  proof (cases "prepare_channel_for_save True rows stored (new_channel c n rows)")
    case (Inl e)
    with Cons.prems show ?thesis by simp
  next
    case (Inr r)
    then obtain ctx ch where ch: "prepare_channel_for_save True rows stored (new_channel c n rows) = Inr (ctx, ch)"
      by (cases r) auto
    then have "rf_pk ch = next_pk rf_pk rows"
      by (auto simp: prepare_channel_for_save_def new_channel_def split: if_splits)
    then have "distinct (map rf_pk (rows @ [ch]))" using Cons.prems(2) next_pk_notin[of rf_pk rows] by simp
    with Cons.IH[of "rows @ [ch]"] Cons.prems ch show ?thesis by simp
  qed
qed

lemma create_channels_grows: "create_channels c stored ns rows = (rows', ok) \<Longrightarrow> set rows \<subseteq> set rows'"
  by (induction ns arbitrary: rows) (fastforce split: sum.splits prod.splits)+

lemma ensure_channel_count_keys:
  "{r \<in> set rows. rf_chassis r \<noteq> ch_pk c} \<subseteq> set (ensure_channel_count c stored rows)"
  "distinct (map rf_pk rows) \<Longrightarrow> distinct (map rf_pk (ensure_channel_count c stored rows))"
proof -
  obtain rows1 ok where cr: "create_channels c stored (missing_numbers c rows) rows = (rows1, ok)" by (metis surj_pair)
  show "{r \<in> set rows. rf_chassis r \<noteq> ch_pk c} \<subseteq> set (ensure_channel_count c stored rows)"
    using create_channels_grows[OF cr] by (auto simp: ensure_channel_count_def cr)
  assume "distinct (map rf_pk rows)"
  from create_channels_keys[OF cr this] show "distinct (map rf_pk (ensure_channel_count c stored rows))"
    by (auto simp: ensure_channel_count_def cr distinct_map_filter)
qed

lemma save_channels:
  assumes "save_chassis env now fs c0 db = Inr (c, db')"
  shows "\<exists>row. iv_channels db' = ensure_channel_count c row (iv_channels db)"
  using assms by (auto elim!: save_chassisE)

lemma save_untouched:
  assumes s: "save_chassis env now (Some fs) c0 db = Inr (c, db')" and f: "FManufacturer \<notin> set fs"
    and own: "row_of m (ch_pk c0) db"
  shows "inventory_untouched m db db'"
proof -
  have k: "keeps_others m db db'" "ch_pk c = ch_pk c0" using save_keeps_others[OF s f own] by simp_all
  obtain row where ch: "iv_channels db' = ensure_channel_count c row (iv_channels db)" using save_channels[OF s] by blast
  have "map ch_pk (iv_chassis db') = map ch_pk (iv_chassis db)" using save_same_keys[OF s] by (simp add: same_keys_def)
  moreover have "rf_chassis r \<noteq> ch_pk c" if "rf_chassis r \<in> foreign_pks m db" for r
    using that own_not_foreign[OF own] k(2) by auto
  ultimately show ?thesis
    using k ensure_channel_count_keys[where rows = "iv_channels db" and c = c and stored = row] by (auto simp: inventory_untouched_def inventory_keys_def ch)
qed


lemma create_untouched:
  assumes s: "create_chassis env now c0 db = Inr (c, db')" and m: "ch_manufacturer c0 = m"
  shows "inventory_untouched m db db' \<and> row_of m (ch_pk c) db' \<and> ch_pk c \<in> ch_pk ` set (iv_chassis db')"
proof -
  from create_chassis_rows[OF s] obtain row where
    rows: "iv_chassis db' = iv_chassis db @ [row]" "ch_manufacturer row = m" "iv_chargers db' = iv_chargers db"
    and pk: "ch_pk row = next_pk ch_pk (iv_chassis db)" "ch_pk c = ch_pk row" using m by auto
  from s obtain old derived aff where ch: "iv_channels db' = ensure_channel_count c (stored_form env c) (iv_channels db)"
    by (auto elim!: create_chassisE)
  have fresh: "ch_pk row \<notin> ch_pk ` set (iv_chassis db)" unfolding pk by (rule next_pk_notin)
  then have other: "\<forall>r \<in> set (iv_chassis db). ch_pk r \<noteq> ch_pk row" by (metis imageI)
  have k: "keeps_others m db db'"
    using other by (auto simp: keeps_others_def other_rows_def row_of_def rows)
  have "ch_pk c \<notin> foreign_pks m db"
    using fresh pk(2) by (auto simp: foreign_pks_def other_rows_def)
  then have "rf_chassis r \<noteq> ch_pk c" if "rf_chassis r \<in> foreign_pks m db" for r using that by auto
  then show ?thesis
    using k ensure_channel_count_keys[where rows = "iv_channels db" and c = c and stored = "stored_form env c"] fresh other
    by (auto simp: inventory_untouched_def inventory_keys_def ch rows(1,2) pk(2) row_of_def)
qed

lemma transition_untouched:
  assumes t: "transition_device env now pk s db = Inr (ok, db')" and own: "row_of m pk db"
  shows "inventory_untouched m db db'"
proof -
  from t obtain d where d: "qs_get (\<lambda>r. ch_pk r = pk) (iv_chassis db) = Inr d"
    by (auto simp: transition_device_def split: sum.splits)
  show ?thesis
  proof (cases "is_valid_transition (ch_status d) s")
    case True
    with t d obtain c where
      "save_chassis env now (Some [FStatus, FLastSeen]) (d\<lparr>ch_status := s, ch_last_seen := Some now\<rparr>) db = Inr (c, db')"
      by (auto simp: transition_device_def result_simps)
    from save_untouched[OF this] own qs_get_row[OF d] show ?thesis by simp
  next
    case False
    with t d show ?thesis by (simp add: transition_device_def)
  qed
qed

lemma set_inventory_untouched:
  assumes "inventory_untouched m (up_db st) db"
  shows "untouched m st (set_inventory db st)"
proof -
  have "un_pk (case un_assigned_resource u of None \<Rightarrow> u
        | Some ch \<Rightarrow> if ch \<in> rf_pk ` set (iv_channels db) then u else u\<lparr>un_assigned_resource := None\<rparr>) = un_pk u" for u :: wireless_unit
    by (simp split: option.split)
  then have "map un_pk (up_units (set_inventory db st)) = map un_pk (up_units st)"
    by (simp add: set_inventory_def)
  moreover have "u \<in> set (up_units (set_inventory db st))" if u: "u \<in> set (up_units st)" "foreign_unit m (up_db st) u" for u
  proof -
    have "foreign_unit m db u" using foreign_unit_later[OF assms u(2)] .
    then have "(case un_assigned_resource u of None \<Rightarrow> u
        | Some ch \<Rightarrow> if ch \<in> rf_pk ` set (iv_channels db) then u else u\<lparr>un_assigned_resource := None\<rparr>) = u"
      by (auto simp: foreign_unit_def split: option.splits)
    then show ?thesis using u(1) unfolding set_inventory_def by (auto intro: rev_image_eqI)
  qed
  ultimately show ?thesis
    using assms by (auto simp: untouched_def keys_ok_def inventory_untouched_def)
qed

text \<open>The chassis with this key is there and belongs to the manufacturer.\<close>

definition owned :: "nat \<Rightarrow> nat \<Rightarrow> update_state \<Rightarrow> bool" where
  "owned m pk st = (keys_ok st \<and> row_of m pk (up_db st) \<and> pk \<in> ch_pk ` set (iv_chassis (up_db st)))"

lemma owned_stable [simp]: "untouched.stable m (owned m pk)"
  unfolding untouched.stable_def owned_def untouched_def inventory_untouched_def keeps_others_def by metis

lemma keys_stable [simp]: "untouched.stable m keys_ok"
  by (auto simp: untouched.stable_def untouched_def)

lemma change_status_untouched: "untouched.keeps m (owned m pk) (change_status env pk s)"
  unfolding untouched.keeps_def
proof (intro allI impI)
  fix st r st' assume o: "owned m pk st" and "change_status env pk s st = Some (r, st')"
  from this(2) show "untouched m st st'"
  proof (cases rule: change_statusE)
    case 1
    then show ?thesis by (simp add: untouched.R_refl)
  next
    case (2 ok db)
    from transition_untouched[OF 2(3)] o show ?thesis by (simp add: 2(2) owned_def set_inventory_untouched)
  qed
qed

lemma reconcile_untouched: "untouched.keeps m (owned m (ch_pk c)) (reconcile_chassis_lifecycle env c created)"
  unfolding reconcile_chassis_lifecycle_def
  by (auto intro!: untouched.keeps_bind change_status_untouched untouched.keeps_write untouched.R_refl split: sum.splits)

lemma reload_chassis:
  assumes "up_write (\<lambda>st. case qs_get P (iv_chassis (up_db st)) of Inl _ \<Rightarrow> Inl e | Inr row \<Rightarrow> Inr (f row, st)) st = Some (Inr x, st')"
  shows "\<exists>row. x = f row"
  using assms by (cases "qs_get P (iv_chassis (up_db st))") (auto simp: up_write_Some)

lemma reconcile_pk:
  assumes "reconcile_chassis_lifecycle env c created st = Some (Inr c', st')"
  shows "ch_pk c' = ch_pk c \<and> ch_manufacturer c' = ch_manufacturer c"
proof (cases "created \<or> ch_status c \<in> set [''online'', ''degraded'', ''maintenance'']")
  case True
  with assms show ?thesis by (simp add: reconcile_chassis_lifecycle_def up_return_def)
next
  case False
  with assms have "\<exists>row. c' = copy_fields [FStatus, FIsOnline, FLastOnline, FLastSeen] row c"
    unfolding reconcile_chassis_lifecycle_def if_not_P[OF False]
    by (auto simp: up_bind_Some up_fail_def simp del: list.set split: if_splits dest!: reload_chassis)
  then show ?thesis by (auto simp: copy_fields_manufacturer)
qed

lemma upsert_untouched:
  assumes st: "keys_ok st" and run: "upsert_chassis env m a d st = Some (r, st')"
  shows "untouched m st st' \<and> (\<forall>c created. r = Inr (c, created) \<longrightarrow> owned m (ch_pk c) st')"
proof (cases "upsert (ue_save env) (ue_tenancy env) (ue_now env) m a (reported_chassis (ue_now env) d)
       (Some (reported_new_chassis (ue_now env) d)) (up_db st)")
  case (Inl e)
  with run show ?thesis by (auto simp: upsert_chassis_def up_write_Some untouched.R_refl split: if_splits)
next
  case (Inr x)
  show ?thesis
  proof (cases "null_column d")
  case True
  with run show ?thesis by (auto simp: upsert_chassis_def up_write_Some untouched.R_refl)
  next
  case False
  obtain c created db where x: "x = ((c, created), db)" by (metis surj_pair)
  from run Inr x False have r: "r = Inr (c, created)" "st' = set_inventory db st"
    by (auto simp: upsert_chassis_def up_write_Some)
  have "inventory_untouched m (up_db st) db \<and> row_of m (ch_pk c) db \<and> ch_pk c \<in> ch_pk ` set (iv_chassis db)"
    using Inr[unfolded x] reported_fields(1)
  proof (cases rule: upsertE)
    case (existing r fs)
    have own: "row_of m (ch_pk r) (up_db st)"
      using existing(1,2) st by (auto simp: row_of_def keys_ok_def inventory_keys_def distinct_map inj_on_def)
    from existing(6) show ?thesis
    proof
      assume "c = r \<and> db = up_db st \<and> fs = []"
      then show ?thesis using own existing(1) by simp
    next
      assume s: "save_chassis (ue_save env) (ue_now env) (Some fs) (copy_fields fs (snd (reported_chassis (ue_now env) d)) r) (up_db st) = Inr (c, db)"
      have f: "FManufacturer \<notin> set fs" by (simp add: existing(4))
      have "ch_pk c = ch_pk r" "keeps_others m (up_db st) db" using save_keeps_others[OF s f] own by simp_all
      moreover have "inventory_untouched m (up_db st) db" using save_untouched[OF s f] own by simp
      moreover have "ch_pk r \<in> ch_pk ` set (iv_chassis (up_db st))" using existing(1) by simp
      ultimately show ?thesis using own by (simp add: keeps_others_def)
    qed
  next
    case (fresh c0 w)
    from create_untouched[OF fresh(4), of m] show ?thesis by (simp add: fresh(3))
  qed
  moreover from this have "untouched m st st'" by (simp add: r(2) set_inventory_untouched)
  moreover from this st have "keys_ok st'" by (simp add: untouched_def)
  ultimately show ?thesis using r by (simp add: owned_def)
  qed
qed

subsection \<open>Channels and units\<close>

lemma channel_row:
  assumes o: "owned m (ch_pk c) st" and run: "update_or_create_channel c n st = Some (r, st')"
  shows "untouched m st st' \<and> (\<forall>ch. r = Inr ch \<longrightarrow> ch \<in> set (iv_channels (up_db st')) \<and> rf_chassis ch = ch_pk c)"
proof -
  let ?rows = "iv_channels (up_db st)"
  from run consider (same) "st' = st" "\<forall>ch. r = Inr ch \<longrightarrow> ch \<in> set ?rows \<and> rf_chassis ch = ch_pk c"
    | (new) ctx ch where "prepare_channel_for_save True ?rows c (blank_channel (next_pk rf_pk ?rows) (ch_pk c) n) = Inr (ctx, ch)"
        "r = Inr ch" "st' = st\<lparr>up_db := (up_db st)\<lparr>iv_channels := ?rows @ [ch]\<rparr>\<rparr>"
    by (auto simp: update_or_create_channel_def up_write_Some Let_def qs_get_or_none_filter
        split: sum.splits option.splits dest: at_most_one_mem)
  then show ?thesis
  proof cases
    case same
    then show ?thesis by (simp add: untouched.R_refl)
  next
    case new
    from new(1) have ch: "ch = blank_channel (next_pk rf_pk ?rows) (ch_pk c) n"
      by (auto simp: prepare_channel_for_save_def split: if_splits)
    have "keeps_others m (up_db st) (up_db st')" by (auto simp: new(3) keeps_others_def other_rows_def row_of_def)
    then have iu: "inventory_untouched m (up_db st) (up_db st')"
      using next_pk_notin[of rf_pk ?rows] by (auto simp: inventory_untouched_def inventory_keys_def new(3) ch blank_channel_def)
    then have "untouched m st st'" by (auto simp: untouched_def keys_ok_def inventory_untouched_def new(3))
    then show ?thesis using new(2,3) ch by (simp add: blank_channel_def)
  qed
qed

lemma prepare_unit_pk:
  assumes "prepare_unit_for_save now adding rows u = Inr (ctx, u')"
  shows "un_pk u' = un_pk u"
  using assms by (auto simp: prepare_unit_for_save_def Let_def split: if_splits sum.splits)

lemma update_or_create_unitE:
  assumes run: "update_or_create_unit env c ch slot r st = Some (res, st')"
  obtains (refused) e where "res = Inl e" "st' = st"
  | (stored) found ctx u1 u where
      "qs_get_or_none (\<lambda>u. un_assigned_resource u = Some (rf_pk ch)) (up_units st) = Inr found"
      "prepare_unit_for_save (ue_now env) (found = None) (up_units st)
         (reported_unit c ch slot r (case found of Some u \<Rightarrow> u | None \<Rightarrow> blank_unit (next_pk un_pk (up_units st)))) = Inr (ctx, u1)"
      "u = u1\<lparr>un_updated := ue_now env\<rparr>" "res = Inr u" "ue_accepts env u"
      "st' = st\<lparr>up_units := (if found = None then up_units st @ [u] else put_row un_pk u (up_units st)),
         up_db := (up_db st)\<lparr>iv_audit := finalize_unit_save (ue_now env) u ctx (iv_audit (up_db st))\<rparr>\<rparr>"
proof (cases "qs_get_or_none (\<lambda>u. un_assigned_resource u = Some (rf_pk ch)) (up_units st)")
  case (Inl e)
  with run show ?thesis by (intro refused[of SeveralRows]) (auto simp: update_or_create_unit_def up_write_Some Let_def)
next
  case found: (Inr found)
  let ?p = "prepare_unit_for_save (ue_now env) (found = None) (up_units st)
      (reported_unit c ch slot r (case found of Some u \<Rightarrow> u | None \<Rightarrow> blank_unit (next_pk un_pk (up_units st))))"
  show ?thesis
  proof (cases ?p)
    case (Inl e)
    with run found show ?thesis by (intro refused[of "UnitRefused e"]) (auto simp: update_or_create_unit_def up_write_Some Let_def)
  next
    case (Inr x)
    obtain ctx u1 where x: "x = (ctx, u1)" by (rule prod.exhaust)
    show ?thesis
    proof (cases "ue_accepts env (u1\<lparr>un_updated := ue_now env\<rparr>)")
      case True
      with run found Inr x show ?thesis
        by (intro stored[OF found Inr[unfolded x] HOL.refl]) (simp_all add: update_or_create_unit_def up_write_def Let_def)
    next
      case False
      with run found Inr x show ?thesis
        by (intro refused[of ColumnRefused]) (simp_all add: update_or_create_unit_def up_write_def Let_def)
    qed
  qed
qed

lemma unit_row_untouched:
  assumes k: "keys_ok st" and ch: "ch \<in> set (iv_channels (up_db st))" "rf_chassis ch \<notin> foreign_pks m (up_db st)"
    and run: "update_or_create_unit env c ch slot r st = Some (res, st')"
  shows "untouched m st st'"
proof -
  let ?rows = "up_units st"
  have here: "un_assigned_resource u = Some (rf_pk ch) \<Longrightarrow> \<not> foreign_unit m (up_db st) u" for u
    using ch k by (auto simp: foreign_unit_def keys_ok_def inventory_keys_def distinct_map inj_on_def)
  from run show ?thesis
  proof (cases rule: update_or_create_unitE)
    case refused
    then show ?thesis by (simp add: untouched.R_refl)
  next
    case (stored found ctx u1 u)
    have pk: "un_pk u = un_pk (case found of Some u \<Rightarrow> u | None \<Rightarrow> blank_unit (next_pk un_pk ?rows))"
      using prepare_unit_pk[OF stored(2)] stored(3) by (simp add: reported_unit_def)
    have inv: "inventory_untouched m (up_db st) (up_db st')"
      by (simp add: stored(6) inventory_untouched_def inventory_keys_def keeps_others_def other_rows_def row_of_def)
    have keys: "distinct (map un_pk (up_units st'))"
      using k pk next_pk_notin[of un_pk ?rows] by (auto simp: stored(6) keys_ok_def blank_unit_def)
    have "v \<in> set (up_units st')" if v: "v \<in> set ?rows" "foreign_unit m (up_db st) v" for v
    proof (cases found)
      case None
      with v show ?thesis by (simp add: stored(6))
    next
      case (Some w)
      from stored(1)[unfolded Some qs_get_or_none_filter] have w: "w \<in> set (filter (\<lambda>u. un_assigned_resource u = Some (rf_pk ch)) ?rows)"
        by (rule at_most_one_mem)
      then have "v \<noteq> w" using here[of w] v(2) by auto
      with v(1) w k have "un_pk v \<noteq> un_pk w" by (auto simp: keys_ok_def distinct_map inj_on_def)
      then show ?thesis using v(1) pk Some by (simp add: stored(6) put_row_mem)
    qed
    with inv keys show ?thesis by (auto simp: untouched_def keys_ok_def inventory_untouched_def)
  qed
qed


lemma persist_unit_untouched: "untouched.keeps m (owned m (ch_pk c)) (persist_unit env c a n r)"
  unfolding untouched.keeps_def
proof (intro allI impI)
  fix st res st' assume o: "owned m (ch_pk c) st" and run: "persist_unit env c a n r st = Some (res, st')"
  from run[unfolded persist_unit_def up_bind_Some[of "update_or_create_channel c n"]] show "untouched m st st'"
  proof (elim disjE exE conjE)
    fix e assume "update_or_create_channel c n st = Some (Inl e, st')"
    from channel_row[OF o this] show ?thesis by simp
  next
    fix ch st1 assume c1: "update_or_create_channel c n st = Some (Inr ch, st1)"
      and rest: "up_bind (\<lambda>st. map_option (\<lambda>s. (Inr s, st)) (assign_unit_slot env ch r a n st))
        (\<lambda>slot. up_bind (update_or_create_unit env c ch slot r) (alert_check env check_wireless_unit_alerts)) st1 = Some (res, st')"
    from channel_row[OF o c1] have s1: "untouched m st st1" "ch \<in> set (iv_channels (up_db st1))" "rf_chassis ch = ch_pk c" by simp_all
    have o1: "owned m (ch_pk c) st1" using o s1(1) owned_stable[of m "ch_pk c"] by (auto simp: untouched.stable_def)
    then have k: "keys_ok st1" "rf_chassis ch \<notin> foreign_pks m (up_db st1)"
      using s1(3) own_not_foreign by (simp_all add: owned_def)
    from rest obtain slot where
      b: "up_bind (update_or_create_unit env c ch slot r) (alert_check env check_wireless_unit_alerts) st1 = Some (res, st')"
      by (auto simp: up_bind_Some)
    have "untouched m st1 st'"
      using b[unfolded up_bind_Some]
    proof (elim disjE exE conjE)
      fix e assume "update_or_create_unit env c ch slot r st1 = Some (Inl e, st')"
      then show ?thesis by (rule unit_row_untouched[OF k(1) s1(2) k(2)])
    next
      fix u st2 assume u: "update_or_create_unit env c ch slot r st1 = Some (Inr u, st2)"
        and al: "alert_check env check_wireless_unit_alerts u st2 = Some (res, st')"
      have "untouched m st1 st2" by (rule unit_row_untouched[OF k(1) s1(2) k(2) u])
      with alert_check_db[OF al] show ?thesis by (simp add: untouched_def keys_ok_def)
    qed
    with s1(1) show ?thesis by (rule untouched.R_trans)
  qed
qed

lemma channel_untouched: "untouched.keeps m (owned m (ch_pk c)) (update_channel_and_unit env tr c a cr)"
  unfolding update_channel_and_unit_def Let_def
  by (auto split: option.splits sum.splits intro: persist_unit_untouched)

lemma device_channels_untouched: "untouched.keeps m (owned m (ch_pk c)) (device_channels env pl d c a)"
  unfolding device_channels_def
  by (auto split: option.splits sum.splits list.splits intro: untouched.keeps_channels channel_untouched simp del: update_channels.simps)

lemma device_untouched: "untouched.keeps m keys_ok (update_device env pl m raw)"
  unfolding untouched.keeps_def
proof (intro allI impI)
  fix st r st' assume k: "keys_ok st" and run: "update_device env pl m raw st = Some (r, st')"
  show "untouched m st st'"
  proof (cases "\<exists>d. pl_device pl raw = Inr (Some d) \<and> reported_id d \<noteq> []")
    case False
    with run have "st' = st"
      by (auto simp: update_device_def up_fail_def Let_def split: sum.splits option.splits if_splits)
    then show ?thesis by (simp add: untouched.R_refl)
  next
    case True
    then obtain d where d: "pl_device pl raw = Inr (Some d)" "reported_id d \<noteq> []" by blast
    from run d have b: "up_bind (upsert_chassis env m (reported_id d) d) (\<lambda>(c, created).
             up_bind (reconcile_chassis_lifecycle env c created) (\<lambda>c'.
             up_bind (device_channels env pl d c' (reported_id d)) (\<lambda>_. up_return (ch_pk c')))) st = Some (r, st')"
      by (simp add: update_device_def Let_def)
    from b[unfolded up_bind_Some[of "upsert_chassis env m (reported_id d) d"]] show ?thesis
    proof (elim disjE exE conjE)
      fix e assume "upsert_chassis env m (reported_id d) d st = Some (Inl e, st')"
      from upsert_untouched[OF k this] show ?thesis by simp
    next
      fix x st1 assume u: "upsert_chassis env m (reported_id d) d st = Some (Inr x, st1)"
        and rest: "(case x of (c, created) \<Rightarrow> up_bind (reconcile_chassis_lifecycle env c created) (\<lambda>c'.
             up_bind (device_channels env pl d c' (reported_id d)) (\<lambda>_. up_return (ch_pk c')))) st1 = Some (r, st')"
      obtain c created where x: "x = (c, created)" by (rule prod.exhaust)
      from upsert_untouched[OF k u] x have s1: "untouched m st st1" "owned m (ch_pk c) st1" by simp_all
      have "untouched m st1 st'"
        using rest[unfolded x prod.case up_bind_Some[of "reconcile_chassis_lifecycle env c created"]]
      proof (elim disjE exE conjE)
        fix e assume "reconcile_chassis_lifecycle env c created st1 = Some (Inl e, st')"
        then show ?thesis by (rule untouched.keepsD[OF reconcile_untouched s1(2)])
      next
        fix c' st2 assume rc: "reconcile_chassis_lifecycle env c created st1 = Some (Inr c', st2)"
          and dv: "up_bind (device_channels env pl d c' (reported_id d)) (\<lambda>_. up_return (ch_pk c')) st2 = Some (r, st')"
        have s2: "untouched m st1 st2" by (rule untouched.keepsD[OF reconcile_untouched s1(2) rc])
        have o2: "owned m (ch_pk c') st2"
          using s1(2) s2 owned_stable[of m "ch_pk c"] reconcile_pk[OF rc] by (auto simp: untouched.stable_def)
        have "untouched.keeps m (owned m (ch_pk c'))
            (up_bind (device_channels env pl d c' (reported_id d)) (\<lambda>_. up_return (ch_pk c')))"
          by (rule untouched.keeps_bind[OF device_channels_untouched]) simp_all
        from untouched.keepsD[OF this o2 dv] have "untouched m st2 st'" .
        with s2 show ?thesis by (rule untouched.R_trans)
      qed
      with s1(1) show ?thesis by (rule untouched.R_trans)
    qed
  qed
qed

lemma checks_untouched:
  assumes "check_all_offline env us st = Some (r, st')"
  shows "up_db st' = up_db st \<and> up_units st' = up_units st"
  using assms by (induction us arbitrary: st) (auto simp: up_return_def up_bind_Some dest!: alert_check_db)

lemma offline_untouched:
  assumes k: "keys_ok st" and run: "mark_offline_receivers env m active st = Some (r, st')"
  shows "untouched m st st'"
proof (cases "missing_chassis m active (up_db st) = []")
  case True
  with run show ?thesis by (simp add: mark_offline_receivers_def untouched.R_refl)
next
  case False
  let ?P = "\<lambda>st'. \<forall>pk \<in> set (missing_chassis m active (up_db st)). owned m pk st'"
  from run False obtain n st1 where mk: "mark_all_offline env (missing_chassis m active (up_db st)) 0 st = Some (n, st1)"
    and rest: "st' = st1 \<or> check_all_offline env (offline_units m st1) st1 = Some (r, st')"
    by (auto simp: mark_offline_receivers_def Let_def split: option.splits if_splits)
  have P: "?P st"
    using k by (auto simp: missing_chassis_def owned_def keys_ok_def inventory_keys_def row_of_def distinct_map inj_on_def)
  have S: "untouched.stable m ?P"
    using owned_stable[of m] unfolding untouched.stable_def by blast
  have K: "untouched.keeps m ?P (change_status env pk ''offline'')" if "pk \<in> set (missing_chassis m active (up_db st))" for pk
    using change_status_untouched[of m pk env "''offline''"] that unfolding untouched.keeps_def by blast
  from untouched.keeps_offline[OF K S P mk] have s1: "untouched m st st1" .
  from rest show ?thesis
  proof
    assume "check_all_offline env (offline_units m st1) st1 = Some (r, st')"
    from checks_untouched[OF this] s1 show ?thesis by (simp add: untouched_def keys_ok_def)
  qed (use s1 in simp)
qed

text \<open>C15: Whatever one manufacturer's update does, and even when processing fails half way or the
  offline check raises, it leaves every chassis of other manufacturers, every charger, the channels of
  those chassis, the units on those channels and the units on no channel as they were, and keeps the
  keys unique.\<close>

theorem update_touches_own_only:
  assumes "keys_ok st" "update_models_from_api_data env pl m authoritative raws st = Some (r, st')"
  shows "keys_ok st' \<and> other_rows m (up_db st') = other_rows m (up_db st)
    \<and> iv_chargers (up_db st') = iv_chargers (up_db st)
    \<and> (\<forall>ch \<in> set (iv_channels (up_db st)). rf_chassis ch \<in> foreign_pks m (up_db st) \<longrightarrow> ch \<in> set (iv_channels (up_db st')))
    \<and> (\<forall>u \<in> set (up_units st). foreign_unit m (up_db st) u \<longrightarrow> u \<in> set (up_units st'))"
proof -
  from assms(2) obtain t st1 where d: "update_devices env pl m raws \<lparr>ut_updated = 0, ut_active = [], ut_failed = False\<rparr> st = Some (t, st1)"
    and rest: "st' = st1 \<or> (\<exists>r'. mark_offline_receivers env m (ut_active t) st1 = Some (r', st'))"
    by (auto simp: update_models_from_api_data_def up_bind_Some up_return_def split: option.splits prod.splits if_splits)
  have s1: "untouched m st st1"
    by (rule untouched.keeps_devices[OF device_untouched _ _ d]) (simp_all add: assms(1))
  then have "keys_ok st1" using assms(1) by (simp add: untouched_def)
  with rest have "untouched m st1 st'" by (auto intro: offline_untouched simp: untouched.R_refl)
  with s1 have "untouched m st st'" by (rule untouched.R_trans)
  with assms(1) show ?thesis by (simp add: untouched_def inventory_untouched_def keeps_others_def)
qed


section \<open>What a payload can break\<close>

lemma existing_channel:
  "qs_get_or_none (\<lambda>x. rf_chassis x = ch_pk c \<and> rf_number x = n) (iv_channels (up_db st)) = Inr (Some ch) \<Longrightarrow>
     update_or_create_channel c n st = Some (Inr ch, st)"
  by (simp add: update_or_create_channel_def up_write_def Let_def)

lemma alert_check_keeps:
  assumes "alert_check env f u st = Some (r, st')"
  shows "iv_channels (up_db st') = iv_channels (up_db st) \<and> up_units st' = up_units st"
  using alert_check_db[OF assms] by simp

text \<open>A unit whose stored status is not one of the lifecycle refuses every report of another status.\<close>

lemma unknown_status_refused:
  assumes ch: "qs_get_or_none (\<lambda>x. rf_chassis x = ch_pk c \<and> rf_number x = n) (iv_channels (up_db st)) = Inr (Some ch)"
    and u: "qs_get_or_none (\<lambda>x. un_assigned_resource x = Some (rf_pk ch)) (up_units st) = Inr (Some u)"
    and pks: "distinct (map un_pk (up_units st))"
    and s: "allowed_from unit_transitions (un_status u) = []" "or_empty (ur_status r) \<noteq> un_status u"
  shows "persist_unit env c a n r st
    = Some (Inl (UnitRefused (InvalidTransition (un_status u) (or_empty (ur_status r)))), st)"
proof -
  have f: "filter (\<lambda>x. un_assigned_resource x = Some (rf_pk ch)) (up_units st) = [u]"
    using u by (simp add: qs_get_or_none_filter at_most_one_Some)
  then have mem: "u \<in> set (up_units st)" by (rule filter_one_mem)
  have slot: "assign_unit_slot env ch r a n st = Some (un_slot u)" by (simp add: assign_unit_slot_def f)
  have get: "qs_get (\<lambda>x. un_pk x = un_pk u) (up_units st) = Inr u"
    using filter_by_key[OF pks mem] by (simp add: qs_get_def)
  have "prepare_unit_for_save (ue_now env) False (up_units st) (reported_unit c ch (un_slot u) r u)
      = Inl (InvalidTransition (un_status u) (or_empty (ur_status r)))"
    using s by (simp add: prepare_unit_for_save_def reported_unit_def get)
  then have "update_or_create_unit env c ch (un_slot u) r st
      = Some (Inl (UnitRefused (InvalidTransition (un_status u) (or_empty (ur_status r)))), st)"
    by (simp add: update_or_create_unit_def up_write_def u)
  then show ?thesis by (simp add: persist_unit_def up_bind_def existing_channel[OF ch] slot)
qed

text \<open>A channel whose first unit report carries no status is lost for status reports: the unit is
  stored with the empty status, which has no transition, so every later report with a status is
  refused and changes nothing.\<close>

theorem report_without_status_blocks_unit:
  assumes k: "keys_ok st"
    and ch: "qs_get_or_none (\<lambda>x. rf_chassis x = ch_pk c \<and> rf_number x = n) (iv_channels (up_db st)) = Inr (Some ch)"
    and new: "\<forall>u \<in> set (up_units st). un_assigned_resource u \<noteq> Some (rf_pk ch)"
    and first: "ur_status r0 = None" "persist_unit env c a n r0 st = Some (Inr (), st1)"
    and later: "or_empty (ur_status r) \<noteq> []"
  shows "persist_unit env c a n r st1 = Some (Inl (UnitRefused (InvalidTransition [] (or_empty (ur_status r)))), st1)"
proof -
  from first(2) obtain slot u st2 where w: "update_or_create_unit env c ch slot r0 st = Some (Inr u, st2)"
    and al: "alert_check env check_wireless_unit_alerts u st2 = Some (Inr (), st1)"
    unfolding persist_unit_def up_bind_Some[of "update_or_create_channel c n"] existing_channel[OF ch]
    by (auto simp: up_bind_Some)
  have none: "qs_get_or_none (\<lambda>x. un_assigned_resource x = Some (rf_pk ch)) (up_units st) = Inr None"
    using new by (simp add: qs_get_or_none_filter at_most_one_None filter_empty_conv)
  from w have st2: "up_units st2 = up_units st @ [u] \<and> iv_channels (up_db st2) = iv_channels (up_db st)
      \<and> un_assigned_resource u = Some (rf_pk ch) \<and> un_status u = [] \<and> un_pk u = next_pk un_pk (up_units st)"
  proof (cases rule: update_or_create_unitE)
    case (refused e)
    then show ?thesis by simp
  next
    case (stored found ctx u1 u')
    then have "found = None" using none by simp
    with stored(2) first(1) have "u1 = reported_unit c ch slot r0 (blank_unit (next_pk un_pk (up_units st)))"
      by (simp add: prepare_unit_for_save_def)
    with stored first(1) \<open>found = None\<close> show ?thesis by (simp add: reported_unit_def or_empty_def blank_unit_def)
  qed
  from alert_check_keeps[OF al] st2 have units: "up_units st1 = up_units st @ [u]" "iv_channels (up_db st1) = iv_channels (up_db st)"
    by simp_all
  have "filter (\<lambda>x. un_assigned_resource x = Some (rf_pk ch)) (up_units st1) = [u]"
    using new st2 by (simp add: units filter_empty_conv)
  then have one: "qs_get_or_none (\<lambda>x. un_assigned_resource x = Some (rf_pk ch)) (up_units st1) = Inr (Some u)"
    by (simp add: qs_get_or_none_filter)
  have "distinct (map un_pk (up_units st1))"
    using k st2 next_pk_notin[of un_pk "up_units st"] by (simp add: units keys_ok_def)
  moreover have "allowed_from unit_transitions (un_status u) = []" using st2 by (simp add: allowed_from_def unit_transitions_def)
  ultimately show ?thesis
    using unknown_status_refused[of c n st1 ch u r env a] ch one later st2 by (simp add: units)
qed

text \<open>A payload without an address is refused as a whole, for a known device too: it would blank
  the stored address, so nothing of it is written and the device does not count as updated.\<close>

theorem payload_without_address_refused:
  assumes d: "pl_device pl raw = Inr (Some d)" "reported_id d \<noteq> []" "strip (entry_or [] (de_ip d)) = []"
  shows "(\<exists>e. update_device env pl m raw st = Some (Inl e, st))
    \<and> update_models_from_api_data env pl m authoritative [raw] st = Some (Inr 0, st)"
proof (cases "null_column d")
  case True
  then have one: "update_device env pl m raw st = Some (Inl NullColumn, st)"
    by (simp add: update_device_def d Let_def up_bind_def upsert_chassis_def up_write_def)
  then show ?thesis by (simp add: update_models_from_api_data_def)
next
  case not_null: False
  let ?w = "reported_chassis (ue_now env) d" and ?n = "reported_new_chassis (ue_now env) d"
  let ?u = "upsert (ue_save env) (ue_tenancy env) (ue_now env) m (reported_id d) ?w (Some ?n) (up_db st)"
  have blank: "integrity_violation row rows" if "ch_ip row = []" for row rows using that by (simp add: integrity_violation_def)
  have refused: "isl ?u"
  proof (rule ccontr)
    assume "\<not> isl ?u"
    then obtain c created db where "?u = Inr ((c, created), db)" by (metis sum.collapse(2) surj_pair)
    from this reported_fields(1) show False
    proof (cases rule: upsertE)
      case (existing r fs)
      have f: "FIp \<in> set fs" by (simp add: existing(4) reported_chassis_def)
      then have "fs \<noteq> []" by auto
      with existing(6) obtain s: "save_chassis (ue_save env) (ue_now env) (Some fs) (copy_fields fs (snd ?w) r) (up_db st) = Inr (c, db)" by blast
      from s obtain old derived affected prev where
        pre: "pre_save (ue_save env) (ue_now env) False (Some fs) (copy_fields fs (snd ?w) r) (up_db st) = Inr (old, derived, affected, c)"
        and v: "\<not> integrity_violation (written_row (ue_save env) (Some fs) derived c prev) (iv_chassis (up_db st))"
        by (rule save_chassisE)
      from pre obtain c1 where
        l: "prepare_lifecycle_fields (ue_now env) False (iv_chassis (up_db st)) (copy_fields fs (snd ?w) r) = Inr (old, derived, c1)"
        and core: "keeps_core c1 c" by (rule pre_saveE)
      have "ch_ip c = []" using prepare_lifecycle_frame[OF l] core f d(3) by (simp add: keeps_core_def reported_chassis_def)
      then have "ch_ip (written_row (ue_save env) (Some fs) derived c prev) = []"
        using f by (simp add: written_row_def ip_key'_def prepared_ip_def)
      with v blank show False by blast
    next
      case (fresh c0 w)
      from create_chassis_rows[OF fresh(4)] obtain row where
        "ch_ip row = ip_key' (ue_save env) (ch_ip c0)" "\<not> integrity_violation row (iv_chassis (up_db st))" by blast
      moreover have "ch_ip c0 = []"
        using d(3) by (simp add: fresh(1,3) reported_new_chassis_def reported_chassis_def)
      ultimately show False using blank by (simp add: ip_key'_def prepared_ip_def)
    qed
  qed
  then obtain e where "?u = Inl e" by (auto simp: isl_def)
  then have one: "update_device env pl m raw st = Some (Inl (NotPersisted e), st)"
    by (simp add: update_device_def d Let_def up_bind_def upsert_chassis_def up_write_def not_null)
  then show ?thesis by (simp add: update_models_from_api_data_def)
qed

text \<open>A null name loses the update of the device; the key left out would have blanked the name.\<close>

lemma null_name_refused:
  "pl_device pl raw = Inr (Some d) \<Longrightarrow> reported_id d \<noteq> [] \<Longrightarrow> de_name d = Null \<Longrightarrow>
     update_device env pl m raw st = Some (Inl NullColumn, st)"
  by (simp add: update_device_def Let_def up_bind_def upsert_chassis_def up_write_def null_column_def)

lemma online_unit_silent:
  assumes "un_status u = ''online''"
  shows "alert_check env check_hardware_offline_alerts u st = Some (Inr (), st\<lparr>up_alert_db := alert_view env st\<rparr>)"
  using assms by (simp add: alert_check_def check_hardware_offline_alerts_def)

lemma online_units_silent:
  "\<forall>u \<in> set us. un_status u = ''online'' \<Longrightarrow>
     \<exists>st'. check_all_offline env us st = Some (Inr (), st') \<and> ad_alerts (up_alert_db st') = ad_alerts (up_alert_db st) \<and> up_db st' = up_db st"
proof (induction us arbitrary: st)
  case Nil
  then show ?case by (simp add: up_return_def)
next
  case (Cons u us)
  from Cons.IH[of "st\<lparr>up_alert_db := alert_view env st\<rparr>"] Cons.prems show ?case
    by (auto simp: up_bind_def online_unit_silent alert_view_def)
qed

lemma marking_keeps_statuses:
  "mark_all_offline env pks n st = Some (k, st') \<Longrightarrow>
     un_status ` set (up_units st') = un_status ` set (up_units st) \<and> up_alert_db st' = up_alert_db st"
proof (induction pks arbitrary: n st)
  case Nil
  then show ?case by simp
next
  case (Cons pk pks)
  from Cons.prems obtain r st1 n1 where c: "change_status env pk ''offline'' st = Some (r, st1)"
    and rest: "mark_all_offline env pks n1 st1 = Some (k, st')"
    by (auto split: option.splits sum.splits prod.splits)
  have "un_status (case un_assigned_resource u of None \<Rightarrow> u
      | Some ch \<Rightarrow> if ch \<in> X then u else u\<lparr>un_assigned_resource := None\<rparr>) = un_status u" for u :: wireless_unit and X
    by (simp split: option.split)
  then have "un_status ` set (up_units (set_inventory db st)) = un_status ` set (up_units st)" for db
    by (simp add: set_inventory_def image_image)
  with c have "un_status ` set (up_units st1) = un_status ` set (up_units st) \<and> up_alert_db st1 = up_alert_db st"
    by (auto elim!: change_statusE)
  with Cons.IH[OF rest] show ?case by simp
qed

text \<open>A chassis whose units all say online goes offline without an alert: the offline check looks
  at the status of each unit, which the reconciliation does not change.\<close>

theorem offline_chassis_of_online_units_silent:
  assumes "\<forall>u \<in> set (up_units st). un_status u = ''online''"
    and "mark_offline_receivers env m active st = Some (r, st')"
  shows "r = Inr () \<and> ad_alerts (up_alert_db st') = ad_alerts (up_alert_db st)"
proof (cases "missing_chassis m active (up_db st) = []")
  case True
  with assms(2) show ?thesis by (simp add: mark_offline_receivers_def)
next
  case False
  then obtain n st1 where mk: "mark_all_offline env (missing_chassis m active (up_db st)) 0 st = Some (n, st1)"
    and rest: "r = Inr () \<and> st' = st1 \<or> check_all_offline env (offline_units m st1) st1 = Some (r, st')"
    using assms(2) by (auto simp: mark_offline_receivers_def Let_def split: option.splits if_splits)
  note M = marking_keeps_statuses[OF mk]
  then have "\<forall>u \<in> set (up_units st1). un_status u = ''online''" using assms(1) by (metis image_eqI imageE)
  then have "\<forall>u \<in> set (offline_units m st1). un_status u = ''online''" by (auto simp: offline_units_def)
  from online_units_silent[OF this, of env st1] rest M show ?thesis by auto
qed


section \<open>Updates return\<close>

text \<open>\<open>returns j m\<close>: while there is room for \<open>j\<close> more units, the operation returns and adds at most that
  many.\<close>

definition returns :: "nat \<Rightarrow> 'a update_op \<Rightarrow> bool" where
  "returns j m = (\<forall>st. length (up_units st) + j \<le> 10000 \<longrightarrow>
     (\<exists>r st'. m st = Some (r, st') \<and> length (up_units st') \<le> length (up_units st) + j))"

lemma returnsD:
  assumes "returns j m" "length (up_units st) + j \<le> 10000"
  obtains r st' where "m st = Some (r, st')" "length (up_units st') \<le> length (up_units st) + j"
  using assms unfolding returns_def by blast

lemma returns_more:
  assumes "returns i m" "i \<le> j"
  shows "returns j m"
  unfolding returns_def
proof (intro allI impI)
  fix st :: update_state assume "length (up_units st) + j \<le> 10000"
  with assms(2) have "length (up_units st) + i \<le> 10000" by linarith
  from returnsD[OF assms(1) this] assms(2)
  show "\<exists>r st'. m st = Some (r, st') \<and> length (up_units st') \<le> length (up_units st) + j" by (metis add_le_cancel_left le_trans)
qed

lemma returns_const [simp]: "returns j (up_return x)" "returns j (up_fail e)"
  by (auto simp: returns_def up_return_def up_fail_def)

lemma returns_bind:
  assumes "returns i m" "\<And>x. returns j (f x)"
  shows "returns (i + j) (up_bind m f)"
  unfolding returns_def
proof (intro allI impI)
  fix st :: update_state assume room: "length (up_units st) + (i + j) \<le> 10000"
  then have "length (up_units st) + i \<le> 10000" by simp
  from returnsD[OF assms(1) this] obtain r st1 where m: "m st = Some (r, st1)" "length (up_units st1) \<le> length (up_units st) + i" .
  show "\<exists>r st'. up_bind m f st = Some (r, st') \<and> length (up_units st') \<le> length (up_units st) + (i + j)"
  proof (cases r)
    case (Inl e)
    with m show ?thesis by (simp add: up_bind_def)
  next
    case (Inr x)
    have "length (up_units st1) + j \<le> 10000" using room m(2) by simp
    from returnsD[OF assms(2) this, of x] obtain r2 st2 where
      "f x st1 = Some (r2, st2)" "length (up_units st2) \<le> length (up_units st1) + j" .
    with m Inr show ?thesis by (simp add: up_bind_def)
  qed
qed

lemma returns_bind0: "returns 0 m \<Longrightarrow> (\<And>x. returns j (f x)) \<Longrightarrow> returns j (up_bind m f)"
  using returns_bind[of 0 m j f] by simp

lemma returns_bind1: "returns k m \<Longrightarrow> (\<And>x. returns 0 (f x)) \<Longrightarrow> returns k (up_bind m f)"
  using returns_bind[of k m 0 f] by simp

lemma returns_write:
  assumes "\<And>st x st'. w st = Inr (x, st') \<Longrightarrow> length (up_units st') \<le> length (up_units st) + j"
  shows "returns j (up_write w)"
  unfolding returns_def
proof (intro allI impI)
  fix st
  show "\<exists>r st'. up_write w st = Some (r, st') \<and> length (up_units st') \<le> length (up_units st) + j"
    using assms[of st] by (cases "w st") (auto simp: up_write_def split: prod.splits)
qed

lemma set_inventory_length [simp]: "length (up_units (set_inventory db st)) = length (up_units st)"
  by (simp add: set_inventory_def)

lemma returns_basic:
  "returns 0 (upsert_chassis env m a d)" "returns 0 (change_status env pk s)"
  "returns 0 (update_or_create_channel c n)" "returns 1 (update_or_create_unit env c ch slot r)"
  "returns 0 (alert_check env f u)"
proof -
  show "returns 0 (upsert_chassis env m a d)" unfolding upsert_chassis_def
    by (rule returns_write) (auto split: if_splits sum.splits prod.splits)
  show "returns 0 (change_status env pk s)" unfolding change_status_def
    by (rule returns_write) (auto split: sum.splits prod.splits)
  show "returns 0 (update_or_create_channel c n)" unfolding update_or_create_channel_def
    by (rule returns_write) (auto simp: Let_def split: sum.splits option.splits)
  show "returns 1 (update_or_create_unit env c ch slot r)" unfolding update_or_create_unit_def
    by (rule returns_write) (auto simp: Let_def split: sum.splits if_splits)
  show "returns 0 (alert_check env f u)"
    by (auto simp: returns_def alert_check_def Let_def split: prod.splits option.splits)
qed

lemma returns_slot: "returns 1 (up_bind (\<lambda>st. map_option (\<lambda>s. (Inr s, st)) (assign_unit_slot env ch r a n st)) f)"
  if f: "\<And>slot. returns 1 (f slot)"
  unfolding returns_def
proof (intro allI impI)
  fix st :: update_state assume room: "length (up_units st) + 1 \<le> 10000"
  let ?taken = "un_slot ` set (up_units st)"
  have "card ?taken \<le> length (up_units st)" by (metis card_length image_set length_map)
  moreover have "card (int ` {0..<10000}) = 10000" by (simp add: card_image)
  ultimately have "\<not> int ` {0..<10000} \<subseteq> ?taken" using room card_mono[of ?taken "int ` {0..<10000}"] by auto
  then obtain i where i: "i < 10000" "int i \<notin> ?taken" by (metis atLeastLessThan_iff image_subsetI)
  let ?start = "ue_digest env (a @ '':'' @ int_text n) mod 10000"
  have "?start < 10000" by simp
  from some_slot_ahead[OF i(1) this] i(2) obtain k where "int ((?start + k) mod 10000) \<notin> ?taken" by auto
  then obtain k where k: "int ((?start + k) mod 10000) \<notin> ?taken" "\<forall>j<k. int ((?start + j) mod 10000) \<in> ?taken"
    using exists_least_iff[of "\<lambda>k. int ((?start + k) mod 10000) \<notin> ?taken"] by blast
  have "free_slot ?taken ?start = Some ((?start + k) mod 10000)" by (rule free_slot_first[OF k]) simp
  then obtain s where "assign_unit_slot env ch r a n st = Some s"
    unfolding assign_unit_slot_def by (cases "filter (\<lambda>u. un_assigned_resource u = Some (rf_pk ch)) (up_units st)"; cases "ur_slot r") auto
  with f[of s, unfolded returns_def, rule_format, OF room] show "\<exists>r' st'. up_bind (\<lambda>st. map_option (\<lambda>s. (Inr s, st)) (assign_unit_slot env ch r a n st)) f st = Some (r', st')
      \<and> length (up_units st') \<le> length (up_units st) + 1"
    by (auto simp: up_bind_def)
qed

lemma persist_unit_returns: "returns 1 (persist_unit env c a n r)"
  unfolding persist_unit_def
  by (rule returns_bind0[OF returns_basic(3)], rule returns_slot, rule returns_bind1[OF returns_basic(4)],
      rule returns_basic(5))

lemma update_channels_returns: "returns (length crs) (update_channels env tr c a crs)"
proof (induction crs)
  case Nil
  then show ?case by simp
next
  case (Cons cr crs)
  have "returns 1 (update_channel_and_unit env tr c a cr)"
    unfolding update_channel_and_unit_def Let_def by (auto split: option.split sum.split intro: persist_unit_returns simp del: One_nat_def)
  from returns_bind[OF this Cons.IH] show ?case by simp
qed

text \<open>At most \<open>k\<close> channels per device, whether embedded or asked for.\<close>

definition channels_bounded :: "nat \<Rightarrow> ('raw, 'tx) update_plugin \<Rightarrow> bool" where
  "channels_bounded k pl = ((\<forall>raw d crs. pl_device pl raw = Inr (Some d) \<longrightarrow> de_channels d = Some crs \<longrightarrow> length crs \<le> k)
     \<and> (\<forall>a crs. pl_channels pl a = Inr crs \<longrightarrow> length crs \<le> k))"

lemma reconcile_returns: "returns 0 (reconcile_chassis_lifecycle env c created)"
proof -
  have re: "returns 0 (up_write (\<lambda>st. case qs_get P (iv_chassis (up_db st)) of Inl _ \<Rightarrow> Inl e | Inr row \<Rightarrow> Inr (g row, st)))" for P e g
    by (rule returns_write) (auto split: sum.splits)
  show ?thesis
    unfolding reconcile_chassis_lifecycle_def by (auto intro!: returns_bind0 returns_basic re)
qed

lemma update_device_returns:
  assumes "channels_bounded k pl"
  shows "returns k (update_device env pl m raw)"
proof -
  have "returns k (device_channels env pl d c a)" if "pl_device pl raw = Inr (Some d)" for d c a
    using assms that unfolding device_channels_def channels_bounded_def
    by (auto split: option.split sum.split list.split simp del: update_channels.simps
        intro!: returns_more[OF update_channels_returns])
  then have dc: "returns k (up_bind (device_channels env pl d c a) (\<lambda>_. up_return x))" if "pl_device pl raw = Inr (Some d)" for d c a x
    using that by (intro returns_bind1) simp_all
  show ?thesis
    unfolding update_device_def Let_def
    by (cases "pl_device pl raw")
       (auto split: option.split intro!: returns_bind0[OF returns_basic(1)] returns_bind0[OF reconcile_returns] dc)
qed

lemma update_devices_return:
  assumes "channels_bounded k pl"
  shows "length (up_units st) + k * length raws \<le> 10000 \<Longrightarrow> \<exists>t' st'. update_devices env pl m raws t st = Some (t', st')"
proof (induction raws arbitrary: t st)
  case Nil
  then show ?case by simp
next
  case (Cons raw raws)
  then have "length (up_units st) + k \<le> 10000" by simp
  from returnsD[OF update_device_returns[OF assms] this] obtain r st1 where
    r: "update_device env pl m raw st = Some (r, st1)" "length (up_units st1) \<le> length (up_units st) + k" .
  have "length (up_units st1) + k * length raws \<le> 10000" using r(2) Cons.prems by simp
  from Cons.IH[OF this] r(1) show ?case by (cases r) auto
qed

lemma marking_returns: "\<exists>n' st'. mark_all_offline env pks n st = Some (n', st')"
proof (induction pks arbitrary: n st)
  case Nil
  then show ?case by simp
next
  case (Cons pk pks)
  have "change_status env pk ''offline'' st \<noteq> None" by (simp add: change_status_def)
  with Cons show ?case by (auto split: option.split sum.split prod.split)
qed

lemma checks_return: "check_all_offline env us st \<noteq> None"
  by (induction us arbitrary: st)
     (auto simp: up_return_def up_bind_None alert_check_def Let_def split: prod.splits)

text \<open>C17: An update returns as long as the units it could add fit the 10000 slots: with at most \<open>k\<close>
  channels per payload, when the stored units and \<open>k\<close> per payload are together at most 10000.\<close>

theorem update_returns:
  assumes "channels_bounded k pl" "length (up_units st) + k * length raws \<le> 10000"
  shows "\<exists>r st'. update_models_from_api_data env pl m authoritative raws st = Some (r, st')"
proof -
  from update_devices_return[OF assms] obtain t st1 where
    "update_devices env pl m raws \<lparr>ut_updated = 0, ut_active = [], ut_failed = False\<rparr> st = Some (t, st1)" by blast
  moreover have "up_bind (mark_offline_receivers env m (ut_active t)) (\<lambda>_. up_return (ut_updated t)) st1 \<noteq> None"
    using marking_returns[of env "missing_chassis m (ut_active t) (up_db st1)" 0 st1]
    using checks_return
    by (auto simp: up_bind_None up_return_def mark_offline_receivers_def Let_def simp del: not_None_eq split: option.splits if_splits)
  ultimately show ?thesis by (auto simp: update_models_from_api_data_def)
qed


section \<open>Samples\<close>

definition sample_update_env :: update_env where
  "sample_update_env = \<lparr>ue_save = sample_env,
     ue_tenancy = \<lparr>tn_installed = False, tn_locations = [], tn_organizations = []\<rparr>, ue_now = 1000,
     ue_alert = sample_alert_env True, ue_digest = (\<lambda>_. 0), ue_accepts = (\<lambda>_. True),
     ue_unit_row = (\<lambda>_ u. \<lparr>rw_pk = un_pk u, rw_joins = []\<rparr>)\<rparr>"

definition sample_update_state :: "wireless_unit list \<Rightarrow> update_state" where
  "sample_update_state us = \<lparr>up_db = (sample_inventory [sample_chassis 1 7 ''S1'' None ''10.0.0.1'' ''a1'' ''online''] [])
        \<lparr>iv_channels := [sample_channel 9 1 1 True ''free'']\<rparr>,
     up_units = us, up_cache = empty_fanout_cache, up_alert_db = sample_alert_db\<rparr>"

definition sample_device_report :: "string option \<Rightarrow> device_report" where
  "sample_device_report ip = \<lparr>de_api_device_id = Some ''a2'', de_id = None,
     de_ip = (case ip of None \<Rightarrow> Absent | Some a \<Rightarrow> Given a), de_type = Absent,
     de_name = Absent, de_firmware = Absent, de_channels = None\<rparr>"

definition sample_update_plugin :: "string option \<Rightarrow> (unit, unit) update_plugin" where
  "sample_update_plugin ip = \<lparr>pl_device = (\<lambda>_. Inr (Some (sample_device_report ip))),
     pl_channels = (\<lambda>_. Inr []), pl_unit = (\<lambda>_ _. Inl ())\<rparr>"

definition sample_unit_report :: "string option \<Rightarrow> unit_report" where
  "sample_unit_report status = \<lparr>ur_slot = Some 3, ur_battery = None, ur_battery_charge = None, ur_battery_type = None,
     ur_runtime = None, ur_battery_health = None, ur_battery_cycles = None, ur_battery_temperature = None,
     ur_audio_level = None, ur_rf_level = None, ur_frequency = None, ur_antenna = None, ur_tx_offset = None,
     ur_quality = None, ur_status = status, ur_name = None\<rparr>"

lemma sample_keys_ok: "keys_ok (sample_update_state [])"
  by (simp add: keys_ok_def inventory_keys_def sample_update_state_def sample_inventory_def)

lemma sample_update_runs:
  "\<exists>st'. update_models_from_api_data sample_update_env (sample_update_plugin (Some ''10.0.0.2'')) 8 False [()] (sample_update_state [])
     = Some (Inr 1, st') \<and> map ch_pk (iv_chassis (up_db st')) = [1, 2]"
proof -
  let ?r = "update_models_from_api_data sample_update_env (sample_update_plugin (Some ''10.0.0.2'')) 8 False [()] (sample_update_state [])"
  have "(case ?r of Some (Inr n, st') \<Rightarrow> n = 1 \<and> map ch_pk (iv_chassis (up_db st')) = [1, 2] | _ \<Rightarrow> False)"
    by code_simp
  then show ?thesis by (auto split: option.splits prod.splits sum.splits)
qed

theorem partial_update_never_offline_witness:
  "\<exists>st'. update_models_from_api_data sample_update_env (sample_update_plugin (Some ''10.0.0.2'')) 8 False [()] (sample_update_state [])
     = Some (Inr 1, st') \<and> no_new_offline (sample_update_state []) st'"
  using sample_update_runs partial_update_never_offline by blast

theorem update_touches_own_only_witness:
  "\<exists>st'. update_models_from_api_data sample_update_env (sample_update_plugin (Some ''10.0.0.2'')) 8 False [()] (sample_update_state [])
     = Some (Inr 1, st') \<and> sample_channel 9 1 1 True ''free'' \<in> set (iv_channels (up_db st'))"
proof -
  obtain st' where r: "update_models_from_api_data sample_update_env (sample_update_plugin (Some ''10.0.0.2'')) 8 False [()]
      (sample_update_state []) = Some (Inr 1, st')" using sample_update_runs by blast
  have "rf_chassis (sample_channel 9 1 1 True ''free'') \<in> foreign_pks 8 (up_db (sample_update_state []))"
    by (simp add: foreign_pks_def other_rows_def sample_update_state_def sample_inventory_def sample_chassis_def sample_channel_def)
  moreover have "sample_channel 9 1 1 True ''free'' \<in> set (iv_channels (up_db (sample_update_state [])))"
    by (simp add: sample_update_state_def)
  ultimately show ?thesis using update_touches_own_only[OF sample_keys_ok r] r by blast
qed

theorem report_without_status_blocks_unit_witness:
  "let c = sample_chassis 1 7 ''S1'' None ''10.0.0.1'' ''a1'' ''online''
   in \<exists>st1. persist_unit sample_update_env c ''a1'' 1 (sample_unit_report None) (sample_update_state []) = Some (Inr (), st1)
      \<and> persist_unit sample_update_env c ''a1'' 1 (sample_unit_report (Some ''online'')) st1
          = Some (Inl (UnitRefused (InvalidTransition [] ''online'')), st1)"
proof -
  let ?c = "sample_chassis 1 7 ''S1'' None ''10.0.0.1'' ''a1'' ''online''"
  let ?p = "persist_unit sample_update_env ?c ''a1'' 1 (sample_unit_report None) (sample_update_state [])"
  have "(case ?p of Some (Inr _, _) \<Rightarrow> True | _ \<Rightarrow> False)" by code_simp
  then obtain st1 where p: "?p = Some (Inr (), st1)" by (auto split: option.splits prod.splits sum.splits)
  have ch: "qs_get_or_none (\<lambda>x. rf_chassis x = ch_pk ?c \<and> rf_number x = 1) (iv_channels (up_db (sample_update_state [])))
      = Inr (Some (sample_channel 9 1 1 True ''free''))"
    by (simp add: qs_get_or_none_filter at_most_one_Some sample_update_state_def sample_channel_def sample_chassis_def)
  have new: "\<forall>u \<in> set (up_units (sample_update_state [])). un_assigned_resource u \<noteq> Some (rf_pk (sample_channel 9 1 1 True ''free''))"
    by (simp add: sample_update_state_def)
  have s: "ur_status (sample_unit_report None) = None" "or_empty (ur_status (sample_unit_report (Some ''online''))) = ''online''"
    by (simp_all add: sample_unit_report_def or_empty_def)
  from report_without_status_blocks_unit[OF sample_keys_ok ch new s(1) p, of "sample_unit_report (Some ''online'')"] s(2) p
  show ?thesis by (simp add: Let_def)
qed

theorem payload_without_address_refused_witness:
  "update_models_from_api_data sample_update_env (sample_update_plugin None) 7 False [()] (sample_update_state [])
     = Some (Inr 0, sample_update_state [])"
proof -
  have "reported_id (sample_device_report None) = ''a2''" by code_simp
  moreover have "pl_device (sample_update_plugin None) () = Inr (Some (sample_device_report None))"
    by (simp add: sample_update_plugin_def)
  moreover have "strip (entry_or [] (de_ip (sample_device_report None))) = []" by code_simp
  ultimately show ?thesis using payload_without_address_refused by (metis list.distinct(1))
qed

theorem offline_chassis_of_online_units_silent_witness:
  "let st = sample_update_state [(sample_unit)\<lparr>un_base_chassis := 1, un_status := ''online''\<rparr>]
   in \<exists>st'. mark_offline_receivers sample_update_env 7 [] st = Some (Inr (), st')
      \<and> map ch_status (iv_chassis (up_db st')) = [''offline''] \<and> ad_alerts (up_alert_db st') = []"
proof -
  let ?st = "sample_update_state [(sample_unit)\<lparr>un_base_chassis := 1, un_status := ''online''\<rparr>]"
  have "(case mark_offline_receivers sample_update_env 7 [] ?st of
      Some (_, st') \<Rightarrow> map ch_status (iv_chassis (up_db st')) = [''offline''] | None \<Rightarrow> False)" by code_simp
  then obtain r st' where m: "mark_offline_receivers sample_update_env 7 [] ?st = Some (r, st')"
    "map ch_status (iv_chassis (up_db st')) = [''offline'']" by (auto split: option.splits)
  have "\<forall>u \<in> set (up_units ?st). un_status u = ''online''" by (simp add: sample_update_state_def)
  from offline_chassis_of_online_units_silent[OF this m(1)] m show ?thesis
    by (simp add: Let_def sample_update_state_def sample_alert_db_def)
qed

theorem update_returns_witness:
  "\<exists>r st'. update_models_from_api_data sample_update_env (sample_update_plugin (Some ''10.0.0.2'')) 8 True [(), ()] (sample_update_state [])
     = Some (r, st')"
  by (rule update_returns[where k = 0])
     (auto simp: channels_bounded_def sample_update_plugin_def sample_device_report_def sample_update_state_def)

end
