(* ===== verification/Settings_Registry.thy ===== *)
theory Settings_Registry
  imports Workload_Limits Manufacturer_Sync
begin

text \<open>
  Settings kept in the database (\<open>models/settings/registry.py\<close>, \<open>settings/scope_policy.py\<close>) and the
  registry that reads them through two caches (\<open>services/settings/registry.py\<close>): values in the shared
  cache and definitions in the memory of each process, both under generation tokens that a writer
  replaces.

  A value is a \<open>json\<close>; \<open>JNull\<close> is Python's \<open>None\<close>.  Reading and writing JSON text and \<open>str\<close> of a
  number, list or dictionary are parameters.  Generation tokens and values have different key
  prefixes in the shared cache and are two maps here.  A generation key has no timeout: it stays.
\<close>

section \<open>Scopes\<close>

text \<open>The identifiers of an organization, a site and a manufacturer.\<close>

type_synonym scope_ids = "nat option \<times> nat option \<times> nat option"

definition resolve_scope :: "scope_ids \<Rightarrow> string option" where
  "resolve_scope ids =
     (case ids of (organization, site, manufacturer) \<Rightarrow>
        let identifiers = [(''organization'', organization), (''site'', site), (''manufacturer'', manufacturer)];
            populated = map fst (filter (\<lambda>(_, identifier). identifier \<noteq> None) identifiers)
        in case populated of [] \<Rightarrow> Some ''global'' | [name] \<Rightarrow> Some name | _ \<Rightarrow> None)"

definition matches_definition_scope :: "string \<Rightarrow> scope_ids \<Rightarrow> bool" where
  "matches_definition_scope scope ids \<longleftrightarrow> Some scope = resolve_scope ids"

section \<open>Definitions and stored values\<close>

record setting_definition =
  df_pk :: nat
  df_key :: string
  df_label :: string
  df_scope :: string
  df_type :: string
  df_default :: string
  df_choices :: json
  df_required :: bool
  df_active :: bool

record setting =
  sg_pk :: nat
  sg_definition :: nat
  sg_ids :: scope_ids
  sg_value :: string

record settings_db =
  sd_definitions :: "setting_definition list"
  sd_settings :: "setting list"

record settings_env =
  se_loads :: "string \<Rightarrow> json option"
  se_dumps :: "json \<Rightarrow> string"
  se_repr :: "json \<Rightarrow> string"

datatype settings_error = InvalidValue | SettingNotFound | SeveralSettings | DefinitionGone

definition boolean_of_text :: "string \<Rightarrow> bool option" where
  "boolean_of_text raw =
     (let normalized = lower raw
      in if normalized \<in> set [''true'', ''1'', ''yes'', ''on''] then Some True
         else if normalized \<in> set [''false'', ''0'', ''no'', ''off''] then Some False
         else None)"

fun has_choice :: "json \<Rightarrow> string \<Rightarrow> bool" where
  "has_choice (JObj choices) raw = (raw \<in> set (map fst choices))"
| "has_choice _ raw = False"

definition value_or_error :: "json option \<Rightarrow> settings_error + json" where
  "value_or_error v = (case v of None \<Rightarrow> Inl InvalidValue | Some x \<Rightarrow> Inr x)"

definition parse_value :: "settings_env \<Rightarrow> setting_definition \<Rightarrow> string \<Rightarrow> settings_error + json" where
  "parse_value env d raw =
     (if df_type d = ''string'' then Inr (JStr raw)
      else if df_type d = ''integer'' then value_or_error (map_option JInt (int_of_text raw))
      else if df_type d = ''boolean'' then value_or_error (map_option JBool (boolean_of_text raw))
      else if df_type d = ''json'' then value_or_error (se_loads env raw)
      else if df_type d = ''choices'' then (if has_choice (df_choices d) raw then Inr (JStr raw) else Inl InvalidValue)
      else Inr (JStr raw))"

text \<open>\<open>str(value)\<close>.\<close>

fun python_str :: "settings_env \<Rightarrow> json \<Rightarrow> string" where
  "python_str env (JStr s) = s"
| "python_str env (JInt n) = int_text n"
| "python_str env (JBool b) = (if b then ''True'' else ''False'')"
| "python_str env JNull = ''None''"
| "python_str env v = se_repr env v"

definition serialize_value :: "settings_env \<Rightarrow> setting_definition \<Rightarrow> json \<Rightarrow> string" where
  "serialize_value env d v =
     (if df_type d = ''json'' then se_dumps env v
      else if df_type d = ''boolean'' then (if truthy v then ''true'' else ''false'')
      else python_str env v)"

text \<open>\<open>SettingDefinition.clean\<close> collects its errors by field.\<close>

fun nonempty_object :: "json \<Rightarrow> bool" where
  "nonempty_object (JObj choices) = (choices \<noteq> [])"
| "nonempty_object _ = False"

definition overrides_of :: "settings_db \<Rightarrow> nat \<Rightarrow> setting list" where
  "overrides_of db pk = filter (\<lambda>s. sg_definition s = pk) (sd_settings db)"

definition validate_existing_overrides :: "settings_env \<Rightarrow> settings_db \<Rightarrow> setting_definition \<Rightarrow> string list" where
  "validate_existing_overrides env db d =
     (let overrides = overrides_of db (df_pk d);
          scope_mismatch = list_ex (\<lambda>s. \<not> matches_definition_scope (df_scope d) (sg_ids s)) overrides;
          invalid_value = list_ex (\<lambda>s. isl (parse_value env d (sg_value s))) overrides
      in (if scope_mismatch then [''scope''] else []) @ (if invalid_value then [''setting_type''] else []))"

definition definition_errors :: "settings_env \<Rightarrow> settings_db \<Rightarrow> bool \<Rightarrow> setting_definition \<Rightarrow> string list" where
  "definition_errors env db saved d =
     (if df_type d = ''choices'' \<and> \<not> nonempty_object (df_choices d) then [''choices_json''] else [])
     @ (if isl (parse_value env d (df_default d)) then [''default_value''] else [])
     @ (if saved then validate_existing_overrides env db d else [])"

section \<open>Resolution without caches\<close>

text \<open>The key of a definition is unique, so at most one row matches.\<close>

definition find_definition :: "settings_db \<Rightarrow> string \<Rightarrow> setting_definition option" where
  "find_definition db key = find (\<lambda>d. df_key d = key) (sd_definitions db)"

text \<open>\<open>get_parsed_value\<close> parses with the definition the row refers to, read from the database.\<close>

definition get_parsed_value :: "settings_env \<Rightarrow> settings_db \<Rightarrow> setting \<Rightarrow> settings_error + json" where
  "get_parsed_value env db s =
     (case find (\<lambda>d. df_pk d = sg_definition s) (sd_definitions db) of
        None \<Rightarrow> Inl DefinitionGone
      | Some d \<Rightarrow> parse_value env d (sg_value s))"

text \<open>The filter of the one scope the definition declares, if the caller named its target.\<close>

definition scope_filter :: "setting_definition \<Rightarrow> scope_ids \<Rightarrow> scope_ids option" where
  "scope_filter d ids =
     (case ids of (organization, site, manufacturer) \<Rightarrow>
        if df_scope d = ''organization'' then (if organization = None then None else Some (organization, None, None))
        else if df_scope d = ''site'' then (if site = None then None else Some (None, site, None))
        else if df_scope d = ''manufacturer'' then (if manufacturer = None then None else Some (None, None, manufacturer))
        else if df_scope d = ''global'' then Some (None, None, None)
        else None)"

definition resolve_scoped_value ::
  "settings_env \<Rightarrow> settings_db \<Rightarrow> setting_definition option \<Rightarrow> scope_ids \<Rightarrow> settings_error + json"
where
  "resolve_scoped_value env db definition ids =
     (case definition of None \<Rightarrow> Inr JNull
      | Some d \<Rightarrow> (case scope_filter d ids of None \<Rightarrow> Inr JNull
          | Some target \<Rightarrow>
              (case qs_get (\<lambda>s. sg_definition s = df_pk d \<and> sg_ids s = target) (sd_settings db) of
                 Inl DoesNotExist \<Rightarrow> Inr JNull
               | Inl MultipleObjectsReturned \<Rightarrow> Inl SeveralSettings
               | Inr s \<Rightarrow> get_parsed_value env db s)))"

text \<open>None is the \<open>not_found\<close> marker of the callers.\<close>

definition definition_default ::
  "settings_env \<Rightarrow> setting_definition option \<Rightarrow> settings_error + json option"
where
  "definition_default env definition =
     (case definition of None \<Rightarrow> Inr None
      | Some d \<Rightarrow> if df_default d = [] then Inr None
                  else bindE (parse_value env d (df_default d)) (\<lambda>v. Inr (Some v)))"

text \<open>The resolution order of the registry as one function of the database.\<close>

definition resolve_setting ::
  "settings_env \<Rightarrow> settings_db \<Rightarrow> string \<Rightarrow> scope_ids \<Rightarrow> bool \<Rightarrow> settings_error + json option"
where
  "resolve_setting env db key ids include_default =
     bindE (resolve_scoped_value env db (find_definition db key) ids) (\<lambda>v.
       if v \<noteq> JNull then Inr (Some v)
       else if include_default then definition_default env (find_definition db key)
       else Inr None)"

definition or_default :: "json \<Rightarrow> bool \<Rightarrow> json option \<Rightarrow> settings_error + json" where
  "or_default dflt required v =
     (case v of Some x \<Rightarrow> Inr x
      | None \<Rightarrow> if dflt \<noteq> JNull then Inr dflt else if required then Inl SettingNotFound else Inr JNull)"

section \<open>Generations\<close>

type_synonym generations = "string \<rightharpoonup> string"

type_synonym value_cache = "string \<rightharpoonup> json \<times> time"

type_synonym definition_cache = "string \<rightharpoonup> string \<times> setting_definition"

text \<open>One process: the shared cache and its own definitions.\<close>

record registry =
  rg_generations :: generations
  rg_values :: value_cache
  rg_definitions :: definition_cache

definition cache_ttl :: time where "cache_ttl = 300 * 1000000"

definition all_values_cell :: string where "all_values_cell = ''settings-version:all''"

definition all_definitions_cell :: string where "all_definitions_cell = ''settings-definition-version:all''"

definition version_cache_key :: "string \<Rightarrow> string" where
  "version_cache_key key = ''settings-version:'' @ key"

definition definition_version_cache_key :: "string \<Rightarrow> string" where
  "definition_version_cache_key key = ''settings-definition-version:'' @ key"

text \<open>Reading a generation: a missing one is added as \<open>0\<close>.\<close>

definition generation :: "generations \<Rightarrow> string \<Rightarrow> string" where
  "generation g cell = (case g cell of None \<Rightarrow> ''0'' | Some token \<Rightarrow> token)"

definition touch_generation :: "string \<Rightarrow> generations \<Rightarrow> generations" where
  "touch_generation cell g = (case g cell of None \<Rightarrow> g(cell \<mapsto> ''0'') | Some _ \<Rightarrow> g)"

text \<open>The two generations that guard a key: of everything and of the key.\<close>

type_synonym epoch = "string \<times> string"

definition value_epoch :: "generations \<Rightarrow> string \<Rightarrow> epoch" where
  "value_epoch g key = (generation g all_values_cell, generation g (version_cache_key key))"

definition definition_epoch :: "generations \<Rightarrow> string \<Rightarrow> epoch" where
  "definition_epoch g key =
     (generation g all_definitions_cell, generation g (definition_version_cache_key key))"

definition touch_values :: "string \<Rightarrow> generations \<Rightarrow> generations" where
  "touch_values key g = touch_generation (version_cache_key key) (touch_generation all_values_cell g)"

definition touch_definitions :: "string \<Rightarrow> generations \<Rightarrow> generations" where
  "touch_definitions key g =
     touch_generation (definition_version_cache_key key) (touch_generation all_definitions_cell g)"

definition identifier_text :: "nat option \<Rightarrow> string" where
  "identifier_text i = (case i of None \<Rightarrow> ''g'' | Some n \<Rightarrow> nat_text n)"

definition cache_key :: "epoch \<Rightarrow> string \<Rightarrow> scope_ids \<Rightarrow> bool \<Rightarrow> string" where
  "cache_key e key ids include_default =
     (case ids of (organization, site, manufacturer) \<Rightarrow>
        ''settings:'' @ fst e @ '':'' @ key @ '':'' @ snd e @ '':''
        @ (if include_default then ''definition'' else ''stored'') @ '':''
        @ identifier_text organization @ '':'' @ identifier_text site @ '':'' @ identifier_text manufacturer)"

definition build_cache_key ::
  "string \<Rightarrow> scope_ids \<Rightarrow> bool \<Rightarrow> registry \<Rightarrow> string \<times> registry"
where
  "build_cache_key key ids include_default r =
     (cache_key (value_epoch (rg_generations r) key) key ids include_default,
      r\<lparr>rg_generations := touch_values key (rg_generations r)\<rparr>)"

definition version_text :: "epoch \<Rightarrow> string" where
  "version_text e = fst e @ '':'' @ snd e"

definition get_definition :: "settings_db \<Rightarrow> string \<Rightarrow> registry \<Rightarrow> setting_definition option \<times> registry" where
  "get_definition db key r =
     (let version = version_text (definition_epoch (rg_generations r) key);
          r1 = r\<lparr>rg_generations := touch_definitions key (rg_generations r)\<rparr>;
          load = (case find_definition db key of None \<Rightarrow> (None, r1)
                  | Some d \<Rightarrow> (Some d, r1\<lparr>rg_definitions := (rg_definitions r1)(key \<mapsto> (version, d))\<rparr>))
      in case rg_definitions r key of
           Some (v, d) \<Rightarrow> if v = version then (Some d, r1) else load
         | None \<Rightarrow> load)"

definition get_definition_default ::
  "settings_env \<Rightarrow> settings_db \<Rightarrow> string \<Rightarrow> registry \<Rightarrow> (settings_error + json option) \<times> registry"
where
  "get_definition_default env db key r =
     (let (d, r1) = get_definition db key r in (definition_default env d, r1))"

text \<open>\<open>cache.get\<close>: \<open>JNull\<close> when there is no entry or it has expired.\<close>

definition cached_value :: "time \<Rightarrow> value_cache \<Rightarrow> string \<Rightarrow> json" where
  "cached_value now c ck = (case c ck of None \<Rightarrow> JNull | Some (v, expiry) \<Rightarrow> if now < expiry then v else JNull)"

definition store_value :: "time \<Rightarrow> string \<Rightarrow> json \<Rightarrow> registry \<Rightarrow> registry" where
  "store_value now ck v r = r\<lparr>rg_values := (rg_values r)(ck \<mapsto> (v, now + cache_ttl))\<rparr>"

definition registry_get ::
  "settings_env \<Rightarrow> settings_db \<Rightarrow> time \<Rightarrow> string \<Rightarrow> json \<Rightarrow> scope_ids \<Rightarrow> bool \<Rightarrow> bool \<Rightarrow> registry
    \<Rightarrow> (settings_error + json) \<times> registry"
where
  "registry_get env db now key dflt ids required include_default r =
     (let (ck, r1) = build_cache_key key ids include_default r;
          cached = cached_value now (rg_values r1) ck
      in if cached \<noteq> JNull then (Inr cached, r1)
         else (let (d, r2) = get_definition db key r1
               in case resolve_scoped_value env db d ids of
                    Inl e \<Rightarrow> (Inl e, r2)
                  | Inr v \<Rightarrow>
                      if v \<noteq> JNull then (Inr v, store_value now ck v r2)
                      else (let (found, r3) = (if include_default then get_definition_default env db key r2
                                               else (Inr None, r2))
                            in case found of
                                 Inl e \<Rightarrow> (Inl e, r3)
                               | Inr (Some x) \<Rightarrow> (Inr x, store_value now ck x r3)
                               | Inr None \<Rightarrow>
                                   (or_default dflt required None,
                                    if dflt \<noteq> JNull then store_value now ck dflt r3 else r3))))"

text \<open>Invalidation; \<open>token\<close> is the random text drawn for the new generation.\<close>

definition set_generation :: "string \<Rightarrow> string \<Rightarrow> registry \<Rightarrow> registry" where
  "set_generation cell token r = r\<lparr>rg_generations := (rg_generations r)(cell \<mapsto> token)\<rparr>"

text \<open>An empty key counts as none.\<close>

definition invalidate_cache :: "string option \<Rightarrow> string \<Rightarrow> registry \<Rightarrow> registry" where
  "invalidate_cache key token r =
     (case key of
        Some k \<Rightarrow> if k \<noteq> [] then set_generation (version_cache_key k) token r
                  else (set_generation all_values_cell token r)\<lparr>rg_definitions := Map.empty\<rparr>
      | None \<Rightarrow> (set_generation all_values_cell token r)\<lparr>rg_definitions := Map.empty\<rparr>)"

definition invalidate_definition :: "string option \<Rightarrow> string \<Rightarrow> string \<Rightarrow> registry \<Rightarrow> registry" where
  "invalidate_definition key token1 token2 r =
     (case key of
        None \<Rightarrow> invalidate_cache None token2
                  ((set_generation all_definitions_cell token1 r)\<lparr>rg_definitions := Map.empty\<rparr>)
      | Some k \<Rightarrow> invalidate_cache (Some k) token2
                  (set_generation (definition_version_cache_key k) token1
                     (r\<lparr>rg_definitions := (rg_definitions r)(k := None)\<rparr>)))"

section \<open>Many processes\<close>

text \<open>
  Reads of many processes, writes and invalidations in any order.  A read moves through the places
  between its accesses: its key is built and the value cache asked, the definition is fetched, the
  stored value is read, the default is tried, the value is stored.  A write commits and names the
  keys it affects; until their generations have been replaced these keys are stale.
\<close>

record read_request =
  rq_process :: nat
  rq_key :: string
  rq_ids :: scope_ids
  rq_required :: bool
  rq_include_default :: bool

datatype reader =
    Idle
  | Looked read_request string
  | Defined read_request string "setting_definition option"
  | Absent read_request string
  | Found read_request string json
  | Answered read_request string "settings_error + json"

record settings_system =
  sy_db :: settings_db
  sy_now :: time
  sy_generations :: generations
  sy_values :: value_cache
  sy_definitions :: "nat \<Rightarrow> definition_cache"
  sy_tokens :: "string list"
  sy_readers :: "nat \<Rightarrow> reader"
  sy_stale_values :: "string set"
  sy_stale_definitions :: "string set"

definition view :: "nat \<Rightarrow> settings_system \<Rightarrow> registry" where
  "view p s = \<lparr>rg_generations = sy_generations s, rg_values = sy_values s, rg_definitions = sy_definitions s p\<rparr>"

definition put_view :: "nat \<Rightarrow> registry \<Rightarrow> settings_system \<Rightarrow> settings_system" where
  "put_view p r s = s\<lparr>sy_generations := rg_generations r, sy_values := rg_values r,
     sy_definitions := (sy_definitions s)(p := rg_definitions r)\<rparr>"

definition set_reader :: "nat \<Rightarrow> reader \<Rightarrow> settings_system \<Rightarrow> settings_system" where
  "set_reader i x s = s\<lparr>sy_readers := (sy_readers s)(i := x)\<rparr>"

definition begin_read :: "nat \<Rightarrow> read_request \<Rightarrow> settings_system \<Rightarrow> settings_system" where
  "begin_read i rq s =
     (let (ck, r) = build_cache_key (rq_key rq) (rq_ids rq) (rq_include_default rq) (view (rq_process rq) s);
          cached = cached_value (sy_now s) (rg_values r) ck
      in set_reader i (if cached \<noteq> JNull then Answered rq ck (Inr cached) else Looked rq ck)
           (put_view (rq_process rq) r s))"

fun continue_read :: "settings_env \<Rightarrow> nat \<Rightarrow> reader \<Rightarrow> settings_system \<Rightarrow> settings_system" where
  "continue_read env i (Looked rq ck) s =
     (let (d, r) = get_definition (sy_db s) (rq_key rq) (view (rq_process rq) s)
      in set_reader i (Defined rq ck d) (put_view (rq_process rq) r s))"
| "continue_read env i (Defined rq ck d) s =
     set_reader i (case resolve_scoped_value env (sy_db s) d (rq_ids rq) of
         Inl e \<Rightarrow> Answered rq ck (Inl e)
       | Inr v \<Rightarrow> if v \<noteq> JNull then Found rq ck v else Absent rq ck) s"
| "continue_read env i (Absent rq ck) s =
     (let (found, r) = (if rq_include_default rq
                        then get_definition_default env (sy_db s) (rq_key rq) (view (rq_process rq) s)
                        else (Inr None, view (rq_process rq) s))
      in set_reader i (case found of
             Inl e \<Rightarrow> Answered rq ck (Inl e)
           | Inr (Some v) \<Rightarrow> Found rq ck v
           | Inr None \<Rightarrow> Answered rq ck (or_default JNull (rq_required rq) None)) (put_view (rq_process rq) r s))"
| "continue_read env i (Found rq ck v) s =
     set_reader i (Answered rq ck (Inr v)) (put_view (rq_process rq) (store_value (sy_now s) ck v (view (rq_process rq) s)) s)"
| "continue_read env i reader s = s"

text \<open>A token: the text of a random number, never drawn twice.\<close>

definition fresh_token :: "string \<Rightarrow> settings_system \<Rightarrow> bool" where
  "fresh_token token s \<longleftrightarrow> length token = 16 \<and> list_all hex_digit token \<and> token \<notin> set (sy_tokens s)"

definition draw :: "string \<Rightarrow> settings_system \<Rightarrow> settings_system" where
  "draw token s = s\<lparr>sy_tokens := token # sy_tokens s\<rparr>"

text \<open>What a database says about one key.\<close>

definition same_key :: "settings_env \<Rightarrow> settings_db \<Rightarrow> settings_db \<Rightarrow> string \<Rightarrow> bool" where
  "same_key env db db' key \<longleftrightarrow> find_definition db' key = find_definition db key
     \<and> (\<forall>ids. resolve_scoped_value env db' (find_definition db key) ids
              = resolve_scoped_value env db (find_definition db key) ids)"

text \<open>The keys an invalidation covers.\<close>

definition covers_key :: "string \<Rightarrow> (string \<Rightarrow> string) \<Rightarrow> string \<Rightarrow> string \<Rightarrow> bool" where
  "covers_key all_cell cell_of cell key \<longleftrightarrow> cell = all_cell \<or> cell = cell_of key"

abbreviation covered :: "string \<Rightarrow> (string \<Rightarrow> string) \<Rightarrow> string \<Rightarrow> string set" where
  "covered all_cell cell_of cell \<equiv> Collect (covers_key all_cell cell_of cell)"

definition renew_values :: "string \<Rightarrow> string \<Rightarrow> settings_system \<Rightarrow> settings_system" where
  "renew_values cell token s = (draw token s)\<lparr>sy_generations := (sy_generations s)(cell \<mapsto> token),
     sy_stale_values := sy_stale_definitions s
       \<union> Set.filter (\<lambda>key. \<not> covers_key all_values_cell version_cache_key cell key) (sy_stale_values s)\<rparr>"

definition renew_definitions :: "string \<Rightarrow> string \<Rightarrow> settings_system \<Rightarrow> settings_system" where
  "renew_definitions cell token s = (draw token s)\<lparr>sy_generations := (sy_generations s)(cell \<mapsto> token),
     sy_stale_definitions :=
       Set.filter (\<lambda>key. \<not> covers_key all_definitions_cell definition_version_cache_key cell key) (sy_stale_definitions s)\<rparr>"

inductive settings_step :: "settings_env \<Rightarrow> settings_system \<Rightarrow> settings_system \<Rightarrow> bool" for env where
  begins: "settings_step env s (begin_read i rq s)"
| continues: "settings_step env s (continue_read env i (sy_readers s i) s)"
| writes_settings: "sd_definitions db = sd_definitions (sy_db s)
    \<Longrightarrow> \<forall>key. key \<notin> keys \<longrightarrow> same_key env (sy_db s) db key
    \<Longrightarrow> settings_step env s (s\<lparr>sy_db := db, sy_stale_values := sy_stale_values s \<union> keys\<rparr>)"
| writes_definitions: "\<forall>key. key \<notin> keys \<longrightarrow> same_key env (sy_db s) db key
    \<Longrightarrow> settings_step env s (s\<lparr>sy_db := db, sy_stale_values := sy_stale_values s \<union> keys,
          sy_stale_definitions := sy_stale_definitions s \<union> keys\<rparr>)"
| renews_values: "fresh_token token s
    \<Longrightarrow> cell = all_values_cell \<or> cell = version_cache_key key
    \<Longrightarrow> settings_step env s (renew_values cell token s)"
| renews_definitions: "fresh_token token s
    \<Longrightarrow> cell = all_definitions_cell \<or> cell = definition_version_cache_key key
    \<Longrightarrow> settings_step env s (renew_definitions cell token s)"
| forgets: "settings_step env s (s\<lparr>sy_definitions := (sy_definitions s)(p := (sy_definitions s p) |` keys)\<rparr>)"
| expires: "settings_step env s (s\<lparr>sy_values := sy_values s |` cks\<rparr>)"
| waits: "0 \<le> d \<Longrightarrow> settings_step env s (s\<lparr>sy_now := sy_now s + d\<rparr>)"

definition no_reads :: "settings_db \<Rightarrow> time \<Rightarrow> settings_system" where
  "no_reads db now = \<lparr>sy_db = db, sy_now = now, sy_generations = Map.empty, sy_values = Map.empty,
     sy_definitions = (\<lambda>_. Map.empty), sy_tokens = [], sy_readers = (\<lambda>_. Idle),
     sy_stale_values = {}, sy_stale_definitions = {}\<rparr>"

inductive settings_reachable :: "settings_env \<Rightarrow> settings_system \<Rightarrow> bool" for env where
  start: "settings_reachable env (no_reads db now)"
| step: "settings_reachable env s \<Longrightarrow> settings_step env s s' \<Longrightarrow> settings_reachable env s'"

section \<open>Facts under a generation\<close>

text \<open>
  Both caches, and every read under way, hold facts about a key that were true under the two
  generations of the key: an \<open>epoch\<close>.  They stay usable because a writer replaces a generation
  after its write.  This argument is made once for any such scheme.
\<close>

abbreviation tokens_of :: "epoch \<Rightarrow> string set" where
  "tokens_of e \<equiv> {fst e, snd e}"

text \<open>Every fact recorded under the present epoch of a key that is not stale is true.\<close>

definition coherent ::
  "(generations \<Rightarrow> string \<Rightarrow> epoch) \<Rightarrow> generations \<Rightarrow> string set
     \<Rightarrow> (epoch \<Rightarrow> string \<Rightarrow> 'f \<Rightarrow> bool) \<Rightarrow> (string \<Rightarrow> 'f \<Rightarrow> bool) \<Rightarrow> bool"
where
  "coherent epoch_of g stale recorded holds \<longleftrightarrow>
     (\<forall>key f. key \<notin> stale \<longrightarrow> recorded (epoch_of g key) key f \<longrightarrow> holds key f)"

locale generation_scheme =
  fixes epoch_of :: "generations \<Rightarrow> string \<Rightarrow> epoch"
    and covers :: "string \<Rightarrow> string set"
  assumes renewed: "key \<in> covers cell \<Longrightarrow> token \<in> tokens_of (epoch_of (g(cell \<mapsto> token)) key)"
    and kept: "token \<notin> tokens_of (epoch_of (g(cell \<mapsto> token)) key)
      \<Longrightarrow> epoch_of (g(cell \<mapsto> token)) key = epoch_of g key"
    and touched: "epoch_of (touch_generation cell g) key = epoch_of g key"
begin

text \<open>Replacing a generation by a token no fact was recorded under cleans the keys it covers.\<close>

lemma coherent_renewed:
  assumes "coherent epoch_of g stale recorded holds"
    and "\<And>e key f. recorded e key f \<Longrightarrow> token \<notin> tokens_of e"
    and "\<And>key. key \<in> stale \<Longrightarrow> key \<in> stale' \<or> key \<in> covers cell"
  shows "coherent epoch_of (g(cell \<mapsto> token)) stale' recorded holds"
  unfolding coherent_def
proof (intro allI impI)
  fix key f
  assume key: "key \<notin> stale'" and f: "recorded (epoch_of (g(cell \<mapsto> token)) key) key f"
  have new: "token \<notin> tokens_of (epoch_of (g(cell \<mapsto> token)) key)" using assms(2)[OF f] .
  then have "key \<notin> covers cell" using renewed by blast
  then have "key \<notin> stale" using assms(3) key by blast
  moreover have "recorded (epoch_of g key) key f" using f kept[OF new] by simp
  ultimately show "holds key f" using assms(1) by (simp add: coherent_def)
qed

text \<open>Any other step: a new fact is true, and a write marks the keys it may change.\<close>

lemma coherent_step:
  assumes "coherent epoch_of g stale recorded holds"
    and "\<And>key. epoch_of g' key = epoch_of g key" and "stale \<subseteq> stale'"
    and "\<And>key f. key \<notin> stale' \<Longrightarrow> holds key f \<Longrightarrow> holds' key f"
    and "\<And>e key f. recorded' e key f
           \<Longrightarrow> recorded e key f \<or> (e = epoch_of g key \<longrightarrow> key \<notin> stale' \<longrightarrow> holds' key f)"
  shows "coherent epoch_of g' stale' recorded' holds'"
  using assms unfolding coherent_def by (metis (no_types, lifting) subsetD)

end

lemma generation_update:
  "generation (g(cell \<mapsto> token)) c = (if c = cell then token else generation g c)"
  by (simp add: generation_def)

lemma generation_touch [simp]: "generation (touch_generation cell g) c = generation g c"
  by (auto simp: generation_def touch_generation_def split: option.splits)

interpretation value_scheme: generation_scheme value_epoch "covered all_values_cell version_cache_key"
  by unfold_locales (auto simp: value_epoch_def covers_key_def generation_update split: if_splits)

interpretation definition_scheme:
  generation_scheme definition_epoch "covered all_definitions_cell definition_version_cache_key"
  by unfold_locales (auto simp: definition_epoch_def covers_key_def generation_update split: if_splits)

section \<open>Keys of the value cache\<close>

text \<open>A key tells its parts apart: only the setting's own key may contain the separator.\<close>

definition plain_epoch :: "epoch \<Rightarrow> bool" where
  "plain_epoch e \<longleftrightarrow> CHR '':'' \<notin> set (fst e) \<and> CHR '':'' \<notin> set (snd e)"

lemma separate_first:
  "c \<notin> set a \<Longrightarrow> c \<notin> set b \<Longrightarrow> a @ c # x = b @ c # y \<longleftrightarrow> a = b \<and> x = y"
proof (induction a arbitrary: b)
  case Nil
  then show ?case by (cases b) auto
next
  case (Cons d a)
  then show ?case by (cases b) auto
qed

lemma separate_last:
  assumes "c \<notin> set a" "c \<notin> set b"
  shows "x @ c # a = y @ c # b \<longleftrightarrow> x = y \<and> a = b"
proof -
  have "x @ c # a = y @ c # b \<longleftrightarrow> rev a @ c # rev x = rev b @ c # rev y"
    by (metis append.assoc append_Cons append_Nil rev.simps(2) rev_append rev_rev_ident)
  with separate_first[of c "rev a" "rev b"] assms show ?thesis by auto
qed

lemma dec_digit_not: "list_all dec_digit s \<Longrightarrow> \<not> dec_digit c \<Longrightarrow> c \<notin> set s"
  by (auto simp: list_all_iff)

lemma nat_text_digits: "list_all dec_digit (nat_text n)"
  by (simp add: nat_text_def print_base_digits)

lemma identifier_text_plain: "CHR '':'' \<notin> set (identifier_text i)"
proof -
  have "CHR '':'' \<notin> set (nat_text n)" for n
    by (rule dec_digit_not[OF nat_text_digits]) (simp add: dec_digit_def)
  then show ?thesis by (simp add: identifier_text_def split: option.split)
qed

lemma identifier_text_inj: "identifier_text i = identifier_text j \<longleftrightarrow> i = j"
proof -
  have "nat_text n \<noteq> ''g''" for n
    using nat_text_digits[of n] by (auto simp: dec_digit_def)
  then have "nat_text n \<noteq> ''g''" "''g'' \<noteq> nat_text n" for n by metis+
  moreover have "nat_text n = nat_text m \<longleftrightarrow> n = m" for n m
    unfolding nat_text_def by (metis text_val_print)
  ultimately show ?thesis by (simp add: identifier_text_def split: option.split)
qed

lemma cache_key_inj:
  assumes "plain_epoch e" "plain_epoch e'"
  shows "cache_key e key ids b = cache_key e' key' ids' b' \<longleftrightarrow> e = e' \<and> key = key' \<and> ids = ids' \<and> b = b'"
proof -
  obtain o1 s1 m1 o2 s2 m2 where ids: "ids = (o1, s1, m1)" "ids' = (o2, s2, m2)" by (metis prod_cases3)
  let ?mode = "\<lambda>b. if b then ''definition'' else ''stored''"
  have form: "cache_key e key (i, j, k) b = (((((''settings:'' @ fst e @ CHR '':'' # key) @ CHR '':'' # snd e)
      @ CHR '':'' # ?mode b) @ CHR '':'' # identifier_text i) @ CHR '':'' # identifier_text j)
      @ CHR '':'' # identifier_text k" for e key i j k b
    by (simp add: cache_key_def)
  have mode: "CHR '':'' \<notin> set (?mode b)" "?mode b = ?mode b' \<longleftrightarrow> b = b'" for b b' by auto
  show ?thesis
    unfolding ids form
    using assms mode
    by (simp only: separate_last separate_first identifier_text_plain identifier_text_inj plain_epoch_def
        same_append_eq prod.inject prod_eq_iff fst_conv snd_conv not_False_eq_True) blast
qed

lemma version_text_inj:
  "plain_epoch e \<Longrightarrow> plain_epoch e' \<Longrightarrow> version_text e = version_text e' \<longleftrightarrow> e = e'"
  by (simp add: version_text_def plain_epoch_def separate_first prod_eq_iff)

section \<open>The invariant of the caches\<close>

datatype setting_fact =
    Asked
  | DefinitionIs "setting_definition option"
  | NothingStored scope_ids
  | ValueIs scope_ids bool json
  | AnswerIs scope_ids bool bool "settings_error + json"

fun fact_holds :: "settings_env \<Rightarrow> settings_db \<Rightarrow> string \<Rightarrow> setting_fact \<Rightarrow> bool" where
  "fact_holds env db key Asked = True"
| "fact_holds env db key (DefinitionIs d) = (d = find_definition db key)"
| "fact_holds env db key (NothingStored ids) =
     (resolve_scoped_value env db (find_definition db key) ids = Inr JNull)"
| "fact_holds env db key (ValueIs ids b v) = (resolve_setting env db key ids b = Inr (Some v))"
| "fact_holds env db key (AnswerIs ids required b res) =
     (res = bindE (resolve_setting env db key ids b) (or_default JNull required))"

fun reader_fact :: "reader \<Rightarrow> (read_request \<times> string \<times> setting_fact) option" where
  "reader_fact Idle = None"
| "reader_fact (Looked rq ck) = Some (rq, ck, Asked)"
| "reader_fact (Defined rq ck d) = Some (rq, ck, DefinitionIs d)"
| "reader_fact (Absent rq ck) = Some (rq, ck, NothingStored (rq_ids rq))"
| "reader_fact (Found rq ck v) = Some (rq, ck, ValueIs (rq_ids rq) (rq_include_default rq) v)"
| "reader_fact (Answered rq ck res) =
     Some (rq, ck, AnswerIs (rq_ids rq) (rq_required rq) (rq_include_default rq) res)"

definition request_key :: "epoch \<Rightarrow> read_request \<Rightarrow> string" where
  "request_key e rq = cache_key e (rq_key rq) (rq_ids rq) (rq_include_default rq)"

definition value_facts :: "value_cache \<Rightarrow> (nat \<Rightarrow> reader) \<Rightarrow> epoch \<Rightarrow> string \<Rightarrow> setting_fact \<Rightarrow> bool" where
  "value_facts c readers e key f \<longleftrightarrow> plain_epoch e \<and>
     ((\<exists>i rq. reader_fact (readers i) = Some (rq, request_key e rq, f) \<and> rq_key rq = key)
      \<or> (\<exists>ids b v expiry. c (cache_key e key ids b) = Some (v, expiry) \<and> f = ValueIs ids b v))"

definition definition_facts :: "(nat \<Rightarrow> definition_cache) \<Rightarrow> epoch \<Rightarrow> string \<Rightarrow> setting_definition \<Rightarrow> bool" where
  "definition_facts locals e key d \<longleftrightarrow> plain_epoch e \<and> (\<exists>p. locals p key = Some (version_text e, d))"

definition known_tokens :: "settings_system \<Rightarrow> string set" where
  "known_tokens s = insert ''0'' (set (sy_tokens s))"

definition well_formed :: "settings_system \<Rightarrow> bool" where
  "well_formed s \<longleftrightarrow>
     (\<forall>token \<in> known_tokens s. CHR '':'' \<notin> set token)
     \<and> (\<forall>cell. generation (sy_generations s) cell \<in> known_tokens s)
     \<and> (\<forall>ck v. sy_values s ck = Some v
          \<longrightarrow> (\<exists>e key ids b. ck = cache_key e key ids b \<and> tokens_of e \<subseteq> known_tokens s))
     \<and> (\<forall>i rq ck f. reader_fact (sy_readers s i) = Some (rq, ck, f)
          \<longrightarrow> (\<exists>e. ck = request_key e rq \<and> tokens_of e \<subseteq> known_tokens s))
     \<and> (\<forall>p key version d. sy_definitions s p key = Some (version, d)
          \<longrightarrow> (\<exists>e. version = version_text e \<and> tokens_of e \<subseteq> known_tokens s))
     \<and> sy_stale_definitions s \<subseteq> sy_stale_values s"

definition values_coherent :: "settings_env \<Rightarrow> settings_system \<Rightarrow> bool" where
  "values_coherent env s \<longleftrightarrow> coherent value_epoch (sy_generations s) (sy_stale_values s)
     (value_facts (sy_values s) (sy_readers s)) (fact_holds env (sy_db s))"

definition definitions_coherent :: "settings_system \<Rightarrow> bool" where
  "definitions_coherent s \<longleftrightarrow> coherent definition_epoch (sy_generations s) (sy_stale_definitions s)
     (definition_facts (sy_definitions s)) (\<lambda>key d. find_definition (sy_db s) key = Some d)"

definition settings_invariant :: "settings_env \<Rightarrow> settings_system \<Rightarrow> bool" where
  "settings_invariant env s \<longleftrightarrow> well_formed s \<and> values_coherent env s \<and> definitions_coherent s"

lemma settings_invariantD:
  assumes "settings_invariant env s"
  shows "well_formed s" "values_coherent env s" "definitions_coherent s"
  using assms by (simp_all add: settings_invariant_def)

lemma well_formedD:
  assumes "well_formed s"
  shows "tokens_of e \<subseteq> known_tokens s \<Longrightarrow> plain_epoch e"
    and "generation (sy_generations s) cell \<in> known_tokens s"
    and "sy_values s ck = Some v \<Longrightarrow> \<exists>e key ids b. ck = cache_key e key ids b \<and> tokens_of e \<subseteq> known_tokens s"
    and "reader_fact (sy_readers s i) = Some (rq, ck, f)
      \<Longrightarrow> \<exists>e. ck = request_key e rq \<and> tokens_of e \<subseteq> known_tokens s"
    and "sy_definitions s p key = Some (version, d)
      \<Longrightarrow> \<exists>e. version = version_text e \<and> tokens_of e \<subseteq> known_tokens s"
    and "sy_stale_definitions s \<subseteq> sy_stale_values s"
proof -
  note c1 = assms[unfolded well_formed_def]
  note c2 = conjunct2[OF c1] note c3 = conjunct2[OF c2] note c4 = conjunct2[OF c3] note c5 = conjunct2[OF c4]
  note wf = conjunct1[OF c1] conjunct1[OF c2] conjunct1[OF c3] conjunct1[OF c4] conjunct1[OF c5] conjunct2[OF c5]
  show "plain_epoch e" if "tokens_of e \<subseteq> known_tokens s"
    using that wf(1) unfolding plain_epoch_def by blast
  show "generation (sy_generations s) cell \<in> known_tokens s" using wf(2) by blast
  show "\<exists>e key ids b. ck = cache_key e key ids b \<and> tokens_of e \<subseteq> known_tokens s" if "sy_values s ck = Some v"
    using that wf(3) by blast
  show "\<exists>e. ck = request_key e rq \<and> tokens_of e \<subseteq> known_tokens s"
    if "reader_fact (sy_readers s i) = Some (rq, ck, f)" using that wf(4) by blast
  show "\<exists>e. version = version_text e \<and> tokens_of e \<subseteq> known_tokens s"
    if "sy_definitions s p key = Some (version, d)" using that wf(5) by blast
  show "sy_stale_definitions s \<subseteq> sy_stale_values s" by (rule wf(6))
qed

lemma well_formed_epochs:
  assumes "well_formed s"
  shows "tokens_of (value_epoch (sy_generations s) key) \<subseteq> known_tokens s"
    "tokens_of (definition_epoch (sy_generations s) key) \<subseteq> known_tokens s"
  using well_formedD(2)[OF assms] by (simp_all add: value_epoch_def definition_epoch_def)

text \<open>Facts are only recorded under tokens that have been drawn.\<close>

lemma value_facts_known:
  assumes "well_formed s" "value_facts (sy_values s) (sy_readers s) e key f"
  shows "tokens_of e \<subseteq> known_tokens s"
proof -
  from assms(2) have plain: "plain_epoch e" by (simp add: value_facts_def)
  from assms(2) consider
      (reader) i rq where "reader_fact (sy_readers s i) = Some (rq, request_key e rq, f)"
    | (stored) ids b v where "sy_values s (cache_key e key ids b) = Some v"
    unfolding value_facts_def by blast
  then show ?thesis
  proof cases
    case reader
    from well_formedD(4)[OF assms(1) this] obtain e' where
      e': "request_key e rq = request_key e' rq" "tokens_of e' \<subseteq> known_tokens s" by blast
    with plain well_formedD(1)[OF assms(1) e'(2)] have "e = e'"
      unfolding request_key_def by (simp only: cache_key_inj)
    with e'(2) show ?thesis by simp
  next
    case stored
    from well_formedD(3)[OF assms(1) this] obtain e' key' ids' b' where
      e': "cache_key e key ids b = cache_key e' key' ids' b'" "tokens_of e' \<subseteq> known_tokens s" by blast
    with plain well_formedD(1)[OF assms(1) e'(2)] have "e = e'" by (simp only: cache_key_inj)
    with e'(2) show ?thesis by simp
  qed
qed

lemma definition_facts_known:
  assumes "well_formed s" "definition_facts (sy_definitions s) e key d"
  shows "tokens_of e \<subseteq> known_tokens s"
proof -
  from assms(2) obtain p where plain: "plain_epoch e" and "sy_definitions s p key = Some (version_text e, d)"
    by (auto simp: definition_facts_def)
  from well_formedD(5)[OF assms(1) this(2)] obtain e' where
    e': "version_text e = version_text e'" "tokens_of e' \<subseteq> known_tokens s" by blast
  with plain well_formedD(1)[OF assms(1) e'(2)] have "e = e'" by (simp only: version_text_inj)
  with e'(2) show ?thesis by simp
qed

text \<open>What a read knows: its key is built from drawn tokens, and its fact holds if they still are
  the generations of the key and no write is pending.\<close>

definition read_justified :: "settings_env \<Rightarrow> settings_system \<Rightarrow> read_request \<Rightarrow> string \<Rightarrow> setting_fact \<Rightarrow> bool" where
  "read_justified env s rq ck f \<longleftrightarrow> (\<exists>e. ck = request_key e rq \<and> tokens_of e \<subseteq> known_tokens s
     \<and> (e = value_epoch (sy_generations s) (rq_key rq) \<longrightarrow> rq_key rq \<notin> sy_stale_values s
          \<longrightarrow> fact_holds env (sy_db s) (rq_key rq) f))"

lemma reader_justified:
  assumes I: "settings_invariant env s" and f: "reader_fact (sy_readers s i) = Some (rq, ck, f)"
  shows "read_justified env s rq ck f"
proof -
  note wf = settings_invariantD(1)[OF I]
  from well_formedD(4)[OF wf f] obtain e where
    e: "ck = request_key e rq" "tokens_of e \<subseteq> known_tokens s" by blast
  moreover from f e have "value_facts (sy_values s) (sy_readers s) e (rq_key rq) f"
    using well_formedD(1)[OF wf e(2)] unfolding value_facts_def by blast
  ultimately show ?thesis
    using settings_invariantD(2)[OF I] unfolding read_justified_def values_coherent_def coherent_def by blast
qed

lemma read_justified_mono:
  assumes "read_justified env s rq ck f"
    and "fact_holds env (sy_db s) (rq_key rq) f \<Longrightarrow> rq_key rq \<notin> sy_stale_values s
      \<Longrightarrow> fact_holds env (sy_db s) (rq_key rq) f'"
  shows "read_justified env s rq ck f'"
  using assms unfolding read_justified_def by blast

lemma set_reader_invariant:
  assumes I: "settings_invariant env s"
    and x: "\<And>rq ck f. reader_fact x = Some (rq, ck, f) \<Longrightarrow> read_justified env s rq ck f"
  shows "settings_invariant env (set_reader i x s)"
proof -
  note wf = settings_invariantD(1)[OF I]
  have readers: "\<exists>e. ck = request_key e rq \<and> tokens_of e \<subseteq> known_tokens s"
    if "reader_fact (((sy_readers s)(i := x)) j) = Some (rq, ck, f)" for j rq ck f
    using that x[of rq ck f] well_formedD(4)[OF wf, of j rq ck f] unfolding read_justified_def
    by (cases "j = i") auto
  have "well_formed (set_reader i x s)"
    using wf readers unfolding well_formed_def set_reader_def known_tokens_def by simp
  moreover have "values_coherent env (set_reader i x s)"
    unfolding values_coherent_def set_reader_def
  proof (simp, rule value_scheme.coherent_step[OF settings_invariantD(2)[OF I, unfolded values_coherent_def]])
    fix e key f
    assume "value_facts (sy_values s) ((sy_readers s)(i := x)) e key f"
    then consider "value_facts (sy_values s) (sy_readers s) e key f"
      | rq where "reader_fact x = Some (rq, request_key e rq, f)" "rq_key rq = key" "plain_epoch e"
      unfolding value_facts_def by (fastforce split: if_splits)
    then show "value_facts (sy_values s) (sy_readers s) e key f
        \<or> (e = value_epoch (sy_generations s) key \<longrightarrow> key \<notin> sy_stale_values s \<longrightarrow> fact_holds env (sy_db s) key f)"
    proof cases
      case (2 rq)
      from x[OF 2(1)] obtain e' where e': "request_key e rq = request_key e' rq" "tokens_of e' \<subseteq> known_tokens s"
        "e' = value_epoch (sy_generations s) (rq_key rq) \<longrightarrow> rq_key rq \<notin> sy_stale_values s
          \<longrightarrow> fact_holds env (sy_db s) (rq_key rq) f"
        unfolding read_justified_def by blast
      with 2(3) well_formedD(1)[OF wf e'(2)] have "e = e'"
        unfolding request_key_def by (simp only: cache_key_inj)
      with e'(3) 2(2) show ?thesis by blast
    qed simp
  qed simp_all
  ultimately show ?thesis
    using settings_invariantD(3)[OF I] by (simp add: settings_invariant_def definitions_coherent_def set_reader_def)
qed

lemma epoch_touch [simp]:
  "value_epoch (touch_values key g) k = value_epoch g k"
  "value_epoch (touch_definitions key g) k = value_epoch g k"
  "definition_epoch (touch_values key g) k = definition_epoch g k"
  "definition_epoch (touch_definitions key g) k = definition_epoch g k"
  by (simp_all add: value_epoch_def definition_epoch_def touch_values_def touch_definitions_def)

text \<open>A process that only reads generations.\<close>

lemma touched_invariant:
  assumes I: "settings_invariant env s" and g: "\<And>cell. generation g cell = generation (sy_generations s) cell"
  shows "settings_invariant env (s\<lparr>sy_generations := g\<rparr>)"
proof -
  have "value_epoch g = value_epoch (sy_generations s)" "definition_epoch g = definition_epoch (sy_generations s)"
    using g by (simp_all add: fun_eq_iff value_epoch_def definition_epoch_def)
  with I g show ?thesis
    unfolding settings_invariant_def well_formed_def known_tokens_def values_coherent_def definitions_coherent_def coherent_def
    by simp
qed

text \<open>What \<open>get_definition\<close> does to a process: it may remember the definition the database has.\<close>

lemma get_definition_cases:
  assumes "get_definition db key r = (d, r')"
  obtains (remembered) v d0 where "rg_definitions r key = Some (v, d0)"
      "v = version_text (definition_epoch (rg_generations r) key)" "d = Some d0"
      "r' = r\<lparr>rg_generations := touch_definitions key (rg_generations r)\<rparr>"
    | (missing) "find_definition db key = None" "d = None"
      "r' = r\<lparr>rg_generations := touch_definitions key (rg_generations r)\<rparr>"
    | (loaded) d0 where "find_definition db key = Some d0" "d = Some d0"
      "r' = r\<lparr>rg_generations := touch_definitions key (rg_generations r),
         rg_definitions := (rg_definitions r)(key \<mapsto> (version_text (definition_epoch (rg_generations r) key), d0))\<rparr>"
  using assms unfolding get_definition_def Let_def
  by (auto split: option.splits prod.splits if_splits)

lemma remembered_invariant:
  assumes I: "settings_invariant env s" and d: "find_definition (sy_db s) key = Some d"
  shows "settings_invariant env (s\<lparr>sy_definitions := (sy_definitions s)(p := (sy_definitions s p)
           (key \<mapsto> (version_text (definition_epoch (sy_generations s) key), d)))\<rparr>)"
    (is "settings_invariant env ?s")
proof -
  note wf = settings_invariantD(1)[OF I]
  have "\<exists>e. version = version_text e \<and> tokens_of e \<subseteq> known_tokens s"
    if "((sy_definitions s)(p := (sy_definitions s p)
           (key \<mapsto> (version_text (definition_epoch (sy_generations s) key), d)))) q k = Some (version, x)" for q k version x
  proof (cases "q = p \<and> k = key")
    case True
    with that well_formed_epochs(2)[OF wf, of key] show ?thesis by (intro exI[of _ "definition_epoch (sy_generations s) key"]) simp
  next
    case False
    then have "sy_definitions s q k = Some (version, x)" using that by (auto split: if_splits)
    then show ?thesis by (rule well_formedD(5)[OF wf])
  qed
  then have "well_formed ?s" using wf unfolding well_formed_def known_tokens_def by simp
  moreover have "definitions_coherent ?s"
    unfolding definitions_coherent_def
  proof (simp, rule definition_scheme.coherent_step[OF settings_invariantD(3)[OF I, unfolded definitions_coherent_def]])
    fix e k x
    assume "definition_facts ((sy_definitions s)(p := (sy_definitions s p)
       (key \<mapsto> (version_text (definition_epoch (sy_generations s) key), d)))) e k x"
    then show "definition_facts (sy_definitions s) e k x
        \<or> (e = definition_epoch (sy_generations s) k \<longrightarrow> k \<notin> sy_stale_definitions s \<longrightarrow> find_definition (sy_db s) k = Some x)"
      using d unfolding definition_facts_def by (auto split: if_splits)
  qed simp_all
  ultimately show ?thesis
    using settings_invariantD(2)[OF I] by (simp add: settings_invariant_def values_coherent_def)
qed

lemma put_view_generations:
  "put_view p (view p s\<lparr>rg_generations := g\<rparr>) s = s\<lparr>sy_generations := g\<rparr>"
  by (simp add: put_view_def view_def)

lemma put_view_definitions:
  "put_view p (view p s\<lparr>rg_generations := g, rg_definitions := l\<rparr>) s
     = (s\<lparr>sy_definitions := (sy_definitions s)(p := l)\<rparr>)\<lparr>sy_generations := g\<rparr>"
  by (simp add: put_view_def view_def)

lemma put_view_sel [simp]:
  "sy_db (put_view p r s) = sy_db s" "sy_now (put_view p r s) = sy_now s"
  "sy_readers (put_view p r s) = sy_readers s" "sy_tokens (put_view p r s) = sy_tokens s"
  "sy_stale_values (put_view p r s) = sy_stale_values s"
  "sy_stale_definitions (put_view p r s) = sy_stale_definitions s"
  "sy_generations (put_view p r s) = rg_generations r" "sy_values (put_view p r s) = rg_values r"
  by (simp_all add: put_view_def)

lemma view_sel [simp]:
  "rg_generations (view p s) = sy_generations s" "rg_values (view p s) = sy_values s"
  "rg_definitions (view p s) = sy_definitions s p"
  by (simp_all add: view_def)

lemma get_definition_view:
  assumes "get_definition db key r = (d, r')"
  shows "generation (rg_generations r') cell = generation (rg_generations r) cell" "rg_values r' = rg_values r"
  using assms by (cases rule: get_definition_cases; simp add: touch_definitions_def)+

lemma fetched_invariant:
  assumes I: "settings_invariant env s" and fetch: "get_definition (sy_db s) key (view p s) = (d, r)"
  shows "settings_invariant env (put_view p r s)"
  using fetch
proof (cases rule: get_definition_cases)
  case (loaded d0)
  show ?thesis
    unfolding loaded(3) view_sel put_view_definitions
    by (rule touched_invariant[OF remembered_invariant[OF I loaded(1)]]) (simp add: touch_definitions_def)
qed (simp_all add: put_view_generations touched_invariant[OF I] touch_definitions_def)

lemma fetched_definition:
  assumes I: "settings_invariant env s" and fetch: "get_definition (sy_db s) key (view p s) = (d, r)"
    and clean: "key \<notin> sy_stale_values s"
  shows "d = find_definition (sy_db s) key"
  using fetch
proof (cases rule: get_definition_cases)
  case (remembered v d0)
  let ?e = "definition_epoch (sy_generations s) key"
  note wf = settings_invariantD(1)[OF I]
  have "definition_facts (sy_definitions s) ?e key d0"
    using remembered well_formedD(1)[OF wf well_formed_epochs(2)[OF wf, of key]]
    unfolding definition_facts_def by auto
  moreover have "key \<notin> sy_stale_definitions s" using clean well_formedD(6)[OF wf] by blast
  ultimately show ?thesis
    using settings_invariantD(3)[OF I] remembered(3) unfolding definitions_coherent_def coherent_def by simp
qed simp_all

lemma read_justified_put_view:
  assumes "\<And>cell. generation (rg_generations r) cell = generation (sy_generations s) cell"
  shows "read_justified env (put_view p r s) rq ck f = read_justified env s rq ck f"
  using assms by (simp add: read_justified_def known_tokens_def value_epoch_def)

text \<open>Storing a value that a read has found.\<close>

lemma value_facts_stored:
  assumes "value_facts (c(ck \<mapsto> (v, expiry))) readers e key f"
  obtains (old) "value_facts c readers e key f"
    | (new) ids b where "cache_key e key ids b = ck" "f = ValueIs ids b v" "plain_epoch e"
proof -
  from assms have plain: "plain_epoch e" by (simp add: value_facts_def)
  from assms consider
      "\<exists>i rq. reader_fact (readers i) = Some (rq, request_key e rq, f) \<and> rq_key rq = key"
    | ids b w x where "(c(ck \<mapsto> (v, expiry))) (cache_key e key ids b) = Some (w, x)" "f = ValueIs ids b w"
    unfolding value_facts_def by blast
  then show ?thesis
  proof cases
    case 1
    with plain old show ?thesis unfolding value_facts_def by blast
  next
    case (2 ids b w x)
    show ?thesis
    proof (cases "cache_key e key ids b = ck")
      case True
      with 2 have "f = ValueIs ids b v" by simp
      with new True plain show ?thesis by blast
    next
      case False
      with 2 have "c (cache_key e key ids b) = Some (w, x)" by simp
      with plain old 2(2) show ?thesis unfolding value_facts_def by blast
    qed
  qed
qed

lemma stored_invariant:
  assumes I: "settings_invariant env s"
    and j: "read_justified env s rq ck (ValueIs (rq_ids rq) (rq_include_default rq) v)"
  shows "settings_invariant env (s\<lparr>sy_values := (sy_values s)(ck \<mapsto> (v, expiry))\<rparr>)" (is "settings_invariant env ?s")
proof -
  note wf = settings_invariantD(1)[OF I]
  from j obtain e where e: "ck = request_key e rq" "tokens_of e \<subseteq> known_tokens s"
    and holds: "e = value_epoch (sy_generations s) (rq_key rq) \<longrightarrow> rq_key rq \<notin> sy_stale_values s
      \<longrightarrow> fact_holds env (sy_db s) (rq_key rq) (ValueIs (rq_ids rq) (rq_include_default rq) v)"
    unfolding read_justified_def by blast
  note plain = well_formedD(1)[OF wf e(2)]
  have "\<exists>e key ids b. c = cache_key e key ids b \<and> tokens_of e \<subseteq> known_tokens s"
    if "((sy_values s)(ck \<mapsto> (v, expiry))) c = Some x" for c x
  proof (cases "c = ck")
    case True
    with e show ?thesis unfolding request_key_def by blast
  next
    case False
    then have "sy_values s c = Some x" using that by simp
    then show ?thesis by (rule well_formedD(3)[OF wf])
  qed
  then have "well_formed ?s" using wf unfolding well_formed_def known_tokens_def by simp
  moreover have "values_coherent env ?s"
    unfolding values_coherent_def
  proof (simp, rule value_scheme.coherent_step[OF settings_invariantD(2)[OF I, unfolded values_coherent_def]])
    fix e' key f
    assume "value_facts ((sy_values s)(ck \<mapsto> (v, expiry))) (sy_readers s) e' key f"
    then consider "value_facts (sy_values s) (sy_readers s) e' key f"
      | ids b where "cache_key e' key ids b = ck" "f = ValueIs ids b v" "plain_epoch e'"
      by (rule value_facts_stored)
    then show "value_facts (sy_values s) (sy_readers s) e' key f
        \<or> (e' = value_epoch (sy_generations s) key \<longrightarrow> key \<notin> sy_stale_values s \<longrightarrow> fact_holds env (sy_db s) key f)"
    proof cases
      case (2 ids b)
      with e(1) plain have "e' = e \<and> key = rq_key rq \<and> ids = rq_ids rq \<and> b = rq_include_default rq"
        unfolding request_key_def by (simp only: cache_key_inj)
      with holds 2(2) show ?thesis by blast
    qed simp
  qed simp_all
  ultimately show ?thesis
    using settings_invariantD(3)[OF I] by (simp add: settings_invariant_def definitions_coherent_def)
qed

lemma set_reader_fact:
  assumes "settings_invariant env s" "reader_fact x = Some (rq, ck, f)" "read_justified env s rq ck f"
  shows "settings_invariant env (set_reader i x s)"
  by (rule set_reader_invariant[OF assms(1)]) (use assms(2,3) in simp)

lemma read_justifiedI:
  assumes "tokens_of e \<subseteq> known_tokens s"
    and "rq_key rq \<notin> sy_stale_values s \<Longrightarrow> fact_holds env (sy_db s) (rq_key rq) f"
  shows "read_justified env s rq (request_key e rq) f"
  using assms unfolding read_justified_def by blast

lemma cached_valueD:
  assumes "cached_value now c ck = v" "v \<noteq> JNull"
  shows "\<exists>expiry. c ck = Some (v, expiry)"
  using assms by (auto simp: cached_value_def split: option.splits if_splits)

lemma cached_fact:
  assumes I: "settings_invariant env s" and clean: "key \<notin> sy_stale_values s"
    and v: "cached_value now (sy_values s) (cache_key (value_epoch (sy_generations s) key) key ids b) = v" "v \<noteq> JNull"
  shows "resolve_setting env (sy_db s) key ids b = Inr (Some v)"
proof -
  let ?e = "value_epoch (sy_generations s) key"
  note wf = settings_invariantD(1)[OF I]
  have "value_facts (sy_values s) (sy_readers s) ?e key (ValueIs ids b v)"
    using cached_valueD[OF v] well_formedD(1)[OF wf well_formed_epochs(1)[OF wf, of key]]
    unfolding value_facts_def by blast
  with clean settings_invariantD(2)[OF I] show ?thesis
    unfolding values_coherent_def coherent_def by (metis fact_holds.simps(4))
qed

lemma generation_touch_values [simp]: "generation (touch_values key g) cell = generation g cell"
  by (simp add: touch_values_def)

lemma begin_read_invariant:
  assumes I: "settings_invariant env s"
  shows "settings_invariant env (begin_read i rq s)"
proof -
  let ?g = "touch_values (rq_key rq) (sy_generations s)"
  let ?e = "value_epoch (sy_generations s) (rq_key rq)"
  let ?ck = "request_key ?e rq"
  let ?v = "cached_value (sy_now s) (sy_values s) ?ck"
  let ?s = "s\<lparr>sy_generations := ?g\<rparr>"
  have I': "settings_invariant env ?s" by (rule touched_invariant[OF I]) simp
  have known: "tokens_of ?e \<subseteq> known_tokens ?s"
    using well_formed_epochs(1)[OF settings_invariantD(1)[OF I], of "rq_key rq"] by (simp add: known_tokens_def)
  have "settings_invariant env (set_reader i (if ?v \<noteq> JNull then Answered rq ?ck (Inr ?v) else Looked rq ?ck) ?s)"
  proof (cases "?v = JNull")
    case True
    have "read_justified env ?s rq ?ck Asked" by (rule read_justifiedI[OF known]) simp
    with True show ?thesis by (simp add: set_reader_fact[OF I'])
  next
    case False
    have "read_justified env ?s rq ?ck (AnswerIs (rq_ids rq) (rq_required rq) (rq_include_default rq) (Inr ?v))"
    proof (rule read_justifiedI[OF known])
      assume "rq_key rq \<notin> sy_stale_values ?s"
      then have "rq_key rq \<notin> sy_stale_values s" by simp
      from cached_fact[OF I this, of "sy_now s" "rq_ids rq" "rq_include_default rq" ?v] False
      show "fact_holds env (sy_db ?s) (rq_key rq) (AnswerIs (rq_ids rq) (rq_required rq) (rq_include_default rq) (Inr ?v))"
        by (simp add: request_key_def or_default_def)
    qed
    with False show ?thesis by (simp add: set_reader_fact[OF I'])
  qed
  moreover have "begin_read i rq s = set_reader i (if ?v \<noteq> JNull then Answered rq ?ck (Inr ?v) else Looked rq ?ck) ?s"
    by (simp add: begin_read_def build_cache_key_def request_key_def put_view_generations Let_def)
  ultimately show ?thesis by simp
qed

lemma continue_looked:
  assumes I: "settings_invariant env s" and x: "sy_readers s i = Looked rq ck"
  shows "settings_invariant env (continue_read env i (Looked rq ck) s)"
proof -
  obtain d r where fetch: "get_definition (sy_db s) (rq_key rq) (view (rq_process rq) s) = (d, r)" by (metis surj_pair)
  have "read_justified env s rq ck Asked" using reader_justified[OF I, of i] x by simp
  then have "read_justified env s rq ck (DefinitionIs d)"
    by (rule read_justified_mono) (use fetched_definition[OF I fetch] in simp)
  moreover have "generation (rg_generations r) cell = generation (sy_generations s) cell" for cell
    using get_definition_view(1)[OF fetch] by simp
  ultimately show ?thesis
    using fetch by (simp add: set_reader_fact[OF fetched_invariant[OF I fetch]] read_justified_put_view)
qed

lemma continue_defined:
  assumes I: "settings_invariant env s" and x: "sy_readers s i = Defined rq ck d"
  shows "settings_invariant env (continue_read env i (Defined rq ck d) s)"
proof -
  have j: "read_justified env s rq ck (DefinitionIs d)" using reader_justified[OF I, of i] x by simp
  have "read_justified env s rq' ck' f"
    if "reader_fact (case resolve_scoped_value env (sy_db s) d (rq_ids rq) of Inl e \<Rightarrow> Answered rq ck (Inl e)
       | Inr v \<Rightarrow> if v \<noteq> JNull then Found rq ck v else Absent rq ck) = Some (rq', ck', f)" for rq' ck' f
  proof -
    have same: "rq' = rq" "ck' = ck" using that by (auto split: sum.splits if_splits)
    have "read_justified env s rq ck f"
      by (rule read_justified_mono[OF j]) (use that in \<open>auto simp: resolve_setting_def split: sum.splits if_splits\<close>)
    then show ?thesis using same by simp
  qed
  then show ?thesis by (simp add: set_reader_invariant[OF I])
qed

lemma continue_absent:
  assumes I: "settings_invariant env s" and x: "sy_readers s i = Absent rq ck"
  shows "settings_invariant env (continue_read env i (Absent rq ck) s)"
proof (cases "rq_include_default rq")
  case False
  have "read_justified env s rq ck (NothingStored (rq_ids rq))" using reader_justified[OF I, of i] x by simp
  then have "read_justified env s rq ck (AnswerIs (rq_ids rq) (rq_required rq) False (or_default JNull (rq_required rq) None))"
    by (rule read_justified_mono) (simp add: resolve_setting_def)
  moreover have "put_view p (view p s) s = s" for p by (simp add: put_view_def view_def)
  ultimately show ?thesis using False by (simp add: set_reader_fact[OF I])
next
  case True
  obtain d r where fetch: "get_definition (sy_db s) (rq_key rq) (view (rq_process rq) s) = (d, r)" by (metis surj_pair)
  have j: "read_justified env s rq ck (NothingStored (rq_ids rq))" using reader_justified[OF I, of i] x by simp
  have "read_justified env s rq' ck' f"
    if "reader_fact (case definition_default env d of Inl e \<Rightarrow> Answered rq ck (Inl e)
       | Inr None \<Rightarrow> Answered rq ck (or_default JNull (rq_required rq) None)
       | Inr (Some v) \<Rightarrow> Found rq ck v) = Some (rq', ck', f)" for rq' ck' f
  proof -
    have same: "rq' = rq" "ck' = ck" using that by (auto split: sum.splits option.splits)
    have "read_justified env s rq ck f"
      by (rule read_justified_mono[OF j])
        (use that True fetched_definition[OF I fetch] in \<open>auto simp: resolve_setting_def split: sum.splits option.splits\<close>)
    then show ?thesis using same by simp
  qed
  moreover have "generation (rg_generations r) cell = generation (sy_generations s) cell" for cell
    using get_definition_view(1)[OF fetch] by simp
  ultimately show ?thesis
    using fetch True
    by (simp add: get_definition_default_def set_reader_invariant[OF fetched_invariant[OF I fetch]] read_justified_put_view)
qed

lemma continue_found:
  assumes I: "settings_invariant env s" and x: "sy_readers s i = Found rq ck v"
  shows "settings_invariant env (continue_read env i (Found rq ck v) s)"
proof -
  let ?s = "s\<lparr>sy_values := (sy_values s)(ck \<mapsto> (v, sy_now s + cache_ttl))\<rparr>"
  have j: "read_justified env s rq ck (ValueIs (rq_ids rq) (rq_include_default rq) v)"
    using reader_justified[OF I, of i] x by simp
  then have "read_justified env s rq ck (AnswerIs (rq_ids rq) (rq_required rq) (rq_include_default rq) (Inr v))"
    by (rule read_justified_mono) (simp add: or_default_def)
  then have "read_justified env ?s rq ck (AnswerIs (rq_ids rq) (rq_required rq) (rq_include_default rq) (Inr v))"
    by (simp add: read_justified_def known_tokens_def)
  moreover have "put_view p (store_value (sy_now s) ck v (view p s)) s = ?s" for p
    by (simp add: put_view_def store_value_def view_def)
  ultimately show ?thesis by (simp add: set_reader_fact[OF stored_invariant[OF I j]])
qed

lemma continue_read_invariant:
  assumes "settings_invariant env s"
  shows "settings_invariant env (continue_read env i (sy_readers s i) s)"
  using continue_looked[OF assms] continue_defined[OF assms] continue_absent[OF assms] continue_found[OF assms] assms
  by (cases "sy_readers s i") (simp_all del: continue_read.simps(1-4))

lemma same_key_facts:
  assumes "same_key env db db' key"
  shows "fact_holds env db' key f = fact_holds env db key f"
proof -
  from assms have "find_definition db' key = find_definition db key"
    "resolve_scoped_value env db' (find_definition db key) ids = resolve_scoped_value env db (find_definition db key) ids" for ids
    unfolding same_key_def by blast+
  then show ?thesis by (cases f) (simp_all only: fact_holds.simps resolve_setting_def)
qed

lemma write_invariant:
  assumes I: "settings_invariant env s"
    and keys: "\<forall>key. key \<notin> keys \<longrightarrow> same_key env (sy_db s) db key"
    and defs: "dkeys \<subseteq> keys" "\<And>key. key \<notin> dkeys \<Longrightarrow> find_definition db key = find_definition (sy_db s) key"
  shows "settings_invariant env (s\<lparr>sy_db := db, sy_stale_values := sy_stale_values s \<union> keys,
           sy_stale_definitions := sy_stale_definitions s \<union> dkeys\<rparr>)" (is "settings_invariant env ?s")
proof -
  have "well_formed ?s"
    using settings_invariantD(1)[OF I] defs(1) unfolding well_formed_def known_tokens_def by simp blast
  moreover have "values_coherent env ?s"
    unfolding values_coherent_def
  proof (simp, rule value_scheme.coherent_step[OF settings_invariantD(2)[OF I, unfolded values_coherent_def]])
    show "fact_holds env db key f" if "key \<notin> sy_stale_values s \<union> keys" "fact_holds env (sy_db s) key f" for key f
      using that keys same_key_facts by blast
  qed auto
  moreover have "definitions_coherent ?s"
    unfolding definitions_coherent_def
    by (simp, rule definition_scheme.coherent_step[OF settings_invariantD(3)[OF I, unfolded definitions_coherent_def]])
      (auto simp: defs(2))
  ultimately show ?thesis by (simp add: settings_invariant_def)
qed

lemma fresh_token_unknown:
  assumes "fresh_token token s"
  shows "token \<notin> known_tokens s" "CHR '':'' \<notin> set token"
  using assms by (auto simp: fresh_token_def known_tokens_def list_all_iff hex_digit_def Let_def)

text \<open>A new token leaves every recorded fact under older tokens.\<close>

lemma renewed_well_formed:
  assumes "well_formed s" "fresh_token token s"
    and "sy_stale_definitions s' \<subseteq> sy_stale_values s'"
    and "sy_generations s' = (sy_generations s)(cell \<mapsto> token)" "sy_tokens s' = token # sy_tokens s"
    and "sy_values s' = sy_values s" "sy_readers s' = sy_readers s" "sy_definitions s' = sy_definitions s"
  shows "well_formed s'"
proof -
  have known: "known_tokens s' = insert token (known_tokens s)"
    using assms(5) by (auto simp: known_tokens_def)
  have "\<forall>t \<in> known_tokens s'. CHR '':'' \<notin> set t"
    using assms(1) fresh_token_unknown(2)[OF assms(2)] unfolding well_formed_def known by simp
  moreover have "\<forall>c. generation (sy_generations s') c \<in> known_tokens s'"
    using well_formedD(2)[OF assms(1)] by (simp add: assms(4) known generation_update)
  moreover have "\<forall>ck v. sy_values s' ck = Some v \<longrightarrow> (\<exists>e key ids b. ck = cache_key e key ids b \<and> tokens_of e \<subseteq> known_tokens s')"
    using well_formedD(3)[OF assms(1)] unfolding assms(6) known by blast
  moreover have "\<forall>i rq ck f. reader_fact (sy_readers s' i) = Some (rq, ck, f)
      \<longrightarrow> (\<exists>e. ck = request_key e rq \<and> tokens_of e \<subseteq> known_tokens s')"
    using well_formedD(4)[OF assms(1)] unfolding assms(7) known by blast
  moreover have "\<forall>p key version d. sy_definitions s' p key = Some (version, d)
      \<longrightarrow> (\<exists>e. version = version_text e \<and> tokens_of e \<subseteq> known_tokens s')"
    using well_formedD(5)[OF assms(1)] unfolding assms(8) known by blast
  ultimately show ?thesis unfolding well_formed_def using assms(3) by blast
qed

lemma renew_values_invariant:
  assumes I: "settings_invariant env s" and fresh: "fresh_token token s"
  shows "settings_invariant env (renew_values cell token s)"
proof -
  note wf = settings_invariantD(1)[OF I]
  note new = fresh_token_unknown(1)[OF fresh]
  let ?s = "renew_values cell token s"
  have "well_formed ?s"
    by (rule renewed_well_formed[OF wf fresh, of _ cell]) (auto simp: renew_values_def draw_def)
  moreover have "values_coherent env ?s"
    unfolding values_coherent_def renew_values_def draw_def
    by (simp, rule value_scheme.coherent_renewed[OF settings_invariantD(2)[OF I, unfolded values_coherent_def]])
      (use value_facts_known[OF wf] new in blast)+
  moreover have "definitions_coherent ?s"
    unfolding definitions_coherent_def renew_values_def draw_def
    by (simp, rule definition_scheme.coherent_renewed[OF settings_invariantD(3)[OF I, unfolded definitions_coherent_def]])
      (use definition_facts_known[OF wf] new in blast)+
  ultimately show ?thesis by (simp add: settings_invariant_def)
qed

lemma renew_definitions_invariant:
  assumes I: "settings_invariant env s" and fresh: "fresh_token token s"
  shows "settings_invariant env (renew_definitions cell token s)"
proof -
  note wf = settings_invariantD(1)[OF I]
  note new = fresh_token_unknown(1)[OF fresh]
  let ?s = "renew_definitions cell token s"
  have "well_formed ?s"
    by (rule renewed_well_formed[OF wf fresh, of _ cell])
      (use well_formedD(6)[OF wf] in \<open>auto simp: renew_definitions_def draw_def\<close>)
  moreover have "values_coherent env ?s"
    unfolding values_coherent_def renew_definitions_def draw_def
    by (simp, rule value_scheme.coherent_renewed[OF settings_invariantD(2)[OF I, unfolded values_coherent_def]])
      (use value_facts_known[OF wf] new in blast)+
  moreover have "definitions_coherent ?s"
    unfolding definitions_coherent_def renew_definitions_def draw_def
    by (simp, rule definition_scheme.coherent_renewed[OF settings_invariantD(3)[OF I, unfolded definitions_coherent_def]])
      (use definition_facts_known[OF wf] new in blast)+
  ultimately show ?thesis by (simp add: settings_invariant_def)
qed

text \<open>Entries may vanish at any time.\<close>

lemma forgotten_invariant:
  assumes I: "settings_invariant env s"
    and "sy_values s' \<subseteq>\<^sub>m sy_values s" "\<And>p. sy_definitions s' p \<subseteq>\<^sub>m sy_definitions s p"
    and same: "sy_db s' = sy_db s" "sy_generations s' = sy_generations s" "sy_readers s' = sy_readers s"
      "sy_tokens s' = sy_tokens s" "sy_stale_values s' = sy_stale_values s"
      "sy_stale_definitions s' = sy_stale_definitions s"
  shows "settings_invariant env s'"
proof -
  have vals: "sy_values s ck = Some v" if "sy_values s' ck = Some v" for ck v
    using assms(2) that unfolding map_le_def by (metis domI)
  have defs: "sy_definitions s p k = Some v" if "sy_definitions s' p k = Some v" for p k v
    using assms(3)[of p] that unfolding map_le_def by (metis domI)
  have vf: "value_facts (sy_values s) (sy_readers s) e key f"
    if "value_facts (sy_values s') (sy_readers s) e key f" for e key f
    using that vals unfolding value_facts_def by blast
  have df: "definition_facts (sy_definitions s) e key d"
    if "definition_facts (sy_definitions s') e key d" for e key d
    using that defs unfolding definition_facts_def by blast
  note wf = settings_invariantD(1)[OF I]
  have known: "known_tokens s' = known_tokens s" by (simp add: known_tokens_def same)
  have "\<forall>ck v. sy_values s' ck = Some v \<longrightarrow> (\<exists>e key ids b. ck = cache_key e key ids b \<and> tokens_of e \<subseteq> known_tokens s)"
    using well_formedD(3)[OF wf] vals by blast
  moreover have "\<forall>p key version d. sy_definitions s' p key = Some (version, d)
      \<longrightarrow> (\<exists>e. version = version_text e \<and> tokens_of e \<subseteq> known_tokens s)"
    using well_formedD(5)[OF wf] defs by blast
  ultimately have "well_formed s'"
    using wf unfolding well_formed_def known same by simp
  moreover have "values_coherent env s'"
    using settings_invariantD(2)[OF I] vf unfolding values_coherent_def coherent_def same by blast
  moreover have "definitions_coherent s'"
    using settings_invariantD(3)[OF I] df unfolding definitions_coherent_def coherent_def same by blast
  ultimately show ?thesis by (simp add: settings_invariant_def)
qed

lemma settings_step_invariant:
  assumes "settings_step env s s'" "settings_invariant env s"
  shows "settings_invariant env s'"
  using assms
proof cases
  case (begins i rq)
  with assms(2) show ?thesis by (simp add: begin_read_invariant)
next
  case (continues i)
  with assms(2) show ?thesis by (simp add: continue_read_invariant)
next
  case (writes_settings db keys)
  have "find_definition db key = find_definition (sy_db s) key" for key
    using writes_settings(2) by (simp add: find_definition_def)
  with writes_settings write_invariant[OF assms(2), of keys db "{}"] show ?thesis by simp
next
  case (writes_definitions keys db)
  have "find_definition db key = find_definition (sy_db s) key" if "key \<notin> keys" for key
    using writes_definitions(2) that by (simp add: same_key_def)
  with writes_definitions write_invariant[OF assms(2), of keys db keys] show ?thesis by simp
next
  case (renews_values token cell key)
  with assms(2) show ?thesis by (simp add: renew_values_invariant)
next
  case (renews_definitions token cell key)
  with assms(2) show ?thesis by (simp add: renew_definitions_invariant)
next
  case (forgets p keys)
  show ?thesis
    by (rule forgotten_invariant[OF assms(2)]) (auto simp: forgets map_le_def)
next
  case (expires cks)
  show ?thesis
    by (rule forgotten_invariant[OF assms(2)]) (auto simp: expires map_le_def)
next
  case (waits d)
  show ?thesis
    by (rule forgotten_invariant[OF assms(2)]) (auto simp: waits map_le_def)
qed

lemma no_reads_invariant: "settings_invariant env (no_reads db now)"
  by (simp add: settings_invariant_def no_reads_def well_formed_def known_tokens_def values_coherent_def
      definitions_coherent_def coherent_def value_facts_def definition_facts_def generation_def)

lemma settings_reachable_invariant:
  assumes "settings_reachable env s"
  shows "settings_invariant env s"
  using assms
  by (induction rule: settings_reachable.induct) (simp_all add: no_reads_invariant settings_step_invariant)

section \<open>What a read returns\<close>

text \<open>The registry without its caches.\<close>

definition uncached_get ::
  "settings_env \<Rightarrow> settings_db \<Rightarrow> string \<Rightarrow> json \<Rightarrow> scope_ids \<Rightarrow> bool \<Rightarrow> bool \<Rightarrow> settings_error + json"
where
  "uncached_get env db key dflt ids required include_default =
     bindE (resolve_setting env db key ids include_default) (or_default dflt required)"

lemma registry_get_uncached:
  assumes I: "settings_invariant env s" and clean: "key \<notin> sy_stale_values s"
  shows "fst (registry_get env (sy_db s) (sy_now s) key dflt ids required b (view p s))
           = uncached_get env (sy_db s) key dflt ids required b"
proof -
  let ?e = "value_epoch (sy_generations s) key"
  let ?ck = "cache_key ?e key ids b"
  let ?r = "view p s\<lparr>rg_generations := touch_values key (sy_generations s)\<rparr>"
  let ?s = "s\<lparr>sy_generations := touch_values key (sy_generations s)\<rparr>"
  have I': "settings_invariant env ?s" by (rule touched_invariant[OF I]) simp
  have view: "?r = view p ?s" by (simp add: view_def)
  have built: "build_cache_key key ids b (view p s) = (?ck, ?r)" by (simp add: build_cache_key_def)
  obtain d r2 where fetch: "get_definition (sy_db s) key ?r = (d, r2)" by (metis surj_pair)
  have d: "d = find_definition (sy_db s) key"
    using fetched_definition[OF I', of key p d r2] fetch clean unfolding view by simp
  have I2: "settings_invariant env (put_view p r2 ?s)"
    using fetched_invariant[OF I', of key p d r2] fetch unfolding view by simp
  obtain d3 r3 where fetch3: "get_definition (sy_db s) key r2 = (d3, r3)" by (metis surj_pair)
  have "r2 = view p (put_view p r2 ?s)" by (simp add: view_def put_view_def)
  with fetched_definition[OF I2, of key p d3 r3] fetch3 clean have d3: "d3 = find_definition (sy_db s) key" by simp
  show ?thesis
  proof (cases "cached_value (sy_now s) (sy_values s) ?ck = JNull")
    case False
    with cached_fact[OF I clean refl False] show ?thesis
      by (simp add: registry_get_def built uncached_get_def or_default_def)
  next
    case True
    then show ?thesis
      unfolding registry_get_def built uncached_get_def resolve_setting_def get_definition_default_def
      by (simp add: fetch fetch3 d[symmetric] d3[unfolded d[symmetric]] Let_def or_default_def bindE_def
          split: sum.split option.split)
  qed
qed

text \<open>C26: Any process, at any moment of any interleaving: a read of a key without a pending write answers
  as the database does.\<close>

theorem registry_refines_database:
  assumes "settings_reachable env s" "key \<notin> sy_stale_values s"
  shows "fst (registry_get env (sy_db s) (sy_now s) key dflt ids required include_default (view process s))
           = uncached_get env (sy_db s) key dflt ids required include_default"
  using registry_get_uncached[OF settings_reachable_invariant[OF assms(1)] assms(2)] .

text \<open>A read that others interleave with: if the generations it started from are still those of its key and
  no write is pending, its answer is the present one.\<close>

theorem interleaved_read_current:
  assumes "settings_reachable env s" "sy_readers s i = Answered rq ck result"
    and "ck = request_key (value_epoch (sy_generations s) (rq_key rq)) rq" "rq_key rq \<notin> sy_stale_values s"
  shows "result = uncached_get env (sy_db s) (rq_key rq) JNull (rq_ids rq) (rq_required rq) (rq_include_default rq)"
proof -
  note I = settings_reachable_invariant[OF assms(1)]
  note wf = settings_invariantD(1)[OF I]
  let ?f = "AnswerIs (rq_ids rq) (rq_required rq) (rq_include_default rq) result"
  from reader_justified[OF I, of i] assms(2) have "read_justified env s rq ck ?f" by simp
  then obtain e where e: "ck = request_key e rq" "tokens_of e \<subseteq> known_tokens s"
    and holds: "e = value_epoch (sy_generations s) (rq_key rq) \<longrightarrow> rq_key rq \<notin> sy_stale_values s
      \<longrightarrow> fact_holds env (sy_db s) (rq_key rq) ?f"
    unfolding read_justified_def by blast
  have "e = value_epoch (sy_generations s) (rq_key rq)"
    using e(1) assms(3) well_formedD(1)[OF wf e(2)] well_formedD(1)[OF wf well_formed_epochs(1)[OF wf, of "rq_key rq"]]
    unfolding request_key_def by (simp only: cache_key_inj)
  with holds assms(4) show ?thesis by (simp add: uncached_get_def)
qed

section \<open>Types of values\<close>

text \<open>The values a definition's type stands for.\<close>

definition well_typed :: "setting_definition \<Rightarrow> json \<Rightarrow> bool" where
  "well_typed d v \<longleftrightarrow>
     (if df_type d = ''json'' then True
      else case v of
          JInt n \<Rightarrow> df_type d = ''integer'' \<and> \<bar>n\<bar> < 10 ^ max_int_digits
        | JBool _ \<Rightarrow> df_type d = ''boolean''
        | JStr s \<Rightarrow> df_type d \<noteq> ''integer'' \<and> df_type d \<noteq> ''boolean'' \<and> (df_type d = ''choices'' \<longrightarrow> has_choice (df_choices d) s)
        | _ \<Rightarrow> False)"

lemma text_val_bound: "list_all dec_digit s \<Longrightarrow> text_val 10 s < 10 ^ length s"
proof (induction s rule: rev_induct)
  case Nil
  then show ?case by (simp add: text_val_def)
next
  case (snoc c s)
  then have "text_val 10 s < 10 ^ length s" "digit_val c < 10" using digit_char_val by auto
  then show ?case by (simp add: text_val_snoc)
qed

lemma unsigned_of_text_bound:
  assumes "unsigned_of_text s = Some n"
  shows "0 \<le> n \<and> n < 10 ^ max_int_digits"
proof -
  let ?digits = "concat (split_on CHR ''_'' s)"
  from assms have "list_all dec_digit ?digits" "length ?digits \<le> max_int_digits" "n = int (text_val 10 ?digits)"
    by (auto simp: unsigned_of_text_def Let_def list_all_iff split: if_splits)
  moreover have "(10::nat) ^ length ?digits \<le> 10 ^ max_int_digits"
    using calculation(2) by (rule power_increasing) simp
  ultimately have "text_val 10 ?digits < 10 ^ max_int_digits" "n = int (text_val 10 ?digits)"
    using text_val_bound[of ?digits] by (auto intro: less_le_trans)
  then show ?thesis by (metis of_nat_0_le_iff of_nat_less_iff of_nat_numeral of_nat_power)
qed

lemma int_of_text_bound: "int_of_text s = Some n \<Longrightarrow> \<bar>n\<bar> < 10 ^ max_int_digits"
  using unsigned_of_text_bound
  by (fastforce simp: int_of_text_def split: list.splits if_splits)

lemma split_on_none: "sep \<notin> set s \<Longrightarrow> split_on sep s = [s]"
  by (induction s) auto

lemma unsigned_of_nat_text:
  assumes "n < 10 ^ max_int_digits"
  shows "unsigned_of_text (nat_text n) = Some (int n)"
proof -
  have "split_on CHR ''_'' (nat_text n) = [nat_text n]"
    by (rule split_on_none) (rule dec_digit_not[OF nat_text_digits], simp add: dec_digit_def)
  moreover have "nat_text n \<noteq> []" by (simp add: nat_text_def print_base.simps[of 10 n])
  moreover have "length (nat_text n) \<le> max_int_digits"
  proof -
    obtain k where k: "max_int_digits = Suc k" unfolding max_int_digits_def by (metis numeral_eq_Suc)
    show ?thesis using print_base_length[of n k] assms unfolding k nat_text_def .
  qed
  ultimately show ?thesis
    using nat_text_digits[of n] by (simp add: unsigned_of_text_def nat_text_def text_val_print)
qed

lemma int_of_int_text:
  assumes "\<bar>n\<bar> < 10 ^ max_int_digits"
  shows "int_of_text (int_text n) = Some n"
proof -
  have digits: "nat_text k \<noteq> []" "list_all dec_digit (nat_text k)" for k
    by (simp_all add: nat_text_digits) (simp add: nat_text_def print_base.simps[of 10 k])
  have plain: "\<not> is_space c" if "dec_digit c \<or> c = CHR ''-''" for c
    using that by (auto simp: is_space_def dec_digit_def)
  have "list_all (\<lambda>c. dec_digit c \<or> c = CHR ''-'') (int_text n)" "int_text n \<noteq> []"
    using digits(2) by (auto simp: int_text_def list_all_iff digits(1))
  then have strip: "strip (int_text n) = int_text n"
    by (intro strip_id) (simp add: list_all_iff plain)
  have small: "nat \<bar>n\<bar> < 10 ^ max_int_digits" using assms by (simp add: nat_less_iff)
  show ?thesis
  proof (cases "n < 0")
    case True
    with small have "unsigned_of_text (nat_text (nat (- n))) = Some (int (nat (- n)))"
      by (intro unsigned_of_nat_text) simp
    with True strip show ?thesis by (simp add: int_of_text_def int_text_def)
  next
    case False
    obtain c cs where c: "nat_text (nat n) = c # cs" using digits(1) by (cases "nat_text (nat n)") auto
    then have "dec_digit c" using digits(2)[of "nat n"] by simp
    then have "c \<noteq> CHR ''-''" "c \<noteq> CHR ''+''" by (auto simp: dec_digit_def)
    moreover have "unsigned_of_text (nat_text (nat n)) = Some n"
      using False small unsigned_of_nat_text[of "nat n"] by simp
    ultimately show ?thesis using False strip c by (simp add: int_of_text_def int_text_def)
  qed
qed

lemma parse_value_typed:
  assumes "parse_value env d raw = Inr v"
  shows "well_typed d v"
  using assms int_of_text_bound
  by (auto simp: parse_value_def well_typed_def value_or_error_def split: if_splits option.splits json.split)

lemma value_roundtrip:
  assumes "well_typed d v" and "df_type d = ''json'' \<Longrightarrow> se_loads env (se_dumps env v) = Some v"
  shows "parse_value env d (serialize_value env d v) = Inr v"
proof (cases "df_type d = ''json''")
  case True
  with assms(2) show ?thesis by (simp add: parse_value_def serialize_value_def value_or_error_def)
next
  case False
  with assms(1) have v: "case v of JInt n \<Rightarrow> df_type d = ''integer'' \<and> \<bar>n\<bar> < 10 ^ max_int_digits
      | JBool _ \<Rightarrow> df_type d = ''boolean''
      | JStr s \<Rightarrow> df_type d \<noteq> ''integer'' \<and> df_type d \<noteq> ''boolean'' \<and> (df_type d = ''choices'' \<longrightarrow> has_choice (df_choices d) s)
      | _ \<Rightarrow> False" by (simp add: well_typed_def)
  have bools: "boolean_of_text ''true'' = Some True" "boolean_of_text ''false'' = Some False" by code_simp+
  show ?thesis
  proof (cases v)
    case (JInt n)
    with v have t: "df_type d = ''integer''" and "\<bar>n\<bar> < 10 ^ max_int_digits" by simp_all
    from int_of_int_text[OF this(2)] t JInt show ?thesis
      by (simp add: parse_value_def serialize_value_def value_or_error_def)
  next
    case (JBool b)
    with v bools show ?thesis by (simp add: parse_value_def serialize_value_def value_or_error_def)
  next
    case (JStr s)
    with v False show ?thesis by (simp add: parse_value_def serialize_value_def)
  qed (use v in simp_all)
qed

end
