(* ===== verification/Settings_Service.thy ===== *)
theory Settings_Service
  imports Settings_Registry Tenant_Scope
begin

text \<open>
  The services around the settings registry: the resolution chain (\<open>services/settings/settings_service.py\<close>),
  who may see and change which stored values (\<open>visibility_service.py\<close>), writing a batch of values
  (\<open>persistence_service.py\<close>, \<open>dtos.py\<close>), the forms and the admin that lead to it
  (\<open>forms/settings.py\<close>, \<open>forms/settings_admin.py\<close>, \<open>admin/settings.py\<close>), what is shown of a value
  (\<open>presentation_service.py\<close>, \<open>serializers/v1/settings.py\<close>) and the command that installs the
  standard definitions (\<open>management/commands/init_settings.py\<close>).

  Operations act on the system of \<open>Settings_Registry\<close> as one process of it: a committed write marks
  its keys, an invalidation renews their generations with the next random token \<open>tok n\<close>.
\<close>

section \<open>Resolution chain\<close>

text \<open>The host's Django settings by name.\<close>

type_synonym controls = "string \<rightharpoonup> json"

definition control :: "controls \<Rightarrow> string \<Rightarrow> json \<Rightarrow> json" where
  "control dc name dflt = (case dc name of None \<Rightarrow> dflt | Some v \<Rightarrow> v)"

definition feature_flag_keys :: "(string \<times> string) list" where
  "feature_flag_keys =
     [(''msp_enabled'', ''MICBOARD_MSP_ENABLED''),
      (''multi_site_mode'', ''MICBOARD_MULTI_SITE_MODE''),
      (''site_isolation'', ''MICBOARD_SITE_ISOLATION''),
      (''allow_cross_org_view'', ''MICBOARD_ALLOW_CROSS_ORG_VIEW''),
      (''allow_org_switching'', ''MICBOARD_ALLOW_ORG_SWITCHING''),
      (''subdomain_routing'', ''MICBOARD_SUBDOMAIN_ROUTING''),
      (''root_domain'', ''MICBOARD_ROOT_DOMAIN''),
      (''admin_org_selector'', ''MICBOARD_ADMIN_ORG_SELECTOR''),
      (''global_device_limit'', ''MICBOARD_GLOBAL_DEVICE_LIMIT''),
      (''device_limit_warning_threshold'', ''MICBOARD_DEVICE_LIMIT_WARNING_THRESHOLD''),
      (''activity_log_retention_days'', ''MICBOARD_ACTIVITY_LOG_RETENTION_DAYS''),
      (''service_sync_log_retention_days'', ''MICBOARD_SERVICE_SYNC_LOG_RETENTION_DAYS''),
      (''api_health_log_retention_days'', ''MICBOARD_API_HEALTH_LOG_RETENTION_DAYS''),
      (''audit_archive_path'', ''MICBOARD_AUDIT_ARCHIVE_PATH'')]"

definition default_config :: "(string \<times> json) list" where
  "default_config =
     [(''POLL_INTERVAL'', JInt 5), (''CACHE_TIMEOUT'', JInt 30), (''TRANSMITTER_INACTIVITY_SECONDS'', JInt 10)]"

fun entries_of :: "json \<Rightarrow> (string \<times> json) list" where
  "entries_of (JObj es) = es"
| "entries_of _ = []"

definition micboard_config :: "controls \<Rightarrow> (string \<times> json) list" where
  "micboard_config dc = entries_of (control dc ''MICBOARD_CONFIG'' (JObj []))"

definition get_config_dict :: "controls \<Rightarrow> string \<rightharpoonup> json" where
  "get_config_dict dc = map_of default_config ++ map_of (micboard_config dc)"

text \<open>The host decides the keys of its own controls.\<close>

definition host_control :: "string \<Rightarrow> string option" where
  "host_control key =
     (if is_prefix_of ''MICBOARD_'' key then Some key else map_of feature_flag_keys key)"

definition settings_get ::
  "settings_env \<Rightarrow> controls \<Rightarrow> settings_db \<Rightarrow> time \<Rightarrow> string \<Rightarrow> json \<Rightarrow> scope_ids \<Rightarrow> registry
    \<Rightarrow> (settings_error + json) \<times> registry"
where
  "settings_get env dc db now key dflt ids r =
     (case host_control key of
        Some name \<Rightarrow> (Inr (control dc name dflt), r)
      | None \<Rightarrow>
         (let (stored, r1) = registry_get env db now key JNull ids False False r
          in case stored of
               Inl e \<Rightarrow> (Inl e, r1)
             | Inr v \<Rightarrow>
                 if v \<noteq> JNull then (Inr v, r1)
                 else (case map_of (micboard_config dc) key of
                         Some x \<Rightarrow> (Inr x, r1)
                       | None \<Rightarrow> (case map_of default_config key of
                           Some x \<Rightarrow> (Inr x, r1)
                         | None \<Rightarrow>
                            (let (d, r2) = get_definition_default env db key r1
                             in (bindE d (\<lambda>x. Inr (case x of None \<Rightarrow> dflt | Some y \<Rightarrow> y)), r2))))))"

text \<open>Feature flags are read from the host only.\<close>

definition flag_bool :: "controls \<Rightarrow> string \<Rightarrow> bool \<Rightarrow> bool" where
  "flag_bool dc name dflt = truthy (control dc name (JBool dflt))"

definition deployment_of :: "controls \<Rightarrow> bool \<Rightarrow> nat \<Rightarrow> deployment" where
  "deployment_of dc installed site_id =
     \<lparr>dp_multi_site = flag_bool dc ''MICBOARD_MULTI_SITE_MODE'' False,
      dp_msp = flag_bool dc ''MICBOARD_MSP_ENABLED'' False,
      dp_cross_org = flag_bool dc ''MICBOARD_ALLOW_CROSS_ORG_VIEW'' True,
      dp_site = site_id, dp_installed = installed\<rparr>"

text \<open>\<open>int(value)\<close> with \<open>TypeError\<close> and \<open>ValueError\<close> as None.\<close>

fun python_int :: "json \<Rightarrow> int option" where
  "python_int (JBool b) = Some (if b then 1 else 0)"
| "python_int v = int_of_json v"

definition days_setting :: "controls \<Rightarrow> string \<Rightarrow> int \<Rightarrow> int" where
  "days_setting dc name dflt = (case python_int (control dc name (JInt dflt)) of None \<Rightarrow> dflt | Some n \<Rightarrow> n)"

definition activity_log_retention_days :: "controls \<Rightarrow> int" where
  "activity_log_retention_days dc = days_setting dc ''MICBOARD_ACTIVITY_LOG_RETENTION_DAYS'' 90"

definition service_sync_log_retention_days :: "controls \<Rightarrow> int" where
  "service_sync_log_retention_days dc = days_setting dc ''MICBOARD_SERVICE_SYNC_LOG_RETENTION_DAYS'' 30"

definition api_health_log_retention_days :: "controls \<Rightarrow> int" where
  "api_health_log_retention_days dc = days_setting dc ''MICBOARD_API_HEALTH_LOG_RETENTION_DAYS'' 7"

definition global_device_limit :: "controls \<Rightarrow> int option" where
  "global_device_limit dc = python_int (control dc ''MICBOARD_GLOBAL_DEVICE_LIMIT'' JNull)"

definition text_flag :: "settings_env \<Rightarrow> controls \<Rightarrow> string \<Rightarrow> string \<Rightarrow> string" where
  "text_flag env dc name dflt = python_str env (control dc name (JStr dflt))"

definition site_isolation :: "settings_env \<Rightarrow> controls \<Rightarrow> string" where
  "site_isolation env dc = text_flag env dc ''MICBOARD_SITE_ISOLATION'' ''none''"

definition root_domain :: "settings_env \<Rightarrow> controls \<Rightarrow> string" where
  "root_domain env dc = text_flag env dc ''MICBOARD_ROOT_DOMAIN'' []"

definition audit_archive_path :: "settings_env \<Rightarrow> controls \<Rightarrow> string" where
  "audit_archive_path env dc = text_flag env dc ''MICBOARD_AUDIT_ARCHIVE_PATH'' ''audit_archives''"

section \<open>Visibility\<close>

text \<open>None is unrestricted; the empty list closes a dimension.\<close>

record visibility =
  vs_organizations :: "nat list option"
  vs_sites :: "nat list option"
  vs_manufacturers :: "nat list option"

definition everything :: visibility where
  "everything = \<lparr>vs_organizations = None, vs_sites = None, vs_manufacturers = None\<rparr>"

definition is_unrestricted :: "visibility \<Rightarrow> bool" where
  "is_unrestricted v \<longleftrightarrow> vs_organizations v = None \<and> vs_sites v = None \<and> vs_manufacturers v = None"

record organization_row =
  og_key :: nat
  og_active :: bool
  og_site :: "nat option"

definition settings_memberships :: "deployment \<Rightarrow> user \<Rightarrow> string list option \<Rightarrow> membership list" where
  "settings_memberships dp u roles =
     filter (\<lambda>mb. current_membership mb
         \<and> (case roles of None \<Rightarrow> True | Some rs \<Rightarrow> me_role mb \<in> set rs)
         \<and> (dp_multi_site dp \<longrightarrow> me_org_site mb = Some (dp_site dp))) (us_memberships u)"

definition visibility_for ::
  "deployment \<Rightarrow> organization_row list \<Rightarrow> user \<Rightarrow> string list option \<Rightarrow> visibility"
where
  "visibility_for dp orgs u roles =
     (if \<not> dp_msp dp then
        (if \<not> dp_multi_site dp then everything
         else \<lparr>vs_organizations = Some [], vs_sites = Some [dp_site dp], vs_manufacturers = Some []\<rparr>)
      else if \<not> dp_installed dp then
        \<lparr>vs_organizations = Some [], vs_sites = Some [], vs_manufacturers = Some []\<rparr>
      else if us_superuser u \<and> dp_cross_org dp then
        (if \<not> dp_multi_site dp then everything
         else \<lparr>vs_organizations = Some (map og_key (filter (\<lambda>og. og_active og \<and> og_site og = Some (dp_site dp)) orgs)),
               vs_sites = Some [dp_site dp], vs_manufacturers = Some []\<rparr>)
      else
        \<lparr>vs_organizations = Some (map me_org (filter (\<lambda>mb. me_campus mb = None) (settings_memberships dp u roles))),
         vs_sites = Some [], vs_manufacturers = Some []\<rparr>)"

definition for_settings_user :: "deployment \<Rightarrow> organization_row list \<Rightarrow> user \<Rightarrow> visibility" where
  "for_settings_user dp orgs u = visibility_for dp orgs u None"

definition for_management_user :: "deployment \<Rightarrow> organization_row list \<Rightarrow> user \<Rightarrow> visibility" where
  "for_management_user dp orgs u = visibility_for dp orgs u (Some tenant_admin_roles)"

definition has_manageable_scope :: "visibility \<Rightarrow> bool" where
  "has_manageable_scope v \<longleftrightarrow> is_unrestricted v
     \<or> list_ex (\<lambda>ids. ids \<noteq> None \<and> ids \<noteq> Some []) [vs_organizations v, vs_sites v, vs_manufacturers v]"

text \<open>The condition of one dimension on an identifier that is set.\<close>

definition dimension_admits :: "nat list option \<Rightarrow> nat option \<Rightarrow> bool" where
  "dimension_admits allowed i = (case allowed of None \<Rightarrow> i \<noteq> None | Some xs \<Rightarrow> i \<in> Some ` set xs)"

definition build_filter :: "visibility \<Rightarrow> bool \<Rightarrow> scope_ids \<Rightarrow> bool" where
  "build_filter v include_global ids =
     (case ids of (organization, site, manufacturer) \<Rightarrow>
        (include_global \<and> organization = None \<and> site = None \<and> manufacturer = None)
        \<or> (dimension_admits (vs_organizations v) organization \<and> site = None \<and> manufacturer = None)
        \<or> (organization = None \<and> dimension_admits (vs_sites v) site \<and> manufacturer = None)
        \<or> (organization = None \<and> site = None \<and> dimension_admits (vs_manufacturers v) manufacturer))"

definition build_management_filter :: "visibility \<Rightarrow> scope_ids \<Rightarrow> bool" where
  "build_management_filter v = build_filter v (is_unrestricted v)"

definition allowed_in :: "nat list option \<Rightarrow> nat option \<Rightarrow> bool" where
  "allowed_in allowed i = (case allowed of None \<Rightarrow> True | Some xs \<Rightarrow> i \<in> Some ` set xs)"

definition can_manage_scope :: "visibility \<Rightarrow> scope_ids \<Rightarrow> bool" where
  "can_manage_scope v ids =
     (case ids of (organization, site, manufacturer) \<Rightarrow>
        (case resolve_scope ids of
           None \<Rightarrow> False
         | Some scope \<Rightarrow>
             if scope = ''global'' then is_unrestricted v
             else if scope = ''organization'' then allowed_in (vs_organizations v) organization
             else if scope = ''site'' then allowed_in (vs_sites v) site
             else allowed_in (vs_manufacturers v) manufacturer))"

lemma resolve_scope_simps [simp]:
  "resolve_scope (None, None, None) = Some ''global''"
  "resolve_scope (Some i, None, None) = Some ''organization''"
  "resolve_scope (None, Some i, None) = Some ''site''"
  "resolve_scope (None, None, Some i) = Some ''manufacturer''"
  "resolve_scope (Some i, Some j, m) = None"
  "resolve_scope (Some i, s, Some j) = None"
  "resolve_scope (k, Some i, Some j) = None"
  by (cases k; cases s; cases m; simp add: resolve_scope_def)+

text \<open>The rows the admin lists are those a save would be allowed to write.\<close>

lemma management_filter_is_permission: "build_management_filter v ids = can_manage_scope v ids"
proof -
  obtain organization site manufacturer where ids: "ids = (organization, site, manufacturer)" by (metis prod_cases3)
  show ?thesis
    unfolding ids build_management_filter_def build_filter_def can_manage_scope_def dimension_admits_def allowed_in_def
    by (cases organization; cases site; cases manufacturer) (auto split: option.splits)
qed

section \<open>Invalidation in the system\<close>

definition next_token :: "(nat \<Rightarrow> string) \<Rightarrow> settings_system \<Rightarrow> string" where
  "next_token tok s = tok (length (sy_tokens s))"

definition commit_settings :: "string set \<Rightarrow> settings_db \<Rightarrow> settings_system \<Rightarrow> settings_system" where
  "commit_settings keys db s = s\<lparr>sy_db := db, sy_stale_values := sy_stale_values s \<union> keys\<rparr>"

definition commit_definitions :: "string set \<Rightarrow> settings_db \<Rightarrow> settings_system \<Rightarrow> settings_system" where
  "commit_definitions keys db s = s\<lparr>sy_db := db, sy_stale_values := sy_stale_values s \<union> keys,
     sy_stale_definitions := sy_stale_definitions s \<union> keys\<rparr>"

text \<open>An empty key invalidates everything and forgets the definitions of the process.\<close>

definition invalidate_value_cache :: "(nat \<Rightarrow> string) \<Rightarrow> nat \<Rightarrow> string \<Rightarrow> settings_system \<Rightarrow> settings_system" where
  "invalidate_value_cache tok p key s =
     (if key \<noteq> [] then renew_values (version_cache_key key) (next_token tok s) s
      else (let s1 = renew_values all_values_cell (next_token tok s) s
            in s1\<lparr>sy_definitions := (sy_definitions s1)(p := Map.empty)\<rparr>))"

definition invalidate_definition_cache :: "(nat \<Rightarrow> string) \<Rightarrow> nat \<Rightarrow> string \<Rightarrow> settings_system \<Rightarrow> settings_system" where
  "invalidate_definition_cache tok p key s =
     (let s1 = s\<lparr>sy_definitions := (sy_definitions s)(p := (sy_definitions s p)(key := None))\<rparr>;
          s2 = renew_definitions (definition_version_cache_key key) (next_token tok s1) s1
      in invalidate_value_cache tok p key s2)"

text \<open>They are the operations of the registry on the view of the process.\<close>

lemma view_invalidate_value:
  "view p (invalidate_value_cache tok p key s) = invalidate_cache (Some key) (next_token tok s) (view p s)"
  by (simp add: invalidate_value_cache_def invalidate_cache_def set_generation_def renew_values_def draw_def view_def Let_def)

lemma view_invalidate_definition:
  "view p (invalidate_definition_cache tok p key s)
     = invalidate_definition (Some key) (next_token tok s) (tok (Suc (length (sy_tokens s)))) (view p s)"
  by (simp add: invalidate_definition_cache_def Let_def invalidate_value_cache_def invalidate_definition_def
      invalidate_cache_def set_generation_def renew_values_def renew_definitions_def draw_def view_def next_token_def)

section \<open>Writing a batch\<close>

record write_item =
  wi_value :: json
  wi_definition :: "nat option"
  wi_key :: "string option"
  wi_label :: string

record write_request =
  wq_scope :: string
  wq_target :: scope_ids
  wq_items :: "write_item list"

datatype write_error = NoDefinition string | SavingFailed string settings_error

record batch_result =
  wr_saved :: nat
  wr_errors :: "write_error list"






text \<open>The active definitions of the scope that the items name.\<close>

definition definitions_for :: "settings_db \<Rightarrow> write_request \<Rightarrow> setting_definition list" where
  "definitions_for db rq =
     (let ids = List.map_filter wi_definition (wq_items rq); keys = List.map_filter wi_key (wq_items rq)
      in filter (\<lambda>d. df_active d \<and> df_scope d = wq_scope rq \<and> (df_pk d \<in> set ids \<or> df_key d \<in> set keys))
           (sd_definitions db))"

definition item_definition :: "setting_definition list \<Rightarrow> write_item \<Rightarrow> setting_definition option" where
  "item_definition ds it =
     (case wi_definition it of
        Some pk \<Rightarrow> find (\<lambda>d. df_pk d = pk) ds
      | None \<Rightarrow> find (\<lambda>d. df_key d = (case wi_key it of None \<Rightarrow> [] | Some k \<Rightarrow> k)) ds)"

text \<open>\<open>update_or_create\<close> under the exact target.\<close>

definition upsert_setting ::
  "settings_env \<Rightarrow> settings_db \<Rightarrow> setting_definition \<Rightarrow> scope_ids \<Rightarrow> json \<Rightarrow> settings_error + settings_db"
where
  "upsert_setting env db d target v =
     (case qs_get (\<lambda>x. sg_definition x = df_pk d \<and> sg_ids x = target) (sd_settings db) of
        Inl MultipleObjectsReturned \<Rightarrow> Inl SeveralSettings
      | Inl DoesNotExist \<Rightarrow>
          Inr (db\<lparr>sd_settings := sd_settings db
            @ [\<lparr>sg_pk = next_pk sg_pk (sd_settings db), sg_definition = df_pk d, sg_ids = target,
                sg_value = serialize_value env d v\<rparr>]\<rparr>)
      | Inr row \<Rightarrow>
          Inr (db\<lparr>sd_settings := map (\<lambda>x. if sg_pk x = sg_pk row then x\<lparr>sg_value := serialize_value env d v\<rparr> else x)
                    (sd_settings db)\<rparr>))"

definition save_item ::
  "settings_env \<Rightarrow> (nat \<Rightarrow> string) \<Rightarrow> nat \<Rightarrow> setting_definition list \<Rightarrow> scope_ids \<Rightarrow> write_item
    \<Rightarrow> batch_result \<times> settings_system \<Rightarrow> batch_result \<times> settings_system"
where
  "save_item env tok p ds target it = (\<lambda>(res, s).
     (case item_definition ds it of
        None \<Rightarrow> (case wi_key it of None \<Rightarrow> (res, s) | Some k \<Rightarrow> (res\<lparr>wr_errors := wr_errors res @ [NoDefinition k]\<rparr>, s))
      | Some d \<Rightarrow>
          (case upsert_setting env (sy_db s) d target (wi_value it) of
             Inl e \<Rightarrow> (res\<lparr>wr_errors := wr_errors res
                 @ [SavingFailed (if wi_definition it \<noteq> None then df_label d else wi_label it) e]\<rparr>, s)
           | Inr db \<Rightarrow> (res\<lparr>wr_saved := Suc (wr_saved res)\<rparr>,
               invalidate_value_cache tok p (df_key d) (commit_settings {df_key d} db s)))))"

datatype write_denial = ScopeDenied

definition save_settings ::
  "settings_env \<Rightarrow> (nat \<Rightarrow> string) \<Rightarrow> nat \<Rightarrow> visibility \<Rightarrow> write_request \<Rightarrow> settings_system
    \<Rightarrow> write_denial + batch_result \<times> settings_system"
where
  "save_settings env tok p v rq s =
     (if \<not> can_manage_scope v (wq_target rq) then Inl ScopeDenied
      else Inr (fold (save_item env tok p (definitions_for (sy_db s) rq) (wq_target rq)) (wq_items rq)
                  (\<lparr>wr_saved = 0, wr_errors = []\<rparr>, s)))"

section \<open>Forms\<close>

text \<open>The cleaned fields of the bulk form: the chosen scope, the selected targets and one value per
  definition field.\<close>

record bulk_form =
  bf_scope :: "string option"
  bf_organization :: "nat option"
  bf_site :: "nat option"
  bf_manufacturer :: "nat option"
  bf_values :: "(nat \<times> json) list"

datatype form_error =
    NoTenantApp
  | TargetRequired string
  | NotManageable
  | ValueRefused
  | TargetMismatch
  | ScopeRefused

definition bulk_available_scopes :: "bool \<Rightarrow> visibility \<Rightarrow> string list" where
  "bulk_available_scopes installed v =
     (let has_choices = (\<lambda>ids. ids \<noteq> Some [])
      in (if is_unrestricted v then [''global''] else [])
         @ (if installed \<and> has_choices (vs_organizations v) then [''organization''] else [])
         @ (if has_choices (vs_sites v) then [''site''] else [])
         @ (if has_choices (vs_manufacturers v) then [''manufacturer''] else []))"

definition bulk_target :: "bulk_form \<Rightarrow> scope_ids" where
  "bulk_target f =
     (if bf_scope f = Some ''organization'' then bf_organization f else None,
      if bf_scope f = Some ''site'' then bf_site f else None,
      if bf_scope f = Some ''manufacturer'' then bf_manufacturer f else None)"

definition clean_bulk :: "bool \<Rightarrow> visibility \<Rightarrow> bulk_form \<Rightarrow> form_error + unit" where
  "clean_bulk installed v f =
     bindE (if bf_scope f = Some ''organization'' then
              bindE (requireE installed NoTenantApp) (\<lambda>_. requireE (bf_organization f \<noteq> None) (TargetRequired ''organization''))
            else if bf_scope f = Some ''site'' then requireE (bf_site f \<noteq> None) (TargetRequired ''site'')
            else if bf_scope f = Some ''manufacturer''
              then requireE (bf_manufacturer f \<noteq> None) (TargetRequired ''manufacturer'')
            else Inr ()) (\<lambda>_.
     requireE (can_manage_scope v (bulk_target f)) NotManageable)"

definition blank :: "json \<Rightarrow> bool" where
  "blank v \<longleftrightarrow> v = JNull \<or> v = JStr []"

definition bulk_request :: "bulk_form \<Rightarrow> write_request" where
  "bulk_request f =
     \<lparr>wq_scope = (case bf_scope f of None \<Rightarrow> [] | Some sc \<Rightarrow> sc), wq_target = bulk_target f,
      wq_items = map (\<lambda>(pk, v). \<lparr>wi_value = v, wi_definition = Some pk, wi_key = None,
                        wi_label = ''setting_'' @ nat_text pk\<rparr>)
                   (filter (\<lambda>(pk, v). \<not> blank v) (bf_values f))\<rparr>"

definition manufacturer_fields :: "string list" where
  "manufacturer_fields =
     [''battery_good_level'', ''battery_low_level'', ''battery_critical_level'', ''health_check_interval'',
      ''api_timeout'', ''device_max_requests_per_call'', ''supports_discovery_ips'', ''supports_health_check'']"

definition manufacturer_request :: "nat \<Rightarrow> (string \<rightharpoonup> json) \<Rightarrow> write_request" where
  "manufacturer_request manufacturer cleaned =
     \<lparr>wq_scope = ''manufacturer'', wq_target = (None, None, Some manufacturer),
      wq_items = List.map_filter (\<lambda>name.
          (case cleaned name of None \<Rightarrow> None
           | Some v \<Rightarrow> if blank v then None
               else Some \<lparr>wi_value = v, wi_definition = None, wi_key = Some name, wi_label = name\<rparr>))
        manufacturer_fields\<rparr>"

text \<open>
  From the posted texts to the cleaned values.  An absent field is the empty text.  An integer may end in a
  decimal point and zeros; a flag has three states.  What Django's \<open>ChoiceField\<close> takes when a label is a list
  or a mapping (an option group) is the parameter \<open>grouped\<close>; NUL characters, which it refuses, are not modelled.
\<close>

definition strip_decimal :: "string \<Rightarrow> string" where
  "strip_decimal text0 =
     (case dropWhile (\<lambda>c. c = CHR ''0'') (dropWhile is_space (rev text0)) of
        [] \<Rightarrow> text0
      | c # front \<Rightarrow> if c = CHR ''.'' then rev front else text0)"

definition clean_integer :: "string \<Rightarrow> form_error + json" where
  "clean_integer text0 =
     (if text0 = [] then Inr JNull
      else (case int_of_text (strip_decimal text0) of None \<Rightarrow> Inl ValueRefused | Some n \<Rightarrow> Inr (JInt n)))"

definition clean_flag :: "string \<Rightarrow> form_error + json" where
  "clean_flag text0 =
     (if text0 = [] then Inr JNull else if text0 = ''true'' then Inr (JBool True)
      else if text0 = ''false'' then Inr (JBool False) else Inl ValueRefused)"

fun is_group :: "json \<Rightarrow> bool" where
  "is_group (JList _) = True"
| "is_group (JObj _) = True"
| "is_group _ = False"

fun plain_labels :: "json \<Rightarrow> bool" where
  "plain_labels (JObj choices) = list_all (\<lambda>(_, label). \<not> is_group label) choices"
| "plain_labels _ = True"

definition clean_choice :: "(json \<Rightarrow> string \<Rightarrow> bool) \<Rightarrow> json \<Rightarrow> string \<Rightarrow> form_error + json" where
  "clean_choice grouped choices text0 =
     (if text0 = [] \<or> (if plain_labels choices then has_choice choices text0 else grouped choices text0)
      then Inr (JStr text0) else Inl ValueRefused)"

definition clean_setting_field ::
  "settings_env \<Rightarrow> (json \<Rightarrow> string \<Rightarrow> bool) \<Rightarrow> setting_definition \<Rightarrow> string \<Rightarrow> form_error + json"
where
  "clean_setting_field env grouped d text0 =
     (if df_type d = ''boolean'' then clean_flag text0
      else if df_type d = ''integer'' then clean_integer text0
      else if df_type d = ''choices'' then clean_choice grouped (df_choices d) text0
      else if df_type d = ''json'' then
        (if text0 = [] then Inr JNull
         else (case se_loads env text0 of None \<Rightarrow> Inl ValueRefused | Some v \<Rightarrow> Inr v))
      else Inr (JStr (strip text0)))"

text \<open>One field for each active definition of the scope that is selected, all of them when none is.  The rows
  come in the order of the table; the form sorts its fields by key.\<close>

definition bulk_fields :: "settings_db \<Rightarrow> string \<Rightarrow> setting_definition list" where
  "bulk_fields db selected = filter (\<lambda>d. df_active d \<and> (selected = [] \<or> df_scope d = selected)) (sd_definitions db)"

definition clean_bulk_values ::
  "settings_env \<Rightarrow> (json \<Rightarrow> string \<Rightarrow> bool) \<Rightarrow> setting_definition list \<Rightarrow> (nat \<Rightarrow> string)
    \<Rightarrow> form_error + (nat \<times> json) list"
where
  "clean_bulk_values env grouped ds texts =
     mapE (\<lambda>d. bindE (clean_setting_field env grouped d (texts (df_pk d))) (\<lambda>v. Inr (df_pk d, v))) ds"

record bulk_post =
  bp_scope :: string
  bp_organization :: "nat option"
  bp_site :: "nat option"
  bp_manufacturer :: "nat option"
  bp_texts :: "nat \<Rightarrow> string"

definition submit_bulk ::
  "settings_env \<Rightarrow> (json \<Rightarrow> string \<Rightarrow> bool) \<Rightarrow> bool \<Rightarrow> visibility \<Rightarrow> settings_db \<Rightarrow> bulk_post \<Rightarrow> form_error + bulk_form"
where
  "submit_bulk env grouped installed v db post =
     bindE (requireE (bp_scope post \<in> set (bulk_available_scopes installed v)) ScopeRefused) (\<lambda>_.
     bindE (clean_bulk_values env grouped (bulk_fields db (bp_scope post)) (bp_texts post)) (\<lambda>cleaned.
       (let f = \<lparr>bf_scope = Some (bp_scope post), bf_organization = bp_organization post, bf_site = bp_site post,
                 bf_manufacturer = bp_manufacturer post, bf_values = cleaned\<rparr>
        in bindE (clean_bulk installed v f) (\<lambda>_. Inr f))))"

text \<open>The fields of the quick form: whole numbers within bounds, and flags.\<close>

definition number_fields :: "(string \<times> int \<times> int option) list" where
  "number_fields =
     [(''battery_good_level'', 0, Some 100), (''battery_low_level'', 0, Some 100), (''battery_critical_level'', 0, Some 100),
      (''health_check_interval'', 10, None), (''api_timeout'', 1, None), (''device_max_requests_per_call'', 1, None)]"

definition flag_fields :: "string list" where
  "flag_fields = [''supports_discovery_ips'', ''supports_health_check'']"

definition clean_quick_field :: "string \<Rightarrow> string \<Rightarrow> form_error + json" where
  "clean_quick_field name text0 =
     (case map_of number_fields name of
        None \<Rightarrow> clean_flag text0
      | Some (least, greatest) \<Rightarrow>
          bindE (clean_integer text0) (\<lambda>v. case v of
              JInt n \<Rightarrow> if least \<le> n \<and> (case greatest of None \<Rightarrow> True | Some m \<Rightarrow> n \<le> m) then Inr v else Inl ValueRefused
            | _ \<Rightarrow> Inr v))"

definition submit_quick :: "(string \<Rightarrow> string) \<Rightarrow> form_error + (string \<rightharpoonup> json)" where
  "submit_quick texts =
     bindE (mapE (\<lambda>name. bindE (clean_quick_field name (texts name)) (\<lambda>v. Inr (name, v))) manufacturer_fields)
       (\<lambda>cleaned. Inr (map_of cleaned))"

section \<open>What is shown\<close>

definition display_safe_keys :: "string list" where
  "display_safe_keys =
     [''activity_log_retention_days'', ''admin_org_selector'', ''alert_on_device_offline_minutes'',
      ''allow_cross_org_view'', ''allow_org_switching'', ''api_health_log_retention_days'', ''api_timeout'',
      ''audit_archive_path'', ''battery_critical_level'', ''battery_good_level'', ''battery_low_level'',
      ''cache_device_specs_minutes'', ''cache_settings_minutes'', ''cache_timeout'',
      ''device_limit_warning_threshold'', ''device_max_requests_per_call'', ''discovery_enabled'',
      ''discovery_interval_minutes'', ''global_device_limit'', ''health_check_interval'', ''log_api_calls'',
      ''msp_enabled'', ''multi_site_mode'', ''poll_interval'', ''polling_batch_size'', ''polling_enabled'',
      ''polling_interval_seconds'', ''root_domain'', ''service_sync_log_retention_days'', ''site_isolation'',
      ''subdomain_routing'', ''supports_discovery_ips'', ''supports_health_check'',
      ''transmitter_inactivity_seconds'']"

definition is_key_sensitive :: "string \<Rightarrow> bool" where
  "is_key_sensitive key \<longleftrightarrow> lower key \<notin> set display_safe_keys"

datatype shown = NoValue | Hidden | Shown string

definition format_value :: "settings_env \<Rightarrow> setting_definition \<Rightarrow> json \<Rightarrow> shown" where
  "format_value env d v =
     (if v = JNull then NoValue else if is_key_sensitive (df_key d) then Hidden else Shown (python_str env v))"

record diff_entry =
  ov_key :: string
  ov_label :: string
  ov_global :: shown
  ov_organizations :: "(string \<times> shown) list"
  ov_sites :: "(string \<times> shown) list"
  ov_manufacturers :: "(string \<times> shown) list"

text \<open>Names of organizations, sites and manufacturers by key.\<close>

record setting_names =
  sn_organization :: "nat \<rightharpoonup> string"
  sn_site :: "nat \<Rightarrow> string"
  sn_manufacturer :: "nat \<rightharpoonup> string"

definition organization_of :: "setting \<Rightarrow> nat option" where "organization_of x = fst (sg_ids x)"

definition site_of :: "setting \<Rightarrow> nat option" where "site_of x = fst (snd (sg_ids x))"

definition manufacturer_of :: "setting \<Rightarrow> nat option" where "manufacturer_of x = snd (snd (sg_ids x))"

definition named :: "string \<Rightarrow> (nat \<rightharpoonup> string) \<Rightarrow> nat option \<Rightarrow> string" where
  "named kind names i =
     (case i of None \<Rightarrow> [] | Some n \<Rightarrow> (case names n of Some t \<Rightarrow> t | None \<Rightarrow> kind @ nat_text n))"

definition shown_override ::
  "settings_env \<Rightarrow> settings_db \<Rightarrow> setting_definition \<Rightarrow> (setting \<Rightarrow> string) \<Rightarrow> setting \<Rightarrow> settings_error + string \<times> shown"
where
  "shown_override env db d label x = bindE (get_parsed_value env db x) (\<lambda>v. Inr (label x, format_value env d v))"

definition diff_row ::
  "settings_env \<Rightarrow> settings_db \<Rightarrow> setting_names \<Rightarrow> setting list \<Rightarrow> setting_definition \<Rightarrow> settings_error + diff_entry"
where
  "diff_row env db names visible d =
     (let own = filter (\<lambda>x. sg_definition x = df_pk d) visible;
          orgs = filter (\<lambda>x. organization_of x \<noteq> None) own;
          sites = filter (\<lambda>x. organization_of x = None \<and> site_of x \<noteq> None) own;
          mfrs = filter (\<lambda>x. organization_of x = None \<and> site_of x = None \<and> manufacturer_of x \<noteq> None) own;
          globals = filter (\<lambda>x. sg_ids x = (None, None, None)) own
      in bindE (case globals of [] \<Rightarrow> Inr JNull | x # _ \<Rightarrow> get_parsed_value env db x) (\<lambda>g.
         bindE (mapE (shown_override env db d (\<lambda>x. named ''Org '' (sn_organization names) (organization_of x))) orgs) (\<lambda>os.
         bindE (mapE (shown_override env db d (\<lambda>x. named ''Site '' (Some \<circ> sn_site names) (site_of x))) sites) (\<lambda>ss.
         bindE (mapE (shown_override env db d (\<lambda>x. named ''Manufacturer '' (sn_manufacturer names) (manufacturer_of x))) mfrs) (\<lambda>ms.
         Inr \<lparr>ov_key = df_key d, ov_label = df_label d, ov_global = format_value env d g,
              ov_organizations = os, ov_sites = ss, ov_manufacturers = ms\<rparr>)))))"

definition has_override :: "setting list \<Rightarrow> setting_definition \<Rightarrow> bool" where
  "has_override visible d \<longleftrightarrow> list_ex (\<lambda>x. sg_definition x = df_pk d \<and> sg_ids x \<noteq> (None, None, None)) visible"

text \<open>The definitions come in the order of their scope and key, which \<open>ordered\<close> gives.\<close>

definition get_diff ::
  "settings_env \<Rightarrow> setting_names \<Rightarrow> (setting_definition list \<Rightarrow> setting_definition list) \<Rightarrow> settings_db \<Rightarrow> visibility
    \<Rightarrow> settings_error + diff_entry list"
where
  "get_diff env names ordered db v =
     (let ds = ordered (filter df_active (sd_definitions db));
          visible = filter (\<lambda>x. list_ex (\<lambda>d. df_pk d = sg_definition x) ds \<and> build_filter v True (sg_ids x)) (sd_settings db)
      in mapE (diff_row env db names visible) (filter (has_override visible) ds))"

text \<open>The overview lists rows by scope without their values.\<close>

record overview =
  ow_global :: "setting list"
  ow_organizations :: "setting list"
  ow_sites :: "setting list"
  ow_manufacturers :: "setting list"

definition get_overview :: "settings_db \<Rightarrow> visibility \<Rightarrow> overview" where
  "get_overview db v =
     (let visible = filter (\<lambda>x. build_filter v True (sg_ids x)) (sd_settings db)
      in \<lparr>ow_global = filter (\<lambda>x. sg_ids x = (None, None, None)) visible,
          ow_organizations = filter (\<lambda>x. organization_of x \<noteq> None) visible,
          ow_sites = filter (\<lambda>x. site_of x \<noteq> None) visible,
          ow_manufacturers = filter (\<lambda>x. manufacturer_of x \<noteq> None) visible\<rparr>)"

text \<open>The API hides a value when the key contains a suspicious word.\<close>

definition secret_words :: "string list" where
  "secret_words = [''secret'', ''password'', ''key'', ''token'', ''credential'']"

definition api_masks :: "string \<Rightarrow> bool" where
  "api_masks key \<longleftrightarrow> list_ex (\<lambda>word. contains word (lower key)) secret_words"

definition api_value :: "setting_definition \<Rightarrow> setting \<Rightarrow> shown" where
  "api_value d x = (if api_masks (df_key d) then Hidden else Shown (sg_value x))"

definition api_default :: "setting_definition \<Rightarrow> shown" where
  "api_default d = (if api_masks (df_key d) then Hidden else Shown (df_default d))"

definition api_settings :: "bool \<Rightarrow> visibility \<Rightarrow> settings_db \<Rightarrow> setting list" where
  "api_settings authenticated v db =
     (if \<not> authenticated then [] else filter (\<lambda>x. build_filter v True (sg_ids x)) (sd_settings db))"

definition api_definitions :: "settings_db \<Rightarrow> setting_definition list" where
  "api_definitions db = filter df_active (sd_definitions db)"

section \<open>Administration\<close>

text \<open>An edited definition keeps an unchanged secret default; \<open>SettingDefinition.clean\<close> decides.\<close>

definition definition_default_kept :: "setting_definition option \<Rightarrow> setting_definition \<Rightarrow> setting_definition" where
  "definition_default_kept old d =
     (case old of None \<Rightarrow> d
      | Some o1 \<Rightarrow> if is_key_sensitive (df_key d) \<and> df_default d = [] then d\<lparr>df_default := df_default o1\<rparr> else d)"

definition definition_form_errors ::
  "settings_env \<Rightarrow> settings_db \<Rightarrow> setting_definition option \<Rightarrow> setting_definition \<Rightarrow> string list"
where
  "definition_form_errors env db old d =
     (if df_type d = ''choices'' \<and> \<not> truthy (df_choices d) then [''setting_type''] else [])
     @ definition_errors env db (old \<noteq> None) d"

text \<open>The value form: the value to store, or why it is refused.  A blank value keeps a stored secret.\<close>

definition clean_value_form ::
  "settings_env \<Rightarrow> visibility \<Rightarrow> setting option \<Rightarrow> setting_definition \<Rightarrow> scope_ids \<Rightarrow> string \<Rightarrow> form_error + string"
where
  "clean_value_form env v old d ids text0 =
     (let raw = (case old of None \<Rightarrow> text0
                 | Some x \<Rightarrow> if is_key_sensitive (df_key d) \<and> text0 = [] then sg_value x else text0)
      in bindE (requireE (raw = [] \<or> \<not> isl (parse_value env d raw)) ValueRefused) (\<lambda>_.
         bindE (requireE (matches_definition_scope (df_scope d) ids) TargetMismatch) (\<lambda>_.
         bindE (requireE (can_manage_scope v ids) NotManageable) (\<lambda>_. Inr raw))))"

text \<open>\<open>Model.save\<close>: the row with this key is replaced, or the row is added.\<close>

definition save_row :: "('r \<Rightarrow> nat) \<Rightarrow> 'r \<Rightarrow> 'r list \<Rightarrow> 'r list" where
  "save_row pk x rows =
     (if list_ex (\<lambda>y. pk y = pk x) rows then map (\<lambda>y. if pk y = pk x then x else y) rows else rows @ [x])"

definition put_definition :: "setting_definition \<Rightarrow> settings_db \<Rightarrow> settings_db" where
  "put_definition d db = db\<lparr>sd_definitions := save_row df_pk d (sd_definitions db)\<rparr>"

text \<open>Deleting definitions deletes their values (\<open>CASCADE\<close>).\<close>

definition drop_definitions :: "nat list \<Rightarrow> settings_db \<Rightarrow> settings_db" where
  "drop_definitions pks db =
     db\<lparr>sd_definitions := filter (\<lambda>d. df_pk d \<notin> set pks) (sd_definitions db),
        sd_settings := filter (\<lambda>x. sg_definition x \<notin> set pks) (sd_settings db)\<rparr>"

definition put_setting :: "setting \<Rightarrow> settings_db \<Rightarrow> settings_db" where
  "put_setting x db = db\<lparr>sd_settings := save_row sg_pk x (sd_settings db)\<rparr>"

definition drop_settings :: "nat list \<Rightarrow> settings_db \<Rightarrow> settings_db" where
  "drop_settings pks db = db\<lparr>sd_settings := filter (\<lambda>x. sg_pk x \<notin> set pks) (sd_settings db)\<rparr>"

definition keys_of_definitions :: "nat list \<Rightarrow> settings_db \<Rightarrow> string list" where
  "keys_of_definitions pks db = fromkeys (map df_key (filter (\<lambda>d. df_pk d \<in> set pks) (sd_definitions db)))"

definition keys_of_settings :: "nat list \<Rightarrow> settings_db \<Rightarrow> string list" where
  "keys_of_settings pks db =
     fromkeys (List.map_filter (\<lambda>x. map_option df_key (find (\<lambda>d. df_pk d = sg_definition x) (sd_definitions db)))
       (filter (\<lambda>x. sg_pk x \<in> set pks) (sd_settings db)))"

definition invalidate_definitions :: "(nat \<Rightarrow> string) \<Rightarrow> nat \<Rightarrow> string list \<Rightarrow> settings_system \<Rightarrow> settings_system" where
  "invalidate_definitions tok p keys s = fold (invalidate_definition_cache tok p) keys s"

definition invalidate_values :: "(nat \<Rightarrow> string) \<Rightarrow> nat \<Rightarrow> string list \<Rightarrow> settings_system \<Rightarrow> settings_system" where
  "invalidate_values tok p keys s = fold (invalidate_value_cache tok p) keys s"

definition admin_save_definition ::
  "(nat \<Rightarrow> string) \<Rightarrow> nat \<Rightarrow> setting_definition \<Rightarrow> settings_system \<Rightarrow> settings_system"
where
  "admin_save_definition tok p d s =
     (let keys = fromkeys (keys_of_definitions [df_pk d] (sy_db s) @ [df_key d])
      in invalidate_definitions tok p keys (commit_definitions (set keys) (put_definition d (sy_db s)) s))"

definition admin_delete_definitions :: "(nat \<Rightarrow> string) \<Rightarrow> nat \<Rightarrow> nat list \<Rightarrow> settings_system \<Rightarrow> settings_system" where
  "admin_delete_definitions tok p pks s =
     (let keys = keys_of_definitions pks (sy_db s)
      in invalidate_definitions tok p keys (commit_definitions (set keys) (drop_definitions pks (sy_db s)) s))"

definition admin_save_setting ::
  "(nat \<Rightarrow> string) \<Rightarrow> nat \<Rightarrow> visibility \<Rightarrow> setting_definition \<Rightarrow> setting \<Rightarrow> settings_system
    \<Rightarrow> write_denial + settings_system"
where
  "admin_save_setting tok p v d x s =
     (if \<not> can_manage_scope v (sg_ids x) then Inl ScopeDenied
      else (let keys = fromkeys (keys_of_settings [sg_pk x] (sy_db s) @ [df_key d])
            in Inr (invalidate_values tok p keys (commit_settings (set keys) (put_setting x (sy_db s)) s))))"

definition admin_delete_settings :: "(nat \<Rightarrow> string) \<Rightarrow> nat \<Rightarrow> nat list \<Rightarrow> settings_system \<Rightarrow> settings_system" where
  "admin_delete_settings tok p pks s =
     (let keys = keys_of_settings pks (sy_db s)
      in invalidate_values tok p keys (commit_settings (set keys) (drop_settings pks (sy_db s)) s))"

section \<open>Standard definitions\<close>

definition standard :: "string \<Rightarrow> string \<Rightarrow> string \<Rightarrow> string \<Rightarrow> string \<Rightarrow> setting_definition" where
  "standard key label scope kind dflt =
     \<lparr>df_pk = 0, df_key = key, df_label = label, df_scope = scope, df_type = kind, df_default = dflt,
      df_choices = JObj [], df_required = False, df_active = True\<rparr>"

definition standard_definitions :: "setting_definition list" where
  "standard_definitions =
     [standard ''battery_good_level'' ''Battery Good Level (%)'' ''manufacturer'' ''integer'' ''90'',
      standard ''battery_low_level'' ''Battery Low Level (%)'' ''manufacturer'' ''integer'' ''20'',
      standard ''battery_critical_level'' ''Battery Critical Level (%)'' ''manufacturer'' ''integer'' ''0'',
      standard ''health_check_interval'' ''Health Check Interval (seconds)'' ''manufacturer'' ''integer'' ''300'',
      standard ''api_timeout'' ''API Timeout (seconds)'' ''manufacturer'' ''integer'' ''30'',
      standard ''device_max_requests_per_call'' ''Max Devices Per API Call'' ''manufacturer'' ''integer'' ''100'',
      standard ''supports_discovery_ips'' ''Supports Discovery IPs'' ''manufacturer'' ''boolean'' ''false'',
      standard ''supports_health_check'' ''Supports Health Check API'' ''manufacturer'' ''boolean'' ''false'',
      standard ''discovery_enabled'' ''Discovery Enabled'' ''organization'' ''boolean'' ''true'',
      standard ''discovery_interval_minutes'' ''Discovery Interval (minutes)'' ''organization'' ''integer'' ''60'',
      standard ''polling_enabled'' ''Polling Enabled'' ''organization'' ''boolean'' ''true'',
      standard ''polling_interval_seconds'' ''Polling Interval (seconds)'' ''organization'' ''integer'' ''300'',
      standard ''polling_batch_size'' ''Polling Batch Size'' ''organization'' ''integer'' ''50'',
      standard ''cache_device_specs_minutes'' ''Cache Device Specs (minutes)'' ''global'' ''integer'' ''1440'',
      standard ''cache_settings_minutes'' ''Cache Settings (minutes)'' ''global'' ''integer'' ''5'',
      standard ''log_api_calls'' ''Log API Calls'' ''organization'' ''boolean'' ''false'',
      standard ''alert_on_device_offline_minutes'' ''Alert on Device Offline (minutes)'' ''organization'' ''integer'' ''30'']"

text \<open>\<open>get_or_create\<close> by key; the table gives the keys of new rows, which are never used twice.\<close>

definition create_missing :: "setting_definition \<Rightarrow> settings_db \<times> nat \<times> nat \<Rightarrow> settings_db \<times> nat \<times> nat" where
  "create_missing d = (\<lambda>(db, pk, created).
     (case find_definition db (df_key d) of
        Some _ \<Rightarrow> (db, pk, created)
      | None \<Rightarrow> (db\<lparr>sd_definitions := sd_definitions db @ [d\<lparr>df_pk := pk\<rparr>]\<rparr>, Suc pk, Suc created)))"

definition initialize_definitions :: "nat \<Rightarrow> settings_db \<Rightarrow> settings_db \<times> nat \<times> nat" where
  "initialize_definitions pk db = fold create_missing standard_definitions (db, pk, 0)"

definition reset_definitions :: "settings_db \<Rightarrow> settings_db" where
  "reset_definitions db = drop_definitions (map df_pk (sd_definitions db)) db"

text \<open>The command commits without touching any cache.\<close>

definition init_settings :: "bool \<Rightarrow> nat \<Rightarrow> settings_system \<Rightarrow> settings_system \<times> nat" where
  "init_settings reset pk s =
     (let db0 = (if reset then reset_definitions (sy_db s) else sy_db s);
          (db, _, created) = initialize_definitions pk db0;
          keys = (if reset then set (map df_key (sd_definitions (sy_db s))) else {}) \<union> set (map df_key standard_definitions)
      in (commit_definitions keys db s, created))"

section \<open>Reading through the chain\<close>

text \<open>The chain without caches.\<close>

definition settings_lookup ::
  "settings_env \<Rightarrow> controls \<Rightarrow> settings_db \<Rightarrow> string \<Rightarrow> json \<Rightarrow> scope_ids \<Rightarrow> settings_error + json"
where
  "settings_lookup env dc db key dflt ids =
     (case host_control key of
        Some name \<Rightarrow> Inr (control dc name dflt)
      | None \<Rightarrow>
          bindE (resolve_scoped_value env db (find_definition db key) ids) (\<lambda>v.
            if v \<noteq> JNull then Inr v
            else (case map_of (micboard_config dc) key of
                Some x \<Rightarrow> Inr x
              | None \<Rightarrow> (case map_of default_config key of
                  Some x \<Rightarrow> Inr x
                | None \<Rightarrow> bindE (definition_default env (find_definition db key))
                            (\<lambda>x. Inr (case x of None \<Rightarrow> dflt | Some y \<Rightarrow> y))))))"

lemma get_definition_local:
  assumes "rg_generations r = rg_generations r'" "rg_definitions r = rg_definitions r'"
  shows "fst (get_definition db key r) = fst (get_definition db key r')"
  using assms by (auto simp: get_definition_def Let_def split: option.split)

text \<open>After a read the process knows no wrong definition.\<close>

lemma registry_get_definitions:
  assumes I: "settings_invariant env s"
    and get: "registry_get env (sy_db s) (sy_now s) key JNull ids required False (view p s) = (res, r)"
  shows "\<exists>s2. settings_invariant env s2 \<and> sy_db s2 = sy_db s \<and> sy_stale_values s2 = sy_stale_values s
    \<and> rg_generations r = sy_generations s2 \<and> rg_definitions r = sy_definitions s2 p"
proof -
  let ?s = "s\<lparr>sy_generations := touch_values key (sy_generations s)\<rparr>"
  let ?ck = "cache_key (value_epoch (sy_generations s) key) key ids False"
  have I': "settings_invariant env ?s" by (rule touched_invariant[OF I]) simp
  have built: "build_cache_key key ids False (view p s) = (?ck, view p ?s)"
    by (simp add: build_cache_key_def view_def)
  obtain d r2 where fetch: "get_definition (sy_db s) key (view p ?s) = (d, r2)" by (metis surj_pair)
  have I2: "settings_invariant env (put_view p r2 ?s)"
    using fetched_invariant[OF I', of key p d r2] fetch by simp
  have same: "rg_generations r = rg_generations r2 \<and> rg_definitions r = rg_definitions r2"
    if "cached_value (sy_now s) (sy_values s) ?ck = JNull"
    using get that unfolding registry_get_def built
    by (auto simp: fetch Let_def store_value_def split: sum.splits if_splits)
  show ?thesis
  proof (cases "cached_value (sy_now s) (sy_values s) ?ck = JNull")
    case True
    with same I2 show ?thesis by (intro exI[of _ "put_view p r2 ?s"]) (simp add: put_view_def)
  next
    case False
    with get have "r = view p ?s" unfolding registry_get_def built by simp
    with I' show ?thesis by (intro exI[of _ ?s]) simp
  qed
qed

lemma settings_get_lookup:
  assumes I: "settings_invariant env s" and clean: "key \<notin> sy_stale_values s"
  shows "fst (settings_get env dc (sy_db s) (sy_now s) key dflt ids (view p s))
           = settings_lookup env dc (sy_db s) key dflt ids"
proof (cases "host_control key")
  case (Some name)
  then show ?thesis by (simp add: settings_get_def settings_lookup_def)
next
  case None
  obtain res r where get: "registry_get env (sy_db s) (sy_now s) key JNull ids False False (view p s) = (res, r)"
    by (metis surj_pair)
  have res: "res = bindE (resolve_scoped_value env (sy_db s) (find_definition (sy_db s) key) ids) Inr"
    using registry_get_uncached[OF I clean, of JNull ids False False p] get
    by (auto simp: uncached_get_def resolve_setting_def or_default_def bindE_def split: sum.splits)
  obtain s2 where s2: "settings_invariant env s2" "sy_db s2 = sy_db s" "sy_stale_values s2 = sy_stale_values s"
    "rg_generations r = sy_generations s2" "rg_definitions r = sy_definitions s2 p"
    using registry_get_definitions[OF I get] by blast
  obtain d r3 where fetch: "get_definition (sy_db s) key r = (d, r3)" by (metis surj_pair)
  have "fst (get_definition (sy_db s) key r) = fst (get_definition (sy_db s) key (view p s2))"
    by (rule get_definition_local) (simp_all add: s2(4,5))
  then obtain r4 where "get_definition (sy_db s2) key (view p s2) = (d, r4)"
    using fetch s2(2) by (metis prod.collapse fst_conv)
  from fetched_definition[OF s2(1) this] clean s2 have d: "d = find_definition (sy_db s) key" by simp
  show ?thesis
    unfolding settings_get_def settings_lookup_def None get res get_definition_default_def
    by (simp add: fetch d bindE_def Let_def split: sum.split option.split)
qed

text \<open>The service answers as its documented order of sources applied to the database.\<close>

theorem settings_chain_refines_sources:
  assumes "settings_reachable env s" "key \<notin> sy_stale_values s"
  shows "fst (settings_get env dc (sy_db s) (sy_now s) key dflt ids (view process s))
           = settings_lookup env dc (sy_db s) key dflt ids"
  by (rule settings_get_lookup[OF settings_reachable_invariant[OF assms(1)] assms(2)])

section \<open>Well-formed tables\<close>

text \<open>The constraints of the database: unique keys, one value per definition and target, and no value
  without its definition.\<close>

definition tables_ok :: "settings_db \<Rightarrow> bool" where
  "tables_ok db \<longleftrightarrow> distinct (map df_pk (sd_definitions db)) \<and> distinct (map df_key (sd_definitions db))
     \<and> distinct (map sg_pk (sd_settings db))
     \<and> distinct (map (\<lambda>x. (sg_definition x, sg_ids x)) (sd_settings db))
     \<and> (\<forall>x \<in> set (sd_settings db). sg_definition x \<in> df_pk ` set (sd_definitions db))"

text \<open>What the forms maintain on top: every default and every value parses, every value has the scope
  of its definition.\<close>

definition value_ok :: "settings_env \<Rightarrow> setting_definition \<Rightarrow> setting \<Rightarrow> bool" where
  "value_ok env d x \<longleftrightarrow> matches_definition_scope (df_scope d) (sg_ids x) \<and> \<not> isl (parse_value env d (sg_value x))"

definition overrides_ok :: "settings_env \<Rightarrow> settings_db \<Rightarrow> bool" where
  "overrides_ok env db \<longleftrightarrow> tables_ok db
     \<and> (\<forall>d \<in> set (sd_definitions db). \<not> isl (parse_value env d (df_default d)))
     \<and> (\<forall>d \<in> set (sd_definitions db). \<forall>x \<in> set (sd_settings db). sg_definition x = df_pk d \<longrightarrow> value_ok env d x)"

text \<open>The same with another condition \<open>fit\<close> on a stored value.\<close>

definition overrides_sat :: "settings_env \<Rightarrow> (setting_definition \<Rightarrow> setting \<Rightarrow> bool) \<Rightarrow> settings_db \<Rightarrow> bool" where
  "overrides_sat env fit db \<longleftrightarrow> tables_ok db
     \<and> (\<forall>d \<in> set (sd_definitions db). \<not> isl (parse_value env d (df_default d)))
     \<and> (\<forall>d \<in> set (sd_definitions db). \<forall>x \<in> set (sd_settings db). sg_definition x = df_pk d \<longrightarrow> fit d x)"

text \<open>The texts that the forms can store although the definition cannot read them: a flag of the quick form under
  a definition that is no flag, a number of it under a list of choices, and a choice from a group of options.\<close>

definition misfit :: "setting_definition \<Rightarrow> string \<Rightarrow> bool" where
  "misfit d raw \<longleftrightarrow>
     df_scope d = ''manufacturer'' \<and> df_key d \<in> set flag_fields \<and> df_type d \<in> {''integer'', ''choices''}
       \<and> raw \<in> {''True'', ''False''}
   \<or> df_scope d = ''manufacturer'' \<and> df_key d \<in> fst ` set number_fields \<and> df_type d = ''choices''
       \<and> int_of_text raw \<noteq> None
   \<or> df_type d = ''choices'' \<and> \<not> plain_labels (df_choices d)"

definition readable_or_misfit :: "settings_env \<Rightarrow> setting_definition \<Rightarrow> setting \<Rightarrow> bool" where
  "readable_or_misfit env d x \<longleftrightarrow> matches_definition_scope (df_scope d) (sg_ids x)
     \<and> (\<not> isl (parse_value env d (sg_value x)) \<or> misfit d (sg_value x))"

lemma find_unique:
  assumes "distinct (map f xs)" "x \<in> set xs"
  shows "find (\<lambda>y. f y = f x) xs = Some x"
  using assms by (induction xs) auto

lemma filter_unique:
  assumes "distinct (map f xs)" "x \<in> set xs"
  shows "filter (\<lambda>y. f y = f x) xs = [x]"
  using assms
proof (induction xs)
  case (Cons y ys)
  then show ?case
  proof (cases "y = x")
    case True
    with Cons.prems have "f x \<notin> f ` set ys" by simp
    then have "\<forall>z \<in> set ys. f z \<noteq> f x" by (metis image_eqI)
    with True show ?thesis by (simp add: filter_empty_conv)
  next
    case False
    with Cons have "x \<in> set ys" "f y \<noteq> f x" by auto
    with Cons show ?thesis by simp
  qed
qed simp

lemma qs_get_unique:
  assumes "distinct (map f xs)"
  shows "qs_get (\<lambda>y. f y = k) xs = (case find (\<lambda>y. f y = k) xs of None \<Rightarrow> Inl DoesNotExist | Some y \<Rightarrow> Inr y)"
proof (cases "find (\<lambda>y. f y = k) xs")
  case None
  then have "filter (\<lambda>y. f y = k) xs = []" by (simp add: find_None_iff filter_empty_conv)
  with None show ?thesis by (simp add: qs_get_def)
next
  case (Some y)
  then have "y \<in> set xs" "f y = k" by (auto simp: find_Some_iff)
  with filter_unique[OF assms] have "filter (\<lambda>y. f y = k) xs = [y]" by blast
  with Some show ?thesis by (simp add: qs_get_def)
qed

lemma override_row:
  assumes "tables_ok db"
  shows "qs_get (\<lambda>x. sg_definition x = pk \<and> sg_ids x = ids) (sd_settings db)
    = (case find (\<lambda>x. sg_definition x = pk \<and> sg_ids x = ids) (sd_settings db) of
         None \<Rightarrow> Inl DoesNotExist | Some x \<Rightarrow> Inr x)"
  using qs_get_unique[of "\<lambda>x. (sg_definition x, sg_ids x)" "sd_settings db" "(pk, ids)"] assms
  by (simp add: tables_ok_def)

lemma find_definition_unique:
  assumes "tables_ok db" "d \<in> set (sd_definitions db)"
  shows "find_definition db (df_key d) = Some d"
    and "find (\<lambda>e. df_pk e = df_pk d) (sd_definitions db) = Some d"
  using assms find_unique[of df_key "sd_definitions db" d] find_unique[of df_pk "sd_definitions db" d]
  by (simp_all add: tables_ok_def find_definition_def)

text \<open>Over well-formed tables every read answers.\<close>

lemma resolve_scoped_total:
  assumes "overrides_ok env db"
  shows "\<not> isl (resolve_scoped_value env db (find_definition db key) ids)"
proof (cases "find_definition db key")
  case None
  then show ?thesis by (simp add: resolve_scoped_value_def)
next
  case (Some d)
  then have d: "d \<in> set (sd_definitions db)" by (auto simp: find_definition_def find_Some_iff)
  have t: "tables_ok db" using assms by (simp add: overrides_ok_def)
  show ?thesis
  proof (cases "scope_filter d ids")
    case None
    with Some show ?thesis by (simp add: resolve_scoped_value_def)
  next
    case target: (Some target)
    show ?thesis
    proof (cases "find (\<lambda>x. sg_definition x = df_pk d \<and> sg_ids x = target) (sd_settings db)")
      case None
      with Some target override_row[OF t] show ?thesis by (simp add: resolve_scoped_value_def)
    next
      case row: (Some x)
      then have x: "x \<in> set (sd_settings db)" "sg_definition x = df_pk d" by (auto simp: find_Some_iff)
      with assms d have "\<not> isl (parse_value env d (sg_value x))" by (simp add: overrides_ok_def value_ok_def)
      with Some target row x override_row[OF t] find_definition_unique(2)[OF t d] show ?thesis
        by (simp add: resolve_scoped_value_def get_parsed_value_def)
    qed
  qed
qed

lemma definition_default_total:
  assumes "overrides_ok env db"
  shows "\<not> isl (definition_default env (find_definition db key))"
proof (cases "find_definition db key")
  case (Some d)
  then have "d \<in> set (sd_definitions db)" by (auto simp: find_definition_def find_Some_iff)
  with assms have "\<not> isl (parse_value env d (df_default d))" by (simp add: overrides_ok_def)
  then show ?thesis using Some by (cases "parse_value env d (df_default d)") (simp_all add: definition_default_def)
qed (simp add: definition_default_def)

lemma settings_lookup_total:
  assumes "overrides_ok env db"
  shows "\<exists>v. settings_lookup env dc db key dflt ids = Inr v"
proof -
  obtain v where v: "resolve_scoped_value env db (find_definition db key) ids = Inr v"
    using resolve_scoped_total[OF assms, of key ids] by (metis isl_def sum.exhaust)
  obtain x where x: "definition_default env (find_definition db key) = Inr x"
    using definition_default_total[OF assms, of key] by (metis isl_def sum.exhaust)
  show ?thesis by (simp add: settings_lookup_def v x split: option.split)
qed

section \<open>Edits keep the tables well-formed\<close>

text \<open>Replacing or appending one row by its key.\<close>

lemma tables_okD:
  assumes "tables_ok db"
  shows "distinct (map df_pk (sd_definitions db))" "distinct (map df_key (sd_definitions db))"
    "distinct (map sg_pk (sd_settings db))" "distinct (map (\<lambda>x. (sg_definition x, sg_ids x)) (sd_settings db))"
    "x \<in> set (sd_settings db) \<Longrightarrow> sg_definition x \<in> df_pk ` set (sd_definitions db)"
  using assms unfolding tables_ok_def by blast+

lemma tables_okI:
  assumes "distinct (map df_pk (sd_definitions db))" "distinct (map df_key (sd_definitions db))"
    "distinct (map sg_pk (sd_settings db))" "distinct (map (\<lambda>x. (sg_definition x, sg_ids x)) (sd_settings db))"
    "\<And>x. x \<in> set (sd_settings db) \<Longrightarrow> sg_definition x \<in> df_pk ` set (sd_definitions db)"
  shows "tables_ok db"
  using assms unfolding tables_ok_def by blast

lemma set_save_row: "set (save_row pk x rows) \<subseteq> insert x (set rows)" "x \<in> set (save_row pk x rows)"
  by (auto simp: save_row_def list_ex_iff image_iff)

lemma keys_save_row: "pk ` set (save_row pk x rows) = insert (pk x) (pk ` set rows)"
proof -
  have "pk y \<in> pk ` set (save_row pk x rows)" if "y \<in> set rows" for y
    using that by (auto simp: save_row_def image_iff)
  with set_save_row[where x = x and pk = pk and rows = rows] show ?thesis by auto
qed

lemma distinct_save_row:
  assumes "distinct (map pk rows)" "distinct (map k rows)"
    and "\<forall>y \<in> set rows. pk y \<noteq> pk x \<longrightarrow> k y \<noteq> k x"
  shows "distinct (map k (save_row pk x rows))"
proof (cases "list_ex (\<lambda>y. pk y = pk x) rows")
  case False
  with assms have "k x \<notin> k ` set rows" unfolding list_ex_iff by (metis imageE)
  with False assms(2) show ?thesis by (simp add: save_row_def)
next
  case True
  have "distinct (map (\<lambda>y. k (if pk y = pk x then x else y)) rows)"
    using assms
  proof (induction rows)
    case (Cons y ys)
    have fresh: "pk y \<notin> pk ` set ys" "k y \<notin> k ` set ys" using Cons.prems by simp_all
    have "k (if pk y = pk x then x else y) \<noteq> k (if pk z = pk x then x else z)" if z: "z \<in> set ys" for z
    proof -
      have "pk z \<noteq> pk y" "k z \<noteq> k y" using fresh z by (metis image_eqI)+
      then show ?thesis using Cons.prems(3) z by auto
    qed
    then have "k (if pk y = pk x then x else y) \<notin> (\<lambda>y. k (if pk y = pk x then x else y)) ` set ys" by blast
    moreover have "distinct (map (\<lambda>y. k (if pk y = pk x then x else y)) ys)"
      using Cons by simp
    ultimately show ?case by (simp only: list.map distinct.simps set_map) simp
  qed simp
  with True show ?thesis by (simp add: save_row_def comp_def)
qed

lemma put_setting_tables:
  assumes t: "tables_ok db" and d: "d \<in> set (sd_definitions db)" "sg_definition x = df_pk d"
    and only: "\<forall>y \<in> set (sd_settings db). sg_pk y \<noteq> sg_pk x \<longrightarrow> (sg_definition y, sg_ids y) \<noteq> (sg_definition x, sg_ids x)"
  shows "tables_ok (put_setting x db)"
proof (rule tables_okI)
  have rows: "set (sd_settings (put_setting x db)) \<subseteq> insert x (set (sd_settings db))"
    using set_save_row(1) by (fastforce simp: put_setting_def)
  have defs: "sd_definitions (put_setting x db) = sd_definitions db" by (simp add: put_setting_def)
  show "distinct (map df_pk (sd_definitions (put_setting x db)))" "distinct (map df_key (sd_definitions (put_setting x db)))"
    using tables_okD(1,2)[OF t] by (simp_all add: defs)
  show "distinct (map sg_pk (sd_settings (put_setting x db)))"
    using tables_okD[OF t] by (simp add: put_setting_def distinct_save_row)
  show "distinct (map (\<lambda>x. (sg_definition x, sg_ids x)) (sd_settings (put_setting x db)))"
    using tables_okD(3,4)[OF t] only distinct_save_row[of sg_pk "sd_settings db" "\<lambda>x. (sg_definition x, sg_ids x)" x]
    by (simp add: put_setting_def)
  fix y assume y: "y \<in> set (sd_settings (put_setting x db))"
  show "sg_definition y \<in> df_pk ` set (sd_definitions (put_setting x db))"
  proof (cases "y = x")
    case True
    with d show ?thesis by (simp add: defs)
  next
    case False
    with y rows have "y \<in> set (sd_settings db)" by blast
    with tables_okD(5)[OF t] show ?thesis by (simp add: defs)
  qed
qed

lemma put_setting_ok:
  assumes ok: "overrides_sat env fit db" and d: "d \<in> set (sd_definitions db)" "sg_definition x = df_pk d"
    and v: "fit d x"
    and only: "\<forall>y \<in> set (sd_settings db). sg_pk y \<noteq> sg_pk x \<longrightarrow> (sg_definition y, sg_ids y) \<noteq> (sg_definition x, sg_ids x)"
  shows "overrides_sat env fit (put_setting x db)"
proof -
  have t: "tables_ok db" using ok by (simp add: overrides_sat_def)
  have rows: "set (sd_settings (put_setting x db)) \<subseteq> insert x (set (sd_settings db))"
    using set_save_row(1) by (fastforce simp: put_setting_def)
  have defs: "sd_definitions (put_setting x db) = sd_definitions db" by (simp add: put_setting_def)
  note t' = put_setting_tables[OF t d only]
  have own: "e = d" if "e \<in> set (sd_definitions db)" "df_pk e = df_pk d" for e
    using find_definition_unique(2)[OF t that(1), unfolded that(2)] find_definition_unique(2)[OF t d(1)] by (metis option.inject)
  have "fit e y"
    if "e \<in> set (sd_definitions db)" "y \<in> set (sd_settings (put_setting x db))" "sg_definition y = df_pk e" for e y
  proof (cases "y = x")
    case True
    have "e = d" by (rule own[OF that(1)]) (rule trans[OF that(3)[symmetric, unfolded True] d(2)])
    with True v show ?thesis by (simp only:)
  next
    case False
    with that rows have "y \<in> set (sd_settings db)" by blast
    with ok that show ?thesis by (simp add: overrides_sat_def)
  qed
  with ok t' show ?thesis unfolding overrides_sat_def defs by blast
qed

lemma drop_settings_ok: "overrides_sat env fit db \<Longrightarrow> overrides_sat env fit (drop_settings pks db)"
  by (auto simp: overrides_sat_def tables_ok_def drop_settings_def distinct_map_filter)

lemma drop_definitions_ok: "overrides_sat env fit db \<Longrightarrow> overrides_sat env fit (drop_definitions pks db)"
  by (auto simp: overrides_sat_def tables_ok_def drop_definitions_def distinct_map_filter image_iff) metis

text \<open>\<open>SettingDefinition.clean\<close> without errors is what a definition edit needs.\<close>

lemma accepted_definition:
  assumes "definition_errors env db True d = []"
  shows "\<not> isl (parse_value env d (df_default d))"
    and "x \<in> set (sd_settings db) \<Longrightarrow> sg_definition x = df_pk d \<Longrightarrow> value_ok env d x"
  using assms
  by (auto simp: definition_errors_def validate_existing_overrides_def value_ok_def Let_def list_ex_iff
      overrides_of_def split: if_splits)

lemma put_definition_ok:
  assumes ok: "overrides_sat env fit db"
    and accepted: "definition_errors env db (df_pk d \<in> df_pk ` set (sd_definitions db)) d = []"
    and key: "\<forall>e \<in> set (sd_definitions db). df_pk e \<noteq> df_pk d \<longrightarrow> df_key e \<noteq> df_key d"
    and fit: "\<And>e y. value_ok env e y \<Longrightarrow> fit e y"
  shows "overrides_sat env fit (put_definition d db)"
proof -
  have t: "tables_ok db" using ok by (simp add: overrides_sat_def)
  have sets: "sd_settings (put_definition d db) = sd_settings db" by (simp add: put_definition_def)
  have defs: "set (sd_definitions (put_definition d db)) \<subseteq> insert d (set (sd_definitions db))"
    using set_save_row(1) by (fastforce simp: put_definition_def)
  have pks: "df_pk ` set (sd_definitions (put_definition d db)) = insert (df_pk d) (df_pk ` set (sd_definitions db))"
    by (simp add: put_definition_def keys_save_row)
  have dflt: "\<not> isl (parse_value env d (df_default d))"
    using accepted by (auto simp: definition_errors_def split: if_splits)
  have "distinct (map df_pk (sd_definitions (put_definition d db)))"
    "distinct (map df_key (sd_definitions (put_definition d db)))"
    using t key by (simp_all add: put_definition_def tables_ok_def distinct_save_row)
  then have t': "tables_ok (put_definition d db)"
    by (rule tables_okI) (use tables_okD[OF t] pks in \<open>auto simp: sets\<close>)
  have own: "fit d x" if x: "x \<in> set (sd_settings db)" "sg_definition x = df_pk d" for x
  proof -
    have "df_pk d \<in> df_pk ` set (sd_definitions db)" using tables_okD(5)[OF t x(1)] x(2) by simp
    with accepted accepted_definition(2)[of env db d x] x fit show ?thesis by simp
  qed
  show ?thesis
    unfolding overrides_sat_def sets
  proof (intro conjI ballI impI t')
    fix e assume "e \<in> set (sd_definitions (put_definition d db))"
    then have e: "e = d \<or> e \<in> set (sd_definitions db)" using defs by blast
    with ok dflt show "\<not> isl (parse_value env e (df_default e))" by (auto simp: overrides_sat_def)
    show "fit e x" if "x \<in> set (sd_settings db)" "sg_definition x = df_pk e" for x
      using e ok own that by (auto simp: overrides_sat_def)
  qed
qed

text \<open>\<open>update_or_create\<close> saves one row: the stored one with the new text, or a new one.\<close>

definition upserted_row :: "settings_env \<Rightarrow> settings_db \<Rightarrow> setting_definition \<Rightarrow> scope_ids \<Rightarrow> json \<Rightarrow> setting" where
  "upserted_row env db d target v =
     (case find (\<lambda>x. sg_definition x = df_pk d \<and> sg_ids x = target) (sd_settings db) of
        None \<Rightarrow> \<lparr>sg_pk = next_pk sg_pk (sd_settings db), sg_definition = df_pk d, sg_ids = target,
                 sg_value = serialize_value env d v\<rparr>
      | Some x \<Rightarrow> x\<lparr>sg_value := serialize_value env d v\<rparr>)"

lemma upserted_row_sel [simp]:
  "sg_definition (upserted_row env db d target v) = df_pk d" "sg_ids (upserted_row env db d target v) = target"
  "sg_value (upserted_row env db d target v) = serialize_value env d v"
  by (auto simp: upserted_row_def find_Some_iff split: option.split)

lemma upserted_row_key:
  assumes t: "tables_ok db"
    and y: "y \<in> set (sd_settings db)"
  shows "sg_pk y = sg_pk (upserted_row env db d target v) \<longleftrightarrow> sg_definition y = df_pk d \<and> sg_ids y = target"
proof (cases "find (\<lambda>x. sg_definition x = df_pk d \<and> sg_ids x = target) (sd_settings db)")
  case None
  then have "\<not> (sg_definition y = df_pk d \<and> sg_ids y = target)" using y by (auto simp: find_None_iff)
  moreover have "sg_pk y \<noteq> next_pk sg_pk (sd_settings db)" using next_pk_fresh[OF y] by (metis less_irrefl)
  ultimately show ?thesis using None by (auto simp: upserted_row_def)
next
  case (Some x)
  then have x: "x \<in> set (sd_settings db)" "sg_definition x = df_pk d" "sg_ids x = target" by (auto simp: find_Some_iff)
  have "sg_pk y = sg_pk x \<longleftrightarrow> y = x" using inj_onD[OF distinct_map[THEN iffD1, OF tables_okD(3)[OF t], THEN conjunct2] _ y x(1)] by blast
  moreover have "(sg_definition y, sg_ids y) = (sg_definition x, sg_ids x) \<longleftrightarrow> y = x"
    using inj_onD[OF distinct_map[THEN iffD1, OF tables_okD(4)[OF t], THEN conjunct2] _ y x(1)] by blast
  ultimately show ?thesis using Some x(2,3) by (simp add: upserted_row_def)
qed

lemma upsert_put:
  assumes t: "tables_ok db"
  shows "upsert_setting env db d target v = Inr (put_setting (upserted_row env db d target v) db)"
proof (cases "find (\<lambda>x. sg_definition x = df_pk d \<and> sg_ids x = target) (sd_settings db)")
  case None
  have "\<not> list_ex (\<lambda>y. sg_pk y = next_pk sg_pk (sd_settings db)) (sd_settings db)"
    unfolding list_ex_iff using next_pk_fresh by (metis less_irrefl)
  with None override_row[OF t] show ?thesis
    by (simp add: upsert_setting_def upserted_row_def put_setting_def save_row_def)
next
  case (Some x)
  then have x: "x \<in> set (sd_settings db)" by (auto simp: find_Some_iff)
  have "y\<lparr>sg_value := w\<rparr> = x\<lparr>sg_value := w\<rparr>" if "y \<in> set (sd_settings db)" "sg_pk y = sg_pk x" for y w
    using inj_onD[OF distinct_map[THEN iffD1, OF tables_okD(3)[OF t], THEN conjunct2] that(2) that(1) x] by simp
  then have "map (\<lambda>y. if sg_pk y = sg_pk x then y\<lparr>sg_value := w\<rparr> else y) (sd_settings db)
    = map (\<lambda>y. if sg_pk y = sg_pk x then x\<lparr>sg_value := w\<rparr> else y) (sd_settings db)" for w
    by (intro map_cong) auto
  moreover have "list_ex (\<lambda>y. sg_pk y = sg_pk x) (sd_settings db)" using x by (auto simp: list_ex_iff)
  ultimately show ?thesis
    using Some override_row[OF t] by (simp add: upsert_setting_def upserted_row_def put_setting_def save_row_def)
qed

lemma upsert_ok:
  assumes ok: "overrides_sat env fit db" and d: "d \<in> set (sd_definitions db)"
    and row: "fit d (upserted_row env db d target v)"
  shows "overrides_sat env fit (put_setting (upserted_row env db d target v) db)"
proof (rule put_setting_ok[OF ok d _ row])
  have t: "tables_ok db" using ok by (simp add: overrides_sat_def)
  show "\<forall>y \<in> set (sd_settings db). sg_pk y \<noteq> sg_pk (upserted_row env db d target v)
      \<longrightarrow> (sg_definition y, sg_ids y) \<noteq> (sg_definition (upserted_row env db d target v), sg_ids (upserted_row env db d target v))"
    using upserted_row_key[OF t] by simp
qed simp

lemma upsert_tables:
  assumes t: "tables_ok db" and d: "d \<in> set (sd_definitions db)"
  shows "tables_ok (put_setting (upserted_row env db d target v) db)"
  by (rule put_setting_tables[OF t d]) (simp_all add: upserted_row_key[OF t])

text \<open>The rows of other definitions and targets.\<close>

lemma filter_save_row:
  assumes "\<not> P x" "\<And>y. y \<in> set rows \<Longrightarrow> pk y = pk x \<Longrightarrow> \<not> P y"
  shows "filter P (save_row pk x rows) = filter P rows"
proof -
  have "filter P (map (\<lambda>y. if pk y = pk x then x else y) rows) = filter P rows"
    using assms by (induction rows) auto
  with assms(1) show ?thesis by (simp add: save_row_def)
qed

lemma upsert_frame:
  assumes "tables_ok db" "\<And>y. sg_definition y = df_pk d \<Longrightarrow> sg_ids y = target \<Longrightarrow> \<not> P y"
  shows "filter P (sd_settings (put_setting (upserted_row env db d target v) db)) = filter P (sd_settings db)"
  unfolding put_setting_def
  using assms upserted_row_key[OF assms(1)]
  by (simp, intro filter_save_row) auto

text \<open>The standard definitions are added one by one with new keys.\<close>

lemma create_missing_ok:
  assumes ok: "overrides_sat env fit db" and fit: "\<And>e y. value_ok env e y \<Longrightarrow> fit e y" and new: "\<forall>e \<in> set (sd_definitions db). df_pk e < pk"
    and dflt: "\<not> isl (parse_value env d (df_default d))" and kind: "df_type d \<noteq> ''choices''"
    and made: "create_missing d (db, pk, n) = (db', pk', n')"
  shows "overrides_sat env fit db' \<and> (\<forall>e \<in> set (sd_definitions db'). df_pk e < pk')"
proof (cases "find_definition db (df_key d)")
  case (Some e)
  with made ok new show ?thesis by (simp add: create_missing_def)
next
  case None
  let ?d = "d\<lparr>df_pk := pk\<rparr>"
  have "\<not> list_ex (\<lambda>e. df_pk e = pk) (sd_definitions db)" using new by (auto simp: list_ex_iff)
  then have db': "db' = put_definition ?d db" "pk' = Suc pk"
    using made None by (auto simp: create_missing_def put_definition_def save_row_def)
  have unused: "pk \<notin> df_pk ` set (sd_definitions db)" using new by (metis imageE less_irrefl)
  have "parse_value env ?d raw = parse_value env d raw" for raw by (simp add: parse_value_def)
  then have "definition_errors env db False ?d = []" using dflt kind by (simp add: definition_errors_def)
  moreover have "\<forall>e \<in> set (sd_definitions db). df_key e \<noteq> df_key d"
    using None by (auto simp: find_definition_def find_None_iff)
  ultimately have "overrides_sat env fit db'"
    unfolding db' using unused by (intro put_definition_ok[OF ok _ _ fit]) simp_all
  moreover have "set (sd_definitions db') \<subseteq> insert ?d (set (sd_definitions db))"
    using set_save_row(1) by (fastforce simp: db' put_definition_def)
  ultimately show ?thesis using new db'(2) by (auto simp: less_Suc_eq)
qed

lemma standard_defaults_parse: "\<forall>d \<in> set standard_definitions. \<not> isl (parse_value env d (df_default d)) \<and> df_type d \<noteq> ''choices''"
proof -
  have ints: "int_of_text ''90'' \<noteq> None" "int_of_text ''20'' \<noteq> None" "int_of_text ''0'' \<noteq> None"
    "int_of_text ''300'' \<noteq> None" "int_of_text ''30'' \<noteq> None" "int_of_text ''100'' \<noteq> None"
    "int_of_text ''60'' \<noteq> None" "int_of_text ''50'' \<noteq> None" "int_of_text ''1440'' \<noteq> None" "int_of_text ''5'' \<noteq> None"
    by code_simp+
  have bools: "boolean_of_text ''true'' = Some True" "boolean_of_text ''false'' = Some False" by code_simp+
  show ?thesis
    using ints by (auto simp: standard_definitions_def standard_def parse_value_def value_or_error_def bools)
qed

lemma initialize_definitions_ok:
  assumes "overrides_sat env fit db" "\<forall>e \<in> set (sd_definitions db). df_pk e < pk"
    and fit: "\<And>e y. value_ok env e y \<Longrightarrow> fit e y"
  shows "overrides_sat env fit (fst (initialize_definitions pk db))"
proof -
  have "overrides_sat env fit (fst (fold create_missing ds st)) \<and> (\<forall>e \<in> set (sd_definitions (fst (fold create_missing ds st))). df_pk e < fst (snd (fold create_missing ds st)))"
    if "overrides_sat env fit (fst st)" "\<forall>e \<in> set (sd_definitions (fst st)). df_pk e < fst (snd st)"
      "\<forall>d \<in> set ds. \<not> isl (parse_value env d (df_default d)) \<and> df_type d \<noteq> ''choices''" for ds st
    using that
  proof (induction ds arbitrary: st)
    case (Cons d ds)
    obtain db0 pk0 n0 where st: "st = (db0, pk0, n0)" by (metis prod_cases3)
    obtain db1 pk1 n1 where made: "create_missing d (db0, pk0, n0) = (db1, pk1, n1)" by (metis prod_cases3)
    from create_missing_ok[OF _ fit _ _ _ made] Cons.prems
    have "overrides_sat env fit db1 \<and> (\<forall>e \<in> set (sd_definitions db1). df_pk e < pk1)" by (simp add: st)
    with Cons.IH[of "(db1, pk1, n1)"] Cons.prems(3) show ?case by (simp add: st made)
  qed simp
  from this[of "(db, pk, 0)" standard_definitions] assms standard_defaults_parse[of env] show ?thesis
    by (simp add: initialize_definitions_def)
qed

text \<open>What the JSON of Python guarantees for a value written to a \<open>json\<close> setting.\<close>

definition json_ok :: "settings_env \<Rightarrow> setting_definition \<Rightarrow> json \<Rightarrow> bool" where
  "json_ok env d v \<longleftrightarrow> (df_type d = ''json'' \<longrightarrow> se_loads env (se_dumps env v) = Some v)"

text \<open>And in general: what was loaded, a whole number and a truth value survive \<open>json.dumps\<close> and \<open>json.loads\<close>.\<close>

definition json_laws :: "settings_env \<Rightarrow> bool" where
  "json_laws env \<longleftrightarrow>
     (\<forall>raw v. se_loads env raw = Some v \<longrightarrow> se_loads env (se_dumps env v) = Some v)
   \<and> (\<forall>raw n. int_of_text raw = Some n \<longrightarrow> se_loads env (se_dumps env (JInt n)) = Some (JInt n))
   \<and> (\<forall>b. se_loads env (se_dumps env (JBool b)) = Some (JBool b))"

text \<open>Every edit that the admin, the two forms and the command make.  A form is shown and saved over the same
  definitions; what is posted, by whom and under which scope is arbitrary.\<close>

inductive settings_edit :: "settings_env \<Rightarrow> (json \<Rightarrow> string \<Rightarrow> bool) \<Rightarrow> settings_db \<Rightarrow> settings_db \<Rightarrow> bool"
  for env grouped where
  saves_definition:
    "definition_form_errors env db (find (\<lambda>e. df_pk e = df_pk d) (sd_definitions db)) d = []
     \<Longrightarrow> \<forall>e \<in> set (sd_definitions db). df_pk e \<noteq> df_pk d \<longrightarrow> df_key e \<noteq> df_key d
     \<Longrightarrow> settings_edit env grouped db (put_definition d db)"
| deletes_definitions: "settings_edit env grouped db (drop_definitions pks db)"
| saves_setting:
    "d \<in> set (sd_definitions db)
     \<Longrightarrow> clean_value_form env v old d ids text0 = Inr raw \<Longrightarrow> raw \<noteq> []
     \<Longrightarrow> \<forall>y \<in> set (sd_settings db). sg_pk y \<noteq> pk \<longrightarrow> (sg_definition y, sg_ids y) \<noteq> (df_pk d, ids)
     \<Longrightarrow> settings_edit env grouped db (put_setting \<lparr>sg_pk = pk, sg_definition = df_pk d, sg_ids = ids, sg_value = raw\<rparr> db)"
| deletes_settings: "settings_edit env grouped db (drop_settings pks db)"
| saves_bulk_form:
    "sy_db s = db \<Longrightarrow> submit_bulk env grouped installed v db post = Inr f
     \<Longrightarrow> save_settings env tok p v (bulk_request f) s = Inr (res, s') \<Longrightarrow> settings_edit env grouped db (sy_db s')"
| saves_quick_form:
    "sy_db s = db \<Longrightarrow> submit_quick texts = Inr cleaned
     \<Longrightarrow> save_settings env tok p v (manufacturer_request m cleaned) s = Inr (res, s')
     \<Longrightarrow> settings_edit env grouped db (sy_db s')"
| initializes: "\<forall>e \<in> set (sd_definitions db). df_pk e < pk
     \<Longrightarrow> settings_edit env grouped db (fst (initialize_definitions pk (if reset then reset_definitions db else db)))"


lemma definitions_forD:
  "d \<in> set (definitions_for db rq) \<Longrightarrow> d \<in> set (sd_definitions db) \<and> df_active d \<and> df_scope d = wq_scope rq"
  by (auto simp: definitions_for_def Let_def)

lemma item_definitionD: "item_definition ds it = Some d \<Longrightarrow> d \<in> set ds"
  by (auto simp: item_definition_def find_Some_iff split: option.splits)

text \<open>What a field accepts is stored as a text that its definition reads, except for the misfits.\<close>

lemma clean_setting_field_typed:
  assumes "clean_setting_field env grouped d text0 = Inr v" "\<not> blank v" "json_laws env"
    and "df_type d = ''choices'' \<Longrightarrow> plain_labels (df_choices d)"
  shows "well_typed d v \<and> json_ok env d v"
  using assms int_of_text_bound[of "strip_decimal text0"]
  by (auto simp: clean_setting_field_def clean_flag_def clean_integer_def clean_choice_def blank_def well_typed_def
      json_ok_def json_laws_def split: if_splits option.splits)

lemma bulk_value_stored:
  assumes "clean_setting_field env grouped d text0 = Inr v" "\<not> blank v" "json_laws env"
  shows "\<not> isl (parse_value env d (serialize_value env d v)) \<or> misfit d (serialize_value env d v)"
proof (cases "df_type d = ''choices'' \<and> \<not> plain_labels (df_choices d)")
  case True
  then show ?thesis by (simp add: misfit_def)
next
  case False
  with clean_setting_field_typed[OF assms] have "well_typed d v" "json_ok env d v" by blast+
  with value_roundtrip[of d v env] show ?thesis by (simp add: json_ok_def)
qed

lemma clean_quick_cases:
  assumes "clean_quick_field name text0 = Inr v" "\<not> blank v" "name \<in> set manufacturer_fields"
  obtains (number) n raw where "v = JInt n" "int_of_text raw = Some n" "name \<in> fst ` set number_fields"
  | (flag) b where "v = JBool b" "name \<in> set flag_fields"
proof (cases "map_of number_fields name")
  case None
  then have "name \<notin> fst ` set number_fields" by (simp add: map_of_eq_None_iff)
  with assms(3) have "name \<in> set flag_fields"
    by (auto simp: manufacturer_fields_def number_fields_def flag_fields_def)
  moreover from None assms(1,2) obtain b where "v = JBool b"
    by (auto simp: clean_quick_field_def clean_flag_def blank_def split: if_splits)
  ultimately show thesis by (intro flag)
next
  case (Some bounds)
  then have "name \<in> fst ` set number_fields" by (metis domI dom_map_of_conv_image_fst)
  moreover from Some assms(1,2) obtain n where "v = JInt n" "int_of_text (strip_decimal text0) = Some n"
    by (auto simp: clean_quick_field_def clean_integer_def blank_def result_simps split: if_splits option.splits prod.splits)
  ultimately show thesis by (intro number)
qed

lemma quick_value_stored:
  assumes "clean_quick_field (df_key d) text0 = Inr v" "\<not> blank v" "df_key d \<in> set manufacturer_fields"
    and "df_scope d = ''manufacturer''" "json_laws env"
  shows "\<not> isl (parse_value env d (serialize_value env d v)) \<or> misfit d (serialize_value env d v)"
  using assms(1-3)
proof (cases rule: clean_quick_cases)
  case (number n raw)
  then have "int_of_text (int_text n) = Some n" by (intro int_of_int_text int_of_text_bound)
  moreover have "se_loads env (se_dumps env (JInt n)) = Some (JInt n)" using number assms(5) by (auto simp: json_laws_def)
  moreover have "boolean_of_text ''true'' = Some True" "boolean_of_text ''false'' = Some False" by code_simp+
  ultimately show ?thesis
    using number assms(4) by (auto simp: misfit_def parse_value_def serialize_value_def value_or_error_def)
next
  case (flag b)
  have "se_loads env (se_dumps env (JBool b)) = Some (JBool b)" using assms(5) by (simp add: json_laws_def)
  moreover have "boolean_of_text ''true'' = Some True" "boolean_of_text ''false'' = Some False" by code_simp+
  ultimately show ?thesis
    using flag assms(4) by (auto simp: misfit_def parse_value_def serialize_value_def value_or_error_def)
qed

text \<open>A batch whose items store such texts.\<close>

definition items_fit ::
  "settings_env \<Rightarrow> setting_definition list \<Rightarrow> scope_ids \<Rightarrow> write_item list \<Rightarrow> bool"
where
  "items_fit env ds target its \<longleftrightarrow> (\<forall>it \<in> set its. \<forall>d. item_definition ds it = Some d \<longrightarrow>
     matches_definition_scope (df_scope d) target
     \<and> (\<not> isl (parse_value env d (serialize_value env d (wi_value it))) \<or> misfit d (serialize_value env d (wi_value it))))"

lemma invalidate_value_db [simp]: "sy_db (invalidate_value_cache tok p key s) = sy_db s"
  by (simp add: invalidate_value_cache_def renew_values_def draw_def Let_def)

lemma saved_item_fits:
  assumes ok: "overrides_sat env (readable_or_misfit env) (sy_db s)" and ds: "set ds \<subseteq> set (sd_definitions (sy_db s))"
    and its: "items_fit env ds target [it]"
    and saved: "save_item env tok p ds target it (res, s) = (res2, s2)"
  shows "overrides_sat env (readable_or_misfit env) (sy_db s2) \<and> sd_definitions (sy_db s2) = sd_definitions (sy_db s)"
proof (cases "item_definition ds it")
  case None
  with saved ok show ?thesis by (auto simp: save_item_def split: option.splits)
next
  case (Some d)
  have t: "tables_ok (sy_db s)" using ok by (simp add: overrides_sat_def)
  have d: "d \<in> set (sd_definitions (sy_db s))" using item_definitionD[OF Some] ds by blast
  let ?db = "put_setting (upserted_row env (sy_db s) d target (wi_value it)) (sy_db s)"
  have s2: "sy_db s2 = ?db"
    using saved Some upsert_put[OF t] by (auto simp: save_item_def commit_settings_def)
  have "readable_or_misfit env d (upserted_row env (sy_db s) d target (wi_value it))"
    using its Some by (simp add: items_fit_def readable_or_misfit_def)
  from upsert_ok[OF ok d this] show ?thesis by (simp add: s2) (simp add: put_setting_def)
qed

lemma saved_items_fit:
  assumes "overrides_sat env (readable_or_misfit env) (sy_db s)" "set ds \<subseteq> set (sd_definitions (sy_db s))"
    "items_fit env ds target its"
  shows "overrides_sat env (readable_or_misfit env) (sy_db (snd (fold (save_item env tok p ds target) its (res, s))))"
  using assms
proof (induction its arbitrary: res s)
  case (Cons it its)
  obtain res2 s2 where saved: "save_item env tok p ds target it (res, s) = (res2, s2)" by (metis surj_pair)
  have "overrides_sat env (readable_or_misfit env) (sy_db s2) \<and> sd_definitions (sy_db s2) = sd_definitions (sy_db s)"
    using Cons.prems by (intro saved_item_fits[OF _ _ _ saved]) (auto simp: items_fit_def)
  with Cons.IH[of s2 res2] Cons.prems saved show ?case by (simp add: items_fit_def)
qed simp

lemma saved_request_fits:
  assumes "overrides_sat env (readable_or_misfit env) (sy_db s)" "save_settings env tok p v rq s = Inr (res, s')"
    "items_fit env (definitions_for (sy_db s) rq) (wq_target rq) (wq_items rq)"
  shows "overrides_sat env (readable_or_misfit env) (sy_db s')"
proof -
  have "s' = snd (fold (save_item env tok p (definitions_for (sy_db s) rq) (wq_target rq)) (wq_items rq)
      (\<lparr>wr_saved = 0, wr_errors = []\<rparr>, s))"
    using assms(2) by (auto simp: save_settings_def split: if_splits)
  moreover have "set (definitions_for (sy_db s) rq) \<subseteq> set (sd_definitions (sy_db s))" using definitions_forD by blast
  ultimately show ?thesis using saved_items_fit[OF assms(1) _ assms(3)] by simp
qed

lemma bulk_target_scope:
  assumes "clean_bulk installed v f = Inr u" "bf_scope f = Some sc" "sc \<in> set (bulk_available_scopes installed v)"
  shows "matches_definition_scope sc (bulk_target f)"
proof -
  have "sc \<in> {''global'', ''organization'', ''site'', ''manufacturer''}"
    using assms(3) by (auto simp: bulk_available_scopes_def Let_def split: if_splits)
  with assms(1,2) show ?thesis
    by (elim insertE emptyE) (auto simp: clean_bulk_def bulk_target_def matches_definition_scope_def result_simps)
qed

lemma bulk_items_fit:
  assumes post: "submit_bulk env grouped installed v db post = Inr f" and t: "tables_ok db" and laws: "json_laws env"
  shows "items_fit env (definitions_for db (bulk_request f)) (wq_target (bulk_request f)) (wq_items (bulk_request f))"
  unfolding items_fit_def
proof (intro ballI allI impI)
  from post obtain cleaned u where scope: "bp_scope post \<in> set (bulk_available_scopes installed v)"
    and cleaned: "clean_bulk_values env grouped (bulk_fields db (bp_scope post)) (bp_texts post) = Inr cleaned"
    and f: "bf_scope f = Some (bp_scope post)" "bf_values f = cleaned" and ok: "clean_bulk installed v f = Inr u"
    by (auto simp: submit_bulk_def Let_def result_simps)
  fix it d assume it: "it \<in> set (wq_items (bulk_request f))"
    and d: "item_definition (definitions_for db (bulk_request f)) it = Some d"
  have d': "d \<in> set (sd_definitions db)" "df_scope d = bp_scope post"
    using definitions_forD[OF item_definitionD[OF d]] f by (simp_all add: bulk_request_def)
  from it obtain pk w where w: "(pk, w) \<in> set cleaned" "\<not> blank w" "wi_value it = w" "wi_definition it = Some pk"
    by (auto simp: bulk_request_def f)
  with d have pk: "df_pk d = pk" by (auto simp: item_definition_def find_Some_iff)
  from mapE_set[OF cleaned[unfolded clean_bulk_values_def] w(1)] obtain e
    where e: "e \<in> set (bulk_fields db (bp_scope post))" "clean_setting_field env grouped e (bp_texts post (df_pk e)) = Inr w" "df_pk e = pk"
    by (auto simp: result_simps)
  have "e = d"
    using find_definition_unique(2)[OF t, of e] find_definition_unique(2)[OF t d'(1)] e(1,3) pk
    by (simp add: bulk_fields_def)
  with e(2) have "clean_setting_field env grouped d (bp_texts post (df_pk e)) = Inr w" by simp
  from bulk_value_stored[OF this w(2) laws] bulk_target_scope[OF ok f(1) scope] d'(2) w(3)
  show "matches_definition_scope (df_scope d) (wq_target (bulk_request f))
     \<and> (\<not> isl (parse_value env d (serialize_value env d (wi_value it))) \<or> misfit d (serialize_value env d (wi_value it)))"
    by (simp add: bulk_request_def)
qed

lemma quick_items_fit:
  assumes texts: "submit_quick texts = Inr cleaned" and laws: "json_laws env"
  shows "items_fit env (definitions_for db (manufacturer_request m cleaned)) (wq_target (manufacturer_request m cleaned))
    (wq_items (manufacturer_request m cleaned))"
  unfolding items_fit_def
proof (intro ballI allI impI)
  from texts obtain vs where vs: "mapE (\<lambda>name. bindE (clean_quick_field name (texts name)) (\<lambda>v. Inr (name, v))) manufacturer_fields = Inr vs"
    and cleaned: "cleaned = map_of vs"
    by (auto simp: submit_quick_def result_simps)
  fix it d assume it: "it \<in> set (wq_items (manufacturer_request m cleaned))"
    and d: "item_definition (definitions_for db (manufacturer_request m cleaned)) it = Some d"
  have scope: "df_scope d = ''manufacturer''"
    using definitions_forD[OF item_definitionD[OF d]] by (simp add: manufacturer_request_def)
  from it obtain name w where w: "name \<in> set manufacturer_fields" "cleaned name = Some w" "\<not> blank w"
    "wi_value it = w" "wi_definition it = None" "wi_key it = Some name"
    by (auto simp: manufacturer_request_def map_filter_def split: option.splits if_splits)
  from d w have key: "df_key d = name" by (auto simp: item_definition_def find_Some_iff)
  have "(name, w) \<in> set vs" using w(2) cleaned by (simp add: map_of_SomeD)
  from mapE_set[OF vs this] have "clean_quick_field name (texts name) = Inr w" by (auto simp: result_simps)
  from quick_value_stored[of d, unfolded key, OF this w(3,1) scope laws] scope w(4)
  show "matches_definition_scope (df_scope d) (wq_target (manufacturer_request m cleaned))
     \<and> (\<not> isl (parse_value env d (serialize_value env d (wi_value it))) \<or> misfit d (serialize_value env d (wi_value it)))"
    by (simp add: manufacturer_request_def matches_definition_scope_def)
qed

lemma value_ok_readable: "value_ok env d x \<Longrightarrow> readable_or_misfit env d x"
  by (simp add: value_ok_def readable_or_misfit_def)

lemma settings_edit_ok:
  assumes "settings_edit env grouped db db'" "overrides_sat env (readable_or_misfit env) db" and laws: "json_laws env"
  shows "overrides_sat env (readable_or_misfit env) db'"
  using assms(1)
proof cases
  case (saves_definition d)
  have "find (\<lambda>e. df_pk e = df_pk d) (sd_definitions db) \<noteq> None \<longleftrightarrow> df_pk d \<in> df_pk ` set (sd_definitions db)"
    unfolding find_None_iff by (metis imageE image_eqI)
  with saves_definition(2,3) have "definition_errors env db (df_pk d \<in> df_pk ` set (sd_definitions db)) d = []"
    by (auto simp: definition_form_errors_def split: if_splits)
  with saves_definition put_definition_ok[OF assms(2) _ _ value_ok_readable] show ?thesis by simp
next
  case (deletes_definitions pks)
  with assms(2) show ?thesis by (simp add: drop_definitions_ok)
next
  case (saves_setting d v old ids text0 raw pk)
  from saves_setting(3,4) have "\<not> isl (parse_value env d raw)" "matches_definition_scope (df_scope d) ids"
    by (auto simp: clean_value_form_def Let_def result_simps)
  with saves_setting put_setting_ok[OF assms(2), of d] show ?thesis by (simp add: readable_or_misfit_def)
next
  case (deletes_settings pks)
  with assms(2) show ?thesis by (simp add: drop_settings_ok)
next
  case (saves_bulk_form s installed v post f tok p res s')
  have "tables_ok db" using assms(2) by (simp add: overrides_sat_def)
  with saves_bulk_form saved_request_fits[OF _ saves_bulk_form(4)] bulk_items_fit[OF saves_bulk_form(3) _ laws] assms(2)
  show ?thesis by simp
next
  case (saves_quick_form s texts cleaned tok p v m res s')
  with saved_request_fits[OF _ saves_quick_form(4)] quick_items_fit[OF saves_quick_form(3) laws] assms(2)
  show ?thesis by simp
next
  case (initializes pk reset)
  let ?db = "if reset then reset_definitions db else db"
  have "overrides_sat env (readable_or_misfit env) ?db" using assms(2) drop_definitions_ok by (simp add: reset_definitions_def)
  moreover have "\<forall>e \<in> set (sd_definitions ?db). df_pk e < pk"
    using initializes(2) by (simp add: reset_definitions_def drop_definitions_def)
  ultimately show ?thesis unfolding initializes(1) by (rule initialize_definitions_ok[OF _ _ value_ok_readable])
qed

inductive settings_history :: "settings_env \<Rightarrow> (json \<Rightarrow> string \<Rightarrow> bool) \<Rightarrow> settings_db \<Rightarrow> bool" for env grouped where
  empty: "settings_history env grouped \<lparr>sd_definitions = [], sd_settings = []\<rparr>"
| edited: "settings_history env grouped db \<Longrightarrow> settings_edit env grouped db db' \<Longrightarrow> settings_history env grouped db'"

lemma settings_history_ok:
  "settings_history env grouped db \<Longrightarrow> json_laws env \<Longrightarrow> overrides_sat env (readable_or_misfit env) db"
proof (induction rule: settings_history.induct)
  case empty
  show ?case by (simp add: overrides_sat_def tables_ok_def)
next
  case (edited db db')
  then show ?case by (simp add: settings_edit_ok)
qed

text \<open>Whatever was edited before, a read through the chain answers, if no stored value is a misfit.\<close>

theorem settings_reads_succeed:
  assumes "settings_history env grouped db" "json_laws env"
    and "\<forall>d \<in> set (sd_definitions db). \<forall>x \<in> set (sd_settings db). \<not> misfit d (sg_value x)"
  shows "overrides_ok env db \<and> (\<exists>v. settings_lookup env dc db key dflt ids = Inr v)"
proof -
  have "overrides_ok env db"
    using settings_history_ok[OF assms(1,2)] assms(3)
    unfolding overrides_sat_def overrides_ok_def readable_or_misfit_def value_ok_def by blast
  with settings_lookup_total show ?thesis by blast
qed

text \<open>C28: Whatever history of edits through the admin, the two forms and the installing command left a value
  behind, the value parses, to a value of the type its definition declares, with three exceptions that the
  forms let through: a flag of the manufacturer's quick form stored under its key as True or False although
  the definition declares an integer or choices, a number of that form under a definition that
  declares choices, and an option out of a group where the labels of the choices are lists or mappings.
  Assumed of Python's JSON: what was loaded, whole numbers and truth values survive writing and loading.\<close>

theorem stored_values_typed:
  assumes "json_laws env" "settings_history env grouped db"
    and "d \<in> set (sd_definitions db)" "x \<in> set (sd_settings db)" "sg_definition x = df_pk d"
  shows "(\<exists>v. get_parsed_value env db x = Inr v \<and> well_typed d v) \<or> misfit d (sg_value x)"
proof (cases "misfit d (sg_value x)")
  case False
  have ok: "overrides_sat env (readable_or_misfit env) db" by (rule settings_history_ok[OF assms(2,1)])
  then have "\<not> isl (parse_value env d (sg_value x))"
    using False assms(3-5) by (auto simp: overrides_sat_def readable_or_misfit_def)
  then obtain v where v: "parse_value env d (sg_value x) = Inr v" by (metis isl_def sum.exhaust)
  have "tables_ok db" using ok by (simp add: overrides_sat_def)
  from find_definition_unique(2)[OF this assms(3)] v have "get_parsed_value env db x = Inr v"
    by (simp add: get_parsed_value_def assms(5))
  with parse_value_typed[OF v] show ?thesis by blast
qed simp

section \<open>A batch in the system\<close>

text \<open>The next \<open>n\<close> tokens are new and different.\<close>

definition supplies :: "(nat \<Rightarrow> string) \<Rightarrow> nat \<Rightarrow> settings_system \<Rightarrow> bool" where
  "supplies tok n s \<longleftrightarrow> (\<forall>i < n. fresh_token (tok (length (sy_tokens s) + i)) s)
     \<and> (\<forall>i < n. \<forall>j < n. tok (length (sy_tokens s) + i) = tok (length (sy_tokens s) + j) \<longrightarrow> i = j)"

lemma supply_next:
  assumes "supplies tok (Suc n) s" "sy_tokens s' = next_token tok s # sy_tokens s"
  shows "fresh_token (next_token tok s) s" "supplies tok n s'"
proof -
  show "fresh_token (next_token tok s) s" using assms(1) unfolding supplies_def next_token_def by (metis add_0_right zero_less_Suc)
  have len: "length (sy_tokens s') + i = length (sy_tokens s) + Suc i" for i using assms(2) by simp
  have "fresh_token (tok (length (sy_tokens s) + Suc i)) s'" if "i < n" for i
  proof -
    have "fresh_token (tok (length (sy_tokens s) + Suc i)) s"
      using assms(1) that unfolding supplies_def by (meson Suc_less_eq)
    moreover have "tok (length (sy_tokens s) + Suc i) \<noteq> tok (length (sy_tokens s) + 0)"
      using assms(1) that unfolding supplies_def by (metis Suc_less_eq nat.distinct(1) zero_less_Suc)
    ultimately show ?thesis using assms(2) by (simp add: fresh_token_def next_token_def)
  qed
  then show "supplies tok n s'"
    using assms(1) unfolding supplies_def len by (metis Suc_inject Suc_less_eq)
qed

lemma supply_same: "supplies tok (Suc n) s \<Longrightarrow> supplies tok n s"
  by (simp add: supplies_def)

lemma supply_cong: "sy_tokens s' = sy_tokens s \<Longrightarrow> supplies tok n s' = supplies tok n s"
  by (simp add: supplies_def fresh_token_def)

text \<open>A write under one key and the invalidation of that key, between the steps of other processes.\<close>

lemma resolve_same_rows:
  assumes "sd_definitions db' = sd_definitions db"
    and "\<And>target. filter (\<lambda>x. sg_definition x = df_pk d \<and> sg_ids x = target) (sd_settings db')
           = filter (\<lambda>x. sg_definition x = df_pk d \<and> sg_ids x = target) (sd_settings db)"
  shows "resolve_scoped_value env db' (Some d) ids = resolve_scoped_value env db (Some d) ids"
proof -
  have "get_parsed_value env db' = get_parsed_value env db" by (simp add: fun_eq_iff get_parsed_value_def assms(1))
  moreover have "qs_get (\<lambda>x. sg_definition x = df_pk d \<and> sg_ids x = u) (sd_settings db')
      = qs_get (\<lambda>x. sg_definition x = df_pk d \<and> sg_ids x = u) (sd_settings db)" for u
    unfolding qs_get_def assms(2) ..
  ultimately show ?thesis by (cases "scope_filter d ids") (simp_all add: resolve_scoped_value_def split: sum.split)
qed

lemma upsert_same_key:
  assumes t: "tables_ok db" and d: "d \<in> set (sd_definitions db)" and key: "key \<noteq> df_key d"
  shows "same_key env db (put_setting (upserted_row env db d target v) db) key"
proof -
  let ?db = "put_setting (upserted_row env db d target v) db"
  have defs: "sd_definitions ?db = sd_definitions db" by (simp add: put_setting_def)
  then have find: "find_definition ?db k = find_definition db k" for k by (simp add: find_definition_def)
  have "resolve_scoped_value env ?db (find_definition db key) ids = resolve_scoped_value env db (find_definition db key) ids" for ids
  proof (cases "find_definition db key")
    case None
    then show ?thesis by (simp add: resolve_scoped_value_def)
  next
    case (Some e)
    then have e: "e \<in> set (sd_definitions db)" "df_key e = key" by (auto simp: find_definition_def find_Some_iff)
    have "df_pk e \<noteq> df_pk d"
    proof
      assume "df_pk e = df_pk d"
      from find_definition_unique(2)[OF t e(1), unfolded this] find_definition_unique(2)[OF t d]
      have "e = d" by (metis option.inject)
      with e(2) key show False by (simp only:)
    qed
    then have rows: "filter (\<lambda>x. sg_definition x = df_pk e \<and> sg_ids x = u) (sd_settings ?db)
        = filter (\<lambda>x. sg_definition x = df_pk e \<and> sg_ids x = u) (sd_settings db)" for u
      by (intro upsert_frame[OF t]) simp
    show ?thesis unfolding Some by (rule resolve_same_rows[OF defs]) (rule rows)
  qed
  with find show ?thesis by (simp add: same_key_def)
qed

lemma forget_reachable:
  assumes "settings_reachable env s"
  shows "settings_reachable env (s\<lparr>sy_definitions := (sy_definitions s)(p := Map.empty)\<rparr>)"
  using settings_reachable.step[OF assms settings_step.forgets[of env s p "{}"]] by simp

lemma invalidated_value_reachable:
  assumes "settings_reachable env s" "supplies tok (Suc n) s"
  shows "settings_reachable env (invalidate_value_cache tok p key s)"
    and "supplies tok n (invalidate_value_cache tok p key s)"
    and "sy_stale_values (invalidate_value_cache tok p key s) \<subseteq> sy_stale_definitions s \<union> (sy_stale_values s - {key})"
    and "sy_stale_definitions (invalidate_value_cache tok p key s) = sy_stale_definitions s"
    and "sy_db (invalidate_value_cache tok p key s) = sy_db s"
proof -
  have tokens: "sy_tokens (renew_values cell (next_token tok s) s) = next_token tok s # sy_tokens s" for cell
    by (simp add: renew_values_def draw_def)
  have "settings_step env s (renew_values (version_cache_key key) (next_token tok s) s)"
    "settings_step env s (renew_values all_values_cell (next_token tok s) s)"
    using supply_next(1)[OF assms(2) tokens] by (auto intro: settings_step.renews_values)
  then have "settings_reachable env (renew_values (version_cache_key key) (next_token tok s) s)"
    "settings_reachable env (renew_values all_values_cell (next_token tok s) s)"
    using settings_reachable.step[OF assms(1)] by blast+
  then show "settings_reachable env (invalidate_value_cache tok p key s)"
    by (simp add: invalidate_value_cache_def forget_reachable Let_def)
  show "supplies tok n (invalidate_value_cache tok p key s)"
    by (rule supply_next(2)[OF assms(2)]) (simp add: invalidate_value_cache_def renew_values_def draw_def Let_def)
  show "sy_stale_values (invalidate_value_cache tok p key s) \<subseteq> sy_stale_definitions s \<union> (sy_stale_values s - {key})"
    by (auto simp: invalidate_value_cache_def renew_values_def draw_def Let_def covers_key_def)
qed (simp_all add: invalidate_value_cache_def renew_values_def draw_def Let_def)

text \<open>What a batch keeps: the interleaving semantics, the tables, and no key left stale.\<close>

definition batch_ok :: "settings_env \<Rightarrow> settings_system \<Rightarrow> settings_system \<Rightarrow> bool" where
  "batch_ok env s s' \<longleftrightarrow> settings_reachable env s' \<and> tables_ok (sy_db s')
     \<and> sd_definitions (sy_db s') = sd_definitions (sy_db s)
     \<and> sy_stale_values s' \<subseteq> sy_stale_values s \<and> sy_stale_definitions s' = sy_stale_definitions s"

lemma saved_item_ok:
  assumes b: "batch_ok env s s'" and n: "supplies tok (Suc n) s'"
    and ds: "set ds \<subseteq> set (sd_definitions (sy_db s))"
    and saved: "save_item env tok p ds target it (res, s') = (res2, s2)"
  shows "batch_ok env s s2 \<and> supplies tok n s2"
proof (cases "item_definition ds it")
  case None
  with saved have "s2 = s'" by (auto simp: save_item_def split: option.splits)
  with b supply_same[OF n] show ?thesis by simp
next
  case (Some d)
  have reach: "settings_reachable env s'" and t: "tables_ok (sy_db s')"
    and same: "sd_definitions (sy_db s') = sd_definitions (sy_db s)"
    and stale: "sy_stale_values s' \<subseteq> sy_stale_values s" "sy_stale_definitions s' = sy_stale_definitions s"
    using b unfolding batch_ok_def by blast+
  have "d \<in> set ds" using Some by (auto simp: item_definition_def find_Some_iff split: option.splits)
  then have d: "d \<in> set (sd_definitions (sy_db s'))" using ds same by auto
  let ?db = "put_setting (upserted_row env (sy_db s') d target (wi_value it)) (sy_db s')"
  let ?c = "commit_settings {df_key d} ?db s'"
  have s2: "s2 = invalidate_value_cache tok p (df_key d) ?c"
    using saved Some upsert_put[OF t] by (simp add: save_item_def)
  have defs: "sd_definitions ?db = sd_definitions (sy_db s')" by (simp add: put_setting_def)
  have "\<forall>key. key \<notin> {df_key d} \<longrightarrow> same_key env (sy_db s') ?db key" using upsert_same_key[OF t d] by blast
  from settings_reachable.step[OF reach settings_step.writes_settings[OF defs this]]
  have reach2: "settings_reachable env ?c" unfolding commit_settings_def .
  have n2: "supplies tok (Suc n) ?c" using n supply_cong[of ?c s' tok "Suc n"] by (simp add: commit_settings_def)
  note inv = invalidated_value_reachable[OF reach2 n2, of p "df_key d"]
  have "sy_stale_definitions s' \<subseteq> sy_stale_values s'"
    using well_formedD(6)[OF settings_invariantD(1)[OF settings_reachable_invariant[OF reach]]] .
  then have "sy_stale_values s2 \<subseteq> sy_stale_values s"
    using inv(3) stale unfolding s2 by (auto simp: commit_settings_def)
  moreover have "tables_ok ?db" by (rule upsert_tables[OF t d])
  ultimately show ?thesis
    using inv(1,2,4,5) same stale(2) defs unfolding s2 batch_ok_def by (simp add: commit_settings_def)
qed

lemma saved_items_ok:
  assumes "batch_ok env s s'" "supplies tok (length its) s'" "set ds \<subseteq> set (sd_definitions (sy_db s))"
  shows "batch_ok env s (snd (fold (save_item env tok p ds target) its (res, s')))"
  using assms(1,2)
proof (induction its arbitrary: res s')
  case (Cons it its)
  obtain res2 s2 where saved: "save_item env tok p ds target it (res, s') = (res2, s2)" by (metis surj_pair)
  from Cons.prems saved_item_ok[OF _ _ assms(3) saved] have "batch_ok env s s2 \<and> supplies tok (length its) s2" by simp
  with Cons.IH[of s2 res2] saved show ?case by simp
qed simp

text \<open>A batch leaves the caches true: what any process reads afterwards is what the tables say.\<close>

lemma save_settings_batch_ok:
  assumes "settings_reachable env s" "tables_ok (sy_db s)" "supplies tok (length (wq_items rq)) s"
    and "save_settings env tok p v rq s = Inr (res, s')"
  shows "batch_ok env s s'"
proof -
  have "batch_ok env s s" using assms(1,2) by (simp add: batch_ok_def)
  from saved_items_ok[OF this assms(3), of "definitions_for (sy_db s) rq"] definitions_forD assms(4)
  show ?thesis unfolding save_settings_def by (metis (no_types, lifting) Inr_inject old.sum.distinct(1) snd_conv subsetI)
qed




text \<open>A batch writes only under its exact target and only values of the definitions it may write.\<close>

lemma saved_items_frame:
  assumes "tables_ok (sy_db s)" "set ds \<subseteq> set (sd_definitions (sy_db s))"
    and "\<And>x. sg_ids x = target \<Longrightarrow> sg_definition x \<in> df_pk ` set ds \<Longrightarrow> \<not> P x"
    and "fold (save_item env tok p ds target) its (res, s) = (res', s')"
  shows "filter P (sd_settings (sy_db s')) = filter P (sd_settings (sy_db s))
    \<and> sd_definitions (sy_db s') = sd_definitions (sy_db s)"
  using assms(1,2,4)
proof (induction its arbitrary: res s)
  case (Cons it its)
  obtain res2 s2 where saved: "save_item env tok p ds target it (res, s) = (res2, s2)" by (metis surj_pair)
  show ?case
  proof (cases "item_definition ds it")
    case None
    with saved have "s2 = s" by (auto simp: save_item_def split: option.splits)
    with Cons.IH[OF Cons.prems(1,2), of res2] Cons.prems(3) saved show ?thesis by simp
  next
    case (Some d)
    then have d: "d \<in> set ds" by (auto simp: item_definition_def find_Some_iff split: option.splits)
    let ?db = "put_setting (upserted_row env (sy_db s) d target (wi_value it)) (sy_db s)"
    have db: "sy_db s2 = ?db"
      using saved Some upsert_put[OF Cons.prems(1)]
      by (auto simp: save_item_def invalidate_value_cache_def renew_values_def draw_def commit_settings_def Let_def)
    have defs: "sd_definitions ?db = sd_definitions (sy_db s)" by (simp add: put_setting_def)
    have "tables_ok (sy_db s2)" unfolding db using upsert_tables[OF Cons.prems(1)] d Cons.prems(2) by blast
    moreover have "set ds \<subseteq> set (sd_definitions (sy_db s2))" using Cons.prems(2) db defs by simp
    moreover have "fold (save_item env tok p ds target) its (res2, s2) = (res', s')" using Cons.prems(3) saved by simp
    ultimately have "filter P (sd_settings (sy_db s')) = filter P (sd_settings (sy_db s2))
        \<and> sd_definitions (sy_db s') = sd_definitions (sy_db s2)" by (rule Cons.IH)
    moreover have "filter P (sd_settings ?db) = filter P (sd_settings (sy_db s))"
      using assms(3) d by (intro upsert_frame[OF Cons.prems(1)]) blast
    ultimately show ?thesis using db defs by simp
  qed
qed simp

text \<open>C29: A batch that is written was one the editor may write, and it leaves every definition and every value
  of another target or of a definition outside the form as it was.\<close>

theorem batch_writes_target_only:
  assumes "tables_ok (sy_db s)" "save_settings env tok p v rq s = Inr (res, s')"
  shows "can_manage_scope v (wq_target rq)
    \<and> sd_definitions (sy_db s') = sd_definitions (sy_db s)
    \<and> filter (\<lambda>x. sg_ids x \<noteq> wq_target rq \<or> sg_definition x \<notin> df_pk ` set (definitions_for (sy_db s) rq)) (sd_settings (sy_db s'))
      = filter (\<lambda>x. sg_ids x \<noteq> wq_target rq \<or> sg_definition x \<notin> df_pk ` set (definitions_for (sy_db s) rq)) (sd_settings (sy_db s))"
proof -
  have can: "can_manage_scope v (wq_target rq)"
    and run: "fold (save_item env tok p (definitions_for (sy_db s) rq) (wq_target rq)) (wq_items rq)
      (\<lparr>wr_saved = 0, wr_errors = []\<rparr>, s) = (res, s')"
    using assms(2) by (simp_all add: save_settings_def split: if_splits)
  have ds: "set (definitions_for (sy_db s) rq) \<subseteq> set (sd_definitions (sy_db s))" using definitions_forD by blast
  from saved_items_frame[OF assms(1) ds _ run,
      of "\<lambda>x. sg_ids x \<noteq> wq_target rq \<or> sg_definition x \<notin> df_pk ` set (definitions_for (sy_db s) rq)"] can
  show ?thesis by blast
qed

section \<open>Who sees what\<close>

theorem manageable_settings_visible:
  assumes "can_manage_scope (for_management_user dp orgs u) ids"
  shows "build_filter (for_settings_user dp orgs u) True ids"
proof -
  obtain o1 s1 m1 where "ids = (o1, s1, m1)" by (metis prod_cases3)
  with assms show ?thesis
    unfolding management_filter_is_permission[symmetric]
    by (auto simp: for_management_user_def for_settings_user_def visibility_for_def build_management_filter_def
        build_filter_def dimension_admits_def is_unrestricted_def everything_def settings_memberships_def split: if_splits)
qed

text \<open>C30: Under tenants, whoever is not a superuser across organizations manages only values of organizations
  in which a membership without campus makes them an administrator.\<close>

theorem managed_settings_need_organization_role:
  assumes "dp_msp dp" "\<not> (us_superuser u \<and> dp_cross_org dp)"
    and "can_manage_scope (for_management_user dp orgs u) ids"
  shows "\<exists>mb \<in> set (us_memberships u). ids = (Some (me_org mb), None, None) \<and> me_campus mb = None
    \<and> current_membership mb \<and> me_role mb \<in> set tenant_admin_roles"
proof -
  obtain o1 s1 m1 where "ids = (o1, s1, m1)" by (metis prod_cases3)
  with assms show ?thesis
    unfolding management_filter_is_permission[symmetric]
    by (auto simp: for_management_user_def visibility_for_def build_management_filter_def
        build_filter_def dimension_admits_def is_unrestricted_def everything_def settings_memberships_def split: if_splits)
qed

text \<open>The comparison page shows no value of a key that is not known to be safe.\<close>

lemma shown_override_hidden:
  assumes "mapE (shown_override env db d label) xs = Inr ys" "y \<in> set ys" "is_key_sensitive (df_key d)"
  shows "snd y \<in> {NoValue, Hidden}"
proof -
  from mapE_set[OF assms(1,2)] obtain x where "shown_override env db d label x = Inr y" by blast
  with assms(3) show ?thesis by (auto simp: shown_override_def format_value_def result_simps split: if_splits)
qed

lemma diff_row_hidden:
  assumes "diff_row env db names visible d = Inr r" "is_key_sensitive (ov_key r)"
  shows "ov_global r \<in> {NoValue, Hidden} \<and>
    snd ` (set (ov_organizations r) \<union> set (ov_sites r) \<union> set (ov_manufacturers r)) \<subseteq> {NoValue, Hidden}"
proof -
  from assms(1) have key: "ov_key r = df_key d" by (auto simp: diff_row_def Let_def result_simps)
  with assms(2) have hidden: "is_key_sensitive (df_key d)" by simp
  from assms(1) obtain g os ss ms where
    parts: "mapE (shown_override env db d (\<lambda>x. named ''Org '' (sn_organization names) (organization_of x)))
        (filter (\<lambda>x. organization_of x \<noteq> None) (filter (\<lambda>x. sg_definition x = df_pk d) visible)) = Inr os"
      "mapE (shown_override env db d (\<lambda>x. named ''Site '' (Some \<circ> sn_site names) (site_of x)))
        (filter (\<lambda>x. organization_of x = None \<and> site_of x \<noteq> None) (filter (\<lambda>x. sg_definition x = df_pk d) visible)) = Inr ss"
      "mapE (shown_override env db d (\<lambda>x. named ''Manufacturer '' (sn_manufacturer names) (manufacturer_of x)))
        (filter (\<lambda>x. organization_of x = None \<and> site_of x = None \<and> manufacturer_of x \<noteq> None)
          (filter (\<lambda>x. sg_definition x = df_pk d) visible)) = Inr ms"
    and r: "ov_global r = format_value env d g" "ov_organizations r = os" "ov_sites r = ss" "ov_manufacturers r = ms"
    unfolding diff_row_def Let_def by (auto simp: result_simps)
  have "ov_global r \<in> {NoValue, Hidden}" using hidden by (simp add: r(1) format_value_def)
  moreover have "snd y \<in> {NoValue, Hidden}" if "y \<in> set os \<union> set ss \<union> set ms" for y
    using that shown_override_hidden[OF parts(1) _ hidden] shown_override_hidden[OF parts(2) _ hidden]
      shown_override_hidden[OF parts(3) _ hidden] by blast
  ultimately show ?thesis unfolding r by blast
qed

theorem diff_hides_unknown_keys:
  assumes "get_diff env names ordered db v = Inr rows" "r \<in> set rows" "is_key_sensitive (ov_key r)"
  shows "ov_global r \<in> {NoValue, Hidden} \<and>
    snd ` (set (ov_organizations r) \<union> set (ov_sites r) \<union> set (ov_manufacturers r)) \<subseteq> {NoValue, Hidden}"
proof -
  from assms(1) obtain visible ds where "mapE (diff_row env db names visible) ds = Inr rows"
    by (auto simp: get_diff_def Let_def)
  from mapE_set[OF this assms(2)] obtain d where "diff_row env db names visible d = Inr r" by blast
  from diff_row_hidden[OF this assms(3)] show ?thesis .
qed

section \<open>Examples\<close>

text \<open>A JSON of whole numbers and truth values.\<close>

definition sample_settings_env :: settings_env where
  "sample_settings_env = \<lparr>
     se_loads = (\<lambda>raw. if raw = ''true'' then Some (JBool True) else if raw = ''false'' then Some (JBool False)
                        else map_option JInt (int_of_text raw)),
     se_dumps = (\<lambda>v. case v of JInt n \<Rightarrow> int_text n | JBool b \<Rightarrow> (if b then ''true'' else ''false'') | _ \<Rightarrow> []),
     se_repr = (\<lambda>_. [])\<rparr>"

lemma sample_json_laws: "json_laws sample_settings_env"
proof -
  have "int_of_text ''true'' = None" "int_of_text ''false'' = None" by code_simp+
  then have "int_text n \<noteq> ''true'' \<and> int_text n \<noteq> ''false''" if "int_of_text raw = Some n" for raw n
    using int_of_int_text[OF int_of_text_bound[OF that]] by auto
  then show ?thesis
    using int_of_int_text int_of_text_bound by (auto simp: json_laws_def sample_settings_env_def split: if_splits)
qed

definition sample_token :: "nat \<Rightarrow> string" where
  "sample_token n = replicate 16 (if n = 0 then CHR ''a'' else if n = 1 then CHR ''b'' else CHR ''c'')"

definition sample_tables :: settings_db where
  "sample_tables = \<lparr>sd_definitions = [(standard ''api_timeout'' ''API Timeout (seconds)'' ''manufacturer'' ''integer'' ''30'')\<lparr>df_pk := 1\<rparr>],
     sd_settings = []\<rparr>"

definition sample_read :: read_request where
  "sample_read = \<lparr>rq_process = 7, rq_key = ''api_timeout'', rq_ids = (None, None, Some 3), rq_required = False,
     rq_include_default = True\<rparr>"

text \<open>Process 7 has read the default, which is now cached, as is the definition in its memory.\<close>

definition sample_advance :: "settings_system \<Rightarrow> settings_system" where
  "sample_advance s = continue_read sample_settings_env 4 (sy_readers s 4) s"

definition sample_system :: settings_system where
  "sample_system = sample_advance (sample_advance (sample_advance (sample_advance (begin_read 4 sample_read (no_reads sample_tables 0)))))"

definition sample_write :: write_request where
  "sample_write = \<lparr>wq_scope = ''manufacturer'', wq_target = (None, None, Some 3),
     wq_items = [\<lparr>wi_value = JInt 45, wi_definition = None, wi_key = Some ''api_timeout'', wi_label = ''api_timeout''\<rparr>]\<rparr>"

lemma sample_advance_reachable:
  "settings_reachable sample_settings_env s \<Longrightarrow> settings_reachable sample_settings_env (sample_advance s)"
  unfolding sample_advance_def by (rule settings_reachable.step[OF _ settings_step.continues])

lemma sample_reachable: "settings_reachable sample_settings_env sample_system"
  unfolding sample_system_def
  by (intro sample_advance_reachable settings_reachable.step[OF settings_reachable.start settings_step.begins])

lemma sample_fields:
  "sy_db sample_system = sample_tables" "sy_stale_values sample_system = {}" "sy_tokens sample_system = []"
  by code_simp+

lemma sample_tables_ok: "tables_ok sample_tables" by code_simp

lemma sample_supply: "supplies sample_token 1 sample_system"
proof -
  have "list_all hex_digit (replicate 16 CHR ''a'')" by code_simp
  then show ?thesis by (simp add: supplies_def fresh_token_def sample_fields sample_token_def)
qed

definition sample_after :: settings_system where
  "sample_after = snd (projr (save_settings sample_settings_env sample_token 0 everything sample_write sample_system))"

lemma sample_saved:
  "save_settings sample_settings_env sample_token 0 everything sample_write sample_system
     = Inr (fst (projr (save_settings sample_settings_env sample_token 0 everything sample_write sample_system)), sample_after)"
proof -
  have "can_manage_scope everything (wq_target sample_write)" by code_simp
  then show ?thesis by (simp add: save_settings_def sample_after_def)
qed

lemma sample_after_ok: "batch_ok sample_settings_env sample_system sample_after"
proof (rule save_settings_batch_ok[OF sample_reachable])
  show "tables_ok (sy_db sample_system)" by (simp add: sample_fields sample_tables_ok)
  show "supplies sample_token (length (wq_items sample_write)) sample_system"
    using sample_supply by (simp add: sample_write_def)
qed (rule sample_saved)

lemma sample_after_reachable:
  "settings_reachable sample_settings_env sample_after" "''api_timeout'' \<notin> sy_stale_values sample_after"
  using sample_after_ok sample_fields(2) unfolding batch_ok_def by blast+


lemma registry_refines_database_witness:
  "fst (registry_get sample_settings_env (sy_db sample_after) (sy_now sample_after) ''api_timeout'' JNull
      (None, None, Some 3) True True (view 7 sample_after))
     = uncached_get sample_settings_env (sy_db sample_after) ''api_timeout'' JNull (None, None, Some 3) True True"
  by (rule registry_refines_database[OF sample_after_reachable])

lemma settings_chain_refines_sources_witness:
  "fst (settings_get sample_settings_env (\<lambda>_. None) (sy_db sample_after) (sy_now sample_after) ''api_timeout'' (JInt 1)
      (None, None, Some 3) (view 7 sample_after))
     = settings_lookup sample_settings_env (\<lambda>_. None) (sy_db sample_after) ''api_timeout'' (JInt 1) (None, None, Some 3)"
  by (rule settings_chain_refines_sources[OF sample_after_reachable])

lemma interleaved_read_current_witness:
  "uncached_get sample_settings_env (sy_db sample_system) ''api_timeout'' JNull (None, None, Some 3) False True = Inr (JInt 30)"
proof -
  let ?ck = "request_key (value_epoch (sy_generations sample_system) ''api_timeout'') sample_read"
  have "sy_readers sample_system 4 = Answered sample_read ?ck (Inr (JInt 30))" by code_simp
  from interleaved_read_current[OF sample_reachable this] show ?thesis
    by (simp add: sample_read_def sample_fields)
qed

lemma batch_writes_target_only_witness:
  "can_manage_scope everything (None, None, Some 3) \<and> sd_definitions (sy_db sample_after) = sd_definitions sample_tables"
proof -
  have "tables_ok (sy_db sample_system)" by (simp add: sample_fields sample_tables_ok)
  from batch_writes_target_only[OF this sample_saved] show ?thesis by (simp add: sample_fields sample_write_def)
qed

lemma settings_reads_succeed_witness:
  "\<exists>v. settings_lookup sample_settings_env (\<lambda>_. None) (fst (initialize_definitions 1 \<lparr>sd_definitions = [], sd_settings = []\<rparr>))
     ''api_timeout'' JNull (None, None, Some 3) = Inr v"
proof -
  let ?db = "fst (initialize_definitions 1 \<lparr>sd_definitions = [], sd_settings = []\<rparr>)"
  have "settings_history sample_settings_env (\<lambda>_ _. False) ?db"
    using settings_history.edited[OF settings_history.empty settings_edit.initializes[of _ 1 sample_settings_env _ False]]
    by simp
  moreover have "sd_settings ?db = []" by code_simp
  ultimately show ?thesis using settings_reads_succeed[OF _ sample_json_laws] by fastforce
qed

text \<open>A definition is entered in the admin, then a value is saved through the bulk form and another one through the
  quick form.\<close>

definition sample_post :: bulk_post where
  "sample_post = \<lparr>bp_scope = ''manufacturer'', bp_organization = None, bp_site = None, bp_manufacturer = Some 3,
     bp_texts = (\<lambda>pk. if pk = 1 then '' 40.00'' else [])\<rparr>"

definition sample_bulk :: bulk_form where
  "sample_bulk = \<lparr>bf_scope = Some ''manufacturer'', bf_organization = None, bf_site = None, bf_manufacturer = Some 3,
     bf_values = [(1, JInt 40)]\<rparr>"

definition sample_texts :: "string \<Rightarrow> string" where
  "sample_texts name = (if name = ''api_timeout'' then ''45'' else [])"

definition sample_cleaned :: "string \<rightharpoonup> json" where
  "sample_cleaned = projr (submit_quick sample_texts)"

definition sample_after_bulk :: settings_system where
  "sample_after_bulk = snd (projr (save_settings sample_settings_env sample_token 0 everything (bulk_request sample_bulk) sample_system))"

definition sample_after_quick :: settings_system where
  "sample_after_quick =
     snd (projr (save_settings sample_settings_env sample_token 0 everything (manufacturer_request 4 sample_cleaned) sample_after_bulk))"

definition sample_row :: "nat \<Rightarrow> nat \<Rightarrow> string \<Rightarrow> setting" where
  "sample_row pk m raw = \<lparr>sg_pk = pk, sg_definition = 1, sg_ids = (None, None, Some m), sg_value = raw\<rparr>"

lemma sample_submissions:
  "submit_bulk sample_settings_env (\<lambda>_ _. False) True everything sample_tables sample_post = Inr sample_bulk"
  "sy_db sample_after_bulk = sample_tables\<lparr>sd_settings := [sample_row 1 3 ''40'']\<rparr>"
  "\<not> isl (submit_quick sample_texts)"
  "sy_db sample_after_quick = sample_tables\<lparr>sd_settings := [sample_row 1 3 ''40'', sample_row 2 4 ''45'']\<rparr>"
  by code_simp+

lemma save_everything:
  "save_settings env tok p everything rq s = Inr (fst (projr (save_settings env tok p everything rq s)),
     snd (projr (save_settings env tok p everything rq s)))" if "can_manage_scope everything (wq_target rq)"
  using that by (simp add: save_settings_def)

lemma sample_history: "settings_history sample_settings_env (\<lambda>_ _. False) (sy_db sample_after_quick)"
proof -
  let ?d = "hd (sd_definitions sample_tables)"
  have "put_definition ?d \<lparr>sd_definitions = [], sd_settings = []\<rparr> = sample_tables" by code_simp
  moreover have "definition_form_errors sample_settings_env \<lparr>sd_definitions = [], sd_settings = []\<rparr>
     (find (\<lambda>e. df_pk e = df_pk ?d) (sd_definitions \<lparr>sd_definitions = [], sd_settings = []\<rparr>)) ?d = []" by code_simp
  ultimately have h1: "settings_history sample_settings_env (\<lambda>_ _. False) sample_tables"
    using settings_history.edited[OF settings_history.empty settings_edit.saves_definition] by fastforce
  have target: "can_manage_scope everything (wq_target (bulk_request sample_bulk))"
    "can_manage_scope everything (wq_target (manufacturer_request 4 sample_cleaned))"
    by code_simp (simp add: manufacturer_request_def everything_def can_manage_scope_def allowed_in_def)
  from settings_edit.saves_bulk_form[OF sample_fields(1) sample_submissions(1) save_everything[OF target(1)]]
  have h2: "settings_history sample_settings_env (\<lambda>_ _. False) (sy_db sample_after_bulk)"
    unfolding sample_after_bulk_def by (rule settings_history.edited[OF h1])
  have "submit_quick sample_texts = Inr sample_cleaned"
    using sample_submissions(3) by (simp add: sample_cleaned_def)
  from settings_edit.saves_quick_form[OF refl this save_everything[OF target(2)]]
  show ?thesis unfolding sample_after_quick_def by (rule settings_history.edited[OF h2])
qed

lemma stored_values_typed_witness:
  "\<exists>v. get_parsed_value sample_settings_env (sy_db sample_after_quick) (sample_row 2 4 ''45'') = Inr v
     \<and> well_typed (hd (sd_definitions sample_tables)) v"
proof -
  let ?d = "hd (sd_definitions sample_tables)"
  have "?d \<in> set (sd_definitions (sy_db sample_after_quick))" "sample_row 2 4 ''45'' \<in> set (sd_settings (sy_db sample_after_quick))"
    unfolding sample_submissions(4) by (simp_all add: sample_tables_def)
  moreover have "sg_definition (sample_row 2 4 ''45'') = df_pk ?d" "\<not> misfit ?d (sg_value (sample_row 2 4 ''45''))"
    by (simp_all add: sample_tables_def sample_row_def standard_def misfit_def)
  ultimately show ?thesis using stored_values_typed[OF sample_json_laws sample_history] by blast
qed

definition sample_tenant_user :: user where
  "sample_tenant_user = \<lparr>us_pk = 1, us_authenticated = True, us_active = True, us_superuser = False,
     us_memberships = [\<lparr>me_org = 5, me_campus = None, me_role = ''admin'', me_active = True, me_org_active = True,
       me_org_site = None, me_campus_active = False, me_campus_org = 0\<rparr>], us_groups = []\<rparr>"

definition sample_tenant_deployment :: deployment where
  "sample_tenant_deployment = \<lparr>dp_multi_site = False, dp_msp = True, dp_cross_org = False, dp_site = 1, dp_installed = True\<rparr>"

lemma manageable_settings_visible_witness:
  "build_filter (for_settings_user sample_tenant_deployment [] sample_tenant_user) True (Some 5, None, None)"
  by (rule manageable_settings_visible) code_simp

lemma managed_settings_need_organization_role_witness:
  "\<exists>mb \<in> set (us_memberships sample_tenant_user). (Some 5, None, None) = (Some (me_org mb), None :: nat option, None :: nat option)
     \<and> me_campus mb = None \<and> current_membership mb \<and> me_role mb \<in> set tenant_admin_roles"
  by (rule managed_settings_need_organization_role[of sample_tenant_deployment _ "[]"]) code_simp+

definition sample_secret_tables :: settings_db where
  "sample_secret_tables = \<lparr>sd_definitions = [(standard ''smtp_dsn'' ''Mail relay'' ''global'' ''string'' ''x'')\<lparr>df_pk := 1\<rparr>],
     sd_settings = [\<lparr>sg_pk = 1, sg_definition = 1, sg_ids = (None, None, None), sg_value = ''user:pass''\<rparr>,
                    \<lparr>sg_pk = 2, sg_definition = 1, sg_ids = (Some 5, None, None), sg_value = ''other:pass''\<rparr>]\<rparr>"

lemma diff_hides_unknown_keys_witness:
  "\<exists>r. get_diff sample_settings_env \<lparr>sn_organization = (\<lambda>_. None), sn_site = (\<lambda>_. []), sn_manufacturer = (\<lambda>_. None)\<rparr> id
         sample_secret_tables everything = Inr [r] \<and> ov_global r \<in> {NoValue, Hidden}"
proof -
  let ?names = "\<lparr>sn_organization = (\<lambda>_. None), sn_site = (\<lambda>_. []), sn_manufacturer = (\<lambda>_. None)\<rparr>"
  let ?r = "\<lparr>ov_key = ''smtp_dsn'', ov_label = ''Mail relay'', ov_global = Hidden,
    ov_organizations = [(''Org 5'', Hidden)], ov_sites = [], ov_manufacturers = []\<rparr>"
  have run: "get_diff sample_settings_env ?names id sample_secret_tables everything = Inr [?r]" by code_simp
  have "is_key_sensitive (ov_key ?r)" by code_simp
  from diff_hides_unknown_keys[OF run _ this] run show ?thesis by auto
qed

section \<open>Observations\<close>

text \<open>The API shows to every authenticated caller a value that the management pages hide: it knows only
  suspicious words, they know only safe keys.\<close>

lemma api_shows_hidden_value:
  "\<exists>d \<in> set (sd_definitions sample_secret_tables). \<exists>x \<in> set (api_settings True everything sample_secret_tables).
     sg_definition x = df_pk d \<and> is_key_sensitive (df_key d) \<and> api_value d x = Shown (sg_value x) \<and> api_default d = Shown ''x''"
proof -
  let ?d = "hd (sd_definitions sample_secret_tables)" and ?x = "hd (sd_settings sample_secret_tables)"
  have "?d \<in> set (sd_definitions sample_secret_tables)" "?x \<in> set (api_settings True everything sample_secret_tables)"
    "sg_definition ?x = df_pk ?d" "is_key_sensitive (df_key ?d)" "api_value ?d ?x = Shown (sg_value ?x)"
    "api_default ?d = Shown ''x''" by code_simp+
  then show ?thesis by blast
qed

text \<open>The quick form stores a flag under a definition that declares an integer: it reports the value as saved, and
  every later read of it fails.\<close>

definition sample_flag_tables :: settings_db where
  "sample_flag_tables = \<lparr>sd_definitions =
     [(standard ''supports_health_check'' ''Health check'' ''manufacturer'' ''integer'' ''0'')\<lparr>df_pk := 1\<rparr>], sd_settings = []\<rparr>"

lemma quick_form_strands_value:
  "(case save_settings sample_settings_env sample_token 0 everything
        (manufacturer_request 3 (projr (submit_quick (\<lambda>name. if name = ''supports_health_check'' then ''true'' else []))))
        (no_reads sample_flag_tables 0) of
      Inl _ \<Rightarrow> False
    | Inr (res, s) \<Rightarrow> res = \<lparr>wr_saved = 1, wr_errors = []\<rparr>
        \<and> settings_lookup sample_settings_env (\<lambda>_. None) (sy_db s) ''supports_health_check'' JNull (None, None, Some 3) = Inl InvalidValue)"
  by code_simp

text \<open>The registry serves a definition that has been switched off.\<close>

lemma inactive_definition_served:
  "resolve_setting env (db\<lparr>sd_definitions := [d\<lparr>df_active := False\<rparr>]\<rparr>) key ids b
     = resolve_setting env (db\<lparr>sd_definitions := [d]\<rparr>) key ids b"
proof -
  have parse: "parse_value env (d\<lparr>df_active := False\<rparr>) raw = parse_value env d raw" for raw by (simp add: parse_value_def)
  have "scope_filter (d\<lparr>df_active := False\<rparr>) ids = scope_filter d ids" by (cases ids) (simp add: scope_filter_def)
  then have "resolve_scoped_value env (db\<lparr>sd_definitions := [d\<lparr>df_active := False\<rparr>]\<rparr>) (Some (d\<lparr>df_active := False\<rparr>)) ids
      = resolve_scoped_value env (db\<lparr>sd_definitions := [d]\<rparr>) (Some d) ids"
    by (simp add: resolve_scoped_value_def get_parsed_value_def parse split: option.split sum.split orm_error.split)
  moreover have "definition_default env (Some (d\<lparr>df_active := False\<rparr>)) = definition_default env (Some d)"
    by (simp add: definition_default_def parse)
  moreover have "find_definition (db\<lparr>sd_definitions := [e]\<rparr>) key = (if df_key e = key then Some e else None)" for e
    by (simp add: find_definition_def)
  ultimately show ?thesis
    by (cases "df_key d = key") (simp_all add: resolve_setting_def resolve_scoped_value_def[of _ _ None] definition_default_def[of _ None]
        cong: if_cong)
qed

text \<open>A default passed by one caller is cached for all of them.\<close>

lemma default_is_cached:
  "\<exists>r. registry_get sample_settings_env \<lparr>sd_definitions = [], sd_settings = []\<rparr> 0 ''k'' (JInt 1) (None, None, None) False True
        \<lparr>rg_generations = Map.empty, rg_values = Map.empty, rg_definitions = Map.empty\<rparr> = (Inr (JInt 1), r)
      \<and> fst (registry_get sample_settings_env \<lparr>sd_definitions = [], sd_settings = []\<rparr> 9 ''k'' (JInt 2) (None, None, None) False True r)
          = Inr (JInt 1)"
proof -
  let ?first = "registry_get sample_settings_env \<lparr>sd_definitions = [], sd_settings = []\<rparr> 0 ''k'' (JInt 1) (None, None, None) False True
        \<lparr>rg_generations = Map.empty, rg_values = Map.empty, rg_definitions = Map.empty\<rparr>"
  have "fst ?first = Inr (JInt 1)" by code_simp
  moreover have "fst (registry_get sample_settings_env \<lparr>sd_definitions = [], sd_settings = []\<rparr> 9 ''k'' (JInt 2)
      (None, None, None) False True (snd ?first)) = Inr (JInt 1)" by code_simp
  ultimately show ?thesis by (metis prod.collapse)
qed

text \<open>After \<open>init_settings --reset\<close> a running process keeps the deleted definition: a value saved for the
  new one is read by a process that starts later and not by the one that had the old definition.\<close>

definition sample_after_reset :: settings_system where
  "sample_after_reset = fst (init_settings True 50 sample_system)"

definition sample_saved_after_reset :: settings_system where
  "sample_saved_after_reset =
     snd (projr (save_settings sample_settings_env sample_token 0 everything sample_write sample_after_reset))"

lemma reset_hides_saved_value:
  "fst (settings_get sample_settings_env (\<lambda>_. None) (sy_db sample_saved_after_reset) (sy_now sample_saved_after_reset)
      ''api_timeout'' JNull (None, None, Some 3) (view 8 sample_saved_after_reset)) = Inr (JInt 45)"
  "fst (settings_get sample_settings_env (\<lambda>_. None) (sy_db sample_saved_after_reset) (sy_now sample_saved_after_reset)
      ''api_timeout'' JNull (None, None, Some 3) (view 7 sample_saved_after_reset)) = Inr (JInt 30)"
  by code_simp+

end
