(* ===== verification/Vendor_Payloads.thy ===== *)
theory Vendor_Payloads
  imports Manufacturer_Sync
begin

text \<open>
  From the answer of a vendor's service to the payloads the services read: the device clients
  (\<open>integrations/shure/device_client.py\<close>, \<open>integrations/sennheiser/device_client.py\<close>) and the two
  transformers (\<open>integrations/shure/transformers.py\<close>, \<open>integrations/sennheiser/transformers.py\<close>).

  The two transformers are the same code around two tables of names, so they are one group of
  definitions over the record \<open>transformer\<close> with the tables of each vendor.  Answers are JSON values
  of any shape.  An exception is \<open>Inl ()\<close>: every handler here catches all of them.  \<open>str\<close> of a number
  with a fraction, a list or an object is the parameter \<open>shown\<close>.
\<close>

section \<open>Python operations on JSON values\<close>

type_synonym 'a attempt = "unit + 'a"

text \<open>\<open>d.get(k, dflt)\<close>: a key that is present wins with whatever it holds, null included.\<close>

definition get_or :: "payload \<Rightarrow> string \<Rightarrow> json \<Rightarrow> json" where
  "get_or d k dflt = (case map_of d k of None \<Rightarrow> dflt | Some v \<Rightarrow> v)"

definition get2 :: "payload \<Rightarrow> string \<Rightarrow> string \<Rightarrow> json \<Rightarrow> json" where
  "get2 d k1 k2 dflt = get_or d k1 (get_or d k2 dflt)"

fun as_dict :: "json \<Rightarrow> payload attempt" where
  "as_dict (JObj d) = Inr d"
| "as_dict _ = Inl ()"

text \<open>What a \<open>for\<close> loop sees, and the operators \<open>in\<close> and \<open>[]\<close> with a text.\<close>

fun iterated :: "json \<Rightarrow> json list attempt" where
  "iterated (JList xs) = Inr xs"
| "iterated (JStr s) = Inr (map (\<lambda>c. JStr [c]) s)"
| "iterated (JObj d) = Inr (map (\<lambda>p. JStr (fst p)) d)"
| "iterated _ = Inl ()"

fun text_in :: "string \<Rightarrow> json \<Rightarrow> bool attempt" where
  "text_in k (JObj d) = Inr (map_of d k \<noteq> None)"
| "text_in k (JList xs) = Inr (JStr k \<in> set xs)"
| "text_in k (JStr s) = Inr (contains k s)"
| "text_in k _ = Inl ()"

fun item_at :: "json \<Rightarrow> string \<Rightarrow> json attempt" where
  "item_at (JObj d) k = (case map_of d k of None \<Rightarrow> Inl () | Some v \<Rightarrow> Inr v)"
| "item_at _ k = Inl ()"

definition set_default :: "string \<Rightarrow> json \<Rightarrow> payload \<Rightarrow> payload" where
  "set_default k v d = (if map_of d k = None then d @ [(k, v)] else d)"

fun text_of :: "(json \<Rightarrow> string) \<Rightarrow> json \<Rightarrow> string" where
  "text_of shown (JStr s) = s"
| "text_of shown (JInt n) = int_text n"
| "text_of shown (JBool b) = (if b then ''True'' else ''False'')"
| "text_of shown JNull = ''None''"
| "text_of shown v = shown v"

text \<open>\<open>str(v) if v else ""\<close>.\<close>

definition text_or_blank :: "(json \<Rightarrow> string) \<Rightarrow> json \<Rightarrow> json" where
  "text_or_blank shown v = JStr (if truthy v then text_of shown v else [])"

lemma get_or_simps [dict_simps]:
  "map_of d k = Some v \<Longrightarrow> get_or d k dflt = v"
  "map_of d k = None \<Longrightarrow> get_or d k dflt = dflt"
  by (simp_all add: get_or_def)

lemma get_or_null: "get_or d k JNull = field d k"
  by (simp add: get_or_def field_def)

section \<open>Device clients\<close>

text \<open>\<open>if k in source: device.setdefault(target, source[k])\<close>.\<close>

definition lift_field :: "json \<Rightarrow> string \<Rightarrow> string \<Rightarrow> payload \<Rightarrow> payload attempt" where
  "lift_field source k target d =
     bindE (text_in k source) (\<lambda>found.
     if found then bindE (item_at source k) (\<lambda>v. Inr (set_default target v d)) else Inr d)"

definition normalize_device :: "payload \<Rightarrow> payload attempt" where
  "normalize_device d =
     bindE (as_dict (get_or d ''hardwareIdentity'' (JObj []))) (\<lambda>hardware.
     let device_id = field hardware ''deviceId'';
         d1 = (if truthy device_id then AList.update ''id'' device_id d else d) in
     bindE (lift_field (JObj hardware) ''serialNumber'' ''serialNumber'' d1) (\<lambda>d2.
     bindE (lift_field (get_or d2 ''communicationProtocol'' (JObj [])) ''address'' ''ipAddress'' d2) (\<lambda>d3.
     let software = get_or d3 ''softwareIdentity'' (JObj []) in
     bindE (lift_field software ''model'' ''model'' d3) (\<lambda>d4.
     lift_field software ''firmwareVersion'' ''firmwareVersion'' d4))))"

definition edge_node :: "json \<Rightarrow> json list \<Rightarrow> json list attempt" where
  "edge_node edge acc =
     bindE (text_in ''node'' edge) (\<lambda>found.
     if found then bindE (as_dict edge) (\<lambda>e. Inr (acc @ [get_or e ''node'' (JObj [])])) else Inr acc)"

definition device_nodes :: "json \<Rightarrow> json list attempt" where
  "device_nodes answer =
     (case answer of
        JObj r \<Rightarrow> (case map_of r ''edges'' of None \<Rightarrow> Inr []
                   | Some edges \<Rightarrow> bindE (iterated edges) (\<lambda>es. foldE edge_node es []))
      | JList xs \<Rightarrow> Inr xs
      | _ \<Rightarrow> Inr [])"

fun add_normalized :: "json \<Rightarrow> payload list \<Rightarrow> payload list attempt" where
  "add_normalized (JObj d) acc = bindE (normalize_device d) (\<lambda>n. Inr (acc @ [n]))"
| "add_normalized _ acc = Inr acc"

definition shure_get_devices :: "json \<Rightarrow> payload list attempt" where
  "shure_get_devices answer = bindE (device_nodes answer) (\<lambda>devices. foldE add_normalized devices [])"

definition sennheiser_get_devices :: "json \<Rightarrow> json" where
  "sennheiser_get_devices answer = (if answer = JNull then JList [] else answer)"

text \<open>\<open>result if isinstance(result, list) else []\<close>, for models and for the channels of a Shure device.\<close>

definition list_or_empty :: "json \<Rightarrow> json list" where
  "list_or_empty answer = (case answer of JList xs \<Rightarrow> xs | _ \<Rightarrow> [])"

text \<open>The list of supported models: a client error of the vendor gives no models.\<close>

definition get_supported_device_models :: "('e \<Rightarrow> bool) \<Rightarrow> 'e + json \<Rightarrow> 'e + json list" where
  "get_supported_device_models is_vendor_error reply =
     (case reply of
        Inl e \<Rightarrow> if is_vendor_error e then Inr [] else Inl e
      | Inr answer \<Rightarrow> Inr (list_or_empty answer))"

section \<open>Names of models\<close>

record transformer =
  vt_types :: "(string \<times> string) list"
  vt_models :: "(string \<times> string) list"

definition shure_transformer :: transformer where
  "shure_transformer = \<lparr>
     vt_types = [(''UHFR'', ''uhfr''), (''UHF_R'', ''uhfr''), (''QLXD'', ''qlxd''), (''QLX_D'', ''qlxd''),
       (''ULXD'', ''ulxd''), (''ULX_D'', ''ulxd''), (''AXIENT_DIGITAL'', ''axtd''), (''AXIENTDIGITAL'', ''axtd''),
       (''AXTD'', ''axtd''), (''AD'', ''axtd''), (''P10T'', ''p10t''), (''PSM1000'', ''p10t'')],
     vt_models = [(''ulxd'', ''ULX-D''), (''qlxd'', ''QLX-D''), (''uhfr'', ''UHF-R''),
       (''axtd'', ''Axient Digital''), (''p10t'', ''P10T'')]\<rparr>"

definition sennheiser_transformer :: transformer where
  "sennheiser_transformer = \<lparr>
     vt_types = [(''EVOLUTION_WIRELESS_DIGITAL'', ''ewd''), (''EW_D'', ''ewd''),
       (''TEAMCONNECT'', ''teamconnect''), (''TEAM_CONNECT'', ''teamconnect'')],
     vt_models = [(''ewd'', ''Evolution Wireless Digital''), (''teamconnect'', ''TeamConnect'')]\<rparr>"

definition underscored :: "string \<Rightarrow> string" where
  "underscored s = map (\<lambda>c. if c = CHR ''-'' \<or> c = CHR '' '' then CHR ''_'' else c) (upper s)"

definition map_device_type :: "transformer \<Rightarrow> json \<Rightarrow> string attempt" where
  "map_device_type vt api_type =
     (if \<not> truthy api_type then Inr ''unknown''
      else (case api_type of
              JStr s \<Rightarrow> Inr (case map_of (vt_types vt) (underscored s) of None \<Rightarrow> ''unknown'' | Some t \<Rightarrow> t)
            | _ \<Rightarrow> Inl ()))"

record device_identity =
  di_model :: string
  di_type :: string
  di_firmware :: string
  di_raw_type :: json
  di_raw_model :: json

definition or_text :: "json \<Rightarrow> string \<Rightarrow> json" where
  "or_text v s = (if truthy v then v else JStr s)"

definition identify_device_model :: "transformer \<Rightarrow> (json \<Rightarrow> string) \<Rightarrow> payload \<Rightarrow> device_identity attempt" where
  "identify_device_model vt shown d =
     (let raw_type = field d ''type'';
          raw_model = get2 d ''model_name'' ''modelName'' JNull;
          firmware = or_text (get2 d ''firmware_version'' ''firmwareVersion'' JNull) [] in
      bindE (map_device_type vt (or_text raw_type ''unknown'')) (\<lambda>norm_type.
      Inr \<lparr>di_model = (if \<not> truthy raw_model
                       then (case map_of (vt_models vt) norm_type of None \<Rightarrow> ''Unknown'' | Some m \<Rightarrow> m)
                       else text_of shown raw_model),
           di_type = norm_type, di_firmware = text_of shown firmware,
           di_raw_type = or_text raw_type [], di_raw_model = or_text raw_model []\<rparr>))"

section \<open>Transmitters\<close>

definition two_digits :: "int \<Rightarrow> string" where
  "two_digits n = (let s = int_text n in if length s < 2 then CHR ''0'' # s else s)"

definition hours_minutes :: "int \<Rightarrow> string" where
  "hours_minutes n = two_digits (n div 60) @ '':'' @ two_digits (n mod 60)"

text \<open>The comparison with zero comes before the handler, so a runtime that is no number raises.\<close>

fun format_runtime :: "json \<Rightarrow> string attempt" where
  "format_runtime JNull = Inr []"
| "format_runtime (JInt n) = Inr (if n < 0 then [] else hours_minutes n)"
| "format_runtime (JBool b) = Inr (hours_minutes (if b then 1 else 0))"
| "format_runtime (JNum q) = Inr (if q < 0 then [] else hours_minutes \<lfloor>q\<rfloor>)"
| "format_runtime _ = Inl ()"

definition transmitter_extra :: "payload \<Rightarrow> payload" where
  "transmitter_extra t =
     [(''encryption'', field t ''encryption''),
      (''rf_quality'', get2 t ''rf_quality'' ''rfQuality'' JNull),
      (''diversity'', field t ''diversity''),
      (''antenna_metrics'', JObj [(''a'', get2 t ''rfAntennaA'' ''rf_antenna_a'' JNull),
                                  (''b'', get2 t ''rfAntennaB'' ''rf_antenna_b'' JNull)]),
      (''clip'', field t ''clip''), (''peak'', field t ''peak'')]"

definition transmitter_fields :: "(json \<Rightarrow> string) \<Rightarrow> payload \<Rightarrow> json \<Rightarrow> string \<Rightarrow> payload" where
  "transmitter_fields shown t channel runtime =
     (let name = text_or_blank shown (get2 t ''name'' ''deviceName'' (JStr [])) in
     [(''battery'', get2 t ''battery_bars'' ''batteryBars'' (JInt 255)),
      (''battery_charge'', get2 t ''battery_charge'' ''batteryCharge'' JNull),
      (''battery_health'', get2 t ''battery_health'' ''batteryHealth'' (JStr [])),
      (''battery_cycles'', get2 t ''battery_cycles'' ''batteryCycles'' JNull),
      (''battery_temperature_c'', get2 t ''battery_temperature_c'' ''batteryTemperatureC'' JNull),
      (''audio_level'', get2 t ''audio_level'' ''audioLevel'' (JInt 0)),
      (''rf_level'', get2 t ''rf_level'' ''rfLevel'' (JInt 0)),
      (''frequency'', text_or_blank shown (get_or t ''frequency'' (JStr []))),
      (''antenna'', text_or_blank shown (get_or t ''antenna'' (JStr []))),
      (''tx_offset'', get2 t ''tx_offset'' ''txOffset'' (JInt 255)),
      (''quality'', get2 t ''audio_quality'' ''audioQuality'' (JInt 255)),
      (''runtime'', JStr runtime),
      (''status'', text_or_blank shown (get_or t ''status'' (JStr []))),
      (''mute'', get2 t ''mute'' ''isMuted'' JNull),
      (''power'', get2 t ''power'' ''txPower'' JNull),
      (''battery_type'', get2 t ''battery_type'' ''batteryType'' JNull),
      (''temperature'', field t ''temperature''),
      (''rf_antenna_a'', get2 t ''rfAntennaA'' ''rf_antenna_a'' JNull),
      (''rf_antenna_b'', get2 t ''rfAntennaB'' ''rf_antenna_b'' JNull),
      (''name'', name), (''name_raw'', name),
      (''slot'', get_or t ''slot'' channel),
      (''extra'', JObj (transmitter_extra t))])"

text \<open>Any exception loses the transmitter.\<close>

definition transform_transmitter_data :: "(json \<Rightarrow> string) \<Rightarrow> json \<Rightarrow> json \<Rightarrow> payload option" where
  "transform_transmitter_data shown tx channel =
     (case tx of
        JObj t \<Rightarrow> (case format_runtime (get2 t ''battery_runtime_minutes'' ''batteryRuntimeMinutes'' JNull) of
                      Inl _ \<Rightarrow> None
                    | Inr runtime \<Rightarrow> Some (transmitter_fields shown t channel runtime))
      | _ \<Rightarrow> None)"

section \<open>Devices\<close>

definition add_channel :: "(json \<Rightarrow> string) \<Rightarrow> json \<Rightarrow> json list \<Rightarrow> json list attempt" where
  "add_channel shown channel_data acc =
     bindE (as_dict channel_data) (\<lambda>c.
     let channel_num = get2 c ''channel'' ''channelNumber'' (JInt 0);
         tx = get2 c ''tx'' ''transmitter'' (JObj []) in
     Inr (if truthy tx then
            (case transform_transmitter_data shown tx channel_num of
               None \<Rightarrow> acc
             | Some t \<Rightarrow> acc @ [JObj [(''channel'', channel_num), (''tx'', JObj t)]])
          else acc))"

definition device_payload :: "(json \<Rightarrow> string) \<Rightarrow> payload \<Rightarrow> device_identity \<Rightarrow> json list \<Rightarrow> payload" where
  "device_payload shown d i channels =
     [(''api_device_id'', field d ''id''),
      (''ip'', first_of d [''ip'', ''ip_address'', ''ipAddress''] []),
      (''type'', JStr (di_type i)),
      (''name'', first_of d [''name'', ''device_name'', ''deviceName''] (di_model i)),
      (''firmware'', JStr (di_firmware i)),
      (''serial'', get2 d ''serial_number'' ''serialNumber'' JNull),
      (''hostname'', field d ''hostname''),
      (''mac_address'', get2 d ''mac_address'' ''macAddress'' JNull),
      (''model_variant'', get2 d ''model_variant'' ''modelVariant'' JNull),
      (''band'', get2 d ''frequency_band'' ''frequencyBand'' JNull),
      (''location'', field d ''location''),
      (''info'', JObj [(''raw_type'', di_raw_type i), (''raw_model'', di_raw_model i),
         (''uptime_minutes'', get2 d ''uptime_minutes'' ''uptimeMinutes'' JNull),
         (''temperature_c'', get2 d ''temperature_c'' ''temperatureC'' JNull)]),
      (''channels'', JList channels)]"

definition transform_dict :: "transformer \<Rightarrow> (json \<Rightarrow> string) \<Rightarrow> payload \<Rightarrow> payload attempt" where
  "transform_dict vt shown d =
     bindE (identify_device_model vt shown d) (\<lambda>i.
     bindE (iterated (get_or d ''channels'' (JList []))) (\<lambda>channels_data.
     bindE (foldE (add_channel shown) channels_data []) (\<lambda>channels.
     Inr (device_payload shown d i channels))))"

definition transform_device_data :: "transformer \<Rightarrow> (json \<Rightarrow> string) \<Rightarrow> json \<Rightarrow> payload option" where
  "transform_device_data vt shown api_data =
     (case api_data of
        JObj d \<Rightarrow> if \<not> truthy (field d ''id'') then None
                   else (case transform_dict vt shown d of Inl _ \<Rightarrow> None | Inr r \<Rightarrow> Some r)
      | _ \<Rightarrow> None)"

text \<open>The methods of the second transformer, word for word those of the first over its own tables.\<close>

definition sennheiser_map_device_type :: "json \<Rightarrow> string attempt" where
  "sennheiser_map_device_type api_type = map_device_type sennheiser_transformer api_type"

definition sennheiser_identify_device_model :: "(json \<Rightarrow> string) \<Rightarrow> payload \<Rightarrow> device_identity attempt" where
  "sennheiser_identify_device_model shown d = identify_device_model sennheiser_transformer shown d"

definition sennheiser_transform_transmitter_data :: "(json \<Rightarrow> string) \<Rightarrow> json \<Rightarrow> json \<Rightarrow> payload option" where
  "sennheiser_transform_transmitter_data shown tx channel = transform_transmitter_data shown tx channel"

definition sennheiser_transform_device_data :: "(json \<Rightarrow> string) \<Rightarrow> json \<Rightarrow> payload option" where
  "sennheiser_transform_device_data shown raw = transform_device_data sennheiser_transformer shown raw"

text \<open>The plugins of the two vendors: the devices of an answer and the payload of each.\<close>

definition shure_plugin :: "(json \<Rightarrow> string) \<Rightarrow> 'e + json \<Rightarrow> json vendor_plugin" where
  "shure_plugin shown reply =
     \<lparr>vp_devices = (case reply of Inl _ \<Rightarrow> Inl ()
        | Inr answer \<Rightarrow> bindE (shure_get_devices answer) (\<lambda>ds. Inr (map JObj ds))),
      vp_transform = (\<lambda>raw. Inr (transform_device_data shure_transformer shown raw))\<rparr>"

definition sennheiser_plugin :: "(json \<Rightarrow> string) \<Rightarrow> 'e + json \<Rightarrow> json vendor_plugin" where
  "sennheiser_plugin shown reply =
     \<lparr>vp_devices = (case reply of Inl _ \<Rightarrow> Inl ()
        | Inr answer \<Rightarrow> let devices = sennheiser_get_devices answer
                        in if truthy devices then iterated devices else Inr []),
      vp_transform = (\<lambda>raw. Inr (sennheiser_transform_device_data shown raw))\<rparr>"

section \<open>What a transformation yields\<close>

lemma foldE_append_all:
  assumes "\<And>x acc. x \<in> set xs \<Longrightarrow> f x acc = (if ok x then Inr (acc @ out x) else Inl e)"
  shows "foldE f xs acc = (if \<forall>x \<in> set xs. ok x then Inr (acc @ concat (map out xs)) else Inl e)"
  using assms by (induction xs arbitrary: acc) (auto simp: bindE_def)

fun is_object :: "json \<Rightarrow> bool" where
  "is_object (JObj _) = True"
| "is_object _ = False"

lemma is_object_iff: "is_object v \<longleftrightarrow> (\<exists>d. v = JObj d)"
  by (cases v) auto

text \<open>The channels one entry of the answer contributes: none or one.\<close>

definition channel_entries :: "(json \<Rightarrow> string) \<Rightarrow> json \<Rightarrow> json list" where
  "channel_entries shown v = (case add_channel shown v [] of Inl _ \<Rightarrow> [] | Inr xs \<Rightarrow> xs)"

lemma add_channel_entries:
  "add_channel shown v acc = (if is_object v then Inr (acc @ channel_entries shown v) else Inl ())"
  by (cases v) (auto simp: add_channel_def channel_entries_def Let_def split: option.split)

lemma channels_all_or_none:
  "foldE (add_channel shown) vs [] =
     (if \<forall>v \<in> set vs. is_object v then Inr (concat (map (channel_entries shown) vs)) else Inl ())"
  using foldE_append_all[of vs "add_channel shown" is_object "channel_entries shown" "()" "[]"]
  by (simp add: add_channel_entries)

lemma map_device_type_known:
  "map_device_type vt v = Inr t \<Longrightarrow> t = ''unknown'' \<or> t \<in> snd ` set (vt_types vt)"
  by (auto simp: map_device_type_def image_iff split: if_splits json.splits option.splits dest!: map_of_SomeD)
    (metis snd_conv)+

lemma transform_SomeD:
  assumes "transform_device_data vt shown raw = Some r"
  obtains d i vs where "raw = JObj d" "truthy (field d ''id'')" "identify_device_model vt shown d = Inr i"
    "iterated (get_or d ''channels'' (JList [])) = Inr vs" "\<forall>v \<in> set vs. is_object v"
    "r = device_payload shown d i (concat (map (channel_entries shown) vs))"
  using assms
  by (auto simp: transform_device_data_def transform_dict_def channels_all_or_none result_simps
      split: json.splits if_splits sum.splits)

definition device_keys :: "string list" where
  "device_keys = [''api_device_id'', ''ip'', ''type'', ''name'', ''firmware'', ''serial'', ''hostname'',
     ''mac_address'', ''model_variant'', ''band'', ''location'', ''info'', ''channels'']"

definition transmitter_keys :: "string list" where
  "transmitter_keys = [''battery'', ''battery_charge'', ''battery_health'', ''battery_cycles'',
     ''battery_temperature_c'', ''audio_level'', ''rf_level'', ''frequency'', ''antenna'', ''tx_offset'',
     ''quality'', ''runtime'', ''status'', ''mute'', ''power'', ''battery_type'', ''temperature'',
     ''rf_antenna_a'', ''rf_antenna_b'', ''name'', ''name_raw'', ''slot'', ''extra'']"

text \<open>A transmitter in the form the services expect: all keys, and texts where texts are promised.\<close>

fun is_text :: "json \<Rightarrow> bool" where
  "is_text (JStr _) = True"
| "is_text _ = False"

definition transmitter_ok :: "payload \<Rightarrow> bool" where
  "transmitter_ok t \<longleftrightarrow> map fst t = transmitter_keys \<and>
     list_all (\<lambda>k. is_text (field t k)) [''frequency'', ''antenna'', ''runtime'', ''status'', ''name'', ''name_raw'']"

lemma transform_transmitter_ok: "transform_transmitter_data shown tx channel = Some t \<Longrightarrow> transmitter_ok t"
  by (auto simp: transform_transmitter_data_def transmitter_ok_def transmitter_keys_def transmitter_fields_def
      Let_def text_or_blank_def field_def split: json.splits sum.splits)

lemma channel_entries_object:
  "channel_entries shown (JObj c) =
     (let channel_num = get2 c ''channel'' ''channelNumber'' (JInt 0);
          tx = get2 c ''tx'' ''transmitter'' (JObj [])
      in if truthy tx then
           (case transform_transmitter_data shown tx channel_num of
              None \<Rightarrow> [] | Some t \<Rightarrow> [JObj [(''channel'', channel_num), (''tx'', JObj t)]])
         else [])"
  by (auto simp: channel_entries_def add_channel_def Let_def split: option.split)

lemma channel_entries_other: "\<not> is_object v \<Longrightarrow> channel_entries shown v = []"
  by (simp add: channel_entries_def add_channel_entries)

lemma channel_entries_ok:
  assumes "x \<in> set (channel_entries shown v)"
  shows "\<exists>n t. x = JObj [(''channel'', n), (''tx'', JObj t)] \<and> transmitter_ok t"
proof (cases "is_object v")
  case True
  then obtain c where v: "v = JObj c" by (auto simp: is_object_iff)
  let ?n = "get2 c ''channel'' ''channelNumber'' (JInt 0)" and ?tx = "get2 c ''tx'' ''transmitter'' (JObj [])"
  have "truthy ?tx" by (rule ccontr) (use assms in \<open>simp add: v channel_entries_object\<close>)
  with assms have x: "x \<in> set (case transform_transmitter_data shown ?tx ?n of
      None \<Rightarrow> [] | Some t \<Rightarrow> [JObj [(''channel'', ?n), (''tx'', JObj t)]])"
    unfolding v channel_entries_object Let_def by (simp only: if_True)
  show ?thesis
  proof (cases "transform_transmitter_data shown ?tx ?n")
    case None
    with x show ?thesis by simp
  next
    case (Some t)
    with x have "x = JObj [(''channel'', ?n), (''tx'', JObj t)]" by simp
    with transform_transmitter_ok[OF Some] show ?thesis by blast
  qed
next
  case False
  with assms show ?thesis by (simp add: channel_entries_other)
qed

lemma channel_entries_length: "length (channel_entries shown v) \<le> 1"
  by (cases "is_object v") (auto simp: channel_entries_object channel_entries_other is_object_iff Let_def split: option.split)

lemma concat_at_most_one:
  assumes "\<And>x. length (f x) \<le> 1"
  shows "length (concat (map f xs)) \<le> length xs"
proof (induction xs)
  case (Cons x xs)
  with assms[of x] show ?case by simp
qed simp

text \<open>C31: Whatever JSON the vendor's service answers, a device that comes out of the transformation has the
  promised keys in their order, a family the services know, and channels with complete transmitters, at
  most one for each channel of the answer.\<close>

theorem transformed_device_typed:
  assumes "transform_device_data vt shown raw = Some r"
  shows "map fst r = device_keys
    \<and> truthy (field r ''api_device_id'')
    \<and> (\<exists>t. field r ''type'' = JStr t \<and> (t = ''unknown'' \<or> t \<in> snd ` set (vt_types vt)))
    \<and> (\<exists>d vs cs. raw = JObj d \<and> iterated (get_or d ''channels'' (JList [])) = Inr vs
        \<and> field r ''channels'' = JList cs \<and> length cs \<le> length vs
        \<and> (\<forall>c \<in> set cs. \<exists>n t. c = JObj [(''channel'', n), (''tx'', JObj t)] \<and> transmitter_ok t))"
proof -
  from transform_SomeD[OF assms] obtain d i vs where r:
    "raw = JObj d" "truthy (field d ''id'')" "identify_device_model vt shown d = Inr i"
    "r = device_payload shown d i (concat (map (channel_entries shown) vs))"
    "iterated (get_or d ''channels'' (JList [])) = Inr vs" by metis
  let ?cs = "concat (map (channel_entries shown) vs)"
  have "\<exists>v. map_device_type vt v = Inr (di_type i)"
    using r(3) by (auto simp: identify_device_model_def Let_def result_simps)
  then have "di_type i = ''unknown'' \<or> di_type i \<in> snd ` set (vt_types vt)" using map_device_type_known by blast
  moreover have "field r ''type'' = JStr (di_type i)" by (simp add: r(4) device_payload_def field_def[of "_ # _"])
  ultimately have type: "\<exists>t. field r ''type'' = JStr t \<and> (t = ''unknown'' \<or> t \<in> snd ` set (vt_types vt))" by blast
  have keys: "map fst r = device_keys" by (simp add: r(4) device_payload_def device_keys_def)
  have id: "truthy (field r ''api_device_id'')" using r(2) by (simp add: r(4) device_payload_def field_def[of "_ # _"])
  have "field r ''channels'' = JList ?cs" by (simp add: r(4) device_payload_def field_def[of "_ # _"])
  moreover have "\<forall>c \<in> set ?cs. \<exists>n t. c = JObj [(''channel'', n), (''tx'', JObj t)] \<and> transmitter_ok t"
    using channel_entries_ok by fastforce
  moreover have "length ?cs \<le> length vs" by (rule concat_at_most_one[OF channel_entries_length])
  ultimately have "\<exists>d vs cs. raw = JObj d \<and> iterated (get_or d ''channels'' (JList [])) = Inr vs
      \<and> field r ''channels'' = JList cs \<and> length cs \<le> length vs
      \<and> (\<forall>c \<in> set cs. \<exists>n t. c = JObj [(''channel'', n), (''tx'', JObj t)] \<and> transmitter_ok t)"
    using r(1,5) by blast
  with type keys id show ?thesis by (intro conjI)
qed

theorem transformed_device_typed_witness:
  "\<exists>r. transform_device_data shure_transformer (\<lambda>_. []) (JObj [(''id'', JStr ''a1''), (''type'', JStr ''ulx-d''),
        (''channels'', JList [JObj [(''channel'', JInt 1), (''tx'', JObj [(''batteryBars'', JInt 4)])]])]) = Some r
     \<and> field r ''type'' = JStr ''ulxd'' \<and> map fst r = device_keys"
proof -
  let ?raw = "JObj [(''id'', JStr ''a1''), (''type'', JStr ''ulx-d''),
        (''channels'', JList [JObj [(''channel'', JInt 1), (''tx'', JObj [(''batteryBars'', JInt 4)])]])]"
  have "(case transform_device_data shure_transformer (\<lambda>_. []) ?raw of None \<Rightarrow> False
         | Some r \<Rightarrow> field r ''type'' = JStr ''ulxd'')" by code_simp
  then obtain r where r: "transform_device_data shure_transformer (\<lambda>_. []) ?raw = Some r"
    "field r ''type'' = JStr ''ulxd''" by (auto split: option.splits)
  from transformed_device_typed[OF r(1)] r show ?thesis by blast
qed

section \<open>What is lost\<close>

text \<open>An answer transforms exactly when it has an identifier, its type is a text and each of its channels
  an object: one channel of another shape, a null among them, loses the device.\<close>

lemma device_transformed_iff:
  "transform_device_data vt shown (JObj d) \<noteq> None \<longleftrightarrow>
     truthy (field d ''id'') \<and> (truthy (field d ''type'') \<longrightarrow> is_text (field d ''type''))
     \<and> (\<exists>vs. iterated (get_or d ''channels'' (JList [])) = Inr vs \<and> list_all is_object vs)"
proof -
  have "(\<exists>i. identify_device_model vt shown d = Inr i)
      \<longleftrightarrow> (truthy (field d ''type'') \<longrightarrow> is_text (field d ''type''))"
    by (cases "field d ''type''")
      (simp_all add: identify_device_model_def Let_def map_device_type_def or_text_def)
  then show ?thesis
    by (cases "identify_device_model vt shown d"; cases "iterated (get_or d ''channels'' (JList []))")
      (auto simp: transform_device_data_def transform_dict_def channels_all_or_none list_all_iff)
qed

text \<open>A runtime that is neither a number nor null loses the transmitter with all its other readings.\<close>

lemma unreadable_runtime_loses_transmitter:
  assumes "get2 t ''battery_runtime_minutes'' ''batteryRuntimeMinutes'' JNull = JStr s"
  shows "transform_transmitter_data shown (JObj t) channel = None"
  using assms by (simp add: transform_transmitter_data_def)

lemma other_runtimes_keep_transmitter:
  assumes "get2 t ''battery_runtime_minutes'' ''batteryRuntimeMinutes'' JNull \<in> {JNull} \<union> range JInt \<union> range JNum \<union> range JBool"
  shows "transform_transmitter_data shown (JObj t) channel \<noteq> None"
  using assms by (auto simp: transform_transmitter_data_def)

section \<open>Runtimes\<close>

lemma two_digits_value:
  assumes "0 \<le> n"
  shows "text_val 10 (two_digits n) = nat n" "list_all dec_digit (two_digits n)" "2 \<le> length (two_digits n)"
proof -
  have s: "int_text n = print_base 10 (nat n)" using assms by (simp add: int_text_def nat_text_def)
  have "digit_val CHR ''0'' = 0" by code_simp
  then have zero: "text_val 10 (CHR ''0'' # s) = text_val 10 s" for s by (simp add: text_val_def)
  have "print_base 10 (nat n) \<noteq> []" by (simp add: print_base.simps[of 10 "nat n"])
  then have "1 \<le> length (print_base 10 (nat n))" by (cases "print_base 10 (nat n)") simp_all
  then show "text_val 10 (two_digits n) = nat n" "list_all dec_digit (two_digits n)" "2 \<le> length (two_digits n)"
    by (auto simp: two_digits_def s zero text_val_print print_base_digits Let_def dec_digit_def)
qed

lemma two_digits_length: "0 \<le> n \<Longrightarrow> n < 100 \<Longrightarrow> length (two_digits n) = 2"
  using print_base_length[of "nat n" 1] two_digits_value(3)[of n]
  by (auto simp: two_digits_def int_text_def nat_text_def Let_def numeral_2_eq_2)

text \<open>The text of a runtime reads back: hours of two digits or more, a colon, minutes of two digits.\<close>

theorem runtime_text_roundtrip:
  assumes "0 \<le> n"
  shows "\<exists>h m. format_runtime (JInt n) = Inr (h @ '':'' @ m) \<and> list_all dec_digit (h @ m)
    \<and> 2 \<le> length h \<and> length m = 2 \<and> text_val 10 m < 60
    \<and> split_on CHR '':'' (h @ '':'' @ m) = [h, m]
    \<and> int (60 * text_val 10 h + text_val 10 m) = n"
proof -
  let ?h = "two_digits (n div 60)" and ?m = "two_digits (n mod 60)"
  have h: "0 \<le> n div 60" and m: "0 \<le> n mod 60" "n mod 60 < 60" using assms by simp_all
  have clean: "CHR '':'' \<notin> set s" if "list_all dec_digit s" for s
    using that by (auto simp: list_all_iff dec_digit_def)
  have split: "split_on CHR '':'' (s @ CHR '':'' # u) = [s, u]" if "CHR '':'' \<notin> set s" "CHR '':'' \<notin> set u" for s u
    using that
  proof (induction s)
    case Nil
    moreover have "split_on CHR '':'' u = [u]" using Nil(2) by (induction u) auto
    ultimately show ?case by simp
  qed auto
  have "format_runtime (JInt n) = Inr (?h @ '':'' @ ?m)" using assms by (simp add: hours_minutes_def)
  moreover have "split_on CHR '':'' (?h @ '':'' @ ?m) = [?h, ?m]"
    using split[OF clean[OF two_digits_value(2)[OF h]] clean[OF two_digits_value(2)[OF m(1)]]] by simp
  moreover have "int (60 * text_val 10 ?h + text_val 10 ?m) = n"
    using two_digits_value(1)[OF h] two_digits_value(1)[OF m(1)] h m(1) by simp
  moreover have "list_all dec_digit (?h @ ?m)" "2 \<le> length ?h"
    using two_digits_value(2,3)[OF h] two_digits_value(2)[OF m(1)] by simp_all
  moreover have "length ?m = 2" using m(2) by (intro two_digits_length[OF m(1)]) simp
  moreover have "text_val 10 ?m < 60" using two_digits_value(1)[OF m(1)] m by simp
  ultimately show ?thesis by blast
qed

theorem runtime_text_roundtrip_witness:
  "format_runtime (JInt 135) = Inr ''02:15'' \<and> 0 \<le> (135::int)
    \<and> (\<exists>h m. format_runtime (JInt 135) = Inr (h @ '':'' @ m) \<and> int (60 * text_val 10 h + text_val 10 m) = 135)"
proof -
  have "format_runtime (JInt 135) = Inr ''02:15''" by code_simp
  with runtime_text_roundtrip[of 135] show ?thesis by auto
qed

section \<open>From the answer to the inventory\<close>

lemma device_payload_fields:
  assumes "r = device_payload shown d i cs"
  shows "field r ''api_device_id'' = field d ''id''"
    "field r ''serial'' = get2 d ''serial_number'' ''serialNumber'' JNull"
    "field r ''name'' = first_of d [''name'', ''device_name'', ''deviceName''] (di_model i)"
    "field r ''ip'' = first_of d [''ip'', ''ip_address'', ''ipAddress''] []"
    "field r ''firmware'' = JStr (di_firmware i)"
    "field r ''mac_address'' = get2 d ''mac_address'' ''macAddress'' JNull"
    "k \<notin> set device_keys \<Longrightarrow> field r k = JNull"
  using assms by (auto simp: device_payload_def field_def[of "_ # _"] device_keys_def)

lemma Inr_Some_D: "Inr (Some x) = Inr (Some n) \<Longrightarrow> n = x"
  by simp

lemma from_api_fields:
  assumes "from_api d = Inr (Some n)"
  shows "stripped (first_of d [''id'', ''api_device_id''] []) = Inr (nh_api_id n)"
    "stripped (first_of d [''ip'', ''ipAddress'', ''ipv4'', ''ip_address''] []) = Inr (nh_ip n)"
    "stripped (first_of d [''serial_number'', ''serialNumber'', ''serial''] []) = Inr (nh_serial n)"
    "stripped (first_of d [''name'', ''model''] []) = Inr (nh_name n)"
    "stripped (first_of d [''model''] []) = Inr (nh_model n)"
    "stripped (first_of d [''device_type''] []) = Inr (nh_device_type n)"
    "stripped (first_of d [''firmware'', ''firmware_version'', ''firmwareVersion''] []) = Inr (nh_firmware n)"
  using assms[unfolded from_api_def bindE_Inr_iff if_Inr_Some]
  by - (elim exE conjE, drule Inr_Some_D, hypsubst, simp only: normalized.select_convs)+

lemma first_of_text: "\<not> truthy (first_of d ks s) \<Longrightarrow> first_of d ks s = JStr []"
  by (induction ks) (auto split: if_splits)

lemma first_of_absent: "(\<And>k. k \<in> set ks \<Longrightarrow> field d k = JNull) \<Longrightarrow> first_of d ks s = JStr s"
  by (induction ks) auto

text \<open>C32: What the synchronisation keeps of a transformed device.  The transformation writes the family under
  \<open>type\<close> and no model, while \<open>from_api\<close> reads \<open>model\<close> and \<open>device_type\<close>: both stay blank, whatever the
  service answered.\<close>

theorem synchronised_device_has_no_model:
  assumes "transform_device_data vt shown raw = Some r" "from_api r = Inr (Some n)"
  shows "nh_model n = [] \<and> nh_device_type n = []
    \<and> (\<exists>d i. raw = JObj d \<and> identify_device_model vt shown d = Inr i
        \<and> stripped (field d ''id'') = Inr (nh_api_id n)
        \<and> stripped (first_of d [''ip'', ''ip_address'', ''ipAddress''] []) = Inr (nh_ip n)
        \<and> stripped (first_of d [''name'', ''device_name'', ''deviceName''] (di_model i)) = Inr (nh_name n)
        \<and> nh_firmware n = strip (di_firmware i))"
proof -
  from transform_SomeD[OF assms(1)] obtain d i cs where r:
    "raw = JObj d" "truthy (field d ''id'')" "identify_device_model vt shown d = Inr i"
    "r = device_payload shown d i cs" by metis
  note f = device_payload_fields[OF r(4)]
  have absent: "field r ''id'' = JNull" "field r ''ipAddress'' = JNull" "field r ''ipv4'' = JNull"
    "field r ''ip_address'' = JNull" "field r ''model'' = JNull" "field r ''device_type'' = JNull"
    "field r ''firmware_version'' = JNull" "field r ''firmwareVersion'' = JNull"
    by (intro f(7), simp add: device_keys_def)+
  obtain name where name: "name = first_of d [''name'', ''device_name'', ''deviceName''] (di_model i)" by blast
  obtain ip where ip: "ip = first_of d [''ip'', ''ip_address'', ''ipAddress''] []" by blast
  note shown = f(1) f(3)[folded name] f(4)[folded ip] f(5)
  have blank: "\<not> truthy name \<Longrightarrow> name = JStr []" "\<not> truthy ip \<Longrightarrow> ip = JStr []"
    unfolding name ip by (rule first_of_text, assumption)+
  have "first_of r [''id'', ''api_device_id''] [] = field d ''id''" using r(2) by (simp add: absent shown)
  moreover have "first_of r [''ip'', ''ipAddress'', ''ipv4'', ''ip_address''] [] = ip"
    using blank by (auto simp add: absent shown)
  moreover have "first_of r [''name'', ''model''] [] = name" using blank by (auto simp add: absent shown)
  moreover have "first_of r [''model''] [] = JStr []" "first_of r [''device_type''] [] = JStr []"
    by (simp_all add: absent)
  moreover have "first_of r [''firmware'', ''firmware_version'', ''firmwareVersion''] [] = JStr (di_firmware i)"
    by (simp add: absent shown)
  ultimately have "stripped (field d ''id'') = Inr (nh_api_id n)" "stripped ip = Inr (nh_ip n)"
    "stripped name = Inr (nh_name n)" "nh_model n = []" "nh_device_type n = []" "nh_firmware n = strip (di_firmware i)"
    using from_api_fields[OF assms(2)] by simp_all
  then show ?thesis unfolding name ip using r(1,3) by blast
qed

text \<open>The Shure client writes the model of \<open>softwareIdentity\<close> under \<open>model\<close>, which the transformation does
  not read: it reaches neither the name nor the raw model.\<close>

definition sample_answer :: json where
  "sample_answer = JObj [(''edges'', JList [JObj [(''node'', JObj [
     (''hardwareIdentity'', JObj [(''deviceId'', JStr ''dev-1''), (''serialNumber'', JStr ''S1'')]),
     (''communicationProtocol'', JObj [(''address'', JStr ''10.0.0.5'')]),
     (''softwareIdentity'', JObj [(''model'', JStr ''ULXD4Q''), (''firmwareVersion'', JStr ''2.7'')]),
     (''type'', JStr ''ULX-D'')])]])]"

definition sample_payload :: payload where
  "sample_payload = (case shure_get_devices sample_answer of
     Inr (d # _) \<Rightarrow> (case transform_device_data shure_transformer (\<lambda>_. []) (JObj d) of Some r \<Rightarrow> r | None \<Rightarrow> []) | _ \<Rightarrow> [])"

theorem synchronised_device_has_no_model_witness:
  "\<exists>n. from_api sample_payload = Inr (Some n) \<and> nh_serial n = ''S1'' \<and> nh_name n = ''ULX-D'' \<and> nh_model n = []
     \<and> nh_device_type n = []"
proof -
  let ?d = "case shure_get_devices sample_answer of Inr (d # _) \<Rightarrow> d | _ \<Rightarrow> []"
  have r: "transform_device_data shure_transformer (\<lambda>_. []) (JObj ?d) = Some sample_payload" by code_simp
  have "(case from_api sample_payload of Inr (Some n) \<Rightarrow> nh_serial n = ''S1'' \<and> nh_name n = ''ULX-D'' | _ \<Rightarrow> False)"
    by code_simp
  then obtain n where n: "from_api sample_payload = Inr (Some n)" "nh_serial n = ''S1''" "nh_name n = ''ULX-D''"
    by (auto split: sum.splits option.splits)
  with synchronised_device_has_no_model[OF r n(1)] show ?thesis by blast
qed

section \<open>Answers that stop a synchronisation\<close>

lemma normalize_devices_fails:
  assumes "raw \<in> set raws" "transform raw = Inr (Some r)" "r \<noteq> []" "from_api r = Inl e"
  shows "isl (normalize_devices transform raws)"
proof -
  have "isl (foldE (normalize_one transform) raws acc)" for acc
    using assms(1)
  proof (induction raws arbitrary: acc)
    case (Cons x xs)
    show ?case
    proof (cases "x = raw")
      case True
      with assms(2-4) show ?thesis by (simp add: normalize_one_def)
    next
      case False
      with Cons show ?thesis by (cases "normalize_one transform x acc") auto
    qed
  qed simp
  then show ?thesis by (simp add: normalize_devices_def)
qed

lemma unreadable_payload_stops_sync:
  assumes "sy_plugin src = Some plugin" "vp_devices plugin = Inr raws" "raw \<in> set raws"
    and "vp_transform plugin raw = Inr (Some r)" "r \<noteq> []" "from_api r = Inl e"
  shows "\<not> sr_success (fst (sync_devices_for_manufacturer env tn now max_params force src s))
    \<and> snd (sync_devices_for_manufacturer env tn now max_params force src s) = s"
proof -
  define limit where "limit = pl_max_devices (poll_limits_from_settings (sy_settings src))"
  have limit: "1 \<le> limit"
    using clamped.range[of default_max_poll_devices hard_max_poll_devices "sy_settings src"]
    by (simp add: limit_def poll_limits_from_settings_def default_max_poll_devices_def hard_max_poll_devices_def)
  obtain e' where fails: "normalize_devices (vp_transform plugin) raws = Inl e'"
    using normalize_devices_fails[of raw raws "vp_transform plugin", OF assms(3-6)] by (auto simp: isl_def)
  have "isl (sync_batch env tn now max_params force limit plugin (sy_locked src) (consume raws limit) s)
      \<or> (\<exists>res. sync_batch env tn now max_params force limit plugin (sy_locked src) (consume raws limit) s = Inr (res, s)
          \<and> \<not> sr_success res)"
    using consume_complete[OF limit, of raws]
    by (cases "inventory_complete (consume raws limit)") (simp_all add: sync_batch_def fails sync_failure_def)
  then show ?thesis
    by (auto simp: sync_devices_for_manufacturer_def limit_def[symmetric] Let_def assms(1,2) sync_failure_def
        split: option.split sum.split)
qed

text \<open>A service that numbers its devices stops the synchronisation of its manufacturer: \<open>from_api\<close> strips
  the identifier, a number has no \<open>strip\<close>, and one such device is enough.\<close>

theorem numeric_identifier_stops_sync:
  assumes "sy_plugin src = Some (shure_plugin shown (Inr answer))" "shure_get_devices answer = Inr ds" "d \<in> set ds"
    and "field d ''id'' = JInt k" "transform_device_data shure_transformer shown (JObj d) \<noteq> None"
  shows "\<not> sr_success (fst (sync_devices_for_manufacturer env tn now max_params force src s))
    \<and> snd (sync_devices_for_manufacturer env tn now max_params force src s) = s"
proof -
  from assms(5) obtain r where r: "transform_device_data shure_transformer shown (JObj d) = Some r" by blast
  from transform_SomeD[OF r] obtain i cs where parts: "truthy (field d ''id'')" "r = device_payload shown d i cs"
    by (metis json.inject(6))
  note f = device_payload_fields[OF parts(2)]
  have "field r ''id'' = JNull" by (rule f(7)) (simp add: device_keys_def)
  then have "first_of r [''id'', ''api_device_id''] [] = JInt k" using parts(1) by (simp add: f(1) assms(4))
  then have "from_api r = Inl NotText" by (simp add: from_api_def)
  moreover have "r \<noteq> []" by (simp add: parts(2) device_payload_def)
  ultimately show ?thesis
    using unreadable_payload_stops_sync[OF assms(1), of "map JObj ds" "JObj d" r NotText] assms(2,3) r
    by (simp add: shure_plugin_def)
qed

definition numbered_answer :: json where
  "numbered_answer = JList [JObj [(''hardwareIdentity'', JObj [(''deviceId'', JInt 17)])]]"

theorem numeric_identifier_stops_sync_witness:
  "\<forall>env tn now mp force m s. \<not> sr_success (fst (sync_devices_for_manufacturer env tn now mp force
      \<lparr>sy_manufacturer = Some m, sy_locked = Some m,
       sy_plugin = Some (shure_plugin (\<lambda>_. []) (Inr numbered_answer :: unit + json)), sy_settings = Map.empty\<rparr> s))"
proof (intro allI)
  fix env tn now mp force m s
  let ?plugin = "shure_plugin (\<lambda>_. []) (Inr numbered_answer :: unit + json)"
  let ?src = "\<lparr>sy_manufacturer = Some m, sy_locked = Some m, sy_plugin = Some ?plugin, sy_settings = Map.empty\<rparr>"
  let ?d = "[(''hardwareIdentity'', JObj [(''deviceId'', JInt 17)]), (''id'', JInt 17)]"
  have ds: "shure_get_devices numbered_answer = Inr [?d]" by code_simp
  have id: "field ?d ''id'' = JInt 17" by code_simp
  have ok: "transform_device_data shure_transformer (\<lambda>_. []) (JObj ?d) \<noteq> None" by code_simp
  have src: "sy_plugin ?src = Some ?plugin" by simp
  have "?d \<in> set [?d]" by simp
  from numeric_identifier_stops_sync[OF src ds this id ok]
  show "\<not> sr_success (fst (sync_devices_for_manufacturer env tn now mp force ?src s))" by blast
qed

text \<open>The same for a device without a hardware identity: a null where the Shure client expects an object
  fails the whole inventory, and with it the synchronisation.\<close>

lemma null_identity_fails_inventory:
  assumes "device_nodes answer = Inr devices" "JObj d \<in> set devices" "map_of d ''hardwareIdentity'' = Some JNull"
  shows "shure_get_devices answer = Inl ()"
proof -
  have bad: "normalize_device d = Inl ()" using assms(3) by (simp add: normalize_device_def get_or_def)
  have "foldE add_normalized devices acc = Inl ()" for acc
    using assms(2)
  proof (induction devices arbitrary: acc)
    case (Cons x xs)
    show ?case
    proof (cases "x = JObj d")
      case True
      with bad show ?thesis by simp
    next
      case False
      with Cons show ?thesis by (cases "add_normalized x acc") auto
    qed
  qed simp
  with assms(1) show ?thesis by (simp add: shure_get_devices_def)
qed

text \<open>Identifiers of the hardware identity replace what the answer had, the other fields only fill gaps.\<close>

lemma map_of_set_default: "map_of (set_default k v d) x = (if x = k \<and> map_of d k = None then Some v else map_of d x)"
  by (auto simp: set_default_def map_add_def split: option.split)

lemma lift_field_Inr:
  assumes "lift_field source k target d = Inr d'"
  shows "\<forall>x. map_of d x \<noteq> None \<longrightarrow> map_of d' x = map_of d x"
    "\<forall>x. x \<noteq> target \<longrightarrow> map_of d' x = map_of d x"
  using assms by (auto simp: lift_field_def result_simps map_of_set_default split: if_splits)

lemma normalized_device_identity:
  assumes "normalize_device d = Inr d'"
  shows "\<exists>hardware. get_or d ''hardwareIdentity'' (JObj []) = JObj hardware
    \<and> field d' ''id'' = (if truthy (field hardware ''deviceId'') then field hardware ''deviceId'' else field d ''id'')"
    "x \<noteq> ''id'' \<Longrightarrow> map_of d x \<noteq> None \<Longrightarrow> map_of d' x = map_of d x"
proof -
  from assms obtain hardware where h: "as_dict (get_or d ''hardwareIdentity'' (JObj [])) = Inr hardware"
    unfolding normalize_device_def bindE_Inr_iff by blast
  define d1 where "d1 = (if truthy (field hardware ''deviceId'')
      then AList.update ''id'' (field hardware ''deviceId'') d else d)"
  from assms h obtain d2 d3 d4 where steps: "lift_field (JObj hardware) ''serialNumber'' ''serialNumber'' d1 = Inr d2"
    "lift_field (get_or d2 ''communicationProtocol'' (JObj [])) ''address'' ''ipAddress'' d2 = Inr d3"
    "lift_field (get_or d3 ''softwareIdentity'' (JObj [])) ''model'' ''model'' d3 = Inr d4"
    "lift_field (get_or d3 ''softwareIdentity'' (JObj [])) ''firmwareVersion'' ''firmwareVersion'' d4 = Inr d'"
    unfolding normalize_device_def Let_def d1_def by (auto simp: bindE_Inr_iff simp del: lift_field_def)
  have "map_of d' ''id'' = map_of d1 ''id''"
    using lift_field_Inr(2)[OF steps(1)] lift_field_Inr(2)[OF steps(2)] lift_field_Inr(2)[OF steps(3)]
      lift_field_Inr(2)[OF steps(4)] by simp
  then have "field d' ''id'' = (if truthy (field hardware ''deviceId'') then field hardware ''deviceId'' else field d ''id'')"
    by (simp add: field_def[of d'] d1_def update_conv') (simp add: field_def)
  moreover have "get_or d ''hardwareIdentity'' (JObj []) = JObj hardware"
    using h by (cases "get_or d ''hardwareIdentity'' (JObj [])") simp_all
  ultimately show "\<exists>hardware. get_or d ''hardwareIdentity'' (JObj []) = JObj hardware
    \<and> field d' ''id'' = (if truthy (field hardware ''deviceId'') then field hardware ''deviceId'' else field d ''id'')"
    by blast
  assume x: "x \<noteq> ''id''" "map_of d x \<noteq> None"
  then have d1: "map_of d1 x = map_of d x" by (simp add: d1_def update_conv')
  have d2: "map_of d2 x = map_of d x" using lift_field_Inr(1)[OF steps(1)] d1 x(2) by metis
  have d3: "map_of d3 x = map_of d x" using lift_field_Inr(1)[OF steps(2)] d2 x(2) by metis
  have d4: "map_of d4 x = map_of d x" using lift_field_Inr(1)[OF steps(3)] d3 x(2) by metis
  show "map_of d' x = map_of d x" using lift_field_Inr(1)[OF steps(4)] d4 x(2) by metis
qed

end
