(* ===== verification/Vendor_Streams.thy ===== *)
theory Vendor_Streams
  imports Vendor_Payloads
begin

text \<open>
  The realtime streams of the two vendors: the event stream of Sennheiser
  (\<open>integrations/sennheiser/sse_client.py\<close>), the web socket of Shure
  (\<open>integrations/shure/websocket.py\<close>), and the spacing of calls
  (\<open>services/common/base/rate_limiter.py\<close>).

  Bytes are characters.  What the network delivers is a list of chunks, or of messages, and how it
  ends; parsing JSON and the callback are parameters, the callback with a state of its own.
\<close>

section \<open>Lines of an event stream\<close>

definition line_feed :: char where "line_feed = char_of (10 :: nat)"

definition carriage_return :: char where "carriage_return = char_of (13 :: nat)"

record line_reader =
  lr_buffer :: string
  lr_discarding :: bool

definition empty_reader :: line_reader where
  "empty_reader = \<lparr>lr_buffer = [], lr_discarding = False\<rparr>"

definition take_segment :: "nat \<Rightarrow> string \<Rightarrow> line_reader \<Rightarrow> line_reader" where
  "take_segment max_line segment r =
     (if lr_discarding r then r
      else if length (lr_buffer r) + length segment > max_line then \<lparr>lr_buffer = [], lr_discarding = True\<rparr>
      else r\<lparr>lr_buffer := lr_buffer r @ segment\<rparr>)"

definition without_return :: "string \<Rightarrow> string" where
  "without_return line = (if line \<noteq> [] \<and> last line = carriage_return then butlast line else line)"

text \<open>All segments of a chunk but the last one complete a line.\<close>

fun read_segments :: "nat \<Rightarrow> string list \<Rightarrow> line_reader \<Rightarrow> string list \<times> line_reader" where
  "read_segments max_line [] r = ([], r)"
| "read_segments max_line [segment] r = ([], take_segment max_line segment r)"
| "read_segments max_line (segment # segments) r =
     (let r1 = take_segment max_line segment r;
          line = (if lr_discarding r1 then [] else [without_return (lr_buffer r1)]);
          (lines, r2) = read_segments max_line segments empty_reader
      in (line @ lines, r2))"

definition read_chunk :: "nat \<Rightarrow> string \<Rightarrow> line_reader \<Rightarrow> string list \<times> line_reader" where
  "read_chunk max_line chunk r = read_segments max_line (split_on line_feed chunk) r"

text \<open>A stream that breaks raises from the loop over its chunks: what was begun is not yielded.\<close>

fun read_stream :: "nat \<Rightarrow> bool \<Rightarrow> string list \<Rightarrow> line_reader \<Rightarrow> string list" where
  "read_stream max_line broken [] r =
     (if broken \<or> lr_discarding r \<or> lr_buffer r = [] then [] else [without_return (lr_buffer r)])"
| "read_stream max_line broken (piece # pieces) r =
     (let (lines, r1) = read_chunk max_line piece r in lines @ read_stream max_line broken pieces r1)"

definition iter_bounded_sse_lines :: "nat \<Rightarrow> bool \<Rightarrow> string list \<Rightarrow> string list" where
  "iter_bounded_sse_lines max_line broken pieces = read_stream max_line broken pieces empty_reader"

section \<open>Events\<close>

text \<open>What decoding or a callback comes to: a value, a decoding error, or another exception.\<close>

datatype 'a tried = Got 'a | Undecodable | Raised

type_synonym 's callback = "json \<Rightarrow> 's \<Rightarrow> unit tried \<times> 's"

definition dispatch_sse_event ::
  "(string \<Rightarrow> json tried) \<Rightarrow> 's callback \<Rightarrow> nat \<Rightarrow> string \<Rightarrow> 's \<Rightarrow> bool \<times> 's"
where
  "dispatch_sse_event loads callback max_event line s =
     (if \<not> is_prefix_of ''data: '' line then (True, s)
      else (let data = drop 6 line in
        if length data > max_event then (True, s)
        else (case loads data of
                Undecodable \<Rightarrow> (True, s)
              | Raised \<Rightarrow> (False, s)
              | Got v \<Rightarrow> (let (outcome, s') = callback v s in (outcome \<noteq> Raised, s')))))"

text \<open>\<open>bytes.strip\<close> removes ASCII whitespace; \<open>decode\<close> drops what is not ASCII.\<close>

definition is_ascii_space :: "char \<Rightarrow> bool" where
  "is_ascii_space c = (let n = of_char c :: nat in (9 \<le> n \<and> n \<le> 13) \<or> n = 32)"

definition event_name :: "string \<Rightarrow> string" where
  "event_name line = filter (\<lambda>c. of_char c < (128 :: nat))
     (rev (dropWhile is_ascii_space (rev (dropWhile is_ascii_space (drop 6 line)))))"

datatype stream_end = LinesEnded | CloseEvent | CallbackFailed

fun consume_lines ::
  "(string \<Rightarrow> json tried) \<Rightarrow> 's callback \<Rightarrow> nat \<Rightarrow> string \<Rightarrow> string list \<Rightarrow> 's \<Rightarrow> stream_end \<times> 's"
where
  "consume_lines loads callback max_event event [] s = (LinesEnded, s)"
| "consume_lines loads callback max_event event (line # lines) s =
     (if is_prefix_of ''event:'' line then
        (if event_name line = ''close'' then (CloseEvent, s)
         else consume_lines loads callback max_event (event_name line) lines s)
      else if line = [] then consume_lines loads callback max_event ''message'' lines s
      else if event = [] \<or> event = ''message'' then
        (let (proceed, s') = dispatch_sse_event loads callback max_event line s in
         if proceed then consume_lines loads callback max_event event lines s' else (CallbackFailed, s'))
      else consume_lines loads callback max_event event lines s)"

text \<open>True when the consumer returns, False when it raises: on a failed callback, or on a broken stream
  whose lines it used up.\<close>

definition consume_sse_messages ::
  "host_settings \<Rightarrow> (string \<Rightarrow> json tried) \<Rightarrow> 's callback \<Rightarrow> bool \<Rightarrow> string list \<Rightarrow> 's \<Rightarrow> bool \<times> 's"
where
  "consume_sse_messages settings loads callback broken pieces s =
     (let limits = sse_limits_from_settings settings;
          lines = iter_bounded_sse_lines (nat (sl_max_line_bytes limits)) broken pieces;
          (ending, s') = consume_lines loads callback (nat (sl_max_event_bytes limits)) ''message'' lines s
      in (case ending of CloseEvent \<Rightarrow> True | CallbackFailed \<Rightarrow> False | LinesEnded \<Rightarrow> \<not> broken, s'))"

section \<open>Opening an event subscription\<close>

record url =
  ul_scheme :: string
  ul_host :: string
  ul_port :: "int option"
  ul_path :: string
  ul_query :: string
  ul_fragment :: string

datatype sse_error =
    NoLocation
  | InvalidLocation
  | CrossOrigin
  | InvalidControlPath
  | NoSession
  | StreamStatus int
  | NoEventStream
  | ControlStatus int
  | StreamFailed

definition remove_prefix :: "string \<Rightarrow> string \<Rightarrow> string" where
  "remove_prefix p s = (if is_prefix_of p s then drop (length p) s else s)"

text \<open>\<open>join\<close> is \<open>httpx.URL.join\<close> with the base, None when it raises.\<close>

definition subscription_control_url :: "(string \<Rightarrow> url option) \<Rightarrow> url \<Rightarrow> string option \<Rightarrow> sse_error + url" where
  "subscription_control_url join base content_location =
     (case content_location of
        None \<Rightarrow> Inl NoLocation
      | Some location \<Rightarrow>
          if location = [] then Inl NoLocation
          else (case join location of
            None \<Rightarrow> Inl InvalidLocation
          | Some control \<Rightarrow>
              if ul_scheme control \<noteq> ul_scheme base \<or> ul_host control \<noteq> ul_host base \<or> ul_port control \<noteq> ul_port base
                 \<or> ul_query control \<noteq> [] \<or> ul_fragment control \<noteq> []
              then Inl CrossOrigin
              else (let parts = split_on CHR ''/'' (remove_prefix ''/'' (ul_path control)) in
                if length parts \<noteq> 5 \<or> take 4 parts \<noteq> [''api'', ''ssc'', ''state'', ''subscriptions'']
                then Inl InvalidControlPath
                else if last parts = [] then Inl NoSession
                else Inr control)))"

record sse_response =
  sv_status :: int
  sv_content_type :: "string option"
  sv_content_location :: "string option"
  sv_chunks :: "string list"
  sv_broken :: bool

definition is_event_stream :: "string option \<Rightarrow> bool" where
  "is_event_stream header =
     (lower (strip (takeWhile (\<lambda>c. c \<noteq> CHR '';'') (case header of None \<Rightarrow> [] | Some s \<Rightarrow> s))) = ''text/event-stream'')"

text \<open>The subscription: the error raised or a return, the control request it sent, and the callback's
  state.  \<open>opened\<close> is the response of the stream, \<open>put\<close> the status of the control request.\<close>

definition sse_subscribe ::
  "host_settings \<Rightarrow> (string \<Rightarrow> json tried) \<Rightarrow> (string \<Rightarrow> url option) \<Rightarrow> url \<Rightarrow> string
     \<Rightarrow> unit + sse_response \<Rightarrow> (url \<Rightarrow> string list \<Rightarrow> unit + int) \<Rightarrow> 's callback \<Rightarrow> 's
     \<Rightarrow> (sse_error + unit) \<times> (url \<times> string list) option \<times> 's"
where
  "sse_subscribe settings loads join base device_id opened put callback s =
     (case opened of
        Inl _ \<Rightarrow> (Inl StreamFailed, None, s)
      | Inr response \<Rightarrow>
          if sv_status response \<noteq> 200 then (Inl (StreamStatus (sv_status response)), None, s)
          else if \<not> is_event_stream (sv_content_type response) then (Inl NoEventStream, None, s)
          else (case subscription_control_url join base (sv_content_location response) of
            Inl e \<Rightarrow> (Inl e, None, s)
          | Inr control \<Rightarrow>
              let resources = [''/api/devices/'' @ device_id]; sent = Some (control, resources) in
              (case put control resources of
                 Inl _ \<Rightarrow> (Inl StreamFailed, sent, s)
               | Inr status \<Rightarrow>
                   if \<not> (200 \<le> status \<and> status < 300) then (Inl (ControlStatus status), sent, s)
                   else (let (returns, s') =
                           consume_sse_messages settings loads callback (sv_broken response) (sv_chunks response) s
                         in (if returns then Inr () else Inl StreamFailed, sent, s')))))"

section \<open>The web socket\<close>

text \<open>How a socket operation fails: the peer closed in order, closed with an error, or anything else.\<close>

datatype socket_failure = ClosedOk | ClosedError | OtherFailure

datatype socket_error = SocketError | VendorError

text \<open>The transport identifier of the first message: \<open>Raised\<close> is the attribute error of a payload that is
  no object.\<close>

definition parse_transport_id :: "(string \<Rightarrow> json tried) \<Rightarrow> string \<Rightarrow> json tried" where
  "parse_transport_id loads message =
     (case loads message of
        Undecodable \<Rightarrow> Got JNull
      | Raised \<Rightarrow> Raised
      | Got (JObj d) \<Rightarrow> Got (field d ''transportId'')
      | Got _ \<Rightarrow> Raised)"

definition subscription_path :: "(json \<Rightarrow> string) \<Rightarrow> string \<Rightarrow> json \<Rightarrow> string" where
  "subscription_path shown device_id transport_id =
     ''/api/v1/devices/'' @ device_id @ ''/identify/subscription/'' @ text_of shown transport_id"

text \<open>The reply to the subscription request: \<open>Inl True\<close> is an error of the vendor client, \<open>Inl False\<close> any
  other exception.\<close>

definition subscribe_to_transport :: "bool + json \<Rightarrow> socket_error + unit" where
  "subscribe_to_transport reply =
     (case reply of
        Inl vendor \<Rightarrow> Inl (if vendor then VendorError else SocketError)
      | Inr answer \<Rightarrow>
          if truthy answer
          then (case answer of JObj d \<Rightarrow> requireE (field d ''status'' = JStr ''success'') SocketError | _ \<Rightarrow> Inl SocketError)
          else Inl SocketError)"

fun dispatch_messages :: "(string \<Rightarrow> json tried) \<Rightarrow> 's callback \<Rightarrow> string list \<Rightarrow> 's \<Rightarrow> 's" where
  "dispatch_messages loads callback [] s = s"
| "dispatch_messages loads callback (message # messages) s =
     dispatch_messages loads callback messages
       (case loads message of Got v \<Rightarrow> snd (callback v s) | _ \<Rightarrow> s)"

definition socket_outcome :: "socket_failure \<Rightarrow> socket_error + unit" where
  "socket_outcome f = (if f = ClosedOk then Inr () else Inl SocketError)"

text \<open>A connection: its first message, the messages that follow, and the failure that ends them, if any.\<close>

record socket =
  so_first :: "socket_failure + string"
  so_messages :: "string list"
  so_failure :: "socket_failure option"

definition socket_subscribe ::
  "bool \<Rightarrow> string option \<Rightarrow> (string \<Rightarrow> json tried) \<Rightarrow> (json \<Rightarrow> string) \<Rightarrow> string \<Rightarrow> socket_failure + socket
     \<Rightarrow> (string \<Rightarrow> bool + json) \<Rightarrow> 's callback \<Rightarrow> 's \<Rightarrow> (socket_error + unit) \<times> 's"
where
  "socket_subscribe installed address loads shown device_id connection post callback s =
     (if \<not> installed \<or> address = None \<or> address = Some [] then (Inl SocketError, s)
      else (case connection of
        Inl f \<Rightarrow> (socket_outcome f, s)
      | Inr c \<Rightarrow>
        (case so_first c of
          Inl f \<Rightarrow> (socket_outcome f, s)
        | Inr message \<Rightarrow>
          (case parse_transport_id loads message of
            Got transport_id \<Rightarrow>
              if \<not> truthy transport_id then (Inl SocketError, s)
              else (case subscribe_to_transport (post (subscription_path shown device_id transport_id)) of
                Inl e \<Rightarrow> (Inl e, s)
              | Inr _ \<Rightarrow> (case so_failure c of None \<Rightarrow> Inr () | Some f \<Rightarrow> socket_outcome f,
                          dispatch_messages loads callback (so_messages c) s))
          | _ \<Rightarrow> (Inl SocketError, s)))))"

section \<open>Spacing of calls\<close>

text \<open>One call of a decorated method: the entry of the shared cache, the clock when it looks and, when it
  has to sleep, the clock after the sleep.  The result is the moment of the call, which is stored.\<close>

definition call_moment :: "rat \<Rightarrow> rat option \<Rightarrow> rat \<Rightarrow> rat \<Rightarrow> rat" where
  "call_moment calls_per_second cached now woken =
     (let min_interval = 1 / calls_per_second;
          last_call = (case cached of None \<Rightarrow> 0 | Some t \<Rightarrow> t)
      in if now - last_call < min_interval then woken else now)"

definition sleep_needed :: "rat \<Rightarrow> rat option \<Rightarrow> rat \<Rightarrow> rat" where
  "sleep_needed calls_per_second cached now =
     max 0 (1 / calls_per_second - (now - (case cached of None \<Rightarrow> 0 | Some t \<Rightarrow> t)))"

text \<open>An entry lives sixty seconds.\<close>

definition cached_call :: "rat option \<Rightarrow> rat \<Rightarrow> rat option" where
  "cached_call stored now = (case stored of None \<Rightarrow> None | Some t \<Rightarrow> if now < t + 60 then Some t else None)"

section \<open>Facts about lines\<close>

lemma split_on_not_Nil [simp]: "split_on sep s \<noteq> []"
  by (induction s) (auto split: list.split)

lemma split_on_prefix:
  "sep \<notin> set p \<Longrightarrow> split_on sep (p @ s) = (p @ hd (split_on sep s)) # tl (split_on sep s)"
  by (induction p) auto

lemma split_on_append:
  "split_on sep (a @ b) = butlast (split_on sep a) @ split_on sep (last (split_on sep a) @ b)"
proof (induction a)
  case (Cons c a)
  obtain w ws where w: "split_on sep a = w # ws" by (cases "split_on sep a") simp_all
  show ?case
  proof (cases "c = sep")
    case True
    with Cons show ?thesis by simp
  next
    case False
    with Cons w show ?thesis by (cases ws) auto
  qed
qed simp

lemma last_split_on: "sep \<notin> set (last (split_on sep s))"
proof (induction s)
  case (Cons c s)
  obtain w ws where w: "split_on sep s = w # ws" by (cases "split_on sep s") simp_all
  with Cons show ?case by (cases ws) auto
qed simp

text \<open>What the reader knows of a line begun: its text while it fits, else that it is to be dropped.\<close>

definition partial_line :: "nat \<Rightarrow> string \<Rightarrow> line_reader" where
  "partial_line max_line p =
     (if length p \<le> max_line then \<lparr>lr_buffer = p, lr_discarding = False\<rparr> else \<lparr>lr_buffer = [], lr_discarding = True\<rparr>)"

lemma take_segment_partial: "take_segment n seg (partial_line n p) = partial_line n (p @ seg)"
  by (auto simp: take_segment_def partial_line_def)

lemma empty_partial: "empty_reader = partial_line n []"
  by (simp add: empty_reader_def partial_line_def)

definition kept_lines :: "nat \<Rightarrow> string list \<Rightarrow> string list" where
  "kept_lines max_line ls = map without_return (filter (\<lambda>l. length l \<le> max_line) ls)"

lemma kept_lines_simps:
  "kept_lines n [] = []"
  "kept_lines n (l # ls) = (if length l \<le> n then [without_return l] else []) @ kept_lines n ls"
  "kept_lines n (ls @ ms) = kept_lines n ls @ kept_lines n ms"
  by (simp_all add: kept_lines_def)

lemma read_segments_partial:
  "segments \<noteq> [] \<Longrightarrow> read_segments n segments (partial_line n p)
     = (kept_lines n (butlast ((p @ hd segments) # tl segments)),
        partial_line n (last ((p @ hd segments) # tl segments)))"
proof (induction segments arbitrary: p)
  case (Cons s segments)
  show ?case
  proof (cases segments)
    case Nil
    then show ?thesis by (simp add: take_segment_partial kept_lines_simps)
  next
    case (Cons s' rest)
    then have "read_segments n segments empty_reader
        = (kept_lines n (butlast segments), partial_line n (last segments))"
      using Cons.IH[of "[]"] by (simp add: empty_partial[of n])
    with Cons show ?thesis
      by (simp add: take_segment_partial kept_lines_simps) (simp add: partial_line_def)
  qed
qed simp

lemma read_chunk_partial:
  assumes "line_feed \<notin> set p"
  shows "read_chunk n c (partial_line n p)
    = (kept_lines n (butlast (split_on line_feed (p @ c))), partial_line n (last (split_on line_feed (p @ c))))"
  unfolding read_chunk_def split_on_prefix[OF assms] by (rule read_segments_partial) simp

lemma kept_lines_all: "\<forall>l \<in> set ls. length l \<le> n \<and> without_return l = l \<Longrightarrow> kept_lines n ls = ls"
  by (induction ls) (simp_all add: kept_lines_simps)

text \<open>The reference: the lines of the whole text that fit, the last one only if there is something of it and
  the stream ended in order.\<close>

definition reference_lines :: "nat \<Rightarrow> bool \<Rightarrow> string \<Rightarrow> string list" where
  "reference_lines max_line broken s =
     (let ls = split_on line_feed s in
      kept_lines max_line (butlast ls) @ (if broken \<or> last ls = [] then [] else kept_lines max_line [last ls]))"

lemma read_stream_partial:
  "line_feed \<notin> set p \<Longrightarrow> read_stream n broken pieces (partial_line n p) = reference_lines n broken (p @ concat pieces)"
proof (induction pieces arbitrary: p)
  case Nil
  then have "split_on line_feed p = [p]" using split_on_prefix[of line_feed p "[]"] by simp
  then show ?case by (auto simp: reference_lines_def partial_line_def kept_lines_simps)
next
  case (Cons c pieces)
  let ?q = "last (split_on line_feed (p @ c))"
  have "line_feed \<notin> set ?q" by (rule last_split_on)
  from Cons.IH[OF this] show ?case
    by (simp add: read_chunk_partial[OF Cons.prems] reference_lines_def Let_def butlast_append kept_lines_simps
        split_on_append[of line_feed "p @ c" "concat pieces", simplified])
qed

text \<open>C36: The lines do not depend on where the network cuts the stream: they are those of the whole text within
  the ceiling.\<close>

theorem lines_independent_of_chunks:
  "iter_bounded_sse_lines n broken pieces = reference_lines n broken (concat pieces)"
  using read_stream_partial[of "[]" n broken pieces] by (simp add: iter_bounded_sse_lines_def empty_partial[of n])

text \<open>The reader never holds more than the ceiling, whatever arrives.\<close>

fun readers :: "nat \<Rightarrow> string list \<Rightarrow> line_reader \<Rightarrow> line_reader list" where
  "readers n [] r = [r]"
| "readers n (c # cs) r = r # readers n cs (snd (read_chunk n c r))"

lemma reader_bounded: "r \<in> set (readers n pieces empty_reader) \<Longrightarrow> length (lr_buffer r) \<le> n"
proof -
  have "r \<in> set (readers n pieces (partial_line n p)) \<Longrightarrow> line_feed \<notin> set p \<Longrightarrow> length (lr_buffer r) \<le> n" for p
  proof (induction pieces arbitrary: p)
    case Nil
    then show ?case by (simp add: partial_line_def split: if_splits)
  next
    case (Cons c pieces)
    from Cons.prems(1) consider "r = partial_line n p" | "r \<in> set (readers n pieces (snd (read_chunk n c (partial_line n p))))"
      by auto
    then show ?case
    proof cases
      case 1
      then show ?thesis by (simp add: partial_line_def)
    next
      case 2
      then show ?thesis
        using Cons.IH[OF _ last_split_on] by (simp add: read_chunk_partial[OF Cons.prems(2)])
    qed
  qed
  from this[of "[]"] show "r \<in> set (readers n pieces empty_reader) \<Longrightarrow> length (lr_buffer r) \<le> n"
    by (simp add: empty_partial[of n])
qed

section \<open>Events arrive\<close>

text \<open>A stream as the service writes it: each event one \<open>data\<close> line and a blank one.\<close>

definition encode_events :: "string list \<Rightarrow> string" where
  "encode_events ds = concat (map (\<lambda>d. ''data: '' @ d @ [line_feed, line_feed]) ds)"

lemma no_feed: "line_feed \<notin> set ''data: ''" "CHR '' '' \<noteq> carriage_return"
  by code_simp+

lemma split_encoded:
  assumes "\<forall>d \<in> set ds. line_feed \<notin> set d"
  shows "split_on line_feed (encode_events ds) = concat (map (\<lambda>d. [''data: '' @ d, []]) ds) @ [[]]"
  using assms
proof (induction ds)
  case Nil
  then show ?case by (simp add: encode_events_def)
next
  case (Cons d ds)
  have clean: "line_feed \<notin> set (''data: '' @ d)" using Cons.prems no_feed by auto
  have "encode_events (d # ds) = (''data: '' @ d) @ line_feed # line_feed # encode_events ds"
    by (simp add: encode_events_def)
  then have "split_on line_feed (encode_events (d # ds)) = (''data: '' @ d) # [] # split_on line_feed (encode_events ds)"
    by (simp only: split_on_prefix[OF clean]) simp
  with Cons show ?case by simp
qed

definition plain_event :: "host_settings \<Rightarrow> string \<Rightarrow> bool" where
  "plain_event st d \<longleftrightarrow> line_feed \<notin> set d \<and> (d = [] \<or> last d \<noteq> carriage_return)
     \<and> int (length d) + 6 \<le> sl_max_line_bytes (sse_limits_from_settings st)
     \<and> int (length d) \<le> sl_max_event_bytes (sse_limits_from_settings st)"

lemma consume_events:
  assumes "\<forall>(d, v) \<in> set evs. loads d = Got v \<and> length d \<le> k" "\<forall>v s. fst (callback v s) \<noteq> Raised"
  shows "consume_lines loads callback k ''message'' (concat (map (\<lambda>d. [''data: '' @ d, []]) (map fst evs))) s
    = (LinesEnded, fold (\<lambda>v s. snd (callback v s)) (map snd evs) s)"
  using assms(1)
proof (induction evs arbitrary: s)
  case (Cons e evs)
  obtain d v where e: "e = (d, v)" by fastforce
  have "fst (callback v s) \<noteq> Raised" using assms(2) by blast
  then have "dispatch_sse_event loads callback k (''data: '' @ d) s = (True, snd (callback v s))"
    using Cons.prems by (cases "callback v s") (simp add: dispatch_sse_event_def e)
  with Cons show ?case by (simp add: e)
qed simp

text \<open>C35: However the network cuts the stream, every event within the limits reaches the callback, once and in
  order, also the events before a break.\<close>

theorem encoded_events_delivered:
  assumes "concat pieces = encode_events (map fst evs)"
    and "\<forall>(d, v) \<in> set evs. plain_event st d \<and> loads d = Got v" "\<forall>v s. fst (callback v s) \<noteq> Raised"
  shows "consume_sse_messages st loads callback broken pieces s
    = (\<not> broken, fold (\<lambda>v s. snd (callback v s)) (map snd evs) s)"
proof -
  define n where "n = nat (sl_max_line_bytes (sse_limits_from_settings st))"
  define k where "k = nat (sl_max_event_bytes (sse_limits_from_settings st))"
  let ?ls = "concat (map (\<lambda>d. [''data: '' @ d, []]) (map fst evs))"
  have "line_feed \<notin> set d" if "d \<in> set (map fst evs)" for d using assms(2) that by (auto simp: plain_event_def)
  then have "split_on line_feed (concat pieces) = ?ls @ [[]]" using assms(1) split_encoded[of "map fst evs"] by simp
  then have lines: "iter_bounded_sse_lines n broken pieces = kept_lines n ?ls"
    unfolding lines_independent_of_chunks reference_lines_def Let_def by simp
  have fit: "length l \<le> n \<and> without_return l = l" if "l \<in> set ?ls" for l
  proof (cases "l = []")
    case False
    with that obtain d where d: "d \<in> set (map fst evs)" "l = ''data: '' @ d" by auto
    with assms(2) have p: "plain_event st d" by auto
    have "last l \<noteq> carriage_return"
      using p d(2) no_feed(2) by (cases "d = []") (auto simp: plain_event_def)
    then show ?thesis using p by (simp add: d(2) without_return_def plain_event_def n_def nat_le_iff le_nat_iff)
  qed (simp add: without_return_def)
  then have "kept_lines n ?ls = ?ls" by (intro kept_lines_all) blast
  moreover have "\<forall>(d, v) \<in> set evs. loads d = Got v \<and> length d \<le> k"
    using assms(2) by (auto simp: plain_event_def k_def le_nat_iff)
  ultimately have "consume_lines loads callback k ''message'' (iter_bounded_sse_lines n broken pieces) s
      = (LinesEnded, fold (\<lambda>v s. snd (callback v s)) (map snd evs) s)"
    using consume_events[of evs loads k callback s] assms(3) lines by simp
  then show ?thesis by (simp add: consume_sse_messages_def Let_def n_def[symmetric] k_def[symmetric])
qed

theorem encoded_events_delivered_witness:
  "let evs = [(''{1}'', JInt 1), (''{2}'', JInt 2)];
       loads = (\<lambda>d. if d = ''{1}'' then Got (JInt 1) else Got (JInt 2));
       callback = (\<lambda>v (s :: json list). (Got (), s @ [v]));
       pieces = [take 9 (encode_events (map fst evs)), drop 9 (encode_events (map fst evs))]
   in consume_sse_messages Map.empty loads callback True pieces [] = (False, [JInt 1, JInt 2])"
proof -
  let ?evs = "[(''{1}'', JInt 1), (''{2}'', JInt 2)]"
  let ?loads = "\<lambda>d. if d = ''{1}'' then Got (JInt 1) else Got (JInt 2)"
  let ?callback = "\<lambda>v (s :: json list). (Got (), s @ [v])"
  let ?pieces = "[take 9 (encode_events (map fst ?evs)), drop 9 (encode_events (map fst ?evs))]"
  have "plain_event Map.empty ''{1}''" "plain_event Map.empty ''{2}''" by code_simp+
  then have "\<forall>(d, v) \<in> set ?evs. plain_event Map.empty d \<and> ?loads d = Got v" by simp
  moreover have "concat ?pieces = encode_events (map fst ?evs)" by simp
  moreover have "\<forall>v s. fst (?callback v s) \<noteq> Raised" by simp
  ultimately show ?thesis
    using encoded_events_delivered[of ?pieces ?evs Map.empty ?loads ?callback True "[]"] by (simp add: Let_def)
qed

text \<open>The first callback that fails ends the subscription: the events after it are lost.\<close>

lemma failed_callback_ends_stream:
  assumes "loads d = Got v" "length d \<le> k" "fst (callback v s) = Raised"
  shows "consume_lines loads callback k ''message'' ((''data: '' @ d) # lines) s = (CallbackFailed, snd (callback v s))"
  using assms by (cases "callback v s") (simp add: dispatch_sse_event_def)

section \<open>The control request\<close>

lemma five_parts:
  assumes "length parts = 5" "take 4 parts = [a, b, c, d]"
  shows "parts = [a, b, c, d, last parts]"
proof -
  from assms(1) obtain v w x y z where "parts = [v, w, x, y, z]" by (auto simp: numeral_eq_Suc length_Suc_conv)
  with assms(2) show ?thesis by simp
qed

lemma control_url_origin:
  assumes "subscription_control_url join base location = Inr u"
  shows "ul_scheme u = ul_scheme base \<and> ul_host u = ul_host base \<and> ul_port u = ul_port base
    \<and> ul_query u = [] \<and> ul_fragment u = []
    \<and> (\<exists>session. session \<noteq> [] \<and> CHR ''/'' \<notin> set session
        \<and> remove_prefix ''/'' (ul_path u) = ''api/ssc/state/subscriptions/'' @ session)"
proof -
  let ?parts = "split_on CHR ''/'' (remove_prefix ''/'' (ul_path u))"
  from assms have origin: "ul_scheme u = ul_scheme base" "ul_host u = ul_host base" "ul_port u = ul_port base"
    "ul_query u = []" "ul_fragment u = []"
    and parts: "length ?parts = 5" "take 4 ?parts = [''api'', ''ssc'', ''state'', ''subscriptions'']" "last ?parts \<noteq> []"
    by (auto simp: subscription_control_url_def Let_def split: option.splits if_splits)
  have "remove_prefix ''/'' (ul_path u) = join_with CHR ''/'' ?parts" by (rule join_split[symmetric])
  also have "?parts = [''api'', ''ssc'', ''state'', ''subscriptions'', last ?parts]" by (rule five_parts[OF parts(1,2)])
  finally have "remove_prefix ''/'' (ul_path u) = ''api/ssc/state/subscriptions/'' @ last ?parts" by simp
  with origin parts(3) last_split_on show ?thesis by blast
qed

text \<open>C37: The request that carries the credentials goes to the origin of the service and names a session of its
  subscriptions, whatever the stream's headers say.\<close>

theorem control_request_same_origin:
  assumes "sse_subscribe st loads join base device_id opened put callback s = (res, Some (u, resources), s')"
  shows "ul_scheme u = ul_scheme base \<and> ul_host u = ul_host base \<and> ul_port u = ul_port base
    \<and> ul_query u = [] \<and> ul_fragment u = []
    \<and> (\<exists>session. session \<noteq> [] \<and> CHR ''/'' \<notin> set session
        \<and> remove_prefix ''/'' (ul_path u) = ''api/ssc/state/subscriptions/'' @ session)
    \<and> resources = [''/api/devices/'' @ device_id]"
proof -
  have "\<exists>location. subscription_control_url join base location = Inr u"
    using assms by (auto simp: sse_subscribe_def Let_def split: sum.splits if_splits prod.splits)
  moreover have "resources = [''/api/devices/'' @ device_id]"
    using assms by (auto simp: sse_subscribe_def Let_def split: sum.splits if_splits prod.splits)
  ultimately show ?thesis using control_url_origin by blast
qed

definition sample_base :: url where
  "sample_base = \<lparr>ul_scheme = ''https'', ul_host = ''10.0.0.9'', ul_port = None, ul_path = ''/'', ul_query = [], ul_fragment = []\<rparr>"

definition sample_join :: "string \<Rightarrow> url option" where
  "sample_join location = Some (sample_base\<lparr>ul_path := location\<rparr>)"

definition sample_stream :: sse_response where
  "sample_stream = \<lparr>sv_status = 200, sv_content_type = Some ''Text/Event-Stream; charset=utf-8'',
     sv_content_location = Some ''/api/ssc/state/subscriptions/42'', sv_chunks = [], sv_broken = False\<rparr>"

theorem control_request_same_origin_witness:
  "\<exists>u session. sse_subscribe Map.empty (\<lambda>_. Undecodable) sample_join sample_base ''d1'' (Inr sample_stream) (\<lambda>_ _. Inr 200)
       (\<lambda>_ (s :: nat). (Got (), s)) 0 = (Inr (), Some (u, [''/api/devices/d1'']), 0)
     \<and> ul_host u = ''10.0.0.9'' \<and> remove_prefix ''/'' (ul_path u) = ''api/ssc/state/subscriptions/'' @ session"
proof -
  let ?u = "sample_base\<lparr>ul_path := ''/api/ssc/state/subscriptions/42''\<rparr>"
  have run: "sse_subscribe Map.empty (\<lambda>_. Undecodable) sample_join sample_base ''d1'' (Inr sample_stream) (\<lambda>_ _. Inr 200)
       (\<lambda>_ (s :: nat). (Got (), s)) 0 = (Inr (), Some (?u, [''/api/devices/d1'']), 0)" by code_simp
  have "ul_host sample_base = ''10.0.0.9''" by code_simp
  with control_request_same_origin[OF run] run show ?thesis by metis
qed

section \<open>The web socket delivers\<close>

definition decoded :: "(string \<Rightarrow> json tried) \<Rightarrow> string list \<Rightarrow> json list" where
  "decoded loads messages = List.map_filter (\<lambda>m. case loads m of Got v \<Rightarrow> Some v | _ \<Rightarrow> None) messages"

lemma dispatch_messages_decoded:
  "dispatch_messages loads callback messages s = fold (\<lambda>v s. snd (callback v s)) (decoded loads messages) s"
  by (induction messages arbitrary: s) (simp_all add: decoded_def map_filter_simps split: tried.split)

text \<open>After the handshake every message that decodes reaches the callback, in order, whatever the callback
  does with the ones before; without the handshake none does.\<close>

theorem socket_delivers_all:
  "snd (socket_subscribe installed address loads shown device_id connection post callback s)
    = (case connection of
         Inr c \<Rightarrow> (case so_first c of
             Inr m \<Rightarrow> (case parse_transport_id loads m of
                 Got i \<Rightarrow> if installed \<and> address \<noteq> None \<and> address \<noteq> Some [] \<and> truthy i
                             \<and> post (subscription_path shown device_id i) \<in> Inr ` {JObj d |d. field d ''status'' = JStr ''success''}
                           then fold (\<lambda>v s. snd (callback v s)) (decoded loads (so_messages c)) s else s
               | _ \<Rightarrow> s)
           | Inl _ \<Rightarrow> s)
       | Inl _ \<Rightarrow> s)"
proof -
  have ok: "subscribe_to_transport reply = Inr () \<longleftrightarrow> reply \<in> Inr ` {JObj d |d. field d ''status'' = JStr ''success''}" for reply
    by (cases reply)
      (auto simp: subscribe_to_transport_def requireE_def field_def split: json.splits if_splits option.splits)
  show ?thesis
    unfolding socket_subscribe_def dispatch_messages_decoded ok[symmetric]
    by (auto split: sum.split tried.split)
qed

section \<open>Calls are spaced, one at a time\<close>

text \<open>Calls one after another: each looks after the one before it was made, and a sleep is at least as long
  as asked for.\<close>

fun calls_made :: "rat \<Rightarrow> (rat \<times> rat) list \<Rightarrow> rat option \<Rightarrow> rat list" where
  "calls_made cps [] stored = []"
| "calls_made cps ((now, woken) # readings) stored =
     (let t = call_moment cps (cached_call stored now) now woken in t # calls_made cps readings (Some t))"

fun readings_ok :: "rat \<Rightarrow> (rat \<times> rat) list \<Rightarrow> rat option \<Rightarrow> bool" where
  "readings_ok cps [] stored = True"
| "readings_ok cps ((now, woken) # readings) stored =
     (0 \<le> now \<and> (case stored of None \<Rightarrow> True | Some t \<Rightarrow> t \<le> now)
      \<and> now + sleep_needed cps (cached_call stored now) now \<le> woken
      \<and> readings_ok cps readings (Some (call_moment cps (cached_call stored now) now woken)))"

lemma next_call_spaced:
  assumes "1 / 60 \<le> cps" "t \<le> now" "now + sleep_needed cps (cached_call (Some t) now) now \<le> woken"
  shows "t + 1 / cps \<le> call_moment cps (cached_call (Some t) now) now woken"
proof -
  have "1 / cps \<le> 60" using assms(1) by (simp add: field_simps)
  then show ?thesis
    using assms(2,3) by (auto simp: cached_call_def call_moment_def sleep_needed_def Let_def)
qed

theorem sequential_calls_spaced:
  assumes "1 / 60 \<le> cps" "readings_ok cps readings stored" "calls_made cps readings stored = xs @ t # u # ys"
  shows "t + 1 / cps \<le> u"
  using assms(2,3)
proof (induction readings arbitrary: stored xs)
  case (Cons r readings)
  obtain now woken where r: "r = (now, woken)" by fastforce
  define t0 where "t0 = call_moment cps (cached_call stored now) now woken"
  have rest: "readings_ok cps readings (Some t0)" using Cons.prems(1) by (simp add: r t0_def)
  have made: "t0 # calls_made cps readings (Some t0) = xs @ t # u # ys"
    using Cons.prems(2) by (simp add: r Let_def t0_def[symmetric])
  show ?case
  proof (cases xs)
    case (Cons x xs')
    then have "calls_made cps readings (Some t0) = xs' @ t # u # ys" using made by auto
    with Cons.IH[OF rest] show ?thesis .
  next
    case Nil
    then have t: "t = t0" and u: "calls_made cps readings (Some t) = u # ys" using made by auto
    then obtain now2 woken2 more where r2: "readings = (now2, woken2) # more" by (cases readings) auto
    have "u = call_moment cps (cached_call (Some t) now2) now2 woken2" using u by (simp add: r2 Let_def)
    moreover have "t \<le> now2" "now2 + sleep_needed cps (cached_call (Some t) now2) now2 \<le> woken2"
      using rest by (simp_all add: r2 t)
    ultimately show ?thesis using next_call_spaced[OF assms(1)] by simp
  qed
qed simp

theorem sequential_calls_spaced_witness:
  "calls_made 5 [(100, 100), (100 + 1/10, 100 + 1/5)] None = [100, 100 + 1/5] \<and> (100 :: rat) + 1 / 5 \<le> 100 + 1 / 5"
proof -
  have ok: "readings_ok 5 [(100, 100), (100 + 1/10, 100 + 1/5)] None" by code_simp
  have calls: "calls_made 5 [(100, 100), (100 + 1/10, 100 + 1/5)] None = [] @ 100 # (100 + 1/5) # []" by code_simp
  show ?thesis using sequential_calls_spaced[OF _ ok calls] calls by simp
qed

text \<open>Two callers that look before either stores make their calls at the same moment: the cache entry is
  read and written without a lock.\<close>

lemma simultaneous_calls_not_spaced:
  "call_moment 5 (cached_call (Some 100) 101) 101 woken = 101" "call_moment 5 (cached_call (Some 100) 101) 101 woken' = 101"
  by (simp_all add: call_moment_def cached_call_def)

end
