(* ===== verification/Monitoring_Access.thy ===== *)
theory Monitoring_Access
  imports Tenant_Scope Workload_Limits "HOL-Library.Product_Lexorder"
begin

text \<open>
  Monitoring groups and performer assignments: what a user may reach through monitoring groups
  (\<open>services/monitoring/monitoring_access.py\<close>), the querysets of units, performers and assignments
  (\<open>models/hardware/wireless_unit.py\<close>, \<open>models/monitoring/performer.py\<close>,
  \<open>models/monitoring/performer_assignment.py\<close>), and the assignment service
  (\<open>services/core/performer_assignment.py\<close>).

  The tables here carry what the querysets join.  For the tenant filter a row is turned into the
  \<open>row\<close> of \<open>Tenant_Scope\<close>: its key and its joins under the paths that filter looks up.
\<close>

section \<open>Tables\<close>

record building_entry =
  bd_pk :: nat
  bd_org :: "nat option"
  bd_campus :: "nat option"
  bd_site :: "nat option"

record location_entry =
  lo_pk :: nat
  lo_building :: nat
  lo_room :: "nat option"
  lo_active :: bool

text \<open>A row placed at a location: a chassis, a charger or a display wall.\<close>

record placed =
  pd_pk :: nat
  pd_location :: "nat option"

record part =
  pt_pk :: nat
  pt_parent :: nat

record unit_row =
  wu_pk :: nat
  wu_serial :: string
  wu_chassis :: nat
  wu_resource :: "nat option"

text \<open>A monitoring group; \<open>tm_locations\<close> are its location rows with \<open>include_all_rooms\<close>.\<close>

record team =
  tm_pk :: nat
  tm_active :: bool
  tm_users :: "nat list"
  tm_channels :: "nat list"
  tm_locations :: "(nat \<times> bool) list"

record performer_assignment =
  pa_pk :: nat
  pa_performer :: nat
  pa_unit :: nat
  pa_team :: nat
  pa_priority :: string
  pa_notes :: string
  pa_active :: bool
  pa_battery :: bool
  pa_signal :: bool
  pa_audio :: bool
  pa_offline :: bool
  pa_assigned_by :: nat
  pa_assigned_at :: time
  pa_updated :: time

record monitoring_db =
  md_buildings :: "building_entry list"
  md_rooms :: "part list"
  md_locations :: "location_entry list"
  md_chassis :: "placed list"
  md_channels :: "part list"
  md_units :: "unit_row list"
  md_chargers :: "placed list"
  md_slots :: "part list"
  md_walls :: "placed list"
  md_sections :: "part list"
  md_teams :: "team list"
  md_performers :: "nat list"
  md_assignments :: "performer_assignment list"

text \<open>Foreign keys.\<close>

definition by_pk :: "('a \<Rightarrow> nat) \<Rightarrow> 'a list \<Rightarrow> nat \<Rightarrow> 'a option" where
  "by_pk key rows pk = find (\<lambda>r. key r = pk) rows"

definition location_building :: "monitoring_db \<Rightarrow> location_entry \<Rightarrow> building_entry option" where
  "location_building db l = by_pk bd_pk (md_buildings db) (lo_building l)"

definition place :: "monitoring_db \<Rightarrow> nat option \<Rightarrow> location_entry option" where
  "place db pk = (case pk of None \<Rightarrow> None | Some k \<Rightarrow> by_pk lo_pk (md_locations db) k)"

definition chassis_location :: "monitoring_db \<Rightarrow> nat \<Rightarrow> location_entry option" where
  "chassis_location db pk = (case by_pk pd_pk (md_chassis db) pk of None \<Rightarrow> None | Some c \<Rightarrow> place db (pd_location c))"

definition unit_location :: "monitoring_db \<Rightarrow> unit_row \<Rightarrow> location_entry option" where
  "unit_location db u = chassis_location db (wu_chassis u)"

definition assignment_location :: "monitoring_db \<Rightarrow> performer_assignment \<Rightarrow> location_entry option" where
  "assignment_location db a =
     (case by_pk wu_pk (md_units db) (pa_unit a) of None \<Rightarrow> None | Some u \<Rightarrow> unit_location db u)"

section \<open>Rows of the tenant filter\<close>

definition keyed :: "string \<Rightarrow> nat option \<Rightarrow> join" where
  "keyed path v = (case v of None \<Rightarrow> [] | Some k \<Rightarrow> [(path, k)])"

definition owner_paths :: "string \<Rightarrow> building_entry \<Rightarrow> join" where
  "owner_paths path b = keyed (path @ ''organization_id'') (bd_org b) @ keyed (path @ ''campus_id'') (bd_campus b)
     @ keyed (path @ ''site_id'') (bd_site b)"

definition location_paths :: "monitoring_db \<Rightarrow> string \<Rightarrow> location_entry option \<Rightarrow> join" where
  "location_paths db path l =
     (case l of None \<Rightarrow> []
      | Some l' \<Rightarrow> (case location_building db l' of None \<Rightarrow> [] | Some b \<Rightarrow> owner_paths (path @ ''building__'') b))"

definition building_row :: "building_entry \<Rightarrow> row" where
  "building_row b = \<lparr>rw_pk = bd_pk b, rw_joins = [owner_paths [] b]\<rparr>"

definition room_row :: "monitoring_db \<Rightarrow> part \<Rightarrow> row" where
  "room_row db r = \<lparr>rw_pk = pt_pk r, rw_joins =
     [case by_pk bd_pk (md_buildings db) (pt_parent r) of None \<Rightarrow> [] | Some b \<Rightarrow> owner_paths ''building__'' b]\<rparr>"

definition location_row :: "monitoring_db \<Rightarrow> location_entry \<Rightarrow> row" where
  "location_row db l = \<lparr>rw_pk = lo_pk l, rw_joins = [location_paths db [] (Some l)]\<rparr>"

definition channel_row :: "monitoring_db \<Rightarrow> part \<Rightarrow> row" where
  "channel_row db c = \<lparr>rw_pk = pt_pk c, rw_joins =
     [location_paths db ''chassis__location__'' (chassis_location db (pt_parent c))]\<rparr>"

definition unit_join_row :: "monitoring_db \<Rightarrow> unit_row \<Rightarrow> row" where
  "unit_join_row db u = \<lparr>rw_pk = wu_pk u, rw_joins =
     [location_paths db ''base_chassis__location__'' (unit_location db u)]\<rparr>"

definition assignment_row :: "monitoring_db \<Rightarrow> performer_assignment \<Rightarrow> row" where
  "assignment_row db a = \<lparr>rw_pk = pa_pk a, rw_joins =
     [location_paths db ''wireless_unit__base_chassis__location__'' (assignment_location db a)]\<rparr>"

text \<open>A performer joins each of its assignments.\<close>

definition performer_row :: "monitoring_db \<Rightarrow> nat \<Rightarrow> row" where
  "performer_row db p = \<lparr>rw_pk = p, rw_joins =
     map (\<lambda>a. location_paths db ''assignments__wireless_unit__base_chassis__location__'' (assignment_location db a))
       (filter (\<lambda>a. pa_performer a = p) (md_assignments db))\<rparr>"

text \<open>A placed row joins each monitoring group of its location.\<close>

definition placed_row :: "monitoring_db \<Rightarrow> placed \<Rightarrow> row" where
  "placed_row db x = \<lparr>rw_pk = pd_pk x, rw_joins =
     (case place db (pd_location x) of None \<Rightarrow> [[]]
      | Some l \<Rightarrow>
          let base = (''location__building_id'', lo_building l) # location_paths db ''location__'' (Some l) in
          base # map (\<lambda>t. (''location__monitoring_groups'', tm_pk t) # base)
                   (filter (\<lambda>t. lo_pk l \<in> fst ` set (tm_locations t)) (md_teams db)))\<rparr>"

definition building_model :: model_meta where
  "building_model = \<lparr>mm_label = ''micboard.building'', mm_attrs = [''organization_id'', ''campus_id'', ''site_id'']\<rparr>"

definition room_model :: model_meta where
  "room_model = \<lparr>mm_label = ''micboard.room'', mm_attrs = [''building'']\<rparr>"

definition location_model :: model_meta where
  "location_model = \<lparr>mm_label = ''micboard.location'', mm_attrs = [''building'', ''room'']\<rparr>"

definition channel_model :: model_meta where
  "channel_model = \<lparr>mm_label = ''micboard.rfchannel'', mm_attrs = [''chassis'']\<rparr>"

definition wireless_unit_model :: model_meta where
  "wireless_unit_model = \<lparr>mm_label = ''micboard.wirelessunit'', mm_attrs = [''base_chassis'', ''manufacturer'']\<rparr>"

definition performer_model :: model_meta where
  "performer_model = \<lparr>mm_label = ''micboard.performer'', mm_attrs = [''assignments'']\<rparr>"

definition charger_model :: model_meta where
  "charger_model = \<lparr>mm_label = ''micboard.charger'', mm_attrs = [''location'', ''manufacturer'']\<rparr>"

definition wall_model :: model_meta where
  "wall_model = \<lparr>mm_label = ''micboard.displaywall'', mm_attrs = [''location'']\<rparr>"

section \<open>Monitoring groups of a user\<close>

definition all_room_buildings :: "monitoring_db \<Rightarrow> team \<Rightarrow> nat list" where
  "all_room_buildings db t =
     List.map_filter (\<lambda>(l, all_rooms). if all_rooms then map_option lo_building (by_pk lo_pk (md_locations db) l) else None)
       (tm_locations t)"

definition own_teams :: "monitoring_db \<Rightarrow> user \<Rightarrow> team list" where
  "own_teams db u = filter (\<lambda>t. us_pk u \<in> set (tm_users t) \<and> tm_active t) (md_teams db)"

text \<open>The user as the tenant filter sees it: with its groups.\<close>

definition with_groups :: "monitoring_db \<Rightarrow> user \<Rightarrow> user" where
  "with_groups db u = u\<lparr>us_groups :=
     map (\<lambda>t. \<lparr>gr_pk = tm_pk t, gr_active = tm_active t, gr_all_room_buildings = all_room_buildings db t\<rparr>)
       (filter (\<lambda>t. us_pk u \<in> set (tm_users t)) (md_teams db))\<rparr>"

text \<open>\<open>queryset.filter(pk__in=TenantOptimizedQuerySet(model).for_user(user).values("pk"))\<close>.\<close>

definition tenant_visible ::
  "deployment \<Rightarrow> model_meta \<Rightarrow> monitoring_db \<Rightarrow> user \<Rightarrow> ('a \<Rightarrow> row) \<Rightarrow> 'a list \<Rightarrow> 'a list"
where
  "tenant_visible dp m db u to_row xs =
     (let pks = map rw_pk (for_user dp m (with_groups db u) (map to_row xs))
      in filter (\<lambda>x. rw_pk (to_row x) \<in> set pks) xs)"

definition apply_tenant_scope ::
  "deployment \<Rightarrow> model_meta \<Rightarrow> monitoring_db \<Rightarrow> user \<Rightarrow> ('a \<Rightarrow> row) \<Rightarrow> 'a list \<Rightarrow> 'a list \<Rightarrow> 'a list"
where
  "apply_tenant_scope dp m db u to_row table xs =
     (if \<not> tenant_mode dp then xs
      else filter (\<lambda>x. rw_pk (to_row x) \<in> set (map (rw_pk \<circ> to_row) (tenant_visible dp m db u to_row table))) xs)"

definition in_building :: "nat set \<Rightarrow> location_entry option \<Rightarrow> bool" where
  "in_building bs l \<longleftrightarrow> (case l of None \<Rightarrow> False | Some l' \<Rightarrow> lo_building l' \<in> bs)"

definition get_user_monitoring_groups :: "deployment \<Rightarrow> monitoring_db \<Rightarrow> user \<Rightarrow> team list" where
  "get_user_monitoring_groups dp db u =
     (let teams = (if unrestricted dp u then filter tm_active (md_teams db) else own_teams db u) in
      if \<not> tenant_mode dp then teams
      else (let bs = set (map bd_pk (tenant_visible dp building_model db u building_row (md_buildings db))) in
        filter (\<lambda>t. list_ex (\<lambda>(l, _). in_building bs (place db (Some l))) (tm_locations t)
             \<or> list_ex (\<lambda>c. pt_pk c \<in> set (tm_channels t) \<and> in_building bs (chassis_location db (pt_parent c))) (md_channels db)
             \<or> list_ex (\<lambda>a. pa_team a = tm_pk t \<and> in_building bs (assignment_location db a)) (md_assignments db)) teams))"

section \<open>What a user reaches\<close>

definition get_accessible_locations :: "deployment \<Rightarrow> monitoring_db \<Rightarrow> user \<Rightarrow> location_entry list" where
  "get_accessible_locations dp db u =
     apply_tenant_scope dp location_model db u (location_row db) (md_locations db)
       (if us_superuser u then filter lo_active (md_locations db)
        else (let teams = get_user_monitoring_groups dp db u;
                  assigned = set (concat (map (map fst \<circ> tm_locations) teams));
                  whole = set (concat (map (all_room_buildings db) teams)) in
              filter (\<lambda>l. lo_active l \<and> (lo_pk l \<in> assigned \<or> lo_building l \<in> whole)) (md_locations db)))"

definition get_accessible_buildings :: "deployment \<Rightarrow> monitoring_db \<Rightarrow> user \<Rightarrow> building_entry list" where
  "get_accessible_buildings dp db u =
     apply_tenant_scope dp building_model db u building_row (md_buildings db)
       (if unrestricted dp u then md_buildings db
        else (let bs = lo_building ` set (get_accessible_locations dp db u)
              in filter (\<lambda>b. bd_pk b \<in> bs) (md_buildings db)))"

definition get_accessible_rooms :: "deployment \<Rightarrow> monitoring_db \<Rightarrow> user \<Rightarrow> part list" where
  "get_accessible_rooms dp db u =
     apply_tenant_scope dp room_model db u (room_row db) (md_rooms db)
       (if unrestricted dp u then md_rooms db
        else (let rooms = lo_room ` set (get_accessible_locations dp db u)
              in filter (\<lambda>r. Some (pt_pk r) \<in> rooms) (md_rooms db)))"

definition get_accessible_channels :: "deployment \<Rightarrow> monitoring_db \<Rightarrow> user \<Rightarrow> part list" where
  "get_accessible_channels dp db u =
     apply_tenant_scope dp channel_model db u (channel_row db) (md_channels db)
       (if us_superuser u then md_channels db
        else (let explicit = set (concat (map tm_channels (get_user_monitoring_groups dp db u)));
                  places = lo_pk ` set (get_accessible_locations dp db u) in
              filter (\<lambda>c. pt_pk c \<in> explicit
                  \<or> (case chassis_location db (pt_parent c) of None \<Rightarrow> False | Some l \<Rightarrow> lo_pk l \<in> places)) (md_channels db)))"

definition get_accessible_chargers :: "deployment \<Rightarrow> monitoring_db \<Rightarrow> user \<Rightarrow> placed list" where
  "get_accessible_chargers dp db u = tenant_visible dp charger_model db u (placed_row db) (md_chargers db)"

definition get_accessible_charger_slots :: "deployment \<Rightarrow> monitoring_db \<Rightarrow> user \<Rightarrow> part list" where
  "get_accessible_charger_slots dp db u =
     filter (\<lambda>s. pt_parent s \<in> pd_pk ` set (get_accessible_chargers dp db u)) (md_slots db)"

definition get_accessible_display_walls :: "deployment \<Rightarrow> monitoring_db \<Rightarrow> user \<Rightarrow> placed list" where
  "get_accessible_display_walls dp db u = tenant_visible dp wall_model db u (placed_row db) (md_walls db)"

definition get_accessible_wall_sections :: "deployment \<Rightarrow> monitoring_db \<Rightarrow> user \<Rightarrow> part list" where
  "get_accessible_wall_sections dp db u =
     filter (\<lambda>s. pt_parent s \<in> pd_pk ` set (get_accessible_display_walls dp db u)) (md_sections db)"

section \<open>Units, assignments and performers of a user\<close>

definition units_for_user :: "deployment \<Rightarrow> monitoring_db \<Rightarrow> user \<Rightarrow> unit_row list" where
  "units_for_user dp db u =
     (let scope = tenant_visible dp wireless_unit_model db u (unit_join_row db) (md_units db) in
      if \<not> us_authenticated u \<or> us_superuser u then scope
      else (let teams = own_teams db u;
                whole = set (concat (map (all_room_buildings db) teams)) in
        filter (\<lambda>w. (case unit_location db w of None \<Rightarrow> False
             | Some l \<Rightarrow> list_ex (\<lambda>t. lo_pk l \<in> fst ` set (tm_locations t)) teams \<or> lo_building l \<in> whole)
           \<or> (case wu_resource w of None \<Rightarrow> False | Some c \<Rightarrow> list_ex (\<lambda>t. c \<in> set (tm_channels t)) teams)) scope))"

definition assignments_for_user :: "deployment \<Rightarrow> monitoring_db \<Rightarrow> user \<Rightarrow> performer_assignment list" where
  "assignments_for_user dp db u =
     (let scope = tenant_visible dp assignment_model db u (assignment_row db) (md_assignments db) in
      if \<not> us_authenticated u \<or> us_superuser u then scope
      else filter (\<lambda>a. pa_team a \<in> tm_pk ` set (own_teams db u)) scope)"

definition performers_for_user :: "deployment \<Rightarrow> monitoring_db \<Rightarrow> user \<Rightarrow> nat list" where
  "performers_for_user dp db u =
     (let scope = tenant_visible dp performer_model db u (performer_row db) (md_performers db) in
      if \<not> us_authenticated u \<or> us_superuser u then scope
      else filter (\<lambda>p. p \<in> pa_performer ` set (assignments_for_user dp db u)
           \<or> (\<not> dp_msp dp \<and> p \<notin> pa_performer ` set (md_assignments db))) scope)"

section \<open>Reading assignments\<close>

text \<open>The default ordering of the model starts with \<open>-priority\<close>, a text column: descending order of the
  four texts.  The names that order the rest are parameters.\<close>

definition priority_text_rank :: "string \<Rightarrow> nat" where
  "priority_text_rank p =
     (if p = ''normal'' then 0 else if p = ''low'' then 1 else if p = ''high'' then 2 else if p = ''critical'' then 3 else 4)"

definition get_visible_assignments ::
  "deployment \<Rightarrow> (performer_assignment \<Rightarrow> 'k::linorder) \<Rightarrow> monitoring_db \<Rightarrow> user \<Rightarrow> performer_assignment list"
where
  "get_visible_assignments dp names db u =
     sort_key (\<lambda>a. (priority_text_rank (pa_priority a), names a)) (assignments_for_user dp db u)"

definition assignment_page_size :: nat where "assignment_page_size = 50"

text \<open>\<open>int(page or 1)\<close> for a number, a text or nothing.\<close>

fun normalize_page_number :: "json \<Rightarrow> nat" where
  "normalize_page_number (JInt n) = (if n = 0 then 1 else nat (max n 1))"
| "normalize_page_number (JStr s) =
     (if s = [] then 1 else case int_of_text s of None \<Rightarrow> 1 | Some n \<Rightarrow> nat (max n 1))"
| "normalize_page_number _ = 1"

definition get_visible_assignment_rows ::
  "deployment \<Rightarrow> (performer_assignment \<Rightarrow> 'k::linorder) \<Rightarrow> monitoring_db \<Rightarrow> user \<Rightarrow> json \<Rightarrow> performer_assignment list"
where
  "get_visible_assignment_rows dp names db u page =
     (let start = (normalize_page_number page - 1) * assignment_page_size
      in take assignment_page_size (drop start (get_visible_assignments dp names db u)))"

definition priority_rank :: "string \<Rightarrow> nat" where
  "priority_rank p =
     (if p = ''critical'' then 0 else if p = ''high'' then 1 else if p = ''normal'' then 2 else if p = ''low'' then 3 else 4)"

text \<open>The window: the first row of each unit in the order of priority, latest update, latest key.\<close>

definition preference_key :: "performer_assignment \<Rightarrow> nat \<times> int \<times> int" where
  "preference_key a = (priority_rank (pa_priority a), - pa_updated a, - int (pa_pk a))"

definition preferred_of :: "performer_assignment list \<Rightarrow> nat \<Rightarrow> performer_assignment list" where
  "preferred_of rows w = take 1 (sort_key preference_key (filter (\<lambda>a. pa_unit a = w) rows))"

definition get_preferred_active_assignments ::
  "deployment \<Rightarrow> monitoring_db \<Rightarrow> user \<Rightarrow> (performer_assignment \<Rightarrow> bool) \<Rightarrow> performer_assignment list"
where
  "get_preferred_active_assignments dp db u condition =
     (let rows = filter (\<lambda>a. pa_active a \<and> condition a) (assignments_for_user dp db u)
      in concat (map (preferred_of rows) (sort (remdups (map pa_unit rows)))))"

definition get_preferred_for_units ::
  "deployment \<Rightarrow> monitoring_db \<Rightarrow> user \<Rightarrow> nat list \<Rightarrow> performer_assignment list"
where
  "get_preferred_for_units dp db u unit_ids =
     (if unit_ids = [] then [] else get_preferred_active_assignments dp db u (\<lambda>a. pa_unit a \<in> set unit_ids))"

definition get_preferred_for_serials ::
  "deployment \<Rightarrow> monitoring_db \<Rightarrow> user \<Rightarrow> string list \<Rightarrow> performer_assignment list"
where
  "get_preferred_for_serials dp db u serials =
     (if serials = [] then [] else get_preferred_active_assignments dp db u
        (\<lambda>a. case by_pk wu_pk (md_units db) (pa_unit a) of None \<Rightarrow> False | Some w \<Rightarrow> wu_serial w \<in> set serials))"

section \<open>Changing assignments\<close>

datatype assignment_error =
    NoManagedLocation
  | GroupDoesNotManage
  | TenantsUnavailable
  | NoOrganization
  | RoleRefused
  | OutsideScope
  | NoAssignment
  | BadPriority
  | PairTaken

definition modify_roles :: "string list" where
  "modify_roles = [''operator'', ''admin'', ''owner'']"

definition ensure_group_can_manage_unit ::
  "deployment \<Rightarrow> monitoring_db \<Rightarrow> team \<Rightarrow> unit_row \<Rightarrow> assignment_error + unit"
where
  "ensure_group_can_manage_unit dp db t w =
     (if \<not> tenant_mode dp then Inr ()
      else (case unit_location db w of
        None \<Rightarrow> Inl NoManagedLocation
      | Some l \<Rightarrow>
          requireE (list_ex (\<lambda>(k, all_rooms). k = lo_pk l
                \<or> (all_rooms \<and> in_building {lo_building l} (place db (Some k)))) (tm_locations t)
              \<or> (case wu_resource w of None \<Rightarrow> False | Some c \<Rightarrow> c \<in> set (tm_channels t)))
            GroupDoesNotManage))"

definition modifies :: "user \<Rightarrow> nat \<Rightarrow> nat option \<Rightarrow> membership \<Rightarrow> bool" where
  "modifies u organization campus mb \<longleftrightarrow> me_org mb = organization \<and> me_org_active mb \<and> me_active mb
     \<and> me_role mb \<in> set modify_roles \<and> (me_campus mb = None \<or> (campus \<noteq> None \<and> me_campus mb = campus))"

definition ensure_can_modify_unit ::
  "deployment \<Rightarrow> monitoring_db \<Rightarrow> user \<Rightarrow> unit_row \<Rightarrow> assignment_error + unit"
where
  "ensure_can_modify_unit dp db u w =
     (if \<not> dp_msp dp then Inr ()
      else if unrestricted dp u then Inr ()
      else if \<not> dp_installed dp then Inl TenantsUnavailable
      else (case unit_location db w of
        None \<Rightarrow> Inl NoOrganization
      | Some l \<Rightarrow>
        (case location_building db l of
          None \<Rightarrow> Inl NoOrganization
        | Some b \<Rightarrow>
          (case bd_org b of
            None \<Rightarrow> Inl NoOrganization
          | Some organization \<Rightarrow>
              requireE (list_ex (modifies u organization (bd_campus b)) (us_memberships u)) RoleRefused))))"

definition ensure_mutation_scope ::
  "deployment \<Rightarrow> monitoring_db \<Rightarrow> user \<Rightarrow> team \<Rightarrow> unit_row \<Rightarrow> assignment_error + unit"
where
  "ensure_mutation_scope dp db u t w =
     bindE (ensure_can_modify_unit dp db u w) (\<lambda>_. ensure_group_can_manage_unit dp db t w)"

text \<open>\<open>full_clean\<close>: the choices of the priority and the unique pair of performer and unit.\<close>

definition priority_choices :: "string list" where
  "priority_choices = [''low'', ''normal'', ''high'', ''critical'']"

definition full_clean :: "monitoring_db \<Rightarrow> performer_assignment \<Rightarrow> assignment_error + unit" where
  "full_clean db a =
     bindE (requireE (pa_priority a \<in> set priority_choices) BadPriority) (\<lambda>_.
     requireE (\<not> list_ex (\<lambda>o'. pa_pk o' \<noteq> pa_pk a \<and> pa_performer o' = pa_performer a \<and> pa_unit o' = pa_unit a)
                (md_assignments db)) PairTaken)"

record create_command =
  cm_performer :: nat
  cm_unit :: nat
  cm_team :: nat
  cm_priority :: string
  cm_notes :: string
  cm_battery :: "bool option"
  cm_signal :: "bool option"
  cm_audio :: "bool option"
  cm_offline :: "bool option"
  cm_active :: bool

definition given :: "'a option \<Rightarrow> 'a \<Rightarrow> 'a" where
  "given v dflt = (case v of None \<Rightarrow> dflt | Some x \<Rightarrow> x)"

definition next_assignment_pk :: "monitoring_db \<Rightarrow> nat" where
  "next_assignment_pk db = Suc (fold max (map pa_pk (md_assignments db)) 0)"

definition create_assignment ::
  "deployment \<Rightarrow> time \<Rightarrow> user \<Rightarrow> create_command \<Rightarrow> monitoring_db
     \<Rightarrow> assignment_error + performer_assignment \<times> monitoring_db"
where
  "create_assignment dp now u cm db =
     (case by_pk tm_pk (get_user_monitoring_groups dp db u) (cm_team cm) of
        None \<Rightarrow> Inl OutsideScope
      | Some t \<Rightarrow>
        if cm_performer cm \<notin> set (performers_for_user dp db u) then Inl OutsideScope
        else (case by_pk wu_pk (units_for_user dp db u) (cm_unit cm) of
          None \<Rightarrow> Inl OutsideScope
        | Some w \<Rightarrow>
          bindE (ensure_mutation_scope dp db u t w) (\<lambda>_.
          let a = \<lparr>pa_pk = next_assignment_pk db, pa_performer = cm_performer cm, pa_unit = wu_pk w, pa_team = tm_pk t,
                   pa_priority = cm_priority cm, pa_notes = cm_notes cm, pa_active = cm_active cm,
                   pa_battery = given (cm_battery cm) True, pa_signal = given (cm_signal cm) True,
                   pa_audio = given (cm_audio cm) False, pa_offline = given (cm_offline cm) True,
                   pa_assigned_by = us_pk u, pa_assigned_at = now, pa_updated = now\<rparr>
          in bindE (full_clean db a) (\<lambda>_. Inr (a, db\<lparr>md_assignments := md_assignments db @ [a]\<rparr>)))))"

record update_command =
  uc_priority :: "string option"
  uc_notes :: "string option"
  uc_active :: "bool option"
  uc_battery :: "bool option"
  uc_signal :: "bool option"
  uc_audio :: "bool option"
  uc_offline :: "bool option"

text \<open>The assignment, its group and its unit, all read under the lock.\<close>

definition get_assignment_for_mutation ::
  "deployment \<Rightarrow> monitoring_db \<Rightarrow> user \<Rightarrow> nat \<Rightarrow> assignment_error + performer_assignment"
where
  "get_assignment_for_mutation dp db u pk =
     (case by_pk pa_pk (assignments_for_user dp db u) pk of
        None \<Rightarrow> Inl NoAssignment
      | Some a \<Rightarrow>
        (case (by_pk tm_pk (md_teams db) (pa_team a), by_pk wu_pk (md_units db) (pa_unit a)) of
           (Some t, Some w) \<Rightarrow> bindE (ensure_mutation_scope dp db u t w) (\<lambda>_. Inr a)
         | _ \<Rightarrow> Inl NoAssignment))"

definition store_assignment :: "performer_assignment \<Rightarrow> monitoring_db \<Rightarrow> monitoring_db" where
  "store_assignment a db =
     db\<lparr>md_assignments := map (\<lambda>x. if pa_pk x = pa_pk a then a else x) (md_assignments db)\<rparr>"

definition changed_assignment :: "time \<Rightarrow> update_command \<Rightarrow> performer_assignment \<Rightarrow> performer_assignment" where
  "changed_assignment now uc a =
     a\<lparr>pa_priority := given (uc_priority uc) (pa_priority a), pa_notes := given (uc_notes uc) (pa_notes a),
       pa_active := given (uc_active uc) (pa_active a), pa_battery := given (uc_battery uc) (pa_battery a),
       pa_signal := given (uc_signal uc) (pa_signal a), pa_audio := given (uc_audio uc) (pa_audio a),
       pa_offline := given (uc_offline uc) (pa_offline a), pa_updated := now\<rparr>"

definition update_assignment ::
  "deployment \<Rightarrow> time \<Rightarrow> user \<Rightarrow> nat \<Rightarrow> update_command \<Rightarrow> monitoring_db
     \<Rightarrow> assignment_error + performer_assignment \<times> monitoring_db"
where
  "update_assignment dp now u pk uc db =
     bindE (get_assignment_for_mutation dp db u pk) (\<lambda>a.
     let a' = changed_assignment now uc a
     in bindE (full_clean db a') (\<lambda>_. Inr (a', store_assignment a' db)))"

definition delete_assignment ::
  "deployment \<Rightarrow> user \<Rightarrow> nat \<Rightarrow> monitoring_db \<Rightarrow> assignment_error + bool \<times> monitoring_db"
where
  "delete_assignment dp u pk db =
     (case get_assignment_for_mutation dp db u pk of
        Inl NoAssignment \<Rightarrow> Inr (False, db)
      | Inl e \<Rightarrow> Inl e
      | Inr a \<Rightarrow> Inr (True, db\<lparr>md_assignments := filter (\<lambda>x. pa_pk x \<noteq> pa_pk a) (md_assignments db)\<rparr>))"

definition deactivate_assignment ::
  "deployment \<Rightarrow> time \<Rightarrow> user \<Rightarrow> nat \<Rightarrow> monitoring_db \<Rightarrow> assignment_error + bool \<times> monitoring_db"
where
  "deactivate_assignment dp now u pk db =
     (case get_assignment_for_mutation dp db u pk of
        Inl NoAssignment \<Rightarrow> Inr (False, db)
      | Inl e \<Rightarrow> Inl e
      | Inr a \<Rightarrow> Inr (True, store_assignment (a\<lparr>pa_active := False, pa_updated := now\<rparr>) db))"

text \<open>One request to the service, by any user at any time.\<close>

datatype assignment_request =
    Create create_command
  | Change nat update_command
  | Delete nat
  | Deactivate nat

definition serve :: "deployment \<Rightarrow> time \<Rightarrow> user \<Rightarrow> assignment_request \<Rightarrow> monitoring_db \<Rightarrow> assignment_error + monitoring_db" where
  "serve dp now u rq db =
     (case rq of
        Create cm \<Rightarrow> bindE (create_assignment dp now u cm db) (\<lambda>(_, db'). Inr db')
      | Change pk uc \<Rightarrow> bindE (update_assignment dp now u pk uc db) (\<lambda>(_, db'). Inr db')
      | Delete pk \<Rightarrow> bindE (delete_assignment dp u pk db) (\<lambda>(_, db'). Inr db')
      | Deactivate pk \<Rightarrow> bindE (deactivate_assignment dp now u pk db) (\<lambda>(_, db'). Inr db'))"

section \<open>Visible rows\<close>

lemma tenant_visible_subset: "set (tenant_visible dp m db u to_row xs) \<subseteq> set xs"
  by (auto simp: tenant_visible_def Let_def)

lemma by_pk_SomeD: "by_pk key rows pk = Some r \<Longrightarrow> r \<in> set rows \<and> key r = pk"
  by (auto simp: by_pk_def find_Some_iff)

lemma by_pk_NoneD: "by_pk key rows pk = None \<Longrightarrow> r \<in> set rows \<Longrightarrow> key r \<noteq> pk"
  by (auto simp: by_pk_def find_None_iff)

lemma assignments_for_user_subset: "set (assignments_for_user dp db u) \<subseteq> set (md_assignments db)"
  using tenant_visible_subset[of dp assignment_model db u "assignment_row db" "md_assignments db"]
  by (auto simp: assignments_for_user_def Let_def)

lemma units_for_user_subset: "set (units_for_user dp db u) \<subseteq> set (md_units db)"
  using tenant_visible_subset[of dp wireless_unit_model db u "unit_join_row db" "md_units db"]
  by (auto simp: units_for_user_def Let_def)

section \<open>The preferred assignment\<close>

lemma preferred_of_iff:
  assumes "inj_on preference_key {a \<in> set rows. pa_unit a = w}"
  shows "set (preferred_of rows w) = {a \<in> set rows. pa_unit a = w \<and> (\<forall>b \<in> set rows. pa_unit b = w \<longrightarrow> preference_key a \<le> preference_key b)}"
proof -
  let ?s = "sort_key preference_key (filter (\<lambda>a. pa_unit a = w) rows)"
  have sorted: "sorted (map preference_key ?s)" by simp
  have members: "set ?s = {a \<in> set rows. pa_unit a = w}" by auto
  show ?thesis
  proof (cases ?s)
    case Nil
    then have none: "\<forall>a \<in> set rows. pa_unit a \<noteq> w" using members by auto
    with Nil show ?thesis by (auto simp: preferred_of_def)
  next
    case (Cons a as)
    then have a: "a \<in> set rows" "pa_unit a = w" using members by auto
    have least: "preference_key a \<le> preference_key b" if "b \<in> set rows" "pa_unit b = w" for b
    proof -
      have "b \<in> set (a # as)" using members Cons that by auto
      then show ?thesis using sorted Cons by auto
    qed
    have first: "set (preferred_of rows w) = {a}" using Cons by (simp add: preferred_of_def)
    have unique: "b = a" if "b \<in> set rows" "pa_unit b = w" "\<forall>c \<in> set rows. pa_unit c = w \<longrightarrow> preference_key b \<le> preference_key c" for b
    proof -
      have "preference_key b = preference_key a" using least[OF that(1,2)] that(3) a by (simp add: order.antisym)
      then show ?thesis using inj_onD[OF assms] that(1,2) a by simp
    qed
    have "{c \<in> set rows. pa_unit c = w \<and> (\<forall>b \<in> set rows. pa_unit b = w \<longrightarrow> preference_key c \<le> preference_key b)} = {a}"
    proof (intro equalityI subsetI)
      fix c
      assume "c \<in> {c \<in> set rows. pa_unit c = w \<and> (\<forall>b \<in> set rows. pa_unit b = w \<longrightarrow> preference_key c \<le> preference_key b)}"
      then have "c = a" by (intro unique) simp_all
      then show "c \<in> {a}" by simp
    next
      fix c
      assume "c \<in> {a}"
      then show "c \<in> {c \<in> set rows. pa_unit c = w \<and> (\<forall>b \<in> set rows. pa_unit b = w \<longrightarrow> preference_key c \<le> preference_key b)}"
        using a least by simp
    qed
    with first show ?thesis by (rule trans[OF _ sym])
  qed
qed

lemma preference_key_inj: "inj_on pa_pk (set rows) \<Longrightarrow> inj_on preference_key {a \<in> set rows. pa_unit a = w}"
  by (auto simp: inj_on_def preference_key_def)

text \<open>The order meant: critical before high before normal before low before anything else; of two equally urgent
  the one updated later, of two updated at once the one entered later.\<close>

definition more_urgent :: "string \<Rightarrow> string \<Rightarrow> bool" where
  "more_urgent p q \<longleftrightarrow>
     p = ''critical'' \<and> q \<notin> {''critical''} \<or> p = ''high'' \<and> q \<notin> {''critical'', ''high''}
   \<or> p = ''normal'' \<and> q \<notin> {''critical'', ''high'', ''normal''}
   \<or> p = ''low'' \<and> q \<notin> {''critical'', ''high'', ''normal'', ''low''}"

definition preferred_over :: "performer_assignment \<Rightarrow> performer_assignment \<Rightarrow> bool" where
  "preferred_over a b \<longleftrightarrow> more_urgent (pa_priority a) (pa_priority b)
     \<or> \<not> more_urgent (pa_priority b) (pa_priority a)
        \<and> (pa_updated b < pa_updated a \<or> pa_updated b = pa_updated a \<and> pa_pk b < pa_pk a)"

lemma more_urgent_rank: "more_urgent p q \<longleftrightarrow> priority_rank p < priority_rank q"
  unfolding more_urgent_def priority_rank_def by (simp split: if_split)

lemma preferred_over_key: "preferred_over a b \<longleftrightarrow> preference_key a < preference_key b"
  unfolding preferred_over_def more_urgent_rank preference_key_def less_prod_simp by auto

lemma preferred_over_le:
  assumes "inj_on pa_pk S" "a \<in> S" "b \<in> S"
  shows "preference_key a \<le> preference_key b \<longleftrightarrow> a = b \<or> preferred_over a b"
proof -
  have "preference_key a = preference_key b \<longleftrightarrow> a = b"
    using inj_onD[OF assms(1) _ assms(2,3)] by (auto simp: preference_key_def)
  then show ?thesis unfolding preferred_over_key by (simp add: order.order_iff_strict disj_commute)
qed

text \<open>C40: One row per unit that has one, and it is the one preferred over every other active one of the unit the
  user sees: critical before high before normal before low before any other priority, then the latest update,
  then the latest key.\<close>

theorem preferred_assignments_exact:
  assumes "distinct (map pa_pk (md_assignments db))"
  shows "set (get_preferred_for_units dp db u unit_ids)
      = {a \<in> set (assignments_for_user dp db u). pa_active a \<and> pa_unit a \<in> set unit_ids
          \<and> (\<forall>b \<in> set (assignments_for_user dp db u). pa_active b \<and> pa_unit b = pa_unit a
               \<longrightarrow> b = a \<or> preferred_over a b)}
    \<and> sorted (map pa_unit (get_preferred_for_units dp db u unit_ids))
    \<and> distinct (map pa_unit (get_preferred_for_units dp db u unit_ids))"
proof (cases "unit_ids = []")
  case False
  define rows where "rows = filter (\<lambda>a. pa_active a \<and> pa_unit a \<in> set unit_ids) (assignments_for_user dp db u)"
  have eq: "get_preferred_for_units dp db u unit_ids = concat (map (preferred_of rows) (sort (remdups (map pa_unit rows))))"
    using False by (simp add: get_preferred_for_units_def get_preferred_active_assignments_def rows_def Let_def)
  have "inj_on pa_pk (set (md_assignments db))" using assms by (simp add: distinct_map)
  then have inj: "inj_on pa_pk (set rows)"
    using assignments_for_user_subset[of dp db u] by (auto simp: rows_def intro: inj_on_subset)
  have unit: "pa_unit a = w" if "a \<in> set (preferred_of rows w)" for a w
    using that by (auto simp: preferred_of_def dest!: in_set_takeD)
  have key: "(preference_key a \<le> preference_key b) = (b = a \<or> preferred_over a b)" if "a \<in> set rows" "b \<in> set rows" for a b
    using preferred_over_le[OF inj that] by blast
  have "set (get_preferred_for_units dp db u unit_ids)
      = {a \<in> set rows. \<forall>b \<in> set rows. pa_unit b = pa_unit a \<longrightarrow> preference_key a \<le> preference_key b}"
    unfolding eq using preferred_of_iff[OF preference_key_inj[OF inj]] by auto
  also have "\<dots> = {a \<in> set rows. \<forall>b \<in> set rows. pa_unit b = pa_unit a \<longrightarrow> b = a \<or> preferred_over a b}"
    using key by (intro Collect_cong conj_cong ball_cong imp_cong refl) simp_all
  also have "\<dots> = {a \<in> set (assignments_for_user dp db u). pa_active a \<and> pa_unit a \<in> set unit_ids
          \<and> (\<forall>b \<in> set (assignments_for_user dp db u). pa_active b \<and> pa_unit b = pa_unit a
               \<longrightarrow> b = a \<or> preferred_over a b)}"
    by (auto simp: rows_def)
  finally have 1: "set (get_preferred_for_units dp db u unit_ids) = \<dots>" .
  have single: "map pa_unit (preferred_of rows w) = [w]" if "w \<in> pa_unit ` set rows" for w
  proof -
    have "filter (\<lambda>a. pa_unit a = w) rows \<noteq> []" using that by (auto simp: filter_empty_conv)
    then have "length (preferred_of rows w) = 1"
      by (cases "filter (\<lambda>a. pa_unit a = w) rows") (simp_all add: preferred_of_def)
    then obtain a where a: "preferred_of rows w = [a]" by (auto simp: length_Suc_conv)
    with unit[of a w] show ?thesis by simp
  qed
  have "map pa_unit (concat (map (preferred_of rows) ws)) = ws" if "set ws \<subseteq> pa_unit ` set rows" for ws
    using that by (induction ws) (simp_all add: single)
  then have "map pa_unit (get_preferred_for_units dp db u unit_ids) = sort (remdups (map pa_unit rows))"
    unfolding eq by simp
  with 1 show ?thesis by simp
qed (simp add: get_preferred_for_units_def)

section \<open>Who changes what\<close>

lemma own_teams_iff: "t \<in> set (own_teams db u) \<longleftrightarrow> t \<in> set (md_teams db) \<and> us_pk u \<in> set (tm_users t) \<and> tm_active t"
  by (auto simp: own_teams_def)

text \<open>The organization and campus a membership must cover to change an assignment of a unit.\<close>

definition operates :: "monitoring_db \<Rightarrow> user \<Rightarrow> unit_row \<Rightarrow> bool" where
  "operates db u w \<longleftrightarrow> (\<exists>l b organization. unit_location db w = Some l \<and> location_building db l = Some b
     \<and> bd_org b = Some organization
     \<and> (\<exists>mb \<in> set (us_memberships u). me_org mb = organization \<and> me_active mb \<and> me_org_active mb
          \<and> me_role mb \<in> {''operator'', ''admin'', ''owner''} \<and> (me_campus mb = None \<or> me_campus mb = bd_campus b)))"

lemma ensure_can_modify_operates:
  assumes "ensure_can_modify_unit dp db u w = Inr x" "dp_msp dp" "\<not> unrestricted dp u"
  shows "operates db u w"
proof -
  from assms obtain l b organization where place: "unit_location db w = Some l" "location_building db l = Some b"
    "bd_org b = Some organization" and "list_ex (modifies u organization (bd_campus b)) (us_memberships u)"
    by (auto simp: ensure_can_modify_unit_def result_simps split: if_splits option.splits)
  then obtain mb where "mb \<in> set (us_memberships u)" "modifies u organization (bd_campus b) mb" by (auto simp: list_ex_iff)
  with place show ?thesis unfolding operates_def modifies_def by (auto simp: modify_roles_def)
qed

text \<open>An assignment its user may change: the unit lies in an organization the user operates, and its
  monitoring group is one of the user's.\<close>

definition may_change :: "monitoring_db \<Rightarrow> user \<Rightarrow> performer_assignment \<Rightarrow> bool" where
  "may_change db u a \<longleftrightarrow> (\<exists>w \<in> set (md_units db). wu_pk w = pa_unit a \<and> operates db u w)
     \<and> (us_superuser u \<or> (\<exists>t \<in> set (md_teams db). tm_pk t = pa_team a \<and> tm_active t \<and> us_pk u \<in> set (tm_users t)))"

lemma mutation_scope_operates:
  assumes "ensure_mutation_scope dp db u t w = Inr x" "dp_msp dp" "\<not> unrestricted dp u"
  shows "operates db u w"
proof -
  from assms(1) obtain y where "ensure_can_modify_unit dp db u w = Inr y"
    unfolding ensure_mutation_scope_def bindE_Inr_iff by blast
  then show ?thesis using assms(2,3) by (rule ensure_can_modify_operates)
qed

lemma get_assignment_may_change:
  assumes "get_assignment_for_mutation dp db u pk = Inr a" "dp_msp dp" "\<not> unrestricted dp u"
  shows "a \<in> set (md_assignments db) \<and> pa_pk a = pk \<and> may_change db u a"
proof -
  from assms(1) obtain t w x where a: "by_pk pa_pk (assignments_for_user dp db u) pk = Some a"
    and tw: "by_pk tm_pk (md_teams db) (pa_team a) = Some t" "by_pk wu_pk (md_units db) (pa_unit a) = Some w"
    and scope: "ensure_mutation_scope dp db u t w = Inr x"
    by (auto simp: get_assignment_for_mutation_def result_simps split: option.splits)
  have visible: "a \<in> set (assignments_for_user dp db u)" "pa_pk a = pk" using by_pk_SomeD[OF a] by simp_all
  have "us_authenticated u"
    using visible(1) by (auto simp: assignments_for_user_def tenant_visible_def for_user_def with_groups_def Let_def split: if_splits)
  then have "us_superuser u \<or> pa_team a \<in> tm_pk ` set (own_teams db u)"
    using visible(1) by (auto simp: assignments_for_user_def Let_def split: if_splits)
  then have "us_superuser u \<or> (\<exists>t \<in> set (md_teams db). tm_pk t = pa_team a \<and> tm_active t \<and> us_pk u \<in> set (tm_users t))"
    by (auto simp: own_teams_iff)
  moreover have "\<exists>w \<in> set (md_units db). wu_pk w = pa_unit a \<and> operates db u w"
    using by_pk_SomeD[OF tw(2)] mutation_scope_operates[OF scope assms(2,3)] by blast
  ultimately show ?thesis
    using visible assignments_for_user_subset[of dp db u] unfolding may_change_def by blast
qed

lemma created_may_change:
  assumes "create_assignment dp now u cm db = Inr (a, db')" "dp_msp dp" "\<not> unrestricted dp u"
  shows "may_change db u a"
proof -
  from assms(1) obtain t w x where t: "by_pk tm_pk (get_user_monitoring_groups dp db u) (cm_team cm) = Some t"
    and w: "by_pk wu_pk (units_for_user dp db u) (cm_unit cm) = Some w"
    and scope: "ensure_mutation_scope dp db u t w = Inr x" and a: "pa_unit a = wu_pk w" "pa_team a = tm_pk t"
    by (auto simp: create_assignment_def result_simps Let_def split: option.splits if_splits)
  have "t \<in> set (own_teams db u)"
    using by_pk_SomeD[OF t] assms(3) by (auto simp: get_user_monitoring_groups_def Let_def split: if_splits)
  moreover have "w \<in> set (md_units db)" using by_pk_SomeD[OF w] units_for_user_subset[of dp db u] by blast
  ultimately show ?thesis
    using mutation_scope_operates[OF scope assms(2,3)] a by (auto simp: may_change_def own_teams_iff)
qed

definition changed_rows :: "monitoring_db \<Rightarrow> monitoring_db \<Rightarrow> performer_assignment set" where
  "changed_rows db db' = (set (md_assignments db) - set (md_assignments db')) \<union> (set (md_assignments db') - set (md_assignments db))"

lemma store_changed_rows:
  assumes "distinct (map pa_pk (md_assignments db))" "a \<in> set (md_assignments db)" "pa_pk a' = pa_pk a"
  shows "changed_rows db (store_assignment a' db) \<subseteq> {a, a'}"
  using assms by (auto simp: changed_rows_def store_assignment_def inj_on_eq_iff distinct_map split: if_splits)

text \<open>C38: Under tenants, whatever request a user who is not a superuser across organizations makes, the rows it
  creates, changes or removes are ones this user may change; the tables the authorization rests on are
  left alone.\<close>

theorem assignment_changes_authorized:
  assumes "serve dp now u rq db = Inr db'" "dp_msp dp" "\<not> unrestricted dp u" "distinct (map pa_pk (md_assignments db))"
  shows "(\<forall>a \<in> changed_rows db db'. may_change db u a) \<and> db' = db\<lparr>md_assignments := md_assignments db'\<rparr>"
proof (cases rq)
  case (Create cm)
  with assms(1) obtain a where c: "create_assignment dp now u cm db = Inr (a, db')" by (auto simp: serve_def result_simps)
  then have "db' = db\<lparr>md_assignments := md_assignments db @ [a]\<rparr>"
    by (auto simp: create_assignment_def result_simps Let_def split: option.splits if_splits)
  with created_may_change[OF c assms(2,3)] show ?thesis by (auto simp: changed_rows_def)
next
  case (Change pk uc)
  with assms(1) obtain a where a: "get_assignment_for_mutation dp db u pk = Inr a"
    and db': "db' = store_assignment (changed_assignment now uc a) db"
    by (auto simp: serve_def update_assignment_def result_simps Let_def)
  note m = get_assignment_may_change[OF a assms(2,3)]
  have "may_change db u (changed_assignment now uc a)" using m by (simp add: may_change_def changed_assignment_def)
  moreover have "changed_rows db db' \<subseteq> {a, changed_assignment now uc a}"
    unfolding db' using m by (intro store_changed_rows[OF assms(4)]) (simp_all add: changed_assignment_def)
  ultimately show ?thesis using m by (auto simp: db' store_assignment_def)
next
  case (Delete pk)
  show ?thesis
  proof (cases "get_assignment_for_mutation dp db u pk")
    case (Inl e)
    with Delete assms(1) have "db' = db" by (cases e) (auto simp: serve_def delete_assignment_def)
    then show ?thesis by (simp add: changed_rows_def)
  next
    case (Inr a)
    with Delete assms(1) have db': "db' = db\<lparr>md_assignments := filter (\<lambda>x. pa_pk x \<noteq> pa_pk a) (md_assignments db)\<rparr>"
      by (simp add: serve_def delete_assignment_def)
    note m = get_assignment_may_change[OF Inr assms(2,3)]
    have "changed_rows db db' \<subseteq> {a}"
      using m assms(4) by (auto simp: changed_rows_def db' inj_on_eq_iff distinct_map)
    with m show ?thesis by (auto simp: db')
  qed
next
  case (Deactivate pk)
  show ?thesis
  proof (cases "get_assignment_for_mutation dp db u pk")
    case (Inl e)
    with Deactivate assms(1) have "db' = db" by (cases e) (auto simp: serve_def deactivate_assignment_def)
    then show ?thesis by (simp add: changed_rows_def)
  next
    case (Inr a)
    let ?a = "a\<lparr>pa_active := False, pa_updated := now\<rparr>"
    from Inr Deactivate assms(1) have db': "db' = store_assignment ?a db"
      by (simp add: serve_def deactivate_assignment_def)
    note m = get_assignment_may_change[OF Inr assms(2,3)]
    have "may_change db u ?a" using m by (simp add: may_change_def)
    moreover have "changed_rows db db' \<subseteq> {a, ?a}"
      unfolding db' using m by (intro store_changed_rows[OF assms(4)]) simp_all
    ultimately show ?thesis using m by (auto simp: db' store_assignment_def)
  qed
qed

section \<open>One assignment per performer and unit\<close>

definition assignments_ok :: "monitoring_db \<Rightarrow> bool" where
  "assignments_ok db \<longleftrightarrow> distinct (map pa_pk (md_assignments db))
     \<and> distinct (map (\<lambda>a. (pa_performer a, pa_unit a)) (md_assignments db))"

lemma fresh_assignment_pk: "a \<in> set (md_assignments db) \<Longrightarrow> pa_pk a < next_assignment_pk db"
proof -
  assume a: "a \<in> set (md_assignments db)"
  let ?xs = "map pa_pk (md_assignments db)"
  have "fold max ?xs 0 = Max (set (0 # ?xs))" by (rule Max.set_eq_fold[symmetric])
  moreover have "pa_pk a \<le> Max (set (0 # ?xs))" by (rule Max_ge) (use a in simp_all)
  ultimately show ?thesis by (simp add: next_assignment_pk_def)
qed

lemma store_assignment_ok:
  assumes "assignments_ok db" "a \<in> set (md_assignments db)" "pa_pk a' = pa_pk a"
    "pa_performer a' = pa_performer a" "pa_unit a' = pa_unit a"
  shows "assignments_ok (store_assignment a' db)"
proof -
  have same: "map f (map (\<lambda>x. if pa_pk x = pa_pk a' then a' else x) (md_assignments db)) = map f (md_assignments db)"
    if "\<And>x. x \<in> set (md_assignments db) \<Longrightarrow> pa_pk x = pa_pk a \<Longrightarrow> f a' = f x" for f :: "performer_assignment \<Rightarrow> 'a"
    using that assms(3) by (auto simp: map_eq_conv)
  have eq: "x = a" if "x \<in> set (md_assignments db)" "pa_pk x = pa_pk a" for x
    using assms(1,2) that by (auto simp: assignments_ok_def distinct_map inj_on_eq_iff)
  have stored: "md_assignments (store_assignment a' db) = map (\<lambda>x. if pa_pk x = pa_pk a' then a' else x) (md_assignments db)"
    by (simp add: store_assignment_def)
  have "map pa_pk (md_assignments (store_assignment a' db)) = map pa_pk (md_assignments db)"
    unfolding stored by (rule same) (simp add: assms(3))
  moreover have "map (\<lambda>a. (pa_performer a, pa_unit a)) (md_assignments (store_assignment a' db))
      = map (\<lambda>a. (pa_performer a, pa_unit a)) (md_assignments db)"
    unfolding stored by (rule same) (drule (1) eq, simp add: assms(4,5))
  ultimately show ?thesis using assms(1) unfolding assignments_ok_def by (simp only:)
qed

lemma get_assignment_mem: "get_assignment_for_mutation dp db u pk = Inr a \<Longrightarrow> a \<in> set (md_assignments db)"
  using assignments_for_user_subset[of dp db u]
  by (auto simp: get_assignment_for_mutation_def result_simps split: option.splits dest!: by_pk_SomeD)

text \<open>Requests of any users in any order keep at most one assignment per performer and unit.\<close>

theorem assignment_pairs_unique:
  assumes "serve dp now u rq db = Inr db'" "assignments_ok db"
  shows "assignments_ok db'"
proof (cases rq)
  case (Create cm)
  with assms(1) obtain a where "create_assignment dp now u cm db = Inr (a, db')" by (auto simp: serve_def result_simps)
  then have db': "db' = db\<lparr>md_assignments := md_assignments db @ [a]\<rparr>" and pk: "pa_pk a = next_assignment_pk db"
    and "full_clean db a = Inr ()"
    by (auto simp: create_assignment_def result_simps Let_def split: option.splits if_splits)
  then have pairs: "\<forall>o' \<in> set (md_assignments db). pa_pk o' \<noteq> pa_pk a
      \<longrightarrow> \<not> (pa_performer o' = pa_performer a \<and> pa_unit o' = pa_unit a)"
    by (auto simp: full_clean_def result_simps list_ex_iff)
  show ?thesis
  proof -
    have fresh: "pa_pk x \<noteq> pa_pk a" if "x \<in> set (md_assignments db)" for x
      using fresh_assignment_pk[OF that] pk by simp
    then have "pa_pk a \<notin> pa_pk ` set (md_assignments db)" by (metis imageE)
    moreover have "(pa_performer a, pa_unit a) \<notin> (\<lambda>a. (pa_performer a, pa_unit a)) ` set (md_assignments db)"
      using fresh pairs by auto
    ultimately show ?thesis using assms(2) by (simp add: assignments_ok_def db')
  qed
next
  case (Change pk uc)
  with assms(1) obtain a where a: "get_assignment_for_mutation dp db u pk = Inr a"
    and db': "db' = store_assignment (changed_assignment now uc a) db"
    by (auto simp: serve_def update_assignment_def result_simps Let_def)
  show ?thesis
    unfolding db' by (rule store_assignment_ok[OF assms(2) get_assignment_mem[OF a]]) (simp_all add: changed_assignment_def)
next
  case (Delete pk)
  then show ?thesis
    using assms by (auto simp: serve_def delete_assignment_def result_simps assignments_ok_def distinct_map_filter
        split: sum.splits assignment_error.splits)
next
  case (Deactivate pk)
  show ?thesis
  proof (cases "get_assignment_for_mutation dp db u pk")
    case (Inl e)
    with Deactivate assms show ?thesis by (cases e) (auto simp: serve_def deactivate_assignment_def)
  next
    case (Inr a)
    with Deactivate assms(1) have db': "db' = store_assignment (a\<lparr>pa_active := False, pa_updated := now\<rparr>) db"
      by (simp add: serve_def deactivate_assignment_def)
    show ?thesis unfolding db' by (rule store_assignment_ok[OF assms(2) get_assignment_mem[OF Inr]]) simp_all
  qed
qed

section \<open>Tenants\<close>

lemma map_of_keyed: "map_of (keyed p v) q = (if p = q then v else None)"
  by (cases v) (auto simp: keyed_def)

lemma owner_paths_lookup:
  "map_of (owner_paths p b) (p @ ''organization_id'') = bd_org b"
  "map_of (owner_paths p b) (p @ ''campus_id'') = bd_campus b"
  by (auto simp: owner_paths_def map_add_def map_of_keyed split: option.split)

lemma for_user_msp:
  assumes "r \<in> set (for_user dp m u rows)" "dp_msp dp" "\<not> unrestricted dp u"
  shows "r \<in> set (for_memberships m (user_memberships u) rows)"
  using assms by (auto simp: for_user_def unrestricted_def Let_def split: if_splits dest: for_site_subset)

text \<open>A row the tenant filter lets through belongs to an organization, and to the campus, of a current
  membership.\<close>

lemma tenant_row_owner:
  assumes "r \<in> set (for_user dp m u rows)" "dp_msp dp" "\<not> unrestricted dp u"
    and "tenant_lookups m = Some (p @ ''organization_id'', Some (p @ ''campus_id''))"
    and "rw_joins r = [case b of None \<Rightarrow> [] | Some b' \<Rightarrow> owner_paths p b']"
  shows "\<exists>b' organization campus. b = Some b' \<and> (organization, campus) \<in> set (user_memberships u)
    \<and> bd_org b' = Some organization \<and> (campus = None \<or> bd_campus b' = campus)"
proof -
  have "r \<in> set (for_memberships m (user_memberships u) rows)"
    using assms(1-3) by (rule for_user_msp)
  then obtain mb P j where mb: "mb \<in> set (user_memberships u)"
    "membership_scope (p @ ''organization_id'', Some (p @ ''campus_id'')) mb = Some P" "j \<in> set (rw_joins r)" "P j"
    unfolding mem_for_memberships using assms(4) by auto
  obtain organization campus where m: "mb = (organization, campus)" by fastforce
  have org: "where_path (p @ ''organization_id'') organization j"
    and campus: "campus = None \<or> (\<exists>c. campus = Some c \<and> where_path (p @ ''campus_id'') c j)"
    using mb(2,4) by (auto simp: membership_scope_def m split: option.splits)
  have j: "j = (case b of None \<Rightarrow> [] | Some b' \<Rightarrow> owner_paths p b')" using mb(3) assms(5) by simp
  with org obtain b' where b: "b = Some b'" by (cases b) (auto simp: where_path_def)
  with org campus j mb(1) show ?thesis by (auto simp: m where_path_def owner_paths_lookup)
qed

lemma tenant_visible_row:
  assumes "x \<in> set (tenant_visible dp m db u to_row xs)" "inj_on (rw_pk \<circ> to_row) (set xs)"
  shows "to_row x \<in> set (for_user dp m (with_groups db u) (map to_row xs))"
proof -
  from assms(1) obtain r where r: "x \<in> set xs" "r \<in> set (for_user dp m (with_groups db u) (map to_row xs))" "rw_pk r = rw_pk (to_row x)"
    by (auto simp: tenant_visible_def Let_def)
  have "set (for_user dp m v rows) \<subseteq> set rows" for v rows
    using for_site_subset by (auto simp: for_user_def mem_for_memberships Let_def split: if_splits dest: for_site_subset)
  then obtain y where "y \<in> set xs" "r = to_row y" using r(2) by fastforce
  with r inj_onD[OF assms(2), of y x] show ?thesis by simp
qed

lemma with_groups_simps [simp]:
  "user_memberships (with_groups db u) = user_memberships u" "unrestricted dp (with_groups db u) = unrestricted dp u"
  by (simp_all add: with_groups_def user_memberships_def unrestricted_def)

definition of_members :: "user \<Rightarrow> building_entry option \<Rightarrow> bool" where
  "of_members u b \<longleftrightarrow> (\<exists>b' organization campus. b = Some b' \<and> (organization, campus) \<in> set (user_memberships u)
    \<and> bd_org b' = Some organization \<and> (campus = None \<or> bd_campus b' = campus))"

definition building_of :: "monitoring_db \<Rightarrow> location_entry option \<Rightarrow> building_entry option" where
  "building_of db l = (case l of None \<Rightarrow> None | Some l' \<Rightarrow> location_building db l')"

lemma location_paths_owner:
  "location_paths db p l = (case building_of db l of None \<Rightarrow> [] | Some b \<Rightarrow> owner_paths (p @ ''building__'') b)"
  by (auto simp: location_paths_def building_of_def split: option.split)

lemma scoped_row_owner:
  assumes "x \<in> set (apply_tenant_scope dp m db u to_row table xs)" "set xs \<subseteq> set table"
    and "inj_on (rw_pk \<circ> to_row) (set table)" "dp_msp dp" "\<not> unrestricted dp u"
    and "tenant_lookups m = Some (p @ ''organization_id'', Some (p @ ''campus_id''))"
    and "rw_joins (to_row x) = [case b of None \<Rightarrow> [] | Some b' \<Rightarrow> owner_paths p b']"
  shows "of_members u b"
proof -
  from assms(1,4) obtain y where y: "x \<in> set xs" "y \<in> set (tenant_visible dp m db u to_row table)" "rw_pk (to_row x) = rw_pk (to_row y)"
    by (auto simp: apply_tenant_scope_def tenant_mode_def)
  have "y \<in> set table" using y(2) tenant_visible_subset[of dp m db u to_row table] by blast
  then have "x = y" using inj_onD[OF assms(3), of x y] y(1,3) assms(2) by auto
  with tenant_visible_row[OF y(2) assms(3)] have "to_row x \<in> set (for_user dp m (with_groups db u) (map to_row table))" by simp
  from tenant_row_owner[OF this assms(4) _ assms(6,7)] assms(5) show ?thesis by (simp add: of_members_def)
qed

text \<open>C39: Under tenants nobody but a superuser across organizations reaches a channel or a location outside the
  organizations, and campuses, of a current membership, whatever monitoring groups the user is in.\<close>

theorem monitoring_within_organizations:
  assumes "dp_msp dp" "\<not> unrestricted dp u"
    and "distinct (map pt_pk (md_channels db))" "distinct (map lo_pk (md_locations db))"
  shows "(\<forall>c \<in> set (get_accessible_channels dp db u). of_members u (building_of db (chassis_location db (pt_parent c))))
    \<and> (\<forall>l \<in> set (get_accessible_locations dp db u). of_members u (location_building db l))"
proof (intro conjI ballI)
  fix c
  assume "c \<in> set (get_accessible_channels dp db u)"
  then show "of_members u (building_of db (chassis_location db (pt_parent c)))"
    unfolding get_accessible_channels_def
  proof (rule scoped_row_owner[where p = "''chassis__location__building__''"])
    show "inj_on (rw_pk \<circ> channel_row db) (set (md_channels db))"
      using assms(3) by (auto simp: distinct_map inj_on_def channel_row_def)
    show "tenant_lookups channel_model = Some (''chassis__location__building__'' @ ''organization_id'', Some (''chassis__location__building__'' @ ''campus_id''))"
      by code_simp
    show "rw_joins (channel_row db c) =
        [case building_of db (chassis_location db (pt_parent c)) of None \<Rightarrow> [] | Some b' \<Rightarrow> owner_paths ''chassis__location__building__'' b']"
    proof -
      have "''chassis__location__'' @ ''building__'' = ''chassis__location__building__''" by simp
      then show ?thesis unfolding channel_row_def location_paths_owner row.select_convs by (rule arg_cong)
    qed
  qed (use assms(1,2) in \<open>auto simp: Let_def\<close>)
next
  fix l
  assume "l \<in> set (get_accessible_locations dp db u)"
  then show "of_members u (location_building db l)"
    unfolding get_accessible_locations_def
  proof (rule scoped_row_owner[where p = "''building__''"])
    show "inj_on (rw_pk \<circ> location_row db) (set (md_locations db))"
      using assms(4) by (auto simp: distinct_map inj_on_def location_row_def)
    show "tenant_lookups location_model = Some (''building__'' @ ''organization_id'', Some (''building__'' @ ''campus_id''))"
      by code_simp
    show "rw_joins (location_row db l) = [case location_building db l of None \<Rightarrow> [] | Some b' \<Rightarrow> owner_paths ''building__'' b']"
    proof -
      have "[] @ ''building__'' = ''building__''" by simp
      then show ?thesis
        unfolding location_row_def location_paths_owner row.select_convs building_of_def option.case by (rule arg_cong)
    qed
  qed (use assms(1,2) in \<open>auto simp: Let_def\<close>)
qed

text \<open>Under tenants a performer without assignments belongs to no organization: nobody but a superuser across
  organizations can make the first one.\<close>

theorem first_assignment_refused:
  assumes "dp_msp dp" "\<not> unrestricted dp u" "cm_performer cm \<notin> pa_performer ` set (md_assignments db)"
  shows "create_assignment dp now u cm db = Inl OutsideScope"
proof -
  let ?p = "cm_performer cm"
  have "\<forall>a \<in> set (md_assignments db). pa_performer a \<noteq> ?p" using assms(3) by force
  then have "filter (\<lambda>a. pa_performer a = ?p) (md_assignments db) = []" by (simp add: filter_empty_conv)
  then have no_joins: "rw_joins (performer_row db ?p) = []" by (simp add: performer_row_def)
  have none: "r \<notin> set (for_user dp performer_model (with_groups db u) (map (performer_row db) (md_performers db)))"
    if "rw_pk r = ?p" for r
  proof (rule notI)
    assume "r \<in> set (for_user dp performer_model (with_groups db u) (map (performer_row db) (md_performers db)))"
    from for_user_msp[OF this assms(1)] assms(2)
    have "r \<in> set (map (performer_row db) (md_performers db))" "rw_joins r \<noteq> []"
      unfolding mem_for_memberships by auto
    then have "r = performer_row db ?p" using that by (auto simp: performer_row_def)
    with \<open>rw_joins r \<noteq> []\<close> no_joins show False by simp
  qed
  then have "?p \<notin> set (tenant_visible dp performer_model db u (performer_row db) (md_performers db))"
    using none by (auto simp: tenant_visible_def Let_def performer_row_def)
  then have "?p \<notin> set (performers_for_user dp db u)"
    by (auto simp: performers_for_user_def Let_def split: if_splits)
  then show ?thesis by (simp add: create_assignment_def split: option.split)
qed

section \<open>Examples\<close>

text \<open>Two organizations with one building each, a unit in the first, and an operator of the first in its
  monitoring group.\<close>

definition sample_deployment :: deployment where
  "sample_deployment = \<lparr>dp_multi_site = False, dp_msp = True, dp_cross_org = False, dp_site = 1, dp_installed = True\<rparr>"

definition sample_assignment :: performer_assignment where
  "sample_assignment = \<lparr>pa_pk = 1, pa_performer = 1, pa_unit = 1, pa_team = 1, pa_priority = ''normal'', pa_notes = [],
     pa_active = True, pa_battery = True, pa_signal = True, pa_audio = False, pa_offline = True, pa_assigned_by = 9,
     pa_assigned_at = 0, pa_updated = 0\<rparr>"

definition sample_monitoring :: monitoring_db where
  "sample_monitoring = \<lparr>
     md_buildings = [\<lparr>bd_pk = 1, bd_org = Some 1, bd_campus = None, bd_site = None\<rparr>,
                     \<lparr>bd_pk = 2, bd_org = Some 2, bd_campus = None, bd_site = None\<rparr>],
     md_rooms = [], md_locations = [\<lparr>lo_pk = 1, lo_building = 1, lo_room = None, lo_active = True\<rparr>,
                                    \<lparr>lo_pk = 2, lo_building = 2, lo_room = None, lo_active = True\<rparr>],
     md_chassis = [\<lparr>pd_pk = 1, pd_location = Some 1\<rparr>, \<lparr>pd_pk = 2, pd_location = Some 2\<rparr>],
     md_channels = [\<lparr>pt_pk = 1, pt_parent = 1\<rparr>, \<lparr>pt_pk = 2, pt_parent = 2\<rparr>],
     md_units = [\<lparr>wu_pk = 1, wu_serial = ''U1'', wu_chassis = 1, wu_resource = Some 1\<rparr>],
     md_chargers = [], md_slots = [], md_walls = [], md_sections = [],
     md_teams = [\<lparr>tm_pk = 1, tm_active = True, tm_users = [5], tm_channels = [1, 2], tm_locations = [(1, True), (2, True)]\<rparr>],
     md_performers = [1, 2], md_assignments = [sample_assignment]\<rparr>"

definition sample_operator :: user where
  "sample_operator = \<lparr>us_pk = 5, us_authenticated = True, us_active = True, us_superuser = False,
     us_memberships = [\<lparr>me_org = 1, me_campus = None, me_role = ''operator'', me_active = True, me_org_active = True,
        me_org_site = None, me_campus_active = False, me_campus_org = 0\<rparr>], us_groups = []\<rparr>"

definition sample_change :: assignment_request where
  "sample_change = Change 1 \<lparr>uc_priority = Some ''critical'', uc_notes = None, uc_active = None, uc_battery = None,
     uc_signal = None, uc_audio = None, uc_offline = None\<rparr>"

theorem assignment_changes_authorized_witness:
  "\<exists>db'. serve sample_deployment 7 sample_operator sample_change sample_monitoring = Inr db'
     \<and> sample_assignment \<in> changed_rows sample_monitoring db' \<and> may_change sample_monitoring sample_operator sample_assignment"
proof -
  have "(case serve sample_deployment 7 sample_operator sample_change sample_monitoring of Inl _ \<Rightarrow> False
      | Inr db' \<Rightarrow> sample_assignment \<notin> set (md_assignments db'))" by code_simp
  then obtain db' where db': "serve sample_deployment 7 sample_operator sample_change sample_monitoring = Inr db'"
    "sample_assignment \<notin> set (md_assignments db')" by (auto split: sum.splits)
  have "sample_assignment \<in> set (md_assignments sample_monitoring)" by (simp add: sample_monitoring_def)
  with db'(2) have mem: "sample_assignment \<in> changed_rows sample_monitoring db'" by (simp add: changed_rows_def)
  have "dp_msp sample_deployment" "\<not> unrestricted sample_deployment sample_operator"
    "distinct (map pa_pk (md_assignments sample_monitoring))" by code_simp+
  from assignment_changes_authorized[OF db'(1) this] db'(1) mem show ?thesis by blast
qed

theorem assignment_pairs_unique_witness:
  "\<exists>db'. serve sample_deployment 7 sample_operator sample_change sample_monitoring = Inr db' \<and> assignments_ok db'"
proof -
  have "\<not> isl (serve sample_deployment 7 sample_operator sample_change sample_monitoring)" by code_simp
  then obtain db' where db': "serve sample_deployment 7 sample_operator sample_change sample_monitoring = Inr db'"
    by (auto simp: isl_def) (metis sum.exhaust)
  have "assignments_ok sample_monitoring" by code_simp
  with assignment_pairs_unique[OF db'] db' show ?thesis by blast
qed

theorem monitoring_within_organizations_witness:
  "map pt_pk (get_accessible_channels sample_deployment sample_monitoring sample_operator) = [1]
   \<and> list_all (\<lambda>c. of_members sample_operator (building_of sample_monitoring (chassis_location sample_monitoring (pt_parent c))))
        (get_accessible_channels sample_deployment sample_monitoring sample_operator)"
proof -
  have "map pt_pk (get_accessible_channels sample_deployment sample_monitoring sample_operator) = [1]" by code_simp
  moreover have "dp_msp sample_deployment" "\<not> unrestricted sample_deployment sample_operator"
    "distinct (map pt_pk (md_channels sample_monitoring))" "distinct (map lo_pk (md_locations sample_monitoring))" by code_simp+
  ultimately show ?thesis unfolding list_all_iff using monitoring_within_organizations by blast
qed

definition busy_monitoring :: monitoring_db where
  "busy_monitoring = sample_monitoring\<lparr>md_assignments :=
     [sample_assignment\<lparr>pa_priority := ''low'', pa_updated := 9\<rparr>,
      sample_assignment\<lparr>pa_pk := 2, pa_priority := ''critical'', pa_updated := 3\<rparr>,
      sample_assignment\<lparr>pa_pk := 3, pa_priority := ''critical'', pa_updated := 5\<rparr>,
      sample_assignment\<lparr>pa_pk := 4, pa_priority := ''critical'', pa_updated := 5\<rparr>,
      sample_assignment\<lparr>pa_pk := 5, pa_priority := ''critical'', pa_updated := 8, pa_active := False\<rparr>,
      sample_assignment\<lparr>pa_pk := 6, pa_priority := ''high'', pa_updated := 7\<rparr>]\<rparr>"

theorem preferred_assignments_exact_witness:
  "map pa_pk (get_preferred_for_units sample_deployment busy_monitoring sample_operator [1]) = [4]
   \<and> list_all (\<lambda>a. list_all (\<lambda>b. \<not> pa_active b \<or> pa_unit b \<noteq> pa_unit a \<or> b = a \<or> preferred_over a b)
        (assignments_for_user sample_deployment busy_monitoring sample_operator))
      (get_preferred_for_units sample_deployment busy_monitoring sample_operator [1])"
proof -
  have "map pa_pk (get_preferred_for_units sample_deployment busy_monitoring sample_operator [1]) = [4]" by code_simp
  moreover have "distinct (map pa_pk (md_assignments busy_monitoring))" by code_simp
  ultimately show ?thesis using preferred_assignments_exact[of busy_monitoring sample_deployment sample_operator "[1]"]
    unfolding list_all_iff by blast
qed

definition sample_first :: create_command where
  "sample_first = \<lparr>cm_performer = 2, cm_unit = 1, cm_team = 1, cm_priority = ''normal'', cm_notes = [], cm_battery = None,
     cm_signal = None, cm_audio = None, cm_offline = None, cm_active = True\<rparr>"

theorem first_assignment_refused_witness:
  "create_assignment sample_deployment 7 sample_operator sample_first sample_monitoring = Inl OutsideScope"
  by (rule first_assignment_refused) code_simp+

text \<open>The list of assignments puts the critical ones last: the column is ordered as a text.\<close>

lemma critical_listed_last:
  "map (\<lambda>a. pa_priority a) (sort_key (\<lambda>a. (priority_text_rank (pa_priority a), 0 :: nat))
     [sample_assignment\<lparr>pa_priority := ''critical''\<rparr>, sample_assignment\<lparr>pa_priority := ''low''\<rparr>, sample_assignment])
   = [''normal'', ''low'', ''critical'']"
  by code_simp

text \<open>A membership whose campus was closed no longer lets its user see anything, but still lets it change
  assignments of that campus that another membership shows.\<close>

definition closed_campus_operator :: user where
  "closed_campus_operator = sample_operator\<lparr>us_memberships :=
     [\<lparr>me_org = 1, me_campus = None, me_role = ''viewer'', me_active = True, me_org_active = True,
        me_org_site = None, me_campus_active = False, me_campus_org = 0\<rparr>,
      \<lparr>me_org = 1, me_campus = Some 4, me_role = ''operator'', me_active = True, me_org_active = True,
        me_org_site = None, me_campus_active = False, me_campus_org = 1\<rparr>]\<rparr>"

definition campus_monitoring :: monitoring_db where
  "campus_monitoring = sample_monitoring\<lparr>md_buildings :=
     [\<lparr>bd_pk = 1, bd_org = Some 1, bd_campus = Some 4, bd_site = None\<rparr>]\<rparr>"

lemma closed_campus_still_modifies:
  "(1, Some 4) \<notin> set (user_memberships closed_campus_operator)"
  "\<not> isl (serve sample_deployment 7 closed_campus_operator sample_change campus_monitoring)"
  by code_simp+

end
