(* ===== verification/Secret_Redaction.thy ===== *)
theory Secret_Redaction
  imports Manufacturer_Sync
begin

text \<open>
  Secrets in configuration JSON (\<open>services/manufacturer/secret_redaction.py\<close>): what is shown of a value,
  and how a submitted value that kept the placeholders gets its secrets back from the stored one.

  An object is the list of its entries in order, with distinct keys.  A submission that cannot be restored
  is refused with \<open>ValidationError\<close>, here \<open>Inl\<close> of the reason.
\<close>

section \<open>Keys\<close>

definition redacted_value :: string where "redacted_value = ''********''"

definition secret_key_parts :: "string list" where
  "secret_key_parts =
     [''api_key'', ''credential'', ''password'', ''private_key'', ''secret'', ''shared_key'', ''token'']"

definition list_identity_keys :: "string list" where
  "list_identity_keys = [''id'', ''key'', ''code'', ''name'']"

definition is_compact_char :: "char \<Rightarrow> bool" where
  "is_compact_char c = (let n = of_char c :: nat in (97 \<le> n \<and> n \<le> 122) \<or> (48 \<le> n \<and> n \<le> 57))"

text \<open>
  The key is case folded first, which for a Latin-1 letter the filter below keeps differs from lower case only
  in the sharp s, folded to two letters.
\<close>

definition casefold :: "string \<Rightarrow> string" where
  "casefold k = concat (map (\<lambda>c. if c = CHR 0xDF then ''ss'' else [c]) (lower k))"

definition compact_key :: "string \<Rightarrow> string" where
  "compact_key k = filter is_compact_char (casefold k)"

definition is_secret_key :: "string \<Rightarrow> bool" where
  "is_secret_key k = list_ex (\<lambda>part. contains (compact_key part) (compact_key k)) secret_key_parts"

section \<open>Redaction\<close>

fun redact_secrets :: "json \<Rightarrow> json"
  and redact_entries :: "(string \<times> json) list \<Rightarrow> (string \<times> json) list"
  and redact_items :: "json list \<Rightarrow> json list"
where
  "redact_secrets (JObj d) = JObj (redact_entries d)"
| "redact_secrets (JList xs) = JList (redact_items xs)"
| "redact_secrets v = v"
| "redact_entries [] = []"
| "redact_entries ((k, v) # d) =
     (k, if is_secret_key k then JStr redacted_value else redact_secrets v) # redact_entries d"
| "redact_items [] = []"
| "redact_items (x # xs) = redact_secrets x # redact_items xs"

section \<open>Restoring\<close>

fun contains_secret_placeholder :: "json \<Rightarrow> bool"
  and entries_contain_placeholder :: "(string \<times> json) list \<Rightarrow> bool"
  and items_contain_placeholder :: "json list \<Rightarrow> bool"
where
  "contains_secret_placeholder (JObj d) = entries_contain_placeholder d"
| "contains_secret_placeholder (JList xs) = items_contain_placeholder xs"
| "contains_secret_placeholder v = False"
| "entries_contain_placeholder [] = False"
| "entries_contain_placeholder ((k, v) # d) =
     ((is_secret_key k \<and> v = JStr redacted_value) \<or> contains_secret_placeholder v \<or> entries_contain_placeholder d)"
| "items_contain_placeholder [] = False"
| "items_contain_placeholder (x # xs) = (contains_secret_placeholder x \<or> items_contain_placeholder xs)"

fun contains_secret_key :: "json \<Rightarrow> bool"
  and entries_contain_secret :: "(string \<times> json) list \<Rightarrow> bool"
  and items_contain_secret :: "json list \<Rightarrow> bool"
where
  "contains_secret_key (JObj d) = entries_contain_secret d"
| "contains_secret_key (JList xs) = items_contain_secret xs"
| "contains_secret_key v = False"
| "entries_contain_secret [] = False"
| "entries_contain_secret ((k, v) # d) = (is_secret_key k \<or> contains_secret_key v \<or> entries_contain_secret d)"
| "items_contain_secret [] = False"
| "items_contain_secret (x # xs) = (contains_secret_key x \<or> items_contain_secret xs)"

text \<open>The entries under their compact keys; of two with the same compact key the last one counts.\<close>

definition compact_items :: "(string \<times> json) list \<Rightarrow> string \<Rightarrow> json option" where
  "compact_items d = map_of (rev (map (\<lambda>(k, v). (compact_key k, v)) d))"

fun is_identity :: "json \<Rightarrow> bool" where
  "is_identity (JStr _) = True"
| "is_identity (JInt _) = True"
| "is_identity _ = False"

fun list_item_identity :: "json \<Rightarrow> (string \<times> json) option" where
  "list_item_identity (JObj d) =
     (case find (\<lambda>k. case compact_items d k of None \<Rightarrow> False | Some v \<Rightarrow> is_identity v) list_identity_keys of
        None \<Rightarrow> None
      | Some k \<Rightarrow> map_option (Pair k) (compact_items d k))"
| "list_item_identity _ = None"

datatype redaction_error = NoOriginalSecret | AmbiguousItem

definition original_list_item :: "json \<Rightarrow> json list \<Rightarrow> bool \<Rightarrow> redaction_error + json" where
  "original_list_item x original require_identity =
     (let matches =
        (case list_item_identity x of
           Some i \<Rightarrow> filter (\<lambda>c. list_item_identity c = Some i) original
         | None \<Rightarrow> if require_identity then [] else filter contains_secret_key original)
      in (case matches of [m] \<Rightarrow> Inr m | _ \<Rightarrow> Inl AmbiguousItem))"

fun entries_of :: "json \<Rightarrow> (string \<times> json) list" where
  "entries_of (JObj d) = d"
| "entries_of _ = []"

fun items_of :: "json \<Rightarrow> json list" where
  "items_of (JList xs) = xs"
| "items_of _ = []"

fun restore_redacted_secrets :: "json \<Rightarrow> json \<Rightarrow> redaction_error + json"
  and restore_entries :: "(string \<times> json) list \<Rightarrow> (string \<times> json) list \<Rightarrow> redaction_error + (string \<times> json) list"
  and restore_items :: "json list \<Rightarrow> bool \<Rightarrow> nat \<Rightarrow> json list \<Rightarrow> redaction_error + json list"
where
  "restore_redacted_secrets (JObj d) original = bindE (restore_entries d (entries_of original)) (\<lambda>r. Inr (JObj r))"
| "restore_redacted_secrets (JList xs) original =
     bindE (restore_items xs (length xs > 1) 0 (items_of original)) (\<lambda>r. Inr (JList r))"
| "restore_redacted_secrets v original = Inr v"
| "restore_entries [] original = Inr []"
| "restore_entries ((k, v) # d) original =
     bindE (if is_secret_key k \<and> v = JStr redacted_value
            then (case map_of original k of None \<Rightarrow> Inl NoOriginalSecret | Some s \<Rightarrow> Inr s)
            else restore_redacted_secrets v (field original k)) (\<lambda>v'.
     bindE (restore_entries d original) (\<lambda>d'. Inr ((k, v') # d')))"
| "restore_items [] require_identity i original = Inr []"
| "restore_items (x # xs) require_identity i original =
     bindE (if contains_secret_placeholder x then original_list_item x original require_identity
            else Inr (if i < length original then original ! i else JNull)) (\<lambda>source.
     bindE (restore_redacted_secrets x source) (\<lambda>x'.
     bindE (restore_items xs require_identity (Suc i) original) (\<lambda>xs'. Inr (x' # xs'))))"

section \<open>Plain values under secret keys\<close>

text \<open>The values found under secret keys, at any depth, as far as they are not objects or lists themselves.\<close>

fun is_leaf :: "json \<Rightarrow> bool" where
  "is_leaf (JObj _) = False"
| "is_leaf (JList _) = False"
| "is_leaf _ = True"

fun secret_leaves :: "json \<Rightarrow> (string \<times> json) list"
  and entries_leaves :: "(string \<times> json) list \<Rightarrow> (string \<times> json) list"
  and items_leaves :: "json list \<Rightarrow> (string \<times> json) list"
where
  "secret_leaves (JObj d) = entries_leaves d"
| "secret_leaves (JList xs) = items_leaves xs"
| "secret_leaves v = []"
| "entries_leaves [] = []"
| "entries_leaves ((k, v) # d) =
     (if is_secret_key k \<and> is_leaf v then [(k, v)] else []) @ secret_leaves v @ entries_leaves d"
| "items_leaves [] = []"
| "items_leaves (x # xs) = secret_leaves x @ items_leaves xs"

lemma placeholder_iff_secret [simp]:
  "contains_secret_placeholder (redact_secrets v) = contains_secret_key v"
  "entries_contain_placeholder (redact_entries d) = entries_contain_secret d"
  "items_contain_placeholder (redact_items xs) = items_contain_secret xs"
  by (induction v and d and xs rule: redact_secrets_redact_entries_redact_items.induct) auto

lemma redact_entries_map:
  "redact_entries d = map (\<lambda>(k, v). (k, if is_secret_key k then JStr redacted_value else redact_secrets v)) d"
  by (induction d) auto

lemma redact_items_map [simp]: "redact_items xs = map redact_secrets xs"
  by (induction xs) auto

section \<open>Identities survive redaction\<close>

lemma identity_keys_not_secret:
  assumes "compact_key k \<in> set list_identity_keys"
  shows "\<not> is_secret_key k"
proof -
  have "\<forall>i \<in> set list_identity_keys. \<not> list_ex (\<lambda>part. contains (compact_key part) i) secret_key_parts"
    by code_simp
  then show ?thesis using assms unfolding is_secret_key_def by blast
qed

lemma redact_identity [simp]: "is_identity (redact_secrets v) = is_identity v"
  by (cases v) auto

lemma redact_of_identity: "is_identity v \<Longrightarrow> redact_secrets v = v"
  by (cases v) auto

lemma map_of_compact_redact:
  assumes "i \<in> set list_identity_keys"
  shows "map_of (map (\<lambda>(k, v). (compact_key k, v)) (redact_entries d)) i =
         map_option redact_secrets (map_of (map (\<lambda>(k, v). (compact_key k, v)) d) i)"
  using assms identity_keys_not_secret by (induction d) auto

lemma redact_entries_rev: "rev (redact_entries d) = redact_entries (rev d)"
  by (simp add: redact_entries_map rev_map)

lemma compact_items_redact:
  assumes "i \<in> set list_identity_keys"
  shows "compact_items (redact_entries d) i = map_option redact_secrets (compact_items d i)"
proof -
  have "compact_items (redact_entries d) i =
        map_of (map (\<lambda>(k, v). (compact_key k, v)) (redact_entries (rev d))) i"
    by (simp add: compact_items_def rev_map redact_entries_rev)
  also have "\<dots> = map_option redact_secrets (compact_items d i)"
    by (simp add: map_of_compact_redact [OF assms] compact_items_def rev_map)
  finally show ?thesis .
qed

lemma redact_identity_of_item [simp]: "list_item_identity (redact_secrets v) = list_item_identity v"
proof (cases v)
  case (JObj d)
  let ?q = "\<lambda>d k. case compact_items d k of None \<Rightarrow> False | Some v \<Rightarrow> is_identity v"
  have same: "?q (redact_entries d) k = ?q d k" if "k \<in> set list_identity_keys" for k
    by (simp add: compact_items_redact [OF that] split: option.splits)
  then have found: "find (?q (redact_entries d)) list_identity_keys = find (?q d) list_identity_keys"
    by (intro find_cong refl)
  show ?thesis
  proof (cases "find (?q d) list_identity_keys")
    case None
    then show ?thesis by (simp add: JObj found)
  next
    case (Some k)
    then have k: "k \<in> set list_identity_keys" "?q d k"
      by (auto simp: find_Some_iff)
    then have "compact_items (redact_entries d) k = compact_items d k"
      by (auto simp: compact_items_redact redact_of_identity split: option.splits)
    then show ?thesis by (simp add: JObj found Some)
  qed
qed simp_all

section \<open>A value that was shown and sent back\<close>

text \<open>
  Keys of an object are distinct.  The secrets of a value can be found again when, in each of its lists of
  several items outside the secrets themselves, each item with a secret has an identity no other item of
  the list has.
\<close>

fun well_keyed :: "json \<Rightarrow> bool"
  and entries_well_keyed :: "(string \<times> json) list \<Rightarrow> bool"
  and items_well_keyed :: "json list \<Rightarrow> bool"
where
  "well_keyed (JObj d) = (distinct (map fst d) \<and> entries_well_keyed d)"
| "well_keyed (JList xs) = items_well_keyed xs"
| "well_keyed v = True"
| "entries_well_keyed [] = True"
| "entries_well_keyed ((k, v) # d) = (well_keyed v \<and> entries_well_keyed d)"
| "items_well_keyed [] = True"
| "items_well_keyed (x # xs) = (well_keyed x \<and> items_well_keyed xs)"

definition identified_in :: "json list \<Rightarrow> json \<Rightarrow> bool" where
  "identified_in xs x =
     (list_item_identity x \<noteq> None \<and> filter (\<lambda>c. list_item_identity c = list_item_identity x) xs = [x])"

definition identified_items :: "json list \<Rightarrow> bool" where
  "identified_items xs =
     (length xs > 1 \<longrightarrow> list_all (\<lambda>x. contains_secret_key x \<longrightarrow> identified_in xs x) xs)"

fun identifiable :: "json \<Rightarrow> bool"
  and entries_identifiable :: "(string \<times> json) list \<Rightarrow> bool"
  and items_identifiable :: "json list \<Rightarrow> bool"
where
  "identifiable (JObj d) = entries_identifiable d"
| "identifiable (JList xs) = (identified_items xs \<and> items_identifiable xs)"
| "identifiable v = True"
| "entries_identifiable [] = True"
| "entries_identifiable ((k, v) # d) = ((\<not> is_secret_key k \<longrightarrow> identifiable v) \<and> entries_identifiable d)"
| "items_identifiable [] = True"
| "items_identifiable (x # xs) = (identifiable x \<and> items_identifiable xs)"

lemma filter_single: "x \<in> set (filter P xs) \<Longrightarrow> (filter P xs = [y]) = (filter P xs = [x] \<and> y = x)"
  by (cases "filter P xs") auto

lemma original_of_redacted:
  assumes "x \<in> set xs" "contains_secret_key x"
  shows "original_list_item (redact_secrets x) xs (1 < length xs) =
    (if 1 < length xs \<longrightarrow> identified_in xs x then Inr x else Inl AmbiguousItem)"
proof (cases "length xs > 1")
  case True
  show ?thesis
  proof (cases "list_item_identity x")
    case None
    with True show ?thesis by (simp add: original_list_item_def identified_in_def)
  next
    case (Some i)
    have "x \<in> set (filter (\<lambda>c. list_item_identity c = Some i) xs)" using assms(1) Some by simp
    then show ?thesis
      using True Some by (cases "filter (\<lambda>c. list_item_identity c = Some i) xs")
        (auto simp: original_list_item_def identified_in_def split: list.splits)
  qed
next
  case False
  then have "xs = [x]" using assms(1) by (cases xs) auto
  then show ?thesis using assms(2) by (auto simp: original_list_item_def split: option.splits)
qed

lemma restore_redacted:
  "well_keyed v \<Longrightarrow>
     restore_redacted_secrets (redact_secrets v) v = (if identifiable v then Inr v else Inl AmbiguousItem)"
  "entries_well_keyed d \<Longrightarrow> distinct (map fst d) \<Longrightarrow> \<forall>(k, v) \<in> set d. map_of original k = Some v \<Longrightarrow>
     restore_entries (redact_entries d) original = (if entries_identifiable d then Inr d else Inl AmbiguousItem)"
  "items_well_keyed xs \<Longrightarrow> \<forall>x \<in> set xs. contains_secret_key x \<longrightarrow>
       original_list_item (redact_secrets x) all req = (if found x then Inr x else Inl AmbiguousItem) \<Longrightarrow>
     drop i all = xs \<Longrightarrow> restore_items (redact_items xs) req i all =
       (if items_identifiable xs \<and> list_all (\<lambda>x. contains_secret_key x \<longrightarrow> found x) xs then Inr xs else Inl AmbiguousItem)"
proof (induction v and d and xs arbitrary: and original and all req i found
    rule: redact_secrets_redact_entries_redact_items.induct)
  case (1 d)
  then show ?case by (auto simp: bindE_def)
next
  case (2 xs)
  have "restore_items (redact_items xs) (1 < length xs) 0 xs = (if items_identifiable xs
      \<and> list_all (\<lambda>x. contains_secret_key x \<longrightarrow> 1 < length xs \<longrightarrow> identified_in xs x) xs then Inr xs else Inl AmbiguousItem)"
    using 2(2) by (intro 2(1)) (auto simp: original_of_redacted [simplified])
  then show ?case by (auto simp: bindE_def identified_items_def list_all_iff split: if_splits)
next
  case (7 x xs)
  then have "i < length all" "all ! i = x" "drop (Suc i) all = xs"
    by (metis drop_all list.distinct(1) not_less, metis nth_via_drop, metis drop_Suc list.sel(3) tl_drop)
  moreover have "restore_items (redact_items xs) req (Suc i) all = (if items_identifiable xs
      \<and> list_all (\<lambda>x. contains_secret_key x \<longrightarrow> found x) xs then Inr xs else Inl AmbiguousItem)"
    using 7(3,4) calculation(3) by (intro 7(2)) auto
  ultimately show ?case using 7(1,3,4) by (auto simp: bindE_def)
next
  case (5 k v d)
  then have "restore_entries (redact_entries d) original = (if entries_identifiable d then Inr d else Inl AmbiguousItem)"
    "field original k = v"
    by (auto simp: field_def)
  then show ?case using 5 by (auto simp: bindE_def)
qed auto

section \<open>What is shown\<close>

text \<open>
  A place in a value is a path of keys and positions; what is there at first sight is a plain value, the
  keys of an object or the length of a list.
\<close>

datatype place = AtKey string | AtIndex nat

fun at_path :: "json \<Rightarrow> place list \<Rightarrow> json option" where
  "at_path v [] = Some v"
| "at_path (JObj d) (AtKey k # p) = (case map_of d k of None \<Rightarrow> None | Some v \<Rightarrow> at_path v p)"
| "at_path (JList xs) (AtIndex i # p) = (if i < length xs then at_path (xs ! i) p else None)"
| "at_path v (s # p) = None"

fun outer :: "json \<Rightarrow> json" where
  "outer (JObj d) = JObj (map (\<lambda>(k, v). (k, JNull)) d)"
| "outer (JList xs) = JList (map (\<lambda>x. JNull) xs)"
| "outer v = v"

fun secret_place :: "place \<Rightarrow> bool" where
  "secret_place (AtKey k) = is_secret_key k"
| "secret_place (AtIndex i) = False"

text \<open>What may be seen at a place: everything up to the first secret key, the mask there, nothing below.\<close>

definition may_see :: "json \<Rightarrow> place list \<Rightarrow> json option" where
  "may_see v p =
     (case dropWhile (\<lambda>s. \<not> secret_place s) p of
        [] \<Rightarrow> map_option outer (at_path v p)
      | [_] \<Rightarrow> (if at_path v p = None then None else Some (JStr redacted_value))
      | _ \<Rightarrow> None)"

lemma redact_entries_lookup:
  "map_of (redact_entries d) k =
     map_option (\<lambda>v. if is_secret_key k then JStr redacted_value else redact_secrets v) (map_of d k)"
  by (induction d) auto

lemma outer_redacted: "outer (redact_secrets v) = outer v"
  by (cases v) (auto simp: redact_entries_map)

lemma may_see_step:
  assumes "\<not> secret_place s" "at_path v (s # p) = at_path w p"
  shows "may_see v (s # p) = may_see w p"
  unfolding may_see_def assms(2) using assms(1) by simp

lemma may_see_nowhere: "at_path v p = None \<Longrightarrow> may_see v p = None"
  by (simp add: may_see_def split: list.split)

lemma may_see_secret:
  "secret_place s \<Longrightarrow> may_see v (s # p) =
     (if p = [] \<and> at_path v [s] \<noteq> None then Some (JStr redacted_value) else None)"
  by (cases p) (auto simp: may_see_def)

lemma at_path_into_plain: "at_path (JStr s) p = (if p = [] then Some (JStr s) else None)"
  by (cases p) auto

lemma redacted_seen: "map_option outer (at_path (redact_secrets v) p) = may_see v p"
proof (induction p arbitrary: v)
  case Nil
  then show ?case by (simp add: may_see_def outer_redacted)
next
  case (Cons s p)
  consider (entry) d k w where "v = JObj d" "s = AtKey k" "map_of d k = Some w"
    | (item) xs i where "v = JList xs" "s = AtIndex i" "i < length xs"
    | (nowhere) "at_path v (s # p) = None" "at_path (redact_secrets v) (s # p) = None"
  proof (cases "\<exists>d k. v = JObj d \<and> s = AtKey k \<and> map_of d k \<noteq> None")
    case True
    then show thesis by (auto intro: entry)
  next
    case no_entry: False
    show thesis
    proof (cases "\<exists>xs i. v = JList xs \<and> s = AtIndex i \<and> i < length xs")
      case True
      then show thesis by (auto intro: item)
    next
      case False
      have "at_path (redact_secrets v) (s # p) = None" "at_path v (s # p) = None"
        using no_entry False by (cases v; cases s; simp add: redact_entries_lookup)+
      then show thesis by (intro nowhere)
    qed
  qed
  then show ?case
  proof cases
    case entry
    show ?thesis
    proof (cases "is_secret_key k")
      case True
      with entry show ?thesis
        by (simp add: redact_entries_lookup may_see_secret at_path_into_plain)
    next
      case False
      with entry have "may_see v (s # p) = may_see w p" by (intro may_see_step) auto
      with entry False Cons.IH [of w] show ?thesis by (simp add: redact_entries_lookup)
    qed
  next
    case item
    then have "may_see v (s # p) = may_see (xs ! i) p" by (intro may_see_step) auto
    with item Cons.IH [of "xs ! i"] show ?thesis by simp
  next
    case nowhere
    then show ?thesis by (simp add: may_see_nowhere)
  qed
qed

section \<open>Where restored secrets come from\<close>


text \<open>What can come out of restoring: the submitted secrets that are not placeholders, and original ones.\<close>

lemma leaves_of_original:
  "map_of d k = Some v \<Longrightarrow> is_secret_key k \<Longrightarrow> is_leaf v \<Longrightarrow> (k, v) \<in> set (entries_leaves d)"
  "map_of d k = Some v \<Longrightarrow> set (secret_leaves v) \<subseteq> set (entries_leaves d)"
  by (induction d) (auto split: if_splits)

lemma leaves_of_field: "set (secret_leaves (field (entries_of original) k)) \<subseteq> set (secret_leaves original)"
proof (cases original)
  case (JObj d)
  then show ?thesis using leaves_of_original(2) [of d k] by (auto simp: field_def split: option.splits)
qed (simp_all add: field_def)

lemma leaves_of_member: "x \<in> set xs \<Longrightarrow> set (secret_leaves x) \<subseteq> set (items_leaves xs)"
  by (induction xs) auto

lemma leaves_of_items: "items_leaves (items_of original) = secret_leaves original \<or> items_of original = []"
  by (cases original) auto

lemma single_match: "filter P xs = [y] \<Longrightarrow> y \<in> set xs"
  by (metis filter_is_subset list.set_intros(1) subsetD)

lemma original_list_item_member: "original_list_item x original req = Inr y \<Longrightarrow> y \<in> set original"
  unfolding original_list_item_def Let_def
  by (auto split: option.splits list.splits if_splits dest: single_match)

lemma restored_leaf: "restore_redacted_secrets v original = Inr r \<Longrightarrow> is_leaf r \<Longrightarrow> r = v"
  by (cases v) (auto simp: result_simps)

lemma restored_leaves:
  "restore_redacted_secrets v original = Inr r \<Longrightarrow> ks \<in> set (secret_leaves r) \<Longrightarrow>
     ks \<in> set (secret_leaves v) \<and> snd ks \<noteq> JStr redacted_value \<or> ks \<in> set (secret_leaves original)"
  "restore_entries d ds = Inr rs \<Longrightarrow> ks \<in> set (entries_leaves rs) \<Longrightarrow>
     ks \<in> set (entries_leaves d) \<and> snd ks \<noteq> JStr redacted_value \<or> ks \<in> set (entries_leaves ds)"
  "restore_items xs req i all = Inr ys \<Longrightarrow> ks \<in> set (items_leaves ys) \<Longrightarrow>
     ks \<in> set (items_leaves xs) \<and> snd ks \<noteq> JStr redacted_value \<or> ks \<in> set (items_leaves all)"
proof (induction v original and d ds and xs req i all arbitrary: r and rs and ys
    rule: restore_redacted_secrets_restore_entries_restore_items.induct)
  case (1 d original)
  then show ?case by (cases original) (auto simp: result_simps)
next
  case (2 xs original)
  then show ?case by (cases original) (auto simp: result_simps)
next
  case (5 k v d original)
  from 5(3) obtain v' d' where v': "(if is_secret_key k \<and> v = JStr redacted_value
        then (case map_of original k of None \<Rightarrow> Inl NoOriginalSecret | Some s \<Rightarrow> Inr s)
        else restore_redacted_secrets v (field original k)) = Inr v'"
    and d': "restore_entries d original = Inr d'" and rs: "rs = (k, v') # d'"
    by (auto simp: result_simps)
  from 5(4) consider "is_secret_key k" "is_leaf v'" "ks = (k, v')" | "ks \<in> set (secret_leaves v')"
    | "ks \<in> set (entries_leaves d')"
    by (auto simp: rs split: if_splits)
  then show ?case
  proof cases
    case 1
    then show ?thesis using v' restored_leaf leaves_of_original(1)
      by (auto split: if_splits option.splits)
  next
    case 2
    then show ?thesis
      using v' 5(1) [of v'] leaves_of_original(2) leaves_of_field [of "JObj original" k]
      by (fastforce split: if_splits option.splits)
  next
    case 3
    then show ?thesis using 5(2) [OF d'] v' by auto
  qed
next
  case (7 x xs req i all)
  from 7(3) obtain source x' xs' where source: "(if contains_secret_placeholder x then original_list_item x all req
        else Inr (if i < length all then all ! i else JNull)) = Inr source"
    and x': "restore_redacted_secrets x source = Inr x'"
    and xs': "restore_items xs req (Suc i) all = Inr xs'" and ys: "ys = x' # xs'"
    by (auto simp: result_simps)
  have "source \<in> set all \<or> source = JNull"
    using source by (auto split: if_splits dest: original_list_item_member)
  then have "set (secret_leaves source) \<subseteq> set (items_leaves all)"
    using leaves_of_member by auto
  then show ?case using 7(1) [OF x'] 7(2) [OF xs'] 7(4) by (auto simp: ys)
qed auto

section \<open>Properties\<close>

text \<open>
  C33: A configuration value that is shown with its secrets masked and sent back unchanged is restored to
  itself, each secret returning to its own place, if in each of its lists of several items every item with
  a secret has an id, key, code or name that no other item of the list has; if one has not, the submission
  is refused, and never restored with the secrets of another item.  The keys of an object are distinct.
\<close>

theorem masked_configuration_restored:
  assumes "well_keyed v"
  shows "restore_redacted_secrets (redact_secrets v) v = (if identifiable v then Inr v else Inl AmbiguousItem)"
  by (rule restore_redacted(1) [OF assms])

definition sample_configuration :: json where
  "sample_configuration =
     JObj [(''host'', JStr ''gw''), (''Shared-Key'', JStr ''s3''),
           (''clients'', JList [JObj [(''ID'', JInt 1), (''apiToken'', JStr ''a'')],
                                JObj [(''ID'', JInt 2), (''apiToken'', JStr ''b'')]])]"

definition sample_anonymous :: json where
  "sample_anonymous = JList [JObj [(''token'', JStr ''a'')], JObj [(''token'', JStr ''b'')]]"

lemma sample_identifiable:
  "well_keyed sample_configuration" "identifiable sample_configuration"
  "redact_secrets sample_configuration \<noteq> sample_configuration"
  "well_keyed sample_anonymous" "\<not> identifiable sample_anonymous"
  by code_simp+

theorem masked_configuration_restored_witness:
  "redact_secrets sample_configuration \<noteq> sample_configuration \<and>
   restore_redacted_secrets (redact_secrets sample_configuration) sample_configuration = Inr sample_configuration \<and>
   restore_redacted_secrets (redact_secrets sample_anonymous) sample_anonymous = Inl AmbiguousItem"
  using masked_configuration_restored [OF sample_identifiable(1)]
    masked_configuration_restored [OF sample_identifiable(4)] sample_identifiable by simp

text \<open>
  C34: At every place what is shown of a configuration value is what stands there, up to the first secret key;
  under a secret key it is the mask, whatever stands there (a plain value, an object or a list), and nothing
  below it.  And a restored submission carries directly under a secret key only a plain value that was
  submitted there in the clear or one the stored configuration has under a key of the same name, never
  the placeholder unless that is stored itself.
\<close>

theorem secrets_shown_and_restored:
  assumes "restore_redacted_secrets v original = Inr r"
  shows "(\<forall>p. map_option outer (at_path (redact_secrets r) p) = may_see r p) \<and>
         set (secret_leaves r) \<subseteq>
           {ks \<in> set (secret_leaves v). snd ks \<noteq> JStr redacted_value} \<union> set (secret_leaves original)"
  using redacted_seen restored_leaves(1) [OF assms] by blast

definition sample_submission :: json where
  "sample_submission =
     JObj [(''Shared-Key'', JStr redacted_value),
           (''clients'', JList [JObj [(''ID'', JInt 2), (''apiToken'', JStr redacted_value)],
                                JObj [(''ID'', JInt 3), (''apiToken'', JStr ''c'')]])]"

definition sample_restored :: json where
  "sample_restored =
     JObj [(''Shared-Key'', JStr ''s3''),
           (''clients'', JList [JObj [(''ID'', JInt 2), (''apiToken'', JStr ''b'')],
                                JObj [(''ID'', JInt 3), (''apiToken'', JStr ''c'')]])]"

lemma sample_submission_restored: "restore_redacted_secrets sample_submission sample_configuration = Inr sample_restored"
  by code_simp

definition nested_secrets :: json where
  "nested_secrets = JObj [(''tokens'', JList [JStr ''a'', JObj [(''x'', JInt 1)]]), (''host'', JStr ''gw'')]"

lemma nested_restored: "restore_redacted_secrets nested_secrets JNull = Inr nested_secrets"
  by code_simp

lemma nested_seen:
  "may_see nested_secrets [AtKey ''tokens''] = Some (JStr redacted_value)"
  "may_see nested_secrets [AtKey ''tokens'', AtIndex 0] = None"
  "may_see nested_secrets [AtKey ''host''] = Some (JStr ''gw'')"
  by code_simp+

theorem secrets_shown_and_restored_witness:
  "map_option outer (at_path (redact_secrets nested_secrets) [AtKey ''tokens'']) = Some (JStr redacted_value) \<and>
   at_path (redact_secrets nested_secrets) [AtKey ''tokens'', AtIndex 0] = None \<and>
   map_option outer (at_path (redact_secrets nested_secrets) [AtKey ''host'']) = Some (JStr ''gw'') \<and>
   restore_redacted_secrets sample_submission sample_configuration = Inr sample_restored \<and>
   set (secret_leaves sample_restored) \<subseteq>
     {ks \<in> set (secret_leaves sample_submission). snd ks \<noteq> JStr redacted_value} \<union> set (secret_leaves sample_configuration)"
proof -
  note shown = secrets_shown_and_restored [OF nested_restored, THEN conjunct1, rule_format]
  have "map_option outer (at_path (redact_secrets nested_secrets) [AtKey ''tokens'', AtIndex 0]) = None"
    by (simp only: shown nested_seen)
  then show ?thesis
    using secrets_shown_and_restored [OF sample_submission_restored] sample_submission_restored
      shown [of "[AtKey ''tokens'']"] shown [of "[AtKey ''host'']"] nested_seen
    by simp
qed

end
