(* ===== verification/Spec2Isabelle.thy ===== *)
theory Spec2Isabelle
  imports Chassis_Persistence Manufacturer_Sync Scan_Expansion Discovery_Lists Charger_Polling Alerts
    Discovery_Approval Subscription_Supervisor Realtime_Connections Device_Updates Settings_Service Vendor_Streams
    Monitoring_Access Secret_Redaction
begin

text \<open>
  A model of the core services of django-micboard, a Django application that watches wireless
  microphone systems: it polls the vendors' APIs, recognises the devices it is told about, keeps
  them with their channels and addresses in one inventory, schedules network discovery, raises
  alerts, and separates the tenants that share an installation.  Sources are named below
  \<open>src/micboard\<close>.

  Conventions.  A model row is a record (\<open>Models\<close> and the theory of its component), a table a list
  of rows in insertion order, a queryset a function on such lists.  What a service reads and
  writes is passed in and returned; a transaction is a function that returns either an error,
  when nothing is kept, or the new state.  Every exception a caller can observe is a constructor
  of an error type in a sum.  Texts are lists of characters, Python's integers are \<open>int\<close>, floating
  point numbers are rationals, instants count microseconds, dictionaries are maps or, where their
  order shows, association lists.  Third-party code is a parameter: vendor plugins and HTTP
  exchanges, JSON parsing, hashes, name resolution, the e-mail backend.  The shared cache is a map
  that may be down.  Log lines, metrics and metadata for display are left out.

  Parts and theories, in the order of the imports.

  \<^item> \<open>Prelude\<close>: sums with \<open>bindE\<close>, dictionaries in insertion order, text functions; the fact
    collections \<open>result_simps\<close> and \<open>dict_simps\<close>.
  \<^item> \<open>Mac_Address\<close> (\<open>utils/mac_address.py\<close>) and \<open>Ip_Address\<close>: canonical forms of addresses and the
    stored spellings a query has to try.
  \<^item> \<open>Models\<close> (\<open>models\<close>): rows, the columns of a chassis, \<open>get\<close> and \<open>first\<close>.
  \<^item> \<open>Identity_Index\<close>, \<open>Deduplication\<close>, \<open>Queue_Conflict\<close> (\<open>services/deduplication\<close>): is a reported
    device new, known, moved or in conflict.  The batch index refines the individual queries.
  \<^item> \<open>Audit_Trail\<close> (\<open>services/maintenance\<close>): what is logged, archived and pruned.
  \<^item> \<open>Lifecycle\<close> (\<open>services/core/hardware_lifecycle.py\<close>, \<open>services/hardware\<close>): the state machines of
    chassis, units and channels with the fields a save derives; reachability over their tables.
  \<^item> \<open>Regulatory\<close> (\<open>services/hardware/chassis_regulatory_service.py\<close>, \<open>models/band_plans.py\<close>,
    \<open>models/device_specs.py\<close>): specifications, band plans, coverage by a regulatory domain.
  \<^item> \<open>Chassis_Save\<close> (\<open>model_lifecycle.py\<close>, \<open>services/hardware/ip_ownership_service.py\<close>,
    \<open>services/core/hardware_sync.py\<close>): one save of a chassis with everything it triggers.
  \<^item> \<open>Chassis_Persistence\<close> (\<open>services/hardware/wireless_chassis_persistence_service.py\<close>): creating and
    updating chassis under the quota of an organization.
  \<^item> \<open>Workload_Limits\<close>: settings that become bounded limits; the locale \<open>bounded_setting\<close> states what
    every limit relies on and is interpreted by both parsers of the code.
  \<^item> \<open>Manufacturer_Sync\<close> (\<open>services/manufacturer/sync.py\<close>, \<open>services/core/hardware.py\<close>): one polled
    batch, from the payloads to the inventory.
  \<^item> \<open>Discovery_Sources\<close> and \<open>Scan_Expansion\<close> (\<open>services/sync/discovery_source_cursor_service.py\<close>,
    \<open>discovery_utils.py\<close>, \<open>discovery_candidate_source_service.py\<close>): rotating pages of local sources
    under one budget, and the addresses of the configured ranges and names.
  \<^item> \<open>Vendor_Client\<close> (\<open>services/common/base\<close>): circuit breaker, bounded transport, retries.
    \<open>Discovery_Lists\<close> (\<open>integrations/shure\<close>, \<open>integrations/sennheiser\<close>): the vendor's discovery list;
    the locale \<open>list_edit\<close> is the contract of its four edits.
  \<^item> \<open>Charger_Polling\<close> (\<open>services/chargers\<close>): a charger inventory polled page by page.
  \<^item> \<open>Tenant_Scope\<close> (\<open>models/base_managers.py\<close>, \<open>services/shared/access_policy.py\<close>): who sees and who
    changes which rows.
  \<^item> \<open>Alerts\<close> (\<open>services/monitoring\<close>): conditions, recipients, deduplication, delivery, and the scan
    that follows a poll.

  \<^item> \<open>Discovery_Approval\<close> (\<open>services/sync/discovery_approval_*.py\<close>): staged devices become managed
    ones: locking, matching, claims of addresses and targets, permissions, persistence, review.
  \<^item> \<open>Subscription_Supervisor\<close> and \<open>Realtime_Connections\<close> (\<open>services/realtime\<close>): the lease of a
    supervisor, its choice of devices, its workers and rounds; the rows of its connections, the
    sessions that write them and the sweep that cleans them up.
  \<^item> \<open>Device_Updates\<close> (\<open>services/sync/device_update_service.py\<close>): polled and realtime payloads
    written to chassis, channels and units, with slots, alerts and offline reconciliation; the
    locale \<open>update_relation\<close> is the frame rule of its operations, interpreted for two relations.
  \<^item> \<open>Settings_Registry\<close> (\<open>models/settings/registry.py\<close>, \<open>services/settings/registry.py\<close>): typed settings with
    overrides per scope, and their caches with generations under every interleaving of readers and writers;
    the locale \<open>generation_scheme\<close> is the contract of the two caches.  \<open>Settings_Service\<close> (\<open>services/settings\<close>,
    \<open>forms/settings.py\<close>, \<open>admin/settings.py\<close>): resolution, visibility, the forms from the posted texts on, batches.
  \<^item> \<open>Vendor_Payloads\<close> and \<open>Vendor_Streams\<close> (\<open>integrations\<close>): from the JSON of a service to device payloads;
    the event stream cut into lines and events, its control request, the web socket, the spacing of calls.
  \<^item> \<open>Monitoring_Access\<close> (\<open>services/core/performer_assignment.py\<close>, \<open>services/monitoring\<close>): who sees, creates and
    changes the assignments of performers, and the assignment preferred for a unit.
  \<^item> \<open>Secret_Redaction\<close> (\<open>services/manufacturer/secret_redaction.py\<close>): configurations shown without their
    secrets and restored from a submission.

  What the lemmas show.  Each component has its invariants (addresses have one owner, quotas hold,
  saved rows follow the lifecycle tables, budgets are never exceeded), the functional result of
  its operations on every branch, and where the code has two ways to one result their equality:
  index and queries, manager and save hook, many pages and one poll, breaker state and history.
  Safety across components: neither a synchronisation nor a device update touches another
  manufacturer, two tenants see a common row only where each has a membership owning it through a related
  row, an alert only reaches who is entitled to it.  Some theorems record what the code does against its
  intention; the manifest lists them as findings.

  Bounds.  Loops over finite data are structural recursions.  The others terminate by a measure:
  the budget loop by the remaining budget, the expansion loop by the addresses left, the retry
  loop by the retries left.  No definition uses fuel.  Two loops of the code may run forever, the
  rounds of a supervisor and the search for a slot: they are partial functions into \<open>option\<close>, and
  theorems say exactly when they return.  Concurrency is interleaving: cache calls of supervisors
  and moves of workers are steps in any order, and invariants hold over every order.

  Not modelled.  Database migrations, the admin site, forms, views, serializers, templates and URL
  tables are framework configuration, except where a form, an admin action or a serializer carries
  rules of the settings.  Discovery jobs and their triggers and the kiosk are services
  of the same kind that are not modelled yet.  Row locks appear as the atomicity of each operation.

  Limits.  The clock stands still during one alert scan and one device update.  The cache of the supervisor's
  lease drops no entry before it expires; a cached value of a setting may be lost at any time, a generation
  token stays.  A settings form is shown and saved over the same definitions.  Characters are those of
  Latin-1.
\<close>

end
